(* ===== verification/Prelude.thy ===== *)
theory Prelude
  imports Main "HOL-Library.Word" "HOL-Library.Monad_Syntax"
begin

text \<open>
  Shared vocabulary of the development: the machine types of the C++ sources, the model of
  raw buffer accesses, conversions between \<open>char\<close> and \<open>std::byte\<close>, and the predicate
  \<open>holds_at\<close> ("the bytes \<open>bs\<close> stand at offset \<open>off\<close> of the buffer") through which every
  codec lemma of the wire-format theories is stated.

  An access of the sources to a buffer (\<open>buf[i]\<close> on a span or vector, a read through a raw
  pointer, a copy of a byte range) is undefined behaviour when it is out of range. The model
  makes that a value: a function that touches memory returns an \<open>option\<close>, and \<open>None\<close> means
  that an access was out of range. A statement \<open>f x = Some y\<close> therefore includes memory
  safety.

  Sizes and offsets (\<open>size_t\<close>) are natural numbers: every offset of the sources is at most a
  buffer size plus a few kilobytes, far below \<open>2^64\<close>. Values that live in fixed-width fields
  of packets are words of that width.
\<close>

unbundle bit_operations_syntax

section \<open>Machine types\<close>

type_synonym u8 = "8 word"
type_synonym u16 = "16 word"
type_synonym u32 = "32 word"
type_synonym byte = "8 word"
type_synonym bytes = "byte list"

named_theorems at_simps \<open>reading back what was written at an offset of a buffer\<close>
named_theorems mem_safe \<open>an operation performs no out-of-range access\<close>
named_theorems wire_defs \<open>definitions of the packet builders\<close>

section \<open>Characters and bytes\<close>

definition byte_of_char :: "char \<Rightarrow> byte" where
  "byte_of_char c = word_of_nat (of_char c)"

definition char_of_byte :: "byte \<Rightarrow> char" where
  "char_of_byte b = char_of (unat b)"

lemma of_char_nat_less [simp]: "(of_char c :: nat) < 256"
  using of_char_mod_256 [of c, where ?'a = nat] by (metis mod_less_divisor zero_less_numeral)

lemma unat_byte_of_char [simp]: "unat (byte_of_char c) = of_char c"
  by (simp add: byte_of_char_def unat_of_nat)

lemma char_of_byte_of_char [simp]: "char_of_byte (byte_of_char c) = c"
  by (simp add: char_of_byte_def)

lemma unat_byte_less [simp]: "unat (b :: byte) < 256"
  using unsigned_less [of b, where ?'a = nat] by simp

lemma unat_u16_less [simp]: "unat (v :: u16) < 65536"
  using unsigned_less [of v, where ?'a = nat] by simp

lemma byte_of_char_of_byte [simp]: "byte_of_char (char_of_byte b) = b"
  by (simp add: byte_of_char_def char_of_byte_def of_char_of)

lemma byte_of_char_eq_iff [simp]: "byte_of_char c = byte_of_char d \<longleftrightarrow> c = d"
  by (metis char_of_byte_of_char)

lemma char_of_byte_eq_iff [simp]: "char_of_byte a = char_of_byte b \<longleftrightarrow> a = b"
  by (metis byte_of_char_of_byte)

lemma map_char_of_byte_of_char [simp]: "map (char_of_byte \<circ> byte_of_char) s = s"
  by (induction s) auto

definition bytes_of_string :: "string \<Rightarrow> bytes" where
  "bytes_of_string s = map byte_of_char s"

definition string_of_bytes :: "bytes \<Rightarrow> string" where
  "string_of_bytes bs = map char_of_byte bs"

lemma length_bytes_of_string [simp]: "length (bytes_of_string s) = length s"
  by (simp add: bytes_of_string_def)

lemma length_string_of_bytes [simp]: "length (string_of_bytes bs) = length bs"
  by (simp add: string_of_bytes_def)

lemma string_of_bytes_of_string [simp]: "string_of_bytes (bytes_of_string s) = s"
  by (simp add: string_of_bytes_def bytes_of_string_def)

lemma bytes_of_string_simps [simp]:
  "bytes_of_string [] = []"
  "bytes_of_string (c # s) = byte_of_char c # bytes_of_string s"
  "bytes_of_string (s @ t) = bytes_of_string s @ bytes_of_string t"
  by (simp_all add: bytes_of_string_def)

lemma string_of_bytes_simps [simp]:
  "string_of_bytes [] = []"
  "string_of_bytes (b # bs) = char_of_byte b # string_of_bytes bs"
  "string_of_bytes (bs @ cs) = string_of_bytes bs @ string_of_bytes cs"
  by (simp_all add: string_of_bytes_def)

section \<open>Searching a string view\<close>

text \<open>\<open>std::string_view::find(c, pos)\<close>; \<open>None\<close> is \<open>npos\<close>.\<close>

definition sv_find :: "string \<Rightarrow> char \<Rightarrow> nat \<Rightarrow> nat option" where
  "sv_find s c pos =
     (let k = pos + length (takeWhile (\<lambda>x. x \<noteq> c) (drop pos s))
      in if k < length s then Some k else None)"

lemma sv_find_bounds: "sv_find s c pos = Some k \<Longrightarrow> pos \<le> k \<and> k < length s"
  by (auto simp: sv_find_def Let_def split: if_splits)

lemma takeWhile_not_in [simp]:
  "c \<notin> set xs \<Longrightarrow> takeWhile (\<lambda>x. x \<noteq> c) xs = xs"
  "c \<notin> set xs \<Longrightarrow> takeWhile (\<lambda>x. x \<noteq> c) (xs @ c # ys) = xs"
  by (induction xs) auto

lemma sv_find_append_Some:
  "c \<notin> set xs \<Longrightarrow> sv_find (xs @ c # ys) c 0 = Some (length xs)"
  by (simp add: sv_find_def Let_def)

lemma sv_find_None: "c \<notin> set xs \<Longrightarrow> sv_find xs c 0 = None"
  by (simp add: sv_find_def Let_def)

section \<open>Raw buffer accesses\<close>

definition byte_at :: "bytes \<Rightarrow> nat \<Rightarrow> byte option" where
  "byte_at buf i = (if i < length buf then Some (buf ! i) else None)"

definition slice :: "bytes \<Rightarrow> nat \<Rightarrow> nat \<Rightarrow> bytes option" where
  "slice buf off n = (if off + n \<le> length buf then Some (take n (drop off buf)) else None)"

definition poke :: "bytes \<Rightarrow> nat \<Rightarrow> byte \<Rightarrow> bytes option" where
  "poke buf i b = (if i < length buf then Some (buf[i := b]) else None)"

lemma byte_at_Some [mem_safe]: "i < length buf \<Longrightarrow> byte_at buf i = Some (buf ! i)"
  by (simp add: byte_at_def)

lemma byte_at_None_iff: "byte_at buf i = None \<longleftrightarrow> length buf \<le> i"
  by (simp add: byte_at_def)

lemma byte_at_Some_iff: "byte_at buf i = Some b \<longleftrightarrow> i < length buf \<and> buf ! i = b"
  by (auto simp: byte_at_def)

lemma byte_at_lt: "byte_at buf i = Some b \<Longrightarrow> \<not> length buf \<le> i"
  by (simp add: byte_at_Some_iff)

lemma slice_Some [mem_safe]: "off + n \<le> length buf \<Longrightarrow> slice buf off n = Some (take n (drop off buf))"
  by (simp add: slice_def)

lemma slice_length: "slice buf off n = Some bs \<Longrightarrow> length bs = n"
  by (auto simp: slice_def split: if_splits)

lemma poke_Some [mem_safe]: "i < length buf \<Longrightarrow> poke buf i b = Some (buf[i := b])"
  by (simp add: poke_def)

lemma poke_length: "poke buf i b = Some buf' \<Longrightarrow> length buf' = length buf"
  by (auto simp: poke_def split: if_splits)

section \<open>Bytes standing at an offset\<close>

definition holds_at :: "bytes \<Rightarrow> nat \<Rightarrow> bytes \<Rightarrow> bool" where
  "holds_at buf off bs \<longleftrightarrow> off + length bs \<le> length buf \<and> take (length bs) (drop off buf) = bs"

lemma holds_at_Nil [simp]: "holds_at buf off [] \<longleftrightarrow> off \<le> length buf"
  by (simp add: holds_at_def)

lemma holds_at_bound: "holds_at buf off bs \<Longrightarrow> off + length bs \<le> length buf"
  by (simp add: holds_at_def)

lemma holds_at_append:
  "holds_at buf off (xs @ ys) \<longleftrightarrow> holds_at buf off xs \<and> holds_at buf (off + length xs) ys"
proof -
  have "take (length xs + length ys) (drop off buf)
      = take (length xs) (drop off buf) @ take (length ys) (drop (off + length xs) buf)"
    by (simp add: take_add ac_simps)
  then show ?thesis
    by (auto simp: holds_at_def append_eq_append_conv)
qed

lemma holds_at_Cons:
  "holds_at buf off (b # bs) \<longleftrightarrow> byte_at buf off = Some b \<and> holds_at buf (Suc off) bs"
proof -
  have "holds_at buf off [b] \<longleftrightarrow> byte_at buf off = Some b"
    by (auto simp: holds_at_def byte_at_def take_Suc hd_drop_conv_nth)
  then show ?thesis
    using holds_at_append [of buf off "[b]" bs] by simp
qed

lemma holds_at_byte_at [at_simps]: "holds_at buf off (b # bs) \<Longrightarrow> byte_at buf off = Some b"
  by (simp add: holds_at_Cons)

lemma holds_at_slice [at_simps]: "holds_at buf off bs \<Longrightarrow> slice buf off (length bs) = Some bs"
  by (simp add: holds_at_def slice_def)

lemma holds_at_appendD1: "holds_at buf off (xs @ ys) \<Longrightarrow> holds_at buf off xs"
  by (simp add: holds_at_append)

lemma holds_at_appendD2: "holds_at buf off (xs @ ys) \<Longrightarrow> holds_at buf (off + length xs) ys"
  by (simp add: holds_at_append)

lemma holds_at_middle [simp, intro]: "holds_at (pre @ bs @ post) (length pre) bs"
  by (simp add: holds_at_def)

lemma holds_at_self [simp]: "holds_at buf 0 buf"
  by (simp add: holds_at_def)

lemma holds_at_extend: "holds_at buf off bs \<Longrightarrow> holds_at (buf @ post) off bs"
  by (auto simp: holds_at_def)

end
