(* ===== verification/Dns_Types.thy ===== *)
theory Dns_Types
  imports Prelude "HOL-Library.Char_ord" "HOL-Library.List_Lexorder"
begin

text \<open>
  The vocabulary types of the library: the enumerations of \<open>detail/dns_enums.h\<close> and
  \<open>mdns_error.h\<close>, the normalised names of \<open>dns_name.h\<close>, the endpoint of \<open>endpoint.h\<close>, the
  resource records of \<open>records.h\<close>, the service description of \<open>service_info.h\<close> and the
  options of \<open>service_options.h\<close>.
\<close>

section \<open>Enumerations\<close>

text \<open>
  \<open>dns_type\<close> and \<open>dns_class\<close> are scoped enumerations over \<open>uint16_t\<close>: a value read from the
  wire is cast to them and may be none of the named enumerators. \<open>Type_other\<close> and
  \<open>Class_other\<close> carry such a value.
\<close>

datatype dns_type =
    Type_none | Type_a | Type_ptr | Type_txt | Type_aaaa | Type_srv | Type_nsec | Type_any
  | Type_other u16

fun type_underlying :: "dns_type \<Rightarrow> u16" where
  "type_underlying Type_none = 0"
| "type_underlying Type_a = 1"
| "type_underlying Type_ptr = 12"
| "type_underlying Type_txt = 16"
| "type_underlying Type_aaaa = 28"
| "type_underlying Type_srv = 33"
| "type_underlying Type_nsec = 47"
| "type_underlying Type_any = 255"
| "type_underlying (Type_other v) = v"

definition dns_type_of :: "u16 \<Rightarrow> dns_type" where
  "dns_type_of v =
     (if v = 0 then Type_none else if v = 1 then Type_a else if v = 12 then Type_ptr
      else if v = 16 then Type_txt else if v = 28 then Type_aaaa else if v = 33 then Type_srv
      else if v = 47 then Type_nsec else if v = 255 then Type_any else Type_other v)"

datatype dns_class = Class_none | Class_in | Class_other u16

fun class_underlying :: "dns_class \<Rightarrow> u16" where
  "class_underlying Class_none = 0"
| "class_underlying Class_in = 1"
| "class_underlying (Class_other v) = v"

definition dns_class_of :: "u16 \<Rightarrow> dns_class" where
  "dns_class_of v = (if v = 0 then Class_none else if v = 1 then Class_in else Class_other v)"

datatype response_mode = Multicast | Unicast | Unicast_legacy

datatype conflict_type = Name_conflict | Tiebreak_deferred

fun type_to_string :: "dns_type \<Rightarrow> string" where
  "type_to_string Type_none = ''none''"
| "type_to_string Type_a = ''A''"
| "type_to_string Type_ptr = ''PTR''"
| "type_to_string Type_txt = ''TXT''"
| "type_to_string Type_aaaa = ''AAAA''"
| "type_to_string Type_srv = ''SRV''"
| "type_to_string Type_nsec = ''NSEC''"
| "type_to_string Type_any = ''ANY''"
| "type_to_string (Type_other v) = ''unknown''"

fun class_to_string :: "dns_class \<Rightarrow> string" where
  "class_to_string Class_none = ''none''"
| "class_to_string Class_in = ''IN''"
| "class_to_string (Class_other v) = ''unknown''"

lemma type_underlying_of [simp]: "type_underlying (dns_type_of v) = v"
  by (simp add: dns_type_of_def)

lemma class_underlying_of [simp]: "class_underlying (dns_class_of v) = v"
  by (simp add: dns_class_of_def)

lemma dns_type_of_known [simp]:
  "dns_type_of 0 = Type_none" "dns_type_of 1 = Type_a" "dns_type_of 12 = Type_ptr"
  "dns_type_of 16 = Type_txt" "dns_type_of 28 = Type_aaaa" "dns_type_of 33 = Type_srv"
  "dns_type_of 47 = Type_nsec" "dns_type_of 255 = Type_any"
  by (simp_all add: dns_type_of_def)

lemma dns_class_of_known [simp]: "dns_class_of 0 = Class_none" "dns_class_of 1 = Class_in"
  by (simp_all add: dns_class_of_def)

section \<open>Errors\<close>

datatype mdns_error =
    Socket_error | No_interfaces | Parse_error | Send_failed | Receive_failed | Timeout
  | Not_implemented | Probe_conflict | Invalid_ipv4_address | Invalid_ipv6_address

fun error_value :: "mdns_error \<Rightarrow> int" where
  "error_value Socket_error = 1"
| "error_value No_interfaces = 2"
| "error_value Parse_error = 3"
| "error_value Send_failed = 4"
| "error_value Receive_failed = 5"
| "error_value Timeout = 6"
| "error_value Not_implemented = 7"
| "error_value Probe_conflict = 8"
| "error_value Invalid_ipv4_address = 9"
| "error_value Invalid_ipv6_address = 10"

definition error_message :: "int \<Rightarrow> string" where
  "error_message ev =
     (if ev = 1 then ''socket error''
      else if ev = 2 then ''no network interfaces available''
      else if ev = 3 then ''DNS parse error''
      else if ev = 4 then ''send failed''
      else if ev = 5 then ''receive failed''
      else if ev = 6 then ''operation timed out''
      else if ev = 7 then ''not implemented''
      else if ev = 8 then ''name conflict detected during probing''
      else if ev = 9 then ''invalid IPv4 address''
      else if ev = 10 then ''invalid IPv6 address''
      else ''unknown mdns error'')"

lemma error_value_inject: "error_value e = error_value e' \<longleftrightarrow> e = e'"
  by (cases e; cases e') simp_all

text \<open>\<open>detail::expected<T, mdns_error>\<close> is a sum; \<open>Inl\<close> is \<open>make_unexpected\<close>.\<close>

type_synonym 'a expected = "mdns_error + 'a"

section \<open>Names\<close>

text \<open>
  \<open>std::tolower\<close> on an \<open>unsigned char\<close> in the "C" locale, which is the locale of a program
  that does not call \<open>setlocale\<close>: only the letters A to Z change.
\<close>

definition tolower :: "char \<Rightarrow> char" where
  "tolower c =
     (if 65 \<le> (of_char c :: nat) \<and> (of_char c :: nat) \<le> 90 then char_of ((of_char c :: nat) + 32)
      else c)"

definition normalize :: "string \<Rightarrow> string" where
  "normalize sv =
     (if sv = [] then []
      else (let result = map tolower sv
            in if last result \<noteq> CHR ''.'' then result @ [CHR ''.''] else result))"

text \<open>The invariant the class comment states: lower case with a trailing dot, or empty.\<close>

definition fqdn :: "string \<Rightarrow> bool" where
  "fqdn s \<longleftrightarrow> (\<forall>c \<in> set s. tolower c = c) \<and> (s = [] \<or> last s = CHR ''.'')"

lemma of_char_tolower:
  "(of_char (tolower c) :: nat) =
     (if 65 \<le> (of_char c :: nat) \<and> (of_char c :: nat) \<le> 90 then of_char c + 32 else of_char c)"
  by (simp add: tolower_def of_char_of)

lemma tolower_idem [simp]: "tolower (tolower c) = tolower c"
  by (auto simp: tolower_def [of "tolower c"] of_char_tolower)

lemma tolower_dot [simp]: "tolower CHR ''.'' = CHR ''.''"
  by (simp add: tolower_def)

lemma tolower_eq_dot [simp]: "tolower c = CHR ''.'' \<longleftrightarrow> c = CHR ''.''"
proof
  assume "tolower c = CHR ''.''"
  then have "(of_char (tolower c) :: nat) = 46" by simp
  then have "(of_char c :: nat) = 46" by (simp add: of_char_tolower split: if_splits)
  then have "(of_char c :: nat) = of_char CHR ''.''" by simp
  then show "c = CHR ''.''" by (simp only: of_char_eq_iff)
qed simp

lemma fqdn_Nil [simp]: "fqdn []"
  by (simp add: fqdn_def)

lemma fqdn_normalize [simp]: "fqdn (normalize s)"
  by (auto simp: fqdn_def normalize_def Let_def last_map)

lemma map_tolower_id: "\<forall>c \<in> set s. tolower c = c \<Longrightarrow> map tolower s = s"
  by (simp add: map_idI)

lemma normalize_fqdn [simp]: "fqdn s \<Longrightarrow> normalize s = s"
  by (auto simp: fqdn_def normalize_def Let_def map_tolower_id)

lemma normalize_Nil_iff [simp]: "normalize s = [] \<longleftrightarrow> s = []"
  by (auto simp: normalize_def Let_def)

text \<open>
  \<open>class dns_name\<close>: the string member is private and every constructor and assignment
  normalises, so the class is the type of the strings that satisfy its invariant.
\<close>

typedef dns_name = "{s. fqdn s}" morphisms str Abs_dns_name
  by (rule exI [of _ "[]"]) simp

setup_lifting type_definition_dns_name

lift_definition dns_name :: "string \<Rightarrow> dns_name" is normalize
  by simp

lift_definition empty_name :: dns_name is "[]"
  by simp

lemma str_dns_name [simp]: "str (dns_name s) = normalize s"
  by (rule dns_name.rep_eq)

lemma str_empty_name [simp]: "str empty_name = []"
  by (rule empty_name.rep_eq)

lemma fqdn_str [simp]: "fqdn (str n)"
  using str [of n] by simp

lemma dns_name_str [simp]: "dns_name (str n) = n"
  by (simp add: str_inject [symmetric])

lemma dns_name_eq_iff [simp]: "dns_name s = dns_name t \<longleftrightarrow> normalize s = normalize t"
  by (metis dns_name_str str_dns_name)

lemma dns_name_eq_empty [simp]: "dns_name s = empty_name \<longleftrightarrow> s = []"
  by (metis normalize_Nil_iff str_dns_name str_empty_name dns_name_str)

text \<open>The defaulted comparison operators of \<open>dns_name\<close> compare the stored strings.\<close>

instantiation dns_name :: linorder
begin

lift_definition less_eq_dns_name :: "dns_name \<Rightarrow> dns_name \<Rightarrow> bool" is "\<lambda>s t. s \<le> t" .

lift_definition less_dns_name :: "dns_name \<Rightarrow> dns_name \<Rightarrow> bool" is "\<lambda>s t. s < t" .

instance
  by standard (transfer; auto simp: less_le_not_le)+

end

instantiation dns_name :: equal
begin

definition equal_dns_name :: "dns_name \<Rightarrow> dns_name \<Rightarrow> bool" where
  "equal_dns_name m n \<longleftrightarrow> str m = str n"

instance
  by standard (simp add: equal_dns_name_def str_inject)

end

section \<open>Endpoints and resource records\<close>

record endpoint =
  ep_address :: string
  ep_port :: u16

definition no_endpoint :: endpoint where
  "no_endpoint = \<lparr>ep_address = [], ep_port = 0\<rparr>"

record service_txt =
  txt_key :: string
  txt_value :: "string option"

text \<open>The six members that every record type of \<open>records.h\<close> declares, then one extension each.\<close>

record record_base =
  rec_name :: dns_name
  rec_ttl :: u32
  rec_class :: dns_class
  rec_length :: u32
  sender_address :: string
  rec_cache_flush :: bool

record record_ptr = record_base +
  ptr_name :: dns_name

record record_srv = record_base +
  srv_port :: u16
  srv_weight :: u16
  srv_priority :: u16
  srv_name :: dns_name

record record_a = record_base +
  a_address_string :: string

record record_aaaa = record_base +
  aaaa_address_string :: string

record record_txt = record_base +
  txt_entries :: "service_txt list"

datatype mdns_record_variant =
    Rec_ptr record_ptr
  | Rec_srv record_srv
  | Rec_a record_a
  | Rec_aaaa record_aaaa
  | Rec_txt record_txt

text \<open>\<open>std::visit\<close> with a visitor that reads one of the common members.\<close>

fun visit_base :: "mdns_record_variant \<Rightarrow> record_base" where
  "visit_base (Rec_ptr r) = record_base.truncate r"
| "visit_base (Rec_srv r) = record_base.truncate r"
| "visit_base (Rec_a r) = record_base.truncate r"
| "visit_base (Rec_aaaa r) = record_base.truncate r"
| "visit_base (Rec_txt r) = record_base.truncate r"

definition variant_name :: "mdns_record_variant \<Rightarrow> dns_name" where
  "variant_name rec = rec_name (visit_base rec)"

lemma rec_truncate [simp]:
  "rec_name (record_base.truncate r) = rec_name r"
  "rec_ttl (record_base.truncate r) = rec_ttl r"
  "rec_class (record_base.truncate r) = rec_class r"
  "rec_cache_flush (record_base.truncate r) = rec_cache_flush r"
  "sender_address (record_base.truncate r) = sender_address r"
  "rec_length (record_base.truncate r) = rec_length r"
  by (simp_all add: record_base.defs)

section \<open>Service description and options\<close>

record service_info =
  service_name :: dns_name
  service_type :: dns_name
  hostname :: dns_name
  info_port :: u16
  info_priority :: u16
  info_weight :: u16
  address_ipv4 :: "string option"
  address_ipv6 :: "string option"
  txt_records :: "service_txt list"
  subtypes :: "string list"

text \<open>
  Durations are the signed counts of their \<open>std::chrono\<close> type (seconds or milliseconds). The
  conflict callback gets the conflicting name, the attempt number and the kind of conflict; it
  returns its Boolean answer together with the value it left in the \<open>new_name\<close> argument. The
  other two callbacks return nothing: whether they are set is all that the code tests.
\<close>

record service_options =
  on_conflict :: "(string \<Rightarrow> u8 \<Rightarrow> conflict_type \<Rightarrow> bool \<times> string) option"
  has_on_query :: bool
  has_on_tc_continuation :: bool
  announce_count_opt :: u8
  announce_interval :: int
  send_goodbye :: bool
  suppress_known_answers :: bool
  respond_to_meta_queries :: bool
  announce_subtypes :: bool
  probe_count_opt :: u8
  probe_interval :: int
  probe_initial_delay_max :: int
  respond_to_legacy_unicast :: bool
  ptr_ttl :: int
  srv_ttl :: int
  txt_ttl :: int
  a_ttl :: int
  aaaa_ttl :: int
  record_ttl :: int
  probe_authority_ttl :: int
  probe_defer_delay :: int

definition default_service_options :: service_options where
  "default_service_options =
     \<lparr>on_conflict = None, has_on_query = False, has_on_tc_continuation = False,
      announce_count_opt = 2, announce_interval = 1000, send_goodbye = True,
      suppress_known_answers = True, respond_to_meta_queries = True, announce_subtypes = False,
      probe_count_opt = 3, probe_interval = 250, probe_initial_delay_max = 250,
      respond_to_legacy_unicast = True,
      ptr_ttl = 4500, srv_ttl = 4500, txt_ttl = 4500, a_ttl = 4500, aaaa_ttl = 4500,
      record_ttl = 4500, probe_authority_ttl = 120, probe_defer_delay = 1000\<rparr>"

end
