(* ===== verification/Dns_Read.thy ===== *)
theory Dns_Read
  imports Dns_Types
begin

text \<open>
  \<open>detail/dns_read.h\<close>: big-endian integers in a buffer, walking over an encoded name,
  decompressing a name (RFC 1035 section 4.1.4 with the safety rules of RFC 9267) and encoding
  a dotted name. The codec laws of the two integer widths are one locale, \<open>be_codec\<close>.
\<close>

section \<open>Big-endian integers\<close>

definition read_u16_be :: "bytes \<Rightarrow> nat \<Rightarrow> u16 option" where
  "read_u16_be buf p = do {
     b0 \<leftarrow> byte_at buf p;
     b1 \<leftarrow> byte_at buf (p + 1);
     Some (push_bit 8 (ucast b0) OR ucast b1)
   }"

definition read_u32_be :: "bytes \<Rightarrow> nat \<Rightarrow> u32 option" where
  "read_u32_be buf p = do {
     b0 \<leftarrow> byte_at buf p;
     b1 \<leftarrow> byte_at buf (p + 1);
     b2 \<leftarrow> byte_at buf (p + 2);
     b3 \<leftarrow> byte_at buf (p + 3);
     Some (push_bit 24 (ucast b0) OR push_bit 16 (ucast b1) OR push_bit 8 (ucast b2) OR ucast b3)
   }"

definition push_u16_be :: "bytes \<Rightarrow> u16 \<Rightarrow> bytes" where
  "push_u16_be buf v = (buf @ [ucast (drop_bit 8 v)]) @ [ucast (v AND 255)]"

definition push_u32_be :: "bytes \<Rightarrow> u32 \<Rightarrow> bytes" where
  "push_u32_be buf v =
     (((buf @ [ucast (drop_bit 24 v AND 255)]) @ [ucast (drop_bit 16 v AND 255)])
        @ [ucast (drop_bit 8 v AND 255)]) @ [ucast (v AND 255)]"

abbreviation be16 :: "u16 \<Rightarrow> bytes" where
  "be16 v \<equiv> push_u16_be [] v"

abbreviation be32 :: "u32 \<Rightarrow> bytes" where
  "be32 v \<equiv> push_u32_be [] v"

text \<open>
  The contract of a fixed-width integer codec: what is written is read back, every in-range
  read succeeds and returns the value whose encoding stands there, and an out-of-range read is
  an access violation.
\<close>

locale be_codec =
  fixes enc :: "'w \<Rightarrow> bytes" and rd :: "bytes \<Rightarrow> nat \<Rightarrow> 'w option" and width :: nat
  assumes length_enc: "length (enc v) = width"
    and rd_enc: "holds_at buf off (enc v) \<Longrightarrow> rd buf off = Some v"
    and rd_some: "off + width \<le> length buf \<Longrightarrow> \<exists>v. rd buf off = Some v \<and> holds_at buf off (enc v)"
    and rd_none: "length buf < off + width \<Longrightarrow> rd buf off = None"
begin

lemma rd_iff: "rd buf off = Some v \<longleftrightarrow> holds_at buf off (enc v)"
proof
  assume r: "rd buf off = Some v"
  then have "off + width \<le> length buf" using rd_none [of buf off] by (metis linorder_not_le option.distinct(1))
  then obtain w where "rd buf off = Some w" "holds_at buf off (enc w)" using rd_some by blast
  with r show "holds_at buf off (enc v)" by simp
qed (rule rd_enc)

lemma enc_inject: "enc v = enc w \<longleftrightarrow> v = w"
  by (metis holds_at_self option.inject rd_enc)

lemma rd_defined: "rd buf off \<noteq> None \<longleftrightarrow> off + width \<le> length buf"
  using rd_none rd_some by (metis linorder_not_le option.distinct(1))

lemma rd_appended: "rd (pre @ enc v @ post) (length pre) = Some v"
  by (rule rd_enc) (rule holds_at_middle)

lemma rd_obtain:
  assumes "off + width \<le> length buf"
  obtains v where "rd buf off = Some v"
  using rd_some [OF assms] by blast

end

lemma holds_at_two:
  "holds_at buf off [a, b] \<longleftrightarrow> byte_at buf off = Some a \<and> byte_at buf (off + 1) = Some b"
  by (auto simp: holds_at_Cons byte_at_Some_iff)

lemma holds_at_four:
  "holds_at buf off [a, b, c, d] \<longleftrightarrow>
     byte_at buf off = Some a \<and> byte_at buf (off + 1) = Some b \<and>
     byte_at buf (off + 2) = Some c \<and> byte_at buf (off + 3) = Some d"
  by (auto simp: holds_at_Cons byte_at_Some_iff eval_nat_numeral)

lemma mask_u16: "(255 :: u16) = mask 8"
  by (simp add: mask_numeral)

lemma u16_join:
  "(push_bit 8 (ucast (ucast (drop_bit 8 v) :: byte)) OR ucast (ucast (v AND 255) :: byte) :: u16) = v"
  unfolding mask_u16
proof (rule bit_word_eqI)
  fix n assume "n < LENGTH(16)"
  then show "bit (push_bit 8 (ucast (ucast (drop_bit 8 v) :: byte))
      OR ucast (ucast (v AND mask 8) :: byte) :: u16) n = bit v n"
    by (cases "n < 8") (auto simp: bit_simps)
qed

lemma u16_split:
  fixes a b :: byte
  defines "v \<equiv> push_bit 8 (ucast a) OR ucast b :: u16"
  shows "ucast (drop_bit 8 v) = a" "ucast (v AND 255) = b"
  unfolding v_def mask_u16 by (rule bit_word_eqI; auto simp: bit_simps dest: bit_imp_le_length)+

lemma mask_u32: "(255 :: u32) = mask 8"
  by (simp add: mask_numeral)

lemma u32_join:
  "push_bit 24 (ucast (ucast (drop_bit 24 v AND 255) :: byte))
     OR push_bit 16 (ucast (ucast (drop_bit 16 v AND 255) :: byte))
     OR push_bit 8 (ucast (ucast (drop_bit 8 v AND 255) :: byte))
     OR ucast (ucast (v AND 255) :: byte) = (v :: u32)"
  unfolding mask_u32
proof (rule bit_word_eqI)
  fix n assume "n < LENGTH(32)"
  then consider "n < 8" | "8 \<le> n" "n < 16" | "16 \<le> n" "n < 24" | "24 \<le> n" "n < 32"
    by fastforce
  then show "bit (push_bit 24 (ucast (ucast (drop_bit 24 v AND mask 8) :: byte))
     OR push_bit 16 (ucast (ucast (drop_bit 16 v AND mask 8) :: byte))
     OR push_bit 8 (ucast (ucast (drop_bit 8 v AND mask 8) :: byte))
     OR ucast (ucast (v AND mask 8) :: byte) :: u32) n = bit v n"
    by cases (auto simp: bit_simps)
qed

lemma u32_split:
  fixes a b c d :: byte
  defines "v \<equiv> push_bit 24 (ucast a) OR push_bit 16 (ucast b) OR push_bit 8 (ucast c) OR ucast d :: u32"
  shows "ucast (drop_bit 24 v AND 255) = a" "ucast (drop_bit 16 v AND 255) = b"
    "ucast (drop_bit 8 v AND 255) = c" "ucast (v AND 255) = d"
  unfolding v_def mask_u32 by (rule bit_word_eqI; auto simp: bit_simps dest: bit_imp_le_length)+

lemma read_u16_be_in_range:
  assumes "off + 2 \<le> length buf"
  shows "\<exists>v. read_u16_be buf off = Some v \<and> holds_at buf off (be16 v)"
proof (intro exI conjI)
  let ?v = "push_bit 8 (ucast (buf ! off)) OR ucast (buf ! (off + 1)) :: u16"
  show "read_u16_be buf off = Some ?v" using assms by (simp add: read_u16_be_def byte_at_Some)
  have "be16 ?v = [buf ! off, buf ! (off + 1)]"
    by (simp only: push_u16_be_def u16_split append_Nil append_Cons)
  then show "holds_at buf off (be16 ?v)" using assms by (simp add: holds_at_two byte_at_Some)
qed

lemma read_u32_be_in_range:
  assumes "off + 4 \<le> length buf"
  shows "\<exists>v. read_u32_be buf off = Some v \<and> holds_at buf off (be32 v)"
proof (intro exI conjI)
  let ?v = "push_bit 24 (ucast (buf ! off)) OR push_bit 16 (ucast (buf ! (off + 1)))
    OR push_bit 8 (ucast (buf ! (off + 2))) OR ucast (buf ! (off + 3)) :: u32"
  show "read_u32_be buf off = Some ?v" using assms by (simp add: read_u32_be_def byte_at_Some)
  have "be32 ?v = [buf ! off, buf ! (off + 1), buf ! (off + 2), buf ! (off + 3)]"
    by (simp only: push_u32_be_def u32_split append_Nil append_Cons)
  then show "holds_at buf off (be32 ?v)" using assms by (simp add: holds_at_four byte_at_Some)
qed

interpretation u16: be_codec be16 read_u16_be 2
proof
  show "length (be16 v) = 2" for v by (simp add: push_u16_be_def)
  show "read_u16_be buf off = Some v" if "holds_at buf off (be16 v)" for buf off v
    using that by (simp add: push_u16_be_def read_u16_be_def holds_at_two u16_join)
  show "\<exists>v. read_u16_be buf off = Some v \<and> holds_at buf off (be16 v)"
    if "off + 2 \<le> length buf" for buf off
    by (rule read_u16_be_in_range) (use that in simp)
  show "read_u16_be buf off = None" if "length buf < off + 2" for buf off
    using that by (auto simp: read_u16_be_def byte_at_def)
qed

interpretation u32: be_codec be32 read_u32_be 4
proof
  show "length (be32 v) = 4" for v by (simp add: push_u32_be_def)
  show "read_u32_be buf off = Some v" if "holds_at buf off (be32 v)" for buf off v
    using that by (simp add: push_u32_be_def read_u32_be_def holds_at_four u32_join)
  show "\<exists>v. read_u32_be buf off = Some v \<and> holds_at buf off (be32 v)"
    if "off + 4 \<le> length buf" for buf off
    by (rule read_u32_be_in_range) (use that in simp)
  show "read_u32_be buf off = None" if "length buf < off + 4" for buf off
    using that by (auto simp: read_u32_be_def byte_at_def)
qed

lemma push_u16_be_append: "push_u16_be buf v = buf @ be16 v"
  by (simp add: push_u16_be_def)

lemma push_u32_be_append: "push_u32_be buf v = buf @ be32 v"
  by (simp add: push_u32_be_def)

lemmas length_be [simp] = u16.length_enc u32.length_enc
lemmas read_be [at_simps] = u16.rd_enc u32.rd_enc

section \<open>Walking over a name\<close>

text \<open>
  The C++ function advances its reference argument \<open>offset\<close> and returns a Boolean; the model
  returns both, because callers read the offset after a failure too.
\<close>

function skip_dns_name :: "bytes \<Rightarrow> nat \<Rightarrow> (bool \<times> nat) option" where
  "skip_dns_name buf offset =
     (if offset \<ge> length buf then Some (False, offset)
      else do {
        label_len \<leftarrow> byte_at buf offset;
        if label_len AND 0xC0 = 0xC0 then
          (if offset + 1 \<ge> length buf then Some (False, offset) else Some (True, offset + 2))
        else if label_len = 0 then Some (True, offset + 1)
        else
          (let offset' = offset + (1 + unat label_len)
           in if offset' > length buf then Some (False, offset') else skip_dns_name buf offset')
      })"
  by pat_completeness auto
termination
  by (relation "measure (\<lambda>(buf, offset). length buf - offset)") auto

declare skip_dns_name.simps [simp del]

section \<open>Reading a compressed name\<close>

text \<open>
  The loop of \<open>read_dns_name\<close>, over the offset, the number of pointers followed and the string
  assembled so far. Every iteration follows one more pointer or moves forward.
\<close>

function read_name_loop :: "bytes \<Rightarrow> nat \<Rightarrow> nat \<Rightarrow> string \<Rightarrow> string expected option" where
  "read_name_loop buf offset hops result =
     (if offset \<ge> length buf then Some (Inl Parse_error)
      else do {
        label_len \<leftarrow> byte_at buf offset;
        if label_len AND 0xC0 = 0xC0 then
          (if offset + 1 \<ge> length buf then Some (Inl Parse_error)
           else do {
             low \<leftarrow> byte_at buf (offset + 1);
             let ptr_target = push_bit 8 (unat label_len AND 0x3F) OR unat low;
             if ptr_target \<ge> offset then Some (Inl Parse_error)
             else if hops + 1 > 4 then Some (Inl Parse_error)
             else read_name_loop buf ptr_target (hops + 1) result
           })
        else if label_len = 0 then
          Some (Inr (if result \<noteq> [] then result @ ''.'' else result))
        else if label_len > 63 then Some (Inl Parse_error)
        else
          (let label_start = offset + 1; label_end = label_start + unat label_len
           in if label_end > length buf then Some (Inl Parse_error)
              else do {
                label \<leftarrow> slice buf label_start (unat label_len);
                let result = (if result \<noteq> [] then result @ ''.'' else result) @ string_of_bytes label;
                if length result + 1 > 255 then Some (Inl Parse_error)
                else read_name_loop buf label_end hops result
              })
      })"
  by pat_completeness auto
termination
  by (relation "measures [\<lambda>(buf, offset, hops, result). 4 - hops,
                         \<lambda>(buf, offset, hops, result). length buf - offset]") auto

declare read_name_loop.simps [simp del]

definition read_dns_name :: "bytes \<Rightarrow> nat \<Rightarrow> string expected option" where
  "read_dns_name buf offset = read_name_loop buf offset 0 []"

section \<open>Encoding a name\<close>

function encode_labels :: "string \<Rightarrow> nat \<Rightarrow> bytes \<Rightarrow> bytes option" where
  "encode_labels name pos result =
     (if pos < length name then
        (let dot = (case sv_find name CHR ''.'' pos of None \<Rightarrow> length name | Some d \<Rightarrow> d);
             label_len = dot - pos
         in if label_len > 63 then None
            else encode_labels name (dot + 1)
                   (result @ word_of_nat label_len # bytes_of_string (take label_len (drop pos name))))
      else Some result)"
  by pat_completeness auto
termination
  by (relation "measure (\<lambda>(name, pos, result). length name - pos)")
    (auto split: option.splits dest: sv_find_bounds)

declare encode_labels.simps [simp del]

text \<open>The empty vector is the encoder's failure value; \<open>encode_labels\<close> signals it by \<open>None\<close>.\<close>

definition encode_dns_name :: "string \<Rightarrow> bytes" where
  "encode_dns_name name =
     (if name = [] then [0]
      else
        (let name = (if last name = CHR ''.'' then butlast name else name)
         in case encode_labels name 0 [] of
              None \<Rightarrow> []
            | Some result \<Rightarrow>
                (let result = result @ [0] in if length result > 255 then [] else result)))"

end
