(* ===== verification/Name_Codec.thy ===== *)
theory Name_Codec
  imports Dns_Read
begin

text \<open>
  What the name functions of \<open>detail/dns_read.h\<close> guarantee. A name is abstracted to its list
  of labels; \<open>dotted\<close> and \<open>wire_name\<close> are its textual and its wire form. The encoder is shown
  equal to "split at the dots, emit each label", the decoder and the skipper are shown to read
  the wire form back wherever it stands in a buffer, compression pointers included, and both are
  total and free of out-of-range accesses on every input.
\<close>

section \<open>Names as lists of labels\<close>

fun split_labels :: "string \<Rightarrow> string list" where
  "split_labels [] = []"
| "split_labels (c # s) =
     (let l = takeWhile (\<lambda>x. x \<noteq> CHR ''.'') (c # s) in l # split_labels (drop (Suc (length l)) (c # s)))"

definition dotted :: "string list \<Rightarrow> string" where
  "dotted ls = concat (map (\<lambda>l. l @ ''.'') ls)"

definition label_bytes :: "string \<Rightarrow> bytes" where
  "label_bytes l = word_of_nat (length l) # bytes_of_string l"

definition wire_labels :: "string list \<Rightarrow> bytes" where
  "wire_labels ls = concat (map label_bytes ls)"

definition wire_name :: "string list \<Rightarrow> bytes" where
  "wire_name ls = wire_labels ls @ [0]"

definition valid_label :: "string \<Rightarrow> bool" where
  "valid_label l \<longleftrightarrow> l \<noteq> [] \<and> length l \<le> 63 \<and> CHR ''.'' \<notin> set l"

lemma dotted_simps [simp]:
  "dotted [] = []" "dotted (l # ls) = l @ CHR ''.'' # dotted ls"
  "dotted (ls @ ms) = dotted ls @ dotted ms"
  by (simp_all add: dotted_def)

lemma wire_labels_simps [simp]:
  "wire_labels [] = []" "wire_labels (l # ls) = label_bytes l @ wire_labels ls"
  "wire_labels (ls @ ms) = wire_labels ls @ wire_labels ms"
  by (simp_all add: wire_labels_def)

lemma length_wire_labels: "length (wire_labels ls) = length (dotted ls)"
  by (induction ls) (simp_all add: label_bytes_def)

lemma length_wire_name [simp]: "length (wire_name ls) = length (dotted ls) + 1"
  by (simp add: wire_name_def length_wire_labels)

lemma split_labels_append_dot:
  "CHR ''.'' \<notin> set l \<Longrightarrow> split_labels (l @ CHR ''.'' # s) = l # split_labels s"
  by (cases l) (auto simp: Let_def)

lemma split_labels_no_dot: "l \<noteq> [] \<Longrightarrow> CHR ''.'' \<notin> set l \<Longrightarrow> split_labels l = [l]"
  by (cases l) (auto simp: Let_def)

lemma split_labels_no_dots: "l \<in> set (split_labels s) \<Longrightarrow> CHR ''.'' \<notin> set l"
  by (induction s rule: split_labels.induct) (auto simp: Let_def dest: set_takeWhileD split: if_splits)

lemma split_labels_butlast_dotted:
  assumes "\<forall>l \<in> set ls. CHR ''.'' \<notin> set l" and "ls = [] \<or> last ls \<noteq> []"
  shows "split_labels (butlast (dotted ls)) = ls"
  using assms
proof (induction ls)
  case (Cons l ls)
  show ?case
  proof (cases "ls = []")
    case True
    with Cons.prems show ?thesis by (simp add: butlast_append split_labels_no_dot)
  next
    case False
    then have "dotted ls \<noteq> []" by (cases ls) auto
    with False Cons show ?thesis by (simp add: butlast_append split_labels_append_dot)
  qed
qed simp

section \<open>The encoder\<close>

lemma encode_labels_split:
  "encode_labels name pos result =
     (if \<exists>l \<in> set (split_labels (drop pos name)). length l > 63 then None
      else Some (result @ wire_labels (split_labels (drop pos name))))"
proof (induction name pos result rule: encode_labels.induct)
  case (1 name pos result)
  show ?case
  proof (cases "pos < length name")
    case True
    let ?l = "takeWhile (\<lambda>x. x \<noteq> CHR ''.'') (drop pos name)"
    obtain c s where cs: "drop pos name = c # s" using True by (cases "drop pos name") auto
    have len: "length ?l \<le> length name - pos"
      using length_takeWhile_le [of _ "drop pos name"] by simp
    have dot: "(case sv_find name CHR ''.'' pos of None \<Rightarrow> length name | Some d \<Rightarrow> d) = pos + length ?l"
      using True len by (auto simp: sv_find_def Let_def)
    have spl: "split_labels (drop pos name) = ?l # split_labels (drop (pos + length ?l + 1) name)"
    proof -
      have "split_labels (c # s) = (let l = takeWhile (\<lambda>x. x \<noteq> CHR ''.'') (c # s)
          in l # split_labels (drop (Suc (length l)) (c # s)))" by (rule split_labels.simps)
      then show ?thesis unfolding cs [symmetric] Let_def by (simp add: ac_simps)
    qed
    have tk: "take (length ?l) (drop pos name) = ?l" by (rule takeWhile_eq_take [symmetric])
    have IH: "\<not> length ?l > 63 \<Longrightarrow> encode_labels name (pos + length ?l + 1) (result @ label_bytes ?l) =
        (if \<exists>l \<in> set (split_labels (drop (pos + length ?l + 1) name)). length l > 63 then None
         else Some ((result @ label_bytes ?l) @ wire_labels (split_labels (drop (pos + length ?l + 1) name))))"
      using "1.IH" [OF True refl refl] by (simp add: dot tk label_bytes_def)
    show ?thesis
      using True IH by (subst encode_labels.simps) (auto simp: dot tk spl Let_def label_bytes_def)
  qed (simp add: encode_labels.simps)
qed

definition strip_dot :: "string \<Rightarrow> string" where
  "strip_dot s = (if s \<noteq> [] \<and> last s = CHR ''.'' then butlast s else s)"

lemma encode_dns_name_split:
  "encode_dns_name s =
     (let ls = split_labels (strip_dot s)
      in if (\<exists>l \<in> set ls. length l > 63) \<or> length (dotted ls) > 254 then [] else wire_name ls)"
  by (simp add: encode_dns_name_def strip_dot_def encode_labels_split Let_def wire_name_def
      length_wire_labels)

lemma strip_dot_dotted: "ls \<noteq> [] \<Longrightarrow> strip_dot (dotted ls) = butlast (dotted ls)"
  by (induction ls rule: rev_induct) (simp_all add: strip_dot_def)

lemma split_strip_dotted:
  assumes "\<forall>l \<in> set ls. CHR ''.'' \<notin> set l" and "ls = [] \<or> last ls \<noteq> []"
  shows "split_labels (strip_dot (dotted ls)) = ls"
proof (cases "ls = []")
  case True
  then show ?thesis by (simp add: strip_dot_def)
qed (use assms in \<open>simp add: strip_dot_dotted split_labels_butlast_dotted\<close>)

lemma encode_dns_name_labels:
  assumes "\<forall>l \<in> set ls. length l \<le> 63 \<and> CHR ''.'' \<notin> set l" and "ls = [] \<or> last ls \<noteq> []"
    and "length (dotted ls) \<le> 254"
  shows "encode_dns_name (dotted ls) = wire_name ls"
proof -
  have "split_labels (strip_dot (dotted ls)) = ls"
    using assms(1,2) by (intro split_strip_dotted) auto
  then show ?thesis using assms(1,3) by (auto simp: encode_dns_name_split Let_def)
qed

section \<open>Length bytes\<close>

lemma small_not_pointer: "unat (b :: byte) < 192 \<Longrightarrow> b AND 0xC0 \<noteq> 0xC0"
  using word_and_le2 [of b "0xC0"] by (auto simp: word_le_nat_alt)

lemma unat_label_len: "n \<le> 63 \<Longrightarrow> unat (word_of_nat n :: byte) = n"
  by (simp add: unat_of_nat)

lemma label_len_byte:
  assumes "valid_label l"
  shows "word_of_nat (length l) AND 0xC0 \<noteq> (0xC0 :: byte)"
    and "(word_of_nat (length l) :: byte) \<noteq> 0"
    and "\<not> (word_of_nat (length l) :: byte) > 63"
    and "unat (word_of_nat (length l) :: byte) = length l"
proof -
  have l: "0 < length l" "length l \<le> 63" using assms by (auto simp: valid_label_def)
  then show u: "unat (word_of_nat (length l) :: byte) = length l" by (simp add: unat_label_len)
  show "word_of_nat (length l) AND 0xC0 \<noteq> (0xC0 :: byte)"
    using l u by (intro small_not_pointer) simp
  show "(word_of_nat (length l) :: byte) \<noteq> 0" using l u by (metis unat_0 less_irrefl)
  show "\<not> (word_of_nat (length l) :: byte) > 63" using l u by (simp add: word_less_nat_alt)
qed

section \<open>Skipping and reading the wire form\<close>

lemma skip_label:
  assumes "valid_label l" and "holds_at buf off (label_bytes l)"
  shows "skip_dns_name buf off = skip_dns_name buf (off + length (label_bytes l))"
proof -
  have b: "byte_at buf off = Some (word_of_nat (length l))" and n: "off + Suc (length l) \<le> length buf"
    using assms(2) by (auto simp: label_bytes_def holds_at_Cons dest: holds_at_bound)
  show ?thesis
    using n label_len_byte [OF assms(1)]
    by (subst skip_dns_name.simps) (simp add: b label_bytes_def Let_def)
qed

lemma skip_root: "byte_at buf off = Some 0 \<Longrightarrow> skip_dns_name buf off = Some (True, off + 1)"
  by (subst skip_dns_name.simps) (auto simp: byte_at_lt)

lemma skip_wire_name [at_simps]:
  assumes "\<forall>l \<in> set ls. valid_label l" and "holds_at buf off (wire_name ls)"
  shows "skip_dns_name buf off = Some (True, off + length (wire_name ls))"
  using assms
proof (induction ls arbitrary: off)
  case Nil
  then show ?case by (simp add: wire_name_def holds_at_Cons skip_root)
next
  case (Cons l ls)
  then have "holds_at buf off (label_bytes l)"
    and "holds_at buf (off + length (label_bytes l)) (wire_name ls)"
    by (simp_all add: wire_name_def holds_at_append add.assoc)
  moreover have "valid_label l" using Cons.prems by simp
  ultimately show ?case
    using Cons skip_label [of l buf off] by (simp add: label_bytes_def ac_simps)
qed

text \<open>The string the decoder has assembled after reading the labels \<open>ls\<close> onto \<open>acc\<close>.\<close>

fun joined :: "string \<Rightarrow> string list \<Rightarrow> string" where
  "joined acc [] = acc"
| "joined acc (l # ls) = joined ((if acc \<noteq> [] then acc @ ''.'' else acc) @ l) ls"

lemma length_joined: "length acc \<le> length (joined acc ls)"
  by (induction acc ls rule: joined.induct) (auto intro: le_trans [rotated])

lemma joined_nonempty [simp]: "acc \<noteq> [] \<Longrightarrow> joined acc ls \<noteq> []"
  using length_joined [of acc ls] by auto

lemma joined_dotted:
  assumes "\<forall>l \<in> set ls. l \<noteq> []"
  shows "(if joined acc ls \<noteq> [] then joined acc ls @ ''.'' else joined acc ls)
       = (if acc \<noteq> [] then acc @ ''.'' @ dotted ls else dotted ls)"
  using assms
proof (induction acc ls rule: joined.induct)
  case (2 acc l ls)
  then show ?case by (cases "acc = []") simp_all
qed simp

lemma read_label:
  assumes "valid_label l" and "holds_at buf off (label_bytes l)"
    and "length (joined acc [l]) + 1 \<le> 255"
  shows "read_name_loop buf off hops acc
       = read_name_loop buf (off + length (label_bytes l)) hops (joined acc [l])"
proof -
  have b: "byte_at buf off = Some (word_of_nat (length l))" and n: "off + Suc (length l) \<le> length buf"
    and s: "slice buf (Suc off) (length l) = Some (bytes_of_string l)"
    using assms(2) holds_at_slice [of buf "Suc off" "bytes_of_string l"]
    by (auto simp: label_bytes_def holds_at_Cons dest: holds_at_bound)
  show ?thesis
    using n assms(3) label_len_byte [OF assms(1)]
    by (subst read_name_loop.simps) (auto simp: b s label_bytes_def Let_def)
qed

lemma read_wire_labels:
  assumes "\<forall>l \<in> set ls. valid_label l" and "holds_at buf off (wire_labels ls)"
    and "length (joined acc ls) + 1 \<le> 255"
  shows "read_name_loop buf off hops acc
       = read_name_loop buf (off + length (wire_labels ls)) hops (joined acc ls)"
  using assms
proof (induction ls arbitrary: off acc)
  case (Cons l ls)
  have "length (joined acc [l]) \<le> length (joined acc (l # ls))"
    using length_joined [of "joined acc [l]" ls] by simp
  with Cons.prems(3) have "length (joined acc [l]) + 1 \<le> 255" by linarith
  with Cons.prems have "read_name_loop buf off hops acc
      = read_name_loop buf (off + length (label_bytes l)) hops (joined acc [l])"
    by (intro read_label) (simp_all add: holds_at_append)
  also have "\<dots> = read_name_loop buf (off + length (label_bytes l) + length (wire_labels ls)) hops
      (joined (joined acc [l]) ls)"
    using Cons.prems by (intro Cons.IH) (simp_all add: holds_at_append)
  finally show ?case by (simp add: ac_simps)
qed simp

lemma read_root:
  "byte_at buf off = Some 0 \<Longrightarrow>
     read_name_loop buf off hops acc = Some (Inr (if acc \<noteq> [] then acc @ ''.'' else acc))"
  by (subst read_name_loop.simps) (auto simp: byte_at_lt)

lemma length_joined_Nil:
  "\<forall>l \<in> set ls. l \<noteq> [] \<Longrightarrow> length (dotted ls) \<le> 255 \<Longrightarrow> length (joined [] ls) + 1 \<le> 255"
  using joined_dotted [of ls "[]"] by (cases "joined [] ls = []") (auto dest: arg_cong [where f = length])

lemma read_wire_name [at_simps]:
  assumes "\<forall>l \<in> set ls. valid_label l" and "length (dotted ls) \<le> 255"
    and "holds_at buf off (wire_name ls)"
  shows "read_dns_name buf off = Some (Inr (dotted ls))"
proof -
  have ne: "\<forall>l \<in> set ls. l \<noteq> []" using assms(1) by (auto simp: valid_label_def)
  have "read_name_loop buf off 0 [] = read_name_loop buf (off + length (wire_labels ls)) 0 (joined [] ls)"
    using assms ne by (intro read_wire_labels length_joined_Nil) (auto simp: wire_name_def holds_at_append)
  also have "\<dots> = Some (Inr (dotted ls))"
    using assms(3) joined_dotted [OF ne, of "[]"]
    by (subst read_root) (auto simp: wire_name_def holds_at_append holds_at_Cons)
  finally show ?thesis by (simp add: read_dns_name_def)
qed

section \<open>Compression pointers\<close>

definition pointer_bytes :: "nat \<Rightarrow> bytes" where
  "pointer_bytes t = [word_of_nat (192 + t div 256), word_of_nat (t mod 256)]"

lemma pointer_byte_flags: "k < 64 \<Longrightarrow> (word_of_nat (192 + k) :: byte) AND 0xC0 = 0xC0"
proof -
  have "\<forall>k \<in> set [0..<64]. (word_of_nat (192 + k) :: byte) AND 0xC0 = 0xC0" by code_simp
  then show "k < 64 \<Longrightarrow> ?thesis" by simp
qed

lemma pointer_low_bits: "k < 64 \<Longrightarrow> unat (word_of_nat (192 + k) :: byte) AND 0x3F = k"
proof -
  have "\<forall>k \<in> set [0..<64]. unat (word_of_nat (192 + k) :: byte) AND 0x3F = k" by code_simp
  then show "k < 64 \<Longrightarrow> ?thesis" by simp
qed

lemma pointer_join: "m < 256 \<Longrightarrow> push_bit 8 k OR m = 256 * k + (m :: nat)"
proof -
  assume "m < 256"
  then have "m = take_bit 8 m" by (simp add: take_bit_eq_mod)
  then have "push_bit 8 k + m = push_bit 8 k OR m"
    by (intro disjunctive_add) (metis bit_push_bit_iff_nat bit_take_bit_iff not_le)
  then show ?thesis by (simp add: push_bit_eq_mult)
qed

lemma read_step_pointer:
  assumes "byte_at buf off = Some p" and "byte_at buf (off + 1) = Some q" and "p AND 0xC0 = 0xC0"
  shows "read_name_loop buf off hops acc =
    (let t = push_bit 8 (unat p AND 0x3F) OR unat q
     in if t \<ge> off then Some (Inl Parse_error)
        else if hops + 1 > 4 then Some (Inl Parse_error)
        else read_name_loop buf t (hops + 1) acc)"
  using assms byte_at_lt [OF assms(1)] byte_at_lt [OF assms(2)]
  by (subst read_name_loop.simps) (simp add: Let_def)

lemma skip_step_pointer:
  assumes "byte_at buf off = Some p" and "byte_at buf (off + 1) = Some q" and "p AND 0xC0 = 0xC0"
  shows "skip_dns_name buf off = Some (True, off + 2)"
  using assms byte_at_lt [OF assms(1)] byte_at_lt [OF assms(2)]
  by (subst skip_dns_name.simps) simp

lemma pointer_bytes_read:
  assumes "t < 2 ^ 14" and "holds_at buf off (pointer_bytes t)"
  obtains p q where "byte_at buf off = Some p" "byte_at buf (off + 1) = Some q"
    "p AND 0xC0 = 0xC0" "push_bit 8 (unat p AND 0x3F) OR unat q = t"
proof -
  have k: "t div 256 < 64" using assms(1) by (simp add: div_less_iff_less_mult)
  have u: "unat (word_of_nat (t mod 256) :: byte) = t mod 256" by (simp add: unat_of_nat)
  show thesis
  proof (rule that)
    show "byte_at buf off = Some (word_of_nat (192 + t div 256))"
      and "byte_at buf (off + 1) = Some (word_of_nat (t mod 256))"
      using assms(2) by (simp_all add: pointer_bytes_def holds_at_two)
    show "word_of_nat (192 + t div 256) AND 0xC0 = (0xC0 :: byte)" by (rule pointer_byte_flags [OF k])
    show "push_bit 8 (unat (word_of_nat (192 + t div 256) :: byte) AND 0x3F)
        OR unat (word_of_nat (t mod 256) :: byte) = t"
      using pointer_join [of "t mod 256" "t div 256"] by (simp only: pointer_low_bits [OF k] u) simp
  qed
qed

lemma read_pointer:
  assumes "t < 2 ^ 14" and "t < off" and "hops < 4" and "holds_at buf off (pointer_bytes t)"
  shows "read_name_loop buf off hops acc = read_name_loop buf t (hops + 1) acc"
  using assms(1,4)
proof (rule pointer_bytes_read)
  fix p q
  assume "byte_at buf off = Some p" "byte_at buf (off + 1) = Some q" "p AND 0xC0 = 0xC0"
    and "push_bit 8 (unat p AND 0x3F) OR unat q = t"
  then show ?thesis using assms(2,3) by (simp add: read_step_pointer [of buf off p q])
qed

lemma skip_pointer:
  assumes "t < 2 ^ 14" and "holds_at buf off (pointer_bytes t)"
  shows "skip_dns_name buf off = Some (True, off + 2)"
  using assms by (rule pointer_bytes_read) (rule skip_step_pointer)

lemma joined_append: "joined acc (ls @ ms) = joined (joined acc ls) ms"
  by (induction acc ls rule: joined.induct) simp_all

section \<open>Totality, bounds and memory safety\<close>

lemma skip_dns_name_range:
  "\<exists>ok off'. skip_dns_name buf off = Some (ok, off') \<and> off \<le> off' \<and>
     (ok \<longrightarrow> off < off' \<and> off' \<le> length buf)"
proof (induction buf off rule: skip_dns_name.induct)
  case (1 buf off)
  show ?case
  proof (cases "off < length buf")
    case True
    then have b: "byte_at buf off = Some (buf ! off)" by (rule byte_at_Some)
    let ?n = "off + (1 + unat (buf ! off))"
    have IH: "\<exists>ok off'. skip_dns_name buf ?n = Some (ok, off') \<and> ?n \<le> off' \<and>
        (ok \<longrightarrow> ?n < off' \<and> off' \<le> length buf)"
      if "buf ! off AND 0xC0 \<noteq> 0xC0" "buf ! off \<noteq> 0" "\<not> ?n > length buf"
      using "1.IH" [of "buf ! off" ?n] True b that by (simp add: not_le)
    show ?thesis
    proof (cases "buf ! off AND 0xC0 \<noteq> 0xC0 \<and> buf ! off \<noteq> 0 \<and> \<not> ?n > length buf")
      case True
      then have "skip_dns_name buf off = skip_dns_name buf ?n"
        using \<open>off < length buf\<close> by (subst skip_dns_name.simps) (simp add: b Let_def)
      with IH True show ?thesis by fastforce
    next
      case False
      then show ?thesis
        using True by (subst skip_dns_name.simps) (auto simp: b Let_def)
    qed
  next
    case False
    then have "skip_dns_name buf off = Some (False, off)" by (subst skip_dns_name.simps) simp
    then show ?thesis by blast
  qed
qed

lemma skip_dns_name_cases:
  obtains (fail) off' where "skip_dns_name buf off = Some (False, off')" "off \<le> off'"
  | (ok) off' where "skip_dns_name buf off = Some (True, off')" "off < off'" "off' \<le> length buf"
  using skip_dns_name_range [of buf off] by (metis (full_types))

definition name_result_ok :: "string expected \<Rightarrow> bool" where
  "name_result_ok r \<longleftrightarrow>
     (case r of Inl e \<Rightarrow> e = Parse_error
      | Inr s \<Rightarrow> length s \<le> 255 \<and> (s = [] \<or> last s = CHR ''.''))"

lemma read_step_label:
  fixes acc :: string
  assumes "byte_at buf off = Some b" and "b AND 0xC0 \<noteq> 0xC0" and "b \<noteq> 0"
  defines "bs \<equiv> take (unat b) (drop (off + 1) buf)"
  defines "acc' \<equiv> (if acc \<noteq> [] then acc @ ''.'' else acc) @ string_of_bytes bs"
  shows "read_name_loop buf off hops acc =
    (if b > 63 \<or> off + 1 + unat b > length buf \<or> length acc' + 1 > 255 then Some (Inl Parse_error)
     else read_name_loop buf (off + 1 + unat b) hops acc')"
  using assms(1-3) byte_at_lt [OF assms(1)]
  by (subst read_name_loop.simps) (auto simp: Let_def slice_def acc'_def bs_def)

lemma name_result_error [simp]: "name_result_ok (Inl Parse_error)"
  by (simp add: name_result_ok_def)

lemma read_name_loop_range:
  "length acc + 1 \<le> 255 \<Longrightarrow> \<exists>r. read_name_loop buf off hops acc = Some r \<and> name_result_ok r"
proof (induction buf off hops acc rule: read_name_loop.induct)
  case (1 buf off hops acc)
  consider (out) "\<not> off < length buf"
    | (ptr) "off < length buf" "buf ! off AND 0xC0 = 0xC0"
    | (root) "off < length buf" "buf ! off = 0"
    | (label) "off < length buf" "buf ! off AND 0xC0 \<noteq> 0xC0" "buf ! off \<noteq> 0"
    by blast
  then show ?case
  proof cases
    case out
    then show ?thesis by (subst read_name_loop.simps) simp
  next
    case ptr
    show ?thesis
    proof (cases "off + 1 < length buf")
      case True
      let ?t = "push_bit 8 (unat (buf ! off) AND 63) OR unat (buf ! (off + 1))"
      have "\<exists>r. read_name_loop buf ?t (hops + 1) acc = Some r \<and> name_result_ok r"
        if "?t < off" "hops + 1 \<le> 4"
        using "1.IH"(1) [of "buf ! off" "buf ! (off + 1)" ?t] "1.prems" ptr True that
        by (simp add: byte_at_Some not_le)
      then show ?thesis
        using ptr True by (subst read_step_pointer [of _ _ "buf ! off" "buf ! (off + 1)"])
          (auto simp: byte_at_Some Let_def)
    next
      case False
      with ptr show ?thesis by (subst read_name_loop.simps) (simp add: byte_at_Some)
    qed
  next
    case root
    then show ?thesis
      using read_root [of buf off hops acc] "1.prems" by (simp add: byte_at_Some name_result_ok_def)
  next
    case label
    let ?bs = "take (unat (buf ! off)) (drop (off + 1) buf)"
    let ?acc = "(if acc \<noteq> [] then acc @ ''.'' else acc) @ string_of_bytes ?bs"
    have "\<exists>r. read_name_loop buf (off + 1 + unat (buf ! off)) hops ?acc = Some r \<and> name_result_ok r"
      if "\<not> buf ! off > 63" "\<not> off + 1 + unat (buf ! off) > length buf" "\<not> length ?acc + 1 > 255"
      using "1.IH"(2) [of "buf ! off" "off + 1" "off + 1 + unat (buf ! off)" ?bs ?acc] label that
      by (simp add: byte_at_Some slice_def not_le)
    then show ?thesis
      using label by (subst read_step_label [of _ _ "buf ! off"]) (auto simp: byte_at_Some)
  qed
qed

lemma read_dns_name_range: "\<exists>r. read_dns_name buf off = Some r \<and> name_result_ok r"
  unfolding read_dns_name_def by (rule read_name_loop_range) simp

lemma read_dns_name_cases:
  obtains (fail) "read_dns_name buf off = Some (Inl Parse_error)"
  | (ok) s where "read_dns_name buf off = Some (Inr s)" "length s \<le> 255" "s = [] \<or> last s = CHR ''.''"
proof -
  obtain r where r: "read_dns_name buf off = Some r" "name_result_ok r"
    using read_dns_name_range by blast
  then show thesis by (cases r) (auto simp: name_result_ok_def intro: that)
qed

lemma read_ok_skip_ok:
  "read_name_loop buf off hops acc = Some (Inr s) \<Longrightarrow> \<exists>off'. skip_dns_name buf off = Some (True, off')"
proof (induction buf off arbitrary: hops acc rule: skip_dns_name.induct)
  case (1 buf off)
  then have "off < length buf" by (subst (asm) read_name_loop.simps) (auto split: if_splits)
  then have b: "byte_at buf off = Some (buf ! off)" by (rule byte_at_Some)
  consider (ptr) "buf ! off AND 0xC0 = 0xC0" | (root) "buf ! off = 0"
    | (label) "buf ! off AND 0xC0 \<noteq> 0xC0" "buf ! off \<noteq> 0" by blast
  then show ?case
  proof cases
    case ptr
    then have "off + 1 < length buf"
      using "1.prems" b by (subst (asm) read_name_loop.simps) (auto split: if_splits)
    then show ?thesis
      using skip_step_pointer [OF b _ ptr, of "buf ! (off + 1)"] by (simp add: byte_at_Some)
  next
    case root
    then show ?thesis using skip_root b by auto
  next
    case label
    let ?n = "off + (1 + unat (buf ! off))"
    from "1.prems" label b obtain acc' where "\<not> ?n > length buf"
      and "read_name_loop buf ?n hops acc' = Some (Inr s)"
      by (subst (asm) read_step_label [of _ _ "buf ! off"]) (auto split: if_splits)
    then have "\<exists>off'. skip_dns_name buf ?n = Some (True, off')"
      using "1.IH" [of "buf ! off" ?n] label b \<open>off < length buf\<close> by (simp add: not_le)
    then show ?thesis
      using label b \<open>off < length buf\<close> \<open>\<not> ?n > length buf\<close>
      by (subst skip_dns_name.simps) (simp add: Let_def)
  qed
qed

section \<open>Well-formed names\<close>

text \<open>
  A name that RFC 1035 admits: dot-terminated, every label non-empty and of at most 63 octets,
  and at most 254 characters, so that the wire form has at most 255 octets.
\<close>

definition wf_name :: "string \<Rightarrow> bool" where
  "wf_name s \<longleftrightarrow>
     (let ls = split_labels (strip_dot s)
      in s = dotted ls \<and> (\<forall>l \<in> set ls. valid_label l) \<and> length s \<le> 254)"

lemma wf_nameI:
  assumes "\<forall>l \<in> set ls. valid_label l" and "length (dotted ls) \<le> 254"
  shows "wf_name (dotted ls)"
proof -
  have "split_labels (strip_dot (dotted ls)) = ls"
    using assms(1) by (intro split_strip_dotted) (auto simp: valid_label_def)
  then show ?thesis using assms by (simp add: wf_name_def Let_def)
qed

lemma wf_nameE:
  assumes "wf_name s"
  obtains ls where "s = dotted ls" "\<forall>l \<in> set ls. valid_label l" "length (dotted ls) \<le> 254"
    "encode_dns_name s = wire_name ls"
proof -
  define ls where "ls = split_labels (strip_dot s)"
  have ls: "s = dotted ls" "\<forall>l \<in> set ls. valid_label l" "length s \<le> 254"
    using assms by (simp_all add: wf_name_def Let_def ls_def)
  then have "encode_dns_name s = wire_name ls"
    by (auto simp: valid_label_def intro!: encode_dns_name_labels)
  with ls that show thesis by simp
qed

lemma wf_name_encode:
  assumes "wf_name s"
  shows "encode_dns_name s \<noteq> []" and "length (encode_dns_name s) = length s + 1"
    and "length (encode_dns_name s) \<le> 255"
  using assms by (auto elim!: wf_nameE simp: wire_name_def length_wire_labels)

lemma wf_name_read [at_simps]:
  assumes "wf_name s" and "holds_at buf off (encode_dns_name s)"
  shows "read_dns_name buf off = Some (Inr s)"
  using assms by (auto elim!: wf_nameE intro: read_wire_name)

lemma wf_name_skip [at_simps]:
  assumes "wf_name s" and "holds_at buf off (encode_dns_name s)"
  shows "skip_dns_name buf off = Some (True, off + length (encode_dns_name s))"
  using assms by (auto elim!: wf_nameE simp: skip_wire_name)

lemma encode_dns_name_bounds: "length (encode_dns_name s) \<le> 255"
  by (auto simp: encode_dns_name_split Let_def)

section \<open>Properties\<close>

text \<open>
  \<open>read_dns_name\<close> is memory safe and terminates on every buffer and offset, whatever bytes a
  peer sends: it performs no out-of-range access, and returns either \<open>parse_error\<close> or a name of
  at most 255 characters that is empty or ends in a dot.
\<close>

lemma read_dns_name_total:
  "\<exists>r. read_dns_name buf off = Some r \<and>
     (r = Inl Parse_error \<or> (\<exists>s. r = Inr s \<and> length s \<le> 255 \<and> (s = [] \<or> last s = CHR ''.'')))"
  by (rule read_dns_name_cases [of buf off]) auto

text \<open>
  \<open>skip_dns_name\<close> is memory safe and terminates on every input; when it succeeds it has moved
  the offset forward and left it inside the buffer, and it succeeds wherever \<open>read_dns_name\<close>
  does, so the parsers that decode a name and then skip it never fail between the two.
\<close>

lemma skip_dns_name_total:
  "\<exists>ok off'. skip_dns_name buf off = Some (ok, off') \<and> off \<le> off' \<and>
     (ok \<longrightarrow> off < off' \<and> off' \<le> length buf) \<and>
     ((\<exists>s. read_dns_name buf off = Some (Inr s)) \<longrightarrow> ok)"
  using skip_dns_name_range [of buf off] read_ok_skip_ok [of buf off 0 "[]"]
  by (fastforce simp: read_dns_name_def)

lemma skip_dns_name_total_example:
  "\<exists>off'. skip_dns_name [1, 97, 0, 7] 0 = Some (True, off') \<and> off' \<le> 4"
proof -
  have "read_dns_name [1, 97, 0, 7] 0 = Some (Inr ''a.'')"
    using read_wire_name [of "[''a'']" "[1, 97, 0, 7]" 0]
    by (simp add: wire_name_def label_bytes_def valid_label_def byte_of_char_def holds_at_def)
  then show ?thesis using skip_dns_name_total [of "[1, 97, 0, 7]" 0] by auto
qed

text \<open>
  C37: Round trip of the name codec. The encoding of a well-formed name, wherever it stands in a
  buffer, is decoded to that very name, and the skipper stops right behind it.
\<close>

theorem name_roundtrip:
  assumes "wf_name s"
  shows "read_dns_name (pre @ encode_dns_name s @ post) (length pre) = Some (Inr s) \<and>
    skip_dns_name (pre @ encode_dns_name s @ post) (length pre)
      = Some (True, length pre + length (encode_dns_name s))"
  using assms by (simp add: at_simps)

theorem name_roundtrip_witness:
  "wf_name ''_http._tcp.local.'' \<and>
   read_dns_name ([1, 2] @ encode_dns_name ''_http._tcp.local.'' @ [3]) 2
     = Some (Inr ''_http._tcp.local.'')"
proof -
  have "wf_name ''_http._tcp.local.''" by code_simp
  with name_roundtrip [of "''_http._tcp.local.''" "[1, 2]" "[3]"] show ?thesis
    by (simp add: numeral_2_eq_2)
qed

text \<open>
  Decompression. When the labels \<open>ls\<close> followed by a compression pointer to an earlier
  offset \<open>t\<close> stand at \<open>off\<close>, and an uncompressed name with labels \<open>ms\<close> stands at \<open>t\<close>, the
  decoder returns the concatenated name, and the skipper stops behind the pointer.
\<close>

lemma name_decompression:
  assumes "\<forall>l \<in> set (ls @ ms). valid_label l" and "length (dotted (ls @ ms)) \<le> 255"
    and "t < 2 ^ 14" and "t < off + length (wire_labels ls)"
    and "holds_at buf off (wire_labels ls @ pointer_bytes t)" and "holds_at buf t (wire_name ms)"
  shows "read_dns_name buf off = Some (Inr (dotted (ls @ ms)))"
proof -
  let ?p = "off + length (wire_labels ls)"
  have ne: "\<forall>l \<in> set (ls @ ms). l \<noteq> []" using assms(1) by (auto simp: valid_label_def)
  have len: "length (joined [] (ls @ ms)) + 1 \<le> 255" using ne assms(2) by (rule length_joined_Nil)
  have len': "length (joined [] ls) + 1 \<le> 255"
    using len length_joined [of "joined [] ls" ms] by (simp add: joined_append)
  have "read_name_loop buf off 0 [] = read_name_loop buf ?p 0 (joined [] ls)"
    using assms(1,5) len' by (intro read_wire_labels) (auto simp: holds_at_append)
  also have "\<dots> = read_name_loop buf t (0 + 1) (joined [] ls)"
    using assms(3-5) by (intro read_pointer) (auto simp: holds_at_append)
  also have "\<dots> = read_name_loop buf (t + length (wire_labels ms)) (0 + 1) (joined (joined [] ls) ms)"
    using assms(1,6) len
    by (intro read_wire_labels) (auto simp: wire_name_def holds_at_append joined_append)
  also have "\<dots> = Some (Inr (dotted (ls @ ms)))"
    using assms(6) joined_dotted [OF ne, of "[]"]
    by (subst read_root) (auto simp: wire_name_def holds_at_append holds_at_Cons joined_append)
  finally show ?thesis by (simp add: read_dns_name_def)
qed

lemma name_decompression_example:
  "read_dns_name [5, 108, 111, 99, 97, 108, 0, 1, 97, 192, 0] 7 = Some (Inr ''a.local.'')"
  using name_decompression [of "[''a'']" "[''local'']" 0 7
      "[5, 108, 111, 99, 97, 108, 0, 1, 97, 192, 0]"]
  by (simp add: wire_name_def label_bytes_def valid_label_def byte_of_char_def holds_at_def
      pointer_bytes_def)

text \<open>
  \<open>encode_dns_name\<close> against its reference: it splits the name, less one trailing dot, at the
  dots and emits each label with its length byte and a final root label; it returns the empty
  vector exactly when a label is longer than 63 octets or the wire form longer than 255.
\<close>

lemma encode_dns_name_reference:
  "encode_dns_name s =
     (let ls = split_labels (strip_dot s)
      in if (\<exists>l \<in> set ls. length l > 63) \<or> length (wire_name ls) > 255 then [] else wire_name ls)"
  by (simp add: encode_dns_name_split Let_def)

text \<open>
  An empty label in the middle of a name is not rejected: the encoder emits a root label
  there, the decoder stops at it, and the name that a receiver sees is cut short.
\<close>

lemma encode_empty_label_truncates:
  assumes "\<forall>l \<in> set ls. valid_label l" and "\<forall>m \<in> set ms. valid_label m" and "ms \<noteq> []"
    and "length (dotted (ls @ [] # ms)) \<le> 254"
  shows "encode_dns_name (dotted (ls @ [] # ms)) \<noteq> [] \<and>
    read_dns_name (encode_dns_name (dotted (ls @ [] # ms))) 0 = Some (Inr (dotted ls))"
proof -
  let ?ns = "ls @ [] # ms"
  have e: "encode_dns_name (dotted ?ns) = wire_name ?ns"
    using assms by (intro encode_dns_name_labels) (auto simp: valid_label_def)
  have "holds_at (wire_name ?ns) 0 (wire_name ls)"
    by (simp add: wire_name_def label_bytes_def holds_at_def)
  then have "read_dns_name (wire_name ?ns) 0 = Some (Inr (dotted ls))"
    using assms by (intro read_wire_name) auto
  with e show ?thesis by (simp add: wire_name_def)
qed

lemma encode_empty_label_truncates_example:
  "encode_dns_name ''a..b.'' \<noteq> [] \<and> read_dns_name (encode_dns_name ''a..b.'') 0 = Some (Inr ''a.'')"
  using encode_empty_label_truncates [of "[''a'']" "[''b'']"] by (simp add: valid_label_def)

end
