(* ===== verification/Ip_Text.thy ===== *)
theory Ip_Text
  imports Dns_Read
begin

text \<open>
  Addresses as text: \<open>encode_ipv4\<close> and \<open>encode_ipv6\<close> of \<open>detail/dns_write.h\<close>,
  \<open>ip_address_to_string\<close> of \<open>detail/mdns_util.h\<close> and \<open>validate_multicast_address\<close> of
  \<open>detail/validate_multicast.h\<close>. The platform's \<open>inet_pton\<close> is a parameter.
\<close>

section \<open>Decimal and hexadecimal numbers\<close>

text \<open>The conversions \<open>%u\<close> and \<open>%x\<close> of \<open>snprintf\<close>, and \<open>std::from_chars\<close> for \<open>int32_t\<close>.\<close>

definition digit_char :: "nat \<Rightarrow> char" where
  "digit_char d = char_of (if d < 10 then 48 + d else 87 + d)"

fun show_nat :: "nat \<Rightarrow> string" where
  "show_nat n = (if n < 10 then [digit_char n] else show_nat (n div 10) @ [digit_char (n mod 10)])"

fun show_hex :: "nat \<Rightarrow> string" where
  "show_hex n = (if n < 16 then [digit_char n] else show_hex (n div 16) @ [digit_char (n mod 16)])"

declare show_nat.simps [simp del] show_hex.simps [simp del]

definition is_digit :: "char \<Rightarrow> bool" where
  "is_digit c \<longleftrightarrow> 48 \<le> (of_char c :: nat) \<and> (of_char c :: nat) \<le> 57"

definition digits_value :: "string \<Rightarrow> int" where
  "digits_value ds = foldl (\<lambda>v c. 10 * v + (int (of_char c) - 48)) 0 ds"

definition from_chars_int32 :: "string \<Rightarrow> (int \<times> string) option" where
  "from_chars_int32 s =
     (let neg = (s \<noteq> [] \<and> hd s = CHR ''-'');
          s' = (if neg then tl s else s);
          ds = takeWhile is_digit s';
          v = (if neg then - digits_value ds else digits_value ds)
      in if ds = [] then None
         else if v < - (2 ^ 31) \<or> v \<ge> 2 ^ 31 then None
         else Some (v, dropWhile is_digit s'))"

text \<open>\<open>snprintf\<close> into a buffer of \<open>n\<close> characters keeps at most \<open>n - 1\<close> of them.\<close>

definition snprintf :: "nat \<Rightarrow> string \<Rightarrow> string" where
  "snprintf n s = take (n - 1) s"

text \<open>The argument of a C interface: the characters up to the first null.\<close>

definition c_str :: "string \<Rightarrow> string" where
  "c_str s = takeWhile (\<lambda>c. (of_char c :: nat) \<noteq> 0) s"

section \<open>Encoding addresses\<close>

text \<open>The loop over the four octets; the first argument is the number of octets still to read.\<close>

fun encode_ipv4_loop :: "nat \<Rightarrow> string \<Rightarrow> bytes \<Rightarrow> bytes expected" where
  "encode_ipv4_loop 0 p result = Inr result"
| "encode_ipv4_loop (Suc m) p result =
     (if p = [] then Inl Invalid_ipv4_address
      else case from_chars_int32 p of
        None \<Rightarrow> Inl Invalid_ipv4_address
      | Some (octet, ptr) \<Rightarrow>
          if octet < 0 \<or> octet > 255 then Inl Invalid_ipv4_address
          else if m > 0 then
            (if ptr = [] \<or> hd ptr \<noteq> CHR ''.'' then Inl Invalid_ipv4_address
             else encode_ipv4_loop m (tl ptr) (result @ [word_of_int octet]))
          else
            (if ptr \<noteq> [] then Inl Invalid_ipv4_address
             else encode_ipv4_loop m ptr (result @ [word_of_int octet])))"

definition encode_ipv4 :: "string \<Rightarrow> bytes expected" where
  "encode_ipv4 addr = encode_ipv4_loop 4 addr []"

definition encode_ipv6 :: "(string \<Rightarrow> bytes option) \<Rightarrow> string \<Rightarrow> bytes expected" where
  "encode_ipv6 inet_pton6 addr =
     (case inet_pton6 (c_str addr) of
        None \<Rightarrow> Inl Invalid_ipv6_address
      | Some raw \<Rightarrow> Inr raw)"

text \<open>
  What the code relies on: \<open>inet_pton(AF_INET6, ...)\<close> fills the 16 bytes of an IPv6 address,
  \<open>inet_pton(AF_INET, ...)\<close> the 4 bytes of an IPv4 address.
\<close>

definition inet_pton_width :: "nat \<Rightarrow> (string \<Rightarrow> bytes option) \<Rightarrow> bool" where
  "inet_pton_width n inet_pton \<longleftrightarrow> (\<forall>s raw. inet_pton s = Some raw \<longrightarrow> length raw = n)"

section \<open>Printing addresses\<close>

text \<open>
  A socket address as the function reads it: four or sixteen address bytes in network order
  and the port (in host order: \<open>ntohs\<close> is a bijection that keeps zero).
\<close>

datatype sockaddr =
    Sockaddr_in byte byte byte byte u16
  | Sockaddr_in6 bytes u16
  | Sockaddr_other

definition ipv4_text :: "byte \<Rightarrow> byte \<Rightarrow> byte \<Rightarrow> byte \<Rightarrow> string" where
  "ipv4_text b0 b1 b2 b3 =
     show_nat (unat b0) @ ''.'' @ show_nat (unat b1) @ ''.'' @ show_nat (unat b2) @ ''.'' @
     show_nat (unat b3)"

text \<open>One iteration of the search for the longest run of zero groups.\<close>

fun zero_run_step :: "int \<times> int \<times> int \<times> int \<Rightarrow> nat \<times> u16 \<Rightarrow> int \<times> int \<times> int \<times> int" where
  "zero_run_step (best_start, best_len, cur_start, cur_len) (i, g) =
     (if g = 0 then
        (best_start, best_len, if cur_start < 0 then int i else cur_start, cur_len + 1)
      else if cur_len > best_len then (cur_start, cur_len, -1, 0)
      else (best_start, best_len, -1, 0))"

definition best_zero_run :: "u16 list \<Rightarrow> int \<times> int" where
  "best_zero_run groups =
     (let (best_start, best_len, cur_start, cur_len) =
            foldl zero_run_step (-1, 0, -1, 0) (zip [0..<length groups] groups);
          (best_start, best_len) =
            (if cur_len > best_len then (cur_start, cur_len) else (best_start, best_len))
      in if best_len < 2 then (-1, best_len) else (best_start, best_len))"

text \<open>
  The loop that writes the groups. An iteration that writes \<open>::\<close> advances by \<open>best_len\<close>; the
  loop would not end if that were zero, hence the fuel, whose exhaustion is \<open>None\<close>.
\<close>

fun ipv6_host_loop :: "nat \<Rightarrow> u16 list \<Rightarrow> int \<Rightarrow> int \<Rightarrow> int \<Rightarrow> string \<Rightarrow> string option" where
  "ipv6_host_loop 0 groups best_start best_len i host = None"
| "ipv6_host_loop (Suc fuel) groups best_start best_len i host =
     (if i < 8 then
        (if i = best_start then
           ipv6_host_loop fuel groups best_start best_len (i + best_len) (host @ ''::'')
         else
           ipv6_host_loop fuel groups best_start best_len (i + 1)
             ((if i > 0 \<and> i \<noteq> best_start + best_len then host @ '':'' else host)
               @ snprintf 5 (show_hex (unat (groups ! nat i)))))
      else Some host)"

definition ipv6_groups :: "bytes \<Rightarrow> u16 list option" where
  "ipv6_groups b = those (map (\<lambda>i. read_u16_be b (2 * i)) [0..<8])"

fun ip_address_to_string :: "sockaddr \<Rightarrow> string option" where
  "ip_address_to_string (Sockaddr_in b0 b1 b2 b3 port) =
     Some (if port \<noteq> 0 then snprintf 22 (ipv4_text b0 b1 b2 b3 @ '':'' @ show_nat (unat port))
           else snprintf 22 (ipv4_text b0 b1 b2 b3))"
| "ip_address_to_string (Sockaddr_in6 b port) = do {
     groups \<leftarrow> ipv6_groups b;
     let (best_start, best_len) = best_zero_run groups;
     host \<leftarrow> ipv6_host_loop 9 groups best_start best_len 0 [];
     Some (if port \<noteq> 0 then ''['' @ host @ '']:'' @ show_nat (unat port) else host)
   }"
| "ip_address_to_string Sockaddr_other = Some []"

section \<open>Multicast addresses\<close>

text \<open>\<open>None\<close> is the cleared error code; the only error is \<open>errc::invalid_argument\<close>.\<close>

datatype errc = Invalid_argument | Operation_canceled

definition validate_multicast_address ::
  "(string \<Rightarrow> bytes option) \<Rightarrow> (string \<Rightarrow> bytes option) \<Rightarrow> string \<Rightarrow> errc option" where
  "validate_multicast_address inet_pton4 inet_pton6 address =
     (if address = [] then Some Invalid_argument
      else case inet_pton4 (c_str address) of
        Some addr4 \<Rightarrow>
          (let first_octet = hd addr4
           in if first_octet \<ge> 224 \<and> first_octet \<le> 239 then None else Some Invalid_argument)
      | None \<Rightarrow>
          (case inet_pton6 (c_str address) of
             Some addr6 \<Rightarrow> (if hd addr6 = 0xFF then None else Some Invalid_argument)
           | None \<Rightarrow> Some Invalid_argument))"

section \<open>Decimal numbers read back\<close>

lemma of_char_digit_char: "d < 10 \<Longrightarrow> (of_char (digit_char d) :: nat) = 48 + d"
  by (simp add: digit_char_def of_char_of)

lemma is_digit_digit_char [simp]: "d < 10 \<Longrightarrow> is_digit (digit_char d)"
  by (simp add: is_digit_def of_char_digit_char)

lemma show_nat_digits: "c \<in> set (show_nat n) \<Longrightarrow> is_digit c"
  by (induction n rule: show_nat.induct) (subst (asm) show_nat.simps, auto split: if_splits)

lemma show_nat_nonempty [simp]: "show_nat n \<noteq> []"
  by (subst show_nat.simps) simp

lemma digits_value_snoc: "digits_value (ds @ [c]) = 10 * digits_value ds + (int (of_char c) - 48)"
  by (simp add: digits_value_def)

lemma digits_value_show_nat [simp]: "digits_value (show_nat n) = int n"
proof (induction n rule: show_nat.induct)
  case (1 n)
  show ?case
  proof (cases "n < 10")
    case True
    then show ?thesis by (subst show_nat.simps) (simp add: digits_value_def of_char_digit_char)
  next
    case False
    then have "digits_value (show_nat n) = 10 * int (n div 10) + int (n mod 10)"
      using 1 by (subst show_nat.simps) (simp add: digits_value_snoc of_char_digit_char)
    then show ?thesis by presburger
  qed
qed

lemma not_is_digit [simp]: "\<not> is_digit CHR ''.''" "\<not> is_digit CHR ''-''"
  by (simp_all add: is_digit_def)

lemma takeWhile_digits:
  assumes "rest = [] \<or> \<not> is_digit (hd rest)"
  shows "takeWhile is_digit (show_nat n @ rest) = show_nat n"
    and "dropWhile is_digit (show_nat n @ rest) = rest"
proof -
  have "takeWhile is_digit rest = []" "dropWhile is_digit rest = rest" using assms by (cases rest; simp)+
  then show "takeWhile is_digit (show_nat n @ rest) = show_nat n"
    and "dropWhile is_digit (show_nat n @ rest) = rest"
    by (simp_all add: takeWhile_append2 dropWhile_append2 show_nat_digits)
qed

lemma from_chars_show_nat:
  assumes "rest = [] \<or> \<not> is_digit (hd rest)" and "n < 2 ^ 31"
  shows "from_chars_int32 (show_nat n @ rest) = Some (int n, rest)"
proof -
  have "is_digit (hd (show_nat n @ rest))" using show_nat_digits [of "hd (show_nat n)" n] by simp
  then have "hd (show_nat n @ rest) \<noteq> CHR ''-''" by (metis not_is_digit(2))
  then have "from_chars_int32 (show_nat n @ rest) =
      (if int n < - (2 ^ 31) \<or> int n \<ge> 2 ^ 31 then None else Some (int n, rest))"
    by (simp add: from_chars_int32_def Let_def takeWhile_digits [OF assms(1)] del: power_numeral)
  moreover have "\<not> (int n < - (2 ^ 31) \<or> int n \<ge> 2 ^ 31)" using assms(2) by simp
  ultimately show ?thesis by (simp only: if_False)
qed

lemma encode_ipv4_octet:
  assumes "rest = [] \<or> \<not> is_digit (hd rest)"
  shows "encode_ipv4_loop (Suc m) (show_nat (unat b) @ rest) acc =
    (if m > 0 then
       (if rest = [] \<or> hd rest \<noteq> CHR ''.'' then Inl Invalid_ipv4_address
        else encode_ipv4_loop m (tl rest) (acc @ [b]))
     else (if rest \<noteq> [] then Inl Invalid_ipv4_address else encode_ipv4_loop m rest (acc @ [b])))"
proof -
  have "unat b < 256" by (rule unat_byte_less)
  then have "unat b < 2 ^ 31" by (rule less_trans) simp
  note f = from_chars_show_nat [OF assms this]
  have "\<not> (int (unat b) < 0 \<or> int (unat b) > 255)" using \<open>unat b < 256\<close> by linarith
  moreover have "word_of_int (int (unat b)) = b" by simp
  ultimately show ?thesis by (simp add: f del: of_nat_less_0_iff)
qed

lemma encode_ipv4_text: "encode_ipv4 (ipv4_text b0 b1 b2 b3) = Inr [b0, b1, b2, b3]"
  using encode_ipv4_octet [of "[]" 0 b3 "[b0, b1, b2]"]
  by (simp add: encode_ipv4_def ipv4_text_def encode_ipv4_octet eval_nat_numeral
      del: encode_ipv4_loop.simps(2))

section \<open>Lengths\<close>

lemma length_show_nat: "0 < k \<Longrightarrow> n < 10 ^ k \<Longrightarrow> length (show_nat n) \<le> k"
proof (induction k arbitrary: n)
  case (Suc k)
  show ?case
  proof (cases "n < 10")
    case True
    then show ?thesis by (subst show_nat.simps) simp
  next
    case False
    then have "n div 10 < 10 ^ k" "0 < k" using Suc.prems by (auto intro: ccontr)
    with Suc.IH have "length (show_nat (n div 10)) \<le> k" by blast
    with False show ?thesis by (subst show_nat.simps) simp
  qed
qed simp

lemma length_show_hex: "0 < k \<Longrightarrow> n < 16 ^ k \<Longrightarrow> length (show_hex n) \<le> k"
proof (induction k arbitrary: n)
  case (Suc k)
  show ?case
  proof (cases "n < 16")
    case True
    then show ?thesis by (subst show_hex.simps) simp
  next
    case False
    then have "n div 16 < 16 ^ k" "0 < k" using Suc.prems by (auto intro: ccontr)
    with Suc.IH have "length (show_hex (n div 16)) \<le> k" by blast
    with False show ?thesis by (subst show_hex.simps) simp
  qed
qed simp

lemma length_show_byte: "length (show_nat (unat (b :: byte))) \<le> 3"
  by (intro length_show_nat less_trans [OF unat_byte_less]) simp_all

lemma length_show_u16: "length (show_nat (unat (p :: u16))) \<le> 5"
  by (intro length_show_nat less_trans [OF unat_u16_less]) simp_all

lemma length_ipv4_text: "length (ipv4_text b0 b1 b2 b3) \<le> 15"
  using length_show_byte [of b0] length_show_byte [of b1] length_show_byte [of b2]
    length_show_byte [of b3] by (simp add: ipv4_text_def)

lemma snprintf_fits: "length s < n \<Longrightarrow> snprintf n s = s"
  by (simp add: snprintf_def)

lemma ipv4_address_to_string: "ip_address_to_string (Sockaddr_in b0 b1 b2 b3 0) = Some (ipv4_text b0 b1 b2 b3)"
  using length_ipv4_text [of b0 b1 b2 b3] by (simp add: snprintf_fits)

section \<open>The IPv6 writer terminates\<close>

lemma ipv6_host_loop_fuel:
  assumes "best_start < 0 \<or> 1 \<le> best_len" and "0 \<le> i" and "8 - i < int fuel" and "0 < fuel"
  shows "\<exists>host'. ipv6_host_loop fuel groups best_start best_len i host = Some host'"
  using assms
proof (induction fuel arbitrary: i host)
  case (Suc fuel)
  show ?case
  proof (cases "i < 8")
    case True
    have "\<exists>host'. ipv6_host_loop fuel groups best_start best_len j h = Some host'"
      if "i + 1 \<le> j" for j h
      using that Suc.prems True by (intro Suc.IH) auto
    with True Suc.prems(1,2) show ?thesis by auto
  qed simp
qed simp

lemma best_zero_run_progress: "best_zero_run groups = (bs, bl) \<Longrightarrow> bs < 0 \<or> 1 \<le> bl"
  by (auto simp: best_zero_run_def Let_def split: prod.splits if_splits)

lemma those_map_Some: "(\<And>x. x \<in> set xs \<Longrightarrow> \<exists>y. f x = Some y) \<Longrightarrow> \<exists>ys. those (map f xs) = Some ys"
proof (induction xs)
  case (Cons x xs)
  then obtain ys y where "those (map f xs) = Some ys" "f x = Some y" by fastforce
  then show ?case by simp
qed simp

lemma ipv6_groups_defined: "length b = 16 \<Longrightarrow> \<exists>gs. ipv6_groups b = Some gs"
  unfolding ipv6_groups_def
proof (rule those_map_Some)
  fix i assume "length b = 16" "i \<in> set [0..<8]"
  then have "2 * i + 2 \<le> length b" by auto
  then show "\<exists>y. read_u16_be b (2 * i) = Some y" using u16.rd_some by blast
qed

lemma ipv6_address_to_string:
  assumes "length b = 16"
  shows "\<exists>s. ip_address_to_string (Sockaddr_in6 b port) = Some s"
proof -
  obtain gs where gs: "ipv6_groups b = Some gs" using ipv6_groups_defined [OF assms] by blast
  obtain bs bl where run: "best_zero_run gs = (bs, bl)" by fastforce
  obtain host where "ipv6_host_loop 9 gs bs bl 0 [] = Some host"
    using ipv6_host_loop_fuel [OF best_zero_run_progress [OF run], of 0 9 gs "[]"] by auto
  with gs run show ?thesis by simp
qed

lemma encode_ipv4_loop_result:
  "encode_ipv4_loop n p acc = Inl e \<Longrightarrow> e = Invalid_ipv4_address"
  "encode_ipv4_loop n p acc = Inr bs \<Longrightarrow> length bs = length acc + n"
  by (induction n p acc rule: encode_ipv4_loop.induct) (auto split: option.splits if_splits)

lemma encode_ipv4_cases:
  obtains (fail) "encode_ipv4 s = Inl Invalid_ipv4_address" | (ok) bs where "encode_ipv4 s = Inr bs" "length bs = 4"
proof (cases "encode_ipv4 s")
  case (Inl e)
  with fail show thesis using encode_ipv4_loop_result(1) by (fastforce simp: encode_ipv4_def)
next
  case (Inr bs)
  with ok show thesis using encode_ipv4_loop_result(2) by (fastforce simp: encode_ipv4_def)
qed

section \<open>Properties\<close>

text \<open>
  Round trip of IPv4 addresses. The text that \<open>ip_address_to_string\<close> prints for the four
  bytes of an A record fits its 22-character buffer and is encoded by \<open>encode_ipv4\<close> to the same
  four bytes.
\<close>

lemma ipv4_roundtrip:
  "\<exists>s. ip_address_to_string (Sockaddr_in b0 b1 b2 b3 0) = Some s \<and> length s < 22 \<and>
     encode_ipv4 s = Inr [b0, b1, b2, b3]"
  using length_ipv4_text [of b0 b1 b2 b3]
  by (auto simp: ipv4_address_to_string encode_ipv4_text simp del: ip_address_to_string.simps)

end
