(* ===== verification/Dns_Write.thy ===== *)
theory Dns_Write
  imports Name_Codec Ip_Text
begin

text \<open>
  \<open>detail/dns_write.h\<close>: resource records, TXT record data and NSEC records appended to a packet
  buffer.
\<close>

section \<open>Resource records\<close>

definition append_dns_rr :: "bytes \<Rightarrow> bytes \<Rightarrow> dns_type \<Rightarrow> u32 \<Rightarrow> bytes \<Rightarrow> bool \<Rightarrow> bytes" where
  "append_dns_rr buf name rtype ttl rdata cache_flush =
     (if name = [] \<or> length rdata > 65535 then buf
      else
        (let buf = buf @ name;
             buf = push_u16_be buf (type_underlying rtype);
             buf = push_u16_be buf (if cache_flush then 0x8001 else 0x0001);
             buf = push_u32_be buf ttl;
             buf = push_u16_be buf (word_of_nat (length rdata))
         in buf @ rdata))"

text \<open>The bytes that one record occupies.\<close>

definition rr_bytes :: "bytes \<Rightarrow> dns_type \<Rightarrow> u32 \<Rightarrow> bytes \<Rightarrow> bool \<Rightarrow> bytes" where
  "rr_bytes name rtype ttl rdata cache_flush =
     name @ be16 (type_underlying rtype) @ be16 (if cache_flush then 0x8001 else 0x0001) @
     be32 ttl @ be16 (word_of_nat (length rdata)) @ rdata"

lemma append_dns_rr_eq:
  "append_dns_rr buf name rtype ttl rdata cf =
     (if name = [] \<or> length rdata > 65535 then buf else buf @ rr_bytes name rtype ttl rdata cf)"
  by (simp add: append_dns_rr_def rr_bytes_def Let_def push_u16_be_append [of "_ @ _"]
      push_u32_be_append [of "_ @ _"])

lemma length_rr_bytes [simp]: "length (rr_bytes name rtype ttl rdata cf) = length name + 10 + length rdata"
  by (simp add: rr_bytes_def)

lemma length_append_dns_rr: "length buf \<le> length (append_dns_rr buf name rtype ttl rdata cf)"
  by (simp add: append_dns_rr_eq)

section \<open>TXT record data\<close>

definition txt_string :: "service_txt \<Rightarrow> string" where
  "txt_string entry =
     (case txt_value entry of None \<Rightarrow> txt_key entry | Some v \<Rightarrow> txt_key entry @ ''='' @ v)"

fun encode_txt_loop :: "service_txt list \<Rightarrow> bytes \<Rightarrow> bytes" where
  "encode_txt_loop [] result = result"
| "encode_txt_loop (entry # entries) result =
     (let s = txt_string entry
      in if length s > 255 then encode_txt_loop entries result
         else encode_txt_loop entries
                ((result @ [word_of_nat (length s)])
                  @ bytes_of_string (take (unat (word_of_nat (length s) :: u8)) s)))"

definition encode_txt_records :: "service_txt list \<Rightarrow> bytes" where
  "encode_txt_records entries = encode_txt_loop entries []"

definition txt_entry_bytes :: "service_txt \<Rightarrow> bytes" where
  "txt_entry_bytes entry =
     (if length (txt_string entry) > 255 then []
      else word_of_nat (length (txt_string entry)) # bytes_of_string (txt_string entry))"

lemma unat_word_of_nat_u8: "n \<le> 255 \<Longrightarrow> unat (word_of_nat n :: u8) = n"
  by (simp add: unat_of_nat)

lemma encode_txt_loop_eq: "encode_txt_loop es acc = acc @ concat (map txt_entry_bytes es)"
  by (induction es acc rule: encode_txt_loop.induct)
    (simp_all add: Let_def txt_entry_bytes_def unat_word_of_nat_u8)

lemma encode_txt_records_eq: "encode_txt_records es = concat (map txt_entry_bytes es)"
  by (simp add: encode_txt_records_def encode_txt_loop_eq)

section \<open>NSEC records\<close>

text \<open>
  The bitmap has five bytes; the enumerators passed to \<open>set_bit\<close> are below 40, so the index
  \<open>type_val / 8\<close> is in range.
\<close>

definition set_type_bit :: "bytes \<Rightarrow> nat \<Rightarrow> bytes" where
  "set_type_bit bitmap type_val =
     bitmap[type_val div 8 := bitmap ! (type_val div 8) OR push_bit (7 - type_val mod 8) 1]"

definition trim_zeros :: "bytes \<Rightarrow> bytes" where
  "trim_zeros bitmap = rev (dropWhile (\<lambda>b. b = 0) (rev bitmap))"

definition build_nsec_bitmap :: "service_info \<Rightarrow> bytes" where
  "build_nsec_bitmap info =
     (let bitmap = replicate 5 0;
          bitmap = set_type_bit bitmap (unat (type_underlying Type_ptr));
          bitmap = set_type_bit bitmap (unat (type_underlying Type_txt));
          bitmap = set_type_bit bitmap (unat (type_underlying Type_srv));
          bitmap = (if address_ipv4 info \<noteq> None
                    then set_type_bit bitmap (unat (type_underlying Type_a)) else bitmap);
          bitmap = (if address_ipv6 info \<noteq> None
                    then set_type_bit bitmap (unat (type_underlying Type_aaaa)) else bitmap);
          bitmap = trim_zeros bitmap
      in 0 # word_of_nat (length bitmap) # bitmap)"

definition append_nsec_rr :: "bytes \<Rightarrow> bytes \<Rightarrow> service_info \<Rightarrow> u32 \<Rightarrow> bytes" where
  "append_nsec_rr buf owner_name info ttl =
     (let bitmap = build_nsec_bitmap info;
          rdata = owner_name @ bitmap
      in append_dns_rr buf owner_name Type_nsec ttl rdata False)"

text \<open>Membership of a type in an RFC 4034 window block for window 0.\<close>

definition nsec_has_type :: "bytes \<Rightarrow> nat \<Rightarrow> bool" where
  "nsec_has_type block t \<longleftrightarrow>
     t div 8 < unat (block ! 1) \<and> bit (block ! (2 + t div 8)) (7 - t mod 8)"

lemma set_type_bit_known:
  "set_type_bit (set_type_bit (set_type_bit (replicate 5 0) 12) 16) 33 = [0, 0x08, 0x80, 0, 0x40]"
  "set_type_bit [0, 0x08, 0x80, 0, 0x40] 1 = [0x40, 0x08, 0x80, 0, 0x40]"
  "set_type_bit [0, 0x08, 0x80, 0, 0x40] 28 = [0, 0x08, 0x80, 0x08, 0x40]"
  "set_type_bit [0x40, 0x08, 0x80, 0, 0x40] 28 = [0x40, 0x08, 0x80, 0x08, 0x40]"
  by code_simp+

lemma build_nsec_bitmap_eq:
  "build_nsec_bitmap info =
     [0, 5, if address_ipv4 info = None then 0 else 0x40, 0x08, 0x80,
      if address_ipv6 info = None then 0 else 0x08, 0x40]"
  by (simp add: build_nsec_bitmap_def Let_def set_type_bit_known [unfolded One_nat_def] trim_zeros_def)

lemma length_build_nsec_bitmap [simp]: "length (build_nsec_bitmap info) = 7"
  by (simp add: build_nsec_bitmap_eq)

lemma append_nsec_rr_eq:
  "owner \<noteq> [] \<Longrightarrow> length owner \<le> 255 \<Longrightarrow>
     append_nsec_rr buf owner info ttl
       = buf @ rr_bytes owner Type_nsec ttl (owner @ build_nsec_bitmap info) False"
  by (simp add: append_nsec_rr_def Let_def append_dns_rr_eq)

lemma nsec_block_scan:
  "\<forall>t \<in> set [0..<40]. nsec_has_type [0, 5, 0, 0x08, 0x80, 0, 0x40] t \<longleftrightarrow> t \<in> {12, 16, 33}"
  "\<forall>t \<in> set [0..<40]. nsec_has_type [0, 5, 0x40, 0x08, 0x80, 0, 0x40] t \<longleftrightarrow> t \<in> {1, 12, 16, 33}"
  "\<forall>t \<in> set [0..<40]. nsec_has_type [0, 5, 0, 0x08, 0x80, 0x08, 0x40] t \<longleftrightarrow> t \<in> {12, 16, 28, 33}"
  "\<forall>t \<in> set [0..<40]. nsec_has_type [0, 5, 0x40, 0x08, 0x80, 0x08, 0x40] t \<longleftrightarrow> t \<in> {1, 12, 16, 28, 33}"
  by code_simp+

section \<open>Properties\<close>

text \<open>
  The NSEC type bitmap: a type bit is set exactly for PTR, TXT and SRV, for A when the service
  has an IPv4 address and for AAAA when it has an IPv6 address; in particular the NSEC bit itself
  is never set (RFC 6762 section 6.1).
\<close>

lemma nsec_bitmap_types:
  "nsec_has_type (build_nsec_bitmap info) t \<longleftrightarrow>
     t \<in> {12, 16, 33} \<or> (t = 1 \<and> address_ipv4 info \<noteq> None) \<or> (t = 28 \<and> address_ipv6 info \<noteq> None)"
proof (cases "t < 40")
  case True
  then have "t \<in> set [0..<40]" by simp
  with nsec_block_scan show ?thesis
    unfolding build_nsec_bitmap_eq
    by (cases "address_ipv4 info = None"; cases "address_ipv6 info = None") auto
next
  case False
  then show ?thesis by (auto simp: nsec_has_type_def build_nsec_bitmap_eq)
qed

end
