(* ===== verification/Dns_Parse.thy ===== *)
theory Dns_Parse
  imports Dns_Write
begin

text \<open>
  \<open>parse.h\<close> and \<open>detail/dns_frame.h\<close>: decoding one resource record from a frame, and walking a
  whole frame. The callback of \<open>walk_dns_frame\<close> cannot influence the walk, so the model returns
  the records it is called with, in order.
\<close>

section \<open>Single records\<close>

record record_metadata =
  meta_sender :: endpoint
  meta_ttl :: u32
  meta_rclass :: dns_class
  meta_rtype :: dns_type
  meta_cache_flush :: bool
  name_offset :: nat
  record_offset :: nat
  record_length :: nat

definition extract_owner_name :: "bytes \<Rightarrow> record_metadata \<Rightarrow> string option" where
  "extract_owner_name buffer meta = do {
     name \<leftarrow> read_dns_name buffer (name_offset meta);
     Some (case name of Inr n \<Rightarrow> n | Inl _ \<Rightarrow> [])
   }"

text \<open>The assignments of the six common members, the same in all five parsers.\<close>

definition base_of_meta :: "string \<Rightarrow> record_metadata \<Rightarrow> record_base" where
  "base_of_meta owner meta =
     \<lparr>rec_name = dns_name owner, rec_ttl = meta_ttl meta, rec_class = meta_rclass meta,
      rec_length = word_of_nat (record_length meta),
      sender_address = ep_address (meta_sender meta), rec_cache_flush = meta_cache_flush meta\<rparr>"

definition parse_a :: "bytes \<Rightarrow> record_metadata \<Rightarrow> mdns_record_variant expected option" where
  "parse_a buffer meta =
     (if length buffer < record_offset meta + record_length meta then Some (Inl Parse_error)
      else if record_length meta \<noteq> 4 then Some (Inl Parse_error)
      else do {
        b0 \<leftarrow> byte_at buffer (record_offset meta);
        b1 \<leftarrow> byte_at buffer (record_offset meta + 1);
        b2 \<leftarrow> byte_at buffer (record_offset meta + 2);
        b3 \<leftarrow> byte_at buffer (record_offset meta + 3);
        owner \<leftarrow> extract_owner_name buffer meta;
        addr \<leftarrow> ip_address_to_string (Sockaddr_in b0 b1 b2 b3 0);
        Some (Inr (Rec_a (record_base.extend (base_of_meta owner meta) \<lparr>a_address_string = addr\<rparr>)))
      })"

definition parse_aaaa :: "bytes \<Rightarrow> record_metadata \<Rightarrow> mdns_record_variant expected option" where
  "parse_aaaa buffer meta =
     (if length buffer < record_offset meta + record_length meta then Some (Inl Parse_error)
      else if record_length meta \<noteq> 16 then Some (Inl Parse_error)
      else do {
        b \<leftarrow> slice buffer (record_offset meta) 16;
        owner \<leftarrow> extract_owner_name buffer meta;
        addr \<leftarrow> ip_address_to_string (Sockaddr_in6 b 0);
        Some (Inr (Rec_aaaa (record_base.extend (base_of_meta owner meta) \<lparr>aaaa_address_string = addr\<rparr>)))
      })"

definition parse_ptr :: "bytes \<Rightarrow> record_metadata \<Rightarrow> mdns_record_variant expected option" where
  "parse_ptr buffer meta =
     (if length buffer < record_offset meta + record_length meta then Some (Inl Parse_error)
      else do {
        name \<leftarrow> read_dns_name buffer (record_offset meta);
        (case name of
           Inl _ \<Rightarrow> Some (Inl Parse_error)
         | Inr target \<Rightarrow> do {
             owner \<leftarrow> extract_owner_name buffer meta;
             Some (Inr (Rec_ptr (record_base.extend (base_of_meta owner meta) \<lparr>ptr_name = dns_name target\<rparr>)))
           })
      })"

definition parse_srv :: "bytes \<Rightarrow> record_metadata \<Rightarrow> mdns_record_variant expected option" where
  "parse_srv buffer meta =
     (if length buffer < record_offset meta + record_length meta then Some (Inl Parse_error)
      else if record_length meta < 7 then Some (Inl Parse_error)
      else do {
        priority \<leftarrow> read_u16_be buffer (record_offset meta + 0);
        weight \<leftarrow> read_u16_be buffer (record_offset meta + 2);
        port \<leftarrow> read_u16_be buffer (record_offset meta + 4);
        name \<leftarrow> read_dns_name buffer (record_offset meta + 6);
        (case name of
           Inl _ \<Rightarrow> Some (Inl Parse_error)
         | Inr target \<Rightarrow> do {
             owner \<leftarrow> extract_owner_name buffer meta;
             Some (Inr (Rec_srv (record_base.extend (base_of_meta owner meta)
               \<lparr>srv_port = port, srv_weight = weight, srv_priority = priority,
                srv_name = dns_name target\<rparr>)))
           })
      })"

text \<open>One key/value entry: split at the first \<open>=\<close>.\<close>

definition txt_of_view :: "string \<Rightarrow> service_txt" where
  "txt_of_view entry_sv =
     (case sv_find entry_sv CHR ''='' 0 of
        Some sep \<Rightarrow> \<lparr>txt_key = take sep entry_sv, txt_value = Some (drop (sep + 1) entry_sv)\<rparr>
      | None \<Rightarrow> \<lparr>txt_key = entry_sv, txt_value = None\<rparr>)"

text \<open>
  The loop over the entries of a TXT record. The test whether an entry starts with \<open>=\<close> is
  guarded by \<open>entry_len > 0\<close>, as the short-circuit operator of the source is.
\<close>

function parse_txt_loop :: "bytes \<Rightarrow> nat \<Rightarrow> nat \<Rightarrow> service_txt list \<Rightarrow> service_txt list option" where
  "parse_txt_loop buffer pos end_pos entries =
     (if pos < end_pos then do {
        entry_len \<leftarrow> byte_at buffer pos;
        (if pos + 1 + unat entry_len > end_pos then Some entries
         else do {
           no_key \<leftarrow> (if entry_len > 0
                     then map_option (\<lambda>b. char_of_byte b = CHR ''='') (byte_at buffer (pos + 1))
                     else Some False);
           (if no_key then parse_txt_loop buffer (pos + 1 + unat entry_len) end_pos entries
            else do {
              entry \<leftarrow> slice buffer (pos + 1) (unat entry_len);
              parse_txt_loop buffer (pos + 1 + unat entry_len) end_pos
                (entries @ [txt_of_view (string_of_bytes entry)])
            })
         })
      } else Some entries)"
  by pat_completeness auto
termination
  by (relation "measure (\<lambda>(buffer, pos, end_pos, entries). end_pos - pos)") auto

declare parse_txt_loop.simps [simp del]

definition parse_txt :: "bytes \<Rightarrow> record_metadata \<Rightarrow> mdns_record_variant expected option" where
  "parse_txt buffer meta =
     (if length buffer < record_offset meta + record_length meta then Some (Inl Parse_error)
      else do {
        owner \<leftarrow> extract_owner_name buffer meta;
        entries \<leftarrow> parse_txt_loop buffer (record_offset meta) (record_offset meta + record_length meta) [];
        Some (Inr (Rec_txt (record_base.extend (base_of_meta owner meta) \<lparr>txt_entries = entries\<rparr>)))
      })"

definition parse_record :: "bytes \<Rightarrow> record_metadata \<Rightarrow> mdns_record_variant expected option" where
  "parse_record buffer meta =
     (case meta_rtype meta of
        Type_a \<Rightarrow> parse_a buffer meta
      | Type_ptr \<Rightarrow> parse_ptr buffer meta
      | Type_txt \<Rightarrow> parse_txt buffer meta
      | Type_aaaa \<Rightarrow> parse_aaaa buffer meta
      | Type_srv \<Rightarrow> parse_srv buffer meta
      | _ \<Rightarrow> Some (Inl Parse_error))"

section \<open>Frames\<close>

text \<open>The question section: the first argument counts the questions still to skip; the inner \<open>None\<close> is an early return.\<close>

fun skip_questions :: "nat \<Rightarrow> bytes \<Rightarrow> nat \<Rightarrow> nat option option" where
  "skip_questions 0 data offset = Some (Some offset)"
| "skip_questions (Suc n) data offset = do {
     (ok, offset) \<leftarrow> skip_dns_name data offset;
     (if \<not> ok then Some None
      else if offset + 4 > length data then Some None
      else skip_questions n data (offset + 4))
   }"

fun walk_rrs :: "nat \<Rightarrow> bytes \<Rightarrow> endpoint \<Rightarrow> nat \<Rightarrow> mdns_record_variant list \<Rightarrow> mdns_record_variant list option" where
  "walk_rrs 0 data sender offset recs = Some recs"
| "walk_rrs (Suc n) data sender offset recs = do {
     let name_off = offset;
     (ok, offset) \<leftarrow> skip_dns_name data offset;
     (if \<not> ok then Some recs
      else if offset + 10 > length data then Some recs
      else do {
        rtype \<leftarrow> read_u16_be data offset;
        rclass \<leftarrow> read_u16_be data (offset + 2);
        ttl \<leftarrow> read_u32_be data (offset + 4);
        rdlength \<leftarrow> read_u16_be data (offset + 8);
        let rec_off = offset + 10;
        let rec_len = unat rdlength;
        (if rec_off + rec_len > length data then Some recs
         else do {
           let meta = \<lparr>meta_sender = sender, meta_ttl = ttl,
                       meta_rclass = dns_class_of (rclass AND 0x7FFF),
                       meta_rtype = dns_type_of rtype, meta_cache_flush = (rclass AND 0x8000 \<noteq> 0),
                       name_offset = name_off, record_offset = rec_off, record_length = rec_len\<rparr>;
           result \<leftarrow> parse_record data meta;
           walk_rrs n data sender (rec_off + rec_len)
             (case result of Inr r \<Rightarrow> recs @ [r] | Inl _ \<Rightarrow> recs)
         })
      })
   }"

definition walk_dns_frame :: "bytes \<Rightarrow> endpoint \<Rightarrow> mdns_record_variant list option" where
  "walk_dns_frame data sender =
     (if length data < 12 then Some []
      else do {
        qdcount \<leftarrow> read_u16_be data 4;
        ancount \<leftarrow> read_u16_be data 6;
        nscount \<leftarrow> read_u16_be data 8;
        arcount \<leftarrow> read_u16_be data 10;
        after \<leftarrow> skip_questions (unat qdcount) data 12;
        (case after of
           None \<Rightarrow> Some []
         | Some offset \<Rightarrow>
             (let rr_total = ucast ancount + ucast nscount + ucast arcount :: u32
              in walk_rrs (unat rr_total) data sender offset []))
      })"

end
