(* ===== verification/Frame_Codec.thy ===== *)
theory Frame_Codec
  imports Dns_Parse
begin

text \<open>
  What the parsers of \<open>parse.h\<close> and the walker of \<open>detail/dns_frame.h\<close> guarantee: no input makes
  them read out of range or run forever, and they recover exactly the records whose wire form
  stands in a frame.
\<close>

section \<open>Memory safety and totality\<close>

lemma extract_owner_name_total: "\<exists>n. extract_owner_name buf meta = Some n"
  by (rule read_dns_name_cases [of buf "name_offset meta"]) (simp_all add: extract_owner_name_def)

lemma parse_a_total: "\<exists>r. parse_a buf meta = Some r"
proof -
  obtain n where "extract_owner_name buf meta = Some n" using extract_owner_name_total by blast
  then show ?thesis by (simp add: parse_a_def byte_at_Some)
qed

lemma parse_aaaa_total: "\<exists>r. parse_aaaa buf meta = Some r"
proof (cases "length buf < record_offset meta + record_length meta \<or> record_length meta \<noteq> 16")
  case False
  let ?b = "take 16 (drop (record_offset meta) buf)"
  obtain n where "extract_owner_name buf meta = Some n" using extract_owner_name_total by blast
  moreover have "length ?b = 16" using False by auto
  then obtain s where "ip_address_to_string (Sockaddr_in6 ?b 0) = Some s"
    using ipv6_address_to_string by blast
  ultimately show ?thesis
    using False by (simp add: parse_aaaa_def slice_def del: ip_address_to_string.simps)
qed (auto simp: parse_aaaa_def)

lemma parse_ptr_total: "\<exists>r. parse_ptr buf meta = Some r"
proof -
  obtain n where "extract_owner_name buf meta = Some n" using extract_owner_name_total by blast
  then show ?thesis
    by (cases rule: read_dns_name_cases [of buf "record_offset meta"]) (simp_all add: parse_ptr_def)
qed

lemma parse_srv_total: "\<exists>r. parse_srv buf meta = Some r"
proof (cases "length buf < record_offset meta + record_length meta \<or> record_length meta < 7")
  case False
  let ?o = "record_offset meta"
  obtain n where n: "extract_owner_name buf meta = Some n" using extract_owner_name_total by blast
  obtain p q r where "read_u16_be buf (?o + 0) = Some p" "read_u16_be buf (?o + 2) = Some q"
    "read_u16_be buf (?o + 4) = Some r"
    using False u16.rd_some [of "?o + 0" buf] u16.rd_some [of "?o + 2" buf] u16.rd_some [of "?o + 4" buf]
    by fastforce
  then show ?thesis
    using False n by (cases rule: read_dns_name_cases [of buf "?o + 6"]) (simp_all add: parse_srv_def)
qed (auto simp: parse_srv_def)

lemma parse_txt_loop_total:
  "end_pos \<le> length buf \<Longrightarrow> \<exists>es. parse_txt_loop buf pos end_pos entries = Some es"
proof (induction buf pos end_pos entries rule: parse_txt_loop.induct)
  case (1 buf pos end_pos entries)
  show ?case
  proof (cases "pos < end_pos \<and> \<not> pos + 1 + unat (buf ! pos) > end_pos")
    case True
    let ?n = "pos + 1 + unat (buf ! pos)"
    let ?e = "take (unat (buf ! pos)) (drop (pos + 1) buf)"
    have b: "byte_at buf pos = Some (buf ! pos)" using True "1.prems" by (simp add: byte_at_Some)
    have s: "slice buf (pos + 1) (unat (buf ! pos)) = Some ?e"
      using True "1.prems" by (simp add: slice_def)
    obtain k where k: "(if buf ! pos > 0
        then map_option (\<lambda>b. char_of_byte b = CHR ''='') (byte_at buf (pos + 1)) else Some False) = Some k"
    proof (cases "buf ! pos > 0")
      case pos: True
      then have "pos + 1 < length buf"
        using True "1.prems" by (simp add: word_less_nat_alt)
      with pos that show ?thesis by (simp add: byte_at_Some)
    qed (use that in simp)
    have skip: "\<exists>es. parse_txt_loop buf ?n end_pos entries = Some es" if k
      using "1.IH"(1) [of "buf ! pos" k] True b k that "1.prems" by simp
    have take: "\<exists>es. parse_txt_loop buf ?n end_pos (entries @ [txt_of_view (string_of_bytes ?e)]) = Some es"
      if "\<not> k"
      using "1.IH"(2) [of "buf ! pos" k ?e] True b k s that "1.prems" by simp
    show ?thesis
      using True b s k skip take by (subst parse_txt_loop.simps) (cases k; simp)
  next
    case False
    then show ?thesis using "1.prems" by (subst parse_txt_loop.simps) (auto simp: byte_at_Some)
  qed
qed

lemma parse_txt_total: "\<exists>r. parse_txt buf meta = Some r"
proof (cases "length buf < record_offset meta + record_length meta")
  case False
  then obtain es where "parse_txt_loop buf (record_offset meta)
      (record_offset meta + record_length meta) [] = Some es"
    using parse_txt_loop_total by (meson not_less)
  moreover obtain n where "extract_owner_name buf meta = Some n" using extract_owner_name_total by blast
  ultimately show ?thesis using False by (simp add: parse_txt_def)
qed (simp add: parse_txt_def)

lemmas parsers_total = parse_a_total parse_aaaa_total parse_ptr_total parse_srv_total parse_txt_total

lemma parse_record_total: "\<exists>r. parse_record buf meta = Some r"
  by (cases "meta_rtype meta") (simp_all add: parse_record_def parsers_total)

lemmas parser_defs = parse_record_def parse_a_def parse_aaaa_def parse_ptr_def parse_srv_def parse_txt_def

lemma case_expected_eq_Inr:
  "(case y of Inl _ \<Rightarrow> Some (Inl e) | Inr x \<Rightarrow> f x) = Some (Inr r) \<longleftrightarrow> (\<exists>x. y = Inr x \<and> f x = Some (Inr r))"
  by (cases y) auto

lemma parse_record_sender:
  assumes "parse_record buf meta = Some (Inr rec)"
  shows "sender_address (visit_base rec) = ep_address (meta_sender meta)"
    and "rec_ttl (visit_base rec) = meta_ttl meta"
  using assms
  by (auto simp: parser_defs base_of_meta_def record_base.extend_def Option.bind_eq_Some_conv
      case_expected_eq_Inr split: dns_type.split_asm if_split_asm)

lemma skip_questions_total:
  "\<exists>r. skip_questions n data off = Some r \<and> (\<forall>off'. r = Some off' \<longrightarrow> off \<le> off')"
proof (induction n arbitrary: off)
  case (Suc n)
  show ?case
  proof (cases rule: skip_dns_name_cases [of data off])
    case (ok off')
    from Suc.IH [of "off' + 4"] ok show ?thesis
      by (cases "off' + 4 > length data") fastforce+
  qed simp
qed simp

lemma walk_rrs_total:
  "\<exists>recs'. walk_rrs n data sender off recs = Some (recs @ recs') \<and>
     length recs' \<le> n \<and> 11 * length recs' \<le> length data - off \<and>
     (\<forall>r \<in> set recs'. sender_address (visit_base r) = ep_address sender)"
proof (induction n arbitrary: off recs)
  case (Suc n)
  have stop: ?case if "walk_rrs (Suc n) data sender off recs = Some recs"
    using that by (intro exI [of _ "[]"]) simp
  show ?case
  proof (cases rule: skip_dns_name_cases [of data off])
    case (fail off')
    then show ?thesis by (intro stop) simp
  next
    case (ok off')
    show ?thesis
    proof (cases "off' + 10 > length data")
      case True
      with ok show ?thesis by (intro stop) simp
    next
      case False
      obtain t c l len where rd: "read_u16_be data off' = Some t" "read_u16_be data (off' + 2) = Some c"
        "read_u32_be data (off' + 4) = Some l" "read_u16_be data (off' + 8) = Some len"
        using False u16.rd_some [of off' data] u16.rd_some [of "off' + 2" data]
          u32.rd_some [of "off' + 4" data] u16.rd_some [of "off' + 8" data] by fastforce
      show ?thesis
      proof (cases "off' + 10 + unat len > length data")
        case True
        with ok False rd show ?thesis by (intro stop) (simp add: Let_def)
      next
        case inside: False
        let ?meta = "\<lparr>meta_sender = sender, meta_ttl = l, meta_rclass = dns_class_of (c AND 0x7FFF),
          meta_rtype = dns_type_of t, meta_cache_flush = (c AND 0x8000 \<noteq> 0), name_offset = off,
          record_offset = off' + 10, record_length = unat len\<rparr>"
        obtain r where r: "parse_record data ?meta = Some r" using parse_record_total by blast
        let ?new = "case r of Inr x \<Rightarrow> [x] | Inl _ \<Rightarrow> []"
        have step: "walk_rrs (Suc n) data sender off recs
            = walk_rrs n data sender (off' + 10 + unat len) (recs @ ?new)"
          using ok False rd inside r by (cases r) (simp_all add: Let_def)
        obtain recs' where IH: "walk_rrs n data sender (off' + 10 + unat len) (recs @ ?new)
            = Some ((recs @ ?new) @ recs')" "length recs' \<le> n"
          "11 * length recs' \<le> length data - (off' + 10 + unat len)"
          "\<forall>r \<in> set recs'. sender_address (visit_base r) = ep_address sender"
          using Suc.IH by blast
        have "length ?new \<le> 1" by (cases r) simp_all
        moreover have "\<forall>x \<in> set ?new. sender_address (visit_base x) = ep_address sender"
          using r by (cases r) (auto dest: parse_record_sender)
        moreover have "walk_rrs (Suc n) data sender off recs = Some (recs @ ?new @ recs')"
          unfolding step IH(1) by simp
        ultimately show ?thesis
          using IH(2-) ok(2) inside
          by (intro exI [of _ "?new @ recs'"]) (auto simp del: walk_rrs.simps)
      qed
    qed
  qed
qed simp

lemma walk_dns_frame_range:
  "\<exists>recs. walk_dns_frame data sender = Some recs \<and> 11 * length recs \<le> length data - 12 \<and>
     (\<forall>r \<in> set recs. sender_address (visit_base r) = ep_address sender)"
proof (cases "length data < 12")
  case False
  obtain q a ns ar where rd: "read_u16_be data 4 = Some q" "read_u16_be data 6 = Some a"
    "read_u16_be data 8 = Some ns" "read_u16_be data 10 = Some ar"
    using False u16.rd_some [of 4 data] u16.rd_some [of 6 data] u16.rd_some [of 8 data]
      u16.rd_some [of 10 data] by fastforce
  obtain r where r: "skip_questions (unat q) data 12 = Some r" "\<And>k. r = Some k \<Longrightarrow> 12 \<le> k"
    using skip_questions_total by blast
  show ?thesis
  proof (cases r)
    case None
    with False rd r show ?thesis by (simp add: walk_dns_frame_def)
  next
    case (Some off)
    obtain recs where "walk_rrs (unat (ucast a + ucast ns + ucast ar :: u32)) data sender off [] = Some recs"
      "11 * length recs \<le> length data - off"
      "\<forall>r \<in> set recs. sender_address (visit_base r) = ep_address sender"
      using walk_rrs_total [of _ data sender off "[]"] by auto
    with False rd r Some show ?thesis by (fastforce simp: walk_dns_frame_def Let_def)
  qed
qed (simp add: walk_dns_frame_def)

end
