(* ===== verification/Dns_Message.thy ===== *)
theory Dns_Message
  imports Frame_Codec
begin

text \<open>
  The abstract side of the wire format: a DNS message as the RFCs describe it (header, questions
  and three sections of resource records), the bytes it is sent as, and the records that a
  receiver should get. The packet builders are shown to produce \<open>message_bytes\<close> of a message, and
  the parsers to recover the message from it.
\<close>

section \<open>Messages\<close>

datatype rdata =
    RD_ptr string
  | RD_srv (rd_priority: u16) (rd_weight: u16) (rd_port: u16) (rd_target: string)
  | RD_a byte byte byte byte
  | RD_aaaa bytes
  | RD_txt "service_txt list"
  | RD_nsec bytes

record resource_record =
  rr_owner :: string
  rr_flush :: bool
  rr_ttl :: u32
  rr_data :: rdata

record question =
  q_name :: string
  q_type :: u16
  q_class :: u16

record dns_message =
  msg_id :: u16
  msg_flags :: u16
  msg_questions :: "question list"
  msg_answers :: "resource_record list"
  msg_authority :: "resource_record list"
  msg_additional :: "resource_record list"

fun rdata_type :: "rdata \<Rightarrow> dns_type" where
  "rdata_type (RD_ptr _) = Type_ptr"
| "rdata_type (RD_srv _ _ _ _) = Type_srv"
| "rdata_type (RD_a _ _ _ _) = Type_a"
| "rdata_type (RD_aaaa _) = Type_aaaa"
| "rdata_type (RD_txt _) = Type_txt"
| "rdata_type (RD_nsec _) = Type_nsec"

fun rdata_bytes :: "rdata \<Rightarrow> bytes" where
  "rdata_bytes (RD_ptr target) = encode_dns_name target"
| "rdata_bytes (RD_srv priority weight port target) =
     be16 priority @ be16 weight @ be16 port @ encode_dns_name target"
| "rdata_bytes (RD_a b0 b1 b2 b3) = [b0, b1, b2, b3]"
| "rdata_bytes (RD_aaaa b) = b"
| "rdata_bytes (RD_txt entries) = encode_txt_records entries"
| "rdata_bytes (RD_nsec b) = b"

definition rr_wire :: "resource_record \<Rightarrow> bytes" where
  "rr_wire r = rr_bytes (encode_dns_name (rr_owner r)) (rdata_type (rr_data r)) (rr_ttl r)
     (rdata_bytes (rr_data r)) (rr_flush r)"

definition question_bytes :: "question \<Rightarrow> bytes" where
  "question_bytes q = encode_dns_name (q_name q) @ be16 (q_type q) @ be16 (q_class q)"

definition header_bytes :: "u16 \<Rightarrow> u16 \<Rightarrow> u16 \<Rightarrow> u16 \<Rightarrow> u16 \<Rightarrow> u16 \<Rightarrow> bytes" where
  "header_bytes ident flags qd an ns ar = be16 ident @ be16 flags @ be16 qd @ be16 an @ be16 ns @ be16 ar"

definition msg_records :: "dns_message \<Rightarrow> resource_record list" where
  "msg_records m = msg_answers m @ msg_authority m @ msg_additional m"

definition message_bytes :: "dns_message \<Rightarrow> bytes" where
  "message_bytes m =
     header_bytes (msg_id m) (msg_flags m) (word_of_nat (length (msg_questions m)))
       (word_of_nat (length (msg_answers m))) (word_of_nat (length (msg_authority m)))
       (word_of_nat (length (msg_additional m)))
     @ concat (map question_bytes (msg_questions m)) @ concat (map rr_wire (msg_records m))"

section \<open>Well-formed messages\<close>

definition valid_txt :: "service_txt \<Rightarrow> bool" where
  "valid_txt e \<longleftrightarrow> CHR ''='' \<notin> set (txt_key e)"

fun valid_rdata :: "rdata \<Rightarrow> bool" where
  "valid_rdata (RD_ptr target) \<longleftrightarrow> wf_name target"
| "valid_rdata (RD_srv _ _ _ target) \<longleftrightarrow> wf_name target"
| "valid_rdata (RD_a _ _ _ _) \<longleftrightarrow> True"
| "valid_rdata (RD_aaaa b) \<longleftrightarrow> length b = 16"
| "valid_rdata (RD_txt entries) \<longleftrightarrow>
     list_all valid_txt entries \<and> length (encode_txt_records entries) \<le> 65535"
| "valid_rdata (RD_nsec b) \<longleftrightarrow> length b \<le> 65535"

definition valid_rr :: "resource_record \<Rightarrow> bool" where
  "valid_rr r \<longleftrightarrow> wf_name (rr_owner r) \<and> valid_rdata (rr_data r)"

definition valid_message :: "dns_message \<Rightarrow> bool" where
  "valid_message m \<longleftrightarrow>
     list_all (\<lambda>q. wf_name (q_name q)) (msg_questions m) \<and> list_all valid_rr (msg_records m) \<and>
     length (msg_questions m) < 65536 \<and> length (msg_answers m) < 65536 \<and>
     length (msg_authority m) < 65536 \<and> length (msg_additional m) < 65536"

section \<open>What a receiver gets\<close>

text \<open>
  A TXT entry longer than 255 characters is not sent; an entry with an empty key and a value is
  ignored by the receiver.
\<close>

definition txt_kept :: "service_txt \<Rightarrow> bool" where
  "txt_kept e \<longleftrightarrow> length (txt_string e) \<le> 255 \<and> (txt_key e = [] \<longrightarrow> txt_value e = None)"

definition rr_base :: "endpoint \<Rightarrow> resource_record \<Rightarrow> record_base" where
  "rr_base sender r =
     \<lparr>rec_name = dns_name (rr_owner r), rec_ttl = rr_ttl r, rec_class = Class_in,
      rec_length = word_of_nat (length (rdata_bytes (rr_data r))),
      sender_address = ep_address sender, rec_cache_flush = rr_flush r\<rparr>"

definition rr_decoded :: "endpoint \<Rightarrow> resource_record \<Rightarrow> mdns_record_variant option" where
  "rr_decoded sender r =
     (case rr_data r of
        RD_ptr target \<Rightarrow> Some (Rec_ptr (record_base.extend (rr_base sender r) \<lparr>ptr_name = dns_name target\<rparr>))
      | RD_srv priority weight port target \<Rightarrow>
          Some (Rec_srv (record_base.extend (rr_base sender r)
            \<lparr>srv_port = port, srv_weight = weight, srv_priority = priority, srv_name = dns_name target\<rparr>))
      | RD_a b0 b1 b2 b3 \<Rightarrow>
          Some (Rec_a (record_base.extend (rr_base sender r) \<lparr>a_address_string = ipv4_text b0 b1 b2 b3\<rparr>))
      | RD_aaaa b \<Rightarrow>
          map_option (\<lambda>s. Rec_aaaa (record_base.extend (rr_base sender r) \<lparr>aaaa_address_string = s\<rparr>))
            (ip_address_to_string (Sockaddr_in6 b 0))
      | RD_txt entries \<Rightarrow>
          Some (Rec_txt (record_base.extend (rr_base sender r) \<lparr>txt_entries = filter txt_kept entries\<rparr>))
      | RD_nsec _ \<Rightarrow> None)"

section \<open>TXT round trip\<close>

lemma txt_of_view_string: "valid_txt e \<Longrightarrow> txt_of_view (txt_string e) = e"
  by (cases "txt_value e")
    (simp_all add: valid_txt_def txt_of_view_def txt_string_def sv_find_None sv_find_append_Some)

lemma txt_string_starts_eq:
  assumes "valid_txt e"
  shows "(txt_string e \<noteq> [] \<and> hd (txt_string e) = CHR ''='') \<longleftrightarrow> txt_key e = [] \<and> txt_value e \<noteq> None"
  using assms by (cases "txt_key e"; cases "txt_value e") (auto simp: valid_txt_def txt_string_def)

lemma parse_txt_entry:
  assumes "holds_at buf pos (txt_entry_bytes e)" and "length (txt_string e) \<le> 255" and "valid_txt e"
    and "pos + length (txt_entry_bytes e) \<le> end_pos"
  shows "parse_txt_loop buf pos end_pos acc
    = parse_txt_loop buf (pos + length (txt_entry_bytes e)) end_pos (acc @ filter txt_kept [e])"
proof -
  let ?s = "txt_string e" and ?n = "word_of_nat (length (txt_string e)) :: u8"
  have n: "unat ?n = length ?s" using assms(2) by (rule unat_word_of_nat_u8)
  have bs: "txt_entry_bytes e = ?n # bytes_of_string ?s" using assms(2) by (simp add: txt_entry_bytes_def)
  have at: "byte_at buf pos = Some ?n" "holds_at buf (pos + 1) (bytes_of_string ?s)"
    using assms(1) by (simp_all add: bs holds_at_Cons)
  have sl: "slice buf (pos + 1) (length ?s) = Some (bytes_of_string ?s)"
    using holds_at_slice [OF at(2)] by simp
  have pos_n: "?n > 0 \<longleftrightarrow> ?s \<noteq> []" by (simp only: word_less_nat_alt n unat_0 length_greater_0_conv)
  have first: "(if ?n > 0 then map_option (\<lambda>b. char_of_byte b = CHR ''='') (byte_at buf (pos + 1)) else Some False)
      = Some (txt_key e = [] \<and> txt_value e \<noteq> None)"
    using at(2) txt_string_starts_eq [OF assms(3)] unfolding pos_n
    by (cases ?s) (auto simp: holds_at_Cons)
  show ?thesis
    using assms(2,4) n bs at(1) sl first txt_of_view_string [OF assms(3)]
    by (subst parse_txt_loop.simps) (auto simp: txt_kept_def)
qed

lemma parse_txt_entries:
  assumes "holds_at buf pos (encode_txt_records es)" and "list_all valid_txt es"
  shows "parse_txt_loop buf pos (pos + length (encode_txt_records es)) acc = Some (acc @ filter txt_kept es)"
  using assms
proof (induction es arbitrary: pos acc)
  case Nil
  show ?case by (subst parse_txt_loop.simps) (simp add: encode_txt_records_eq)
next
  case (Cons e es)
  have split: "encode_txt_records (e # es) = txt_entry_bytes e @ encode_txt_records es"
    by (simp add: encode_txt_records_eq)
  have at: "holds_at buf pos (txt_entry_bytes e)"
    "holds_at buf (pos + length (txt_entry_bytes e)) (encode_txt_records es)"
    using Cons.prems(1) by (simp_all add: split holds_at_append)
  have v: "valid_txt e" "list_all valid_txt es" using Cons.prems(2) by simp_all
  show ?case
  proof (cases "length (txt_string e) \<le> 255")
    case True
    have "parse_txt_loop buf pos (pos + length (encode_txt_records (e # es))) acc
        = parse_txt_loop buf (pos + length (txt_entry_bytes e))
            (pos + length (txt_entry_bytes e) + length (encode_txt_records es)) (acc @ filter txt_kept [e])"
      using parse_txt_entry [OF at(1) True v(1)] by (simp add: split add.assoc)
    also have "\<dots> = Some ((acc @ filter txt_kept [e]) @ filter txt_kept es)"
      by (rule Cons.IH [OF at(2) v(2)])
    finally show ?thesis by simp
  next
    case False
    then have "txt_entry_bytes e = []" "\<not> txt_kept e" by (simp_all add: txt_entry_bytes_def txt_kept_def)
    with Cons.IH [OF at(2) v(2)] show ?thesis by (simp add: split)
  qed
qed


section \<open>Decoding one record\<close>

definition rr_meta :: "endpoint \<Rightarrow> nat \<Rightarrow> resource_record \<Rightarrow> record_metadata" where
  "rr_meta sender off r =
     \<lparr>meta_sender = sender, meta_ttl = rr_ttl r, meta_rclass = Class_in,
      meta_rtype = rdata_type (rr_data r), meta_cache_flush = rr_flush r, name_offset = off,
      record_offset = off + length (encode_dns_name (rr_owner r)) + 10,
      record_length = length (rdata_bytes (rr_data r))\<rparr>"

lemma length_rr_wire [simp]:
  "length (rr_wire r) = length (encode_dns_name (rr_owner r)) + 10 + length (rdata_bytes (rr_data r))"
  by (simp add: rr_wire_def)

lemma valid_rdata_length: "valid_rdata d \<Longrightarrow> length (rdata_bytes d) \<le> 65535"
proof (cases d)
  case (RD_ptr t)
  then show ?thesis using encode_dns_name_bounds [of t] by simp
next
  case (RD_srv p w port t)
  then show ?thesis using encode_dns_name_bounds [of t] by simp
qed simp_all

lemma rr_wire_at:
  assumes "holds_at data off (rr_wire r)"
  defines "e \<equiv> off + length (encode_dns_name (rr_owner r))"
  shows "holds_at data off (encode_dns_name (rr_owner r))"
    and "read_u16_be data e = Some (type_underlying (rdata_type (rr_data r)))"
    and "read_u16_be data (e + 2) = Some (if rr_flush r then 0x8001 else 0x0001)"
    and "read_u32_be data (e + 4) = Some (rr_ttl r)"
    and "read_u16_be data (e + 8) = Some (word_of_nat (length (rdata_bytes (rr_data r))))"
    and "holds_at data (e + 10) (rdata_bytes (rr_data r))"
  using assms(1) unfolding rr_wire_def rr_bytes_def e_def
  by (auto simp: holds_at_append add.assoc numeral_eq_Suc intro!: u16.rd_enc u32.rd_enc)

lemma extract_owner_name_at:
  assumes "wf_name n" and "holds_at data (name_offset meta) (encode_dns_name n)"
  shows "extract_owner_name data meta = Some n"
  using assms by (simp add: extract_owner_name_def at_simps)

lemma base_of_rr_meta: "base_of_meta (rr_owner r) (rr_meta sender off r) = rr_base sender r"
  by (simp add: base_of_meta_def rr_meta_def rr_base_def)

lemma parse_rr:
  assumes v: "valid_rr r" and at: "holds_at data off (rr_wire r)"
  shows "parse_record data (rr_meta sender off r)
    = Some (case rr_decoded sender r of Some x \<Rightarrow> Inr x | None \<Rightarrow> Inl Parse_error)"
proof -
  let ?m = "rr_meta sender off r" and ?o = "off + length (encode_dns_name (rr_owner r)) + 10"
  have own: "extract_owner_name data ?m = Some (rr_owner r)"
    using v rr_wire_at(1) [OF at] by (intro extract_owner_name_at) (auto simp: valid_rr_def rr_meta_def)
  have rd: "holds_at data ?o (rdata_bytes (rr_data r))" by (rule rr_wire_at(6) [OF at])
  have m: "record_offset ?m = ?o" "record_length ?m = length (rdata_bytes (rr_data r))"
    "meta_rtype ?m = rdata_type (rr_data r)" by (simp_all add: rr_meta_def)
  have len: "\<not> length data < ?o + length (rdata_bytes (rr_data r))"
    using holds_at_bound [OF rd] by simp
  have vd: "valid_rdata (rr_data r)" using v by (simp add: valid_rr_def)
  show ?thesis
  proof (cases "rr_data r")
    case (RD_ptr t)
    then show ?thesis
      using vd rd own len
      by (simp add: parse_record_def m parse_ptr_def rr_decoded_def base_of_rr_meta at_simps)
  next
    case (RD_srv p w port t)
    then have at: "read_u16_be data ?o = Some p" "read_u16_be data (?o + 2) = Some w"
      "read_u16_be data (?o + 4) = Some port" "holds_at data (?o + 6) (encode_dns_name t)"
      using rd by (auto simp: holds_at_append ac_simps intro!: u16.rd_enc)
    have "encode_dns_name t \<noteq> []" using vd RD_srv wf_name_encode(1) [of t] by simp
    with at RD_srv show ?thesis
      using vd own len
      by (simp add: parse_record_def m parse_srv_def rr_decoded_def base_of_rr_meta wf_name_read)
  next
    case (RD_a b0 b1 b2 b3)
    then have at: "byte_at data ?o = Some b0" "byte_at data (?o + 1) = Some b1"
      "byte_at data (?o + 2) = Some b2" "byte_at data (?o + 3) = Some b3"
      using rd by (simp_all add: holds_at_four)
    with RD_a show ?thesis
      using own len
      by (simp add: parse_record_def m parse_a_def rr_decoded_def base_of_rr_meta
          ipv4_address_to_string del: ip_address_to_string.simps)
  next
    case (RD_aaaa b)
    then have "slice data ?o 16 = Some b" using rd vd holds_at_slice [of data ?o b] by simp
    moreover obtain s where "ip_address_to_string (Sockaddr_in6 b 0) = Some s"
      using ipv6_address_to_string RD_aaaa vd by fastforce
    ultimately show ?thesis
      using own len vd RD_aaaa
      by (simp add: parse_record_def m parse_aaaa_def rr_decoded_def base_of_rr_meta
          del: ip_address_to_string.simps)
  next
    case (RD_txt es)
    then have "parse_txt_loop data ?o (?o + length (encode_txt_records es)) [] = Some ([] @ filter txt_kept es)"
      using rd vd by (intro parse_txt_entries) simp_all
    with RD_txt show ?thesis
      using own len by (simp add: parse_record_def m parse_txt_def rr_decoded_def base_of_rr_meta)
  qed (simp add: parse_record_def m rr_decoded_def)
qed

lemma class_masks:
  "(0x8001 :: u16) AND 0x7FFF = 1" "(1 :: u16) AND 0x7FFF = 1"
  "(0x8001 :: u16) AND 0x8000 \<noteq> 0" "(1 :: u16) AND 0x8000 = 0"
  by simp_all

lemma walk_rr:
  assumes v: "valid_rr r" and at: "holds_at data off (rr_wire r)"
  shows "walk_rrs (Suc n) data sender off recs
    = walk_rrs n data sender (off + length (rr_wire r)) (recs @ (case rr_decoded sender r of Some x \<Rightarrow> [x] | None \<Rightarrow> []))"
proof -
  let ?e = "off + length (encode_dns_name (rr_owner r))" and ?len = "length (rdata_bytes (rr_data r))"
  have wf: "wf_name (rr_owner r)" "valid_rdata (rr_data r)" using v by (simp_all add: valid_rr_def)
  have skip: "skip_dns_name data off = Some (True, ?e)"
    using wf(1) rr_wire_at(1) [OF at] by (rule wf_name_skip)
  have len: "unat (word_of_nat ?len :: u16) = ?len"
    using valid_rdata_length [OF wf(2)] by (simp add: unat_of_nat)
  have fits: "?e + 10 + ?len \<le> length data" using holds_at_bound [OF at] by simp
  have ty: "dns_type_of (type_underlying (rdata_type (rr_data r))) = rdata_type (rr_data r)"
    by (cases "rr_data r") simp_all
  have meta: "\<lparr>meta_sender = sender, meta_ttl = rr_ttl r,
      meta_rclass = dns_class_of ((if rr_flush r then 0x8001 else 0x0001) AND 0x7FFF),
      meta_rtype = dns_type_of (type_underlying (rdata_type (rr_data r))),
      meta_cache_flush = ((if rr_flush r then 0x8001 else 0x0001 :: u16) AND 0x8000 \<noteq> 0),
      name_offset = off, record_offset = ?e + 10, record_length = ?len\<rparr> = rr_meta sender off r"
    by (cases "rr_flush r") (simp_all add: rr_meta_def class_masks ty)
  show ?thesis
    using skip fits rr_wire_at(2-5) [OF at] parse_rr [OF v at]
    by (simp only: walk_rrs.simps Let_def Option.bind_lunit case_prod_conv len meta)
      (cases "rr_decoded sender r"; simp add: add.assoc)
qed

lemma walk_rr_list:
  assumes "list_all valid_rr rs" and "holds_at data off (concat (map rr_wire rs))"
  shows "walk_rrs (length rs) data sender off recs = Some (recs @ List.map_filter (rr_decoded sender) rs)"
  using assms
proof (induction rs arbitrary: off recs)
  case (Cons r rs)
  then have at: "holds_at data off (rr_wire r)"
    "holds_at data (off + length (rr_wire r)) (concat (map rr_wire rs))"
    by (simp_all add: holds_at_append)
  have "walk_rrs (length (r # rs)) data sender off recs
      = walk_rrs (length rs) data sender (off + length (rr_wire r))
          (recs @ (case rr_decoded sender r of Some x \<Rightarrow> [x] | None \<Rightarrow> []))"
    using walk_rr [OF _ at(1)] Cons.prems(1) by (simp del: walk_rrs.simps length_rr_wire)
  with Cons.IH [OF _ at(2)] Cons.prems(1) show ?case
    by (simp add: map_filter_simps del: walk_rrs.simps length_rr_wire split: option.split)
qed (simp add: map_filter_simps)

lemma skip_question_list:
  assumes "list_all (\<lambda>q. wf_name (q_name q)) qs" and "holds_at data off (concat (map question_bytes qs))"
  shows "skip_questions (length qs) data off = Some (Some (off + length (concat (map question_bytes qs))))"
  using assms
proof (induction qs arbitrary: off)
  case (Cons q qs)
  then have "holds_at data off (question_bytes q)"
    and at2: "holds_at data (off + length (question_bytes q)) (concat (map question_bytes qs))"
    by (simp_all add: holds_at_append)
  then have at1: "holds_at data off (encode_dns_name (q_name q))"
    by (simp add: holds_at_append question_bytes_def)
  have len: "length (question_bytes q) = length (encode_dns_name (q_name q)) + 4"
    by (simp add: question_bytes_def)
  have "off + length (encode_dns_name (q_name q)) + 4 \<le> length data"
    using holds_at_bound [OF at2] len by simp
  then show ?case
    using Cons.IH [OF _ at2] Cons.prems(1) wf_name_skip [OF _ at1] len by (simp add: add.assoc)
qed simp


section \<open>Decoding a frame\<close>

lemma header_at:
  assumes "holds_at data 0 (header_bytes i f qd an ns ar)"
  shows "read_u16_be data 2 = Some f" "read_u16_be data 4 = Some qd" "read_u16_be data 6 = Some an"
    "read_u16_be data 8 = Some ns" "read_u16_be data 10 = Some ar" "12 \<le> length data"
  using assms holds_at_bound [OF assms]
  by (auto simp: header_bytes_def holds_at_append numeral_eq_Suc intro!: u16.rd_enc)

lemma length_header_bytes [simp]: "length (header_bytes i f qd an ns ar) = 12"
  by (simp add: header_bytes_def)

lemma unat_count: "n < 65536 \<Longrightarrow> unat (word_of_nat n :: u16) = n"
  by (simp add: unat_of_nat)

lemma unat_ucast_u16 [simp]: "unat (ucast (v :: u16) :: u32) = unat v"
proof -
  have "unat v < 2 ^ 32" by (rule less_trans [OF unat_u16_less]) simp
  then have "unat (word_of_nat (unat v) :: u32) = unat v" by (simp add: unat_of_nat del: of_nat_unat)
  then show ?thesis by (simp only: of_nat_unat)
qed

lemma unat_count_sum:
  "unat (ucast a + ucast b + ucast c :: u32) = unat (a :: u16) + unat (b :: u16) + unat (c :: u16)"
proof -
  have "unat a + unat b + unat c < 65536 + 65536 + 65536"
    by (intro add_strict_mono unat_u16_less)
  then have "unat a + unat b + unat c < 2 ^ 32" by simp
  then show ?thesis
    by (simp add: unat_word_ariths)
qed

lemma message_at:
  fixes post :: bytes
  assumes "valid_message m"
  defines "data \<equiv> message_bytes m @ post"
  defines "off \<equiv> 12 + length (concat (map question_bytes (msg_questions m)))"
  shows "skip_questions (length (msg_questions m)) data 12 = Some (Some off)"
    and "holds_at data off (concat (map rr_wire (msg_records m)))"
proof -
  have "holds_at data 0 (message_bytes m)" unfolding data_def by (rule holds_at_extend) simp
  then have q: "holds_at data 12 (concat (map question_bytes (msg_questions m)))"
    and r: "holds_at data off (concat (map rr_wire (msg_records m)))"
    by (simp_all add: message_bytes_def holds_at_append off_def)
  show "skip_questions (length (msg_questions m)) data 12 = Some (Some off)"
    unfolding off_def by (rule skip_question_list [OF _ q]) (use assms(1) in \<open>simp add: valid_message_def\<close>)
  show "holds_at data off (concat (map rr_wire (msg_records m)))" by (rule r)
qed

lemma message_header:
  fixes post :: bytes
  assumes "valid_message m"
  defines "data \<equiv> message_bytes m @ post"
  shows "read_u16_be data 2 = Some (msg_flags m)"
    "read_u16_be data 4 = Some (word_of_nat (length (msg_questions m)))"
    "read_u16_be data 6 = Some (word_of_nat (length (msg_answers m)))"
    "read_u16_be data 8 = Some (word_of_nat (length (msg_authority m)))"
    "read_u16_be data 10 = Some (word_of_nat (length (msg_additional m)))" "12 \<le> length data"
proof -
  have "holds_at data 0 (message_bytes m)" unfolding data_def by (rule holds_at_extend) simp
  then have "holds_at data 0 (header_bytes (msg_id m) (msg_flags m) (word_of_nat (length (msg_questions m)))
       (word_of_nat (length (msg_answers m))) (word_of_nat (length (msg_authority m)))
       (word_of_nat (length (msg_additional m))))"
    by (simp add: message_bytes_def holds_at_append)
  from header_at [OF this] show "read_u16_be data 2 = Some (msg_flags m)"
    "read_u16_be data 4 = Some (word_of_nat (length (msg_questions m)))"
    "read_u16_be data 6 = Some (word_of_nat (length (msg_answers m)))"
    "read_u16_be data 8 = Some (word_of_nat (length (msg_authority m)))"
    "read_u16_be data 10 = Some (word_of_nat (length (msg_additional m)))" "12 \<le> length data" .
qed

lemma walk_message:
  assumes "valid_message m"
  shows "walk_dns_frame (message_bytes m @ post) sender
    = Some (List.map_filter (rr_decoded sender) (msg_records m))"
proof -
  have n: "length (msg_questions m) < 65536" "length (msg_answers m) < 65536"
    "length (msg_authority m) < 65536" "length (msg_additional m) < 65536"
    "list_all valid_rr (msg_records m)"
    using assms by (simp_all add: valid_message_def)
  have total: "unat (ucast (word_of_nat (length (msg_answers m)) :: u16)
      + ucast (word_of_nat (length (msg_authority m)) :: u16)
      + ucast (word_of_nat (length (msg_additional m)) :: u16) :: u32) = length (msg_records m)"
    using n by (simp only: unat_count_sum unat_count msg_records_def length_append add.assoc [of "length _"])
  have "\<not> length (message_bytes m @ post) < 12" using message_header(6) [OF assms, of post] by simp
  then show ?thesis
    using walk_rr_list [OF n(5) message_at(2) [OF assms, of post], of sender "[]"]
    by (simp only: walk_dns_frame_def message_header [OF assms] message_at(1) [OF assms]
        Option.bind_lunit unat_count [OF n(1)] option.case Let_def total if_False append_Nil)
qed

section \<open>Properties\<close>

text \<open>
  C3: Decoding inverts encoding. For every well-formed DNS message, walking its wire form (with
  any bytes behind it) delivers exactly the decoded answer, authority and additional records, in
  order; records of other types (NSEC) are passed over.
\<close>

theorem walk_dns_frame_decodes:
  assumes "valid_message m"
  shows "walk_dns_frame (message_bytes m @ post) sender
    = Some (List.map_filter (rr_decoded sender) (msg_answers m @ msg_authority m @ msg_additional m))"
  using walk_message [OF assms] by (simp add: msg_records_def)

definition example_message :: dns_message where
  "example_message =
     \<lparr>msg_id = 0, msg_flags = 0x8400,
      msg_questions = [\<lparr>q_name = ''_http._tcp.local.'', q_type = 12, q_class = 1\<rparr>],
      msg_answers = [\<lparr>rr_owner = ''_http._tcp.local.'', rr_flush = False, rr_ttl = 4500,
        rr_data = RD_ptr ''web._http._tcp.local.''\<rparr>],
      msg_authority = [],
      msg_additional = [\<lparr>rr_owner = ''host.local.'', rr_flush = True, rr_ttl = 120,
        rr_data = RD_a 192 168 1 7\<rparr>]\<rparr>"

theorem walk_dns_frame_decodes_witness:
  "walk_dns_frame (message_bytes example_message) no_endpoint
     = Some (List.map_filter (rr_decoded no_endpoint)
         (msg_answers example_message @ msg_authority example_message @ msg_additional example_message))"
proof -
  have "wf_name ''_http._tcp.local.''" "wf_name ''web._http._tcp.local.''" "wf_name ''host.local.''"
    by code_simp+
  then have "valid_message example_message"
    by (simp add: valid_message_def example_message_def msg_records_def valid_rr_def)
  from walk_dns_frame_decodes [OF this, of "[]" no_endpoint] show ?thesis by simp
qed

text \<open>
  C36: Walking a frame is memory safe and terminates on every input, including malformed and
  truncated packets: it always returns, delivers at most one record per eleven bytes behind the
  header, and stamps every record with the sender's address.
\<close>

theorem walk_dns_frame_total:
  "\<exists>recs. walk_dns_frame data sender = Some recs \<and> 11 * length recs \<le> length data - 12 \<and>
     list_all (\<lambda>r. sender_address (visit_base r) = ep_address sender) recs"
  using walk_dns_frame_range [of data sender] by (simp add: list_all_iff)

text \<open>
  Round trip of TXT data. The entries of a service, encoded and parsed back, are the same
  entries in the same order, less those longer than 255 characters and those with an empty key
  and a value. (A key contains no equals sign.)
\<close>

lemma txt_roundtrip:
  assumes "list_all valid_txt entries"
  shows "parse_txt_loop (pre @ encode_txt_records entries @ post) (length pre)
      (length pre + length (encode_txt_records entries)) [] = Some (filter txt_kept entries)"
  using parse_txt_entries [OF holds_at_middle assms, of pre post "[]"] by simp

definition example_txt :: "service_txt list" where
  "example_txt = [\<lparr>txt_key = ''path'', txt_value = Some ''/a=b''\<rparr>,
     \<lparr>txt_key = [], txt_value = Some ''x''\<rparr>, \<lparr>txt_key = ''flag'', txt_value = None\<rparr>]"

lemma txt_roundtrip_example:
  "parse_txt_loop (encode_txt_records example_txt) 0 (length (encode_txt_records example_txt)) []
   = Some [\<lparr>txt_key = ''path'', txt_value = Some ''/a=b''\<rparr>, \<lparr>txt_key = ''flag'', txt_value = None\<rparr>]"
proof -
  have "list_all valid_txt example_txt" by (simp add: valid_txt_def example_txt_def)
  moreover have "filter txt_kept example_txt
    = [\<lparr>txt_key = ''path'', txt_value = Some ''/a=b''\<rparr>, \<lparr>txt_key = ''flag'', txt_value = None\<rparr>]"
    by (simp add: txt_kept_def txt_string_def example_txt_def)
  ultimately show ?thesis using txt_roundtrip [of example_txt "[]" "[]"] by simp
qed

end
