(* ===== verification/Dns_Query.thy ===== *)
theory Dns_Query
  imports Dns_Message
begin

text \<open>
  \<open>detail/dns_query.h\<close>: queries, probes, and queries that carry known answers, in one packet or
  split over several with the TC bit. \<open>inet_pton6\<close> is the system function
  \<open>inet_pton(AF_INET6, ...)\<close>. Writing to \<open>packet[6]\<close> is a \<open>poke\<close>, so a builder that indexes an
  empty packet returns \<open>None\<close>.
\<close>

section \<open>Queries and probes\<close>

definition build_dns_query :: "string \<Rightarrow> dns_type \<Rightarrow> response_mode \<Rightarrow> bytes" where
  "build_dns_query name qtype mode =
     (let packet = [0x00, 0x00, 0x00, 0x00, 0x00, 0x01, 0x00, 0x00, 0x00, 0x00, 0x00, 0x00];
          encoded = encode_dns_name name
      in if encoded = [] then []
         else
           (let packet = packet @ encoded;
                packet = push_u16_be packet (type_underlying qtype)
            in push_u16_be packet (if mode = Unicast then 0x8001 else 0x0001)))"

definition build_probe_query :: "service_info \<Rightarrow> u32 \<Rightarrow> bytes" where
  "build_probe_query info authority_ttl =
     (let name_service = encode_dns_name (str (service_name info));
          name_host = encode_dns_name (str (hostname info))
      in if name_service = [] \<or> name_host = [] then []
         else
           (let rdata_srv = push_u16_be [] (info_priority info);
                rdata_srv = push_u16_be rdata_srv (info_weight info);
                rdata_srv = push_u16_be rdata_srv (info_port info);
                rdata_srv = rdata_srv @ name_host;
                packet = push_u16_be [] 0x0000;
                packet = push_u16_be packet 0x0000;
                packet = push_u16_be packet 0x0001;
                packet = push_u16_be packet 0x0000;
                packet = push_u16_be packet 0x0001;
                packet = push_u16_be packet 0x0000;
                packet = packet @ name_service;
                packet = push_u16_be packet (type_underlying Type_any);
                packet = push_u16_be packet 0x8001
            in append_dns_rr packet name_service Type_srv authority_ttl rdata_srv False))"

section \<open>Known answers\<close>

fun append_known_answer :: "(string \<Rightarrow> bytes option) \<Rightarrow> bytes \<Rightarrow> mdns_record_variant \<Rightarrow> bytes" where
  "append_known_answer inet_pton6 buf (Rec_ptr r) =
     append_dns_rr buf (encode_dns_name (str (rec_name r))) Type_ptr (rec_ttl r)
       (encode_dns_name (str (ptr_name r))) False"
| "append_known_answer inet_pton6 buf (Rec_srv r) =
     (let rdata = push_u16_be [] (srv_priority r);
          rdata = push_u16_be rdata (srv_weight r);
          rdata = push_u16_be rdata (srv_port r);
          rdata = rdata @ encode_dns_name (str (srv_name r))
      in append_dns_rr buf (encode_dns_name (str (rec_name r))) Type_srv (rec_ttl r) rdata False)"
| "append_known_answer inet_pton6 buf (Rec_a r) =
     (case encode_ipv4 (a_address_string r) of
        Inr enc \<Rightarrow> append_dns_rr buf (encode_dns_name (str (rec_name r))) Type_a (rec_ttl r) enc False
      | Inl _ \<Rightarrow> buf)"
| "append_known_answer inet_pton6 buf (Rec_aaaa r) =
     (case encode_ipv6 inet_pton6 (aaaa_address_string r) of
        Inr enc \<Rightarrow> append_dns_rr buf (encode_dns_name (str (rec_name r))) Type_aaaa (rec_ttl r) enc False
      | Inl _ \<Rightarrow> buf)"
| "append_known_answer inet_pton6 buf (Rec_txt r) =
     append_dns_rr buf (encode_dns_name (str (rec_name r))) Type_txt (rec_ttl r)
       (encode_txt_records (txt_entries r)) False"

text \<open>Bytes 6 and 7 of the header.\<close>

definition set_ancount :: "bytes \<Rightarrow> u16 \<Rightarrow> bytes option" where
  "set_ancount packet ancount = do {
     packet \<leftarrow> poke packet 6 (ucast (drop_bit 8 ancount));
     poke packet 7 (ucast (ancount AND 0xFF))
   }"

fun known_answer_loop :: "(string \<Rightarrow> bytes option) \<Rightarrow> mdns_record_variant list \<Rightarrow> bytes \<Rightarrow> u16 \<Rightarrow> bytes \<times> u16" where
  "known_answer_loop inet_pton6 [] packet ancount = (packet, ancount)"
| "known_answer_loop inet_pton6 (ka # kas) packet ancount =
     (let before = length packet;
          packet = append_known_answer inet_pton6 packet ka
      in known_answer_loop inet_pton6 kas packet (if length packet > before then ancount + 1 else ancount))"

definition build_dns_query_known ::
  "(string \<Rightarrow> bytes option) \<Rightarrow> string \<Rightarrow> dns_type \<Rightarrow> mdns_record_variant list \<Rightarrow> response_mode \<Rightarrow> bytes option" where
  "build_dns_query_known inet_pton6 name qtype known_answers mode =
     (let packet = build_dns_query name qtype mode;
          (packet, ancount) = known_answer_loop inet_pton6 known_answers packet 0
      in set_ancount packet ancount)"

section \<open>Known answers over several packets\<close>

fun measure_answers :: "(string \<Rightarrow> bytes option) \<Rightarrow> mdns_record_variant list \<Rightarrow> bytes \<Rightarrow> (nat \<times> nat) list" where
  "measure_answers inet_pton6 [] scratch = []"
| "measure_answers inet_pton6 (ka # kas) scratch =
     (let before = length scratch;
          scratch = append_known_answer inet_pton6 scratch ka
      in (before, length scratch) # measure_answers inet_pton6 kas scratch)"

text \<open>
  The loop over the measured answers; \<open>base\<close> is the packet that \<open>build_dns_query\<close> builds anew for
  each continuation, \<open>buf\<close> is \<open>all_answers_buf\<close>.
\<close>

fun split_loop ::
  "bytes \<Rightarrow> bytes \<Rightarrow> nat \<Rightarrow> (nat \<times> nat) list \<Rightarrow> bytes list \<Rightarrow> bytes \<Rightarrow> u16 \<Rightarrow> (bytes list \<times> bytes \<times> u16) option" where
  "split_loop base buf max_payload [] result current_pkt current_ancount =
     Some (result, current_pkt, current_ancount)"
| "split_loop base buf max_payload ((ans_start, ans_end) # answer_sizes) result current_pkt current_ancount = do {
     let ans_size = ans_end - ans_start;
     (result, current_pkt, current_ancount) \<leftarrow>
       (if current_ancount > 0 \<and> length current_pkt + ans_size > max_payload then do {
          b2 \<leftarrow> byte_at current_pkt 2;
          current_pkt \<leftarrow> poke current_pkt 2 (b2 OR 0x02);
          current_pkt \<leftarrow> set_ancount current_pkt current_ancount;
          Some (result @ [current_pkt], base, 0)
        } else Some (result, current_pkt, current_ancount));
     ans \<leftarrow> slice buf ans_start ans_size;
     split_loop base buf max_payload answer_sizes result (current_pkt @ ans) (current_ancount + 1)
   }"

definition build_dns_query_tc ::
  "(string \<Rightarrow> bytes option) \<Rightarrow> string \<Rightarrow> dns_type \<Rightarrow> mdns_record_variant list \<Rightarrow> nat \<Rightarrow> response_mode \<Rightarrow> bytes list option" where
  "build_dns_query_tc inet_pton6 name qtype known_answers max_payload mode =
     (if known_answers = [] then Some [build_dns_query name qtype mode]
      else do {
        let answer_sizes = measure_answers inet_pton6 known_answers [];
        let all_answers_buf = foldl (append_known_answer inet_pton6) [] known_answers;
        (result, current_pkt, current_ancount) \<leftarrow>
          split_loop (build_dns_query name qtype mode) all_answers_buf max_payload answer_sizes []
            (build_dns_query name qtype mode) 0;
        current_pkt \<leftarrow> set_ancount current_pkt current_ancount;
        Some (result @ [current_pkt])
      })"

section \<open>The messages they stand for\<close>

definition query_message :: "u16 \<Rightarrow> string \<Rightarrow> dns_type \<Rightarrow> response_mode \<Rightarrow> resource_record list \<Rightarrow> dns_message" where
  "query_message flags name qtype mode answers =
     \<lparr>msg_id = 0, msg_flags = flags,
      msg_questions = [\<lparr>q_name = name, q_type = type_underlying qtype,
                        q_class = (if mode = Unicast then 0x8001 else 0x0001)\<rparr>],
      msg_answers = answers, msg_authority = [], msg_additional = []\<rparr>"

definition srv_rdata :: "service_info \<Rightarrow> rdata" where
  "srv_rdata info = RD_srv (info_priority info) (info_weight info) (info_port info) (str (hostname info))"

definition probe_message :: "service_info \<Rightarrow> u32 \<Rightarrow> dns_message" where
  "probe_message info ttl =
     \<lparr>msg_id = 0, msg_flags = 0,
      msg_questions = [\<lparr>q_name = str (service_name info), q_type = 255, q_class = 0x8001\<rparr>],
      msg_answers = [],
      msg_authority = [\<lparr>rr_owner = str (service_name info), rr_flush = False, rr_ttl = ttl,
                        rr_data = srv_rdata info\<rparr>],
      msg_additional = []\<rparr>"

text \<open>The record that a known answer is sent as; \<open>None\<close> when its address is not an address.\<close>

definition known_answer_rr :: "(string \<Rightarrow> bytes option) \<Rightarrow> mdns_record_variant \<Rightarrow> resource_record option" where
  "known_answer_rr inet_pton6 ka =
     map_option (\<lambda>d. \<lparr>rr_owner = str (rec_name (visit_base ka)), rr_flush = False,
                      rr_ttl = rec_ttl (visit_base ka), rr_data = d\<rparr>)
       (case ka of
          Rec_ptr r \<Rightarrow> Some (RD_ptr (str (ptr_name r)))
        | Rec_srv r \<Rightarrow> Some (RD_srv (srv_priority r) (srv_weight r) (srv_port r) (str (srv_name r)))
        | Rec_a r \<Rightarrow> (case encode_ipv4 (a_address_string r) of Inr [b0, b1, b2, b3] \<Rightarrow> Some (RD_a b0 b1 b2 b3) | _ \<Rightarrow> None)
        | Rec_aaaa r \<Rightarrow> (case encode_ipv6 inet_pton6 (aaaa_address_string r) of Inr b \<Rightarrow> Some (RD_aaaa b) | _ \<Rightarrow> None)
        | Rec_txt r \<Rightarrow> Some (RD_txt (txt_entries r)))"

text \<open>A known answer that can be sent, together with the record it becomes.\<close>

definition sendable :: "(string \<Rightarrow> bytes option) \<Rightarrow> mdns_record_variant \<Rightarrow> resource_record \<Rightarrow> bool" where
  "sendable inet_pton6 ka r \<longleftrightarrow> known_answer_rr inet_pton6 ka = Some r \<and> valid_rr r"

section \<open>Builders produce messages\<close>

lemmas push_be = push_u16_be_append [of "push_u16_be _ _"] push_u16_be_append [of "_ @ _"] push_u16_be_append [of "_ # _"] push_u32_be_append [of "_ @ _"]

lemma be16_small [simp]: "be16 0 = [0, 0]" "be16 1 = [0, 1]" "be16 0x0200 = [2, 0]"
  by (simp_all add: push_u16_be_def)

lemma build_dns_query_message:
  assumes "encode_dns_name name \<noteq> []"
  shows "build_dns_query name qtype mode = message_bytes (query_message 0 name qtype mode [])"
  using assms
  by (simp add: build_dns_query_def Let_def push_be message_bytes_def header_bytes_def question_bytes_def
      query_message_def msg_records_def)

lemma build_probe_query_message:
  assumes "wf_name (str (service_name info))" and "wf_name (str (hostname info))"
  shows "build_probe_query info ttl = message_bytes (probe_message info ttl)"
proof -
  let ?n = "encode_dns_name (str (service_name info))" and ?h = "encode_dns_name (str (hostname info))"
  have ne: "?n \<noteq> []" "?h \<noteq> []" "length ?h \<le> 255" using assms wf_name_encode by blast+
  have rd: "push_u16_be (push_u16_be (be16 (info_priority info)) (info_weight info)) (info_port info) @ ?h
      = rdata_bytes (srv_rdata info)"
    by (simp add: srv_rdata_def push_be)
  then have "length (rdata_bytes (srv_rdata info)) \<le> 65535" using ne(3) by (simp add: srv_rdata_def)
  with ne show ?thesis
    by (simp add: build_probe_query_def Let_def rd append_dns_rr_eq push_be message_bytes_def header_bytes_def
        question_bytes_def probe_message_def msg_records_def rr_wire_def srv_rdata_def)
qed

lemma append_known_answer_rr:
  assumes "sendable inet_pton6 ka r"
  shows "append_known_answer inet_pton6 buf ka = buf @ rr_wire r"
proof -
  have v: "valid_rr r" "known_answer_rr inet_pton6 ka = Some r" using assms by (simp_all add: sendable_def)
  then have ne: "encode_dns_name (rr_owner r) \<noteq> []" "length (rdata_bytes (rr_data r)) \<le> 65535"
    by (auto simp: valid_rr_def wf_name_encode dest: valid_rdata_length)
  show ?thesis
    using v(2) ne
    by (cases ka) (auto simp: known_answer_rr_def append_dns_rr_eq rr_wire_def Let_def
        push_be split: sum.splits list.splits)
qed

lemma sendable_grows: "sendable inet_pton6 ka r \<Longrightarrow> rr_wire r \<noteq> []"
  by (metis add_is_0 length_0_conv length_rr_wire zero_neq_numeral)


lemma set_ancount_header:
  "set_ancount (header_bytes i f qd an ns ar @ rest) an' = Some (header_bytes i f qd an' ns ar @ rest)"
  by (simp add: set_ancount_def poke_def header_bytes_def push_u16_be_def numeral_eq_Suc)

lemma set_tc_header:
  "byte_at (header_bytes i 0 qd an ns ar @ rest) 2 = Some 0"
  "poke (header_bytes i 0 qd an ns ar @ rest) 2 (0 OR 0x02) = Some (header_bytes i 0x0200 qd an ns ar @ rest)"
  by (simp_all add: poke_def byte_at_def header_bytes_def push_u16_be_append [of "_ @ _"]) (simp_all add: nth_append list_update_append)

text \<open>The packet under construction: the question with a zero answer count, then answers.\<close>

definition open_packet :: "u16 \<Rightarrow> string \<Rightarrow> dns_type \<Rightarrow> response_mode \<Rightarrow> u16 \<Rightarrow> resource_record list \<Rightarrow> bytes" where
  "open_packet flags name qtype mode an rs =
     header_bytes 0 flags 1 an 0 0
     @ concat (map question_bytes (msg_questions (query_message 0 name qtype mode []))) @ concat (map rr_wire rs)"

lemma open_packet_message:
  "open_packet flags name qtype mode (word_of_nat (length rs)) rs
     = message_bytes (query_message flags name qtype mode rs)"
  by (simp add: open_packet_def message_bytes_def query_message_def msg_records_def)

lemma open_packet_base:
  "encode_dns_name name \<noteq> [] \<Longrightarrow> build_dns_query name qtype mode = open_packet 0 name qtype mode 0 []"
  using build_dns_query_message [of name qtype mode] open_packet_message [of 0 name qtype mode "[]"] by simp

lemma open_packet_append:
  "open_packet f name qtype mode an rs @ rr_wire r = open_packet f name qtype mode an (rs @ [r])"
  by (simp add: open_packet_def)

lemma open_packet_close:
  "set_ancount (open_packet f name qtype mode an rs) (word_of_nat (length rs))
     = Some (message_bytes (query_message f name qtype mode rs))"
  unfolding open_packet_message [symmetric] unfolding open_packet_def by (rule set_ancount_header)

lemma known_answer_loop_messages:
  assumes "list_all2 (sendable inet_pton6) kas rs"
  shows "known_answer_loop inet_pton6 kas (open_packet f name qtype mode an qs) n
    = (open_packet f name qtype mode an (qs @ rs), n + word_of_nat (length rs))"
  using assms
proof (induction kas rs arbitrary: qs n rule: list_all2_induct)
  case (Cons ka kas r rs)
  have "length (open_packet f name qtype mode an (qs @ [r])) > length (open_packet f name qtype mode an qs)"
    using sendable_grows [OF Cons.hyps(1)] by (simp add: open_packet_append [symmetric])
  then show ?case
    using Cons.IH [of "qs @ [r]" "n + 1"] append_known_answer_rr [OF Cons.hyps(1)]
    by (simp add: Let_def open_packet_append)
qed simp

lemma build_dns_query_known_message:
  assumes "encode_dns_name name \<noteq> []" and "list_all2 (sendable inet_pton6) kas rs"
  shows "build_dns_query_known inet_pton6 name qtype kas mode
    = Some (message_bytes (query_message 0 name qtype mode rs))"
  using known_answer_loop_messages [OF assms(2), of 0 name qtype mode 0 "[]" 0]
  by (simp add: build_dns_query_known_def Let_def open_packet_base [OF assms(1)] open_packet_close)

section \<open>Splitting\<close>

text \<open>
  The specification of the split: answers go greedily into the current chunk; a chunk is closed
  when the next answer would not fit, but never while it is empty.
\<close>

fun greedy_chunks :: "nat \<Rightarrow> nat \<Rightarrow> resource_record list \<Rightarrow> resource_record list \<Rightarrow> resource_record list list" where
  "greedy_chunks base_size max_payload cur [] = [cur]"
| "greedy_chunks base_size max_payload cur (r # rs) =
     (if cur \<noteq> [] \<and> base_size + length (concat (map rr_wire cur)) + length (rr_wire r) > max_payload
      then cur # greedy_chunks base_size max_payload [r] rs
      else greedy_chunks base_size max_payload (cur @ [r]) rs)"

lemma concat_greedy_chunks: "concat (greedy_chunks b m cur rs) = cur @ rs"
  by (induction b m cur rs rule: greedy_chunks.induct) simp_all

lemma greedy_chunks_nonempty: "greedy_chunks b m cur rs \<noteq> []"
  by (induction b m cur rs rule: greedy_chunks.induct) simp_all

lemma greedy_chunks_size:
  assumes "c \<in> set (greedy_chunks b m cur rs)"
    and "length cur \<le> 1 \<or> b + length (concat (map rr_wire cur)) \<le> m"
  shows "length c \<le> 1 \<or> b + length (concat (map rr_wire c)) \<le> m"
  using assms
  by (induction b m cur rs rule: greedy_chunks.induct) (auto split: if_splits simp: add.assoc)

lemma greedy_chunks_no_empty:
  "cur \<noteq> [] \<or> rs \<noteq> [] \<Longrightarrow> [] \<notin> set (greedy_chunks b m cur rs)"
  by (induction b m cur rs rule: greedy_chunks.induct) auto

text \<open>All packets but the last carry the TC flag.\<close>

fun tc_packets :: "string \<Rightarrow> dns_type \<Rightarrow> response_mode \<Rightarrow> resource_record list list \<Rightarrow> dns_message list" where
  "tc_packets name qtype mode [] = []"
| "tc_packets name qtype mode [c] = [query_message 0 name qtype mode c]"
| "tc_packets name qtype mode (c # cs) = query_message 0x0200 name qtype mode c # tc_packets name qtype mode cs"

lemma tc_packets_Cons:
  "cs \<noteq> [] \<Longrightarrow> tc_packets name qtype mode (c # cs) = query_message 0x0200 name qtype mode c # tc_packets name qtype mode cs"
  by (cases cs) simp_all

text \<open>The measured intervals cut the answers out of the common buffer.\<close>

fun spans :: "nat \<Rightarrow> resource_record list \<Rightarrow> (nat \<times> nat) list" where
  "spans n [] = []"
| "spans n (r # rs) = (n, n + length (rr_wire r)) # spans (n + length (rr_wire r)) rs"

lemma measure_answers_spans:
  assumes "list_all2 (sendable inet_pton6) kas rs"
  shows "measure_answers inet_pton6 kas scratch = spans (length scratch) rs"
    and "foldl (append_known_answer inet_pton6) scratch kas = scratch @ concat (map rr_wire rs)"
  using assms
  by (induction kas rs arbitrary: scratch rule: list_all2_induct) (simp_all add: append_known_answer_rr Let_def)

definition finish_split :: "bytes list \<times> bytes \<times> u16 \<Rightarrow> bytes list option" where
  "finish_split s = (case s of (result, pkt, an) \<Rightarrow>
     do { pkt \<leftarrow> set_ancount pkt an; Some (result @ [pkt]) })"

lemma word_of_nat_pos_u16: "n < 65536 \<Longrightarrow> (0 < (word_of_nat n :: u16)) = (0 < n)"
  by (simp add: word_less_nat_alt unat_of_nat)

lemma split_loop_chunks:
  fixes qtype :: dns_type and mode :: response_mode
  assumes "encode_dns_name name \<noteq> []" and "holds_at buf n (concat (map rr_wire rs))"
    and "length cur + length rs < 65536"
  defines "base \<equiv> build_dns_query name qtype mode"
  shows "Option.bind (split_loop base buf m (spans n rs) res (open_packet 0 name qtype mode 0 cur)
        (word_of_nat (length cur))) finish_split
    = Some (res @ map message_bytes (tc_packets name qtype mode (greedy_chunks (length base) m cur rs)))"
  using assms(2,3)
proof (induction rs arbitrary: n cur res)
  case Nil
  then show ?case by (simp add: finish_split_def open_packet_close)
next
  case (Cons r rs)
  have base: "base = open_packet 0 name qtype mode 0 []"
    unfolding base_def by (rule open_packet_base [OF assms(1)])
  have len: "length (open_packet 0 name qtype mode 0 c) = length base + length (concat (map rr_wire c))" for c
    unfolding base by (simp add: open_packet_def)
  have ans: "slice buf n (length (rr_wire r)) = Some (rr_wire r)"
    using Cons.prems(1) by (simp only: list.map concat.simps holds_at_append holds_at_slice)
  have rest: "holds_at buf (n + length (rr_wire r)) (concat (map rr_wire rs))"
    using Cons.prems(1) by (simp add: holds_at_append)
  have pos: "(0 < (word_of_nat (length cur) :: u16)) = (cur \<noteq> [])"
    using Cons.prems(2) by (simp add: word_of_nat_pos_u16)
  show ?case
  proof (cases "cur \<noteq> [] \<and> length base + length (concat (map rr_wire cur)) + length (rr_wire r) > m")
    case True
    have flags: "byte_at (open_packet 0 name qtype mode 0 cur) 2 = Some 0"
      "poke (open_packet 0 name qtype mode 0 cur) 2 (0 OR 0x02) = Some (open_packet 0x0200 name qtype mode 0 cur)"
      by (simp_all only: open_packet_def set_tc_header)
    have "Option.bind (split_loop base buf m (spans n (r # rs)) res (open_packet 0 name qtype mode 0 cur)
        (word_of_nat (length cur))) finish_split
      = Option.bind (split_loop base buf m (spans (n + length (rr_wire r)) rs)
          (res @ [message_bytes (query_message 0x0200 name qtype mode cur)])
          (open_packet 0 name qtype mode 0 [r]) (word_of_nat (length [r]))) finish_split"
      using True pos len ans flags open_packet_close [of "0x0200" name qtype mode 0 cur]
        open_packet_append [of 0 name qtype mode 0 "[]" r]
      by (simp add: base [symmetric] del: length_rr_wire)
    also have "\<dots> = Some (res @ map message_bytes
        (tc_packets name qtype mode (cur # greedy_chunks (length base) m [r] rs)))"
      using Cons.IH [OF rest, of "[r]"] Cons.prems(2) True
      by (cases cur) (simp_all add: tc_packets_Cons greedy_chunks_nonempty)
    finally show ?thesis using True by simp
  next
    case False
    have cnt: "(word_of_nat (length cur) + 1 :: u16) = word_of_nat (length (cur @ [r]))" by simp
    have "Option.bind (split_loop base buf m (spans n (r # rs)) res (open_packet 0 name qtype mode 0 cur)
        (word_of_nat (length cur))) finish_split
      = Option.bind (split_loop base buf m (spans (n + length (rr_wire r)) rs) res
          (open_packet 0 name qtype mode 0 (cur @ [r])) (word_of_nat (length (cur @ [r])))) finish_split"
      using False pos len ans cnt by (auto simp: open_packet_append simp del: length_rr_wire length_append of_nat_Suc)
    also have "\<dots> = Some (res @ map message_bytes
        (tc_packets name qtype mode (greedy_chunks (length base) m (cur @ [r]) rs)))"
      using Cons.IH [OF rest, of "cur @ [r]" res] Cons.prems(2) by simp
    finally show ?thesis using False by (simp only: greedy_chunks.simps if_False)
  qed
qed

lemma build_dns_query_tc_messages:
  assumes "encode_dns_name name \<noteq> []" and "list_all2 (sendable inet_pton6) kas rs" and "length rs < 65536"
  shows "build_dns_query_tc inet_pton6 name qtype kas max_payload mode
    = Some (map message_bytes (tc_packets name qtype mode
        (greedy_chunks (length (build_dns_query name qtype mode)) max_payload [] rs)))"
proof (cases "kas = []")
  case True
  with assms show ?thesis by (simp add: build_dns_query_tc_def build_dns_query_message)
next
  case False
  note m = measure_answers_spans [OF assms(2), of "[]", simplified]
  have "build_dns_query_tc inet_pton6 name qtype kas max_payload mode
    = Option.bind (split_loop (build_dns_query name qtype mode) (concat (map rr_wire rs)) max_payload
        (spans 0 rs) [] (open_packet 0 name qtype mode 0 []) (word_of_nat (length []))) finish_split"
    using False by (simp add: build_dns_query_tc_def m open_packet_base [OF assms(1)] finish_split_def [abs_def])
  with split_loop_chunks [OF assms(1) holds_at_self, of "[]" rs qtype mode max_payload "[]"] assms(3)
  show ?thesis by simp
qed

section \<open>The builders are total\<close>

lemma append_known_answer_append: "\<exists>w. append_known_answer p6 buf ka = buf @ w"
  by (cases ka) (auto simp: append_dns_rr_def push_u16_be_def push_u32_be_def Let_def split: sum.split)

lemma foldl_known_append: "\<exists>w. foldl (append_known_answer p6) buf kas = buf @ w"
proof (induction kas arbitrary: buf)
  case (Cons ka kas)
  obtain w where "append_known_answer p6 buf ka = buf @ w" using append_known_answer_append by blast
  with Cons [of "buf @ w"] show ?case by auto
qed simp

lemma measure_answers_within:
  "list_all (\<lambda>(b, e). b \<le> e \<and> e \<le> length (foldl (append_known_answer p6) buf kas)) (measure_answers p6 kas buf)"
proof (induction kas arbitrary: buf)
  case (Cons ka kas)
  obtain w where w: "append_known_answer p6 buf ka = buf @ w" using append_known_answer_append by blast
  obtain w' where "foldl (append_known_answer p6) (buf @ w) kas = (buf @ w) @ w'" using foldl_known_append by blast
  with Cons [of "buf @ w"] w show ?case by (simp add: Let_def)
qed simp

lemma set_ancount_defined: "8 \<le> length p \<Longrightarrow> \<exists>q. set_ancount p n = Some q"
  by (simp add: set_ancount_def poke_def)

lemma split_loop_defined:
  assumes "list_all (\<lambda>(b, e). b \<le> e \<and> e \<le> length buf) sps" and "8 \<le> length base" and "8 \<le> length cur"
  shows "\<exists>res' cur' n'. split_loop base buf m sps res cur n = Some (res', cur', n') \<and> 8 \<le> length cur'"
  using assms(1,3)
proof (induction sps arbitrary: res cur n)
  case (Cons sp sps)
  obtain b e where sp: "sp = (b, e)" by fastforce
  obtain ans where sl: "slice buf b (e - b) = Some ans" using Cons.prems sp by (simp add: slice_def)
  have tl: "list_all (\<lambda>(b, e). b \<le> e \<and> e \<le> length buf) sps" using Cons.prems by simp
  obtain q where q: "byte_at cur 2 = Some q" using Cons.prems by (simp add: byte_at_def)
  obtain c1 where c1: "poke cur 2 (q OR 2) = Some c1" "length c1 = length cur" using Cons.prems by (simp add: poke_def)
  obtain c2 where c2: "set_ancount c1 n = Some c2" using set_ancount_defined [of c1 n] c1(2) Cons.prems by auto
  show ?case
  proof (cases "n > 0 \<and> length cur + (e - b) > m")
    case True
    then have "split_loop base buf m (sp # sps) res cur n = split_loop base buf m sps (res @ [c2]) (base @ ans) (0 + 1)"
      by (simp add: sp Let_def q c1(1) c2 sl)
    moreover have "8 \<le> length (base @ ans)" using assms(2) by simp
    ultimately show ?thesis using Cons.IH [OF tl] by presburger
  next
    case False
    then have "split_loop base buf m (sp # sps) res cur n = split_loop base buf m sps res (cur @ ans) (n + 1)"
      by (auto simp: sp Let_def sl)
    moreover have "8 \<le> length (cur @ ans)" using Cons.prems by simp
    ultimately show ?thesis using Cons.IH [OF tl] by presburger
  qed
qed simp

lemma build_dns_query_tc_defined:
  assumes "encode_dns_name name \<noteq> []"
  shows "\<exists>ps. build_dns_query_tc p6 name qtype kas m mode = Some ps"
proof -
  have l: "8 \<le> length (build_dns_query name qtype mode)" using assms by (simp add: build_dns_query_def Let_def push_u16_be_def)
  obtain res cur n where sp: "split_loop (build_dns_query name qtype mode) (foldl (append_known_answer p6) [] kas) m
      (measure_answers p6 kas []) [] (build_dns_query name qtype mode) 0 = Some (res, cur, n)" and "8 \<le> length cur"
    using split_loop_defined [OF measure_answers_within l l, of p6 "[]" kas m "[]" 0] by blast
  moreover from this(2) obtain q where "set_ancount cur n = Some q" using set_ancount_defined by blast
  ultimately show ?thesis by (simp add: build_dns_query_tc_def)
qed

section \<open>Properties\<close>

text \<open>
  C39: Known answers are split without loss. For sendable known answers the builder succeeds and
  the packets it returns are well-formed messages; walking them in order gives all the known
  answers in order; every packet but the last has the TC flag and the last has not; a packet
  exceeds \<open>max_payload\<close> only when it carries a single answer.
\<close>

theorem query_tc_complete:
  assumes "wf_name name" and "list_all2 (sendable inet_pton6) kas rs" and "length rs < 65536"
  shows "\<exists>chunks. concat chunks = rs \<and>
    build_dns_query_tc inet_pton6 name qtype kas max_payload mode
      = Some (map message_bytes (tc_packets name qtype mode chunks)) \<and>
    concat (map (\<lambda>p. the (walk_dns_frame p sender)) (map message_bytes (tc_packets name qtype mode chunks)))
      = List.map_filter (rr_decoded sender) rs \<and>
    list_all (\<lambda>c. length (message_bytes (query_message 0 name qtype mode c)) \<le> max_payload
                  \<or> length c \<le> 1) chunks"
proof -
  let ?base = "build_dns_query name qtype mode"
  let ?cs = "greedy_chunks (length ?base) max_payload [] rs"
  have ne: "encode_dns_name name \<noteq> []" using assms(1) by (rule wf_name_encode)
  have v: "list_all valid_rr rs"
    using assms(2) by (auto simp: list_all_iff list_all2_conv_all_nth in_set_conv_nth sendable_def)
  have cat: "concat ?cs = rs" by (simp add: concat_greedy_chunks)
  have walk: "concat (map (\<lambda>p. the (walk_dns_frame p sender)) (map message_bytes (tc_packets name qtype mode cs)))
      = List.map_filter (rr_decoded sender) (concat cs)"
    if "list_all valid_rr (concat cs)" "length (concat cs) < 65536" for cs
    using that
  proof (induction cs)
    case (Cons c cs)
    have "valid_message (query_message f name qtype mode c)" for f
      using Cons.prems assms(1) by (simp add: valid_message_def query_message_def msg_records_def)
    from walk_message [OF this, of _ "[]" sender]
    have w: "walk_dns_frame (message_bytes (query_message f name qtype mode c)) sender
        = Some (List.map_filter (rr_decoded sender) c)" for f
      by (simp add: query_message_def msg_records_def)
    show ?case using Cons w by (cases cs) (simp_all add: map_filter_def)
  qed simp
  have len: "length (message_bytes (query_message 0 name qtype mode c))
      = length ?base + length (concat (map rr_wire c))" for c
    unfolding build_dns_query_message [OF ne]
    by (simp add: message_bytes_def query_message_def msg_records_def)
  have "list_all (\<lambda>c. length (message_bytes (query_message 0 name qtype mode c)) \<le> max_payload
      \<or> length c \<le> 1) ?cs"
    using greedy_chunks_size [of _ "length ?base" max_payload "[]" rs] by (auto simp: list_all_iff len)
  then show ?thesis
    using build_dns_query_tc_messages [OF ne assms(2,3)] walk [of ?cs] v assms(3) cat by auto
qed

definition example_ptr :: mdns_record_variant where
  "example_ptr = Rec_ptr \<lparr>rec_name = dns_name ''_http._tcp.local'', rec_ttl = 4500, rec_class = Class_in,
     rec_length = 0, sender_address = [], rec_cache_flush = False, ptr_name = dns_name ''web._http._tcp.local''\<rparr>"

definition example_ptr_rr :: resource_record where
  "example_ptr_rr = \<lparr>rr_owner = ''_http._tcp.local.'', rr_flush = False, rr_ttl = 4500,
     rr_data = RD_ptr ''web._http._tcp.local.''\<rparr>"

lemma example_normalized:
  "normalize ''_http._tcp.local'' = ''_http._tcp.local.''"
  "normalize ''web._http._tcp.local'' = ''web._http._tcp.local.''"
  by code_simp+

lemma example_wf_names: "wf_name ''_http._tcp.local.''" "wf_name ''web._http._tcp.local.''"
  by code_simp+

lemma example_sendable: "sendable inet_pton6 example_ptr example_ptr_rr"
  by (simp add: sendable_def known_answer_rr_def example_ptr_def example_ptr_rr_def example_normalized
      valid_rr_def example_wf_names)

theorem query_tc_complete_witness:
  "\<exists>chunks. concat chunks = replicate 2 example_ptr_rr \<and>
    build_dns_query_tc (\<lambda>_. None) ''_http._tcp.local.'' Type_ptr (replicate 2 example_ptr) 100 Multicast
      = Some (map message_bytes (tc_packets ''_http._tcp.local.'' Type_ptr Multicast chunks))"
  using query_tc_complete [OF example_wf_names(1), of "\<lambda>_. None" "replicate 2 example_ptr"
      "replicate 2 example_ptr_rr" Type_ptr 100 Multicast no_endpoint]
    example_sendable [of "\<lambda>_. None"] by (auto simp: list_all2_conv_all_nth)

text \<open>
  A query with known answers, and a probe, are the messages the RFC prescribes: one question
  and the known answers as answers; a probe asks for ANY with the unicast-response bit and
  proposes the SRV record in the authority section.
\<close>

lemma query_builders_messages:
  assumes "wf_name name" and "list_all2 (sendable inet_pton6) kas rs"
    and "wf_name (str (service_name info))" and "wf_name (str (hostname info))"
  shows "build_dns_query name qtype mode = message_bytes (query_message 0 name qtype mode []) \<and>
    build_dns_query_known inet_pton6 name qtype kas mode
      = Some (message_bytes (query_message 0 name qtype mode rs)) \<and>
    build_probe_query info ttl = message_bytes (probe_message info ttl)"
  using assms by (simp add: build_dns_query_message build_dns_query_known_message
      build_probe_query_message wf_name_encode)

definition example_info :: service_info where
  "example_info =
     \<lparr>service_name = dns_name ''web._http._tcp.local'', service_type = dns_name ''_http._tcp.local'',
      hostname = dns_name ''host.local'', info_port = 8080, info_priority = 0, info_weight = 0,
      address_ipv4 = Some ''192.168.1.7'', address_ipv6 = None,
      txt_records = [\<lparr>txt_key = ''path'', txt_value = Some ''/''\<rparr>], subtypes = []\<rparr>"

lemma example_info_names:
  "str (service_name example_info) = ''web._http._tcp.local.''"
  "str (service_type example_info) = ''_http._tcp.local.''"
  "str (hostname example_info) = ''host.local.''"
  "wf_name ''host.local.''"
  by (simp_all add: example_info_def example_normalized) code_simp+

lemma query_builders_messages_example:
  "build_probe_query example_info 120 = message_bytes (probe_message example_info 120) \<and>
   build_dns_query_known (\<lambda>_. None) ''_http._tcp.local.'' Type_ptr [example_ptr] Multicast
     = Some (message_bytes (query_message 0 ''_http._tcp.local.'' Type_ptr Multicast [example_ptr_rr]))"
  using query_builders_messages [of "''_http._tcp.local.''" "\<lambda>_. None" "[example_ptr]" "[example_ptr_rr]"
      example_info Type_ptr Multicast 120]
  by (simp add: example_wf_names example_info_names example_sendable)

text \<open>
  When the name of a query cannot be encoded and there are no known answers yet, the builder
  that adds known answers writes the answer count into an empty packet: an out-of-range access.
\<close>

lemma query_known_unencodable:
  assumes "encode_dns_name name = []" and "kas = []"
  shows "build_dns_query_known inet_pton6 name qtype kas mode = None"
  using assms by (simp add: build_dns_query_known_def build_dns_query_def set_ancount_def poke_def)

lemma query_known_unencodable_example:
  "build_dns_query_known (\<lambda>_. None) (replicate 64 CHR ''a'') Type_ptr [] Multicast = None"
proof -
  have "encode_dns_name (replicate 64 CHR ''a'') = []" by code_simp
  then show ?thesis by (rule query_known_unencodable) simp
qed

end
