(* ===== verification/Dns_Response.thy ===== *)
theory Dns_Response
  imports Dns_Query
begin

text \<open>
  \<open>detail/dns_response.h\<close>: the response packet for one query type, and the message it stands for.
\<close>

section \<open>The builder\<close>

definition ttl_for :: "u32 \<Rightarrow> int \<Rightarrow> u32" where
  "ttl_for legacy_unicast_cap t = min (word_of_int t) legacy_unicast_cap"

definition is_unique :: "dns_type \<Rightarrow> bool" where
  "is_unique t \<longleftrightarrow> t = Type_srv \<or> t = Type_a \<or> t = Type_aaaa \<or> t = Type_txt"

text \<open>A section under construction: its bytes and its record count.\<close>

type_synonym section_buf = "bytes \<times> u16"

definition add_rr :: "bytes \<Rightarrow> dns_type \<Rightarrow> u32 \<Rightarrow> bytes \<Rightarrow> section_buf \<Rightarrow> section_buf" where
  "add_rr name rtype ttl rdata sec =
     (append_dns_rr (fst sec) name rtype ttl rdata (is_unique rtype), snd sec + 1)"

definition encode_rdata_a :: "service_info \<Rightarrow> bytes" where
  "encode_rdata_a info =
     (case address_ipv4 info of
        Some addr \<Rightarrow> (case encode_ipv4 addr of Inr enc \<Rightarrow> enc | Inl _ \<Rightarrow> [])
      | None \<Rightarrow> [])"

definition encode_rdata_aaaa :: "(string \<Rightarrow> bytes option) \<Rightarrow> service_info \<Rightarrow> bytes" where
  "encode_rdata_aaaa inet_pton6 info =
     (case address_ipv6 info of
        Some addr \<Rightarrow> (case encode_ipv6 inet_pton6 addr of Inr enc \<Rightarrow> enc | Inl _ \<Rightarrow> [])
      | None \<Rightarrow> [])"

definition append_address_records :: "bytes \<Rightarrow> u32 \<Rightarrow> bytes \<Rightarrow> u32 \<Rightarrow> bytes \<Rightarrow> section_buf \<Rightarrow> section_buf" where
  "append_address_records name_hostname a_t rdata_a aaaa_t rdata_aaaa sec =
     (let sec = (if rdata_a \<noteq> [] then add_rr name_hostname Type_a a_t rdata_a sec else sec)
      in if rdata_aaaa \<noteq> [] then add_rr name_hostname Type_aaaa aaaa_t rdata_aaaa sec else sec)"

definition build_dns_response ::
  "(string \<Rightarrow> bytes option) \<Rightarrow> service_info \<Rightarrow> dns_type \<Rightarrow> service_options \<Rightarrow> u32 \<Rightarrow> bytes" where
  "build_dns_response inet_pton6 info qtype opts legacy_unicast_cap =
     (let ptr_t = ttl_for legacy_unicast_cap (ptr_ttl opts);
          srv_t = ttl_for legacy_unicast_cap (srv_ttl opts);
          txt_t = ttl_for legacy_unicast_cap (txt_ttl opts);
          a_t = ttl_for legacy_unicast_cap (a_ttl opts);
          aaaa_t = ttl_for legacy_unicast_cap (aaaa_ttl opts);
          name_service_type = encode_dns_name (str (service_type info));
          name_service_name = encode_dns_name (str (service_name info));
          name_hostname = encode_dns_name (str (hostname info))
      in if name_service_type = [] \<or> name_service_name = [] \<or> name_hostname = [] then []
         else
           (let rdata_ptr = name_service_name;
                rdata_srv = push_u16_be [] (info_priority info);
                rdata_srv = push_u16_be rdata_srv (info_weight info);
                rdata_srv = push_u16_be rdata_srv (info_port info);
                rdata_srv = rdata_srv @ name_hostname;
                rdata_a = encode_rdata_a info;
                rdata_aaaa = encode_rdata_aaaa inet_pton6 info;
                rdata_txt = (if txt_records info \<noteq> [] then encode_txt_records (txt_records info) else [])
            in if qtype = Type_a \<and> rdata_a = [] then []
               else if qtype = Type_aaaa \<and> rdata_aaaa = [] then []
               else
                 (let add_addresses = append_address_records name_hostname a_t rdata_a aaaa_t rdata_aaaa;
                      sections =
                        (case qtype of
                           Type_ptr \<Rightarrow>
                             (let answers = add_rr name_service_type Type_ptr ptr_t rdata_ptr ([], 0);
                                  additional = add_rr name_service_name Type_srv srv_t rdata_srv ([], 0);
                                  additional = add_addresses additional;
                                  additional = (if rdata_txt \<noteq> []
                                    then add_rr name_service_name Type_txt txt_t rdata_txt additional else additional)
                              in Some (answers, additional))
                         | Type_srv \<Rightarrow>
                             (let answers = add_rr name_service_name Type_srv srv_t rdata_srv ([], 0)
                              in Some (answers, add_addresses ([], 0)))
                         | Type_a \<Rightarrow> Some (add_rr name_hostname Type_a a_t rdata_a ([], 0), ([], 0))
                         | Type_aaaa \<Rightarrow> Some (add_rr name_hostname Type_aaaa aaaa_t rdata_aaaa ([], 0), ([], 0))
                         | Type_txt \<Rightarrow> Some (add_rr name_service_name Type_txt txt_t rdata_txt ([], 0), ([], 0))
                         | Type_any \<Rightarrow>
                             (let answers = add_rr name_service_type Type_ptr ptr_t rdata_ptr ([], 0);
                                  answers = add_rr name_service_name Type_srv srv_t rdata_srv answers;
                                  answers = (if rdata_a \<noteq> []
                                    then add_rr name_hostname Type_a a_t rdata_a answers else answers);
                                  answers = (if rdata_aaaa \<noteq> []
                                    then add_rr name_hostname Type_aaaa aaaa_t rdata_aaaa answers else answers);
                                  answers = (if rdata_txt \<noteq> []
                                    then add_rr name_service_name Type_txt txt_t rdata_txt answers else answers)
                              in Some (answers, ([], 0)))
                         | _ \<Rightarrow> None)
                  in case sections of
                       None \<Rightarrow> []
                     | Some ((answers, ancount), (additional, arcount)) \<Rightarrow>
                         (let packet = push_u16_be [] 0x0000;
                              packet = push_u16_be packet 0x8400;
                              packet = push_u16_be packet 0x0000;
                              packet = push_u16_be packet ancount;
                              packet = push_u16_be packet 0x0000;
                              packet = push_u16_be packet arcount
                          in (packet @ answers) @ additional))))"

section \<open>The message\<close>

definition service_rr :: "string \<Rightarrow> u32 \<Rightarrow> int \<Rightarrow> rdata \<Rightarrow> resource_record" where
  "service_rr owner cap ttl d =
     \<lparr>rr_owner = owner, rr_flush = is_unique (rdata_type d), rr_ttl = ttl_for cap ttl, rr_data = d\<rparr>"

definition ptr_rrs :: "service_info \<Rightarrow> service_options \<Rightarrow> u32 \<Rightarrow> resource_record list" where
  "ptr_rrs info opts cap = [service_rr (str (service_type info)) cap (ptr_ttl opts) (RD_ptr (str (service_name info)))]"

definition srv_rrs :: "service_info \<Rightarrow> service_options \<Rightarrow> u32 \<Rightarrow> resource_record list" where
  "srv_rrs info opts cap = [service_rr (str (service_name info)) cap (srv_ttl opts) (srv_rdata info)]"

definition a_rrs :: "service_info \<Rightarrow> service_options \<Rightarrow> u32 \<Rightarrow> resource_record list" where
  "a_rrs info opts cap =
     (case encode_rdata_a info of
        [b0, b1, b2, b3] \<Rightarrow> [service_rr (str (hostname info)) cap (a_ttl opts) (RD_a b0 b1 b2 b3)]
      | _ \<Rightarrow> [])"

definition aaaa_rrs :: "(string \<Rightarrow> bytes option) \<Rightarrow> service_info \<Rightarrow> service_options \<Rightarrow> u32 \<Rightarrow> resource_record list" where
  "aaaa_rrs inet_pton6 info opts cap =
     (if encode_rdata_aaaa inet_pton6 info = [] then []
      else [service_rr (str (hostname info)) cap (aaaa_ttl opts) (RD_aaaa (encode_rdata_aaaa inet_pton6 info))])"

definition txt_rr :: "service_info \<Rightarrow> service_options \<Rightarrow> u32 \<Rightarrow> resource_record" where
  "txt_rr info opts cap = service_rr (str (service_name info)) cap (txt_ttl opts) (RD_txt (txt_records info))"

definition txt_rrs :: "service_info \<Rightarrow> service_options \<Rightarrow> u32 \<Rightarrow> resource_record list" where
  "txt_rrs info opts cap = (if encode_txt_records (txt_records info) = [] then [] else [txt_rr info opts cap])"

text \<open>Answers and additional records for each query type, as the table in the header comment lists them.\<close>

definition response_sections ::
  "(string \<Rightarrow> bytes option) \<Rightarrow> service_info \<Rightarrow> dns_type \<Rightarrow> service_options \<Rightarrow> u32
     \<Rightarrow> resource_record list \<times> resource_record list" where
  "response_sections inet_pton6 info qtype opts cap =
     (let ptr = ptr_rrs info opts cap; srv = srv_rrs info opts cap; a = a_rrs info opts cap;
          aaaa = aaaa_rrs inet_pton6 info opts cap; txt = txt_rrs info opts cap
      in case qtype of
           Type_ptr \<Rightarrow> (ptr, srv @ a @ aaaa @ txt)
         | Type_srv \<Rightarrow> (srv, a @ aaaa)
         | Type_a \<Rightarrow> (a, [])
         | Type_aaaa \<Rightarrow> (aaaa, [])
         | Type_txt \<Rightarrow> ([txt_rr info opts cap], [])
         | Type_any \<Rightarrow> (ptr @ srv @ a @ aaaa @ txt, [])
         | _ \<Rightarrow> ([], []))"

definition response_message :: "resource_record list \<times> resource_record list \<Rightarrow> dns_message" where
  "response_message secs =
     \<lparr>msg_id = 0, msg_flags = 0x8400, msg_questions = [], msg_answers = fst secs, msg_authority = [],
      msg_additional = snd secs\<rparr>"

text \<open>A service that can be announced: its names are well formed and its TXT data fits a record.\<close>

definition announceable :: "service_info \<Rightarrow> bool" where
  "announceable info \<longleftrightarrow>
     wf_name (str (service_type info)) \<and> wf_name (str (service_name info)) \<and> wf_name (str (hostname info)) \<and>
     list_all valid_txt (txt_records info) \<and> length (encode_txt_records (txt_records info)) \<le> 65535"

section \<open>Correspondence\<close>

text \<open>The section buffer that holds a list of records.\<close>

definition sec_of :: "resource_record list \<Rightarrow> section_buf" where
  "sec_of rs = (concat (map rr_wire rs), word_of_nat (length rs))"

lemma sec_of_Nil: "([], 0) = sec_of []"
  by (simp add: sec_of_def)

lemma add_rr_sec:
  assumes "encode_dns_name owner \<noteq> []" and "length (rdata_bytes d) \<le> 65535"
  shows "add_rr (encode_dns_name owner) (rdata_type d) (ttl_for cap ttl) (rdata_bytes d) (sec_of rs)
    = sec_of (rs @ [service_rr owner cap ttl d])"
  using assms by (simp add: add_rr_def sec_of_def append_dns_rr_eq rr_wire_def service_rr_def)

lemma encode_rdata_a_length: "length (encode_rdata_a info) \<in> {0, 4}"
proof (cases "address_ipv4 info")
  case (Some a)
  then show ?thesis by (cases rule: encode_ipv4_cases [of a]) (simp_all add: encode_rdata_a_def)
qed (simp add: encode_rdata_a_def)

lemma encode_rdata_aaaa_length:
  "inet_pton_width 16 inet_pton6 \<Longrightarrow> length (encode_rdata_aaaa inet_pton6 info) \<in> {0, 16}"
  by (auto simp: encode_rdata_aaaa_def encode_ipv6_def inet_pton_width_def split: option.splits)

lemma add_a_sec:
  assumes "encode_dns_name (str (hostname info)) \<noteq> []"
  shows "encode_rdata_a info \<noteq> [] \<Longrightarrow>
      add_rr (encode_dns_name (str (hostname info))) Type_a (ttl_for cap (a_ttl opts)) (encode_rdata_a info) (sec_of rs)
      = sec_of (rs @ a_rrs info opts cap)"
    and "encode_rdata_a info = [] \<Longrightarrow> a_rrs info opts cap = []"
proof -
  assume ne: "encode_rdata_a info \<noteq> []"
  then have "length (encode_rdata_a info) = 4" using encode_rdata_a_length [of info] by simp
  then obtain b0 b1 b2 b3 where b: "encode_rdata_a info = [b0, b1, b2, b3]"
    by (auto simp: numeral_eq_Suc length_Suc_conv)
  show "add_rr (encode_dns_name (str (hostname info))) Type_a (ttl_for cap (a_ttl opts)) (encode_rdata_a info) (sec_of rs)
      = sec_of (rs @ a_rrs info opts cap)"
    using add_rr_sec [OF assms, of "RD_a b0 b1 b2 b3" cap "a_ttl opts" rs] by (simp add: b a_rrs_def)
qed (simp add: a_rrs_def)

lemma add_aaaa_sec:
  assumes "encode_dns_name (str (hostname info)) \<noteq> []" and "inet_pton_width 16 inet_pton6"
  shows "encode_rdata_aaaa inet_pton6 info \<noteq> [] \<Longrightarrow>
      add_rr (encode_dns_name (str (hostname info))) Type_aaaa (ttl_for cap (aaaa_ttl opts))
        (encode_rdata_aaaa inet_pton6 info) (sec_of rs)
      = sec_of (rs @ aaaa_rrs inet_pton6 info opts cap)"
    and "encode_rdata_aaaa inet_pton6 info = [] \<Longrightarrow> aaaa_rrs inet_pton6 info opts cap = []"
  using add_rr_sec [OF assms(1), of "RD_aaaa (encode_rdata_aaaa inet_pton6 info)" cap "aaaa_ttl opts" rs]
    encode_rdata_aaaa_length [OF assms(2), of info]
  by (auto simp: aaaa_rrs_def)

lemma response_parts:
  assumes "announceable info" and "inet_pton_width 16 inet_pton6"
  defines "ty \<equiv> encode_dns_name (str (service_type info))"
    and "nm \<equiv> encode_dns_name (str (service_name info))"
    and "hn \<equiv> encode_dns_name (str (hostname info))"
  shows "add_rr ty Type_ptr (ttl_for cap (ptr_ttl opts)) nm (sec_of rs) = sec_of (rs @ ptr_rrs info opts cap)"
    and "add_rr nm Type_srv (ttl_for cap (srv_ttl opts)) (rdata_bytes (srv_rdata info)) (sec_of rs)
      = sec_of (rs @ srv_rrs info opts cap)"
    and "(if encode_rdata_a info \<noteq> [] then add_rr hn Type_a (ttl_for cap (a_ttl opts)) (encode_rdata_a info) (sec_of rs)
      else sec_of rs) = sec_of (rs @ a_rrs info opts cap)"
    and "(if encode_rdata_aaaa inet_pton6 info \<noteq> [] then add_rr hn Type_aaaa (ttl_for cap (aaaa_ttl opts))
      (encode_rdata_aaaa inet_pton6 info) (sec_of rs) else sec_of rs) = sec_of (rs @ aaaa_rrs inet_pton6 info opts cap)"
    and "add_rr nm Type_txt (ttl_for cap (txt_ttl opts)) (encode_txt_records (txt_records info)) (sec_of rs)
      = sec_of (rs @ [txt_rr info opts cap])"
proof -
  have wf: "wf_name (str (service_type info))" "wf_name (str (service_name info))" "wf_name (str (hostname info))"
    "length (encode_txt_records (txt_records info)) \<le> 65535"
    using assms(1) by (simp_all add: announceable_def)
  note ne = wf(1-3) [THEN wf_name_encode(1)] and le = wf(1-3) [THEN wf_name_encode(3)]
  show "add_rr ty Type_ptr (ttl_for cap (ptr_ttl opts)) nm (sec_of rs) = sec_of (rs @ ptr_rrs info opts cap)"
    using add_rr_sec [OF ne(1), of "RD_ptr (str (service_name info))" cap "ptr_ttl opts" rs] le(2)
    by (simp add: ty_def nm_def ptr_rrs_def)
  show "add_rr nm Type_srv (ttl_for cap (srv_ttl opts)) (rdata_bytes (srv_rdata info)) (sec_of rs)
      = sec_of (rs @ srv_rrs info opts cap)"
    using add_rr_sec [OF ne(2), of "srv_rdata info" cap "srv_ttl opts" rs] le(3)
    by (simp add: nm_def srv_rrs_def srv_rdata_def)
  show "(if encode_rdata_a info \<noteq> [] then add_rr hn Type_a (ttl_for cap (a_ttl opts)) (encode_rdata_a info) (sec_of rs)
      else sec_of rs) = sec_of (rs @ a_rrs info opts cap)"
    using add_a_sec(1) [OF ne(3), of cap opts rs] add_a_sec(2) [OF ne(3)] by (simp add: hn_def)
  show "(if encode_rdata_aaaa inet_pton6 info \<noteq> [] then add_rr hn Type_aaaa (ttl_for cap (aaaa_ttl opts))
      (encode_rdata_aaaa inet_pton6 info) (sec_of rs) else sec_of rs) = sec_of (rs @ aaaa_rrs inet_pton6 info opts cap)"
    using add_aaaa_sec(1) [OF ne(3) assms(2), of cap opts rs] add_aaaa_sec(2) [OF ne(3) assms(2)]
    by (simp add: hn_def)
  show "add_rr nm Type_txt (ttl_for cap (txt_ttl opts)) (encode_txt_records (txt_records info)) (sec_of rs)
      = sec_of (rs @ [txt_rr info opts cap])"
    using add_rr_sec [OF ne(2), of "RD_txt (txt_records info)" cap "txt_ttl opts" rs] wf(4)
    by (simp add: nm_def txt_rr_def)
qed


lemma response_packet:
  assumes "sec_of rs = (answers, ancount)" and "sec_of qs = (additional, arcount)"
  shows "(push_u16_be (push_u16_be (push_u16_be (push_u16_be (push_u16_be (be16 0x0000) 0x8400) 0x0000) ancount) 0x0000) arcount
      @ answers) @ additional = message_bytes (response_message (rs, qs))"
  using assms by (auto simp: sec_of_def response_message_def message_bytes_def header_bytes_def msg_records_def push_be)

lemma build_dns_response_message:
  assumes ann: "announceable info" and pton: "inet_pton_width 16 inet_pton6"
  shows "build_dns_response inet_pton6 info qtype opts cap =
    (let secs = response_sections inet_pton6 info qtype opts cap
     in if fst secs = [] then [] else message_bytes (response_message secs))"
proof -
  let ?hn = "encode_dns_name (str (hostname info))"
  have ne: "encode_dns_name (str (service_type info)) \<noteq> []" "encode_dns_name (str (service_name info)) \<noteq> []" "?hn \<noteq> []"
    using ann by (simp_all add: announceable_def wf_name_encode)
  have srv: "push_u16_be (push_u16_be (be16 (info_priority info)) (info_weight info)) (info_port info) @ ?hn
      = rdata_bytes (srv_rdata info)"
    by (simp add: srv_rdata_def push_be)
  have txt_data: "(if txt_records info \<noteq> [] then encode_txt_records (txt_records info) else [])
      = encode_txt_records (txt_records info)"
    by (simp add: encode_txt_records_eq)
  note parts = response_parts [OF ann pton, of cap opts]
  have addr: "append_address_records ?hn (ttl_for cap (a_ttl opts)) (encode_rdata_a info) (ttl_for cap (aaaa_ttl opts))
      (encode_rdata_aaaa inet_pton6 info) (sec_of rs)
      = sec_of (rs @ a_rrs info opts cap @ aaaa_rrs inet_pton6 info opts cap)" for rs
    by (simp only: append_address_records_def Let_def parts append_assoc)
  have txts: "(if encode_txt_records (txt_records info) \<noteq> []
      then add_rr (encode_dns_name (str (service_name info))) Type_txt (ttl_for cap (txt_ttl opts))
        (encode_txt_records (txt_records info)) (sec_of rs) else sec_of rs)
      = sec_of (rs @ txt_rrs info opts cap)" for rs
    by (simp add: parts txt_rrs_def)
  have a: "encode_rdata_a info = [] \<longleftrightarrow> a_rrs info opts cap = []"
    using add_a_sec(2) [OF ne(3)] encode_rdata_a_length [of info]
    by (auto simp: a_rrs_def numeral_eq_Suc length_Suc_conv)
  have aaaa: "encode_rdata_aaaa inet_pton6 info = [] \<longleftrightarrow> aaaa_rrs inet_pton6 info opts cap = []"
    by (simp add: aaaa_rrs_def)
  have fin: "(case sec_of rs of (answers, ancount) \<Rightarrow> case sec_of qs of (additional, arcount) \<Rightarrow>
      (push_u16_be (push_u16_be (push_u16_be (push_u16_be (push_u16_be (be16 0x0000) 0x8400) 0x0000) ancount) 0x0000) arcount
        @ answers @ additional)) = message_bytes (response_message (rs, qs))" for rs qs
    using response_packet [of rs _ _ qs] by (cases "sec_of rs"; cases "sec_of qs") simp
  show ?thesis
    unfolding build_dns_response_def Let_def srv txt_data sec_of_Nil parts(1-4) addr txts
    using ne add_a_sec(1) [OF ne(3), of cap opts "[]"] add_aaaa_sec(1) [OF ne(3) pton, of cap opts "[]"]
    by (cases qtype)
      (simp_all add: response_sections_def Let_def parts(5) fin a aaaa ptr_rrs_def srv_rrs_def del: be16_small)
qed


lemma service_rrs_valid:
  assumes "announceable info" and "inet_pton_width 16 inet_pton6"
  shows "list_all valid_rr (ptr_rrs info opts cap)" "list_all valid_rr (srv_rrs info opts cap)"
    "list_all valid_rr (a_rrs info opts cap)" "list_all valid_rr (aaaa_rrs inet_pton6 info opts cap)"
    "valid_rr (txt_rr info opts cap)" "list_all valid_rr (txt_rrs info opts cap)"
  using assms(1) encode_rdata_aaaa_length [OF assms(2), of info]
  by (auto simp: announceable_def valid_rr_def service_rr_def ptr_rrs_def srv_rrs_def srv_rdata_def a_rrs_def
      aaaa_rrs_def txt_rrs_def txt_rr_def split: list.split)

lemma service_rrs_length:
  "length (ptr_rrs info opts cap) = 1" "length (srv_rrs info opts cap) = 1" "length (a_rrs info opts cap) \<le> 1"
  "length (aaaa_rrs inet_pton6 info opts cap) \<le> 1" "length (txt_rrs info opts cap) \<le> 1"
  by (auto simp: ptr_rrs_def srv_rrs_def a_rrs_def aaaa_rrs_def txt_rrs_def split: list.split)

lemma response_sections_valid:
  assumes "announceable info" and "inet_pton_width 16 inet_pton6"
  shows "valid_message (response_message (response_sections inet_pton6 info qtype opts cap))"
    and "fst (response_sections inet_pton6 info qtype opts cap) = [] \<Longrightarrow>
      snd (response_sections inet_pton6 info qtype opts cap) = []"
proof -
  note len = service_rrs_length(1-3,5) [of info opts cap] service_rrs_length(4) [of inet_pton6 info opts cap]
  show "valid_message (response_message (response_sections inet_pton6 info qtype opts cap))"
    using service_rrs_valid [OF assms, of opts cap] len
    by (cases qtype) (simp_all add: valid_message_def response_message_def response_sections_def Let_def msg_records_def)
  show "snd (response_sections inet_pton6 info qtype opts cap) = []"
    if "fst (response_sections inet_pton6 info qtype opts cap) = []"
    using that len by (cases qtype) (simp_all add: response_sections_def Let_def)
qed

lemma walk_response:
  assumes "announceable info" and "inet_pton_width 16 inet_pton6"
  shows "walk_dns_frame (build_dns_response inet_pton6 info qtype opts cap) sender =
    (case response_sections inet_pton6 info qtype opts cap of (answers, additional) \<Rightarrow>
       Some (List.map_filter (rr_decoded sender) (answers @ additional)))"
proof -
  let ?s = "response_sections inet_pton6 info qtype opts cap"
  note v = response_sections_valid [OF assms, of qtype opts cap]
  show ?thesis
  proof (cases "fst ?s = []")
    case True
    with v(2) build_dns_response_message [OF assms] show ?thesis
      by (cases ?s) (simp add: walk_dns_frame_def map_filter_simps)
  next
    case False
    with walk_message [OF v(1), of "[]" sender] build_dns_response_message [OF assms] show ?thesis
      by (cases ?s) (simp add: response_message_def msg_records_def)
  qed
qed

section \<open>Properties\<close>

text \<open>
  Responses round trip. The packet that \<open>build_dns_response\<close> builds for an announceable
  service is decoded by \<open>walk_dns_frame\<close> to exactly the answer and additional records that the
  table of \<open>dns_response.h\<close> lists for the query type, and to nothing when that table has no
  answer.
\<close>

lemma response_roundtrip:
  assumes "announceable info" and "inet_pton_width 16 inet_pton6"
  shows "walk_dns_frame (build_dns_response inet_pton6 info qtype opts cap) sender =
    (case response_sections inet_pton6 info qtype opts cap of (answers, additional) \<Rightarrow>
       Some (List.map_filter (rr_decoded sender) (answers @ additional)))"
  using assms by (rule walk_response)

lemma example_announceable: "announceable example_info"
proof -
  have "txt_records example_info = [\<lparr>txt_key = ''path'', txt_value = Some ''/''\<rparr>]"
    by (simp add: example_info_def)
  then show ?thesis
    by (simp add: announceable_def example_info_names example_wf_names valid_txt_def encode_txt_records_eq
        txt_entry_bytes_def txt_string_def)
qed

lemma response_roundtrip_example:
  "walk_dns_frame (build_dns_response (\<lambda>_. None) example_info Type_srv default_service_options 0xFFFFFFFF) no_endpoint =
    (case response_sections (\<lambda>_. None) example_info Type_srv default_service_options 0xFFFFFFFF of (answers, additional) \<Rightarrow>
       Some (List.map_filter (rr_decoded no_endpoint) (answers @ additional)))"
  by (rule response_roundtrip [OF example_announceable]) (simp add: inet_pton_width_def)

text \<open>
  TTLs and the cache-flush bit of a response (RFC 6762 sections 6.7 and 10.2): every record has
  a TTL of at most the legacy-unicast cap, and a record carries the cache-flush bit exactly when
  its type is unique (everything but PTR).
\<close>

lemma response_ttl_and_flush:
  "case response_sections inet_pton6 info qtype opts cap of (answers, additional) \<Rightarrow>
     list_all (\<lambda>r. rr_ttl r \<le> cap \<and> (rr_flush r \<longleftrightarrow> rdata_type (rr_data r) \<noteq> Type_ptr)) (answers @ additional)"
  by (cases qtype)
    (auto simp: response_sections_def Let_def ptr_rrs_def srv_rrs_def srv_rdata_def a_rrs_def aaaa_rrs_def txt_rrs_def
      txt_rr_def service_rr_def ttl_for_def is_unique_def split: list.split)

end
