(* ===== verification/Resolved_Service.thy ===== *)
theory Resolved_Service
  imports Dns_Response
begin

text \<open>
  \<open>resolved_service.h\<close>: correlation of a flat sequence of records into service instances
  (PTR to SRV to TXT to A and AAAA), and \<open>service_type.h\<close>. The unordered maps are association lists;
  their iteration order, which the result exposes, is the insertion order here, and no property
  depends on it.
\<close>

section \<open>Resolved services\<close>

record network_interface =
  ni_name :: string
  ni_ipv4_address :: string
  ni_ipv6_address :: string
  ni_index :: u32
  ni_is_loopback :: bool
  ni_is_up :: bool

definition no_interface :: network_interface where
  "no_interface =
     \<lparr>ni_name = [], ni_ipv4_address = [], ni_ipv6_address = [], ni_index = 0, ni_is_loopback = False, ni_is_up = False\<rparr>"

record resolved_service =
  rs_instance_name :: dns_name
  rs_hostname :: dns_name
  rs_port :: u16
  rs_txt_entries :: "service_txt list"
  rs_ipv4_addresses :: "string list"
  rs_ipv6_addresses :: "string list"
  rs_ttl_remaining :: int
  rs_wire_ttl :: u32
  rs_source_interface :: network_interface

definition new_service :: "dns_name \<Rightarrow> resolved_service" where
  "new_service n =
     \<lparr>rs_instance_name = n, rs_hostname = empty_name, rs_port = 0, rs_txt_entries = [], rs_ipv4_addresses = [],
      rs_ipv6_addresses = [], rs_ttl_remaining = 0, rs_wire_ttl = 0, rs_source_interface = no_interface\<rparr>"

type_synonym svc_map = "(dns_name \<times> resolved_service) list"
type_synonym host_map = "(dns_name \<times> dns_name list) list"

text \<open>Modify the value of a key in place.\<close>

definition upd_entry :: "'k \<Rightarrow> ('v \<Rightarrow> 'v) \<Rightarrow> ('k \<times> 'v) list \<Rightarrow> ('k \<times> 'v) list" where
  "upd_entry k f xs = map (\<lambda>(k', v). if k' = k then (k', f v) else (k', v)) xs"

fun replace_txt :: "service_txt \<Rightarrow> service_txt list \<Rightarrow> service_txt list" where
  "replace_txt e [] = [e]"
| "replace_txt e (x # xs) = (if txt_key x = txt_key e then e # xs else x # replace_txt e xs)"

definition merge_txt :: "service_txt list \<Rightarrow> service_txt list \<Rightarrow> service_txt list" where
  "merge_txt entries new_entries = foldl (\<lambda>entries e. replace_txt e entries) entries new_entries"

definition add_address :: "string \<Rightarrow> string list \<Rightarrow> string list" where
  "add_address a addrs = (if a \<in> set addrs then addrs else addrs @ [a])"

definition add_host :: "dns_name \<Rightarrow> dns_name \<Rightarrow> host_map \<Rightarrow> host_map" where
  "add_host h n hosts =
     (if map_of hosts h = None then hosts @ [(h, [n])] else upd_entry h (\<lambda>l. l @ [n]) hosts)"

section \<open>Aggregation\<close>

fun pass1 :: "svc_map \<times> host_map \<Rightarrow> mdns_record_variant \<Rightarrow> svc_map \<times> host_map" where
  "pass1 (svcs, hosts) (Rec_ptr r) =
     (if map_of svcs (ptr_name r) = None then (svcs @ [(ptr_name r, new_service (ptr_name r))], hosts) else (svcs, hosts))"
| "pass1 (svcs, hosts) (Rec_srv r) =
     (if map_of svcs (rec_name r) = None then (svcs, hosts)
      else
        (upd_entry (rec_name r) (\<lambda>s. s\<lparr>rs_hostname := srv_name r, rs_port := srv_port r\<rparr>) svcs,
         add_host (srv_name r) (rec_name r) hosts))"
| "pass1 (svcs, hosts) (Rec_txt r) =
     (upd_entry (rec_name r) (\<lambda>s. s\<lparr>rs_txt_entries := merge_txt (rs_txt_entries s) (txt_entries r)\<rparr>) svcs, hosts)"
| "pass1 (svcs, hosts) (Rec_a r) = (svcs, hosts)"
| "pass1 (svcs, hosts) (Rec_aaaa r) = (svcs, hosts)"

fun for_instances :: "(resolved_service \<Rightarrow> resolved_service) \<Rightarrow> dns_name list option \<Rightarrow> svc_map \<Rightarrow> svc_map" where
  "for_instances f None svcs = svcs"
| "for_instances f (Some insts) svcs = foldl (\<lambda>svcs i. upd_entry i f svcs) svcs insts"

fun pass2 :: "host_map \<Rightarrow> svc_map \<Rightarrow> mdns_record_variant \<Rightarrow> svc_map" where
  "pass2 hosts svcs (Rec_a r) =
     for_instances (\<lambda>s. s\<lparr>rs_ipv4_addresses := add_address (a_address_string r) (rs_ipv4_addresses s)\<rparr>)
       (map_of hosts (rec_name r)) svcs"
| "pass2 hosts svcs (Rec_aaaa r) =
     for_instances (\<lambda>s. s\<lparr>rs_ipv6_addresses := add_address (aaaa_address_string r) (rs_ipv6_addresses s)\<rparr>)
       (map_of hosts (rec_name r)) svcs"
| "pass2 hosts svcs _ = svcs"

definition aggregate :: "mdns_record_variant list \<Rightarrow> resolved_service list" where
  "aggregate records =
     (let (svcs, hosts) = foldl pass1 ([], []) records;
          svcs = foldl (pass2 hosts) svcs records
      in map snd svcs)"

section \<open>Service types\<close>

record service_type_info =
  sti_service_type :: string
  sti_type_name :: string
  sti_protocol :: string
  sti_domain :: string

definition parse_service_type :: "string \<Rightarrow> service_type_info" where
  "parse_service_type name =
     (let name = (if name \<noteq> [] \<and> last name = CHR ''.'' then butlast name else name);
          info = \<lparr>sti_service_type = name, sti_type_name = [], sti_protocol = [], sti_domain = []\<rparr>
      in case sv_find name CHR ''.'' 0 of
           None \<Rightarrow> info
         | Some first_dot \<Rightarrow>
             (let info = info\<lparr>sti_type_name := take first_dot name\<rparr>
              in case sv_find name CHR ''.'' (first_dot + 1) of
                   None \<Rightarrow> info\<lparr>sti_protocol := drop (first_dot + 1) name\<rparr>
                 | Some second_dot \<Rightarrow>
                     info\<lparr>sti_protocol := take (second_dot - first_dot - 1) (drop (first_dot + 1) name),
                       sti_domain := drop (second_dot + 1) name\<rparr>))"

section \<open>The reference\<close>

text \<open>The records that count for an instance: those behind its first PTR record.\<close>

fun seeds :: "dns_name \<Rightarrow> mdns_record_variant \<Rightarrow> bool" where
  "seeds n (Rec_ptr r) \<longleftrightarrow> ptr_name r = n"
| "seeds n _ \<longleftrightarrow> False"

definition seeded :: "dns_name \<Rightarrow> mdns_record_variant list \<Rightarrow> bool" where
  "seeded n recs \<longleftrightarrow> list_ex (seeds n) recs"

definition after_seed :: "dns_name \<Rightarrow> mdns_record_variant list \<Rightarrow> mdns_record_variant list" where
  "after_seed n recs = dropWhile (\<lambda>r. \<not> seeds n r) recs"

fun srv_of :: "dns_name \<Rightarrow> mdns_record_variant \<Rightarrow> record_srv list" where
  "srv_of n (Rec_srv r) = (if rec_name r = n then [r] else [])"
| "srv_of n _ = []"

fun txt_of :: "dns_name \<Rightarrow> mdns_record_variant \<Rightarrow> service_txt list" where
  "txt_of n (Rec_txt r) = (if rec_name r = n then txt_entries r else [])"
| "txt_of n _ = []"

fun ipv4_of :: "dns_name set \<Rightarrow> mdns_record_variant \<Rightarrow> string list" where
  "ipv4_of hs (Rec_a r) = (if rec_name r \<in> hs then [a_address_string r] else [])"
| "ipv4_of hs _ = []"

fun ipv6_of :: "dns_name set \<Rightarrow> mdns_record_variant \<Rightarrow> string list" where
  "ipv6_of hs (Rec_aaaa r) = (if rec_name r \<in> hs then [aaaa_address_string r] else [])"
| "ipv6_of hs _ = []"

definition srvs :: "dns_name \<Rightarrow> mdns_record_variant list \<Rightarrow> record_srv list" where
  "srvs n recs = concat (map (srv_of n) (after_seed n recs))"

definition hosts_of :: "dns_name \<Rightarrow> mdns_record_variant list \<Rightarrow> dns_name set" where
  "hosts_of n recs = srv_name ` set (srvs n recs)"

definition uniq :: "string list \<Rightarrow> string list" where
  "uniq xs = foldl (\<lambda>acc x. add_address x acc) [] xs"

definition service_core :: "dns_name \<Rightarrow> mdns_record_variant list \<Rightarrow> resolved_service" where
  "service_core n recs = (new_service n)
     \<lparr>rs_hostname := (if srvs n recs = [] then empty_name else srv_name (last (srvs n recs))),
      rs_port := (if srvs n recs = [] then 0 else srv_port (last (srvs n recs))),
      rs_txt_entries := merge_txt [] (concat (map (txt_of n) (after_seed n recs)))\<rparr>"

definition service_for :: "dns_name \<Rightarrow> mdns_record_variant list \<Rightarrow> resolved_service" where
  "service_for n recs = (service_core n recs)
     \<lparr>rs_ipv4_addresses := uniq (concat (map (ipv4_of (hosts_of n recs)) recs)),
      rs_ipv6_addresses := uniq (concat (map (ipv6_of (hosts_of n recs)) recs))\<rparr>"

section \<open>Maps\<close>

lemma map_fst_upd [simp]: "map fst (upd_entry k f xs) = map fst xs"
  by (auto simp: upd_entry_def)

lemma map_of_upd: "map_of (upd_entry k f xs) n = (if n = k then map_option f (map_of xs k) else map_of xs n)"
  by (induction xs) (auto simp: upd_entry_def)

lemma merge_txt_append: "merge_txt es (xs @ ys) = merge_txt (merge_txt es xs) ys"
  by (simp add: merge_txt_def)

lemma uniq_snoc: "uniq (xs @ [x]) = add_address x (uniq xs)"
  by (simp add: uniq_def)

lemma add_address_idem [simp]: "add_address a (add_address a xs) = add_address a xs"
  by (simp add: add_address_def)

lemma after_seed_snoc:
  "after_seed n (recs @ [r]) = (if seeded n recs then after_seed n recs @ [r] else if seeds n r then [r] else [])"
  by (auto simp: after_seed_def seeded_def list_ex_iff dropWhile_append)

lemma seeded_snoc: "seeded n (recs @ [r]) \<longleftrightarrow> seeded n recs \<or> seeds n r"
  by (auto simp: seeded_def)

lemma after_seed_unseeded: "\<not> seeded n recs \<Longrightarrow> after_seed n recs = []"
  by (simp add: after_seed_def seeded_def list_ex_iff)

section \<open>First pass\<close>

definition instances_at :: "dns_name \<Rightarrow> host_map \<Rightarrow> dns_name set" where
  "instances_at h hosts = (case map_of hosts h of None \<Rightarrow> {} | Some l \<Rightarrow> set l)"

lemma instances_at_add:
  "instances_at k (add_host h n hosts) = (if k = h then insert n (instances_at h hosts) else instances_at k hosts)"
  by (auto simp: instances_at_def add_host_def map_of_upd map_add_def split: option.splits)

definition pass1_ok :: "mdns_record_variant list \<Rightarrow> svc_map \<times> host_map \<Rightarrow> bool" where
  "pass1_ok recs st \<longleftrightarrow>
     distinct (map fst (fst st)) \<and>
     (\<forall>n. map_of (fst st) n = (if seeded n recs then Some (service_core n recs) else None)) \<and>
     (\<forall>h. instances_at h (snd st) = {n. h \<in> hosts_of n recs})"

lemma service_core_cong:
  "srvs n recs = srvs n recs' \<Longrightarrow> map (txt_of n) (after_seed n recs) = map (txt_of n) (after_seed n recs') \<Longrightarrow>
     service_core n recs = service_core n recs'"
  by (simp add: service_core_def)

lemma srvs_snoc: "srvs n (recs @ [r]) = (if seeded n recs then srvs n recs @ srv_of n r else [])"
proof (cases "seeded n recs")
  case False
  then show ?thesis by (cases r) (auto simp: srvs_def after_seed_snoc)
qed (simp add: srvs_def after_seed_snoc)

lemma srvs_unseeded: "\<not> seeded n recs \<Longrightarrow> srvs n recs = []"
  by (simp add: srvs_def after_seed_unseeded)

lemma service_core_snoc:
  assumes "seeded n recs"
  shows "service_core n (recs @ [r]) = (service_core n recs)
    \<lparr>rs_hostname := (if srv_of n r = [] then rs_hostname (service_core n recs) else srv_name (last (srv_of n r))),
     rs_port := (if srv_of n r = [] then rs_port (service_core n recs) else srv_port (last (srv_of n r))),
     rs_txt_entries := merge_txt (rs_txt_entries (service_core n recs)) (txt_of n r)\<rparr>"
  using assms by (simp add: service_core_def srvs_snoc after_seed_snoc merge_txt_append)

lemma service_core_seed: "\<not> seeded n recs \<Longrightarrow> seeds n r \<Longrightarrow> service_core n (recs @ [r]) = new_service n"
  by (cases r) (simp_all add: service_core_def srvs_snoc after_seed_snoc merge_txt_def new_service_def)

lemma pass1_step:
  assumes "pass1_ok recs st"
  shows "pass1_ok (recs @ [r]) (pass1 st r)"
proof -
  obtain svcs hosts where st: "st = (svcs, hosts)" by fastforce
  have d: "distinct (map fst svcs)"
    and m: "map_of svcs n = (if seeded n recs then Some (service_core n recs) else None)"
    and h: "instances_at k hosts = {n. k \<in> hosts_of n recs}" for n k
    using assms by (auto simp: pass1_ok_def st)
  have same: "seeded n (recs @ [r]) = seeded n recs" "seeded n recs \<Longrightarrow> service_core n (recs @ [r]) = service_core n recs"
    if "\<not> seeds n r" "srv_of n r = []" "txt_of n r = []" for n
    using that by (simp_all add: seeded_snoc service_core_snoc merge_txt_def)
  have hsame: "hosts_of n (recs @ [r]) = hosts_of n recs" if "srv_of n r = [] \<or> \<not> seeded n recs" for n
    using that by (cases "seeded n recs") (auto simp: hosts_of_def srvs_snoc srvs_unseeded)
  show ?thesis
  proof (cases r)
    case (Rec_ptr p)
    have "srv_of n r = []" "txt_of n r = []" for n by (simp_all add: Rec_ptr)
    moreover have "n \<notin> fst ` set svcs" if "\<not> seeded n recs" for n
      using m [of n] that by (simp add: map_of_eq_None_iff)
    ultimately show ?thesis
      using d m h hsame service_core_seed [of _ recs r]
      by (auto simp: pass1_ok_def st Rec_ptr map_add_def seeded_snoc service_core_snoc merge_txt_def split: option.splits)
  next
    case (Rec_srv s)
    have ns: "\<not> seeds n r" "txt_of n r = []" for n by (simp_all add: Rec_srv)
    show ?thesis
    proof (cases "seeded (rec_name s) recs")
      case True
      have hosts': "hosts_of n (recs @ [r]) = (if n = rec_name s then insert (srv_name s) (hosts_of n recs) else hosts_of n recs)" for n
        using True by (cases "seeded n recs") (auto simp: hosts_of_def srvs_snoc Rec_srv srvs_unseeded)
      show ?thesis
        using True d m h ns
        by (auto simp: pass1_ok_def st Rec_srv map_of_upd seeded_snoc service_core_snoc merge_txt_def instances_at_add
            hosts' [unfolded Rec_srv] split: if_splits)
    next
      case False
      then have none: "srv_of n r = [] \<or> \<not> seeded n recs" for n by (auto simp: Rec_srv)
      have core: "service_core n (recs @ [r]) = service_core n recs" if "seeded n recs" for n
        using same(2) [of n] that ns none by blast
      show ?thesis
        using False d m h core hsame [OF none] by (auto simp: pass1_ok_def st Rec_srv seeded_snoc)
    qed
  next
    case (Rec_txt t)
    have "\<not> seeds n r" "srv_of n r = []" for n by (simp_all add: Rec_txt)
    with d m h hsame show ?thesis
      by (auto simp: pass1_ok_def st Rec_txt map_of_upd seeded_snoc service_core_snoc merge_txt_def)
  qed (use d m h same hsame in \<open>auto simp: pass1_ok_def st\<close>)
qed

lemma pass1_fold: "pass1_ok recs (foldl pass1 ([], []) recs)"
proof (induction recs rule: rev_induct)
  case Nil
  show ?case by (simp add: pass1_ok_def seeded_def instances_at_def hosts_of_def srvs_def after_seed_def)
qed (simp add: pass1_step)

section \<open>Second pass\<close>

lemma keys_for_instances [simp]: "map fst (for_instances f insts svcs) = map fst svcs"
proof (cases insts)
  case (Some l)
  have "map fst (foldl (\<lambda>svcs i. upd_entry i f svcs) svcs l) = map fst svcs" by (induction l arbitrary: svcs) auto
  with Some show ?thesis by simp
qed simp

lemma map_of_upd_all:
  assumes "\<And>s. f (f s) = f s"
  shows "map_of (foldl (\<lambda>svcs i. upd_entry i f svcs) svcs l) n = (if n \<in> set l then map_option f (map_of svcs n) else map_of svcs n)"
  by (induction l arbitrary: svcs) (auto simp: map_of_upd option.map_comp o_def assms)

lemma map_of_for_instances:
  assumes "\<And>s. f (f s) = f s"
  shows "map_of (for_instances f (map_of hosts h) svcs) n =
    (if n \<in> instances_at h hosts then map_option f (map_of svcs n) else map_of svcs n)"
  using assms by (cases "map_of hosts h") (auto simp: instances_at_def map_of_upd_all)

definition with_addresses :: "dns_name set \<Rightarrow> mdns_record_variant list \<Rightarrow> resolved_service \<Rightarrow> resolved_service" where
  "with_addresses hs recs s = s
     \<lparr>rs_ipv4_addresses := uniq (concat (map (ipv4_of hs) recs)), rs_ipv6_addresses := uniq (concat (map (ipv6_of hs) recs))\<rparr>"

lemma pass2_keys [simp]: "map fst (pass2 hosts svcs r) = map fst svcs"
  by (cases r) simp_all

lemma pass2_fold:
  assumes inst: "\<And>h n. n \<in> instances_at h hosts \<longleftrightarrow> h \<in> hs n"
    and new: "\<And>n s. map_of svcs n = Some s \<Longrightarrow> rs_ipv4_addresses s = [] \<and> rs_ipv6_addresses s = []"
  shows "map fst (foldl (pass2 hosts) svcs recs) = map fst svcs \<and>
    map_of (foldl (pass2 hosts) svcs recs) n = map_option (with_addresses (hs n) recs) (map_of svcs n)"
proof (induction recs rule: rev_induct)
  case Nil
  show ?case using new by (cases "map_of svcs n") (auto simp: with_addresses_def uniq_def)
next
  case (snoc r recs)
  then show ?case
    by (cases r) (auto simp: map_of_for_instances inst with_addresses_def uniq_snoc option.map_comp o_def
        intro!: option.map_cong0)
qed

lemma service_core_fresh: "rs_ipv4_addresses (service_core n recs) = []" "rs_ipv6_addresses (service_core n recs) = []"
  "rs_instance_name (service_core n recs) = n"
  by (simp_all add: service_core_def new_service_def)

lemma aggregate_map:
  "\<exists>svcs. aggregate recs = map snd svcs \<and> distinct (map fst svcs) \<and>
     (\<forall>n. map_of svcs n = (if seeded n recs then Some (service_for n recs) else None))"
proof -
  obtain svcs hosts where p: "foldl pass1 ([], []) recs = (svcs, hosts)" by fastforce
  have ok: "pass1_ok recs (svcs, hosts)" using pass1_fold [of recs] p by simp
  let ?svcs = "foldl (pass2 hosts) svcs recs"
  have "map fst ?svcs = map fst svcs \<and>
      map_of ?svcs n = map_option (with_addresses (hosts_of n recs) recs) (map_of svcs n)" for n
    using ok by (intro pass2_fold [where hs = "\<lambda>n. hosts_of n recs"])
      (auto simp: pass1_ok_def service_core_fresh split: if_splits)
  then have "distinct (map fst ?svcs)" "map_of ?svcs n = (if seeded n recs then Some (service_for n recs) else None)" for n
    using ok by (auto simp: pass1_ok_def service_for_def with_addresses_def)
  then show ?thesis using p by (auto simp: aggregate_def intro!: exI [of _ ?svcs])
qed

section \<open>Properties\<close>

text \<open>
  C14: Aggregation. The result has exactly one service for every instance that a PTR record names, and
  that service has the host and port of the last SRV record, the TXT entries (the latest value of
  every key) of the records behind the first PTR record of the instance, and the distinct addresses
  of all A and AAAA records of the hosts that those SRV records name, wherever they stand.
\<close>

theorem aggregate_correct:
  "distinct (map rs_instance_name (aggregate recs)) \<and>
   set (aggregate recs) = {service_for n recs |n. seeded n recs}"
proof -
  obtain svcs where a: "aggregate recs = map snd svcs" and d: "distinct (map fst svcs)"
    and m: "\<And>n. map_of svcs n = (if seeded n recs then Some (service_for n recs) else None)"
    using aggregate_map by blast
  have e: "(n, s) \<in> set svcs \<longleftrightarrow> seeded n recs \<and> s = service_for n recs" for n s
    unfolding map_of_eq_Some_iff [OF d, symmetric] m by auto
  have name: "rs_instance_name (service_for n recs) = n" for n by (simp add: service_for_def service_core_fresh)
  have "rs_instance_name (snd x) = fst x" if "x \<in> set svcs" for x
    using that e [of "fst x" "snd x"] name by simp
  then have names: "map rs_instance_name (aggregate recs) = map fst svcs" by (simp add: a)
  have "set svcs = (\<lambda>n. (n, service_for n recs)) ` {n. seeded n recs}" using e by auto
  then have "snd ` set svcs = {service_for n recs |n. seeded n recs}" by (auto simp: image_image)
  then have "set (aggregate recs) = {service_for n recs |n. seeded n recs}" by (simp add: a)
  with names d show ?thesis by (simp only: simp_thms)
qed

text \<open>The addresses that a service announces, as text.\<close>

definition ipv4_announced :: "service_info \<Rightarrow> string list" where
  "ipv4_announced info = (case encode_rdata_a info of [b0, b1, b2, b3] \<Rightarrow> [ipv4_text b0 b1 b2 b3] | _ \<Rightarrow> [])"

definition ipv6_announced :: "(string \<Rightarrow> bytes option) \<Rightarrow> service_info \<Rightarrow> string list" where
  "ipv6_announced p6 info =
     (if encode_rdata_aaaa p6 info = [] then []
      else (case ip_address_to_string (Sockaddr_in6 (encode_rdata_aaaa p6 info) 0) of None \<Rightarrow> [] | Some t \<Rightarrow> [t]))"

definition announced_service :: "(string \<Rightarrow> bytes option) \<Rightarrow> service_info \<Rightarrow> resolved_service" where
  "announced_service p6 info = (new_service (service_name info))
     \<lparr>rs_hostname := hostname info, rs_port := info_port info,
      rs_txt_entries := merge_txt [] (filter txt_kept (txt_records info)),
      rs_ipv4_addresses := ipv4_announced info, rs_ipv6_addresses := ipv6_announced p6 info\<rparr>"

lemma map_filter_append: "List.map_filter f (xs @ ys) = List.map_filter f xs @ List.map_filter f ys"
  by (simp add: List.map_filter_def)

lemma single_key:
  assumes "distinct (map fst xs)" and "\<And>k. map_of xs k = (if k = n then Some v else None)"
  shows "xs = [(n, v)]"
proof -
  have "set xs = {(n, v)}"
  proof (rule set_eqI)
    fix x
    show "x \<in> set xs \<longleftrightarrow> x \<in> {(n, v)}"
      by (cases x) (auto simp: map_of_eq_Some_iff [OF assms(1), symmetric] assms(2) split: if_splits)
  qed
  moreover have "distinct xs" using assms(1) by (simp add: distinct_map)
  ultimately show ?thesis by (metis distinct_card card_1_singleton_iff card.empty card.insert empty_iff finite.emptyI
      length_0_conv length_Suc_conv list.set(1) list.simps(15) singletonI singleton_insert_inj_eq One_nat_def)
qed

lemma aggregate_single:
  assumes "\<And>k. seeded k recs \<longleftrightarrow> k = n"
  shows "aggregate recs = [service_for n recs]"
proof -
  obtain svcs where "aggregate recs = map snd svcs" "distinct (map fst svcs)"
    "\<And>k. map_of svcs k = (if k = n then Some (service_for n recs) else None)"
    using aggregate_map [of recs] assms by auto
  then show ?thesis using single_key [of svcs n] by simp
qed

text \<open>The records of a response to a PTR query.\<close>

lemma aggregate_response:
  assumes "ptr_name p = n" and "rec_name v = n" and "srv_name v = h"
    and "\<And>x. x \<in> set as \<Longrightarrow> rec_name x = h" and "\<And>x. x \<in> set bs \<Longrightarrow> rec_name x = h" and "\<And>x. x \<in> set ts \<Longrightarrow> rec_name x = n"
  shows "aggregate (Rec_ptr p # Rec_srv v # map Rec_a as @ map Rec_aaaa bs @ map Rec_txt ts) =
    [(new_service n)\<lparr>rs_hostname := h, rs_port := srv_port v, rs_txt_entries := merge_txt [] (concat (map txt_entries ts)),
      rs_ipv4_addresses := uniq (map a_address_string as), rs_ipv6_addresses := uniq (map aaaa_address_string bs)\<rparr>]"
proof -
  let ?recs = "Rec_ptr p # Rec_srv v # map Rec_a as @ map Rec_aaaa bs @ map Rec_txt ts"
  have none: "concat (map (srv_of n) (map Rec_a as)) = []" "concat (map (srv_of n) (map Rec_aaaa bs)) = []"
    "concat (map (srv_of n) (map Rec_txt ts)) = []" "concat (map (txt_of n) (map Rec_a as)) = []"
    "concat (map (txt_of n) (map Rec_aaaa bs)) = []" "concat (map (ipv4_of H) (map Rec_aaaa bs)) = []"
    "concat (map (ipv4_of H) (map Rec_txt ts)) = []" "concat (map (ipv6_of H) (map Rec_a as)) = []"
    "concat (map (ipv6_of H) (map Rec_txt ts)) = []" for H by simp_all
  have some: "concat (map (txt_of n) (map Rec_txt ts)) = concat (map txt_entries ts)"
    "concat (map (ipv4_of {h}) (map Rec_a as)) = map a_address_string as"
    "concat (map (ipv6_of {h}) (map Rec_aaaa bs)) = map aaaa_address_string bs"
    using assms(4-6) by (induction ts, auto) (induction as, auto, induction bs, auto)
  have after: "after_seed n ?recs = ?recs" using assms(1) by (simp add: after_seed_def)
  have srvs: "srvs n ?recs = [v]"
    unfolding srvs_def after using assms(2) none by (simp del: map_map)
  have "seeded k ?recs \<longleftrightarrow> k = n" for k
    using assms(1) by (auto simp: seeded_def list_ex_iff)
  then have "aggregate ?recs = [service_for n ?recs]" by (rule aggregate_single)
  moreover have "hosts_of n ?recs = {h}" using assms(3) by (simp add: hosts_of_def srvs)
  moreover have "concat (map (txt_of n) ?recs) = concat (map txt_entries ts)" using none some by (simp del: map_map)
  ultimately show ?thesis
    using none some assms(3) by (simp add: service_for_def service_core_def srvs after del: map_map)
qed

lemma decoded_a:
  "\<exists>as. List.map_filter (rr_decoded sender) (a_rrs info opts cap) = map Rec_a as \<and>
    (\<forall>x \<in> set as. rec_name x = hostname info) \<and> map a_address_string as = ipv4_announced info"
proof (cases "encode_rdata_a info = []")
  case True
  then show ?thesis by (simp add: a_rrs_def ipv4_announced_def map_filter_simps)
next
  case False
  then have "length (encode_rdata_a info) = 4" using encode_rdata_a_length [of info] by auto
  then obtain b0 b1 b2 b3 where "encode_rdata_a info = [b0, b1, b2, b3]" by (auto simp: length_Suc_conv numeral_eq_Suc)
  then show ?thesis
    by (intro exI [of _ "[record_base.extend (rr_base sender (service_rr (str (hostname info)) cap (a_ttl opts) (RD_a b0 b1 b2 b3)))
        \<lparr>a_address_string = ipv4_text b0 b1 b2 b3\<rparr>]"])
      (simp add: a_rrs_def ipv4_announced_def map_filter_simps rr_decoded_def service_rr_def rr_base_def record_base.defs)
qed

lemma decoded_aaaa:
  "\<exists>bs. List.map_filter (rr_decoded sender) (aaaa_rrs p6 info opts cap) = map Rec_aaaa bs \<and>
    (\<forall>x \<in> set bs. rec_name x = hostname info) \<and> map aaaa_address_string bs = ipv6_announced p6 info"
proof (cases "encode_rdata_aaaa p6 info = [] \<or> ip_address_to_string (Sockaddr_in6 (encode_rdata_aaaa p6 info) 0) = None")
  case True
  then show ?thesis
    by (auto simp: aaaa_rrs_def ipv6_announced_def map_filter_simps rr_decoded_def service_rr_def)
next
  case False
  then obtain t where "encode_rdata_aaaa p6 info \<noteq> []" "ip_address_to_string (Sockaddr_in6 (encode_rdata_aaaa p6 info) 0) = Some t"
    by blast
  then show ?thesis
    by (intro exI [of _ "[record_base.extend (rr_base sender (service_rr (str (hostname info)) cap (aaaa_ttl opts)
        (RD_aaaa (encode_rdata_aaaa p6 info)))) \<lparr>aaaa_address_string = t\<rparr>]"])
      (simp add: aaaa_rrs_def ipv6_announced_def map_filter_simps rr_decoded_def service_rr_def rr_base_def record_base.defs)
qed

lemma decoded_txt:
  "\<exists>ts. List.map_filter (rr_decoded sender) (txt_rrs info opts cap) = map Rec_txt ts \<and>
    (\<forall>x \<in> set ts. rec_name x = service_name info) \<and> concat (map txt_entries ts) = filter txt_kept (txt_records info)"
proof (cases "encode_txt_records (txt_records info) = []")
  case True
  then have "\<not> txt_kept e" if "e \<in> set (txt_records info)" for e
    using that by (fastforce simp: encode_txt_records_eq txt_entry_bytes_def txt_kept_def)
  then have "filter txt_kept (txt_records info) = []" by (simp add: filter_empty_conv)
  with True show ?thesis by (simp add: txt_rrs_def map_filter_simps)
next
  case False
  then show ?thesis
    by (intro exI [of _ "[record_base.extend (rr_base sender (txt_rr info opts cap))
        \<lparr>txt_entries = filter txt_kept (txt_records info)\<rparr>]"])
      (simp add: txt_rrs_def map_filter_simps rr_decoded_def txt_rr_def service_rr_def rr_base_def record_base.defs)
qed

lemma uniq_short: "length xs \<le> 1 \<Longrightarrow> uniq xs = xs"
  by (cases xs) (auto simp: uniq_def add_address_def)

lemma uniq_announced: "uniq (ipv4_announced info) = ipv4_announced info" "uniq (ipv6_announced p6 info) = ipv6_announced p6 info"
  by (intro uniq_short; auto simp: ipv4_announced_def ipv6_announced_def split: list.split option.split)+

text \<open>The records of an answer to a PTR question, as a receiver decodes them.\<close>

lemma ptr_records:
  assumes "response_sections p6 info Type_ptr opts cap = (an, ar)"
  obtains p v as bs ts where
    "List.map_filter (rr_decoded sender) (an @ ar) = Rec_ptr p # Rec_srv v # map Rec_a as @ map Rec_aaaa bs @ map Rec_txt ts"
    "rec_name p = service_type info" "ptr_name p = service_name info"
    "rec_name v = service_name info" "srv_name v = hostname info" "srv_port v = info_port info"
    "\<And>x. x \<in> set as \<Longrightarrow> rec_name x = hostname info" "map a_address_string as = ipv4_announced info"
    "\<And>x. x \<in> set bs \<Longrightarrow> rec_name x = hostname info" "map aaaa_address_string bs = ipv6_announced p6 info"
    "\<And>x. x \<in> set ts \<Longrightarrow> rec_name x = service_name info" "concat (map txt_entries ts) = filter txt_kept (txt_records info)"
    "rec_ttl v = rr_ttl (hd (srv_rrs info opts cap))"
proof -
  obtain as where as: "List.map_filter (rr_decoded sender) (a_rrs info opts cap) = map Rec_a as"
    "\<And>x. x \<in> set as \<Longrightarrow> rec_name x = hostname info" "map a_address_string as = ipv4_announced info"
    using decoded_a by blast
  obtain bs where bs: "List.map_filter (rr_decoded sender) (aaaa_rrs p6 info opts cap) = map Rec_aaaa bs"
    "\<And>x. x \<in> set bs \<Longrightarrow> rec_name x = hostname info" "map aaaa_address_string bs = ipv6_announced p6 info"
    using decoded_aaaa by blast
  obtain ts where ts: "List.map_filter (rr_decoded sender) (txt_rrs info opts cap) = map Rec_txt ts"
    "\<And>x. x \<in> set ts \<Longrightarrow> rec_name x = service_name info" "concat (map txt_entries ts) = filter txt_kept (txt_records info)"
    using decoded_txt by blast
  let ?p = "record_base.extend (rr_base sender (hd (ptr_rrs info opts cap))) \<lparr>ptr_name = service_name info\<rparr>"
  let ?v = "record_base.extend (rr_base sender (hd (srv_rrs info opts cap)))
    \<lparr>srv_port = info_port info, srv_weight = info_weight info, srv_priority = info_priority info, srv_name = hostname info\<rparr>"
  have "List.map_filter (rr_decoded sender) (ptr_rrs info opts cap @ srv_rrs info opts cap @ a_rrs info opts cap
        @ aaaa_rrs p6 info opts cap @ txt_rrs info opts cap)
      = Rec_ptr ?p # Rec_srv ?v # map Rec_a as @ map Rec_aaaa bs @ map Rec_txt ts"
    unfolding map_filter_append as(1) bs(1) ts(1)
    by (simp add: map_filter_simps ptr_rrs_def srv_rrs_def srv_rdata_def rr_decoded_def service_rr_def)
  then have "List.map_filter (rr_decoded sender) (an @ ar) = Rec_ptr ?p # Rec_srv ?v # map Rec_a as @ map Rec_aaaa bs @ map Rec_txt ts"
    using assms by (auto simp: response_sections_def Let_def)
  then show ?thesis
    by (rule that) (use as(2,3) bs(2,3) ts(2,3) in \<open>auto simp: record_base.defs rr_base_def ptr_rrs_def srv_rrs_def service_rr_def\<close>)
qed

lemma ptr_answer:
  assumes "response_sections p6 info Type_ptr opts cap = (an, ar)"
  shows "aggregate (List.map_filter (rr_decoded sender) (an @ ar)) = [announced_service p6 info] \<and>
    list_ex (\<lambda>r. variant_name r = service_type info) (List.map_filter (rr_decoded sender) (an @ ar))"
proof -
  obtain p v as bs ts where recs:
    "List.map_filter (rr_decoded sender) (an @ ar) = Rec_ptr p # Rec_srv v # map Rec_a as @ map Rec_aaaa bs @ map Rec_txt ts"
    "rec_name p = service_type info" "ptr_name p = service_name info"
    "rec_name v = service_name info" "srv_name v = hostname info" "srv_port v = info_port info"
    "\<And>x. x \<in> set as \<Longrightarrow> rec_name x = hostname info" "map a_address_string as = ipv4_announced info"
    "\<And>x. x \<in> set bs \<Longrightarrow> rec_name x = hostname info" "map aaaa_address_string bs = ipv6_announced p6 info"
    "\<And>x. x \<in> set ts \<Longrightarrow> rec_name x = service_name info" "concat (map txt_entries ts) = filter txt_kept (txt_records info)"
    "rec_ttl v = rr_ttl (hd (srv_rrs info opts cap))"
    by (rule ptr_records [OF assms, of sender]) (rule that, assumption+)
  have "aggregate (Rec_ptr p # Rec_srv v # map Rec_a as @ map Rec_aaaa bs @ map Rec_txt ts) = [announced_service p6 info]"
    using recs(3-12) by (subst aggregate_response [of _ "service_name info" _ "hostname info"])
      (simp_all add: announced_service_def uniq_announced)
  with recs(1,2) show ?thesis by (simp add: variant_name_def)
qed

text \<open>
  Browsing finds the advertised service. Whatever a responder answers to a PTR query for its
  service type, the querier that decodes the packet and aggregates the records gets exactly one
  service, with the instance name, host, port, TXT entries and addresses that were advertised.
\<close>

lemma browse_finds_service:
  assumes "announceable info" and "inet_pton_width 16 p6"
  shows "map_option aggregate (walk_dns_frame (build_dns_response p6 info Type_ptr opts cap) sender)
    = Some [announced_service p6 info]"
proof -
  obtain an ar where secs: "response_sections p6 info Type_ptr opts cap = (an, ar)" by fastforce
  with walk_response [OF assms, of Type_ptr opts cap sender] ptr_answer [OF secs, of sender] show ?thesis by simp
qed

lemma browse_finds_service_example:
  "map_option aggregate (walk_dns_frame (build_dns_response (\<lambda>_. None) example_info Type_ptr default_service_options 0xFFFFFFFF)
     no_endpoint) = Some [announced_service (\<lambda>_. None) example_info]"
  by (rule browse_finds_service [OF example_announceable]) (simp add: inet_pton_width_def)

end
