(* ===== verification/Timer.thy ===== *)
theory Timer
  imports Main
begin

text \<open>
  \<open>inproc/inproc_timer.h\<close>: the timer of the in-process policy, and the contract that the peers of
  the library rely on (concept \<open>TimerLike\<close> of \<open>policy.h\<close>). A handler is a value of an arbitrary
  type \<open>'w\<close>, the wait that it stands for; an operation that calls a handler returns it. A time point
  is a number of nanoseconds, a delay a number of milliseconds.
\<close>

section \<open>The timer\<close>

record 'w inproc_timer =
  t_expiry :: int
  t_handler :: "'w option"
  t_active :: bool
  t_cancel_count :: int

definition new_timer :: "'w inproc_timer" where
  "new_timer = \<lparr>t_expiry = 0, t_handler = None, t_active = False, t_cancel_count = 0\<rparr>"

text \<open>The second component is the handler that is called with \<open>operation_canceled\<close>.\<close>

definition expires_after :: "int \<Rightarrow> int \<Rightarrow> 'w inproc_timer \<Rightarrow> 'w inproc_timer \<times> 'w option" where
  "expires_after now d t =
     (let t = t\<lparr>t_expiry := now + d * 1000000\<rparr>;
          h = t_handler t;
          t = t\<lparr>t_handler := None\<rparr>
      in (t\<lparr>t_active := True\<rparr>, h))"

definition async_wait :: "'w \<Rightarrow> 'w inproc_timer \<Rightarrow> 'w inproc_timer" where
  "async_wait handler t = t\<lparr>t_handler := Some handler\<rparr>"

definition cancel :: "'w inproc_timer \<Rightarrow> 'w inproc_timer \<times> 'w option" where
  "cancel t =
     (let t = t\<lparr>t_cancel_count := t_cancel_count t + 1, t_active := False\<rparr>;
          h = t_handler t
      in (t\<lparr>t_handler := None\<rparr>, h))"

text \<open>The second component is the handler that is called with success; \<open>None\<close> is the result \<open>false\<close>.\<close>

definition try_fire :: "int \<Rightarrow> 'w inproc_timer \<Rightarrow> 'w inproc_timer \<times> 'w option" where
  "try_fire now t =
     (if \<not> t_active t \<or> t_handler t = None then (t, None)
      else if now < t_expiry t then (t, None)
      else
        (let t = t\<lparr>t_active := False\<rparr>; h = t_handler t
         in (t\<lparr>t_handler := None\<rparr>, h)))"

definition has_pending_wait :: "'w inproc_timer \<Rightarrow> bool" where
  "has_pending_wait t \<longleftrightarrow> t_handler t \<noteq> None"

text \<open>The idiom of all users: \<open>expires_after(d)\<close> followed by \<open>async_wait(handler)\<close>.\<close>

definition arm :: "int \<Rightarrow> int \<Rightarrow> 'w \<Rightarrow> 'w inproc_timer \<Rightarrow> 'w inproc_timer" where
  "arm now d handler t = async_wait handler (fst (expires_after now d t))"

section \<open>The contract\<close>

text \<open>
  A one-shot timer holds at most one wait. Arming it installs a wait and drops the previous one,
  cancelling drops it, and a wait that fires is taken out. \<open>due\<close> tells from which time on the
  pending wait may fire.
\<close>

locale one_shot_timer =
  fixes arm_op :: "int \<Rightarrow> int \<Rightarrow> 'w \<Rightarrow> 't \<Rightarrow> 't"
    and cancel_op :: "'t \<Rightarrow> 't"
    and fire_op :: "int \<Rightarrow> 't \<Rightarrow> 't \<times> 'w option"
    and pending :: "'t \<Rightarrow> 'w option"
    and due :: "'t \<Rightarrow> int"
  assumes pending_arm: "pending (arm_op now d h t) = Some h"
    and due_arm: "due (arm_op now d h t) = now + d * 1000000"
    and pending_cancel: "pending (cancel_op t) = None"
    and fire_some: "fire_op now t = (t', Some h) \<Longrightarrow> pending t = Some h \<and> due t \<le> now \<and> pending t' = None"
    and fire_none: "fire_op now t = (t', None) \<Longrightarrow> t' = t"
    and fire_armed: "now + d * 1000000 \<le> now' \<Longrightarrow> snd (fire_op now' (arm_op now d h t)) = Some h"
begin

lemma cancelled_never_fires: "snd (fire_op now (cancel_op t)) = None"
  by (metis option.exhaust option.simps(3) pending_cancel fire_some prod.collapse)

lemma fires_at_most_once: "fire_op now t = (t', Some h) \<Longrightarrow> snd (fire_op now' t') = None"
  by (metis option.exhaust option.simps(3) fire_some prod.collapse)

lemma rearming_displaces:
  assumes "fire_op now' (arm_op now d h t) = (t', Some h')"
  shows "h' = h"
  using fire_some [OF assms] pending_arm by simp

lemma not_early: "fire_op now' (arm_op now d h t) = (t', Some h') \<Longrightarrow> now + d * 1000000 \<le> now'"
  using fire_some due_arm by metis

end

interpretation inproc: one_shot_timer arm "\<lambda>t. fst (cancel t)" try_fire t_handler t_expiry
  by unfold_locales
    (auto simp: arm_def async_wait_def expires_after_def cancel_def try_fire_def Let_def split: if_splits)

lemmas timer_simps = inproc.pending_arm inproc.pending_cancel

section \<open>Properties\<close>

text \<open>
  The one-shot timer: a wait that is armed fires with its own handler and never before its delay
  has passed, arming again or cancelling displaces it, and after firing nothing is left to fire.
\<close>

lemma timer_one_shot:
  "(now + d * 1000000 \<le> now' \<longrightarrow> snd (try_fire now' (arm now d h t)) = Some h) \<and>
   (snd (try_fire now' (arm now d h t)) \<noteq> None \<longrightarrow> now + d * 1000000 \<le> now') \<and>
   (snd (try_fire now' (arm now d h t)) \<noteq> None \<longrightarrow> snd (try_fire now'' (fst (try_fire now' (arm now d h t)))) = None) \<and>
   snd (try_fire now' (fst (cancel t))) = None"
  using inproc.fire_armed [of now d now' h t] inproc.not_early [of now' now d h t]
    inproc.fires_at_most_once [of now' "arm now d h t"] inproc.cancelled_never_fires [of now' t]
  by (cases "try_fire now' (arm now d h t)") (auto split: option.splits)

lemma timer_one_shot_example:
  "snd (try_fire 5000000 (arm 0 5 ''probe'' new_timer)) = Some ''probe''"
  using timer_one_shot [of 0 5 5000000 "''probe''" new_timer 0] by simp

end
