(* ===== verification/Nic_Monitor.thy ===== *)
theory Nic_Monitor
  imports Resolved_Service Timer
begin

text \<open>
  \<open>basic_nic_monitor.h\<close> and the Linux part of \<open>detail/nic_monitor_backends.h\<close>: the detector of interface
  changes. The operating system enters through arguments: what \<open>enumerate_interfaces\<close> returned
  (\<open>None\<close> is an error code), whether the netlink socket could be opened and bound, and whether it had
  messages. The liveness token is a number that \<open>stop()\<close> replaces, so that a task posted
  under an older token is expired. Callbacks that are posted to the executor are values.
\<close>

section \<open>State\<close>

datatype nic_change = Nic_removed network_interface | Nic_added network_interface

record nic_monitor =
  nm_alive :: nat
  nm_timer :: "nat inproc_timer"
  nm_stopped :: bool
  nm_poll_interval :: int
  nm_on_added :: bool
  nm_on_removed :: bool
  nm_snapshot :: "network_interface list option"
  nm_nl_fd :: bool
  nm_nl_timer :: "nat inproc_timer"
  nm_posted :: "(nat \<times> nic_change) list"

definition new_nic_monitor :: "network_interface list option \<Rightarrow> int \<Rightarrow> nic_monitor" where
  "new_nic_monitor initial poll_interval =
     \<lparr>nm_alive = 0, nm_timer = new_timer, nm_stopped = True, nm_poll_interval = poll_interval, nm_on_added = False,
      nm_on_removed = False, nm_snapshot = initial, nm_nl_fd = False, nm_nl_timer = new_timer, nm_posted = []\<rparr>"

definition current :: "nic_monitor \<Rightarrow> network_interface list" where
  "current s = (case nm_snapshot s of Some snap \<Rightarrow> snap | None \<Rightarrow> [])"

section \<open>Differences\<close>

definition find_by_index :: "network_interface list \<Rightarrow> u32 \<Rightarrow> network_interface option" where
  "find_by_index vec idx = find (\<lambda>i. ni_index i = idx) vec"

definition nic_changed :: "network_interface \<Rightarrow> network_interface \<Rightarrow> bool" where
  "nic_changed new_iface old_iface \<longleftrightarrow>
     ni_is_up new_iface \<noteq> ni_is_up old_iface \<or> ni_ipv4_address new_iface \<noteq> ni_ipv4_address old_iface \<or>
     ni_ipv6_address new_iface \<noteq> ni_ipv6_address old_iface"

definition post_removed :: "network_interface \<Rightarrow> nic_monitor \<Rightarrow> nic_monitor" where
  "post_removed iface s =
     (if nm_on_removed s then s\<lparr>nm_posted := nm_posted s @ [(nm_alive s, Nic_removed iface)]\<rparr> else s)"

definition post_added :: "network_interface \<Rightarrow> nic_monitor \<Rightarrow> nic_monitor" where
  "post_added iface s =
     (if nm_on_added s then s\<lparr>nm_posted := nm_posted s @ [(nm_alive s, Nic_added iface)]\<rparr> else s)"

text \<open>The bodies of the two loops.\<close>

definition diff_old :: "network_interface list \<Rightarrow> network_interface \<Rightarrow> nic_monitor \<Rightarrow> nic_monitor" where
  "diff_old new_list old_iface s =
     (case find_by_index new_list (ni_index old_iface) of
        None \<Rightarrow> post_removed old_iface s
      | Some new_iface \<Rightarrow>
          if nic_changed new_iface old_iface then post_added new_iface (post_removed old_iface s) else s)"

definition diff_new :: "network_interface list \<Rightarrow> network_interface \<Rightarrow> nic_monitor \<Rightarrow> nic_monitor" where
  "diff_new old_list new_iface s =
     (if find_by_index old_list (ni_index new_iface) = None then post_added new_iface s else s)"

definition apply_diff :: "network_interface list \<Rightarrow> nic_monitor \<Rightarrow> nic_monitor" where
  "apply_diff new_list s =
     (let s = (case nm_snapshot s of
                 None \<Rightarrow> s
               | Some old \<Rightarrow> fold (diff_new old) new_list (fold (diff_old new_list) old s))
      in s\<lparr>nm_snapshot := Some new_list\<rparr>)"

definition apply_enumeration :: "network_interface list option \<Rightarrow> nic_monitor \<Rightarrow> nic_monitor" where
  "apply_enumeration interfaces s = (case interfaces of Some xs \<Rightarrow> apply_diff xs s | None \<Rightarrow> s)"

section \<open>Polling\<close>

definition schedule_poll :: "int \<Rightarrow> nic_monitor \<Rightarrow> nic_monitor" where
  "schedule_poll now s =
     (if nm_stopped s then s else s\<lparr>nm_timer := arm now (nm_poll_interval s) (nm_alive s) (nm_timer s)\<rparr>)"

definition fire_poll :: "network_interface list option \<Rightarrow> int \<Rightarrow> nic_monitor \<Rightarrow> nic_monitor" where
  "fire_poll interfaces now s =
     (case try_fire now (nm_timer s) of
        (t, fired) \<Rightarrow>
          (let s = s\<lparr>nm_timer := t\<rparr>
           in case fired of
                None \<Rightarrow> s
              | Some token \<Rightarrow> if token \<noteq> nm_alive s then s else schedule_poll now (apply_enumeration interfaces s)))"

section \<open>The netlink backend\<close>

definition arm_netlink :: "int \<Rightarrow> nic_monitor \<Rightarrow> nic_monitor" where
  "arm_netlink now s =
     (if nm_stopped s \<or> \<not> nm_nl_fd s then s else s\<lparr>nm_nl_timer := arm now 100 (nm_alive s) (nm_nl_timer s)\<rparr>)"

definition fire_netlink :: "bool \<Rightarrow> network_interface list option \<Rightarrow> int \<Rightarrow> nic_monitor \<Rightarrow> nic_monitor" where
  "fire_netlink changed interfaces now s =
     (case try_fire now (nm_nl_timer s) of
        (t, fired) \<Rightarrow>
          (let s = s\<lparr>nm_nl_timer := t\<rparr>
           in case fired of
                None \<Rightarrow> s
              | Some token \<Rightarrow>
                  if token \<noteq> nm_alive s then s
                  else if \<not> nm_nl_fd s then s
                  else arm_netlink now (if changed then apply_enumeration interfaces s else s)))"

text \<open>The first argument tells whether the socket could be opened and bound.\<close>

definition start_native_backend :: "bool \<Rightarrow> int \<Rightarrow> nic_monitor \<Rightarrow> nic_monitor \<times> bool" where
  "start_native_backend bound now s =
     (if bound then (arm_netlink now (s\<lparr>nm_nl_fd := True\<rparr>), True) else (s\<lparr>nm_nl_fd := False\<rparr>, False))"

definition stop_native_backend :: "nic_monitor \<Rightarrow> nic_monitor" where
  "stop_native_backend s = s\<lparr>nm_nl_timer := fst (cancel (nm_nl_timer s)), nm_nl_fd := False\<rparr>"

section \<open>Lifecycle\<close>

definition nic_on_added :: "nic_monitor \<Rightarrow> nic_monitor" where
  "nic_on_added s = s\<lparr>nm_on_added := True\<rparr>"

definition nic_on_removed :: "nic_monitor \<Rightarrow> nic_monitor" where
  "nic_on_removed s = s\<lparr>nm_on_removed := True\<rparr>"

definition nic_start :: "bool \<Rightarrow> int \<Rightarrow> nic_monitor \<Rightarrow> nic_monitor" where
  "nic_start bound now s =
     (let s = s\<lparr>nm_stopped := False\<rparr>
      in case start_native_backend bound now s of
           (s, native) \<Rightarrow> if \<not> native then schedule_poll now s else s)"

definition nic_stop :: "nic_monitor \<Rightarrow> nic_monitor" where
  "nic_stop s =
     (if nm_stopped s then s
      else
        (let s = s\<lparr>nm_stopped := True\<rparr>;
             s = stop_native_backend (s\<lparr>nm_timer := fst (cancel (nm_timer s))\<rparr>)
         in s\<lparr>nm_alive := nm_alive s + 1\<rparr>))"

text \<open>The executor runs the next posted task; the second component is the callback that it calls.\<close>

definition run_posted_nic :: "nic_monitor \<Rightarrow> nic_monitor \<times> nic_change option" where
  "run_posted_nic s =
     (case nm_posted s of
        [] \<Rightarrow> (s, None)
      | (token, ch) # rest \<Rightarrow> (s\<lparr>nm_posted := rest\<rparr>, if token = nm_alive s then Some ch else None))"

section \<open>What the posted changes amount to\<close>

fun change_index :: "nic_change \<Rightarrow> u32" where
  "change_index (Nic_removed i) = ni_index i"
| "change_index (Nic_added i) = ni_index i"

text \<open>
  A client that keeps one value per index: \<open>accepts\<close> is its filter, an interface that it already
  holds is not added again.
\<close>

fun apply_change :: "(network_interface \<Rightarrow> bool) \<Rightarrow> nic_change \<Rightarrow> (u32 \<rightharpoonup> network_interface) \<Rightarrow> (u32 \<rightharpoonup> network_interface)" where
  "apply_change accepts (Nic_removed i) m = m(ni_index i := None)"
| "apply_change accepts (Nic_added i) m =
     (if m (ni_index i) = None \<and> accepts i then m(ni_index i \<mapsto> i) else m)"

definition replay :: "(network_interface \<Rightarrow> bool) \<Rightarrow> nic_change list \<Rightarrow> (u32 \<rightharpoonup> network_interface) \<Rightarrow> (u32 \<rightharpoonup> network_interface)" where
  "replay accepts chs = fold (apply_change accepts) chs"

definition pending_changes :: "nic_monitor \<Rightarrow> nic_change list" where
  "pending_changes s = map snd (filter (\<lambda>p. fst p = nm_alive s) (nm_posted s))"

text \<open>The interfaces of a list that the client wants.\<close>

definition wanted :: "(network_interface \<Rightarrow> bool) \<Rightarrow> network_interface list \<Rightarrow> (u32 \<rightharpoonup> network_interface)" where
  "wanted accepts xs k =
     (case find_by_index xs k of Some i \<Rightarrow> if accepts i then Some i else None | None \<Rightarrow> None)"

text \<open>
  What is relied on of an enumeration: an index occurs once and belongs to one interface for good, so
  that its name and kind (\<open>ident\<close>) do not change.
\<close>

definition enumeration_ok :: "(u32 \<Rightarrow> string \<times> bool) \<Rightarrow> network_interface list \<Rightarrow> bool" where
  "enumeration_ok ident xs \<longleftrightarrow>
     distinct (map ni_index xs) \<and> list_all (\<lambda>i. (ni_name i, ni_is_loopback i) = ident (ni_index i)) xs"

lemma replay_simps [simp]:
  "replay a [] m = m" "replay a (c # cs) m = replay a cs (apply_change a c m)"
  "replay a (cs @ ds) m = replay a ds (replay a cs m)"
  by (simp_all add: replay_def)

lemma find_by_index_simps [simp]:
  "find_by_index [] k = None"
  "find_by_index (i # xs) k = (if ni_index i = k then Some i else find_by_index xs k)"
  by (simp_all add: find_by_index_def)

lemma find_by_index_SomeD: "find_by_index xs k = Some i \<Longrightarrow> i \<in> set xs \<and> ni_index i = k"
  by (auto simp: find_by_index_def find_Some_iff)

lemma find_by_index_mem: "distinct (map ni_index xs) \<Longrightarrow> i \<in> set xs \<Longrightarrow> find_by_index xs (ni_index i) = Some i"
  by (induction xs) (auto simp: image_iff)

lemma find_by_index_None: "find_by_index xs k = None \<longleftrightarrow> k \<notin> ni_index ` set xs"
  by (induction xs) auto

lemma unchanged_same:
  assumes "enumeration_ok ident xs" and "enumeration_ok ident ys" and "i \<in> set xs" and "j \<in> set ys"
    and "ni_index i = ni_index j" and "\<not> nic_changed i j"
  shows "i = j"
proof -
  have "(ni_name i, ni_is_loopback i) = (ni_name j, ni_is_loopback j)"
    using assms(1-5) by (auto simp: enumeration_ok_def list_all_iff)
  then show ?thesis using assms(5,6) by (simp add: nic_changed_def)
qed

text \<open>Only the changes of an index matter for its value.\<close>

lemma apply_change_other [simp]: "change_index c \<noteq> k \<Longrightarrow> apply_change a c m k = m k"
  by (cases c) auto

lemma replay_cong: "m k = m' k \<Longrightarrow> replay a cs m k = replay a cs m' k"
proof (induction cs arbitrary: m m')
  case (Cons c cs)
  have "apply_change a c m k = apply_change a c m' k" using Cons.prems by (cases c) auto
  then show ?case by (simp add: Cons.IH [of "apply_change a c m" "apply_change a c m'"])
qed simp

lemma replay_local: "replay a cs m k = replay a (filter (\<lambda>c. change_index c = k) cs) m k"
proof (induction cs arbitrary: m)
  case (Cons c cs)
  show ?case
  proof (cases "change_index c = k")
    case False
    then have "replay a cs (apply_change a c m) k = replay a cs m k" by (intro replay_cong) simp
    then show ?thesis using Cons False by simp
  qed (simp add: Cons)
qed simp

text \<open>A removal makes the outcome independent of the start; without one, a value stays.\<close>

lemma replay_removal: "Nic_removed i \<in> set cs \<Longrightarrow> replay a cs m (ni_index i) = replay a cs m' (ni_index i)"
proof (induction cs arbitrary: m m')
  case (Cons c cs)
  show ?case
  proof (cases "c = Nic_removed i")
    case True
    then show ?thesis by (auto intro: replay_cong)
  qed (use Cons in auto)
qed simp

lemma replay_keeps: "\<forall>i. Nic_removed i \<in> set cs \<longrightarrow> ni_index i \<noteq> k \<Longrightarrow> m k = Some v \<Longrightarrow> replay a cs m k = Some v"
proof (induction cs arbitrary: m)
  case (Cons c cs)
  have "apply_change a c m k = Some v" using Cons.prems by (cases c) auto
  with Cons show ?case by simp
qed simp

text \<open>Seeding a client with an interface that is pending anyway changes nothing of the outcome.\<close>

lemma replay_seeded:
  assumes "m' k = (if m k = None then replay a cs m k else m k)"
  shows "replay a cs m' k = replay a cs m k"
proof (cases "\<exists>i. Nic_removed i \<in> set cs \<and> ni_index i = k")
  case True
  then show ?thesis using replay_removal by metis
next
  case no: False
  show ?thesis
  proof (cases "m k = None \<and> replay a cs m k \<noteq> None")
    case True
    then obtain v where "m' k = Some v" "replay a cs m k = Some v" using assms by auto
    then show ?thesis using replay_keeps [of cs k m' v a] no by auto
  next
    case False
    then have "m' k = m k" using assms by (auto split: if_splits)
    then show ?thesis by (rule replay_cong)
  qed
qed

text \<open>The changes that a comparison posts.\<close>

definition old_changes :: "network_interface list \<Rightarrow> network_interface \<Rightarrow> nic_change list" where
  "old_changes new_list i =
     (case find_by_index new_list (ni_index i) of
        None \<Rightarrow> [Nic_removed i]
      | Some j \<Rightarrow> if nic_changed j i then [Nic_removed i, Nic_added j] else [])"

definition diff :: "network_interface list \<Rightarrow> network_interface list \<Rightarrow> nic_change list" where
  "diff old_list new_list =
     concat (map (old_changes new_list) old_list) @
     map Nic_added (filter (\<lambda>j. find_by_index old_list (ni_index j) = None) new_list)"

definition listening :: "nic_monitor \<Rightarrow> bool" where
  "listening s \<longleftrightarrow> nm_on_added s \<and> nm_on_removed s"

definition posting :: "nic_change list \<Rightarrow> nic_monitor \<Rightarrow> nic_monitor" where
  "posting cs s = s\<lparr>nm_posted := nm_posted s @ map (Pair (nm_alive s)) cs\<rparr>"

lemma posting_simps [simp]:
  "posting [] s = s" "posting cs (posting ds s) = posting (ds @ cs) s" "listening (posting cs s) = listening s"
  "nm_alive (posting cs s) = nm_alive s" "nm_snapshot (posting cs s) = nm_snapshot s"
  by (simp_all add: posting_def listening_def)

lemma diff_old_posting: "listening s \<Longrightarrow> diff_old xs i s = posting (old_changes xs i) s"
  by (auto simp: diff_old_def old_changes_def post_removed_def post_added_def posting_def listening_def split: option.split)

lemma diff_new_posting:
  "listening s \<Longrightarrow> diff_new xs j s = posting (if find_by_index xs (ni_index j) = None then [Nic_added j] else []) s"
  by (auto simp: diff_new_def post_added_def posting_def listening_def)

lemma fold_diff_old: "listening s \<Longrightarrow> fold (diff_old xs) ys s = posting (concat (map (old_changes xs) ys)) s"
  by (induction ys arbitrary: s) (simp_all add: diff_old_posting)

lemma fold_diff_new:
  "listening s \<Longrightarrow> fold (diff_new xs) ys s = posting (map Nic_added (filter (\<lambda>j. find_by_index xs (ni_index j) = None) ys)) s"
  by (induction ys arbitrary: s) (simp_all add: diff_new_posting)

lemma apply_diff_posting:
  assumes "listening s" and "nm_snapshot s = Some old"
  shows "apply_diff new_list s = (posting (diff old new_list) s)\<lparr>nm_snapshot := Some new_list\<rparr>"
  using assms by (simp add: apply_diff_def fold_diff_old fold_diff_new diff_def)

lemma old_changes_index: "c \<in> set (old_changes xs i) \<Longrightarrow> change_index c = ni_index i"
  by (auto simp: old_changes_def split: option.splits if_splits dest: find_by_index_SomeD)

lemma filter_old_changes: "filter (\<lambda>c. change_index c = k) (old_changes xs i) = (if ni_index i = k then old_changes xs i else [])"
  by (auto simp: filter_id_conv filter_empty_conv dest: old_changes_index)

lemma filter_removals:
  "distinct (map ni_index ys) \<Longrightarrow>
   filter (\<lambda>c. change_index c = k) (concat (map (old_changes xs) ys)) =
     (case find_by_index ys k of None \<Rightarrow> [] | Some i \<Rightarrow> old_changes xs i)"
proof (induction ys)
  case (Cons i ys)
  show ?case
  proof (cases "ni_index i = k")
    case True
    then have "find_by_index ys k = None" using Cons.prems by (auto simp: find_by_index_None)
    with True Cons show ?thesis by (simp add: filter_old_changes)
  qed (use Cons in \<open>simp add: filter_old_changes\<close>)
qed simp

lemma filter_additions:
  "distinct (map ni_index ys) \<Longrightarrow>
   filter (\<lambda>c. change_index c = k) (map Nic_added (filter P ys)) =
     (case find_by_index ys k of None \<Rightarrow> [] | Some j \<Rightarrow> if P j then [Nic_added j] else [])"
proof (induction ys)
  case (Cons i ys)
  show ?case
  proof (cases "ni_index i = k")
    case True
    then have "find_by_index ys k = None" using Cons.prems by (auto simp: find_by_index_None)
    with True Cons show ?thesis by simp
  qed (use Cons in simp)
qed simp

text \<open>A new name under the same index is not noticed.\<close>

lemma rename_not_noticed: "diff [i] [i\<lparr>ni_name := n, ni_is_loopback := b\<rparr>] = []"
  by (simp add: diff_def old_changes_def nic_changed_def)

text \<open>The changes of a comparison turn what a client wants of the old list into what it wants of the new one.\<close>

lemma replay_diff:
  assumes "enumeration_ok ident old" and "enumeration_ok ident new" and "m k = wanted a old k"
  shows "replay a (diff old new) m k = wanted a new k"
proof -
  have d: "distinct (map ni_index old)" "distinct (map ni_index new)" using assms(1,2) by (simp_all add: enumeration_ok_def)
  have same: "i = j" if "find_by_index old k = Some i" "find_by_index new k = Some j" "\<not> nic_changed j i" for i j
    using unchanged_same [OF assms(2,1), of j i] that by (auto dest: find_by_index_SomeD)
  have k: "replay a (diff old new) m k =
      replay a ((case find_by_index old k of None \<Rightarrow> [] | Some i \<Rightarrow> old_changes new i) @
        (case find_by_index new k of None \<Rightarrow> [] | Some j \<Rightarrow> if find_by_index old (ni_index j) = None then [Nic_added j] else [])) m k"
    by (subst replay_local) (simp only: diff_def filter_append filter_removals [OF d(1)] filter_additions [OF d(2)])
  have "\<And>i. find_by_index old k = Some i \<Longrightarrow> ni_index i = k" "\<And>j. find_by_index new k = Some j \<Longrightarrow> ni_index j = k"
    by (auto dest: find_by_index_SomeD)
  then show ?thesis
    using assms(3) same unfolding k
    by (cases "find_by_index old k"; cases "find_by_index new k") (auto simp: wanted_def old_changes_def)
qed

end
