(* ===== verification/Record_Identity.thy ===== *)
theory Record_Identity
  imports Dns_Types
begin

text \<open>
  The identity of a record (\<open>record_cache.h\<close>, namespace \<open>detail\<close>): name, type, class and record
  data, without TTL, sender and cache-flush bit. The functions are shown to decide equality of a
  canonical representative; the cache and the duplicate-answer suppression rely on them only
  through that contract, the locale \<open>identity_test\<close>.
\<close>

section \<open>Keys and comparisons\<close>

record record_name_type =
  rnt_name :: dns_name
  rnt_type :: dns_type

fun extract_name_type :: "mdns_record_variant \<Rightarrow> record_name_type" where
  "extract_name_type (Rec_a r) = \<lparr>rnt_name = rec_name r, rnt_type = Type_a\<rparr>"
| "extract_name_type (Rec_aaaa r) = \<lparr>rnt_name = rec_name r, rnt_type = Type_aaaa\<rparr>"
| "extract_name_type (Rec_ptr r) = \<lparr>rnt_name = rec_name r, rnt_type = Type_ptr\<rparr>"
| "extract_name_type (Rec_srv r) = \<lparr>rnt_name = rec_name r, rnt_type = Type_srv\<rparr>"
| "extract_name_type (Rec_txt r) = \<lparr>rnt_name = rec_name r, rnt_type = Type_txt\<rparr>"

definition extract_class :: "mdns_record_variant \<Rightarrow> dns_class" where
  "extract_class r = rec_class (visit_base r)"

definition extract_ttl :: "mdns_record_variant \<Rightarrow> u32" where
  "extract_ttl r = rec_ttl (visit_base r)"

definition extract_cache_flush :: "mdns_record_variant \<Rightarrow> bool" where
  "extract_cache_flush r = rec_cache_flush (visit_base r)"

text \<open>The loop over two entry vectors, after the comparison of their sizes.\<close>

fun txt_entries_equal :: "service_txt list \<Rightarrow> service_txt list \<Rightarrow> bool" where
  "txt_entries_equal (x # xs) (y # ys) =
     (if txt_key x \<noteq> txt_key y \<or> txt_value x \<noteq> txt_value y then False else txt_entries_equal xs ys)"
| "txt_entries_equal _ _ = True"

fun rdata_equal :: "mdns_record_variant \<Rightarrow> mdns_record_variant \<Rightarrow> bool" where
  "rdata_equal (Rec_a l) (Rec_a r) = (a_address_string l = a_address_string r)"
| "rdata_equal (Rec_aaaa l) (Rec_aaaa r) = (aaaa_address_string l = aaaa_address_string r)"
| "rdata_equal (Rec_ptr l) (Rec_ptr r) = (ptr_name l = ptr_name r)"
| "rdata_equal (Rec_srv l) (Rec_srv r) =
     (srv_port l = srv_port r \<and> srv_weight l = srv_weight r \<and> srv_priority l = srv_priority r \<and> srv_name l = srv_name r)"
| "rdata_equal (Rec_txt l) (Rec_txt r) =
     (if length (txt_entries l) \<noteq> length (txt_entries r) then False
      else txt_entries_equal (txt_entries l) (txt_entries r))"
| "rdata_equal _ _ = False"

definition record_identity_equal :: "mdns_record_variant \<Rightarrow> mdns_record_variant \<Rightarrow> bool" where
  "record_identity_equal a b \<longleftrightarrow>
     extract_name_type a = extract_name_type b \<and> extract_class a = extract_class b \<and> rdata_equal a b"

section \<open>The representative\<close>

definition strip_base :: "'a record_base_scheme \<Rightarrow> 'a record_base_scheme" where
  "strip_base r = r\<lparr>rec_ttl := 0, rec_length := 0, sender_address := [], rec_cache_flush := False\<rparr>"

fun identity :: "mdns_record_variant \<Rightarrow> mdns_record_variant" where
  "identity (Rec_ptr r) = Rec_ptr (strip_base r)"
| "identity (Rec_srv r) = Rec_srv (strip_base r)"
| "identity (Rec_a r) = Rec_a (strip_base r)"
| "identity (Rec_aaaa r) = Rec_aaaa (strip_base r)"
| "identity (Rec_txt r) = Rec_txt (strip_base r)"

lemma txt_entries_equal_iff:
  "length xs = length ys \<Longrightarrow> txt_entries_equal xs ys \<longleftrightarrow> xs = ys"
  by (induction xs ys rule: txt_entries_equal.induct) auto

lemma strip_base_eq:
  "strip_base (p :: record_ptr) = strip_base p' \<longleftrightarrow>
     rec_name p = rec_name p' \<and> rec_class p = rec_class p' \<and> ptr_name p = ptr_name p'"
  "strip_base (s :: record_srv) = strip_base s' \<longleftrightarrow>
     rec_name s = rec_name s' \<and> rec_class s = rec_class s' \<and> srv_port s = srv_port s' \<and>
     srv_weight s = srv_weight s' \<and> srv_priority s = srv_priority s' \<and> srv_name s = srv_name s'"
  "strip_base (a :: record_a) = strip_base a' \<longleftrightarrow>
     rec_name a = rec_name a' \<and> rec_class a = rec_class a' \<and> a_address_string a = a_address_string a'"
  "strip_base (q :: record_aaaa) = strip_base q' \<longleftrightarrow>
     rec_name q = rec_name q' \<and> rec_class q = rec_class q' \<and> aaaa_address_string q = aaaa_address_string q'"
  "strip_base (t :: record_txt) = strip_base t' \<longleftrightarrow>
     rec_name t = rec_name t' \<and> rec_class t = rec_class t' \<and> txt_entries t = txt_entries t'"
  by (cases p; cases p'; simp add: strip_base_def)
    (cases s; cases s'; simp add: strip_base_def; fail | cases a; cases a'; simp add: strip_base_def; fail
      | cases q; cases q'; simp add: strip_base_def; fail | cases t; cases t'; simp add: strip_base_def; fail)+

lemma record_identity_equal_iff: "record_identity_equal a b \<longleftrightarrow> identity a = identity b"
  by (cases a; cases b)
    (auto simp: record_identity_equal_def extract_class_def strip_base_eq txt_entries_equal_iff)

lemma identity_idem [simp]: "identity (identity r) = identity r"
  by (cases r) (simp_all add: strip_base_def)

lemma extract_name_type_identity [simp]: "extract_name_type (identity r) = extract_name_type r"
  by (cases r) (simp_all add: strip_base_def)

lemma identity_name_type: "identity a = identity b \<Longrightarrow> extract_name_type a = extract_name_type b"
  by (metis extract_name_type_identity)

section \<open>The contract of an identity test\<close>

text \<open>
  What a container of records may rely on: the test \<open>same\<close> decides equality of representatives,
  and records that are the same have the same key.
\<close>

locale identity_test =
  fixes same :: "'r \<Rightarrow> 'r \<Rightarrow> bool" and rep :: "'r \<Rightarrow> 'i" and key_of :: "'r \<Rightarrow> 'k"
  assumes same_iff: "same a b \<longleftrightarrow> rep a = rep b"
    and same_key: "same a b \<Longrightarrow> key_of a = key_of b"
begin

lemma same_refl: "same a a"
  by (simp add: same_iff)

lemma same_sym: "same a b \<Longrightarrow> same b a"
  by (simp add: same_iff)

lemma same_trans: "same a b \<Longrightarrow> same b c \<Longrightarrow> same a c"
  by (simp add: same_iff)

text \<open>Searching the key range of a record finds it whenever it is anywhere in the container.\<close>

lemma find_in_range:
  "find (\<lambda>x. key_of x = key_of r \<and> same x r) xs = find (\<lambda>x. rep x = rep r) xs"
proof -
  have "(key_of x = key_of r \<and> same x r) \<longleftrightarrow> rep x = rep r" for x
    using same_iff same_key by blast
  then show ?thesis by presburger
qed

lemma find_rep_None: "find (\<lambda>x. rep x = i) xs = None \<longleftrightarrow> i \<notin> rep ` set xs"
  by (auto simp: find_None_iff)

text \<open>Replacing an element by one that is the same keeps the container free of duplicates.\<close>

lemma distinct_update:
  assumes "distinct (map rep (ys @ x # zs))" and "same x' x"
  shows "distinct (map rep (ys @ x' # zs))"
  using assms by (simp add: same_iff)

lemma distinct_add:
  assumes "distinct (map rep (ys @ zs))" and "find (\<lambda>x. same x r) (ys @ zs) = None"
  shows "distinct (map rep (ys @ r # zs))"
  using assms by (auto simp: find_None_iff same_iff)

end

interpretation rec_id: identity_test record_identity_equal identity extract_name_type
  by unfold_locales (auto simp: record_identity_equal_iff dest: identity_name_type)

section \<open>Duplicate-answer suppression\<close>

text \<open>\<open>detail/duplicate_answer_suppression.h\<close>.\<close>

record seen_answer =
  seen_record :: mdns_record_variant
  observed_ttl :: u32

type_synonym duplicate_suppression_state = "seen_answer list"

definition observe :: "mdns_record_variant \<Rightarrow> u32 \<Rightarrow> duplicate_suppression_state \<Rightarrow> duplicate_suppression_state" where
  "observe r ttl m_seen = m_seen @ [\<lparr>seen_record = r, observed_ttl = ttl\<rparr>]"

fun is_suppressed :: "duplicate_suppression_state \<Rightarrow> mdns_record_variant \<Rightarrow> u32 \<Rightarrow> bool" where
  "is_suppressed [] r our_ttl = False"
| "is_suppressed (seen # m_seen) r our_ttl =
     (if record_identity_equal (seen_record seen) r \<and> observed_ttl seen \<ge> our_ttl then True
      else is_suppressed m_seen r our_ttl)"

definition reset_seen :: "duplicate_suppression_state \<Rightarrow> duplicate_suppression_state" where
  "reset_seen m_seen = []"

definition observe_all :: "(mdns_record_variant \<times> u32) list \<Rightarrow> duplicate_suppression_state" where
  "observe_all obs = foldl (\<lambda>s (r, ttl). observe r ttl s) [] obs"

lemma is_suppressed_iff:
  "is_suppressed s r ttl \<longleftrightarrow> (\<exists>x \<in> set s. identity (seen_record x) = identity r \<and> ttl \<le> observed_ttl x)"
  by (induction s r ttl rule: is_suppressed.induct) (auto simp: rec_id.same_iff)

lemma observe_all_eq: "observe_all obs = map (\<lambda>(r, ttl). \<lparr>seen_record = r, observed_ttl = ttl\<rparr>) obs"
  by (induction obs rule: rev_induct) (auto simp: observe_all_def observe_def)

section \<open>Properties\<close>

text \<open>
  Record identity is an equivalence that ignores TTL, sender and cache-flush bit: two records are
  identical exactly when their canonical representatives coincide, and then their keys agree.
\<close>

lemma record_identity_decides:
  "(record_identity_equal a b \<longleftrightarrow> identity a = identity b) \<and>
   (record_identity_equal a b \<longrightarrow> extract_name_type a = extract_name_type b)"
  using rec_id.same_iff rec_id.same_key by blast

lemma record_identity_decides_example:
  "record_identity_equal
     (Rec_a \<lparr>rec_name = empty_name, rec_ttl = 5, rec_class = Class_in, rec_length = 4, sender_address = ''x'',
        rec_cache_flush = True, a_address_string = ''10.0.0.1''\<rparr>)
     (Rec_a \<lparr>rec_name = empty_name, rec_ttl = 9, rec_class = Class_in, rec_length = 4, sender_address = ''y'',
        rec_cache_flush = False, a_address_string = ''10.0.0.1''\<rparr>)"
  by (subst record_identity_decides [THEN conjunct1]) (simp add: strip_base_def)

text \<open>
  Duplicate-answer suppression (RFC 6762 section 7.4): a record is suppressed exactly when an
  identical record was observed since the last reset with a TTL of at least our own, independently
  of the order of the observations.
\<close>

lemma duplicate_suppression_correct:
  "is_suppressed (observe_all obs) r our_ttl \<longleftrightarrow>
     list_ex (\<lambda>(seen, ttl). record_identity_equal seen r \<and> our_ttl \<le> ttl) obs"
  by (simp add: is_suppressed_iff observe_all_eq list_ex_iff rec_id.same_iff case_prod_beta)

end
