(* ===== verification/Record_Cache.thy ===== *)
theory Record_Cache
  imports Record_Identity
begin

text \<open>
  \<open>record_cache.h\<close>: the TTL-aware cache. A time point is a number of nanoseconds; every reading of
  \<open>Clock::now()\<close> is an argument of the operation that makes it. The \<open>unordered_multimap\<close> is the
  list of its elements in iteration order; where the container puts a new element is unspecified
  and therefore an argument (\<open>hint\<close>). The callbacks observe only: the values that they are called
  with are results of the operations. The mutex serialises the operations.
\<close>

section \<open>State\<close>

record internal_entry =
  ie_record :: mdns_record_variant
  ie_origin :: endpoint
  ie_cache_flush :: bool
  ie_wire_ttl :: u32
  inserted_at :: int
  flush_deadline :: "int option"

record cache_entry =
  ce_record :: mdns_record_variant
  ce_origin :: endpoint
  ce_cache_flush :: bool
  ce_wire_ttl :: u32
  ttl_remaining :: int

record cache_options =
  has_on_expired :: bool
  has_on_cache_flush :: bool
  goodbye_grace :: int

definition default_cache_options :: cache_options where
  "default_cache_options = \<lparr>has_on_expired = False, has_on_cache_flush = False, goodbye_grace = 1\<rparr>"

type_synonym cache_map = "(record_name_type \<times> internal_entry) list"

record record_cache =
  cache_opts :: cache_options
  m_entries :: cache_map

definition new_cache :: "cache_options \<Rightarrow> record_cache" where
  "new_cache opts = \<lparr>cache_opts = opts, m_entries = []\<rparr>"

definition seconds :: "int \<Rightarrow> int" where
  "seconds n = n * 1000000000"

text \<open>A value-initialised \<open>cache_entry\<close>: the first alternative of the variant, all members empty.\<close>

definition default_cache_entry :: cache_entry where
  "default_cache_entry =
     \<lparr>ce_record = Rec_ptr \<lparr>rec_name = empty_name, rec_ttl = 0, rec_class = Class_none, rec_length = 0,
        sender_address = [], rec_cache_flush = False, ptr_name = empty_name\<rparr>,
      ce_origin = no_endpoint, ce_cache_flush = False, ce_wire_ttl = 0, ttl_remaining = 0\<rparr>"

section \<open>Operations\<close>

definition is_expired :: "internal_entry \<Rightarrow> int \<Rightarrow> bool" where
  "is_expired e now =
     (if now \<ge> inserted_at e + seconds (uint (ie_wire_ttl e)) then True
      else (case flush_deadline e of Some d \<Rightarrow> now \<ge> d | None \<Rightarrow> False))"

definition to_cache_entry :: "internal_entry \<Rightarrow> int \<Rightarrow> cache_entry" where
  "to_cache_entry e now =
     (let deadline = inserted_at e + seconds (uint (ie_wire_ttl e));
          remaining = deadline - now
      in \<lparr>ce_record = ie_record e, ce_origin = ie_origin e, ce_cache_flush = ie_cache_flush e,
          ce_wire_ttl = ie_wire_ttl e, ttl_remaining = remaining\<rparr>)"

text \<open>The loop of \<open>apply_cache_flush\<close>; elements outside the key range are passed over.\<close>

fun flush_loop ::
  "record_name_type \<Rightarrow> endpoint \<Rightarrow> int \<Rightarrow> int \<Rightarrow> cache_map \<Rightarrow> cache_entry list \<Rightarrow> cache_entry
     \<Rightarrow> cache_map \<times> cache_entry list \<times> cache_entry" where
  "flush_loop key origin now deadline [] affected authoritative = ([], affected, authoritative)"
| "flush_loop key origin now deadline ((k, e) # es) affected authoritative =
     (let (e, affected, authoritative) =
            (if k \<noteq> key then (e, affected, authoritative)
             else if ie_origin e = origin then
               (e, affected, if ie_cache_flush e then to_cache_entry e now else authoritative)
             else
               (let e = (case flush_deadline e of
                           None \<Rightarrow> e\<lparr>flush_deadline := Some deadline\<rparr>
                         | Some d \<Rightarrow> if d > deadline then e\<lparr>flush_deadline := Some deadline\<rparr> else e)
                in (e, affected @ [to_cache_entry e now], authoritative)));
          (es, affected, authoritative) = flush_loop key origin now deadline es affected authoritative
      in ((k, e) # es, affected, authoritative))"

type_synonym flush_event = "cache_entry \<times> cache_entry list"

definition apply_cache_flush ::
  "record_name_type \<Rightarrow> endpoint \<Rightarrow> int \<Rightarrow> record_cache \<Rightarrow> record_cache \<times> flush_event option" where
  "apply_cache_flush key origin now c =
     (let deadline = now + seconds (goodbye_grace (cache_opts c));
          (es, affected, authoritative) =
            flush_loop key origin now deadline (m_entries c) [] default_cache_entry
      in (c\<lparr>m_entries := es\<rparr>,
          if affected \<noteq> [] \<and> has_on_cache_flush (cache_opts c) then Some (authoritative, affected) else None))"

text \<open>The loop over the key range that refreshes a record that is already there; \<open>None\<close> is \<open>!found\<close>.\<close>

fun refresh_entry ::
  "record_name_type \<Rightarrow> mdns_record_variant \<Rightarrow> endpoint \<Rightarrow> bool \<Rightarrow> u32 \<Rightarrow> int \<Rightarrow> cache_map \<Rightarrow> cache_map option" where
  "refresh_entry key r origin flush ttl now [] = None"
| "refresh_entry key r origin flush ttl now ((k, e) # es) =
     (if k = key \<and> record_identity_equal (ie_record e) r then
        Some ((k, e\<lparr>inserted_at := now, ie_wire_ttl := ttl, ie_cache_flush := flush, ie_origin := origin,
                     flush_deadline := None\<rparr>) # es)
      else map_option (\<lambda>es. (k, e) # es) (refresh_entry key r origin flush ttl now es))"

definition effective_ttl :: "cache_options \<Rightarrow> u32 \<Rightarrow> u32" where
  "effective_ttl opts ttl = (if ttl = 0 then word_of_int (goodbye_grace opts) else ttl)"

text \<open>\<open>now1\<close> is the clock reading for \<open>inserted_at\<close>, \<open>now2\<close> the one of \<open>apply_cache_flush\<close>.\<close>

definition insert_record ::
  "mdns_record_variant \<Rightarrow> endpoint \<Rightarrow> int \<Rightarrow> int \<Rightarrow> nat \<Rightarrow> record_cache \<Rightarrow> record_cache \<times> flush_event option" where
  "insert_record r origin now1 now2 hint c =
     (let key = extract_name_type r;
          flush = extract_cache_flush r;
          ttl = effective_ttl (cache_opts c) (extract_ttl r);
          es = (case refresh_entry key r origin flush ttl now1 (m_entries c) of
                  Some es \<Rightarrow> es
                | None \<Rightarrow>
                    take hint (m_entries c)
                    @ [(key, \<lparr>ie_record = r, ie_origin = origin, ie_cache_flush = flush, ie_wire_ttl = ttl,
                              inserted_at = now1, flush_deadline = None\<rparr>)]
                    @ drop hint (m_entries c));
          c = c\<lparr>m_entries := es\<rparr>
      in if flush then apply_cache_flush key origin now2 c else (c, None))"

definition find_entries :: "dns_name \<Rightarrow> dns_type \<Rightarrow> int \<Rightarrow> record_cache \<Rightarrow> cache_entry list" where
  "find_entries n t now c =
     [to_cache_entry e now. (k, e) \<leftarrow> m_entries c, k = \<lparr>rnt_name = n, rnt_type = t\<rparr>]"

definition snapshot :: "int \<Rightarrow> record_cache \<Rightarrow> cache_entry list" where
  "snapshot now c = [to_cache_entry e now. (k, e) \<leftarrow> m_entries c]"

fun erase_loop :: "int \<Rightarrow> cache_map \<Rightarrow> cache_map \<times> cache_entry list" where
  "erase_loop now [] = ([], [])"
| "erase_loop now ((k, e) # es) =
     (let (es', expired) = erase_loop now es
      in if is_expired e now then (es', to_cache_entry e now # expired) else ((k, e) # es', expired))"

text \<open>The third component is what \<open>on_expired\<close> is called with.\<close>

definition erase_expired :: "int \<Rightarrow> record_cache \<Rightarrow> record_cache \<times> cache_entry list \<times> cache_entry list option" where
  "erase_expired now c =
     (let (es, expired) = erase_loop now (m_entries c)
      in (c\<lparr>m_entries := es\<rparr>, expired,
          if expired \<noteq> [] \<and> has_on_expired (cache_opts c) then Some expired else None))"


section \<open>Invariant and abstraction\<close>

text \<open>Every element is stored under the key of its record, and no two elements have the same identity.\<close>

definition ids :: "cache_map \<Rightarrow> mdns_record_variant list" where
  "ids es = map (\<lambda>(k, e). identity (ie_record e)) es"

definition wf_entries :: "cache_map \<Rightarrow> bool" where
  "wf_entries es \<longleftrightarrow> list_all (\<lambda>(k, e). k = extract_name_type (ie_record e)) es \<and> distinct (ids es)"

definition wf_cache :: "record_cache \<Rightarrow> bool" where
  "wf_cache c \<longleftrightarrow> wf_entries (m_entries c)"

text \<open>The abstract cache: a partial function from record identities to entries.\<close>

definition entry_map :: "cache_map \<Rightarrow> mdns_record_variant \<rightharpoonup> internal_entry" where
  "entry_map es = map_of (map (\<lambda>(k, e). (identity (ie_record e), e)) es)"

definition cached :: "record_cache \<Rightarrow> mdns_record_variant \<rightharpoonup> internal_entry" where
  "cached c = entry_map (m_entries c)"

lemma ids_simps [simp]:
  "ids [] = []" "ids ((k, e) # es) = identity (ie_record e) # ids es" "ids (es @ fs) = ids es @ ids fs"
  by (simp_all add: ids_def)

lemma wf_entries_simps [simp]:
  "wf_entries []"
  "wf_entries ((k, e) # es) \<longleftrightarrow>
     k = extract_name_type (ie_record e) \<and> identity (ie_record e) \<notin> set (ids es) \<and> wf_entries es"
  by (auto simp: wf_entries_def)

lemma entry_map_simps [simp]:
  "entry_map [] i = None"
  "entry_map ((k, e) # es) i = (if i = identity (ie_record e) then Some e else entry_map es i)"
  by (simp_all add: entry_map_def)

lemma entry_map_None: "entry_map es i = None \<longleftrightarrow> i \<notin> set (ids es)"
  by (induction es) (auto split: if_splits)

lemma entry_map_key:
  "wf_entries es \<Longrightarrow> entry_map es i = Some e \<Longrightarrow> i = identity (ie_record e) \<and> (extract_name_type i, e) \<in> set es"
  by (induction es) (auto split: if_splits)

lemma entry_map_mem: "wf_entries es \<Longrightarrow> (k, e) \<in> set es \<Longrightarrow> entry_map es (identity (ie_record e)) = Some e"
  by (induction es) (force simp: ids_def)+

lemma wf_entries_key: "wf_entries es \<Longrightarrow> (k, e) \<in> set es \<Longrightarrow> k = extract_name_type (ie_record e)"
  by (auto simp: wf_entries_def list_all_iff)

text \<open>Maps over the entries that keep their records.\<close>

lemma ids_map:
  assumes "\<And>k e. ie_record (f k e) = ie_record e"
  shows "ids (map (\<lambda>(k, e). (k, f k e)) es) = ids es"
  by (induction es) (auto simp: assms)

lemma wf_entries_map:
  assumes "\<And>k e. ie_record (f k e) = ie_record e"
  shows "wf_entries (map (\<lambda>(k, e). (k, f k e)) es) \<longleftrightarrow> wf_entries es"
proof -
  have "list_all (\<lambda>(k, e). k = extract_name_type (ie_record e)) (map (\<lambda>(k, e). (k, f k e)) es)
      = list_all (\<lambda>(k, e). k = extract_name_type (ie_record e)) es"
    by (induction es) (auto simp: assms)
  with ids_map [of f es] assms show ?thesis by (simp add: wf_entries_def)
qed

lemma entry_map_map:
  assumes "wf_entries es" and "\<And>k e. ie_record (f k e) = ie_record e"
  shows "entry_map (map (\<lambda>(k, e). (k, f k e)) es) i = map_option (f (extract_name_type i)) (entry_map es i)"
  using assms(1) by (induction es) (auto simp: assms(2))

section \<open>What the loops compute\<close>

definition flush_entry :: "endpoint \<Rightarrow> int \<Rightarrow> internal_entry \<Rightarrow> internal_entry" where
  "flush_entry origin deadline e =
     (if ie_origin e = origin then e
      else e\<lparr>flush_deadline := Some (case flush_deadline e of None \<Rightarrow> deadline | Some d \<Rightarrow> min d deadline)\<rparr>)"

definition flush_key :: "record_name_type \<Rightarrow> endpoint \<Rightarrow> int \<Rightarrow> record_name_type \<Rightarrow> internal_entry \<Rightarrow> internal_entry" where
  "flush_key key origin deadline k e = (if k = key then flush_entry origin deadline e else e)"

lemma flush_record [simp]: "ie_record (flush_entry origin d e) = ie_record e" "ie_record (flush_key key origin d k e) = ie_record e"
  by (simp_all add: flush_entry_def flush_key_def)

lemma flush_entry_code:
  "ie_origin e \<noteq> origin \<Longrightarrow>
     (case flush_deadline e of
        None \<Rightarrow> e\<lparr>flush_deadline := Some d\<rparr>
      | Some x \<Rightarrow> if x > d then e\<lparr>flush_deadline := Some d\<rparr> else e) = flush_entry origin d e"
  by (cases e) (auto simp: flush_entry_def split: option.split)

lemma flush_loop_entries:
  "fst (flush_loop key origin now d es affected auth) = map (\<lambda>(k, e). (k, flush_key key origin d k e)) es"
proof (induction es arbitrary: affected auth)
  case (Cons x es)
  obtain k e where x: "x = (k, e)" by fastforce
  have "flush_key key origin d k e =
      (if k \<noteq> key \<or> ie_origin e = origin then e
       else case flush_deadline e of
              None \<Rightarrow> e\<lparr>flush_deadline := Some d\<rparr>
            | Some y \<Rightarrow> if y > d then e\<lparr>flush_deadline := Some d\<rparr> else e)"
    using flush_entry_code [of e origin d] by (auto simp: flush_key_def flush_entry_def)
  then show ?case
    unfolding x by (simp add: Let_def Cons.IH case_prod_beta)
qed simp

lemma flush_loop_affected:
  "fst (snd (flush_loop key origin now d es affected auth)) =
     affected @ [to_cache_entry (flush_entry origin d e) now. (k, e) \<leftarrow> es, k = key \<and> ie_origin e \<noteq> origin]"
proof (induction es arbitrary: affected auth)
  case (Cons x es)
  obtain k e where x: "x = (k, e)" by fastforce
  show ?case
    unfolding x using flush_entry_code [of e origin d] by (simp add: Let_def Cons.IH case_prod_beta)
qed simp

lemma refresh_entry_Some:
  assumes "refresh_entry key r origin flush ttl now es = Some es'"
  obtains ys e zs where "es = ys @ (key, e) # zs" "identity (ie_record e) = identity r"
    "es' = ys @ (key, e\<lparr>inserted_at := now, ie_wire_ttl := ttl, ie_cache_flush := flush, ie_origin := origin,
                        flush_deadline := None\<rparr>) # zs"
proof -
  have "\<exists>ys e zs. es = ys @ (key, e) # zs \<and> identity (ie_record e) = identity r \<and>
    es' = ys @ (key, e\<lparr>inserted_at := now, ie_wire_ttl := ttl, ie_cache_flush := flush, ie_origin := origin,
                        flush_deadline := None\<rparr>) # zs"
    using assms
  proof (induction es arbitrary: es')
    case (Cons x es)
    obtain k e where x: "x = (k, e)" by fastforce
    show ?case
    proof (cases "k = key \<and> record_identity_equal (ie_record e) r")
      case True
      with Cons.prems x show ?thesis by (intro exI [of _ "[]"]) (auto simp: rec_id.same_iff)
    next
      case False
      with Cons.prems x obtain fs where fs: "refresh_entry key r origin flush ttl now es = Some fs" "es' = x # fs"
        by auto
      from Cons.IH [OF fs(1)] show ?thesis unfolding fs(2) by (metis append_Cons)
    qed
  qed simp
  with that show thesis by blast
qed

lemma refresh_entry_None:
  assumes "wf_entries es" and "refresh_entry (extract_name_type r) r origin flush ttl now es = None"
  shows "identity r \<notin> set (ids es)"
  using assms
proof (induction es)
  case (Cons x es)
  then show ?case
    by (cases x) (auto simp: rec_id.same_iff dest: identity_name_type split: if_splits)
qed simp


section \<open>Insertion\<close>

text \<open>The element that an insertion leaves for its own record: a refresh keeps the stored record.\<close>

definition fresh_entry :: "mdns_record_variant \<Rightarrow> endpoint \<Rightarrow> int \<Rightarrow> record_cache \<Rightarrow> internal_entry" where
  "fresh_entry r origin now c =
     \<lparr>ie_record = (case cached c (identity r) of Some e \<Rightarrow> ie_record e | None \<Rightarrow> r), ie_origin = origin,
      ie_cache_flush = extract_cache_flush r, ie_wire_ttl = effective_ttl (cache_opts c) (extract_ttl r),
      inserted_at = now, flush_deadline = None\<rparr>"

text \<open>The elements before cache-flush handling.\<close>

definition upsert :: "mdns_record_variant \<Rightarrow> endpoint \<Rightarrow> int \<Rightarrow> nat \<Rightarrow> record_cache \<Rightarrow> cache_map" where
  "upsert r origin now hint c =
     (case refresh_entry (extract_name_type r) r origin (extract_cache_flush r)
             (effective_ttl (cache_opts c) (extract_ttl r)) now (m_entries c) of
        Some es \<Rightarrow> es
      | None \<Rightarrow> take hint (m_entries c) @ [(extract_name_type r, fresh_entry r origin now c)] @ drop hint (m_entries c))"

lemma entry_map_middle:
  assumes "wf_entries (ys @ (k, e) # zs)" and "identity (ie_record e') = identity (ie_record e)"
  shows "entry_map (ys @ (k, e') # zs) i = (if i = identity (ie_record e) then Some e' else entry_map (ys @ (k, e) # zs) i)"
    and "wf_entries (ys @ (k, e') # zs)"
  using assms by (induction ys) (auto simp: ids_def dest: identity_name_type)

lemma entry_map_place:
  assumes "wf_entries (ys @ zs)" and "identity (ie_record e) \<notin> set (ids (ys @ zs))" and "k = extract_name_type (ie_record e)"
  shows "entry_map (ys @ (k, e) # zs) i = (if i = identity (ie_record e) then Some e else entry_map (ys @ zs) i)"
    and "wf_entries (ys @ (k, e) # zs)"
  using assms by (induction ys) (auto simp: ids_def)

lemma upsert_spec:
  assumes "wf_cache c"
  shows "entry_map (upsert r origin now hint c) = (cached c)(identity r \<mapsto> fresh_entry r origin now c)"
    and "wf_entries (upsert r origin now hint c)"
proof -
  let ?refresh = "refresh_entry (extract_name_type r) r origin (extract_cache_flush r)
    (effective_ttl (cache_opts c) (extract_ttl r)) now (m_entries c)"
  have wf: "wf_entries (m_entries c)" using assms by (simp add: wf_cache_def)
  have "entry_map (upsert r origin now hint c) = (cached c)(identity r \<mapsto> fresh_entry r origin now c) \<and>
    wf_entries (upsert r origin now hint c)"
  proof (cases ?refresh)
    case None
    then have new: "identity r \<notin> set (ids (m_entries c))" by (rule refresh_entry_None [OF wf])
    then have "cached c (identity r) = None" by (simp add: cached_def entry_map_None)
    then have r: "ie_record (fresh_entry r origin now c) = r" by (simp add: fresh_entry_def)
    have u: "upsert r origin now hint c
        = take hint (m_entries c) @ (extract_name_type r, fresh_entry r origin now c) # drop hint (m_entries c)"
      using None by (simp add: upsert_def)
    show ?thesis
      unfolding u using entry_map_place [of "take hint (m_entries c)" "drop hint (m_entries c)" "fresh_entry r origin now c"]
        wf new by (auto simp: r cached_def fun_eq_iff)
  next
    case (Some es')
    then obtain ys e zs where es: "m_entries c = ys @ (extract_name_type r, e) # zs"
      "identity (ie_record e) = identity r"
      "es' = ys @ (extract_name_type r, e\<lparr>inserted_at := now, ie_wire_ttl := effective_ttl (cache_opts c) (extract_ttl r),
         ie_cache_flush := extract_cache_flush r, ie_origin := origin, flush_deadline := None\<rparr>) # zs"
      by (rule refresh_entry_Some)
    have "cached c (identity r) = Some e"
      unfolding cached_def using entry_map_mem [OF wf, of "extract_name_type r" e] es(1,2) by simp
    then have f: "fresh_entry r origin now c = e\<lparr>inserted_at := now,
         ie_wire_ttl := effective_ttl (cache_opts c) (extract_ttl r), ie_cache_flush := extract_cache_flush r,
         ie_origin := origin, flush_deadline := None\<rparr>"
      by (cases e) (simp add: fresh_entry_def)
    have u: "upsert r origin now hint c = ys @ (extract_name_type r, fresh_entry r origin now c) # zs"
      using Some es(3) by (simp add: upsert_def f)
    have "identity (ie_record (fresh_entry r origin now c)) = identity (ie_record e)" by (simp add: f)
    from entry_map_middle [OF _ this, of ys "extract_name_type r" zs] wf es show ?thesis
      unfolding u by (auto simp: cached_def fun_eq_iff)
  qed
  then show "entry_map (upsert r origin now hint c) = (cached c)(identity r \<mapsto> fresh_entry r origin now c)"
    "wf_entries (upsert r origin now hint c)" by simp_all
qed

lemma insert_record_eq:
  assumes "wf_cache c"
  shows "insert_record r origin now1 now2 hint c =
    (let c' = c\<lparr>m_entries := upsert r origin now1 hint c\<rparr>
     in if extract_cache_flush r then apply_cache_flush (extract_name_type r) origin now2 c' else (c', None))"
proof -
  have "ie_record (fresh_entry r origin now1 c) = r"
    if "refresh_entry (extract_name_type r) r origin (extract_cache_flush r)
      (effective_ttl (cache_opts c) (extract_ttl r)) now1 (m_entries c) = None"
    using refresh_entry_None [OF _ that] assms by (simp add: wf_cache_def fresh_entry_def cached_def entry_map_None [symmetric])
  then show ?thesis
    by (auto simp: insert_record_def upsert_def fresh_entry_def Let_def split: option.splits)
qed

definition flush_if :: "bool \<Rightarrow> record_name_type \<Rightarrow> endpoint \<Rightarrow> int \<Rightarrow> record_name_type \<Rightarrow> internal_entry \<Rightarrow> internal_entry" where
  "flush_if flush key origin deadline k e = (if flush then flush_key key origin deadline k e else e)"

lemma insert_record_entries:
  assumes "wf_cache c"
  shows "m_entries (fst (insert_record r origin now1 now2 hint c)) =
    map (\<lambda>(k, e). (k, flush_if (extract_cache_flush r) (extract_name_type r) origin
      (now2 + seconds (goodbye_grace (cache_opts c))) k e)) (upsert r origin now1 hint c)"
  using flush_loop_entries [of "extract_name_type r" origin now2 "now2 + seconds (goodbye_grace (cache_opts c))"
      "upsert r origin now1 hint c" "[]" default_cache_entry]
  by (auto simp: insert_record_eq [OF assms] apply_cache_flush_def Let_def flush_if_def case_prod_beta)

lemma insert_record_wf:
  assumes "wf_cache c"
  shows "wf_cache (fst (insert_record r origin now1 now2 hint c))"
    and "cache_opts (fst (insert_record r origin now1 now2 hint c)) = cache_opts c"
  using upsert_spec(2) [OF assms]
  by (simp_all add: wf_cache_def insert_record_entries [OF assms] wf_entries_map flush_if_def)
    (simp add: insert_record_eq [OF assms] apply_cache_flush_def Let_def case_prod_beta)

lemma insert_record_cached:
  assumes "wf_cache c"
  shows "cached (fst (insert_record r origin now1 now2 hint c)) i =
    (if i = identity r then Some (fresh_entry r origin now1 c)
     else map_option (flush_if (extract_cache_flush r) (extract_name_type r) origin
       (now2 + seconds (goodbye_grace (cache_opts c))) (extract_name_type i)) (cached c i))"
proof -
  have "flush_if f (extract_name_type r) origin d k (fresh_entry r origin now1 c) = fresh_entry r origin now1 c" for f d k
    by (simp add: flush_if_def flush_key_def flush_entry_def fresh_entry_def)
  then show ?thesis
    unfolding cached_def insert_record_entries [OF assms]
    by (subst entry_map_map [OF upsert_spec(2) [OF assms]]) (auto simp: flush_if_def upsert_spec(1) [OF assms] cached_def)
qed

section \<open>Expiry\<close>

lemma erase_loop_eq:
  "erase_loop now es = (filter (\<lambda>(k, e). \<not> is_expired e now) es,
     [to_cache_entry e now. (k, e) \<leftarrow> es, is_expired e now])"
  by (induction es) (auto simp: Let_def)

lemma erase_expired_wf: "wf_cache c \<Longrightarrow> wf_cache (fst (erase_expired now c))"
  by (auto simp: wf_cache_def erase_expired_def erase_loop_eq wf_entries_def list_all_iff ids_def distinct_map_filter)

lemma erase_expired_cached:
  assumes "wf_cache c"
  shows "cached (fst (erase_expired now c)) i =
    (case cached c i of Some e \<Rightarrow> if is_expired e now then None else Some e | None \<Rightarrow> None)"
proof -
  have "entry_map (filter (\<lambda>(k, e). \<not> is_expired e now) es) i =
    (case entry_map es i of Some e \<Rightarrow> if is_expired e now then None else Some e | None \<Rightarrow> None)"
    if "wf_entries es" for es
    using that
  proof (induction es)
    case (Cons x es)
    obtain k e where x: "x = (k, e)" by fastforce
    have "i = identity (ie_record e) \<Longrightarrow> entry_map es i = None" using Cons.prems x by (simp add: entry_map_None)
    with Cons x show ?case by (auto split: option.splits)
  qed simp
  with assms show ?thesis by (simp add: cached_def erase_expired_def erase_loop_eq wf_cache_def)
qed


section \<open>Histories\<close>

inductive cache_reachable :: "cache_options \<Rightarrow> record_cache \<Rightarrow> bool" for opts where
  start: "cache_reachable opts (new_cache opts)"
| inserted: "cache_reachable opts c \<Longrightarrow> cache_reachable opts (fst (insert_record r origin now1 now2 hint c))"
| erased: "cache_reachable opts c \<Longrightarrow> cache_reachable opts (fst (erase_expired now c))"

lemma reachable_wf: "cache_reachable opts c \<Longrightarrow> wf_cache c \<and> cache_opts c = opts"
proof (induction rule: cache_reachable.induct)
  case start
  show ?case by (simp add: new_cache_def wf_cache_def)
next
  case (inserted c r origin now1 now2 hint)
  then show ?case using insert_record_wf by simp
next
  case (erased c now)
  then show ?case using erase_expired_wf by (simp add: erase_expired_def case_prod_beta)
qed

lemma find_entries_cached:
  assumes "wf_cache c"
  shows "set (find_entries n t now c) =
    {to_cache_entry e now | e i. cached c i = Some e \<and> extract_name_type i = \<lparr>rnt_name = n, rnt_type = t\<rparr>}" (is "?L = ?R")
proof -
  have wf: "wf_entries (m_entries c)" using assms by (simp add: wf_cache_def)
  have "?L = {to_cache_entry e now | e. (\<lparr>rnt_name = n, rnt_type = t\<rparr>, e) \<in> set (m_entries c)}"
    by (auto simp: find_entries_def)
  also have "\<dots> = ?R"
    using entry_map_mem [OF wf] entry_map_key [OF wf] wf_entries_key [OF wf]
    unfolding cached_def by (auto; metis extract_name_type_identity)
  finally show ?thesis .
qed

lemma is_expired_flushed:
  assumes "ie_origin e \<noteq> origin" and "deadline \<le> now"
  shows "is_expired (flush_entry origin deadline e) now"
  using assms by (auto simp: is_expired_def flush_entry_def split: option.split)

lemma ie_origin_flush_entry [simp]: "ie_origin (flush_entry origin d e) = ie_origin e"
  by (simp add: flush_entry_def)

section \<open>Properties\<close>

text \<open>
  C38: In every reachable cache each entry is filed under the name and type of its record and no two
  entries have the same identity: repeated announcements refresh, they never duplicate.
\<close>

theorem cache_invariant:
  assumes "cache_reachable opts c"
  shows "list_all (\<lambda>(k, e). k = extract_name_type (ie_record e)) (m_entries c) \<and>
    distinct (map (\<lambda>(k, e). identity (ie_record e)) (m_entries c))"
  using reachable_wf [OF assms] by (simp add: wf_cache_def wf_entries_def ids_def)

definition example_a :: "string \<Rightarrow> u32 \<Rightarrow> mdns_record_variant" where
  "example_a addr ttl = Rec_a \<lparr>rec_name = dns_name ''host.local'', rec_ttl = ttl, rec_class = Class_in, rec_length = 4,
     sender_address = [], rec_cache_flush = True, a_address_string = addr\<rparr>"

definition example_origin :: endpoint where
  "example_origin = \<lparr>ep_address = ''10.0.0.1'', ep_port = 5353\<rparr>"

definition example_cache :: record_cache where
  "example_cache = fst (insert_record (example_a ''10.0.0.1'' 120) example_origin 0 0 0 (new_cache default_cache_options))"

lemma example_cache_reachable: "cache_reachable default_cache_options example_cache"
  unfolding example_cache_def by (intro cache_reachable.intros)

theorem cache_invariant_witness:
  "list_all (\<lambda>(k, e). k = extract_name_type (ie_record e)) (m_entries example_cache) \<and>
    distinct (map (\<lambda>(k, e). identity (ie_record e)) (m_entries example_cache))"
  by (rule cache_invariant [OF example_cache_reachable])

text \<open>
  C8: Insertion refines the abstract cache. Afterwards the inserted record is cached with the new
  origin, flush bit, effective TTL (the goodbye grace for TTL 0) and insertion time and without a
  flush deadline; every other entry is unchanged, except that a record with the cache-flush bit
  limits the life of the entries of the same name and type from other origins.
\<close>

theorem insert_refines:
  assumes "cache_reachable opts c"
  shows "cached (fst (insert_record r origin now1 now2 hint c)) i =
    (if i = identity r then Some (fresh_entry r origin now1 c)
     else case cached c i of
            None \<Rightarrow> None
          | Some e \<Rightarrow> Some (if extract_cache_flush r \<and> extract_name_type i = extract_name_type r
                          then flush_entry origin (now2 + seconds (goodbye_grace opts)) e else e))"
  using insert_record_cached [of c r origin now1 now2 hint i] reachable_wf [OF assms]
  by (auto simp: flush_if_def flush_key_def split: option.split)

theorem insert_refines_witness:
  "cached (fst (insert_record (example_a ''10.0.0.2'' 120) example_origin 5 5 0 example_cache))
      (identity (example_a ''10.0.0.2'' 120))
    = Some (fresh_entry (example_a ''10.0.0.2'' 120) example_origin 5 example_cache)"
  using insert_refines [OF example_cache_reachable] by simp

text \<open>
  Lookup after any history: \<open>find\<close> returns exactly the cached entries of the given name and
  type, and after \<open>erase_expired\<close> an identity is cached exactly when it was cached and had not
  expired; the erased entries are the ones returned.
\<close>

lemma find_and_erase_correct:
  assumes "cache_reachable opts c"
  shows "set (find_entries n t now c) =
      {to_cache_entry e now | e i. cached c i = Some e \<and> extract_name_type i = \<lparr>rnt_name = n, rnt_type = t\<rparr>} \<and>
    cached (fst (erase_expired now c)) i =
      (case cached c i of Some e \<Rightarrow> if is_expired e now then None else Some e | None \<Rightarrow> None) \<and>
    fst (snd (erase_expired now c)) = [to_cache_entry e now. (k, e) \<leftarrow> m_entries c, is_expired e now]"
  using reachable_wf [OF assms] erase_expired_cached [of c now i] find_entries_cached [of c n t now]
  by (simp add: erase_expired_def erase_loop_eq)

lemma find_and_erase_correct_example:
  "cached (fst (erase_expired (seconds 120) example_cache)) (identity (example_a ''10.0.0.1'' 120)) = None"
proof -
  have c: "cached (new_cache default_cache_options) i = None" for i by (simp add: new_cache_def cached_def)
  have "cached example_cache (identity (example_a ''10.0.0.1'' 120))
      = Some (fresh_entry (example_a ''10.0.0.1'' 120) example_origin 0 (new_cache default_cache_options))"
    unfolding example_cache_def by (subst insert_record_cached) (simp_all add: wf_cache_def new_cache_def)
  with find_and_erase_correct [OF example_cache_reachable, of _ _ "seconds 120" "identity (example_a ''10.0.0.1'' 120)"]
  show ?thesis
    by (simp add: is_expired_def fresh_entry_def effective_ttl_def extract_ttl_def example_a_def seconds_def new_cache_def)
qed

text \<open>
  Cache flush (RFC 6762 section 10.2) and goodbye (10.1). After a record with the cache-flush bit
  has been inserted, \<open>erase_expired\<close> at or after the grace period leaves no entry of its name and type
  from any other origin; and after a record with TTL 0 has been inserted, \<open>erase_expired\<close> at or after
  the grace period removes it.
\<close>

lemma flush_and_goodbye_expire:
  fixes r :: mdns_record_variant and origin :: endpoint and hint :: nat
  assumes "cache_reachable opts c" and "now1 \<le> now2" and "now2 + seconds (goodbye_grace opts) \<le> now"
    and "0 \<le> goodbye_grace opts" and "goodbye_grace opts < 2 ^ 32"
  defines "c' \<equiv> fst (erase_expired now (fst (insert_record r origin now1 now2 hint c)))"
  shows "(extract_cache_flush r \<and> extract_name_type i = extract_name_type r \<and> cached c' i = Some e \<longrightarrow> ie_origin e = origin) \<and>
    (extract_ttl r = 0 \<longrightarrow> cached c' (identity r) = None)"
proof -
  note wf = reachable_wf [OF assms(1)]
  let ?d = "fst (insert_record r origin now1 now2 hint c)"
  have wf': "wf_cache ?d" using wf insert_record_wf by simp
  have c': "cached c' i = (case cached ?d i of Some e \<Rightarrow> if is_expired e now then None else Some e | None \<Rightarrow> None)" for i
    unfolding c'_def by (rule erase_expired_cached [OF wf'])
  have d: "cached ?d i = (if i = identity r then Some (fresh_entry r origin now1 c)
      else map_option (flush_if (extract_cache_flush r) (extract_name_type r) origin
        (now2 + seconds (goodbye_grace opts)) (extract_name_type i)) (cached c i))" for i
    using insert_record_cached [of c r origin now1 now2 hint i] wf by simp
  have "ie_origin e = origin"
    if kept: "extract_cache_flush r" "extract_name_type i = extract_name_type r" "cached c' i = Some e"
  proof (rule ccontr)
    assume other: "ie_origin e \<noteq> origin"
    then obtain a where "cached c i = Some a" "i \<noteq> identity r" "ie_origin a \<noteq> origin"
      "\<not> is_expired (flush_entry origin (now2 + seconds (goodbye_grace opts)) a) now"
      using kept unfolding c' d
      by (cases "cached c i") (auto simp: fresh_entry_def flush_if_def flush_key_def split: if_splits)
    then show False using is_expired_flushed [OF _ assms(3)] by blast
  qed
  moreover have "cached c' (identity r) = None" if "extract_ttl r = 0"
  proof -
    have "uint (effective_ttl opts 0) = goodbye_grace opts"
      using assms(4,5) by (simp add: effective_ttl_def uint_word_of_int)
    then have "is_expired (fresh_entry r origin now1 c) now"
      using that assms(2,3) wf by (simp add: is_expired_def fresh_entry_def)
    then show ?thesis unfolding c' d by simp
  qed
  ultimately show ?thesis by blast
qed

lemma flush_and_goodbye_expire_example:
  "cached (fst (erase_expired (seconds 2) (fst (insert_record (example_a ''10.0.0.1'' 0) example_origin 0 0 0 example_cache))))
     (identity (example_a ''10.0.0.1'' 0)) = None"
  using flush_and_goodbye_expire [OF example_cache_reachable, of 0 0 "seconds 2" "example_a ''10.0.0.1'' 0"]
  by (simp add: default_cache_options_def seconds_def extract_ttl_def example_a_def)

text \<open>
  A cache flush spares the sender's own stale records. When an origin announces a new record with
  the cache-flush bit, an older record of the same name and type from the same origin keeps its
  lifetime: a host that moves to a new address leaves its old address cached until the TTL ends.
\<close>

lemma same_origin_not_flushed:
  assumes "cache_reachable opts c" and "cached c i = Some e" and "ie_origin e = origin" and "i \<noteq> identity r"
  shows "cached (fst (insert_record r origin now1 now2 hint c)) i = Some e"
  using insert_record_cached [of c r origin now1 now2 hint i] reachable_wf [OF assms(1)] assms(2-4)
  by (simp add: flush_if_def flush_key_def flush_entry_def)

lemma same_origin_not_flushed_example:
  "\<exists>e. cached (fst (insert_record (example_a ''10.0.0.2'' 120) example_origin 5 5 0 example_cache))
     (identity (example_a ''10.0.0.1'' 120)) = Some e"
proof -
  have "cached example_cache (identity (example_a ''10.0.0.1'' 120))
      = Some (fresh_entry (example_a ''10.0.0.1'' 120) example_origin 0 (new_cache default_cache_options))"
    unfolding example_cache_def by (subst insert_record_cached) (simp_all add: wf_cache_def new_cache_def)
  from same_origin_not_flushed [OF example_cache_reachable this, of example_origin "example_a ''10.0.0.2'' 120"]
  show ?thesis by (auto simp: fresh_entry_def example_a_def strip_base_def)
qed

end
