(* ===== verification/Double.thy ===== *)
theory Double
  imports Complex_Main "HOL-Library.Log_Nat"
begin

text \<open>
  The arithmetic on \<open>double\<close> that the sources use for scaling durations and TTLs: a product, rounded
  to the nearest binary64 value (53 significant bits, ties to even), and the truncating conversion
  to an integer. Values are rationals; exponents are unbounded, because the magnitudes of the
  sources (TTLs and millisecond counts) are far from overflow and underflow.
\<close>

section \<open>Rounding\<close>

text \<open>The binary exponent of a positive rational.\<close>

definition ilog2 :: "rat \<Rightarrow> int" where
  "ilog2 x =
     (let (a, b) = quotient_of x;
          k = int (floorlog 2 (nat a)) - int (floorlog 2 (nat b))
      in if 2 powi k \<le> x then k else k - 1)"

definition round_half_even :: "rat \<Rightarrow> int" where
  "round_half_even x =
     (let f = \<lfloor>x\<rfloor>; d = x - of_int f
      in if d < 1 / 2 then f else if d > 1 / 2 then f + 1 else if even f then f else f + 1)"

definition round_double :: "rat \<Rightarrow> rat" where
  "round_double x =
     (if x = 0 then 0
      else (let s = 2 powi (ilog2 \<bar>x\<bar> - 52) in of_int (round_half_even (x / s)) * s))"

definition double_mul :: "rat \<Rightarrow> rat \<Rightarrow> rat" where
  "double_mul x y = round_double (x * y)"

definition double_of_int :: "int \<Rightarrow> rat" where
  "double_of_int n = round_double (of_int n)"

text \<open>Conversion to an integer type discards the fraction.\<close>

definition trunc :: "rat \<Rightarrow> int" where
  "trunc x = (if x \<ge> 0 then \<lfloor>x\<rfloor> else \<lceil>x\<rceil>)"

section \<open>Exact cases\<close>

lemma round_half_even_int [simp]: "round_half_even (of_int n) = n"
  by (simp add: round_half_even_def Let_def)

lemma trunc_of_int [simp]: "trunc (of_int n) = n"
  by (simp add: trunc_def)

lemma ilog2_lower:
  assumes "0 < x"
  shows "2 powi (ilog2 x) \<le> x"
proof -
  obtain a b where q: "quotient_of x = (a, b)" by fastforce
  have b: "0 < b" using quotient_of_denom_pos [OF q] .
  have x: "x = of_int a / of_int b" using quotient_of_div [OF q] .
  have a: "0 < a" using assms b x by (simp add: zero_less_divide_iff)
  let ?fa = "floorlog 2 (nat a)" and ?fb = "floorlog 2 (nat b)"
  have "2 ^ (?fa - 1) \<le> nat a" "nat b < 2 ^ ?fb" "0 < ?fa"
    using a b floorlog_bounds [of "nat a" 2] floorlog_bounds [of "nat b" 2] by (auto simp: floorlog_def)
  then have "(2 :: rat) ^ (?fa - 1) \<le> of_int a" "of_int b \<le> (2 :: rat) ^ ?fb"
    using a b by (metis int_nat_eq of_int_le_iff of_int_numeral of_int_power of_nat_le_iff of_nat_numeral of_nat_power order.strict_implies_order)+
  then have "(2 :: rat) ^ (?fa - 1) / 2 ^ ?fb \<le> x" unfolding x using a b by (intro frac_le) auto
  moreover have "(2 :: rat) powi (int ?fa - int ?fb - 1) = 2 ^ (?fa - 1) / 2 ^ ?fb"
  proof -
    obtain n where "?fa = Suc n" using \<open>0 < ?fa\<close> gr0_implies_Suc by blast
    then show ?thesis by (simp add: power_int_diff)
  qed
  ultimately show ?thesis by (simp add: ilog2_def q Let_def)
qed

text \<open>A value with at most 53 significant bits is not rounded.\<close>

lemma round_double_exact:
  assumes "x = of_int m * 2 powi k" and "\<bar>m\<bar> < 2 ^ 53"
  shows "round_double x = x"
proof (cases "x = 0")
  case False
  let ?e = "ilog2 \<bar>x\<bar>"
  have ax: "\<bar>x\<bar> = of_int \<bar>m\<bar> * 2 powi k" using assms(1) by (simp add: abs_mult)
  have "2 powi ?e \<le> \<bar>x\<bar>" using False by (intro ilog2_lower) simp
  also have "\<dots> < 2 ^ 53 * 2 powi k"
  proof -
    have "(of_int \<bar>m\<bar> :: rat) < 2 ^ 53" using assms(2) by (metis of_int_less_iff of_int_numeral of_int_power)
    then show ?thesis unfolding ax by simp
  qed
  also have "\<dots> = (2 :: rat) powi (53 + k)" by (simp add: power_int_add)
  finally have "(2 :: rat) powi ?e < 2 powi (53 + k)" .
  then have "?e < 53 + k" by (metis leD leI one_le_numeral power_int_increasing)
  then obtain j where j: "k = int j + (?e - 52)" using zle_iff_zadd [of "?e - 52" k] by auto
  have "(2 :: rat) powi k = 2 ^ j * 2 powi (?e - 52)"
    using power_int_add [of "2 :: rat" "int j" "?e - 52"] by (simp only: j [symmetric] power_int_of_nat) simp
  then have "x = of_int (m * 2 ^ j) * 2 powi (?e - 52)"
    using assms(1) by simp
  then have "x / 2 powi (?e - 52) = of_int (m * 2 ^ j)"
    by (metis nonzero_mult_div_cancel_right power_int_not_zero zero_neq_numeral)
  then have "of_int (round_half_even (x / 2 powi (?e - 52))) * 2 powi (?e - 52) = x"
    using \<open>x = of_int (m * 2 ^ j) * 2 powi (?e - 52)\<close> by (simp only: round_half_even_int)
  with False show ?thesis by (simp add: round_double_def Let_def)
qed (simp add: round_double_def)

lemma double_of_int_exact: "\<bar>n\<bar> < 2 ^ 53 \<Longrightarrow> double_of_int n = of_int n"
  unfolding double_of_int_def by (rule round_double_exact [of _ n 0]) simp_all

lemma double_mul_exact:
  "\<bar>m * n\<bar> < 2 ^ 53 \<Longrightarrow> double_mul (of_int m) (of_int n * 2 powi k) = of_int (m * n) * 2 powi k"
  unfolding double_mul_def by (subst round_double_exact [of _ "m * n" k]) simp_all

section \<open>Bounds\<close>

lemma round_half_even_bounds: "of_int (round_half_even x) \<le> x + 1 / 2" "x - 1 / 2 \<le> of_int (round_half_even x)"
  by (auto simp: round_half_even_def Let_def) linarith+

text \<open>Rounding keeps the sign and enlarges a value by at most one unit in the last place.\<close>

lemma round_double_bounds:
  assumes "0 \<le> x"
  shows "0 \<le> round_double x" and "round_double x \<le> x * (1 + 1 / 2 ^ 53)"
proof -
  have "0 \<le> round_double x \<and> round_double x \<le> x * (1 + 1 / 2 ^ 53)"
  proof (cases "x = 0")
    case False
    define s where "s = (2 :: rat) powi (ilog2 \<bar>x\<bar> - 52)"
    have r: "round_double x = of_int (round_half_even (x / s)) * s" using False by (simp add: round_double_def s_def Let_def)
    have s: "0 < s" "s * 2 ^ 52 \<le> x"
      using ilog2_lower [of x] False assms by (simp_all add: s_def power_int_diff)
    have "0 \<le> \<lfloor>x / s\<rfloor>" using assms s(1) by simp
    then have "0 \<le> round_half_even (x / s)" by (auto simp: round_half_even_def Let_def)
    with s(1) have "0 \<le> round_double x" by (simp add: r)
    moreover have "round_double x \<le> (x / s + 1 / 2) * s"
      unfolding r using s(1) round_half_even_bounds(1) by (intro mult_right_mono) simp_all
    then have "round_double x \<le> x + s / 2" using s(1) by (simp add: distrib_right)
    then have "round_double x \<le> x * (1 + 1 / 2 ^ 53)" using s(2) by (simp add: distrib_left)
    ultimately show ?thesis by blast
  qed (simp add: round_double_def)
  then show "0 \<le> round_double x" "round_double x \<le> x * (1 + 1 / 2 ^ 53)" by simp_all
qed

lemma trunc_bounds: "0 \<le> x \<Longrightarrow> 0 \<le> trunc x \<and> of_int (trunc x) \<le> x"
  by (simp add: trunc_def)

end
