(* ===== verification/Mdns_Options.thy ===== *)
theory Mdns_Options
  imports Dns_Types Double
begin

text \<open>
  \<open>mdns_options.h\<close> (the protocol tunables), \<open>detail/query_backoff.h\<close> and \<open>detail/ttl_refresh.h\<close>:
  when queries are repeated and when cached records are refreshed. Durations are counts of their
  \<open>std::chrono\<close> unit, a \<open>double\<close> is the rational it denotes.
\<close>

section \<open>Tunables\<close>

datatype ttl_unknown_policy = Accept | Reject

record mdns_options =
  initial_interval :: int
  max_interval :: int
  backoff_multiplier :: rat
  ttl_refresh_thresholds :: "rat list"
  refresh_jitter_pct :: rat
  tc_wait_min :: int
  tc_wait_max :: int
  max_known_answers :: nat
  mdns_record_ttl :: int
  response_delay_min :: int
  response_delay_max :: int
  legacy_unicast_ttl :: int
  ka_suppression_fraction :: rat
  tc_suppression_fraction :: rat
  max_query_payload :: nat
  tc_continuation_delay :: int
  receive_ttl_minimum :: u32
  unknown_ttl_policy :: ttl_unknown_policy

text \<open>The default member initialisers; decimal literals are rounded to \<open>double\<close>.\<close>

definition default_mdns_options :: mdns_options where
  "default_mdns_options =
     \<lparr>initial_interval = 1000, max_interval = 3600000, backoff_multiplier = 2,
      ttl_refresh_thresholds = map round_double [80 / 100, 85 / 100, 90 / 100, 95 / 100],
      refresh_jitter_pct = round_double (2 / 100), tc_wait_min = 400, tc_wait_max = 500,
      max_known_answers = 0, mdns_record_ttl = 4500, response_delay_min = 20, response_delay_max = 120,
      legacy_unicast_ttl = 10, ka_suppression_fraction = 1 / 2, tc_suppression_fraction = 1 / 2,
      max_query_payload = 1472, tc_continuation_delay = 0, receive_ttl_minimum = 255,
      unknown_ttl_policy = Accept\<rparr>"

text \<open>
  \<open>static_cast<uint32_t>(static_cast<double>(ttl) * fraction)\<close>; the conversion is undefined when the
  truncated value does not fit.
\<close>

definition ttl_fraction :: "int \<Rightarrow> rat \<Rightarrow> u32 option" where
  "ttl_fraction ttl fraction =
     (let t = trunc (double_mul (double_of_int ttl) fraction)
      in if 0 \<le> t \<and> t < 2 ^ 32 then Some (word_of_int t) else None)"

section \<open>Query backoff\<close>

record query_backoff_state =
  current_interval :: int
  backoff_first :: bool

definition new_backoff :: query_backoff_state where
  "new_backoff = \<lparr>current_interval = 0, backoff_first = True\<rparr>"

text \<open>\<open>None\<close>: the conversion of the product to a 64-bit count is out of range.\<close>

definition advance_backoff :: "mdns_options \<Rightarrow> query_backoff_state \<Rightarrow> (int \<times> query_backoff_state) option" where
  "advance_backoff opts s =
     (if backoff_first s then
        Some (initial_interval opts, s\<lparr>backoff_first := False, current_interval := initial_interval opts\<rparr>)
      else
        (let next_fp = double_mul (double_of_int (current_interval s)) (backoff_multiplier opts);
             nxt = trunc next_fp
         in if nxt < - (2 ^ 63) \<or> 2 ^ 63 \<le> nxt then None
            else
              (let interval = (if nxt < max_interval opts then nxt else max_interval opts)
               in Some (interval, s\<lparr>current_interval := interval\<rparr>))))"

section \<open>Refresh schedule\<close>

record ttl_refresh_schedule =
  fire_at :: "int list"
  next_idx :: nat

text \<open>
  One fire point: \<open>jitter\<close> is what the uniform distribution delivered. The offset is converted from
  milliseconds to the nanosecond clock; that product is rounded as well.
\<close>

definition refresh_point :: "rat \<Rightarrow> rat \<Rightarrow> rat \<Rightarrow> rat \<Rightarrow> int \<Rightarrow> int" where
  "refresh_point wire_ms max_jitter_ms threshold jitter inserted =
     (let offset_ms = double_mul wire_ms threshold;
          offset_ms = (if max_jitter_ms > 0 then round_double (offset_ms + jitter) else offset_ms)
      in inserted + trunc (double_mul offset_ms 1000000))"

definition make_refresh_schedule :: "u32 \<Rightarrow> mdns_options \<Rightarrow> int \<Rightarrow> (nat \<Rightarrow> rat) \<Rightarrow> ttl_refresh_schedule" where
  "make_refresh_schedule wire_ttl_seconds opts inserted jitter =
     (let wire_ms = double_mul (double_of_int (uint wire_ttl_seconds)) 1000;
          max_jitter_ms = double_mul wire_ms (refresh_jitter_pct opts)
      in \<lparr>fire_at = map (\<lambda>(i, threshold). refresh_point wire_ms max_jitter_ms threshold (jitter i) inserted)
            (zip [0..<length (ttl_refresh_thresholds opts)] (ttl_refresh_thresholds opts)),
          next_idx = 0\<rparr>)"

definition next_refresh_point :: "ttl_refresh_schedule \<Rightarrow> int option \<times> ttl_refresh_schedule" where
  "next_refresh_point sched =
     (if next_idx sched \<ge> length (fire_at sched) then (None, sched)
      else (Some (fire_at sched ! next_idx sched), sched\<lparr>next_idx := next_idx sched + 1\<rparr>))"

definition has_pending_refresh :: "ttl_refresh_schedule \<Rightarrow> bool" where
  "has_pending_refresh sched \<longleftrightarrow> next_idx sched < length (fire_at sched)"

section \<open>Lemmas\<close>

lemma ttl_fraction_half:
  assumes "0 \<le> ttl" and "ttl < 2 ^ 32"
  shows "ttl_fraction ttl (1 / 2) = Some (word_of_int (ttl div 2))"
proof -
  have d: "double_of_int ttl = of_int ttl" using assms by (intro double_of_int_exact) simp
  have "double_mul (of_int ttl) (of_int 1 * 2 powi (- 1)) = of_int (ttl * 1) * 2 powi (- 1)"
    using assms by (intro double_mul_exact) simp
  then have "double_mul (double_of_int ttl) (1 / 2) = of_int ttl / 2" by (simp add: d power_int_minus)
  moreover have "trunc (of_int ttl / 2) = ttl div 2"
    using assms(1) by (simp add: trunc_def floor_divide_of_int_eq [of ttl 2, simplified, where ?'a = rat])
  ultimately have "trunc (double_mul (double_of_int ttl) (1 / 2)) = ttl div 2" by (simp only:)
  then show ?thesis using assms by (simp add: ttl_fraction_def Let_def)
qed

text \<open>Iterating the scheduler: the interval of the n-th call.\<close>

fun backoff_interval :: "mdns_options \<Rightarrow> query_backoff_state \<Rightarrow> nat \<Rightarrow> int option" where
  "backoff_interval opts s 0 = map_option fst (advance_backoff opts s)"
| "backoff_interval opts s (Suc n) =
     (case advance_backoff opts s of None \<Rightarrow> None | Some (_, s') \<Rightarrow> backoff_interval opts s' n)"

lemma advance_backoff_double:
  assumes "backoff_multiplier opts = 2" and "\<not> backoff_first s"
    and "0 \<le> current_interval s" and "current_interval s \<le> max_interval opts" and "max_interval opts < 2 ^ 52"
  shows "advance_backoff opts s = Some (min (2 * current_interval s) (max_interval opts),
    s\<lparr>current_interval := min (2 * current_interval s) (max_interval opts)\<rparr>)"
proof -
  let ?c = "current_interval s"
  have d: "double_of_int ?c = of_int ?c" using assms by (intro double_of_int_exact) simp
  have "double_mul (of_int ?c) (of_int 1 * 2 powi 1) = of_int (?c * 1) * 2 powi 1"
    using assms by (intro double_mul_exact) simp
  then have "trunc (double_mul (double_of_int ?c) (backoff_multiplier opts)) = 2 * ?c"
    using trunc_of_int [of "2 * ?c"] by (simp add: d assms(1) mult.commute)
  with assms show ?thesis by (simp add: advance_backoff_def Let_def min_def)
qed

lemma backoff_interval_double:
  assumes "backoff_multiplier opts = 2" and "max_interval opts < 2 ^ 52"
    and "\<not> backoff_first s" and "0 \<le> current_interval s" and "current_interval s \<le> max_interval opts"
  shows "backoff_interval opts s n = Some (min (2 ^ Suc n * current_interval s) (max_interval opts))"
  using assms(3-5)
proof (induction n arbitrary: s)
  case 0
  then show ?case using advance_backoff_double [OF assms(1) _ _ _ assms(2)] by simp
next
  case (Suc n)
  let ?m = "min (2 * current_interval s) (max_interval opts)" and ?s = "s\<lparr>current_interval := min (2 * current_interval s) (max_interval opts)\<rparr>"
  have "backoff_interval opts ?s n = Some (min (2 ^ Suc n * ?m) (max_interval opts))"
    using Suc.IH [of ?s] Suc.prems by simp
  moreover have "min (2 ^ Suc n * ?m) (max_interval opts) = min (2 ^ Suc (Suc n) * current_interval s) (max_interval opts)"
  proof (cases "2 * current_interval s \<le> max_interval opts")
    case False
    have A: "max_interval opts \<le> 2 ^ Suc n * max_interval opts"
      using Suc.prems mult_right_mono [OF one_le_power [of "2 :: int" "Suc n"], of "max_interval opts"] by simp
    also have "\<dots> \<le> 2 ^ Suc n * (2 * current_interval s)" using False by (intro mult_left_mono) simp_all
    also have "\<dots> = 2 ^ Suc (Suc n) * current_interval s" by simp
    finally have "min (2 ^ Suc (Suc n) * current_interval s) (max_interval opts) = max_interval opts"
      by (rule min_absorb2)
    moreover have "?m = max_interval opts" using False by simp
    ultimately show ?thesis using min_absorb2 [OF A] by (simp only:)
  qed (simp add: min_def)
  ultimately show ?case using advance_backoff_double [OF assms(1) _ _ _ assms(2), of s] Suc.prems by simp
qed

text \<open>Scaling an interval of less than 35000 years by a moderate factor stays in range.\<close>

lemma scaled_range:
  assumes "0 \<le> c" and "c \<le> 2 ^ 50" and "0 \<le> m" and "m \<le> 1024"
  shows "0 \<le> trunc (double_mul (double_of_int c) m)" and "trunc (double_mul (double_of_int c) m) < 2 ^ 63"
proof -
  have d: "double_of_int c = of_int c" using assms by (intro double_of_int_exact) simp
  have c: "(of_int c :: rat) \<le> 2 ^ 50" using assms(2) of_int_le_iff [of c "2 ^ 50", where ?'a = rat] by simp
  have p: "0 \<le> of_int c * m" "of_int c * m \<le> 2 ^ 50 * 1024" using assms c by (simp, intro mult_mono) simp_all
  note r = round_double_bounds [OF p(1)] 
  note t = trunc_bounds [OF r(1)]
  show "0 \<le> trunc (double_mul (double_of_int c) m)" using t by (simp add: d double_mul_def)
  have "of_int (trunc (double_mul (double_of_int c) m)) \<le> of_int c * m * (1 + 1 / 2 ^ 53)"
    using t r(2) by (simp add: d double_mul_def)
  also have "\<dots> \<le> 2 ^ 50 * 1024 * (1 + 1 / 2 ^ 53)" using p(2) by (intro mult_right_mono) simp_all
  also have "\<dots> < 2 ^ 63" by simp
  finally show "trunc (double_mul (double_of_int c) m) < 2 ^ 63"
    using of_int_less_iff [of "trunc (double_mul (double_of_int c) m)" "2 ^ 63", where ?'a = rat] by simp
qed

lemma advance_backoff_defined:
  assumes "0 \<le> current_interval b" and "current_interval b \<le> 2 ^ 50" and "0 \<le> backoff_multiplier opts" and "backoff_multiplier opts \<le> 1024"
    and "0 \<le> initial_interval opts" and "initial_interval opts \<le> 2 ^ 50" and "0 \<le> max_interval opts" and "max_interval opts \<le> 2 ^ 50"
  shows "\<exists>i b'. advance_backoff opts b = Some (i, b') \<and> 0 \<le> current_interval b' \<and> current_interval b' \<le> 2 ^ 50"
  using assms scaled_range [OF assms(1-4)] by (auto simp: advance_backoff_def Let_def)

section \<open>Properties\<close>

text \<open>
  Exponential backoff (RFC 6762 section 5.2). With the multiplier 2 the n-th interval is the
  initial interval times \<open>2 ^ n\<close>, capped at the maximum; the floating-point product is exact for
  every interval below \<open>2 ^ 52\<close> milliseconds and the conversion never overflows.
\<close>

lemma backoff_doubles:
  assumes "backoff_multiplier opts = 2" and "0 \<le> initial_interval opts"
    and "initial_interval opts \<le> max_interval opts" and "max_interval opts < 2 ^ 52"
  shows "backoff_interval opts new_backoff n = Some (min (2 ^ n * initial_interval opts) (max_interval opts))"
proof (cases n)
  case 0
  then show ?thesis using assms by (simp add: advance_backoff_def new_backoff_def)
next
  case (Suc k)
  let ?s = "new_backoff\<lparr>backoff_first := False, current_interval := initial_interval opts\<rparr>"
  have "backoff_interval opts new_backoff (Suc k) = backoff_interval opts ?s k"
    by (simp add: advance_backoff_def new_backoff_def)
  also have "\<dots> = Some (min (2 ^ Suc k * initial_interval opts) (max_interval opts))"
    using backoff_interval_double [OF assms(1,4), of ?s k] assms(2,3) by (simp add: new_backoff_def)
  finally show ?thesis using Suc by simp
qed

lemma backoff_doubles_example: "backoff_interval default_mdns_options new_backoff 12 = Some 3600000"
  using backoff_doubles [of default_mdns_options 12] by (simp add: default_mdns_options_def)

end
