(* ===== verification/Recv_Loop.thy ===== *)
theory Recv_Loop
  imports Mdns_Options Timer
begin

text \<open>
  \<open>detail/recv_loop.h\<close>: the receive loop of every peer. It filters packets by IP TTL, hands the rest
  to its client and restarts the silence timer when the client found the packet relevant. The
  client callback is an argument; the loop state is a component of the client's state, reached by
  \<open>get\<close> and \<open>put\<close>, because the callback may stop the loop that runs it.
\<close>

section \<open>The loop\<close>

record recv_metadata =
  rm_sender :: endpoint
  rm_ttl :: "u8 option"
  rm_ifindex :: u32

record recv_loop =
  loop_ttl_minimum :: u32
  loop_ttl_unknown :: ttl_unknown_policy
  loop_stopped :: bool
  silence_timeout :: int
  loop_timer :: "unit inproc_timer"
  receive_armed :: bool
  socket_open :: bool

definition new_loop :: "int \<Rightarrow> u32 \<Rightarrow> ttl_unknown_policy \<Rightarrow> recv_loop" where
  "new_loop timeout ttl_minimum ttl_unknown =
     \<lparr>loop_ttl_minimum = ttl_minimum, loop_ttl_unknown = ttl_unknown, loop_stopped = False,
      silence_timeout = timeout, loop_timer = new_timer, receive_armed = False, socket_open = True\<rparr>"

definition arm_silence_timer :: "int \<Rightarrow> recv_loop \<Rightarrow> recv_loop" where
  "arm_silence_timer now l = l\<lparr>loop_timer := arm now (silence_timeout l) () (loop_timer l)\<rparr>"

definition arm_receive :: "recv_loop \<Rightarrow> recv_loop" where
  "arm_receive l = (if loop_stopped l then l else l\<lparr>receive_armed := True\<rparr>)"

definition start_loop :: "int \<Rightarrow> recv_loop \<Rightarrow> recv_loop" where
  "start_loop now l = arm_receive (arm_silence_timer now l)"

definition stop_loop :: "recv_loop \<Rightarrow> recv_loop" where
  "stop_loop l =
     (if loop_stopped l then l
      else l\<lparr>loop_stopped := True, loop_timer := fst (cancel (loop_timer l)), socket_open := False\<rparr>)"

text \<open>The test on the IP TTL of a packet.\<close>

definition accepts :: "recv_metadata \<Rightarrow> recv_loop \<Rightarrow> bool" where
  "accepts meta l =
     (case rm_ttl meta of
        Some ttl \<Rightarrow> \<not> (ucast ttl :: u32) < loop_ttl_minimum l
      | None \<Rightarrow> loop_ttl_unknown l \<noteq> Reject)"

text \<open>
  The receive handler: it runs when a datagram has arrived for the armed receive. \<open>on_packet\<close> returns
  \<open>None\<close> for undefined behaviour.
\<close>

definition receive ::
  "('s \<Rightarrow> recv_loop) \<Rightarrow> (recv_loop \<Rightarrow> 's \<Rightarrow> 's) \<Rightarrow> (recv_metadata \<Rightarrow> bytes \<Rightarrow> int \<Rightarrow> 's \<Rightarrow> ('s \<times> bool) option)
     \<Rightarrow> recv_metadata \<Rightarrow> bytes \<Rightarrow> int \<Rightarrow> 's \<Rightarrow> 's option" where
  "receive get put on_packet meta data now s =
     (if \<not> receive_armed (get s) then Some s
      else
        (let s = put ((get s)\<lparr>receive_armed := False\<rparr>) s
         in if loop_stopped (get s) then Some s
            else if \<not> accepts meta (get s) then Some (put (arm_receive (get s)) s)
            else do {
              (s, relevant) \<leftarrow> on_packet meta data now s;
              let s = (if relevant then put (arm_silence_timer now (get s)) s else s);
              Some (put (arm_receive (get s)) s)
            }))"

text \<open>The silence timer fires.\<close>

definition silence ::
  "('s \<Rightarrow> recv_loop) \<Rightarrow> (recv_loop \<Rightarrow> 's \<Rightarrow> 's) \<Rightarrow> ('s \<Rightarrow> 's) \<Rightarrow> int \<Rightarrow> 's \<Rightarrow> 's" where
  "silence get put on_silence now s =
     (let (t, fired) = try_fire now (loop_timer (get s));
          s = put ((get s)\<lparr>loop_timer := t\<rparr>) s
      in case fired of
           None \<Rightarrow> s
         | Some _ \<Rightarrow> if loop_stopped (get s) then s else on_silence s)"

lemma stop_loop_stopped [simp]: "loop_stopped (stop_loop l)"
  by (simp add: stop_loop_def)

section \<open>Clients of the loop\<close>

text \<open>
  A client whose packet handler keeps an invariant keeps it through the loop. \<open>inv\<close> may depend on the
  loop component only through its stop flag.
\<close>

locale loop_client =
  fixes get :: "'s \<Rightarrow> recv_loop" and put :: "recv_loop \<Rightarrow> 's \<Rightarrow> 's"
    and on_packet :: "recv_metadata \<Rightarrow> bytes \<Rightarrow> int \<Rightarrow> 's \<Rightarrow> ('s \<times> bool) option"
    and inv :: "'s \<Rightarrow> bool"
  assumes get_put: "get (put l s) = l"
    and inv_put: "inv s \<Longrightarrow> loop_stopped l = loop_stopped (get s) \<Longrightarrow> inv (put l s)"
    and on_packet_inv: "inv s \<Longrightarrow> \<not> loop_stopped (get s) \<Longrightarrow> on_packet meta data now s = Some (s', relevant) \<Longrightarrow> inv s'"
    and on_packet_safe: "inv s \<Longrightarrow> on_packet meta data now s \<noteq> None"
begin

lemma stopped_arm [simp]:
  "loop_stopped (arm_receive l) = loop_stopped l" "loop_stopped (arm_silence_timer now l) = loop_stopped l"
  by (simp_all add: arm_receive_def arm_silence_timer_def)

lemma receive_safe: "inv s \<Longrightarrow> \<exists>s'. receive get put on_packet meta data now s = Some s' \<and> inv s'"
proof -
  assume s: "inv s"
  let ?s = "put ((get s)\<lparr>receive_armed := False\<rparr>) s"
  have i: "inv ?s" using s by (simp add: inv_put)
  show ?thesis
  proof (cases "receive_armed (get s) \<and> \<not> loop_stopped (get s)")
    case True
    then have "\<not> loop_stopped (get ?s)" by (simp add: get_put)
    then obtain s' relevant where "on_packet meta data now ?s = Some (s', relevant)" "inv s'"
      using on_packet_safe [OF i] on_packet_inv [OF i] by (metis not_None_eq prod.collapse)
    with i True show ?thesis by (simp add: receive_def Let_def inv_put get_put)
  qed (use s i in \<open>auto simp: receive_def Let_def get_put\<close>)
qed

lemma silence_safe:
  assumes "inv s" and "\<And>s. inv s \<Longrightarrow> \<not> loop_stopped (get s) \<Longrightarrow> inv (on_silence s)"
  shows "inv (silence get put on_silence now s)"
  using assms by (auto simp: silence_def Let_def get_put inv_put split: prod.split option.split)

text \<open>A stopped loop, or a packet that the TTL test refuses, never reaches the client.\<close>

lemma receive_filtered:
  assumes "loop_stopped (get s) \<or> \<not> accepts meta (get s)"
  shows "\<exists>l. receive get put on_packet meta data now s = Some (put l (put ((get s)\<lparr>receive_armed := False\<rparr>) s))
    \<or> receive get put on_packet meta data now s = Some s
    \<or> receive get put on_packet meta data now s = Some (put ((get s)\<lparr>receive_armed := False\<rparr>) s)"
proof -
  have "accepts meta ((get s)\<lparr>receive_armed := False\<rparr>) = accepts meta (get s)"
    by (simp add: accepts_def split: option.split)
  with assms show ?thesis by (auto simp: receive_def Let_def get_put)
qed

end

text \<open>
  A preorder on client states that the packet handler and changes of the loop component respect is
  respected by the loop.
\<close>

locale loop_evolution =
  fixes get :: "'s \<Rightarrow> recv_loop" and put :: "recv_loop \<Rightarrow> 's \<Rightarrow> 's"
    and on_packet :: "recv_metadata \<Rightarrow> bytes \<Rightarrow> int \<Rightarrow> 's \<Rightarrow> ('s \<times> bool) option"
    and R :: "'s \<Rightarrow> 's \<Rightarrow> bool"
  assumes R_trans: "R s t \<Longrightarrow> R t u \<Longrightarrow> R s u"
    and R_put: "R s (put l s)"
    and R_on_packet: "on_packet meta data now s = Some (s', relevant) \<Longrightarrow> R s s'"
    and R_refl: "R s s"
begin

lemma receive_evolves: "receive get put on_packet meta data now s = Some s' \<Longrightarrow> R s s'"
  unfolding receive_def Let_def
  by (auto simp: bind_eq_Some_conv R_refl split: if_splits
      intro: R_put R_trans [OF R_put R_put] R_trans [OF R_put R_trans [OF R_on_packet R_put]]
        R_trans [OF R_put R_trans [OF R_on_packet R_trans [OF R_put R_put]]])

lemma silence_evolves: "(\<And>s. R s (on_silence s)) \<Longrightarrow> R s (silence get put on_silence now s)"
  unfolding silence_def Let_def by (auto split: prod.split option.split intro: R_put R_trans [OF R_put])

end

end
