(* ===== verification/Service_Monitor.thy ===== *)
theory Service_Monitor
  imports Record_Cache Resolved_Service Recv_Loop
begin

text \<open>
  \<open>basic_service_monitor.h\<close> and \<open>monitor_options.h\<close>: the continuous service tracker, on top of the record
  cache, the refresh schedules and the query backoff. The conventions are those of the other peers:
  effects are appended to an output list, continuations are values, \<open>None\<close> is undefined behaviour.
  The unordered maps are association lists in order of insertion. All readings of the clock within one
  event return the same time; where the cache places an element and how much a refresh
  point jitters are streams.
\<close>

section \<open>State\<close>

datatype monitor_mode = Mode_observe | Mode_ttl_refresh | Mode_discover

datatype update_event = Update_added | Update_removed

datatype loss_reason = Loss_timeout | Loss_goodbye | Loss_unwatched

record monitor_options =
  mo_on_found :: bool
  mo_on_updated :: bool
  mo_on_lost :: bool
  mo_mode :: monitor_mode

datatype monitor_effect =
    M_found resolved_service
  | M_updated resolved_service update_event dns_type
  | M_lost resolved_service loss_reason
  | M_flushed flush_event
  | M_sent endpoint bytes
  | M_done

text \<open>Tasks posted to the executor.\<close>

datatype monitor_task =
    Task_teardown
  | Task_watch string
  | Task_unwatch string
  | Task_query_type string
  | Task_query_instance string

record incomplete_instance =
  inc_service_type :: dns_name
  inc_has_srv :: bool
  inc_has_address :: bool
  inc_partial :: resolved_service

type_synonym 'v name_map = "(dns_name \<times> 'v) list"

record monitor =
  mon_inet_pton6 :: "string \<Rightarrow> bytes option"
  mon_multicast_ep :: endpoint
  mon_opts :: monitor_options
  mon_mdns_opts :: mdns_options
  mon_stopped :: bool
  mon_alive :: bool
  mon_on_done :: bool
  mon_loop :: "recv_loop option"
  mon_cache :: record_cache
  mon_scheduler :: "unit inproc_timer"
  mon_tc_timer :: "(bytes list \<times> nat) inproc_timer"
  mon_instance_type :: "dns_name name_map"
  mon_watches :: "query_backoff_state name_map"
  mon_partial :: "incomplete_instance name_map"
  mon_live :: "resolved_service name_map"
  mon_refresh :: "(string \<times> ttl_refresh_schedule) list"
  mon_hosts :: "dns_name set"
  mon_goodbye :: "dns_name set"
  mon_snapshot :: "resolved_service list option"
  mon_jitter :: "nat \<Rightarrow> rat"
  mon_hint :: "nat \<Rightarrow> nat"
  mon_posted :: "monitor_task list"
  mon_out :: "monitor_effect list"

text \<open>The constructor; \<open>make_cache_options\<close> installs the expiry callback.\<close>

definition new_monitor ::
  "(string \<Rightarrow> bytes option) \<Rightarrow> endpoint \<Rightarrow> monitor_options \<Rightarrow> mdns_options \<Rightarrow> cache_options \<Rightarrow> (nat \<Rightarrow> rat) \<Rightarrow> (nat \<Rightarrow> nat) \<Rightarrow> monitor" where
  "new_monitor inet_pton6 mcast opts mopts copts jitter hint =
     \<lparr>mon_inet_pton6 = inet_pton6, mon_multicast_ep = mcast, mon_opts = opts, mon_mdns_opts = mopts, mon_stopped = False,
      mon_alive = True, mon_on_done = False, mon_loop = None, mon_cache = new_cache (copts\<lparr>has_on_expired := True\<rparr>),
      mon_scheduler = new_timer, mon_tc_timer = new_timer, mon_instance_type = [], mon_watches = [], mon_partial = [],
      mon_live = [], mon_refresh = [], mon_hosts = {}, mon_goodbye = {}, mon_snapshot = None, mon_jitter = jitter,
      mon_hint = hint, mon_posted = [], mon_out = []\<rparr>"

definition mon_emit :: "monitor_effect \<Rightarrow> monitor \<Rightarrow> monitor" where
  "mon_emit e s = s\<lparr>mon_out := mon_out s @ [e]\<rparr>"

text \<open>\<open>emplace\<close>, assignment through \<open>operator[]\<close>, and \<open>erase\<close> of an unordered map.\<close>

definition emplace :: "'k \<Rightarrow> 'v \<Rightarrow> ('k \<times> 'v) list \<Rightarrow> ('k \<times> 'v) list" where
  "emplace k v m = (if map_of m k = None then m @ [(k, v)] else m)"

definition assign :: "'k \<Rightarrow> 'v \<Rightarrow> ('k \<times> 'v) list \<Rightarrow> ('k \<times> 'v) list" where
  "assign k v m = (if map_of m k = None then m @ [(k, v)] else upd_entry k (\<lambda>_. v) m)"

definition drop_key :: "'k \<Rightarrow> ('k \<times> 'v) list \<Rightarrow> ('k \<times> 'v) list" where
  "drop_key k m = filter (\<lambda>x. fst x \<noteq> k) m"

section \<open>Packets\<close>

definition with_srv_ttl :: "int \<Rightarrow> record_cache \<Rightarrow> dns_name \<Rightarrow> resolved_service \<Rightarrow> resolved_service" where
  "with_srv_ttl now c name svc =
     (case find_entries name Type_srv now c of
        [] \<Rightarrow> svc
      | e # _ \<Rightarrow> svc\<lparr>rs_wire_ttl := ce_wire_ttl e, rs_ttl_remaining := ttl_remaining e\<rparr>)"

definition update_snapshot :: "int \<Rightarrow> monitor \<Rightarrow> monitor" where
  "update_snapshot now s =
     s\<lparr>mon_snapshot := Some (map (\<lambda>(name, svc). with_srv_ttl now (mon_cache s) name svc) (mon_live s))\<rparr>"

definition services :: "monitor \<Rightarrow> resolved_service list" where
  "services s = (case mon_snapshot s of Some snap \<Rightarrow> snap | None \<Rightarrow> [])"

definition is_relevant :: "mdns_record_variant \<Rightarrow> monitor \<Rightarrow> bool" where
  "is_relevant rec s =
     (case rec of
        Rec_ptr r \<Rightarrow> map_of (mon_watches s) (rec_name r) \<noteq> None
      | Rec_srv r \<Rightarrow> map_of (mon_partial s) (rec_name r) \<noteq> None \<or> map_of (mon_live s) (rec_name r) \<noteq> None
      | Rec_txt r \<Rightarrow> map_of (mon_partial s) (rec_name r) \<noteq> None \<or> map_of (mon_live s) (rec_name r) \<noteq> None
      | Rec_a r \<Rightarrow> rec_name r \<in> mon_hosts s
      | Rec_aaaa r \<Rightarrow> rec_name r \<in> mon_hosts s)"

definition process_ptr :: "record_ptr \<Rightarrow> monitor \<Rightarrow> monitor" where
  "process_ptr r s =
     (let inst = ptr_name r
      in if map_of (mon_partial s) inst \<noteq> None \<or> map_of (mon_live s) inst \<noteq> None then s
         else s\<lparr>mon_partial := mon_partial s @ [(inst, \<lparr>inc_service_type = rec_name r, inc_has_srv = False,
                                                 inc_has_address = False, inc_partial = new_service inst\<rparr>)],
                mon_instance_type := assign inst (rec_name r) (mon_instance_type s)\<rparr>)"

definition check_resolved :: "int \<Rightarrow> dns_name \<Rightarrow> monitor \<Rightarrow> monitor" where
  "check_resolved now inst s =
     (case map_of (mon_partial s) inst of
        None \<Rightarrow> s
      | Some inc \<Rightarrow>
          if \<not> inc_has_srv inc \<or> \<not> inc_has_address inc then s
          else
            (let svc = inc_partial inc;
                 s = s\<lparr>mon_partial := drop_key inst (mon_partial s)\<rparr>;
                 s = s\<lparr>mon_live := emplace inst svc (mon_live s)\<rparr>;
                 s = (if mo_on_found (mon_opts s) then mon_emit (M_found svc) s else s)
             in update_snapshot now s))"

definition rebuild_refresh_schedule :: "string \<Rightarrow> u32 \<Rightarrow> int \<Rightarrow> monitor \<Rightarrow> monitor" where
  "rebuild_refresh_schedule key wire_ttl now s =
     (if mo_mode (mon_opts s) \<noteq> Mode_discover \<and> mo_mode (mon_opts s) \<noteq> Mode_ttl_refresh then s
      else if ttl_refresh_thresholds (mon_mdns_opts s) = [] then s
      else s\<lparr>mon_refresh := assign key (make_refresh_schedule wire_ttl (mon_mdns_opts s) now (mon_jitter s)) (mon_refresh s),
             mon_jitter := (\<lambda>n. mon_jitter s (n + length (ttl_refresh_thresholds (mon_mdns_opts s))))\<rparr>)"

definition mon_updated :: "resolved_service \<Rightarrow> update_event \<Rightarrow> dns_type \<Rightarrow> monitor \<Rightarrow> monitor" where
  "mon_updated svc ev t s = (if mo_on_updated (mon_opts s) then mon_emit (M_updated svc ev t) s else s)"

definition process_srv :: "record_srv \<Rightarrow> int \<Rightarrow> monitor \<Rightarrow> monitor" where
  "process_srv r now s =
     (let s = (if rec_ttl r = 0 then s\<lparr>mon_goodbye := insert (rec_name r) (mon_goodbye s)\<rparr> else s);
          refresh = (\<lambda>s. if rec_ttl r > 0 then rebuild_refresh_schedule (str (rec_name r) @ '':srv'') (rec_ttl r) now s else s)
      in case map_of (mon_partial s) (rec_name r) of
           Some inc \<Rightarrow>
             (let inc = inc\<lparr>inc_has_srv := True,
                           inc_partial := (inc_partial inc)\<lparr>rs_hostname := srv_name r, rs_port := srv_port r\<rparr>\<rparr>;
                  s = s\<lparr>mon_partial := upd_entry (rec_name r) (\<lambda>_. inc) (mon_partial s),
                        mon_hosts := insert (srv_name r) (mon_hosts s)\<rparr>
              in check_resolved now (rec_name r) (refresh s))
         | None \<Rightarrow>
             (case map_of (mon_live s) (rec_name r) of
                Some svc \<Rightarrow>
                  (let s = refresh s
                   in if rs_hostname svc \<noteq> srv_name r \<or> rs_port svc \<noteq> srv_port r
                      then
                        (let svc = svc\<lparr>rs_hostname := srv_name r, rs_port := srv_port r\<rparr>;
                             s = s\<lparr>mon_live := upd_entry (rec_name r) (\<lambda>_. svc) (mon_live s),
                                   mon_hosts := insert (srv_name r) (mon_hosts s)\<rparr>
                         in update_snapshot now (mon_updated svc Update_added Type_srv s))
                      else s)
              | None \<Rightarrow> s))"

text \<open>The shared code for both kinds of address; \<open>get\<close> and \<open>upd\<close> are the selector of the address list.\<close>

definition add_partial_address ::
  "(resolved_service \<Rightarrow> string list) \<Rightarrow> ((string list \<Rightarrow> string list) \<Rightarrow> resolved_service \<Rightarrow> resolved_service)
     \<Rightarrow> dns_name \<Rightarrow> string \<Rightarrow> incomplete_instance \<Rightarrow> incomplete_instance option" where
  "add_partial_address get upd owner addr inc =
     (if rs_hostname (inc_partial inc) = owner \<and> addr \<notin> set (get (inc_partial inc))
      then Some (inc\<lparr>inc_has_address := True, inc_partial := upd (\<lambda>addrs. addrs @ [addr]) (inc_partial inc)\<rparr>)
      else None)"

definition add_live_address ::
  "(resolved_service \<Rightarrow> string list) \<Rightarrow> ((string list \<Rightarrow> string list) \<Rightarrow> resolved_service \<Rightarrow> resolved_service)
     \<Rightarrow> dns_name \<Rightarrow> string \<Rightarrow> dns_type \<Rightarrow> int \<Rightarrow> dns_name \<Rightarrow> monitor \<Rightarrow> monitor" where
  "add_live_address get upd owner addr dtype now inst s =
     (case map_of (mon_live s) inst of
        None \<Rightarrow> s
      | Some svc \<Rightarrow>
          if rs_hostname svc = owner \<and> addr \<notin> set (get svc)
          then
            (let svc = upd (\<lambda>addrs. addrs @ [addr]) svc;
                 s = s\<lparr>mon_live := upd_entry inst (\<lambda>_. svc) (mon_live s)\<rparr>
             in update_snapshot now (mon_updated svc Update_added dtype s))
          else s)"

definition process_address_record ::
  "(resolved_service \<Rightarrow> string list) \<Rightarrow> ((string list \<Rightarrow> string list) \<Rightarrow> resolved_service \<Rightarrow> resolved_service)
     \<Rightarrow> dns_name \<Rightarrow> string \<Rightarrow> dns_type \<Rightarrow> int \<Rightarrow> monitor \<Rightarrow> monitor" where
  "process_address_record get upd owner addr dtype now s =
     (let any_updated = list_ex (\<lambda>(_, inc). add_partial_address get upd owner addr inc \<noteq> None) (mon_partial s);
          s = s\<lparr>mon_partial := map (\<lambda>(n, inc). (n, case add_partial_address get upd owner addr inc of Some i \<Rightarrow> i | None \<Rightarrow> inc))
                  (mon_partial s)\<rparr>;
          s = (if any_updated
               then fold (check_resolved now)
                      (map fst (filter (\<lambda>(_, inc). rs_hostname (inc_partial inc) = owner \<and> inc_has_srv inc \<and> inc_has_address inc)
                        (mon_partial s))) s
               else s)
      in fold (add_live_address get upd owner addr dtype now) (map fst (mon_live s)) s)"

definition process_a :: "record_a \<Rightarrow> int \<Rightarrow> monitor \<Rightarrow> monitor" where
  "process_a r now s = process_address_record rs_ipv4_addresses rs_ipv4_addresses_update (rec_name r) (a_address_string r) Type_a now s"

definition process_aaaa :: "record_aaaa \<Rightarrow> int \<Rightarrow> monitor \<Rightarrow> monitor" where
  "process_aaaa r now s =
     process_address_record rs_ipv6_addresses rs_ipv6_addresses_update (rec_name r) (aaaa_address_string r) Type_aaaa now s"

text \<open>The monitor's own merge of TXT entries, which also reports a change.\<close>

fun merge_entry :: "service_txt \<Rightarrow> service_txt list \<Rightarrow> service_txt list \<times> bool" where
  "merge_entry e [] = ([e], True)"
| "merge_entry e (x # xs) =
     (if txt_key x = txt_key e
      then (if txt_value x \<noteq> txt_value e then (x\<lparr>txt_value := txt_value e\<rparr> # xs, True) else (x # xs, False))
      else (let (xs, changed) = merge_entry e xs in (x # xs, changed)))"

definition mon_merge_txt :: "service_txt list \<Rightarrow> service_txt list \<Rightarrow> service_txt list \<times> bool" where
  "mon_merge_txt dst src =
     foldl (\<lambda>(dst, changed) e. let (dst, c) = merge_entry e dst in (dst, changed \<or> c)) (dst, False) src"

definition process_txt :: "record_txt \<Rightarrow> int \<Rightarrow> monitor \<Rightarrow> monitor" where
  "process_txt r now s =
     (case map_of (mon_partial s) (rec_name r) of
        Some inc \<Rightarrow>
          (let p = inc_partial inc
           in s\<lparr>mon_partial := upd_entry (rec_name r)
                 (\<lambda>_. inc\<lparr>inc_partial := p\<lparr>rs_txt_entries := fst (mon_merge_txt (rs_txt_entries p) (txt_entries r))\<rparr>\<rparr>) (mon_partial s)\<rparr>)
      | None \<Rightarrow>
          (case map_of (mon_live s) (rec_name r) of
             Some svc \<Rightarrow>
               (let (txt, changed) = mon_merge_txt (rs_txt_entries svc) (txt_entries r);
                    svc = svc\<lparr>rs_txt_entries := txt\<rparr>;
                    s = s\<lparr>mon_live := upd_entry (rec_name r) (\<lambda>_. svc) (mon_live s)\<rparr>
                in if changed then update_snapshot now (mon_updated svc Update_added Type_txt s) else s)
           | None \<Rightarrow> s))"

fun process_record :: "mdns_record_variant \<Rightarrow> int \<Rightarrow> monitor \<Rightarrow> monitor" where
  "process_record (Rec_ptr r) now s = process_ptr r s"
| "process_record (Rec_srv r) now s = process_srv r now s"
| "process_record (Rec_a r) now s = process_a r now s"
| "process_record (Rec_aaaa r) now s = process_aaaa r now s"
| "process_record (Rec_txt r) now s = process_txt r now s"

definition cache_record :: "mdns_record_variant \<Rightarrow> endpoint \<Rightarrow> int \<Rightarrow> monitor \<Rightarrow> monitor" where
  "cache_record rec sender now s =
     (case insert_record rec sender now now (mon_hint s 0) (mon_cache s) of
        (c, flushed) \<Rightarrow>
          (let s = s\<lparr>mon_cache := c, mon_hint := (\<lambda>n. mon_hint s (Suc n))\<rparr>
           in case flushed of None \<Rightarrow> s | Some e \<Rightarrow> mon_emit (M_flushed e) s))"

definition handle_record :: "endpoint \<Rightarrow> int \<Rightarrow> mdns_record_variant \<Rightarrow> monitor \<times> bool \<Rightarrow> monitor \<times> bool" where
  "handle_record sender now rec sr =
     (case sr of (s, relevant) \<Rightarrow>
       if \<not> is_relevant rec s then (s, relevant)
       else (process_record rec now (cache_record rec sender now s), True))"

definition handle_packet :: "recv_metadata \<Rightarrow> bytes \<Rightarrow> int \<Rightarrow> monitor \<Rightarrow> (monitor \<times> bool) option" where
  "handle_packet meta data now s = do {
     recs \<leftarrow> walk_dns_frame data (rm_sender meta);
     Some (fold (handle_record (rm_sender meta) now) recs (s, False))
   }"

section \<open>Expiry\<close>

definition handle_expired_srv :: "record_srv \<Rightarrow> int \<Rightarrow> monitor \<Rightarrow> monitor" where
  "handle_expired_srv r now s =
     (case map_of (mon_live s) (rec_name r) of
        None \<Rightarrow> s\<lparr>mon_partial := drop_key (rec_name r) (mon_partial s), mon_goodbye := mon_goodbye s - {rec_name r}\<rparr>
      | Some last_known \<Rightarrow>
          (let reason = (if rec_name r \<in> mon_goodbye s then Loss_goodbye else Loss_timeout);
               s = s\<lparr>mon_live := drop_key (rec_name r) (mon_live s), mon_partial := drop_key (rec_name r) (mon_partial s),
                     mon_goodbye := mon_goodbye s - {rec_name r}\<rparr>;
               s = (if mo_on_lost (mon_opts s) then mon_emit (M_lost last_known reason) s else s)
           in update_snapshot now s))"

definition drop_live_address ::
  "(resolved_service \<Rightarrow> string list) \<Rightarrow> ((string list \<Rightarrow> string list) \<Rightarrow> resolved_service \<Rightarrow> resolved_service)
     \<Rightarrow> dns_name \<Rightarrow> string \<Rightarrow> dns_type \<Rightarrow> int \<Rightarrow> dns_name \<Rightarrow> monitor \<Rightarrow> monitor" where
  "drop_live_address get upd owner addr dtype now inst s =
     (case map_of (mon_live s) inst of
        None \<Rightarrow> s
      | Some svc \<Rightarrow>
          if rs_hostname svc = owner \<and> addr \<in> set (get svc)
          then
            (let svc = upd (remove1 addr) svc;
                 s = s\<lparr>mon_live := upd_entry inst (\<lambda>_. svc) (mon_live s)\<rparr>
             in update_snapshot now (mon_updated svc Update_removed dtype s))
          else s)"

definition handle_expired_address ::
  "(resolved_service \<Rightarrow> string list) \<Rightarrow> ((string list \<Rightarrow> string list) \<Rightarrow> resolved_service \<Rightarrow> resolved_service)
     \<Rightarrow> dns_name \<Rightarrow> string \<Rightarrow> dns_type \<Rightarrow> int \<Rightarrow> monitor \<Rightarrow> monitor" where
  "handle_expired_address get upd owner addr dtype now s =
     fold (drop_live_address get upd owner addr dtype now) (map fst (mon_live s)) s"

fun drop_entry :: "service_txt \<Rightarrow> service_txt list \<Rightarrow> service_txt list" where
  "drop_entry e [] = []"
| "drop_entry e (x # xs) = (if txt_key x = txt_key e then xs else x # drop_entry e xs)"

definition handle_expired_txt :: "record_txt \<Rightarrow> int \<Rightarrow> monitor \<Rightarrow> monitor" where
  "handle_expired_txt r now s =
     (case map_of (mon_live s) (rec_name r) of
        None \<Rightarrow> s
      | Some svc \<Rightarrow>
          (let (txt, changed) =
                 foldl (\<lambda>(txt, changed) e. (drop_entry e txt, changed \<or> list_ex (\<lambda>x. txt_key x = txt_key e) txt))
                   (rs_txt_entries svc, False) (txt_entries r);
               svc = svc\<lparr>rs_txt_entries := txt\<rparr>;
               s = s\<lparr>mon_live := upd_entry (rec_name r) (\<lambda>_. svc) (mon_live s)\<rparr>
           in if changed then update_snapshot now (mon_updated svc Update_removed Type_txt s) else s))"

fun handle_expired_record :: "int \<Rightarrow> mdns_record_variant \<Rightarrow> monitor \<Rightarrow> monitor" where
  "handle_expired_record now (Rec_srv r) s = handle_expired_srv r now s"
| "handle_expired_record now (Rec_a r) s =
     handle_expired_address rs_ipv4_addresses rs_ipv4_addresses_update (rec_name r) (a_address_string r) Type_a now s"
| "handle_expired_record now (Rec_aaaa r) s =
     handle_expired_address rs_ipv6_addresses rs_ipv6_addresses_update (rec_name r) (aaaa_address_string r) Type_aaaa now s"
| "handle_expired_record now (Rec_txt r) s = handle_expired_txt r now s"
| "handle_expired_record now (Rec_ptr r) s = s"

definition handle_expired :: "int \<Rightarrow> cache_entry list \<Rightarrow> monitor \<Rightarrow> monitor" where
  "handle_expired now expired s = fold (\<lambda>e. handle_expired_record now (ce_record e)) expired s"

text \<open>\<open>m_cache.erase_expired()\<close> with its callback; also \<open>tick_expired_for_test\<close>.\<close>

definition expire :: "int \<Rightarrow> monitor \<Rightarrow> monitor" where
  "expire now s =
     (case erase_expired now (mon_cache s) of
        (c, _, callback) \<Rightarrow>
          (let s = s\<lparr>mon_cache := c\<rparr> in case callback of None \<Rightarrow> s | Some expired \<Rightarrow> handle_expired now expired s))"

section \<open>Queries\<close>

function send_tc_packets :: "bytes list \<Rightarrow> nat \<Rightarrow> int \<Rightarrow> monitor \<Rightarrow> monitor" where
  "send_tc_packets packets idx now s =
     (if idx \<ge> length packets \<or> mon_stopped s then s
      else
        (let s = mon_emit (M_sent (mon_multicast_ep s) (packets ! idx)) s
         in if idx + 1 < length packets
            then
              (let delay = tc_continuation_delay (mon_mdns_opts s)
               in if delay > 0
                  then s\<lparr>mon_tc_timer := arm now (delay div 1000) (packets, idx) (mon_tc_timer s)\<rparr>
                  else send_tc_packets packets (idx + 1) now s)
            else s))"
  by pat_completeness auto
termination
  by (relation "measure (\<lambda>(packets, idx, _, _). length packets - idx)") auto

declare send_tc_packets.simps [simp del]

text \<open>
  The known answers of a PTR query: the cached records whose remaining TTL exceeds a fraction of the
  original one. The conversion of the threshold to nanoseconds is undefined when it overflows.
\<close>

definition known_answer_threshold :: "rat \<Rightarrow> u32 \<Rightarrow> int" where
  "known_answer_threshold fraction ttl = trunc (double_mul (double_mul (double_of_int (uint ttl)) fraction) 1000000000)"

definition send_ptr_query :: "string \<Rightarrow> int \<Rightarrow> monitor \<Rightarrow> monitor option" where
  "send_ptr_query svc_type now s =
     (let entries = find_entries (dns_name svc_type) Type_ptr now (mon_cache s);
          threshold = (\<lambda>e. known_answer_threshold (ka_suppression_fraction (mon_mdns_opts s)) (ce_wire_ttl e))
      in if list_ex (\<lambda>e. threshold e < - (2 ^ 63) \<or> 2 ^ 63 \<le> threshold e) entries then None
         else do {
           let known_answers = map ce_record (filter (\<lambda>e. ttl_remaining e > threshold e) entries);
           packets \<leftarrow> build_dns_query_tc (mon_inet_pton6 s) svc_type Type_ptr known_answers
             (max_query_payload (mon_mdns_opts s)) Multicast;
           Some (if packets \<noteq> [] then send_tc_packets packets 0 now s else s)
         })"

definition send_instance_queries :: "string \<Rightarrow> monitor \<Rightarrow> monitor" where
  "send_instance_queries inst s =
     (let srv_pkt = build_dns_query inst Type_srv Multicast;
          a_pkt = build_dns_query inst Type_a Multicast;
          aaaa_pkt = build_dns_query inst Type_aaaa Multicast
      in mon_emit (M_sent (mon_multicast_ep s) aaaa_pkt)
           (mon_emit (M_sent (mon_multicast_ep s) a_pkt) (mon_emit (M_sent (mon_multicast_ep s) srv_pkt) s)))"

section \<open>The scheduler\<close>

text \<open>The interval of the next query for a type; \<open>None\<close> when the conversion from \<open>double\<close> overflows.\<close>

definition next_interval :: "mdns_options \<Rightarrow> query_backoff_state \<Rightarrow> int option" where
  "next_interval opts b =
     (if backoff_first b then Some (initial_interval opts)
      else
        (let next_ms = trunc (double_mul (double_of_int (current_interval b)) (backoff_multiplier opts))
         in if next_ms < - (2 ^ 63) \<or> 2 ^ 63 \<le> next_ms then None
            else Some (if next_ms < max_interval opts then next_ms else max_interval opts)))"

text \<open>\<open>if(!has_scheduled_event || deadline < next)\<close>: the earliest event, if any.\<close>

definition earlier :: "int \<Rightarrow> int option \<Rightarrow> int option" where
  "earlier deadline next_event =
     (case next_event of None \<Rightarrow> Some deadline | Some n \<Rightarrow> if deadline < n then Some deadline else Some n)"

fun next_backoff :: "mdns_options \<Rightarrow> int \<Rightarrow> query_backoff_state name_map \<Rightarrow> int option \<Rightarrow> int option option" where
  "next_backoff opts now [] next_event = Some next_event"
| "next_backoff opts now ((_, b) # ws) next_event = do {
     interval \<leftarrow> next_interval opts b;
     next_backoff opts now ws (earlier (now + interval * 1000000) next_event)
   }"

fun next_refresh :: "(string \<times> ttl_refresh_schedule) list \<Rightarrow> int option \<Rightarrow> int option" where
  "next_refresh [] next_event = next_event"
| "next_refresh ((_, sched) # rs) next_event =
     next_refresh rs (if next_idx sched < length (fire_at sched) then earlier (fire_at sched ! next_idx sched) next_event
                      else next_event)"

definition scheduler_delay :: "int \<Rightarrow> monitor \<Rightarrow> int option" where
  "scheduler_delay now s = do {
     next_event \<leftarrow> (if mo_mode (mon_opts s) = Mode_discover then next_backoff (mon_mdns_opts s) now (mon_watches s) None
                      else Some None);
     let next_event = (if mo_mode (mon_opts s) = Mode_discover \<or> mo_mode (mon_opts s) = Mode_ttl_refresh
                       then next_refresh (mon_refresh s) next_event else next_event);
     let nxt = (case next_event of None \<Rightarrow> now + seconds 1 | Some t \<Rightarrow> t);
     Some (if nxt < now then 0 else (nxt - now) div 1000000)
   }"

definition arm_scheduler :: "int \<Rightarrow> monitor \<Rightarrow> monitor option" where
  "arm_scheduler now s = do {
     delay \<leftarrow> scheduler_delay now s;
     Some (s\<lparr>mon_scheduler := arm now delay () (mon_scheduler s)\<rparr>)
   }"

text \<open>The loops of the tick: a query for every watched type, then the refresh points that are due.\<close>

fun query_watches :: "dns_name list \<Rightarrow> int \<Rightarrow> monitor \<Rightarrow> monitor option" where
  "query_watches [] now s = Some s"
| "query_watches (t # ts) now s =
     (case map_of (mon_watches s) t of
        None \<Rightarrow> query_watches ts now s
      | Some b \<Rightarrow> do {
          (_, b) \<leftarrow> advance_backoff (mon_mdns_opts s) b;
          s \<leftarrow> send_ptr_query (str t) now (s\<lparr>mon_watches := upd_entry t (\<lambda>_. b) (mon_watches s)\<rparr>);
          query_watches ts now s
        })"

text \<open>The number of refresh points that the loop passes.\<close>

definition due_points :: "int \<Rightarrow> ttl_refresh_schedule \<Rightarrow> nat" where
  "due_points now sched = length (takeWhile (\<lambda>t. t \<le> now) (drop (next_idx sched) (fire_at sched)))"

text \<open>The part of a schedule key before its last colon; \<open>None\<close> is \<open>npos\<close>.\<close>

definition key_instance :: "string \<Rightarrow> string option" where
  "key_instance key =
     (case dropWhile (\<lambda>c. c \<noteq> CHR '':'') (rev key) of [] \<Rightarrow> None | _ # rest \<Rightarrow> Some (rev rest))"

definition refresh_one :: "int \<Rightarrow> string \<times> ttl_refresh_schedule \<Rightarrow> monitor \<Rightarrow> monitor" where
  "refresh_one now ks s =
     (case ks of (key, sched) \<Rightarrow>
       (let n = due_points now sched;
            s = (case key_instance key of
                   None \<Rightarrow> s
                 | Some inst \<Rightarrow> (send_instance_queries inst ^^ n) s)
        in s\<lparr>mon_refresh := upd_entry key (\<lambda>sc. sc\<lparr>next_idx := next_idx sc + n\<rparr>) (mon_refresh s)\<rparr>))"

definition on_scheduler_tick :: "int \<Rightarrow> monitor \<Rightarrow> monitor option" where
  "on_scheduler_tick now s =
     (if mon_stopped s then Some s
      else do {
        let s = expire now s;
        s \<leftarrow> (if mo_mode (mon_opts s) = Mode_discover then query_watches (map fst (mon_watches s)) now s else Some s);
        let s = (if mo_mode (mon_opts s) = Mode_discover \<or> mo_mode (mon_opts s) = Mode_ttl_refresh
                 then fold (refresh_one now) (mon_refresh s) s else s);
        arm_scheduler now s
      })"

section \<open>Watching\<close>

definition do_watch :: "string \<Rightarrow> int \<Rightarrow> monitor \<Rightarrow> monitor option" where
  "do_watch svc_type now s =
     (let s = s\<lparr>mon_watches := emplace (dns_name svc_type) new_backoff (mon_watches s)\<rparr>
      in if mon_loop s \<noteq> None then arm_scheduler now s else Some s)"

definition lose_unwatched :: "dns_name \<Rightarrow> monitor \<Rightarrow> monitor" where
  "lose_unwatched inst s =
     (case map_of (mon_live s) inst of
        None \<Rightarrow> s
      | Some svc \<Rightarrow>
          (let s = (if mo_on_lost (mon_opts s) then mon_emit (M_lost svc Loss_unwatched) s else s)
           in s\<lparr>mon_live := drop_key inst (mon_live s)\<rparr>))"

definition remaining_hosts :: "monitor \<Rightarrow> dns_name set" where
  "remaining_hosts s =
     set (filter (\<lambda>h. h \<noteq> empty_name)
       (map (\<lambda>(_, svc). rs_hostname svc) (mon_live s) @ map (\<lambda>(_, inc). rs_hostname (inc_partial inc)) (mon_partial s)))"

definition do_unwatch :: "string \<Rightarrow> int \<Rightarrow> monitor \<Rightarrow> monitor" where
  "do_unwatch svc_type now s =
     (let ty = dns_name svc_type
      in if map_of (mon_watches s) ty = None then s
         else
           (let s = fold lose_unwatched (map fst (filter (\<lambda>(n, _). map_of (mon_instance_type s) n = Some ty) (mon_live s))) s;
                s = s\<lparr>mon_partial := filter (\<lambda>(_, inc). inc_service_type inc \<noteq> ty) (mon_partial s)\<rparr>;
                s = s\<lparr>mon_instance_type := filter (\<lambda>(_, t). t \<noteq> ty) (mon_instance_type s)\<rparr>;
                s = s\<lparr>mon_hosts := remaining_hosts s\<rparr>;
                s = s\<lparr>mon_watches := drop_key ty (mon_watches s), mon_goodbye := {}\<rparr>
            in update_snapshot now s))"

section \<open>Lifecycle\<close>

definition mon_start :: "bool \<Rightarrow> int \<Rightarrow> monitor \<Rightarrow> monitor option" where
  "mon_start on_done now s =
     (let s = s\<lparr>mon_on_done := on_done,
                mon_loop := Some (start_loop now (new_loop (24 * 365 * 3600 * 1000) (receive_ttl_minimum (mon_mdns_opts s))
                  (unknown_ttl_policy (mon_mdns_opts s))))\<rparr>
      in arm_scheduler now s)"

definition mon_stop :: "monitor \<Rightarrow> monitor" where
  "mon_stop s = (if mon_stopped s then s else s\<lparr>mon_stopped := True, mon_posted := mon_posted s @ [Task_teardown]\<rparr>)"

definition mon_teardown :: "monitor \<Rightarrow> monitor" where
  "mon_teardown s =
     (let s = s\<lparr>mon_scheduler := fst (cancel (mon_scheduler s)), mon_tc_timer := fst (cancel (mon_tc_timer s)),
                mon_loop := map_option stop_loop (mon_loop s)\<rparr>
      in if mon_on_done s then mon_emit M_done (s\<lparr>mon_on_done := False\<rparr>) else s)"

definition mon_post :: "monitor_task \<Rightarrow> monitor \<Rightarrow> monitor" where
  "mon_post task s = s\<lparr>mon_posted := mon_posted s @ [task]\<rparr>"

fun run_task :: "monitor_task \<Rightarrow> int \<Rightarrow> monitor \<Rightarrow> monitor option" where
  "run_task Task_teardown now s = Some (mon_teardown s)"
| "run_task (Task_watch svc) now s = do_watch svc now s"
| "run_task (Task_unwatch svc) now s = Some (do_unwatch svc now s)"
| "run_task (Task_query_type svc) now s = send_ptr_query svc now s"
| "run_task (Task_query_instance inst) now s = Some (send_instance_queries inst s)"

definition run_posted_monitor :: "int \<Rightarrow> monitor \<Rightarrow> monitor option" where
  "run_posted_monitor now s =
     (case mon_posted s of
        [] \<Rightarrow> Some s
      | task # tasks \<Rightarrow>
          (let s = s\<lparr>mon_posted := tasks\<rparr> in if \<not> mon_alive s then Some s else run_task task now s))"

definition fire_scheduler :: "int \<Rightarrow> monitor \<Rightarrow> monitor option" where
  "fire_scheduler now s =
     (case try_fire now (mon_scheduler s) of
        (t, fired) \<Rightarrow>
          (let s = s\<lparr>mon_scheduler := t\<rparr>
           in if fired = None \<or> \<not> mon_alive s then Some s else on_scheduler_tick now s))"

definition fire_tc_send_timer :: "int \<Rightarrow> monitor \<Rightarrow> monitor" where
  "fire_tc_send_timer now s =
     (case try_fire now (mon_tc_timer s) of
        (t, fired) \<Rightarrow>
          (let s = s\<lparr>mon_tc_timer := t\<rparr>
           in case fired of
                None \<Rightarrow> s
              | Some (packets, idx) \<Rightarrow> if mon_stopped s then s else send_tc_packets packets (idx + 1) now s))"

text \<open>The destructor: \<open>stop()\<close>, then the members are destroyed, at last the liveness token.\<close>

definition destroy_monitor :: "monitor \<Rightarrow> monitor" where
  "destroy_monitor s =
     (let s = mon_stop s
      in s\<lparr>mon_alive := False, mon_scheduler := new_timer, mon_tc_timer := new_timer, mon_loop := map_option stop_loop (mon_loop s)\<rparr>)"

definition mon_get_loop :: "monitor \<Rightarrow> recv_loop" where
  "mon_get_loop s = the (mon_loop s)"

definition mon_put_loop :: "recv_loop \<Rightarrow> monitor \<Rightarrow> monitor" where
  "mon_put_loop l s = s\<lparr>mon_loop := Some l\<rparr>"

datatype monitor_event =
    Mev_start bool
  | Mev_stop
  | Mev_watch string
  | Mev_unwatch string
  | Mev_query_type string
  | Mev_query_instance string
  | Mev_posted
  | Mev_scheduler
  | Mev_tc_timer
  | Mev_silence
  | Mev_packet recv_metadata bytes
  | Mev_tick_expired
  | Mev_destroy

fun monitor_step :: "monitor_event \<Rightarrow> int \<Rightarrow> monitor \<Rightarrow> monitor option" where
  "monitor_step (Mev_start on_done) now s = mon_start on_done now s"
| "monitor_step Mev_stop now s = Some (mon_stop s)"
| "monitor_step (Mev_watch svc) now s = Some (mon_post (Task_watch svc) s)"
| "monitor_step (Mev_unwatch svc) now s = Some (mon_post (Task_unwatch svc) s)"
| "monitor_step (Mev_query_type svc) now s = Some (mon_post (Task_query_type svc) s)"
| "monitor_step (Mev_query_instance inst) now s = Some (mon_post (Task_query_instance inst) s)"
| "monitor_step Mev_posted now s = run_posted_monitor now s"
| "monitor_step Mev_scheduler now s = fire_scheduler now s"
| "monitor_step Mev_tc_timer now s = Some (fire_tc_send_timer now s)"
| "monitor_step Mev_silence now s =
     (if mon_loop s = None then Some s else Some (silence mon_get_loop mon_put_loop (\<lambda>s. s) now s))"
| "monitor_step (Mev_packet meta data) now s =
     (if mon_loop s = None then Some s else receive mon_get_loop mon_put_loop handle_packet meta data now s)"
| "monitor_step Mev_tick_expired now s = Some (expire now s)"
| "monitor_step Mev_destroy now s = Some (destroy_monitor s)"

end
