(* ===== verification/Monitor_Tracking.thy ===== *)
theory Monitor_Tracking
  imports Service_Monitor
begin

text \<open>
  What the service monitor guarantees about the services that it tracks: the state is well-formed, the
  callbacks report each instance as found and lost in turn, and the snapshot shows exactly the
  live services.
\<close>

section \<open>Maps\<close>

definition keys :: "('k \<times> 'v) list \<Rightarrow> 'k set" where
  "keys m = fst ` set m"

lemma map_of_keys: "map_of m k = None \<longleftrightarrow> k \<notin> keys m"
  by (simp add: keys_def map_of_eq_None_iff)

lemma keys_upd_entry [simp]: "keys (upd_entry k f m) = keys m"
  by (force simp: keys_def upd_entry_def image_iff)

lemma map_fst_upd_entry [simp]: "map fst (upd_entry k f m) = map fst m"
  by (simp add: upd_entry_def case_prod_beta' comp_def if_distrib cong: if_cong)

lemma keys_drop_key [simp]: "keys (drop_key k m) = keys m - {k}"
  by (auto simp: keys_def drop_key_def)

lemma keys_simps [simp]: "keys [] = {}" "keys ((k, v) # m) = insert k (keys m)" "keys (m @ m') = keys m \<union> keys m'"
  by (auto simp: keys_def)

lemma keys_emplace [simp]: "keys (emplace k v m) = insert k (keys m)"
  by (auto simp: emplace_def map_of_keys)

lemma keys_assign [simp]: "keys (assign k v m) = insert k (keys m)"
  by (auto simp: assign_def map_of_keys)

lemma distinct_drop_key: "distinct (map fst m) \<Longrightarrow> distinct (map fst (drop_key k m))"
  by (induction m) (auto simp: drop_key_def)

lemma distinct_emplace: "distinct (map fst m) \<Longrightarrow> distinct (map fst (emplace k v m))"
  by (auto simp: emplace_def map_of_eq_None_iff)

lemma map_of_upd_entry: "map_of (upd_entry k f m) k' = (if k' = k then map_option f (map_of m k) else map_of m k')"
  by (induction m) (auto simp: upd_entry_def)

lemma map_of_drop_key: "map_of (drop_key k m) k' = (if k' = k then None else map_of m k')"
  by (induction m) (auto simp: drop_key_def)

lemma map_of_assign: "map_of (assign k v m) k' = (if k' = k then Some v else map_of m k')"
  by (auto simp: assign_def map_of_upd_entry map_add_def split: option.split)

lemma map_of_emplace: "map_of (emplace k v m) k' = (if map_of m k = None \<and> k' = k then Some v else map_of m k')"
  by (auto simp: emplace_def map_add_def split: option.split)

lemma map_of_snoc: "map_of (m @ [(k, v)]) n = (if map_of m n = None \<and> n = k then Some v else map_of m n)"
  by (auto simp: map_add_def split: option.split)

section \<open>The reports about an instance\<close>

text \<open>
  Reading the reports in order, with the flag whether the instance is known to be there: an instance
  is found only when it is not there, and updated or lost only when it is. The result is the final flag.
\<close>

fun track :: "dns_name \<Rightarrow> bool \<Rightarrow> monitor_effect list \<Rightarrow> bool option" where
  "track n b [] = Some b"
| "track n b (M_found svc # es) =
     (if rs_instance_name svc = n then (if b then None else track n True es) else track n b es)"
| "track n b (M_lost svc _ # es) =
     (if rs_instance_name svc = n then (if b then track n False es else None) else track n b es)"
| "track n b (M_updated svc _ _ # es) =
     (if rs_instance_name svc = n \<and> \<not> b then None else track n b es)"
| "track n b (_ # es) = track n b es"

lemma track_append: "track n b (es @ fs) = (case track n b es of None \<Rightarrow> None | Some b' \<Rightarrow> track n b' fs)"
  by (induction n b es rule: track.induct) simp_all

definition reports :: "monitor \<Rightarrow> bool" where
  "reports s \<longleftrightarrow> mo_on_found (mon_opts s) \<and> mo_on_lost (mon_opts s)"

text \<open>The reports between two states say how the set of live services has changed.\<close>

definition tracks :: "monitor \<Rightarrow> monitor \<Rightarrow> bool" where
  "tracks s s' \<longleftrightarrow> mon_opts s' = mon_opts s \<and>
     (\<exists>es. mon_out s' = mon_out s @ es \<and>
        (reports s \<longrightarrow> (\<forall>n. track n (n \<in> keys (mon_live s)) es = Some (n \<in> keys (mon_live s')))))"

lemma tracks_refl [simp, intro]: "tracks s s"
  by (auto simp: tracks_def intro: exI [of _ "[]"])

lemma tracks_trans: "tracks s t \<Longrightarrow> tracks t u \<Longrightarrow> tracks s u"
proof -
  assume a: "tracks s t" "tracks t u"
  then obtain es fs where "mon_out t = mon_out s @ es" "mon_out u = mon_out t @ fs"
    "reports s \<Longrightarrow> track n (n \<in> keys (mon_live s)) es = Some (n \<in> keys (mon_live t))"
    "reports t \<Longrightarrow> track n (n \<in> keys (mon_live t)) fs = Some (n \<in> keys (mon_live u))" for n
    by (auto simp: tracks_def)
  with a show ?thesis
    unfolding tracks_def by (auto simp: track_append reports_def intro!: exI [of _ "es @ fs"])
qed

text \<open>A change that reports nothing about an instance and leaves the live services there.\<close>

definition silent :: "monitor_effect \<Rightarrow> bool" where
  "silent e = (case e of M_found _ \<Rightarrow> False | M_lost _ _ \<Rightarrow> False | M_updated _ _ _ \<Rightarrow> False | _ \<Rightarrow> True)"

lemma track_silent: "list_all silent es \<Longrightarrow> track n b es = Some b"
  by (induction n b es rule: track.induct) (auto simp: silent_def)

lemma tracks_silent:
  assumes "mon_opts s' = mon_opts s" and "mon_out s' = mon_out s @ es" and "list_all silent es" and "keys (mon_live s') = keys (mon_live s)"
  shows "tracks s s'"
  using assms by (auto simp: tracks_def track_silent)

lemma tracks_same:
  "mon_opts s' = mon_opts s \<Longrightarrow> mon_out s' = mon_out s \<Longrightarrow> keys (mon_live s') = keys (mon_live s) \<Longrightarrow> tracks s s'"
  by (rule tracks_silent [of _ _ "[]"]) simp_all

lemma tracks_update:
  assumes "mon_opts s' = mon_opts s" and "mon_out s' = mon_out s @ [M_updated svc ev t]" and "keys (mon_live s') = keys (mon_live s)"
    and "rs_instance_name svc \<in> keys (mon_live s)"
  shows "tracks s s'"
  using assms by (auto simp: tracks_def)

section \<open>Well-formed states\<close>

definition mon_wf :: "monitor \<Rightarrow> bool" where
  "mon_wf s \<longleftrightarrow>
     distinct (map fst (mon_live s)) \<and> distinct (map fst (mon_partial s)) \<and> keys (mon_live s) \<inter> keys (mon_partial s) = {} \<and>
     (\<forall>n svc. map_of (mon_live s) n = Some svc \<longrightarrow>
        rs_instance_name svc = n \<and> (rs_hostname svc = empty_name \<or> rs_hostname svc \<in> mon_hosts s) \<and> n \<in> keys (mon_instance_type s)) \<and>
     (\<forall>n inc. map_of (mon_partial s) n = Some inc \<longrightarrow>
        rs_instance_name (inc_partial inc) = n \<and> map_of (mon_instance_type s) n = Some (inc_service_type inc) \<and>
        (rs_hostname (inc_partial inc) = empty_name \<or> rs_hostname (inc_partial inc) \<in> mon_hosts s) \<and>
        (inc_has_address inc \<longrightarrow> rs_ipv4_addresses (inc_partial inc) \<noteq> [] \<or> rs_ipv6_addresses (inc_partial inc) \<noteq> []))"

lemma mon_wf_liveD: "mon_wf s \<Longrightarrow> map_of (mon_live s) n = Some svc \<Longrightarrow> rs_instance_name svc = n \<and> n \<in> keys (mon_live s)"
  by (auto simp: mon_wf_def map_of_keys [symmetric])

text \<open>Operations that keep the state well-formed and report what they do.\<close>

definition mon_keeps :: "(monitor \<Rightarrow> monitor) \<Rightarrow> bool" where
  "mon_keeps f \<longleftrightarrow> (\<forall>s. mon_wf s \<longrightarrow> mon_wf (f s) \<and> tracks s (f s))"

lemma mon_keepsI: "(\<And>s. mon_wf s \<Longrightarrow> mon_wf (f s)) \<Longrightarrow> (\<And>s. mon_wf s \<Longrightarrow> tracks s (f s)) \<Longrightarrow> mon_keeps f"
  by (simp add: mon_keeps_def)

lemma mon_keepsD: "mon_keeps f \<Longrightarrow> mon_wf s \<Longrightarrow> mon_wf (f s)" "mon_keeps f \<Longrightarrow> mon_wf s \<Longrightarrow> tracks s (f s)"
  by (simp_all add: mon_keeps_def)

lemma keeps_id: "mon_keeps (\<lambda>s. s)"
  by (simp add: mon_keeps_def)

lemma keeps_comp: "mon_keeps f \<Longrightarrow> mon_keeps g \<Longrightarrow> mon_keeps (\<lambda>s. g (f s))"
  by (auto simp: mon_keeps_def intro: tracks_trans)

lemma keeps_fold: "(\<And>x. mon_keeps (f x)) \<Longrightarrow> mon_keeps (fold f xs)"
  by (induction xs) (simp_all add: keeps_id keeps_comp [unfolded comp_def] mon_keeps_def, metis tracks_trans)

lemma mon_wf_update [simp]:
  "mon_wf (s\<lparr>mon_snapshot := a\<rparr>) = mon_wf s" "mon_wf (s\<lparr>mon_cache := b\<rparr>) = mon_wf s" "mon_wf (s\<lparr>mon_refresh := c\<rparr>) = mon_wf s"
  "mon_wf (s\<lparr>mon_jitter := d\<rparr>) = mon_wf s" "mon_wf (s\<lparr>mon_hint := e\<rparr>) = mon_wf s" "mon_wf (s\<lparr>mon_out := f\<rparr>) = mon_wf s"
  "mon_wf (s\<lparr>mon_goodbye := g\<rparr>) = mon_wf s" "mon_wf (s\<lparr>mon_watches := h\<rparr>) = mon_wf s" "mon_wf (s\<lparr>mon_posted := i\<rparr>) = mon_wf s"
  "mon_wf (s\<lparr>mon_loop := j\<rparr>) = mon_wf s" "mon_wf (s\<lparr>mon_scheduler := k\<rparr>) = mon_wf s" "mon_wf (s\<lparr>mon_tc_timer := l\<rparr>) = mon_wf s"
  "mon_wf (s\<lparr>mon_on_done := m\<rparr>) = mon_wf s" "mon_wf (s\<lparr>mon_stopped := n\<rparr>) = mon_wf s" "mon_wf (s\<lparr>mon_alive := p\<rparr>) = mon_wf s"
  by (simp_all add: mon_wf_def)

lemma update_snapshot_sels [simp]:
  "mon_opts (update_snapshot now s) = mon_opts s" "mon_out (update_snapshot now s) = mon_out s" "mon_live (update_snapshot now s) = mon_live s"
  "mon_partial (update_snapshot now s) = mon_partial s" "mon_hosts (update_snapshot now s) = mon_hosts s"
  "mon_instance_type (update_snapshot now s) = mon_instance_type s" "mon_cache (update_snapshot now s) = mon_cache s"
  "mon_watches (update_snapshot now s) = mon_watches s" "mon_goodbye (update_snapshot now s) = mon_goodbye s"
  "mon_wf (update_snapshot now s) = mon_wf s"
  by (simp_all add: update_snapshot_def)

lemma mon_updated_sels [simp]:
  "mon_opts (mon_updated svc ev t s) = mon_opts s" "mon_live (mon_updated svc ev t s) = mon_live s"
  "mon_partial (mon_updated svc ev t s) = mon_partial s" "mon_hosts (mon_updated svc ev t s) = mon_hosts s"
  "mon_instance_type (mon_updated svc ev t s) = mon_instance_type s" "mon_cache (mon_updated svc ev t s) = mon_cache s"
  "mon_watches (mon_updated svc ev t s) = mon_watches s" "mon_goodbye (mon_updated svc ev t s) = mon_goodbye s"
  "mon_wf (mon_updated svc ev t s) = mon_wf s"
  "mon_out (mon_updated svc ev t s) = mon_out s @ (if mo_on_updated (mon_opts s) then [M_updated svc ev t] else [])"
  by (simp_all add: mon_updated_def mon_emit_def)

text \<open>Replacing the record of a live service, with or without a report.\<close>

lemma live_change_wf:
  assumes "mon_wf s" and "map_of (mon_live s) n = Some svc" and "rs_instance_name svc' = n"
    and "rs_hostname svc' = rs_hostname svc \<or> rs_hostname svc' \<in> hs" and "mon_hosts s \<subseteq> hs"
  shows "mon_wf (s\<lparr>mon_live := upd_entry n (\<lambda>_. svc') (mon_live s), mon_hosts := hs\<rparr>)"
  using assms by (fastforce simp: mon_wf_def map_of_upd_entry split: if_splits)

lemma live_change_keeps:
  assumes "mon_wf s" and "map_of (mon_live s) n = Some svc" and "rs_instance_name svc' = n" and "rs_hostname svc' = rs_hostname svc"
  shows "mon_wf (s\<lparr>mon_live := upd_entry n (\<lambda>_. svc') (mon_live s)\<rparr>)"
  using live_change_wf [OF assms(1-3), of "mon_hosts s"] assms(4) by simp

lemma live_update_tracks:
  assumes "mon_wf s" and "map_of (mon_live s) n = Some svc" and "rs_instance_name svc' = n"
    and "mon_opts u = mon_opts s" and "mon_out u = mon_out s" and "keys (mon_live u) = keys (mon_live s)"
  shows "tracks s (update_snapshot now (mon_updated svc' ev t u))"
proof (cases "mo_on_updated (mon_opts s)")
  case True
  have "n \<in> keys (mon_live s)" using assms(2) map_of_keys [of "mon_live s" n] by simp
  with True assms show ?thesis by (intro tracks_update [of _ _ svc' ev t]) simp_all
qed (use assms in \<open>simp add: tracks_same\<close>)

section \<open>Resolution\<close>

lemma check_resolved_keeps: "mon_keeps (check_resolved now inst)"
proof (rule mon_keepsI)
  fix s assume wf: "mon_wf s"
  show "mon_wf (check_resolved now inst s)"
  proof (cases "map_of (mon_partial s) inst")
    case (Some inc)
    have l: "inst \<notin> keys (mon_live s)" using wf Some map_of_keys [of "mon_partial s" inst] by (auto simp: mon_wf_def)
    have i: "inst \<in> keys (mon_instance_type s)"
      using wf Some map_of_keys [of "mon_instance_type s" inst] by (auto simp: mon_wf_def)
    have "mon_wf (s\<lparr>mon_partial := drop_key inst (mon_partial s), mon_live := emplace inst (inc_partial inc) (mon_live s)\<rparr>)"
      using wf Some l i by (auto simp: mon_wf_def distinct_drop_key distinct_emplace map_of_drop_key map_of_emplace map_of_keys split: if_splits)
    with Some wf show ?thesis by (simp add: check_resolved_def Let_def mon_emit_def)
  qed (simp add: check_resolved_def wf)
  show "tracks s (check_resolved now inst s)"
  proof (cases "map_of (mon_partial s) inst")
    case (Some inc)
    have l: "inst \<notin> keys (mon_live s)" "rs_instance_name (inc_partial inc) = inst"
      using wf Some map_of_keys [of "mon_partial s" inst] by (auto simp: mon_wf_def)
    then show ?thesis
      using Some by (auto simp: check_resolved_def Let_def mon_emit_def tracks_def reports_def)
  qed (simp add: check_resolved_def)
qed

lemma process_ptr_keeps: "mon_keeps (process_ptr r)"
proof (rule mon_keepsI)
  fix s assume wf: "mon_wf s"
  show "mon_wf (process_ptr r s)"
  proof (cases "map_of (mon_partial s) (ptr_name r) \<noteq> None \<or> map_of (mon_live s) (ptr_name r) \<noteq> None")
    case False
    then have n: "ptr_name r \<notin> keys (mon_partial s)" "ptr_name r \<notin> keys (mon_live s)" by (simp_all add: map_of_keys)
    let ?inc = "\<lparr>inc_service_type = rec_name r, inc_has_srv = False, inc_has_address = False, inc_partial = new_service (ptr_name r)\<rparr>"
    have "mon_wf (s\<lparr>mon_partial := mon_partial s @ [(ptr_name r, ?inc)],
        mon_instance_type := assign (ptr_name r) (rec_name r) (mon_instance_type s)\<rparr>)"
      using wf n unfolding mon_wf_def
      by (auto simp: keys_def [symmetric] map_of_assign map_of_snoc new_service_def map_of_keys simp del: map_of_append)
    with False show ?thesis by (simp add: process_ptr_def Let_def)
  qed (use wf in \<open>auto simp: process_ptr_def\<close>)
  show "tracks s (process_ptr r s)" by (simp add: process_ptr_def Let_def tracks_same)
qed

lemma rebuild_sels [simp]:
  "mon_opts (rebuild_refresh_schedule key ttl now s) = mon_opts s" "mon_out (rebuild_refresh_schedule key ttl now s) = mon_out s"
  "mon_live (rebuild_refresh_schedule key ttl now s) = mon_live s" "mon_partial (rebuild_refresh_schedule key ttl now s) = mon_partial s"
  "mon_hosts (rebuild_refresh_schedule key ttl now s) = mon_hosts s" "mon_wf (rebuild_refresh_schedule key ttl now s) = mon_wf s"
  "mon_snapshot (rebuild_refresh_schedule key ttl now s) = mon_snapshot s" "mon_cache (rebuild_refresh_schedule key ttl now s) = mon_cache s"
  by (simp_all add: rebuild_refresh_schedule_def)

text \<open>Replacing the record of an incomplete instance.\<close>

lemma partial_change_wf:
  assumes "mon_wf s" and "map_of (mon_partial s) n = Some inc" and "rs_instance_name (inc_partial inc') = n"
    and "inc_service_type inc' = inc_service_type inc"
    and "rs_hostname (inc_partial inc') = rs_hostname (inc_partial inc) \<or> rs_hostname (inc_partial inc') \<in> hs" and "mon_hosts s \<subseteq> hs"
    and "inc_has_address inc' \<longrightarrow> rs_ipv4_addresses (inc_partial inc') \<noteq> [] \<or> rs_ipv6_addresses (inc_partial inc') \<noteq> []"
  shows "mon_wf (s\<lparr>mon_partial := upd_entry n (\<lambda>_. inc') (mon_partial s), mon_hosts := hs\<rparr>)"
  using assms by (fastforce simp: mon_wf_def map_of_upd_entry split: if_splits)

lemma mon_wf_partialD:
  "mon_wf s \<Longrightarrow> map_of (mon_partial s) n = Some inc \<Longrightarrow> rs_instance_name (inc_partial inc) = n \<and>
    (inc_has_address inc \<longrightarrow> rs_ipv4_addresses (inc_partial inc) \<noteq> [] \<or> rs_ipv6_addresses (inc_partial inc) \<noteq> [])"
  by (auto simp: mon_wf_def)

text \<open>The refresh of the schedule for an SRV record, and the note of a goodbye.\<close>

definition srv_refresh :: "record_srv \<Rightarrow> int \<Rightarrow> monitor \<Rightarrow> monitor" where
  "srv_refresh r now s = (if rec_ttl r > 0 then rebuild_refresh_schedule (str (rec_name r) @ '':srv'') (rec_ttl r) now s else s)"

definition srv_goodbye :: "record_srv \<Rightarrow> monitor \<Rightarrow> monitor" where
  "srv_goodbye r s = (if rec_ttl r = 0 then s\<lparr>mon_goodbye := insert (rec_name r) (mon_goodbye s)\<rparr> else s)"

lemma srv_refresh_sels [simp]:
  "mon_opts (srv_refresh r now s) = mon_opts s" "mon_out (srv_refresh r now s) = mon_out s" "mon_live (srv_refresh r now s) = mon_live s"
  "mon_partial (srv_refresh r now s) = mon_partial s" "mon_hosts (srv_refresh r now s) = mon_hosts s"
  "mon_wf (srv_refresh r now s) = mon_wf s" "mon_snapshot (srv_refresh r now s) = mon_snapshot s"
  by (simp_all add: srv_refresh_def)

lemma srv_goodbye_sels [simp]:
  "mon_opts (srv_goodbye r s) = mon_opts s" "mon_out (srv_goodbye r s) = mon_out s" "mon_live (srv_goodbye r s) = mon_live s"
  "mon_partial (srv_goodbye r s) = mon_partial s" "mon_hosts (srv_goodbye r s) = mon_hosts s" "mon_wf (srv_goodbye r s) = mon_wf s"
  "mon_snapshot (srv_goodbye r s) = mon_snapshot s"
  by (simp_all add: srv_goodbye_def)

definition srv_partial :: "record_srv \<Rightarrow> incomplete_instance \<Rightarrow> incomplete_instance" where
  "srv_partial r inc = inc\<lparr>inc_has_srv := True, inc_partial := (inc_partial inc)\<lparr>rs_hostname := srv_name r, rs_port := srv_port r\<rparr>\<rparr>"

lemma process_srv_cases:
  "process_srv r now s =
    (let u = srv_goodbye r s
     in case map_of (mon_partial s) (rec_name r) of
          Some inc \<Rightarrow> check_resolved now (rec_name r) (srv_refresh r now
            (u\<lparr>mon_partial := upd_entry (rec_name r) (\<lambda>_. srv_partial r inc) (mon_partial u), mon_hosts := insert (srv_name r) (mon_hosts u)\<rparr>))
        | None \<Rightarrow>
            (case map_of (mon_live s) (rec_name r) of
               None \<Rightarrow> u
             | Some svc \<Rightarrow>
                 (let v = srv_refresh r now u; svc' = svc\<lparr>rs_hostname := srv_name r, rs_port := srv_port r\<rparr>
                  in if rs_hostname svc = srv_name r \<and> rs_port svc = srv_port r then v
                     else update_snapshot now (mon_updated svc' Update_added Type_srv
                       (v\<lparr>mon_live := upd_entry (rec_name r) (\<lambda>_. svc') (mon_live v), mon_hosts := insert (srv_name r) (mon_hosts v)\<rparr>)))))"
  by (simp add: process_srv_def srv_goodbye_def srv_refresh_def srv_partial_def Let_def split: option.split)

lemma process_srv_keeps: "mon_keeps (process_srv r now)"
proof (rule mon_keepsI)
  fix s assume wf: "mon_wf s"
  let ?n = "rec_name r" and ?u = "srv_goodbye r s"
  have both: "mon_wf (process_srv r now s) \<and> tracks s (process_srv r now s)"
  proof (cases "map_of (mon_partial s) ?n")
    case (Some inc)
    let ?v = "?u\<lparr>mon_partial := upd_entry ?n (\<lambda>_. srv_partial r inc) (mon_partial ?u), mon_hosts := insert (srv_name r) (mon_hosts ?u)\<rparr>"
    have "mon_wf ?v"
      using wf Some mon_wf_partialD [OF wf Some] by (intro partial_change_wf [of _ _ inc]) (auto simp: srv_partial_def)
    then have w: "mon_wf (srv_refresh r now ?v)" by simp
    have "tracks s (srv_refresh r now ?v)" by (rule tracks_same) simp_all
    with mon_keepsD [OF check_resolved_keeps w, of now ?n] Some show ?thesis by (auto simp: process_srv_cases Let_def intro: tracks_trans)
  next
    case None
    show ?thesis
    proof (cases "map_of (mon_live s) ?n")
      case None
      with \<open>map_of (mon_partial s) ?n = None\<close> wf show ?thesis by (simp add: process_srv_cases Let_def tracks_same)
    next
      case (Some svc)
      let ?v = "srv_refresh r now ?u" and ?svc = "svc\<lparr>rs_hostname := srv_name r, rs_port := srv_port r\<rparr>"
      let ?w = "?v\<lparr>mon_live := upd_entry ?n (\<lambda>_. ?svc) (mon_live ?v), mon_hosts := insert (srv_name r) (mon_hosts ?v)\<rparr>"
      have i: "rs_instance_name ?svc = ?n" using mon_wf_liveD [OF wf Some] by simp
      have "mon_wf ?w" using wf Some i by (intro live_change_wf [of _ _ svc]) auto
      moreover have "tracks s (update_snapshot now (mon_updated ?svc Update_added Type_srv ?w))"
        using wf Some i by (intro live_update_tracks [of _ ?n svc]) simp_all
      ultimately show ?thesis
        using None Some wf by (simp add: process_srv_cases Let_def tracks_same)
    qed
  qed
  show "mon_wf (process_srv r now s)" "tracks s (process_srv r now s)" using both by simp_all
qed

text \<open>A selector of an address list: updating it leaves the name and the host alone.\<close>

definition address_field :: "(resolved_service \<Rightarrow> string list) \<Rightarrow> ((string list \<Rightarrow> string list) \<Rightarrow> resolved_service \<Rightarrow> resolved_service) \<Rightarrow> bool" where
  "address_field get upd \<longleftrightarrow>
     get = rs_ipv4_addresses \<and> upd = rs_ipv4_addresses_update \<or> get = rs_ipv6_addresses \<and> upd = rs_ipv6_addresses_update"

lemma address_field_simps:
  assumes "address_field get upd"
  shows "rs_instance_name (upd f svc) = rs_instance_name svc" "rs_hostname (upd f svc) = rs_hostname svc" "get (upd f svc) = f (get svc)"
    "rs_ipv4_addresses (upd (\<lambda>a. a @ [x]) svc) \<noteq> [] \<or> rs_ipv6_addresses (upd (\<lambda>a. a @ [x]) svc) \<noteq> []"
    "rs_port (upd f svc) = rs_port svc" "rs_txt_entries (upd f svc) = rs_txt_entries svc"
  using assms by (auto simp: address_field_def)

lemma address_fields [simp]:
  "address_field rs_ipv4_addresses rs_ipv4_addresses_update" "address_field rs_ipv6_addresses rs_ipv6_addresses_update"
  by (simp_all add: address_field_def)

lemma add_live_address_keeps: "address_field get upd \<Longrightarrow> mon_keeps (add_live_address get upd owner addr dtype now inst)"
proof (rule mon_keepsI)
  fix s assume f: "address_field get upd" and wf: "mon_wf s"
  show "mon_wf (add_live_address get upd owner addr dtype now inst s)"
    using wf f mon_wf_liveD [OF wf]
    by (auto simp: add_live_address_def Let_def address_field_simps intro!: live_change_keeps split: option.split)
  show "tracks s (add_live_address get upd owner addr dtype now inst s)"
    using wf f mon_wf_liveD [OF wf]
    by (auto simp: add_live_address_def Let_def address_field_simps intro!: live_update_tracks split: option.split)
qed

lemma drop_live_address_keeps: "address_field get upd \<Longrightarrow> mon_keeps (drop_live_address get upd owner addr dtype now inst)"
proof (rule mon_keepsI)
  fix s assume f: "address_field get upd" and wf: "mon_wf s"
  show "mon_wf (drop_live_address get upd owner addr dtype now inst s)"
    using wf f mon_wf_liveD [OF wf]
    by (auto simp: drop_live_address_def Let_def address_field_simps intro!: live_change_keeps split: option.split)
  show "tracks s (drop_live_address get upd owner addr dtype now inst s)"
    using wf f mon_wf_liveD [OF wf]
    by (auto simp: drop_live_address_def Let_def address_field_simps intro!: live_update_tracks split: option.split)
qed

definition extend_partials ::
  "(resolved_service \<Rightarrow> string list) \<Rightarrow> ((string list \<Rightarrow> string list) \<Rightarrow> resolved_service \<Rightarrow> resolved_service)
     \<Rightarrow> dns_name \<Rightarrow> string \<Rightarrow> monitor \<Rightarrow> monitor" where
  "extend_partials get upd owner addr s =
     s\<lparr>mon_partial := map (\<lambda>(n, inc). (n, case add_partial_address get upd owner addr inc of Some i \<Rightarrow> i | None \<Rightarrow> inc)) (mon_partial s)\<rparr>"

definition promotable :: "dns_name \<Rightarrow> monitor \<Rightarrow> dns_name list" where
  "promotable owner s =
     map fst (filter (\<lambda>(_, inc). rs_hostname (inc_partial inc) = owner \<and> inc_has_srv inc \<and> inc_has_address inc) (mon_partial s))"

lemma process_address_cases:
  "process_address_record get upd owner addr dtype now s =
    (let t = extend_partials get upd owner addr s;
         u = (if list_ex (\<lambda>(_, inc). add_partial_address get upd owner addr inc \<noteq> None) (mon_partial s)
              then fold (check_resolved now) (promotable owner t) t else t)
     in fold (add_live_address get upd owner addr dtype now) (map fst (mon_live u)) u)"
  by (simp add: process_address_record_def extend_partials_def promotable_def Let_def)

lemma keys_map_snd [simp]: "keys (map (\<lambda>(n, v). (n, g v)) m) = keys m"
  by (force simp: keys_def image_iff)

lemma map_fst_map_snd [simp]: "map fst (map (\<lambda>(n, v). (n, g v)) m) = map fst m"
  by (simp add: case_prod_beta' comp_def)

lemma partial_map_wf:
  assumes "mon_wf s"
    and "\<And>n inc. map_of (mon_partial s) n = Some inc \<Longrightarrow>
      rs_instance_name (inc_partial (g inc)) = rs_instance_name (inc_partial inc) \<and>
      rs_hostname (inc_partial (g inc)) = rs_hostname (inc_partial inc) \<and> inc_service_type (g inc) = inc_service_type inc \<and>
      (inc_has_address (g inc) \<longrightarrow> rs_ipv4_addresses (inc_partial (g inc)) \<noteq> [] \<or> rs_ipv6_addresses (inc_partial (g inc)) \<noteq> [])"
  shows "mon_wf (s\<lparr>mon_partial := map (\<lambda>(n, inc). (n, g inc)) (mon_partial s)\<rparr>)"
proof -
  define ps where "ps = map (\<lambda>(n, inc). (n, g inc)) (mon_partial s)"
  have m: "map_of ps n = map_option g (map_of (mon_partial s) n)" "keys ps = keys (mon_partial s)" "map fst ps = map fst (mon_partial s)" for n
    unfolding ps_def by (simp add: map_of_map, rule keys_map_snd, rule map_fst_map_snd)
  have "mon_wf (s\<lparr>mon_partial := ps\<rparr>)"
    using assms(1) unfolding mon_wf_def by (simp add: m) (use assms(2) in fastforce)
  then show ?thesis by (simp add: ps_def)
qed

lemma extend_partials_keeps: "address_field get upd \<Longrightarrow> mon_keeps (extend_partials get upd owner addr)"
proof (rule mon_keepsI)
  fix s assume f: "address_field get upd" and wf: "mon_wf s"
  show "mon_wf (extend_partials get upd owner addr s)"
    unfolding extend_partials_def
  proof (rule partial_map_wf [OF wf])
    fix n inc assume "map_of (mon_partial s) n = Some inc"
    then have h: "inc_has_address inc \<longrightarrow> rs_ipv4_addresses (inc_partial inc) \<noteq> [] \<or> rs_ipv6_addresses (inc_partial inc) \<noteq> []"
      using mon_wf_partialD [OF wf] by blast
    let ?g = "case add_partial_address get upd owner addr inc of Some i \<Rightarrow> i | None \<Rightarrow> inc"
    show "rs_instance_name (inc_partial ?g) = rs_instance_name (inc_partial inc) \<and>
      rs_hostname (inc_partial ?g) = rs_hostname (inc_partial inc) \<and> inc_service_type ?g = inc_service_type inc \<and>
      (inc_has_address ?g \<longrightarrow> rs_ipv4_addresses (inc_partial ?g) \<noteq> [] \<or> rs_ipv6_addresses (inc_partial ?g) \<noteq> [])"
      using h address_field_simps [OF f, of _ "inc_partial inc"] by (simp add: add_partial_address_def)
  qed
  show "tracks s (extend_partials get upd owner addr s)" by (simp add: extend_partials_def tracks_same)
qed

lemma process_address_keeps:
  assumes "address_field get upd"
  shows "mon_keeps (process_address_record get upd owner addr dtype now)"
proof (rule mon_keepsI)
  fix s assume wf: "mon_wf s"
  let ?t = "extend_partials get upd owner addr s"
  let ?u = "if list_ex (\<lambda>(_, inc). add_partial_address get upd owner addr inc \<noteq> None) (mon_partial s)
    then fold (check_resolved now) (promotable owner ?t) ?t else ?t"
  have t: "mon_wf ?t" "tracks s ?t" using mon_keepsD [OF extend_partials_keeps [OF assms] wf] by simp_all
  have c: "mon_keeps (fold (check_resolved now) xs)" for xs by (rule keeps_fold [OF check_resolved_keeps])
  have u: "mon_wf ?u" "tracks s ?u" using t mon_keepsD [OF c t(1)] by (auto intro: tracks_trans)
  have k: "mon_keeps (fold (add_live_address get upd owner addr dtype now) xs)" for xs
    by (rule keeps_fold [OF add_live_address_keeps [OF assms]])
  show "mon_wf (process_address_record get upd owner addr dtype now s)"
    unfolding process_address_cases Let_def by (rule mon_keepsD(1) [OF k u(1)])
  show "tracks s (process_address_record get upd owner addr dtype now s)"
    unfolding process_address_cases Let_def by (rule tracks_trans [OF u(2) mon_keepsD(2) [OF k u(1)]])
qed

lemma process_txt_keeps: "mon_keeps (process_txt r now)"
proof (rule mon_keepsI)
  fix s assume wf: "mon_wf s"
  let ?n = "rec_name r"
  have both: "mon_wf (process_txt r now s) \<and> tracks s (process_txt r now s)"
  proof (cases "map_of (mon_partial s) ?n")
    case (Some inc)
    let ?inc = "inc\<lparr>inc_partial := (inc_partial inc)\<lparr>rs_txt_entries := fst (mon_merge_txt (rs_txt_entries (inc_partial inc)) (txt_entries r))\<rparr>\<rparr>"
    have "mon_wf (s\<lparr>mon_partial := upd_entry ?n (\<lambda>_. ?inc) (mon_partial s), mon_hosts := mon_hosts s\<rparr>)"
      using wf Some mon_wf_partialD [OF wf Some] by (intro partial_change_wf [of _ _ inc]) auto
    with Some show ?thesis by (simp add: process_txt_def Let_def tracks_same)
  next
    case None
    show ?thesis
    proof (cases "map_of (mon_live s) ?n")
      case (Some svc)
      obtain ts ch where m: "mon_merge_txt (rs_txt_entries svc) (txt_entries r) = (ts, ch)" by fastforce
      let ?svc = "svc\<lparr>rs_txt_entries := ts\<rparr>"
      let ?u = "s\<lparr>mon_live := upd_entry ?n (\<lambda>_. ?svc) (mon_live s)\<rparr>"
      have i: "rs_instance_name ?svc = ?n" using mon_wf_liveD [OF wf Some] by simp
      have "mon_wf ?u" by (rule live_change_keeps [OF wf Some i]) simp
      moreover have "tracks s (update_snapshot now (mon_updated ?svc Update_added Type_txt ?u))" "tracks s ?u"
        by (rule live_update_tracks [OF wf Some i], simp_all) (rule tracks_same, simp_all)
      ultimately show ?thesis using None Some m by (simp add: process_txt_def Let_def)
    qed (use None wf in \<open>simp add: process_txt_def\<close>)
  qed
  show "mon_wf (process_txt r now s)" "tracks s (process_txt r now s)" using both by simp_all
qed

lemma keeps_cong: "(\<And>s. f s = g s) \<Longrightarrow> mon_keeps g \<Longrightarrow> mon_keeps f"
  by (simp add: mon_keeps_def)

lemma process_record_keeps: "mon_keeps (process_record rec now)"
proof (cases rec)
  case (Rec_ptr r)
  show ?thesis by (rule keeps_cong [OF _ process_ptr_keeps [of r]]) (simp add: Rec_ptr)
next
  case (Rec_srv r)
  show ?thesis by (rule keeps_cong [OF _ process_srv_keeps [of r now]]) (simp add: Rec_srv)
next
  case (Rec_a r)
  show ?thesis by (rule keeps_cong [OF _ process_address_keeps [OF address_fields(1)]]) (simp add: Rec_a process_a_def)
next
  case (Rec_aaaa r)
  show ?thesis by (rule keeps_cong [OF _ process_address_keeps [OF address_fields(2)]]) (simp add: Rec_aaaa process_aaaa_def)
next
  case (Rec_txt r)
  show ?thesis by (rule keeps_cong [OF _ process_txt_keeps [of r now]]) (simp add: Rec_txt)
qed

lemma cache_record_keeps: "mon_keeps (cache_record rec sender now)"
proof (rule mon_keepsI)
  fix s assume wf: "mon_wf s"
  obtain c fl where i: "insert_record rec sender now now (mon_hint s 0) (mon_cache s) = (c, fl)" by fastforce
  show "mon_wf (cache_record rec sender now s)" using wf by (cases fl) (simp_all add: cache_record_def i mon_emit_def)
  show "tracks s (cache_record rec sender now s)"
    by (cases fl)
      (simp_all add: cache_record_def i mon_emit_def tracks_same tracks_silent [of _ _ "[M_flushed (the fl)]"] silent_def)
qed

lemma handle_records_keeps:
  assumes "mon_wf s"
  shows "mon_wf (fst (fold (handle_record sender now) recs (s, b))) \<and> tracks s (fst (fold (handle_record sender now) recs (s, b)))"
  using assms
proof (induction recs arbitrary: s b)
  case (Cons rec recs)
  obtain u c where u: "handle_record sender now rec (s, b) = (u, c)" by fastforce
  have "mon_wf u \<and> tracks s u"
    using u mon_keepsD [OF keeps_comp [OF cache_record_keeps [of rec sender now] process_record_keeps [of rec now]] Cons.prems]
      Cons.prems by (auto simp: handle_record_def split: if_splits)
  with Cons.IH [of u c] u show ?case by (auto intro: tracks_trans)
qed simp

section \<open>Loss\<close>

lemma lost_tracks:
  assumes "mon_wf s" and "map_of (mon_live s) n = Some svc" and "mon_opts u = mon_opts s"
    and "mon_out u = mon_out s @ (if mo_on_lost (mon_opts s) then [M_lost svc reason] else [])"
    and "keys (mon_live u) = keys (mon_live s) - {n}"
  shows "tracks s u"
  using assms mon_wf_liveD [OF assms(1,2)] by (auto simp: tracks_def reports_def)

lemma drop_live_wf: "mon_wf s \<Longrightarrow> mon_wf (s\<lparr>mon_live := drop_key n (mon_live s)\<rparr>)"
  by (auto simp: mon_wf_def distinct_drop_key map_of_drop_key split: if_splits)

lemma drop_partial_wf: "mon_wf s \<Longrightarrow> mon_wf (s\<lparr>mon_partial := drop_key n (mon_partial s)\<rparr>)"
  by (auto simp: mon_wf_def distinct_drop_key map_of_drop_key split: if_splits)

lemma handle_expired_srv_keeps: "mon_keeps (handle_expired_srv r now)"
proof (rule mon_keepsI)
  fix s assume wf: "mon_wf s"
  show "mon_wf (handle_expired_srv r now s)"
  proof (cases "map_of (mon_live s) (rec_name r)")
    case None
    then show ?thesis using drop_partial_wf [OF wf] by (simp add: handle_expired_srv_def)
  next
    case (Some svc)
    then show ?thesis
      using drop_partial_wf [OF drop_live_wf [OF wf], of "rec_name r" "rec_name r"]
      by (simp add: handle_expired_srv_def Let_def mon_emit_def)
  qed
  show "tracks s (handle_expired_srv r now s)"
  proof (cases "map_of (mon_live s) (rec_name r)")
    case None
    then show ?thesis by (simp add: handle_expired_srv_def tracks_same)
  next
    case (Some svc)
    then show ?thesis
      by (intro lost_tracks [OF wf Some, of _ "if rec_name r \<in> mon_goodbye s then Loss_goodbye else Loss_timeout"])
        (auto simp: handle_expired_srv_def Let_def mon_emit_def)
  qed
qed

lemma handle_expired_txt_keeps: "mon_keeps (handle_expired_txt r now)"
proof (rule mon_keepsI)
  fix s assume wf: "mon_wf s"
  have both: "mon_wf (handle_expired_txt r now s) \<and> tracks s (handle_expired_txt r now s)"
  proof (cases "map_of (mon_live s) (rec_name r)")
    case (Some svc)
    obtain ts ch where m: "foldl (\<lambda>(txt, changed) e. (drop_entry e txt, changed \<or> list_ex (\<lambda>x. txt_key x = txt_key e) txt))
        (rs_txt_entries svc, False) (txt_entries r) = (ts, ch)" by fastforce
    let ?svc = "svc\<lparr>rs_txt_entries := ts\<rparr>"
    let ?u = "s\<lparr>mon_live := upd_entry (rec_name r) (\<lambda>_. ?svc) (mon_live s)\<rparr>"
    have i: "rs_instance_name ?svc = rec_name r" using mon_wf_liveD [OF wf Some] by simp
    have "mon_wf ?u" by (rule live_change_keeps [OF wf Some i]) simp
    moreover have "tracks s (update_snapshot now (mon_updated ?svc Update_removed Type_txt ?u))" "tracks s ?u"
      by (rule live_update_tracks [OF wf Some i], simp_all) (rule tracks_same, simp_all)
    ultimately show ?thesis using Some m by (simp add: handle_expired_txt_def Let_def)
  qed (use wf in \<open>simp add: handle_expired_txt_def\<close>)
  show "mon_wf (handle_expired_txt r now s)" "tracks s (handle_expired_txt r now s)" using both by simp_all
qed

lemma handle_expired_address_keeps: "address_field get upd \<Longrightarrow> mon_keeps (handle_expired_address get upd owner addr dtype now)"
  using keeps_fold [of "drop_live_address get upd owner addr dtype now"] drop_live_address_keeps [of get upd]
  by (simp add: mon_keeps_def handle_expired_address_def)

lemma handle_expired_record_keeps: "mon_keeps (handle_expired_record now rec)"
proof (cases rec)
  case (Rec_ptr r)
  show ?thesis by (rule keeps_cong [OF _ keeps_id]) (simp add: Rec_ptr)
next
  case (Rec_srv r)
  show ?thesis by (rule keeps_cong [OF _ handle_expired_srv_keeps [of r now]]) (simp add: Rec_srv)
next
  case (Rec_a r)
  show ?thesis by (rule keeps_cong [OF _ handle_expired_address_keeps [OF address_fields(1)]]) (simp add: Rec_a)
next
  case (Rec_aaaa r)
  show ?thesis by (rule keeps_cong [OF _ handle_expired_address_keeps [OF address_fields(2)]]) (simp add: Rec_aaaa)
next
  case (Rec_txt r)
  show ?thesis by (rule keeps_cong [OF _ handle_expired_txt_keeps [of r now]]) (simp add: Rec_txt)
qed

lemma expire_keeps: "mon_keeps (expire now)"
proof (rule mon_keepsI)
  fix s assume wf: "mon_wf s"
  obtain c ex cb where e: "erase_expired now (mon_cache s) = (c, ex, cb)" by (metis surj_pair)
  have k: "mon_keeps (handle_expired now es)" for es
    unfolding handle_expired_def by (rule keeps_fold [OF handle_expired_record_keeps])
  have w: "mon_wf (s\<lparr>mon_cache := c\<rparr>)" "tracks s (s\<lparr>mon_cache := c\<rparr>)" using wf by (simp_all add: tracks_same)
  show "mon_wf (expire now s)" using w mon_keepsD(1) [OF k w(1)] by (simp add: expire_def e Let_def split: option.split)
  show "tracks s (expire now s)" using w tracks_trans [OF w(2) mon_keepsD(2) [OF k w(1)]] by (simp add: expire_def e Let_def split: option.split)
qed

end
