(* ===== verification/Network_Interfaces.thy ===== *)
theory Network_Interfaces
  imports Nic_Monitor Monitor_Tracking
begin

text \<open>
  \<open>enumerate_interfaces\<close> of \<open>network_interface.h\<close>, the POSIX and the Windows variant. The system calls are arguments: what
  \<open>getifaddrs\<close> returned (\<open>None\<close> is an error), \<open>if_nametoindex\<close>, and for each address what
  \<open>inet_ntop\<close> made of it. The result is what the interface monitor compares, and it is shown to
  have the form that the monitor relies on.
\<close>

section \<open>Enumeration\<close>

datatype ifa_sockaddr = Inet "string option" | Inet6 "string option" | Other_family

record ifaddr =
  ifa_name :: string
  ifa_up :: bool
  ifa_loopback :: bool
  ifa_addr :: "ifa_sockaddr option"

fun set_address :: "ifa_sockaddr \<Rightarrow> network_interface \<Rightarrow> network_interface" where
  "set_address (Inet (Some buf)) iface = iface\<lparr>ni_ipv4_address := buf\<rparr>"
| "set_address (Inet6 (Some buf)) iface = iface\<lparr>ni_ipv6_address := buf\<rparr>"
| "set_address _ iface = iface"

definition add_ifaddr ::
  "(string \<Rightarrow> u32) \<Rightarrow> ifaddr \<Rightarrow> (string \<times> network_interface) list \<Rightarrow> (string \<times> network_interface) list" where
  "add_ifaddr if_nametoindex ifa by_name =
     (case ifa_addr ifa of
        None \<Rightarrow> by_name
      | Some addr \<Rightarrow>
          (let iface = (case map_of by_name (ifa_name ifa) of Some i \<Rightarrow> i | None \<Rightarrow> no_interface);
               iface = iface\<lparr>ni_name := ifa_name ifa, ni_is_loopback := ifa_loopback ifa, ni_is_up := ifa_up ifa,
                             ni_index := if_nametoindex (ifa_name ifa)\<rparr>
           in assign (ifa_name ifa) (set_address addr iface) by_name))"

definition enumerate_interfaces ::
  "(string \<Rightarrow> u32) \<Rightarrow> ifaddr list option \<Rightarrow> network_interface list option" where
  "enumerate_interfaces if_nametoindex addrs =
     (case addrs of
        None \<Rightarrow> None
      | Some ifas \<Rightarrow> Some (map snd (fold (add_ifaddr if_nametoindex) ifas [])))"

text \<open>The throwing overload; the unit value stands for the exception.\<close>

definition enumerate_interfaces_throwing ::
  "(string \<Rightarrow> u32) \<Rightarrow> ifaddr list option \<Rightarrow> unit + network_interface list" where
  "enumerate_interfaces_throwing if_nametoindex addrs =
     (case enumerate_interfaces if_nametoindex addrs of None \<Rightarrow> Inl () | Some xs \<Rightarrow> Inr xs)"

text \<open>
  The Windows variant. \<open>get_adapters\<close> gives the result of each attempt: the buffer is too small, another error, or the
  adapters with their unicast addresses.
\<close>

record adapter =
  ad_name :: string
  ad_index :: u32
  ad_up :: bool
  ad_loopback :: bool
  ad_addresses :: "ifa_sockaddr list"

datatype adapters_result = Buffer_overflow | Adapters_error | Adapters "adapter list"

fun adapter_attempts :: "(nat \<Rightarrow> adapters_result) \<Rightarrow> nat \<Rightarrow> nat \<Rightarrow> adapters_result \<Rightarrow> adapters_result" where
  "adapter_attempts get_adapters 0 i result = result"
| "adapter_attempts get_adapters (Suc n) i result =
     (if result = Buffer_overflow then adapter_attempts get_adapters n (Suc i) (get_adapters i) else result)"

definition add_adapter :: "adapter \<Rightarrow> (string \<times> network_interface) list \<Rightarrow> (string \<times> network_interface) list" where
  "add_adapter ad by_name =
     (let iface = (case map_of by_name (ad_name ad) of Some i \<Rightarrow> i | None \<Rightarrow> no_interface);
          iface = iface\<lparr>ni_name := ad_name ad, ni_index := ad_index ad, ni_is_up := ad_up ad, ni_is_loopback := ad_loopback ad\<rparr>
      in assign (ad_name ad) (fold set_address (ad_addresses ad) iface) by_name)"

definition enumerate_interfaces_windows :: "(nat \<Rightarrow> adapters_result) \<Rightarrow> network_interface list option" where
  "enumerate_interfaces_windows get_adapters =
     (case adapter_attempts get_adapters 3 0 Buffer_overflow of
        Adapters ads \<Rightarrow> Some (map snd (fold add_adapter ads []))
      | _ \<Rightarrow> None)"

section \<open>The form of an enumeration\<close>

lemma distinct_assign: "distinct (map fst m) \<Longrightarrow> distinct (map fst (assign k v m))"
  by (auto simp: assign_def map_of_eq_None_iff)

lemma set_assign: "x \<in> set (assign k v m) \<Longrightarrow> x = (k, v) \<or> x \<in> set m"
  by (auto simp: assign_def upd_entry_def split: if_splits)

lemma set_address_sels [simp]:
  "ni_name (set_address a i) = ni_name i" "ni_index (set_address a i) = ni_index i" "ni_is_loopback (set_address a i) = ni_is_loopback i"
  by (cases "(a, i)" rule: set_address.cases; simp)+

text \<open>
  The table is keyed by interface name, and every interface carries its name, the index of its name and
  its kind.
\<close>

definition table_ok :: "(string \<Rightarrow> u32) \<Rightarrow> (string \<Rightarrow> bool) \<Rightarrow> (string \<times> network_interface) list \<Rightarrow> bool" where
  "table_ok idx kind m \<longleftrightarrow> distinct (map fst m) \<and>
     list_all (\<lambda>(n, i). ni_name i = n \<and> ni_index i = idx n \<and> ni_is_loopback i = kind n) m"

lemma add_ifaddr_ok: "table_ok idx kind m \<Longrightarrow> ifa_loopback ifa = kind (ifa_name ifa) \<Longrightarrow> table_ok idx kind (add_ifaddr idx ifa m)"
  by (auto simp: table_ok_def add_ifaddr_def distinct_assign list_all_iff dest!: set_assign split: option.split)

lemma enumerate_table_ok:
  "list_all (\<lambda>ifa. ifa_loopback ifa = kind (ifa_name ifa)) ifas \<Longrightarrow> table_ok idx kind m \<Longrightarrow> table_ok idx kind (fold (add_ifaddr idx) ifas m)"
  by (induction ifas arbitrary: m) (auto intro: add_ifaddr_ok)

text \<open>
  When different interface names have different indices and an interface does not change its kind, an
  enumeration has the form that comparisons rely on.
\<close>

lemma enumerate_interfaces_ok:
  assumes "enumerate_interfaces idx addrs = Some xs" and "inj idx"
    and "\<And>ifas. addrs = Some ifas \<Longrightarrow> list_all (\<lambda>ifa. ifa_loopback ifa = kind (ifa_name ifa)) ifas"
  shows "enumeration_ok (\<lambda>k. let n = inv idx k in (n, kind n)) xs"
proof -
  obtain ifas where "addrs = Some ifas" and xs: "xs = map snd (fold (add_ifaddr idx) ifas [])"
    using assms(1) by (auto simp: enumerate_interfaces_def split: option.splits)
  let ?m = "fold (add_ifaddr idx) ifas []"
  have t: "table_ok idx kind ?m"
    using assms(3) \<open>addrs = Some ifas\<close> by (intro enumerate_table_ok) (simp_all add: table_ok_def)
  then have "map ni_index xs = map idx (map fst ?m)" by (auto simp: xs table_ok_def list_all_iff)
  moreover have "distinct (map idx (map fst ?m))"
    using t assms(2) unfolding table_ok_def by (simp only: distinct_map) (blast intro: inj_on_subset)
  ultimately have "distinct (map ni_index xs)" by simp
  moreover have "list_all (\<lambda>i. (ni_name i, ni_is_loopback i) = (let n = inv idx (ni_index i) in (n, kind n))) xs"
    using t assms(2) by (auto simp: xs table_ok_def list_all_iff)
  ultimately show ?thesis by (simp add: enumeration_ok_def)
qed

lemma enumerate_interfaces_example:
  "enumerate_interfaces (\<lambda>n. if n = ''lo'' then 1 else 2)
     (Some [\<lparr>ifa_name = ''lo'', ifa_up = True, ifa_loopback = True, ifa_addr = Some (Inet (Some ''127.0.0.1''))\<rparr>,
            \<lparr>ifa_name = ''eth0'', ifa_up = True, ifa_loopback = False, ifa_addr = Some (Inet (Some ''10.0.0.1''))\<rparr>,
            \<lparr>ifa_name = ''eth0'', ifa_up = True, ifa_loopback = False, ifa_addr = Some (Inet6 (Some ''fe80::1''))\<rparr>,
            \<lparr>ifa_name = ''tun0'', ifa_up = True, ifa_loopback = False, ifa_addr = None\<rparr>]) =
   Some [\<lparr>ni_name = ''lo'', ni_ipv4_address = ''127.0.0.1'', ni_ipv6_address = [], ni_index = 1, ni_is_loopback = True, ni_is_up = True\<rparr>,
         \<lparr>ni_name = ''eth0'', ni_ipv4_address = ''10.0.0.1'', ni_ipv6_address = ''fe80::1'', ni_index = 2, ni_is_loopback = False, ni_is_up = True\<rparr>]"
  by (simp add: enumerate_interfaces_def add_ifaddr_def assign_def upd_entry_def no_interface_def)

section \<open>The Windows enumeration\<close>

lemma fold_set_address_sels [simp]:
  "ni_name (fold set_address as i) = ni_name i" "ni_index (fold set_address as i) = ni_index i"
  "ni_is_loopback (fold set_address as i) = ni_is_loopback i"
  by (induction as arbitrary: i) simp_all

lemma add_adapter_ok:
  "table_ok idx kind m \<Longrightarrow> ad_index ad = idx (ad_name ad) \<Longrightarrow> ad_loopback ad = kind (ad_name ad) \<Longrightarrow> table_ok idx kind (add_adapter ad m)"
  by (auto simp: table_ok_def add_adapter_def distinct_assign list_all_iff Let_def dest!: set_assign split: option.split)

text \<open>It gives up after three attempts, and an enumeration has the same form as on POSIX.\<close>

lemma windows_gives_up: "(\<And>i. i < 3 \<Longrightarrow> get_adapters i = Buffer_overflow) \<Longrightarrow> enumerate_interfaces_windows get_adapters = None"
  by (simp add: enumerate_interfaces_windows_def eval_nat_numeral)

lemma windows_retries:
  "get_adapters 0 = Buffer_overflow \<Longrightarrow> get_adapters 1 = Adapters ads \<Longrightarrow>
   enumerate_interfaces_windows get_adapters = Some (map snd (fold add_adapter ads []))"
  by (simp add: enumerate_interfaces_windows_def eval_nat_numeral)

lemma windows_table_ok:
  "list_all (\<lambda>ad. ad_index ad = idx (ad_name ad) \<and> ad_loopback ad = kind (ad_name ad)) ads \<Longrightarrow> table_ok idx kind m \<Longrightarrow>
   table_ok idx kind (fold add_adapter ads m)"
  by (induction ads arbitrary: m) (auto intro: add_adapter_ok)

text \<open>
  The index is the one of IPv4, which is zero for an adapter without IPv4: two such adapters have the
  same index, and comparisons and groups, which go by the index, take them for one interface.
\<close>

lemma windows_ipv6_adapters_collide:
  "map ni_index (the (enumerate_interfaces_windows (\<lambda>_. Adapters
     [\<lparr>ad_name = ''A'', ad_index = 0, ad_up = True, ad_loopback = False, ad_addresses = [Inet6 (Some ''fe80::1'')]\<rparr>,
      \<lparr>ad_name = ''B'', ad_index = 0, ad_up = True, ad_loopback = False, ad_addresses = [Inet6 (Some ''fe80::2'')]\<rparr>]))) = [0, 0]"
  by (simp add: enumerate_interfaces_windows_def eval_nat_numeral add_adapter_def assign_def)

end
