(* ===== verification/Monitor_Safety.thy ===== *)
theory Monitor_Safety
  imports Monitor_Tracking
begin

text \<open>
  Every event of the service monitor: unwatching, queries, the scheduler and the lifecycle keep the state
  well-formed and report what they do; the snapshot that \<open>services()\<close> returns is the list of live
  services; with sane options and sendable_name names no event is undefined.
\<close>

section \<open>Unwatching\<close>

lemma lose_unwatched_keeps: "mon_keeps (lose_unwatched inst)"
proof (rule mon_keepsI)
  fix s assume wf: "mon_wf s"
  show "mon_wf (lose_unwatched inst s)"
    using wf drop_live_wf [OF wf, of inst] drop_live_wf [of "s\<lparr>mon_out := es\<rparr>" inst for es]
    by (simp add: lose_unwatched_def Let_def mon_emit_def split: option.split)
  show "tracks s (lose_unwatched inst s)"
  proof (cases "map_of (mon_live s) inst")
    case (Some svc)
    then show ?thesis
      by (intro lost_tracks [OF wf Some, of _ Loss_unwatched]) (simp_all add: lose_unwatched_def Let_def mon_emit_def)
  qed (simp add: lose_unwatched_def)
qed

lemma lose_unwatched_sels [simp]:
  "mon_opts (lose_unwatched n s) = mon_opts s" "mon_partial (lose_unwatched n s) = mon_partial s"
  "mon_instance_type (lose_unwatched n s) = mon_instance_type s" "mon_live (lose_unwatched n s) = drop_key n (mon_live s)"
  "mon_watches (lose_unwatched n s) = mon_watches s" "mon_cache (lose_unwatched n s) = mon_cache s"
  "mon_loop (lose_unwatched n s) = mon_loop s" "mon_on_done (lose_unwatched n s) = mon_on_done s"
  by (auto simp: lose_unwatched_def Let_def mon_emit_def drop_key_def map_of_eq_None_iff split: option.split intro!: filter_True [symmetric])

lemma lose_all_sels [simp]:
  "mon_opts (fold lose_unwatched ns s) = mon_opts s" "mon_partial (fold lose_unwatched ns s) = mon_partial s"
  "mon_instance_type (fold lose_unwatched ns s) = mon_instance_type s" "mon_watches (fold lose_unwatched ns s) = mon_watches s"
  "mon_cache (fold lose_unwatched ns s) = mon_cache s" "mon_loop (fold lose_unwatched ns s) = mon_loop s"
  "mon_on_done (fold lose_unwatched ns s) = mon_on_done s"
  by (induction ns arbitrary: s) simp_all

lemma lose_all_live: "mon_live (fold lose_unwatched ns s) = filter (\<lambda>x. fst x \<notin> set ns) (mon_live s)"
  by (induction ns arbitrary: s) (auto simp: drop_key_def intro: filter_cong)

definition unwatched_names :: "dns_name \<Rightarrow> monitor \<Rightarrow> dns_name list" where
  "unwatched_names ty s = map fst (filter (\<lambda>(n, _). map_of (mon_instance_type s) n = Some ty) (mon_live s))"

lemma do_unwatch_cases:
  "do_unwatch svc_type now s =
     (let ty = dns_name svc_type; u = fold lose_unwatched (unwatched_names ty s) s;
          v = u\<lparr>mon_partial := filter (\<lambda>(_, inc). inc_service_type inc \<noteq> ty) (mon_partial s),
                mon_instance_type := filter (\<lambda>(_, t). t \<noteq> ty) (mon_instance_type s)\<rparr>
      in if map_of (mon_watches s) ty = None then s
         else update_snapshot now (v\<lparr>mon_hosts := remaining_hosts v, mon_watches := drop_key ty (mon_watches s), mon_goodbye := {}\<rparr>))"
  by (simp add: do_unwatch_def unwatched_names_def Let_def)

lemma map_of_filter_value:
  "map_of m k = Some v \<Longrightarrow> P v \<Longrightarrow> map_of (filter (\<lambda>(_, v). P v) m) k = Some v"
  by (induction m) (auto split: if_splits)

lemma map_of_filter_Some:
  "distinct (map fst m) \<Longrightarrow> map_of (filter P m) k = Some v \<longleftrightarrow> map_of m k = Some v \<and> P (k, v)"
  by (simp add: map_of_eq_Some_iff distinct_map_filter)

lemma unwatch_wf:
  assumes "mon_wf u" and "\<And>n. n \<in> keys (mon_live u) \<Longrightarrow> map_of (mon_instance_type u) n \<noteq> Some ty"
  shows "mon_wf (let v = u\<lparr>mon_partial := filter (\<lambda>(_, inc). inc_service_type inc \<noteq> ty) (mon_partial u),
      mon_instance_type := filter (\<lambda>(_, t). t \<noteq> ty) (mon_instance_type u)\<rparr> in v\<lparr>mon_hosts := remaining_hosts v\<rparr>)"
proof -
  let ?p = "filter (\<lambda>(_, inc). inc_service_type inc \<noteq> ty) (mon_partial u)"
  let ?t = "filter (\<lambda>(_, t). t \<noteq> ty) (mon_instance_type u)"
  let ?v = "u\<lparr>mon_partial := ?p, mon_instance_type := ?t\<rparr>"
  have d: "distinct (map fst (mon_live u))" "distinct (map fst (mon_partial u))" "distinct (map fst ?p)"
    "keys ?p \<subseteq> keys (mon_partial u)" "keys (mon_live u) \<inter> keys (mon_partial u) = {}"
    using assms(1) by (auto simp: mon_wf_def distinct_map_filter keys_def)
  have live: "rs_instance_name svc = n \<and> (rs_hostname svc = empty_name \<or> rs_hostname svc \<in> remaining_hosts ?v) \<and> n \<in> keys ?t"
    if "map_of (mon_live u) n = Some svc" for n svc
  proof -
    have n: "n \<in> keys (mon_live u)" "(n, svc) \<in> set (mon_live u)" using that map_of_SomeD by (force simp: keys_def)+
    have "n \<in> keys (mon_instance_type u)" using assms(1) that by (simp add: mon_wf_def)
    then obtain t where "map_of (mon_instance_type u) n = Some t" using map_of_keys by fastforce
    with assms(2) [OF n(1)] have "map_of ?t n = Some t" by (intro map_of_filter_value) auto
    then have "n \<in> keys ?t" using map_of_keys [of ?t n] by simp
    with assms(1) that n(2) show ?thesis by (force simp: mon_wf_def remaining_hosts_def)
  qed
  have part: "rs_instance_name (inc_partial inc) = n \<and> map_of ?t n = Some (inc_service_type inc) \<and>
      (rs_hostname (inc_partial inc) = empty_name \<or> rs_hostname (inc_partial inc) \<in> remaining_hosts ?v) \<and>
      (inc_has_address inc \<longrightarrow> rs_ipv4_addresses (inc_partial inc) \<noteq> [] \<or> rs_ipv6_addresses (inc_partial inc) \<noteq> [])"
    if "map_of ?p n = Some inc" for n inc
  proof -
    have m: "map_of (mon_partial u) n = Some inc" "inc_service_type inc \<noteq> ty"
      using that map_of_filter_Some [OF d(2)] by auto
    have "map_of ?t n = Some (inc_service_type inc)"
      using assms(1) m by (intro map_of_filter_value) (auto simp: mon_wf_def)
    moreover have "(n, inc) \<in> set ?p" using that by (rule map_of_SomeD)
    ultimately show ?thesis using assms(1) m(1) by (force simp: mon_wf_def remaining_hosts_def)
  qed
  have "keys (mon_live u) \<inter> keys ?p = {}" using d by blast
  moreover have "?thesis \<longleftrightarrow> mon_wf (?v\<lparr>mon_hosts := remaining_hosts ?v\<rparr>)" by (simp only: Let_def)
  moreover define hs where "hs = remaining_hosts ?v"
  ultimately show ?thesis using d live part unfolding hs_def [symmetric] by (simp add: mon_wf_def) blast
qed

lemma unwatched_gone:
  "n \<in> keys (mon_live (fold lose_unwatched (unwatched_names ty s) s)) \<Longrightarrow> map_of (mon_instance_type s) n \<noteq> Some ty"
  by (auto simp: lose_all_live unwatched_names_def keys_def)

lemma do_unwatch_keeps: "mon_keeps (do_unwatch svc_type now)"
proof (rule mon_keepsI)
  fix s assume wf: "mon_wf s"
  let ?ty = "dns_name svc_type"
  let ?u = "fold lose_unwatched (unwatched_names ?ty s) s"
  note k = mon_keepsD [OF keeps_fold [of lose_unwatched "unwatched_names ?ty s", OF lose_unwatched_keeps] wf]
  show "mon_wf (do_unwatch svc_type now s)"
    using unwatch_wf [OF k(1), of ?ty] unwatched_gone [of _ ?ty s] wf by (simp add: do_unwatch_cases Let_def)
  have "tracks ?u (do_unwatch svc_type now s)" if "map_of (mon_watches s) ?ty \<noteq> None"
    using that by (intro tracks_same) (auto simp: do_unwatch_cases Let_def)
  then show "tracks s (do_unwatch svc_type now s)"
    using tracks_trans [OF k(2)] by (cases "map_of (mon_watches s) ?ty = None") (auto simp: do_unwatch_def)
qed

section \<open>Queries\<close>

text \<open>
  What queries and the scheduler do to the rest of the state: they append sent packets to the output and
  touch the timers, the backoff states and the refresh schedules, nothing else.
\<close>

definition mon_dones :: "monitor \<Rightarrow> monitor_effect list" where
  "mon_dones s = filter (\<lambda>e. e = M_done) (mon_out s)"

definition tracking :: "monitor \<Rightarrow> monitor" where
  "tracking s =
     s\<lparr>mon_scheduler := new_timer, mon_tc_timer := new_timer, mon_watches := [], mon_refresh := [], mon_out := mon_dones s\<rparr>"

definition is_sent :: "monitor_effect \<Rightarrow> bool" where
  "is_sent e \<longleftrightarrow> (case e of M_sent _ _ \<Rightarrow> True | _ \<Rightarrow> False)"

definition only_sends :: "monitor \<Rightarrow> monitor \<Rightarrow> bool" where
  "only_sends s s' \<longleftrightarrow> tracking s' = tracking s \<and> map fst (mon_watches s') = map fst (mon_watches s) \<and>
     (\<exists>es. mon_out s' = mon_out s @ es \<and> list_all is_sent es)"

lemma only_sendsI:
  "tracking s' = tracking s \<Longrightarrow> map fst (mon_watches s') = map fst (mon_watches s) \<Longrightarrow> mon_out s' = mon_out s @ es
     \<Longrightarrow> list_all is_sent es \<Longrightarrow> only_sends s s'"
  unfolding only_sends_def by blast

lemma only_sends_refl [simp, intro]: "only_sends s s"
  by (simp add: only_sends_def)

lemma only_sends_trans: "only_sends s t \<Longrightarrow> only_sends t u \<Longrightarrow> only_sends s u"
  by (auto simp: only_sends_def)

lemma tracking_sels:
  assumes "tracking s' = tracking s"
  shows "mon_opts s' = mon_opts s" "mon_live s' = mon_live s" "mon_partial s' = mon_partial s" "mon_hosts s' = mon_hosts s"
    "mon_instance_type s' = mon_instance_type s" "mon_snapshot s' = mon_snapshot s" "mon_cache s' = mon_cache s"
    "mon_mdns_opts s' = mon_mdns_opts s" "mon_loop s' = mon_loop s" "mon_on_done s' = mon_on_done s" "mon_posted s' = mon_posted s"
    "mon_stopped s' = mon_stopped s" "mon_alive s' = mon_alive s" "mon_goodbye s' = mon_goodbye s"
    "mon_inet_pton6 s' = mon_inet_pton6 s" "mon_multicast_ep s' = mon_multicast_ep s"
    "mon_dones s' = mon_dones s"
  using arg_cong [OF assms, of mon_out] arg_cong [OF assms, of mon_opts] arg_cong [OF assms, of mon_live]
    arg_cong [OF assms, of mon_partial] arg_cong [OF assms, of mon_hosts] arg_cong [OF assms, of mon_instance_type]
    arg_cong [OF assms, of mon_snapshot] arg_cong [OF assms, of mon_cache] arg_cong [OF assms, of mon_mdns_opts]
    arg_cong [OF assms, of mon_loop] arg_cong [OF assms, of mon_on_done] arg_cong [OF assms, of mon_posted]
    arg_cong [OF assms, of mon_stopped] arg_cong [OF assms, of mon_alive] arg_cong [OF assms, of mon_goodbye]
    arg_cong [OF assms, of mon_inet_pton6] arg_cong [OF assms, of mon_multicast_ep]
  by (simp_all add: tracking_def)

lemma only_sends_keeps: "only_sends s s' \<Longrightarrow> mon_wf s \<Longrightarrow> mon_wf s' \<and> tracks s s'"
proof -
  assume o: "only_sends s s'" and wf: "mon_wf s"
  then obtain es where e: "tracking s' = tracking s" "mon_out s' = mon_out s @ es" "list_all is_sent es"
    by (auto simp: only_sends_def)
  note eqs = tracking_sels [OF e(1)]
  have "list_all silent es" using e(3) by (auto simp: list_all_iff is_sent_def silent_def split: monitor_effect.splits)
  then have "tracks s s'" by (intro tracks_silent [of _ _ es]) (simp_all add: eqs e)
  then show ?thesis using wf by (simp add: mon_wf_def eqs)
qed

lemma send_tc_packets_sends: "only_sends s (send_tc_packets packets idx now s)"
proof (induction packets idx now s rule: send_tc_packets.induct)
  case (1 packets idx now s)
  show ?case
  proof (cases "idx \<ge> length packets \<or> mon_stopped s")
    case False
    let ?s = "mon_emit (M_sent (mon_multicast_ep s) (packets ! idx)) s"
    have e: "only_sends s ?s"
      by (rule only_sendsI [of _ _ "[M_sent (mon_multicast_ep s) (packets ! idx)]"]) (simp_all add: mon_emit_def tracking_def mon_dones_def is_sent_def)
    have a: "only_sends s (?s\<lparr>mon_tc_timer := t\<rparr>)" for t
      by (rule only_sendsI [of _ _ "[M_sent (mon_multicast_ep s) (packets ! idx)]"]) (simp_all add: mon_emit_def tracking_def mon_dones_def is_sent_def)
    show ?thesis
      using 1 [OF False refl] False e a by (subst send_tc_packets.simps) (auto simp: Let_def intro: only_sends_trans)
  qed (simp add: send_tc_packets.simps)
qed

lemma send_ptr_query_sends: "send_ptr_query ty now s = Some s' \<Longrightarrow> only_sends s s'"
  by (auto simp: send_ptr_query_def Let_def bind_eq_Some_conv send_tc_packets_sends split: if_splits)

lemma send_instance_queries_sends: "only_sends s (send_instance_queries inst s)"
  unfolding send_instance_queries_def Let_def
  by (rule only_sendsI [of _ _ "map (M_sent (mon_multicast_ep s)) [build_dns_query inst Type_srv Multicast,
      build_dns_query inst Type_a Multicast, build_dns_query inst Type_aaaa Multicast]"])
    (simp_all add: mon_emit_def tracking_def mon_dones_def is_sent_def)

lemma arm_scheduler_sends: "arm_scheduler now s = Some s' \<Longrightarrow> only_sends s s'"
  by (auto simp: arm_scheduler_def bind_eq_Some_conv tracking_def mon_dones_def intro!: only_sendsI [of _ _ "[]"])

lemma query_watches_sends: "query_watches ts now s = Some s' \<Longrightarrow> only_sends s s'"
proof (induction ts arbitrary: s)
  case (Cons t ts)
  show ?case
  proof (cases "map_of (mon_watches s) t")
    case (Some b)
    then obtain i b' u where "advance_backoff (mon_mdns_opts s) b = Some (i, b')"
      "send_ptr_query (str t) now (s\<lparr>mon_watches := upd_entry t (\<lambda>_. b') (mon_watches s)\<rparr>) = Some u" "query_watches ts now u = Some s'"
      using Cons.prems by (auto simp: bind_eq_Some_conv)
    moreover have "only_sends s (s\<lparr>mon_watches := upd_entry t (\<lambda>_. b') (mon_watches s)\<rparr>)"
      by (rule only_sendsI [of _ _ "[]"]) (simp_all add: tracking_def mon_dones_def)
    ultimately show ?thesis using Cons.IH send_ptr_query_sends only_sends_trans by blast
  qed (use Cons in simp)
qed simp

lemma refresh_one_sends: "only_sends s (refresh_one now ks s)"
proof -
  obtain key sched where ks: "ks = (key, sched)" by fastforce
  have p: "only_sends s ((send_instance_queries inst ^^ n) s)" for inst n
    by (induction n) (auto intro: only_sends_trans send_instance_queries_sends)
  have r: "only_sends u (u\<lparr>mon_refresh := x\<rparr>)" for u x
    by (rule only_sendsI [of _ _ "[]"]) (simp_all add: tracking_def mon_dones_def)
  show ?thesis
    unfolding refresh_one_def ks by (auto simp: Let_def split: option.split intro: r only_sends_trans [OF p r])
qed

lemma refresh_all_sends: "only_sends s (fold (refresh_one now) rs s)"
  by (induction rs arbitrary: s) (auto intro: only_sends_trans refresh_one_sends)

text \<open>A tick of the scheduler drops what has expired; everything after that is queries.\<close>

lemma on_scheduler_tick_sends:
  "on_scheduler_tick now s = Some s' \<Longrightarrow> s' = s \<or> only_sends (expire now s) s'"
  unfolding on_scheduler_tick_def Let_def
  by (auto simp: bind_eq_Some_conv split: if_splits
      intro: only_sends_trans [OF query_watches_sends only_sends_trans [OF refresh_all_sends arm_scheduler_sends]]
        only_sends_trans [OF query_watches_sends arm_scheduler_sends] only_sends_trans [OF refresh_all_sends arm_scheduler_sends]
        arm_scheduler_sends)

section \<open>The snapshot\<close>

text \<open>\<open>services()\<close> shows the live services; only the two TTL fields are filled in from the cache.\<close>

definition strip_ttl :: "resolved_service \<Rightarrow> resolved_service" where
  "strip_ttl svc = svc\<lparr>rs_wire_ttl := 0, rs_ttl_remaining := 0\<rparr>"

definition in_sync :: "monitor \<Rightarrow> bool" where
  "in_sync s \<longleftrightarrow> map strip_ttl (services s) = map (\<lambda>x. strip_ttl (snd x)) (mon_live s)"

definition syncs :: "(monitor \<Rightarrow> monitor) \<Rightarrow> bool" where
  "syncs f \<longleftrightarrow> (\<forall>s. mon_wf s \<longrightarrow> in_sync s \<longrightarrow> in_sync (f s))"

lemma update_snapshot_sync [simp]: "in_sync (update_snapshot now s)"
  by (auto simp: in_sync_def update_snapshot_def services_def strip_ttl_def with_srv_ttl_def split: list.split)

lemma in_sync_cong: "mon_live s' = mon_live s \<Longrightarrow> mon_snapshot s' = mon_snapshot s \<Longrightarrow> in_sync s' = in_sync s"
  by (simp add: in_sync_def services_def)

lemma syncs_fold: "(\<And>x. mon_keeps (f x)) \<Longrightarrow> (\<And>x. syncs (f x)) \<Longrightarrow> syncs (fold f xs)"
  by (induction xs) (simp_all add: syncs_def mon_keeps_def)

text \<open>The monitor's merge of TXT entries is the aggregation's one, and it notices every change.\<close>

lemma merge_entry_result: "merge_entry e xs = (replace_txt e xs, replace_txt e xs \<noteq> xs)"
  by (induction xs) auto

lemma mon_merge_txt_result: "fst (mon_merge_txt dst src) = merge_txt dst src \<and> (\<not> snd (mon_merge_txt dst src) \<longrightarrow> merge_txt dst src = dst)"
proof (induction src rule: rev_induct)
  case (snoc e es)
  obtain ts ch where m: "mon_merge_txt dst es = (ts, ch)" by fastforce
  then have "mon_merge_txt dst (es @ [e]) = (replace_txt e ts, ch \<or> replace_txt e ts \<noteq> ts)"
    by (simp add: mon_merge_txt_def merge_entry_result)
  then show ?case using snoc m by (auto simp: merge_txt_def)
qed (simp add: mon_merge_txt_def merge_txt_def)

lemma upd_entry_same: "distinct (map fst m) \<Longrightarrow> map_of m k = Some v \<Longrightarrow> upd_entry k (\<lambda>_. v) m = m"
  unfolding upd_entry_def by (intro map_idI) (auto simp: map_of_eq_Some_iff dest: eq_key_imp_eq_value)

lemma drop_entry_same: "\<not> list_ex (\<lambda>x. txt_key x = txt_key e) xs \<Longrightarrow> drop_entry e xs = xs"
  by (induction xs) auto

lemma drop_entries_same:
  assumes "foldl (\<lambda>(txt, changed) e. (drop_entry e txt, changed \<or> list_ex (\<lambda>x. txt_key x = txt_key e) txt)) (xs, False) es = (ys, False)"
  shows "ys = xs"
  using assms
proof (induction es arbitrary: ys rule: rev_induct)
  case (snoc e es)
  then show ?case by (auto simp: drop_entry_same split: prod.splits)
qed simp

lemma check_resolved_sync: "in_sync s \<Longrightarrow> in_sync (check_resolved now inst s)"
  by (simp add: check_resolved_def Let_def split: option.split)

lemma process_ptr_sync: "in_sync s \<Longrightarrow> in_sync (process_ptr r s)"
  by (simp add: process_ptr_def Let_def in_sync_def services_def)

lemma process_srv_sync:
  assumes "in_sync s"
  shows "in_sync (process_srv r now s)"
proof -
  have "in_sync (srv_refresh r now (srv_goodbye r s))" "in_sync (srv_goodbye r s)"
    "in_sync (srv_refresh r now (srv_goodbye r s\<lparr>mon_partial := p, mon_hosts := h\<rparr>))" for p h
    using assms by (simp_all add: in_sync_def services_def)
  then show ?thesis by (simp add: process_srv_cases Let_def check_resolved_sync split: option.split)
qed

lemma change_live_address_sync:
  "in_sync s \<Longrightarrow> in_sync (add_live_address get upd owner addr dtype now inst s)"
  "in_sync s \<Longrightarrow> in_sync (drop_live_address get upd owner addr dtype now inst s)"
  by (simp_all add: add_live_address_def drop_live_address_def Let_def split: option.split)

lemma sync_fold: "(\<And>s x. in_sync s \<Longrightarrow> in_sync (f x s)) \<Longrightarrow> in_sync s \<Longrightarrow> in_sync (fold f xs s)"
  by (induction xs arbitrary: s) simp_all

lemma process_address_sync:
  assumes "in_sync s"
  shows "in_sync (process_address_record get upd owner addr dtype now s)"
proof -
  have "in_sync (extend_partials get upd owner addr s)"
    using assms by (simp add: extend_partials_def in_sync_def services_def)
  then show ?thesis by (simp add: process_address_cases Let_def sync_fold check_resolved_sync change_live_address_sync)
qed

lemma mon_wf_distinct: "mon_wf s \<Longrightarrow> distinct (map fst (mon_live s))"
  by (simp add: mon_wf_def)

lemma process_txt_sync:
  assumes "mon_wf s" and "in_sync s"
  shows "in_sync (process_txt r now s)"
proof (cases "map_of (mon_partial s) (rec_name r)")
  case (Some inc)
  with assms show ?thesis by (simp add: process_txt_def Let_def in_sync_def services_def)
next
  case None
  show ?thesis
  proof (cases "map_of (mon_live s) (rec_name r)")
    case (Some svc)
    obtain ts ch where m: "mon_merge_txt (rs_txt_entries svc) (txt_entries r) = (ts, ch)" by fastforce
    show ?thesis
    proof (cases ch)
      case False
      then have "ts = rs_txt_entries svc" using mon_merge_txt_result [of "rs_txt_entries svc" "txt_entries r"] m by simp
      with False m None Some assms upd_entry_same [OF mon_wf_distinct [OF assms(1)] Some] show ?thesis
        by (simp add: process_txt_def)
    qed (use m None Some in \<open>simp add: process_txt_def Let_def\<close>)
  qed (use None assms in \<open>simp add: process_txt_def\<close>)
qed

lemma process_record_sync: "mon_wf s \<Longrightarrow> in_sync s \<Longrightarrow> in_sync (process_record rec now s)"
  by (cases rec)
    (simp_all add: process_ptr_sync process_srv_sync process_txt_sync process_a_def process_aaaa_def process_address_sync)

lemma cache_record_sync: "in_sync s \<Longrightarrow> in_sync (cache_record rec sender now s)"
  by (auto simp: cache_record_def mon_emit_def Let_def in_sync_def services_def split: prod.split option.split)

lemma handle_record_step:
  assumes "mon_wf s" and "handle_record sender now rec (s, b) = (u, c)"
  shows "mon_wf u \<and> tracks s u \<and> (in_sync s \<longrightarrow> in_sync u)"
  using assms cache_record_sync [of s rec sender now] process_record_sync [of "cache_record rec sender now s" rec now]
    mon_keepsD [OF cache_record_keeps assms(1), of rec sender now]
    mon_keepsD [OF keeps_comp [OF cache_record_keeps [of rec sender now] process_record_keeps [of rec now]] assms(1)]
  by (auto simp: handle_record_def split: if_splits)

lemma handle_records_sync:
  "mon_wf s \<Longrightarrow> in_sync s \<Longrightarrow> in_sync (fst (fold (handle_record sender now) recs (s, b)))"
proof (induction recs arbitrary: s b)
  case (Cons rec recs)
  obtain u c where u: "handle_record sender now rec (s, b) = (u, c)" by fastforce
  with Cons.IH [of u c] Cons.prems handle_record_step [OF Cons.prems(1) u] show ?case by simp
qed simp

lemma handle_expired_srv_sync:
  assumes "in_sync s"
  shows "in_sync (handle_expired_srv r now s)"
proof (cases "map_of (mon_live s) (rec_name r)")
  case None
  have "in_sync (s\<lparr>mon_partial := p, mon_goodbye := g\<rparr>)" for p g using assms by (simp add: in_sync_def services_def)
  with None show ?thesis by (simp add: handle_expired_srv_def)
qed (simp add: handle_expired_srv_def Let_def)

lemma handle_expired_txt_sync:
  assumes "mon_wf s" and "in_sync s"
  shows "in_sync (handle_expired_txt r now s)"
proof (cases "map_of (mon_live s) (rec_name r)")
  case (Some svc)
  obtain ts ch where m: "foldl (\<lambda>(txt, changed) e. (drop_entry e txt, changed \<or> list_ex (\<lambda>x. txt_key x = txt_key e) txt))
      (rs_txt_entries svc, False) (txt_entries r) = (ts, ch)" by fastforce
  show ?thesis
  proof (cases ch)
    case False
    with m have "ts = rs_txt_entries svc" using drop_entries_same by simp
    with False m Some assms upd_entry_same [OF mon_wf_distinct [OF assms(1)] Some] show ?thesis
      by (simp add: handle_expired_txt_def)
  qed (use m Some in \<open>simp add: handle_expired_txt_def Let_def\<close>)
qed (use assms in \<open>simp add: handle_expired_txt_def\<close>)

lemma handle_expired_record_sync: "mon_wf s \<Longrightarrow> in_sync s \<Longrightarrow> in_sync (handle_expired_record now rec s)"
  by (cases rec)
    (simp_all add: handle_expired_srv_sync handle_expired_txt_sync handle_expired_address_def sync_fold change_live_address_sync)

lemma expire_sync:
  assumes "mon_wf s" and "in_sync s"
  shows "in_sync (expire now s)"
proof -
  have k: "syncs (fold (\<lambda>e. handle_expired_record now (ce_record e)) es)" for es :: "cache_entry list"
    using handle_expired_record_sync by (intro syncs_fold handle_expired_record_keeps) (simp add: syncs_def)
  have c: "in_sync (s\<lparr>mon_cache := c\<rparr>)" "mon_wf (s\<lparr>mon_cache := c\<rparr>)" for c using assms by (simp_all add: in_sync_def services_def)
  then have "in_sync (fold (\<lambda>e. handle_expired_record now (ce_record e)) es (s\<lparr>mon_cache := c\<rparr>))" for es :: "cache_entry list" and c
    using k [of es] unfolding syncs_def by blast
  with c show ?thesis by (simp add: expire_def Let_def handle_expired_def split: option.split prod.split)
qed

lemma do_unwatch_sync: "in_sync s \<Longrightarrow> in_sync (do_unwatch svc_type now s)"
  by (simp add: do_unwatch_cases Let_def)

lemma only_sends_sync: "only_sends s s' \<Longrightarrow> in_sync s' = in_sync s"
  using tracking_sels [of s' s] by (auto simp: only_sends_def in_sync_def services_def)

section \<open>What packets and expiry leave alone\<close>

definition mon_config :: "monitor \<Rightarrow> monitor" where
  "mon_config s = s\<lparr>mon_cache := new_cache default_cache_options, mon_instance_type := [], mon_partial := [], mon_live := [], mon_refresh := [],
     mon_hosts := {}, mon_goodbye := {}, mon_snapshot := None, mon_jitter := (\<lambda>_. 0), mon_hint := (\<lambda>_. 0), mon_out := mon_dones s\<rparr>"

lemma config_update [simp]:
  "mon_config (s\<lparr>mon_cache := a\<rparr>) = mon_config s" "mon_config (s\<lparr>mon_instance_type := b\<rparr>) = mon_config s" "mon_config (s\<lparr>mon_partial := c\<rparr>) = mon_config s"
  "mon_config (s\<lparr>mon_live := d\<rparr>) = mon_config s" "mon_config (s\<lparr>mon_refresh := e\<rparr>) = mon_config s" "mon_config (s\<lparr>mon_hosts := f\<rparr>) = mon_config s"
  "mon_config (s\<lparr>mon_goodbye := g\<rparr>) = mon_config s" "mon_config (s\<lparr>mon_snapshot := h\<rparr>) = mon_config s" "mon_config (s\<lparr>mon_jitter := i\<rparr>) = mon_config s"
  "mon_config (s\<lparr>mon_hint := j\<rparr>) = mon_config s"
  by (simp_all add: mon_config_def mon_dones_def)

lemma config_parts [simp]:
  "mon_config (update_snapshot now s) = mon_config s" "e \<noteq> M_done \<Longrightarrow> mon_config (mon_emit e s) = mon_config s" "mon_config (mon_updated svc ev t s) = mon_config s"
  "mon_config (rebuild_refresh_schedule key ttl now s) = mon_config s"
  by (simp_all add: update_snapshot_def mon_emit_def mon_updated_def rebuild_refresh_schedule_def mon_config_def mon_dones_def)

lemma config_fold: "(\<And>x s. mon_config (f x s) = mon_config s) \<Longrightarrow> mon_config (fold f xs s) = mon_config s"
  by (induction xs arbitrary: s) simp_all

lemma config_process_record [simp]: "mon_config (process_record rec now s) = mon_config s"
proof -
  have c: "mon_config (check_resolved now n s) = mon_config s" for n s by (simp add: check_resolved_def Let_def split: option.split)
  have a: "mon_config (add_live_address get upd owner addr t now n s) = mon_config s" for get upd owner addr t n s
    by (simp add: add_live_address_def Let_def split: option.split)
  have p: "mon_config (process_address_record get upd owner addr t now s) = mon_config s" for get upd owner addr t
    by (simp add: process_address_cases Let_def extend_partials_def config_fold [OF c] config_fold [OF a])
  show ?thesis
    by (cases rec) (simp_all add: process_ptr_def process_srv_def process_a_def process_aaaa_def process_txt_def c p Let_def
        split: option.split prod.split)
qed

lemma config_cache_record [simp]: "mon_config (cache_record rec sender now s) = mon_config s"
  by (simp add: cache_record_def Let_def split: prod.split option.split)

lemma config_handle_records: "mon_config (fst (fold (handle_record sender now) recs (s, b))) = mon_config s"
proof (induction recs arbitrary: s b)
  case (Cons rec recs)
  have "handle_record sender now rec (s, b)
      = (if is_relevant rec s then (process_record rec now (cache_record rec sender now s), True) else (s, b))"
    by (simp add: handle_record_def)
  then show ?case by (simp add: Cons.IH)
qed simp

lemma config_expire [simp]: "mon_config (expire now s) = mon_config s"
proof -
  have a: "mon_config (drop_live_address get upd owner addr t now n s) = mon_config s" for get upd owner addr t n s
    by (simp add: drop_live_address_def Let_def split: option.split)
  have "mon_config (handle_expired_record now rec s) = mon_config s" for rec s
    by (cases rec) (simp_all add: handle_expired_srv_def handle_expired_txt_def handle_expired_address_def Let_def config_fold [OF a]
        split: option.split prod.split)
  then show ?thesis
    by (simp add: expire_def handle_expired_def Let_def config_fold split: prod.split option.split)
qed

lemma config_sels:
  assumes "mon_config s' = mon_config s"
  shows "mon_opts s' = mon_opts s" "mon_mdns_opts s' = mon_mdns_opts s" "mon_loop s' = mon_loop s" "mon_on_done s' = mon_on_done s"
    "mon_posted s' = mon_posted s" "mon_stopped s' = mon_stopped s" "mon_alive s' = mon_alive s" "mon_watches s' = mon_watches s"
    "mon_scheduler s' = mon_scheduler s" "mon_tc_timer s' = mon_tc_timer s" "mon_inet_pton6 s' = mon_inet_pton6 s"
    "mon_multicast_ep s' = mon_multicast_ep s" "mon_dones s' = mon_dones s"
  using arg_cong [OF assms, of mon_out] arg_cong [OF assms, of mon_opts] arg_cong [OF assms, of mon_mdns_opts]
    arg_cong [OF assms, of mon_loop] arg_cong [OF assms, of mon_on_done] arg_cong [OF assms, of mon_posted]
    arg_cong [OF assms, of mon_stopped] arg_cong [OF assms, of mon_alive] arg_cong [OF assms, of mon_watches]
    arg_cong [OF assms, of mon_scheduler] arg_cong [OF assms, of mon_tc_timer] arg_cong [OF assms, of mon_inet_pton6]
    arg_cong [OF assms, of mon_multicast_ep]
  by (simp_all add: mon_config_def)

section \<open>No undefined behaviour\<close>

definition sane_intervals :: "mdns_options \<Rightarrow> bool" where
  "sane_intervals opts \<longleftrightarrow> 0 \<le> backoff_multiplier opts \<and> backoff_multiplier opts \<le> 1024 \<and>
     0 \<le> initial_interval opts \<and> initial_interval opts \<le> 2 ^ 50 \<and> 0 \<le> max_interval opts \<and> max_interval opts \<le> 2 ^ 50 \<and>
     0 \<le> ka_suppression_fraction opts \<and> ka_suppression_fraction opts \<le> 1"

definition sendable_name :: "string \<Rightarrow> bool" where
  "sendable_name svc \<longleftrightarrow> encode_dns_name svc \<noteq> []"

definition watch_ok :: "dns_name \<times> query_backoff_state \<Rightarrow> bool" where
  "watch_ok w \<longleftrightarrow> sendable_name (str (fst w)) \<and> 0 \<le> current_interval (snd w) \<and> current_interval (snd w) \<le> 2 ^ 50"

definition watches_ok :: "monitor \<Rightarrow> bool" where
  "watches_ok s \<longleftrightarrow> sane_intervals (mon_mdns_opts s) \<and> list_all watch_ok (mon_watches s)"

lemma threshold_range:
  fixes ttl :: u32
  assumes "0 \<le> f" and "f \<le> 1"
  shows "0 \<le> known_answer_threshold f ttl" and "known_answer_threshold f ttl < 2 ^ 63"
proof -
  let ?t = "of_int (uint ttl) :: rat"
  have u: "uint ttl < 2 ^ 32" "0 \<le> uint ttl" using uint_lt2p [of ttl] uint_ge_0 [of ttl] by simp_all
  then have d: "double_of_int (uint ttl) = ?t" by (intro double_of_int_exact) simp
  have t: "0 \<le> ?t" "?t \<le> 2 ^ 32"
    using u of_int_le_iff [of "uint ttl" "2 ^ 32", where ?'a = rat] of_int_0_le_iff [of "uint ttl", where ?'a = rat]
    by (simp_all del: of_int_uint)
  have p: "0 \<le> ?t * f" "?t * f \<le> 2 ^ 32 * 1" using assms t by (simp, intro mult_mono) simp_all
  let ?a = "round_double (?t * f)"
  have a: "0 \<le> ?a" "?a \<le> 2 ^ 32 * (1 + 1 / 2 ^ 53)"
    using round_double_bounds [OF p(1)] order_trans [OF _ mult_right_mono [OF p(2), of "1 + 1 / 2 ^ 53"]] by auto
  then have q: "0 \<le> ?a * 1000000000" "?a * 1000000000 * (1 + 1 / 2 ^ 53) < 2 ^ 63" by simp_all
  note b = round_double_bounds [OF q(1)]
  note c = trunc_bounds [OF b(1)]
  have k: "known_answer_threshold f ttl = trunc (round_double (?a * 1000000000))"
    by (simp add: known_answer_threshold_def d double_mul_def)
  show "0 \<le> known_answer_threshold f ttl" using c by (simp add: k)
  have "of_int (known_answer_threshold f ttl) < (2 :: rat) ^ 63" using c b(2) q(2) unfolding k by linarith
  then show "known_answer_threshold f ttl < 2 ^ 63"
    using of_int_less_iff [of "known_answer_threshold f ttl" "2 ^ 63", where ?'a = rat] by simp
qed

lemma send_ptr_query_defined:
  assumes "sane_intervals (mon_mdns_opts s)" and "sendable_name ty"
  shows "\<exists>s'. send_ptr_query ty now s = Some s'"
proof -
  have f: "0 \<le> ka_suppression_fraction (mon_mdns_opts s)" "ka_suppression_fraction (mon_mdns_opts s) \<le> 1"
    using assms(1) by (simp_all add: sane_intervals_def)
  have r: "\<not> (known_answer_threshold (ka_suppression_fraction (mon_mdns_opts s)) t < - (2 ^ 63)
      \<or> 2 ^ 63 \<le> known_answer_threshold (ka_suppression_fraction (mon_mdns_opts s)) t)" for t
    using threshold_range [OF f, of t] by linarith
  then have n: "\<not> list_ex (\<lambda>e. known_answer_threshold (ka_suppression_fraction (mon_mdns_opts s)) (ce_wire_ttl e) < - (2 ^ 63)
      \<or> 2 ^ 63 \<le> known_answer_threshold (ka_suppression_fraction (mon_mdns_opts s)) (ce_wire_ttl e)) es" for es
    by (simp only: list_ex_iff) blast
  have "\<exists>ps. build_dns_query_tc (mon_inet_pton6 s) ty Type_ptr kas (max_query_payload (mon_mdns_opts s)) Multicast = Some ps" for kas
    using assms(2) build_dns_query_tc_defined unfolding sendable_name_def by blast
  from this [of "map ce_record (filter (\<lambda>e. known_answer_threshold (ka_suppression_fraction (mon_mdns_opts s)) (ce_wire_ttl e)
      < ttl_remaining e) (find_entries (dns_name ty) Type_ptr now (mon_cache s)))"]
  show ?thesis unfolding send_ptr_query_def Let_def by (elim exE) (simp only: n if_False, simp)
qed

end
