(* ===== verification/Monitor_Events.thy ===== *)
theory Monitor_Events
  imports Monitor_Safety
begin

text \<open>
  The events of the service monitor and the states they reach: each event is defined, keeps the
  invariant and reports what it does to the set of live services.
\<close>

section \<open>The scheduler is defined\<close>

lemma next_interval_defined:
  assumes "sane_intervals opts" and "watch_ok w"
  shows "\<exists>i. next_interval opts (snd w) = Some i"
proof -
  have "0 \<le> current_interval (snd w)" "current_interval (snd w) \<le> 2 ^ 50" "0 \<le> backoff_multiplier opts" "backoff_multiplier opts \<le> 1024"
    using assms by (simp_all add: sane_intervals_def watch_ok_def)
  from scaled_range [OF this] show ?thesis by (auto simp: next_interval_def Let_def)
qed

lemma next_backoff_defined:
  "sane_intervals opts \<Longrightarrow> list_all watch_ok ws \<Longrightarrow> \<exists>e. next_backoff opts now ws ev = Some e"
proof (induction ws arbitrary: ev)
  case (Cons w ws)
  then obtain i where "next_interval opts (snd w) = Some i" using next_interval_defined by fastforce
  with Cons show ?case by (cases w) simp
qed simp

lemma arm_scheduler_defined: "watches_ok s \<Longrightarrow> \<exists>s'. arm_scheduler now s = Some s'"
  using next_backoff_defined [of "mon_mdns_opts s" "mon_watches s" now None]
  by (auto simp: arm_scheduler_def scheduler_delay_def watches_ok_def Let_def)

lemma send_tc_packets_watches [simp]: "mon_watches (send_tc_packets packets idx now s) = mon_watches s"
proof (induction packets idx now s rule: send_tc_packets.induct)
  case (1 packets idx now s)
  show ?case
    using 1 by (subst send_tc_packets.simps) (auto simp: Let_def mon_emit_def)
qed

lemma sends_watches:
  "send_ptr_query ty now s = Some s' \<Longrightarrow> mon_watches s' = mon_watches s"
  "arm_scheduler now s = Some s' \<Longrightarrow> mon_watches s' = mon_watches s"
  "mon_watches (send_instance_queries inst s) = mon_watches s"
  "mon_watches (fold (refresh_one now) rs s) = mon_watches s"
proof -
  show "mon_watches s' = mon_watches s" if "send_ptr_query ty now s = Some s'"
    using that by (auto simp: send_ptr_query_def Let_def bind_eq_Some_conv split: if_splits)
  show "mon_watches s' = mon_watches s" if "arm_scheduler now s = Some s'"
    using that by (auto simp: arm_scheduler_def bind_eq_Some_conv)
  show i: "mon_watches (send_instance_queries inst s) = mon_watches s" for inst s
    by (simp add: send_instance_queries_def Let_def mon_emit_def)
  have p: "mon_watches ((send_instance_queries inst ^^ n) s) = mon_watches s" for inst n s
    by (induction n) (simp_all add: i)
  have "mon_watches (refresh_one now ks s) = mon_watches s" for ks s
    by (simp add: refresh_one_def Let_def p split: prod.split option.split)
  then show "mon_watches (fold (refresh_one now) rs s) = mon_watches s" by (induction rs arbitrary: s) simp_all
qed

lemma watches_ok_cong: "watches_ok s \<Longrightarrow> mon_mdns_opts s' = mon_mdns_opts s \<Longrightarrow> mon_watches s' = mon_watches s \<Longrightarrow> watches_ok s'"
  by (simp add: watches_ok_def)

lemma only_sends_opts: "only_sends s s' \<Longrightarrow> mon_mdns_opts s' = mon_mdns_opts s"
  using tracking_sels [of s' s] by (simp add: only_sends_def)

lemma upd_entry_all: "list_all P m \<Longrightarrow> (\<And>k v. (k, v) \<in> set m \<Longrightarrow> k = n \<Longrightarrow> P (k, v')) \<Longrightarrow> list_all P (upd_entry n (\<lambda>_. v') m)"
  by (auto simp: list_all_iff upd_entry_def)

lemma query_watches_defined:
  "watches_ok s \<Longrightarrow> \<exists>s'. query_watches ts now s = Some s' \<and> watches_ok s'"
proof (induction ts arbitrary: s)
  case (Cons t ts)
  show ?case
  proof (cases "map_of (mon_watches s) t")
    case (Some b)
    have ok: "watch_ok (t, b)" "sane_intervals (mon_mdns_opts s)" "list_all watch_ok (mon_watches s)"
      using Cons.prems map_of_SomeD [OF Some] by (auto simp: watches_ok_def list_all_iff)
    obtain i b' where b: "advance_backoff (mon_mdns_opts s) b = Some (i, b')" "0 \<le> current_interval b'" "current_interval b' \<le> 2 ^ 50"
      using advance_backoff_defined [of b "mon_mdns_opts s"] ok by (auto simp: watch_ok_def sane_intervals_def)
    let ?u = "s\<lparr>mon_watches := upd_entry t (\<lambda>_. b') (mon_watches s)\<rparr>"
    have "watch_ok (t, b')" using ok(1) b by (simp add: watch_ok_def)
    then have u: "watches_ok ?u" using ok upd_entry_all [OF ok(3), of t b'] by (auto simp: watches_ok_def)
    obtain v where v: "send_ptr_query (str t) now ?u = Some v"
      using send_ptr_query_defined [of ?u "str t" now] ok by (auto simp: watch_ok_def)
    have "watches_ok v"
      by (rule watches_ok_cong [OF u]) (simp_all add: sends_watches(1) [OF v] only_sends_opts [OF send_ptr_query_sends [OF v]])
    from Cons.IH [OF this] show ?thesis using Some b(1) v by simp
  qed (use Cons in simp)
qed simp

lemma on_scheduler_tick_defined:
  assumes "watches_ok s"
  shows "\<exists>s'. on_scheduler_tick now s = Some s' \<and> watches_ok s'"
proof (cases "mon_stopped s")
  case False
  let ?e = "expire now s"
  note c = config_sels [OF config_expire [of now s]]
  have e: "watches_ok ?e" by (rule watches_ok_cong [OF assms]) (simp_all add: c)
  obtain u where u: "(if mo_mode (mon_opts ?e) = Mode_discover then query_watches (map fst (mon_watches ?e)) now ?e else Some ?e) = Some u"
    "watches_ok u"
    using query_watches_defined [OF e] e by (cases "mo_mode (mon_opts ?e) = Mode_discover") auto
  define v where "v = (if mo_mode (mon_opts u) = Mode_discover \<or> mo_mode (mon_opts u) = Mode_ttl_refresh
    then fold (refresh_one now) (mon_refresh u) u else u)"
  have v: "watches_ok v"
    unfolding v_def using u(2) by (auto intro: watches_ok_cong simp: sends_watches(4) only_sends_opts [OF refresh_all_sends])
  then obtain w where w: "arm_scheduler now v = Some w" using arm_scheduler_defined by blast
  have "watches_ok w"
    by (rule watches_ok_cong [OF v]) (simp_all add: sends_watches(2) [OF w] only_sends_opts [OF arm_scheduler_sends [OF w]])
  moreover have "on_scheduler_tick now s = Some w"
    unfolding on_scheduler_tick_def Let_def using False u(1) w v_def by (simp only: if_False bind.simps(2))
  ultimately show ?thesis by blast
qed (use assms in \<open>simp add: on_scheduler_tick_def\<close>)

section \<open>The invariant\<close>

fun mon_task_ok :: "monitor_task \<Rightarrow> bool" where
  "mon_task_ok (Task_watch svc) \<longleftrightarrow> sendable_name (str (dns_name svc))"
| "mon_task_ok (Task_query_type svc) \<longleftrightarrow> sendable_name svc"
| "mon_task_ok _ \<longleftrightarrow> True"

definition mon_ok :: "monitor \<Rightarrow> bool" where
  "mon_ok s \<longleftrightarrow> mon_wf s \<and> in_sync s \<and> watches_ok s \<and> list_all mon_task_ok (mon_posted s) \<and>
     (mon_dones s = [] \<or> mon_dones s = [M_done] \<and> \<not> mon_on_done s \<and> mon_loop s \<noteq> None) \<and>
     (mon_on_done s \<longrightarrow> mon_loop s \<noteq> None)"

text \<open>A step of the monitor: the invariant stays, and the reports tell the change.\<close>

definition mon_evolves :: "monitor \<Rightarrow> monitor \<Rightarrow> bool" where
  "mon_evolves s s' \<longleftrightarrow> (mon_ok s \<longrightarrow> mon_ok s' \<and> tracks s s')"

lemma mon_evolvesI: "(mon_ok s \<Longrightarrow> mon_ok s') \<Longrightarrow> (mon_ok s \<Longrightarrow> tracks s s') \<Longrightarrow> mon_evolves s s'"
  by (simp add: mon_evolves_def)

lemma only_sends_evolves:
  assumes "only_sends s s'" and "watches_ok s \<Longrightarrow> watches_ok s'"
  shows "mon_evolves s s'"
proof (rule mon_evolvesI)
  have t: "tracking s' = tracking s" using assms(1) by (simp add: only_sends_def)
  show "mon_ok s'" if "mon_ok s"
    using that assms(2) only_sends_keeps [OF assms(1)] only_sends_sync [OF assms(1)] tracking_sels [OF t] by (simp add: mon_ok_def)
  show "tracks s s'" if "mon_ok s" using that only_sends_keeps [OF assms(1)] by (simp add: mon_ok_def)
qed

lemma config_evolves:
  assumes "mon_config s' = mon_config s" and "mon_wf s \<Longrightarrow> mon_wf s' \<and> tracks s s'" and "mon_wf s \<Longrightarrow> in_sync s \<Longrightarrow> in_sync s'"
  shows "mon_evolves s s'"
  using assms config_sels [OF assms(1)] by (simp add: mon_evolves_def mon_ok_def watches_ok_def)

lemma mon_evolves_refl [simp, intro]: "mon_evolves s s"
  by (simp add: mon_evolves_def)

lemma mon_evolves_trans: "mon_evolves s t \<Longrightarrow> mon_evolves t u \<Longrightarrow> mon_evolves s u"
  by (auto simp: mon_evolves_def intro: tracks_trans)

lemma expire_evolves: "mon_evolves s (expire now s)"
  using mon_keepsD [OF expire_keeps] expire_sync by (intro config_evolves) simp_all

lemma handle_packet_evolves:
  assumes "handle_packet meta data now s = Some (s', relevant)"
  shows "mon_evolves s s'"
proof -
  obtain recs where "fold (handle_record (rm_sender meta) now) recs (s, False) = (s', relevant)"
    using assms unfolding handle_packet_def bind_eq_Some_conv by blast
  then have s': "s' = fst (fold (handle_record (rm_sender meta) now) recs (s, False))" by simp
  show ?thesis
    unfolding s' by (rule config_evolves [OF config_handle_records]) (use handle_records_keeps handle_records_sync in blast)+
qed

lemma handle_packet_defined: "handle_packet meta data now s \<noteq> None"
  using walk_dns_frame_range [of data "rm_sender meta"] by (auto simp: handle_packet_def)

lemma mon_ok_plain [simp]:
  "mon_ok (s\<lparr>mon_scheduler := a\<rparr>) = mon_ok s" "mon_ok (s\<lparr>mon_tc_timer := b\<rparr>) = mon_ok s" "mon_ok (s\<lparr>mon_stopped := c\<rparr>) = mon_ok s"
  "mon_ok (s\<lparr>mon_alive := d\<rparr>) = mon_ok s"
  by (simp_all add: mon_ok_def in_sync_def services_def watches_ok_def mon_dones_def)

lemma mon_ok_loop: "mon_ok s \<Longrightarrow> mon_ok (s\<lparr>mon_loop := Some l\<rparr>)"
  by (auto simp: mon_ok_def in_sync_def services_def watches_ok_def mon_dones_def)

lemma mon_ok_posted: "mon_ok s \<Longrightarrow> list_all mon_task_ok ts \<Longrightarrow> mon_ok (s\<lparr>mon_posted := ts\<rparr>)"
  by (auto simp: mon_ok_def in_sync_def services_def watches_ok_def mon_dones_def)

lemma put_evolves: "mon_evolves s (mon_put_loop l s)"
  by (auto simp: mon_put_loop_def mon_evolves_def mon_ok_loop intro: tracks_same)

interpretation monitor_loop: loop_client mon_get_loop mon_put_loop handle_packet mon_ok
proof
  show "mon_get_loop (mon_put_loop l s) = l" for l s by (simp add: mon_get_loop_def mon_put_loop_def)
  show "mon_ok (mon_put_loop l s)" if "mon_ok s" for s l using that put_evolves by (simp add: mon_evolves_def)
  show "mon_ok s'" if "mon_ok s" "handle_packet meta data now s = Some (s', rel)" for s s' meta data now rel
    using that handle_packet_evolves by (auto simp: mon_evolves_def)
qed (rule handle_packet_defined)

interpretation monitor_evolution: loop_evolution mon_get_loop mon_put_loop handle_packet mon_evolves
  by unfold_locales (auto intro: mon_evolves_trans put_evolves handle_packet_evolves)

section \<open>Steps\<close>

fun mon_event_ok :: "monitor_event \<Rightarrow> monitor \<Rightarrow> bool" where
  "mon_event_ok (Mev_start _) s \<longleftrightarrow> mon_loop s = None"
| "mon_event_ok (Mev_watch svc) s \<longleftrightarrow> sendable_name (str (dns_name svc))"
| "mon_event_ok (Mev_query_type svc) s \<longleftrightarrow> sendable_name svc"
| "mon_event_ok _ s \<longleftrightarrow> True"

definition steps :: "monitor option \<Rightarrow> monitor \<Rightarrow> bool" where
  "steps r s \<longleftrightarrow> (\<exists>s'. r = Some s' \<and> mon_ok s' \<and> tracks s s')"

lemma steps_evolves: "mon_ok s \<Longrightarrow> mon_evolves s s' \<Longrightarrow> steps (Some s') s"
  by (simp add: steps_def mon_evolves_def)

lemma steps_after: "steps r t \<Longrightarrow> tracks s t \<Longrightarrow> steps r s"
  by (auto simp: steps_def intro: tracks_trans)

lemma arm_scheduler_steps:
  assumes "mon_ok s"
  shows "steps (arm_scheduler now s) s"
proof -
  obtain s' where a: "arm_scheduler now s = Some s'" using assms arm_scheduler_defined by (auto simp: mon_ok_def)
  have "mon_evolves s s'"
    using arm_scheduler_sends [OF a] sends_watches(2) [OF a] only_sends_opts by (intro only_sends_evolves) (auto simp: watches_ok_def)
  with a assms show ?thesis by (simp add: steps_evolves)
qed

lemma send_ptr_query_steps:
  assumes "mon_ok s" and "sendable_name ty"
  shows "steps (send_ptr_query ty now s) s"
proof -
  obtain s' where a: "send_ptr_query ty now s = Some s'"
    using assms send_ptr_query_defined by (fastforce simp: mon_ok_def watches_ok_def)
  have "mon_evolves s s'"
    using send_ptr_query_sends [OF a] sends_watches(1) [OF a] only_sends_opts by (intro only_sends_evolves) (auto simp: watches_ok_def)
  with a assms show ?thesis by (simp add: steps_evolves)
qed

lemma on_scheduler_tick_steps:
  assumes "mon_ok s"
  shows "steps (on_scheduler_tick now s) s"
proof -
  obtain s' where t: "on_scheduler_tick now s = Some s'" "watches_ok s'"
    using assms on_scheduler_tick_defined [of s now] by (auto simp: mon_ok_def)
  have "mon_evolves s s'"
    using on_scheduler_tick_sends [OF t(1)] mon_evolves_trans [OF expire_evolves only_sends_evolves, of now s s'] t(2) by auto
  with t(1) assms show ?thesis by (simp add: steps_evolves)
qed

lemma do_watch_steps:
  assumes "mon_ok s" and "sendable_name (str (dns_name svc))"
  shows "steps (do_watch svc now s) s"
proof -
  let ?u = "s\<lparr>mon_watches := emplace (dns_name svc) new_backoff (mon_watches s)\<rparr>"
  have u: "mon_ok ?u"
    using assms by (auto simp: mon_ok_def in_sync_def services_def mon_dones_def watches_ok_def emplace_def watch_ok_def new_backoff_def)
  have t: "tracks s ?u" by (rule tracks_same) simp_all
  show ?thesis
    using steps_after [OF arm_scheduler_steps [OF u] t] u t by (simp add: do_watch_def Let_def steps_def)
qed

lemma do_unwatch_evolves: "mon_evolves s (do_unwatch svc now s)"
proof (rule mon_evolvesI)
  note k = mon_keepsD [OF do_unwatch_keeps [of svc now]]
  show "tracks s (do_unwatch svc now s)" if "mon_ok s" using that k by (simp add: mon_ok_def)
  have d: "mon_dones (fold lose_unwatched ns u) = mon_dones u \<and> mon_posted (fold lose_unwatched ns u) = mon_posted u
      \<and> mon_mdns_opts (fold lose_unwatched ns u) = mon_mdns_opts u" for ns u
    by (induction ns arbitrary: u) (simp_all add: lose_unwatched_def Let_def mon_emit_def mon_dones_def split: option.split)
  have "mon_dones (do_unwatch svc now s) = mon_dones s" "mon_posted (do_unwatch svc now s) = mon_posted s"
    "mon_loop (do_unwatch svc now s) = mon_loop s" "mon_on_done (do_unwatch svc now s) = mon_on_done s"
    using d by (simp_all add: do_unwatch_cases Let_def update_snapshot_def mon_dones_def)
  moreover have "watches_ok (do_unwatch svc now s)" if "watches_ok s"
    using that d by (auto simp: do_unwatch_cases Let_def update_snapshot_def watches_ok_def drop_key_def list_all_iff)
  ultimately show "mon_ok (do_unwatch svc now s)" if "mon_ok s" using that k do_unwatch_sync by (auto simp: mon_ok_def)
qed

lemma send_instance_queries_evolves: "mon_evolves s (send_instance_queries inst s)"
  using send_instance_queries_sends sends_watches(3) only_sends_opts [OF send_instance_queries_sends]
  by (intro only_sends_evolves) (simp_all add: watches_ok_def)

lemma send_tc_packets_evolves: "mon_evolves s (send_tc_packets packets idx now s)"
  using send_tc_packets_sends only_sends_opts [OF send_tc_packets_sends] by (intro only_sends_evolves) (simp_all add: watches_ok_def)

lemma mon_teardown_evolves: "mon_evolves s (mon_teardown s)"
proof (rule mon_evolvesI)
  show "mon_ok (mon_teardown s)" if "mon_ok s"
    using that by (auto simp: mon_ok_def mon_teardown_def Let_def mon_emit_def in_sync_def services_def mon_dones_def watches_ok_def)
  show "tracks s (mon_teardown s)"
    by (rule tracks_silent [of _ _ "if mon_on_done s then [M_done] else []"])
      (auto simp: mon_teardown_def Let_def mon_emit_def silent_def)
qed

lemma run_task_steps: "mon_ok s \<Longrightarrow> mon_task_ok task \<Longrightarrow> steps (run_task task now s) s"
  by (cases task)
    (simp_all add: do_watch_steps send_ptr_query_steps steps_evolves mon_teardown_evolves do_unwatch_evolves send_instance_queries_evolves)

lemma mon_start_steps:
  assumes "mon_ok s" and "mon_loop s = None"
  shows "steps (mon_start on_done now s) s"
proof -
  let ?u = "s\<lparr>mon_on_done := on_done, mon_loop := Some (start_loop now (new_loop (24 * 365 * 3600 * 1000) (receive_ttl_minimum (mon_mdns_opts s))
    (unknown_ttl_policy (mon_mdns_opts s))))\<rparr>"
  have "mon_ok ?u" using assms by (auto simp: mon_ok_def in_sync_def services_def mon_dones_def watches_ok_def)
  moreover have "tracks s ?u" by (rule tracks_same) simp_all
  ultimately show ?thesis using steps_after [OF arm_scheduler_steps] by (simp add: mon_start_def)
qed

lemma mon_stop_evolves: "mon_evolves s (mon_stop s)"
  by (rule mon_evolvesI)
    (auto simp: mon_stop_def mon_ok_def in_sync_def services_def mon_dones_def watches_ok_def intro: tracks_same)

lemma mon_post_steps: "mon_ok s \<Longrightarrow> mon_task_ok task \<Longrightarrow> steps (Some (mon_post task s)) s"
  using mon_ok_posted [of s "mon_posted s @ [task]"] by (simp add: steps_def mon_post_def tracks_same mon_ok_def)

lemma monitor_step_ok:
  assumes ok: "mon_ok s" and "mon_event_ok ev s"
  shows "steps (monitor_step ev now s) s"
proof (cases ev)
  case (Mev_start on_done)
  with assms show ?thesis by (simp add: mon_start_steps)
next
  case Mev_posted
  show ?thesis
  proof (cases "mon_posted s")
    case (Cons task tasks)
    let ?u = "s\<lparr>mon_posted := tasks\<rparr>"
    have "list_all mon_task_ok (task # tasks)" using ok Cons by (simp add: mon_ok_def)
    then have u: "mon_ok ?u" "mon_task_ok task" using mon_ok_posted [OF ok, of tasks] by simp_all
    have t: "tracks s ?u" by (rule tracks_same) simp_all
    show ?thesis
      using Mev_posted Cons u t steps_after [OF run_task_steps [OF u] t]
      by (simp add: run_posted_monitor_def Let_def steps_def)
  qed (use ok Mev_posted in \<open>simp add: run_posted_monitor_def steps_def\<close>)
next
  case Mev_scheduler
  obtain t f where f: "try_fire now (mon_scheduler s) = (t, f)" by fastforce
  have t: "mon_ok (s\<lparr>mon_scheduler := t\<rparr>)" "tracks s (s\<lparr>mon_scheduler := t\<rparr>)" using ok by (simp_all add: tracks_same)
  with f show ?thesis
    using Mev_scheduler steps_after [OF on_scheduler_tick_steps [OF t(1)] t(2)] by (simp add: fire_scheduler_def Let_def steps_def)
next
  case Mev_tc_timer
  obtain t f where f: "try_fire now (mon_tc_timer s) = (t, f)" by fastforce
  have t: "mon_evolves s (s\<lparr>mon_tc_timer := t\<rparr>)" by (simp add: mon_evolves_def tracks_same)
  with f show ?thesis
    using Mev_tc_timer ok mon_evolves_trans [OF t send_tc_packets_evolves]
    by (auto simp: fire_tc_send_timer_def Let_def intro!: steps_evolves split: option.split)
next
  case Mev_silence
  have "mon_evolves s (silence mon_get_loop mon_put_loop (\<lambda>s. s) now s)"
    by (rule monitor_evolution.silence_evolves) simp
  with Mev_silence ok show ?thesis by (simp add: steps_evolves)
next
  case (Mev_packet meta data)
  obtain s' where "receive mon_get_loop mon_put_loop handle_packet meta data now s = Some s'"
    using monitor_loop.receive_safe [OF ok] by blast
  with monitor_evolution.receive_evolves [OF this] Mev_packet ok show ?thesis by (simp add: steps_evolves)
next
  case Mev_destroy
  have "mon_evolves (mon_stop s) (destroy_monitor s)"
    by (rule mon_evolvesI) (auto simp: destroy_monitor_def Let_def mon_ok_def in_sync_def services_def mon_dones_def watches_ok_def
        intro: tracks_same)
  with mon_evolves_trans [OF mon_stop_evolves] Mev_destroy ok show ?thesis by (simp add: steps_evolves)
qed (use assms in \<open>simp_all add: steps_evolves mon_stop_evolves expire_evolves mon_post_steps\<close>)

section \<open>Reachable states\<close>

inductive monitor_reachable :: "monitor \<Rightarrow> monitor \<Rightarrow> bool" for s0 where
  monitor_init: "monitor_reachable s0 s0"
| monitor_next: "monitor_reachable s0 s \<Longrightarrow> mon_event_ok ev s \<Longrightarrow> monitor_step ev now s = Some s' \<Longrightarrow> monitor_reachable s0 s'"

lemma new_monitor_ok: "sane_intervals mopts \<Longrightarrow> mon_ok (new_monitor p6 mcast opts mopts copts jitter hint)"
  by (simp add: new_monitor_def mon_ok_def mon_wf_def in_sync_def services_def watches_ok_def mon_dones_def)

lemma monitor_reachable_steps: "monitor_reachable s0 s \<Longrightarrow> mon_ok s0 \<Longrightarrow> mon_ok s \<and> tracks s0 s"
proof (induction rule: monitor_reachable.induct)
  case (monitor_next s ev now s')
  then show ?case using monitor_step_ok [of s ev now] by (auto simp: steps_def intro: tracks_trans)
qed simp

lemma services_names:
  assumes "mon_wf s" and "in_sync s"
  shows "map rs_instance_name (services s) = map fst (mon_live s)"
proof -
  have "map rs_instance_name (services s) = map rs_instance_name (map strip_ttl (services s))" by (simp add: strip_ttl_def)
  also have "\<dots> = map (\<lambda>x. rs_instance_name (snd x)) (mon_live s)"
    using assms(2) by (simp only: in_sync_def map_map) (simp add: strip_ttl_def comp_def)
  also have "\<dots> = map fst (mon_live s)" using assms(1) by (auto simp: mon_wf_def map_of_eq_Some_iff)
  finally show ?thesis .
qed

section \<open>Properties\<close>

text \<open>
  C6: The service monitor reports the truth. In every state that a new monitor can reach by calls, tasks,
  timers and packets, with sane options and names that can be encoded: every permitted event is
  defined; when \<open>on_found\<close> and \<open>on_lost\<close> are installed, the reports about an instance alternate between
  found and lost, updates only occur in between, and they end with the instance found exactly when
  \<open>services()\<close> lists it; \<open>services()\<close> lists each instance once; the completion handler has been called at
  most once.
\<close>

theorem monitor_reports_truth:
  assumes "sane_intervals mopts" and "monitor_reachable (new_monitor p6 mcast opts mopts copts jitter hint) s"
  shows "(mon_event_ok ev s \<longrightarrow> monitor_step ev now s \<noteq> None) \<and>
    (mo_on_found opts \<and> mo_on_lost opts \<longrightarrow> track n False (mon_out s) = Some (n \<in> rs_instance_name ` set (services s))) \<and>
    distinct (map rs_instance_name (services s)) \<and> length (mon_dones s) \<le> 1"
proof -
  let ?s0 = "new_monitor p6 mcast opts mopts copts jitter hint"
  have ok: "mon_ok s" "tracks ?s0 s" using monitor_reachable_steps [OF assms(2) new_monitor_ok [OF assms(1)]] by simp_all
  then have wf: "mon_wf s" "in_sync s" by (simp_all add: mon_ok_def)
  have "monitor_step ev now s \<noteq> None" if "mon_event_ok ev s" using monitor_step_ok [OF ok(1) that, of now] by (auto simp: steps_def)
  moreover have names: "map rs_instance_name (services s) = map fst (mon_live s)" by (rule services_names [OF wf])
  moreover have "distinct (map fst (mon_live s))" using wf(1) by (simp add: mon_wf_def)
  moreover have "rs_instance_name ` set (services s) = keys (mon_live s)"
    using arg_cong [OF names, of set] by (simp add: keys_def)
  then have "track n False (mon_out s) = Some (n \<in> rs_instance_name ` set (services s))" if "mo_on_found opts" "mo_on_lost opts"
    using ok(2) that by (auto simp: tracks_def reports_def new_monitor_def)
  moreover have "length (mon_dones s) \<le> 1" using ok(1) by (auto simp: mon_ok_def)
  ultimately show ?thesis by simp
qed

definition all_callbacks :: "monitor_mode \<Rightarrow> monitor_options" where
  "all_callbacks mode = \<lparr>mo_on_found = True, mo_on_updated = True, mo_on_lost = True, mo_mode = mode\<rparr>"

definition example_monitor :: monitor where
  "example_monitor = new_monitor (\<lambda>_. None) no_endpoint (all_callbacks Mode_discover) default_mdns_options default_cache_options (\<lambda>_. 0) (\<lambda>_. 0)"

lemma default_sane: "sane_intervals default_mdns_options"
  by (simp add: sane_intervals_def default_mdns_options_def)

theorem monitor_reports_truth_witness:
  "monitor_step (Mev_start True) 0 example_monitor \<noteq> None \<and>
   track empty_name False (mon_out example_monitor) = Some (empty_name \<in> rs_instance_name ` set (services example_monitor))"
proof -
  have "monitor_reachable example_monitor example_monitor" by (rule monitor_init)
  from monitor_reports_truth [OF default_sane this [unfolded example_monitor_def], of "Mev_start True" 0 empty_name, folded example_monitor_def]
  show ?thesis by (simp add: all_callbacks_def del: monitor_step.simps) (simp add: example_monitor_def new_monitor_def)
qed

end
