(* ===== verification/Monitor_Resolution.thy ===== *)
theory Monitor_Resolution
  imports Monitor_Events
begin

text \<open>
  How the service monitor resolves an instance: the records of an announcement take it from a PTR record
  over the SRV record and the first address to a live service, which later records complete.
\<close>

section \<open>One instance\<close>

definition resolving :: "dns_name \<Rightarrow> resolved_service \<Rightarrow> monitor \<Rightarrow> bool" where
  "resolving n svc s \<longleftrightarrow> map_of (mon_live s) n = None \<and> rs_ipv4_addresses svc = [] \<and> rs_ipv6_addresses svc = [] \<and>
     (\<exists>inc. map_of (mon_partial s) n = Some inc \<and> inc_has_srv inc \<and> \<not> inc_has_address inc \<and> inc_partial inc = svc)"

definition resolved :: "dns_name \<Rightarrow> resolved_service \<Rightarrow> monitor \<Rightarrow> bool" where
  "resolved n svc s \<longleftrightarrow> map_of (mon_live s) n = Some svc \<and> map_of (mon_partial s) n = None"

lemma check_resolved_other:
  "m \<noteq> n \<Longrightarrow> map_of (mon_partial (check_resolved now m s)) n = map_of (mon_partial s) n"
  "m \<noteq> n \<Longrightarrow> map_of (mon_live (check_resolved now m s)) n = map_of (mon_live s) n"
  by (simp_all add: check_resolved_def Let_def mon_emit_def map_of_drop_key map_of_emplace split: option.split)

lemma check_resolved_ready:
  assumes "map_of (mon_partial s) n = Some inc" and "inc_has_srv inc" and "inc_has_address inc" and "map_of (mon_live s) n = None"
  shows "resolved n (inc_partial inc) (check_resolved now n s)"
  using assms by (simp add: resolved_def check_resolved_def Let_def mon_emit_def map_of_drop_key map_of_emplace)

lemma check_resolved_none: "map_of (mon_partial s) n = None \<Longrightarrow> check_resolved now n s = s"
  by (simp add: check_resolved_def)

lemma promote_resolved: "resolved n svc s \<Longrightarrow> resolved n svc (fold (check_resolved now) xs s)"
proof (induction xs arbitrary: s)
  case (Cons x xs)
  then have "resolved n svc (check_resolved now x s)"
    by (cases "x = n") (simp_all add: resolved_def check_resolved_none check_resolved_other)
  with Cons.IH show ?case by simp
qed simp

lemma promote_ready:
  assumes "n \<in> set xs"
    and "map_of (mon_partial s) n = Some inc" and "inc_has_srv inc" and "inc_has_address inc" and "map_of (mon_live s) n = None"
  shows "resolved n (inc_partial inc) (fold (check_resolved now) xs s)"
  using assms
proof (induction xs arbitrary: s)
  case (Cons x xs)
  show ?case
  proof (cases "x = n")
    case True
    with check_resolved_ready [OF Cons.prems(2-5), of now] promote_resolved show ?thesis by simp
  next
    case False
    then have n: "n \<in> set xs" using Cons.prems(1) by simp
    have "map_of (mon_partial (check_resolved now x s)) n = Some inc" "map_of (mon_live (check_resolved now x s)) n = None"
      using Cons.prems False by (simp_all add: check_resolved_other)
    with Cons.IH [OF n _ Cons.prems(3,4)] show ?thesis by simp
  qed
qed simp

lemma address_field_add:
  assumes "address_field get upd"
  shows "addr \<in> set (get svc) \<Longrightarrow> upd (add_address addr) svc = svc"
    and "addr \<notin> set (get svc) \<Longrightarrow> upd (\<lambda>as. as @ [addr]) svc = upd (add_address addr) svc"
    and "addr \<in> set (get (upd (add_address addr) svc))" and "rs_hostname (upd (add_address addr) svc) = rs_hostname svc"
  using assms by (auto simp: address_field_def add_address_def)

lemma add_live_other: "m \<noteq> n \<Longrightarrow> map_of (mon_live (add_live_address get upd owner addr t now m s)) n = map_of (mon_live s) n"
  by (simp add: add_live_address_def Let_def map_of_upd_entry split: option.split)

lemma add_live_self:
  assumes "address_field get upd" and "map_of (mon_live s) n = Some svc"
  shows "map_of (mon_live (add_live_address get upd owner addr t now n s)) n
    = Some (if rs_hostname svc = owner then upd (add_address addr) svc else svc)"
  using assms address_field_add(1,2) [OF assms(1)] by (simp add: add_live_address_def Let_def map_of_upd_entry)

lemma add_live_partial [simp]: "mon_partial (add_live_address get upd owner addr t now m s) = mon_partial s"
  by (simp add: add_live_address_def Let_def split: option.split)

lemma add_live_present:
  assumes "address_field get upd" and "map_of (mon_live s) n = Some svc" and "addr \<in> set (get svc)"
  shows "map_of (mon_live (fold (add_live_address get upd owner addr t now) xs s)) n = Some svc"
  using assms(2)
proof (induction xs arbitrary: s)
  case (Cons x xs)
  have "map_of (mon_live (add_live_address get upd owner addr t now x s)) n = Some svc"
    using Cons.prems add_live_self [OF assms(1) Cons.prems] address_field_add(1) [OF assms(1,3)]
    by (cases "x = n") (simp_all add: add_live_other)
  with Cons.IH show ?case by simp
qed simp

lemma add_live_all:
  assumes "address_field get upd" and "map_of (mon_live s) n = Some svc" and "rs_hostname svc = owner" and "n \<in> set xs"
  shows "map_of (mon_live (fold (add_live_address get upd owner addr t now) xs s)) n = Some (upd (add_address addr) svc)"
  using assms(2,4)
proof (induction xs arbitrary: s)
  case (Cons x xs)
  let ?s = "add_live_address get upd owner addr t now x s"
  show ?case
  proof (cases "x = n")
    case True
    then have "map_of (mon_live ?s) n = Some (upd (add_address addr) svc)"
      using add_live_self [OF assms(1) Cons.prems(1)] assms(3) by simp
    from add_live_present [OF assms(1) this address_field_add(3) [OF assms(1)]] show ?thesis by simp
  qed (use Cons in \<open>simp add: add_live_other\<close>)
qed simp

lemma add_live_all_partial [simp]: "mon_partial (fold (add_live_address get upd owner addr t now) xs s) = mon_partial s"
  by (induction xs arbitrary: s) simp_all

lemma extend_partials_at:
  "map_of (mon_partial (extend_partials get upd owner addr s)) n =
     map_option (\<lambda>inc. case add_partial_address get upd owner addr inc of Some i \<Rightarrow> i | None \<Rightarrow> inc) (map_of (mon_partial s) n)"
  "mon_live (extend_partials get upd owner addr s) = mon_live s"
  by (simp_all add: extend_partials_def map_of_map)

text \<open>The first address resolves the instance, the further ones are added.\<close>

lemma first_address:
  assumes f: "address_field get upd" and "resolving n svc s" and h: "rs_hostname svc = owner"
  shows "resolved n (upd (add_address addr) svc) (process_address_record get upd owner addr t now s)"
proof -
  obtain inc where inc: "map_of (mon_partial s) n = Some inc" "inc_has_srv inc" "inc_partial inc = svc" "map_of (mon_live s) n = None"
    and e: "get svc = []"
    using assms(2) f by (auto simp: resolving_def address_field_def)
  let ?t = "extend_partials get upd owner addr s"
  let ?inc = "inc\<lparr>inc_has_address := True, inc_partial := upd (add_address addr) svc\<rparr>"
  have a: "add_partial_address get upd owner addr inc = Some ?inc"
    using inc h e address_field_add(2) [OF f] by (simp add: add_partial_address_def)
  then have any: "list_ex (\<lambda>(_, i). add_partial_address get upd owner addr i \<noteq> None) (mon_partial s)"
    using map_of_SomeD [OF inc(1)] by (force simp: list_ex_iff)
  have t: "map_of (mon_partial ?t) n = Some ?inc" "map_of (mon_live ?t) n = None" using inc a by (simp_all add: extend_partials_at)
  then have "n \<in> set (promotable owner ?t)"
    using map_of_SomeD [OF t(1)] inc h address_field_add(4) [OF f] by (force simp: promotable_def)
  from promote_ready [OF this t(1), of now] t(2) inc(2)
  have r: "resolved n (upd (add_address addr) svc) (fold (check_resolved now) (promotable owner ?t) ?t)" by simp
  let ?u = "fold (check_resolved now) (promotable owner ?t) ?t"
  have "process_address_record get upd owner addr t now s = fold (add_live_address get upd owner addr t now) (map fst (mon_live ?u)) ?u"
    using any by (simp only: process_address_cases Let_def if_True)
  with add_live_present [OF f _ address_field_add(3) [OF f], of ?u n] r show ?thesis unfolding resolved_def by (simp only: add_live_all_partial)
qed

lemma further_address:
  assumes f: "address_field get upd" and r: "resolved n svc s" and h: "rs_hostname svc = owner"
  shows "resolved n (upd (add_address addr) svc) (process_address_record get upd owner addr t now s)"
proof -
  let ?t = "extend_partials get upd owner addr s"
  let ?u = "if list_ex (\<lambda>(_, inc). add_partial_address get upd owner addr inc \<noteq> None) (mon_partial s)
    then fold (check_resolved now) (promotable owner ?t) ?t else ?t"
  have "resolved n svc ?t" using r by (simp add: resolved_def extend_partials_at)
  then have u: "resolved n svc ?u" by (simp add: promote_resolved)
  then have n: "n \<in> set (map fst (mon_live ?u))" "map_of (mon_live ?u) n = Some svc"
    unfolding resolved_def using map_of_eq_None_iff [of "mon_live ?u" n] by auto
  show ?thesis
    using add_live_all [OF f n(2) h n(1)] u unfolding process_address_cases Let_def resolved_def by (simp only: add_live_all_partial simp_thms)
qed

section \<open>The records of an announcement\<close>

lemma fold_hosts: "(\<And>x s. mon_hosts (f x s) = mon_hosts s) \<Longrightarrow> mon_hosts (fold f xs s) = mon_hosts s"
  by (induction xs arbitrary: s) simp_all

lemma process_hosts [simp]:
  "mon_hosts (process_address_record get upd owner addr t now s) = mon_hosts s" "mon_hosts (process_txt r now s) = mon_hosts s"
proof -
  have c: "mon_hosts (check_resolved now n s) = mon_hosts s" for n s
    by (simp add: check_resolved_def Let_def mon_emit_def split: option.split)
  have a: "mon_hosts (add_live_address get upd owner addr t now n s) = mon_hosts s" for n s
    by (simp add: add_live_address_def Let_def split: option.split)
  show "mon_hosts (process_address_record get upd owner addr t now s) = mon_hosts s"
    by (simp add: process_address_cases Let_def extend_partials_def fold_hosts [OF c] fold_hosts [OF a])
  show "mon_hosts (process_txt r now s) = mon_hosts s"
    by (simp add: process_txt_def Let_def split: option.split prod.split)
qed

lemma cache_record_sels [simp]:
  "mon_live (cache_record rec sender now s) = mon_live s" "mon_partial (cache_record rec sender now s) = mon_partial s"
  "mon_hosts (cache_record rec sender now s) = mon_hosts s" "mon_watches (cache_record rec sender now s) = mon_watches s"
  "mon_goodbye (cache_record rec sender now s) = mon_goodbye s" "mon_instance_type (cache_record rec sender now s) = mon_instance_type s"
  by (simp_all add: cache_record_def Let_def mon_emit_def split: prod.split option.split)

lemma resolved_cache [simp]:
  "resolved n svc (cache_record rec sender now s) = resolved n svc s" "resolving n svc (cache_record rec sender now s) = resolving n svc s"
  by (simp_all add: resolved_def resolving_def)

definition handled :: "endpoint \<Rightarrow> int \<Rightarrow> mdns_record_variant list \<Rightarrow> monitor \<Rightarrow> monitor" where
  "handled sender now recs s = fst (fold (handle_record sender now) recs (s, False))"

lemma fold_handle_flag: "fst (fold (handle_record sender now) recs (s, b)) = handled sender now recs s"
proof (induction recs arbitrary: s b)
  case (Cons rec recs)
  show ?case unfolding handled_def by (cases "is_relevant rec s") (simp_all add: handle_record_def [of _ _ rec] Cons.IH)
qed (simp add: handled_def)

lemma handled_simps:
  "handled sender now [] s = s"
  "is_relevant rec s \<Longrightarrow> handled sender now (rec # recs) s = handled sender now recs (process_record rec now (cache_record rec sender now s))"
  "handled sender now (recs @ recs') s = handled sender now recs' (handled sender now recs s)"
proof -
  show "handled sender now [] s = s" by (simp add: handled_def)
  show "handled sender now (rec # recs) s = handled sender now recs (process_record rec now (cache_record rec sender now s))" if "is_relevant rec s"
    using that fold_handle_flag [of sender now recs _ True, unfolded handled_def] by (simp add: handled_def handle_record_def [of _ _ rec])
  show "handled sender now (recs @ recs') s = handled sender now recs' (handled sender now recs s)"
    using fold_handle_flag [of sender now recs' "fst (fold (handle_record sender now) recs (s, False))"
        "snd (fold (handle_record sender now) recs (s, False))"]
    by (simp add: handled_def)
qed

lemma addresses_id: "rs_ipv4_addresses_update id svc = svc" "rs_ipv6_addresses_update id svc = svc"
  by (cases svc, simp)+

lemma addresses_update:
  "rs_ipv4_addresses_update f svc = svc\<lparr>rs_ipv4_addresses := f (rs_ipv4_addresses svc)\<rparr>"
  "rs_ipv6_addresses_update f svc = svc\<lparr>rs_ipv6_addresses := f (rs_ipv6_addresses svc)\<rparr>"
  by (cases svc, simp)+

lemma uniq_fold: "uniq xs = fold add_address xs []"
  by (simp add: uniq_def foldl_conv_fold)

lemma handled_a:
  assumes "resolved n svc s" and "\<And>r. r \<in> set as \<Longrightarrow> rec_name r = rs_hostname svc" and "rs_hostname svc \<in> mon_hosts s"
  shows "resolved n (rs_ipv4_addresses_update (\<lambda>l. fold add_address (map a_address_string as) l) svc) (handled sender now (map Rec_a as) s)
    \<and> mon_hosts (handled sender now (map Rec_a as) s) = mon_hosts s"
  using assms
proof (induction as arbitrary: s svc)
  case (Cons r as)
  let ?s = "process_record (Rec_a r) now (cache_record (Rec_a r) sender now s)"
  let ?svc = "rs_ipv4_addresses_update (add_address (a_address_string r)) svc"
  have rel: "is_relevant (Rec_a r) s" using Cons.prems by (simp add: is_relevant_def)
  have "resolved n ?svc ?s"
    using Cons.prems further_address [OF address_fields(1), of n svc "cache_record (Rec_a r) sender now s"] by (simp add: process_a_def)
  moreover have "mon_hosts ?s = mon_hosts s" by (simp add: process_a_def)
  ultimately show ?case
    using Cons.IH [of ?svc ?s] Cons.prems by (simp add: handled_simps(2) [OF rel] comp_def)
qed (simp add: handled_simps(1) addresses_id)

lemma handled_aaaa:
  assumes "resolved n svc s" and "\<And>r. r \<in> set bs \<Longrightarrow> rec_name r = rs_hostname svc" and "rs_hostname svc \<in> mon_hosts s"
  shows "resolved n (rs_ipv6_addresses_update (\<lambda>l. fold add_address (map aaaa_address_string bs) l) svc) (handled sender now (map Rec_aaaa bs) s)
    \<and> mon_hosts (handled sender now (map Rec_aaaa bs) s) = mon_hosts s"
  using assms
proof (induction bs arbitrary: s svc)
  case (Cons r bs)
  let ?s = "process_record (Rec_aaaa r) now (cache_record (Rec_aaaa r) sender now s)"
  let ?svc = "rs_ipv6_addresses_update (add_address (aaaa_address_string r)) svc"
  have rel: "is_relevant (Rec_aaaa r) s" using Cons.prems by (simp add: is_relevant_def)
  have "resolved n ?svc ?s"
    using Cons.prems further_address [OF address_fields(2), of n svc "cache_record (Rec_aaaa r) sender now s"] by (simp add: process_aaaa_def)
  moreover have "mon_hosts ?s = mon_hosts s" by (simp add: process_aaaa_def)
  ultimately show ?case
    using Cons.IH [of ?svc ?s] Cons.prems by (simp add: handled_simps(2) [OF rel] comp_def)
qed (simp add: handled_simps(1) addresses_id)

lemma handled_txt:
  assumes "resolved n svc s" and "\<And>r. r \<in> set ts \<Longrightarrow> rec_name r = n"
  shows "resolved n (svc\<lparr>rs_txt_entries := merge_txt (rs_txt_entries svc) (concat (map txt_entries ts))\<rparr>) (handled sender now (map Rec_txt ts) s)"
  using assms
proof (induction ts arbitrary: s svc)
  case (Cons r ts)
  let ?s = "process_record (Rec_txt r) now (cache_record (Rec_txt r) sender now s)"
  let ?svc = "svc\<lparr>rs_txt_entries := merge_txt (rs_txt_entries svc) (txt_entries r)\<rparr>"
  have rel: "is_relevant (Rec_txt r) s" using Cons.prems by (simp add: is_relevant_def resolved_def)
  have "fst (mon_merge_txt (rs_txt_entries svc) (txt_entries r)) = merge_txt (rs_txt_entries svc) (txt_entries r)"
    using mon_merge_txt_result by blast
  then have "resolved n ?svc ?s"
    using Cons.prems by (auto simp: resolved_def process_txt_def Let_def map_of_upd_entry split: prod.split)
  then show ?case
    using Cons.IH [of ?svc ?s] Cons.prems by (simp add: handled_simps(2) [OF rel] merge_txt_append)
qed (simp add: handled_simps(1) merge_txt_def)

section \<open>Properties\<close>

lemma handled_ptr_srv:
  assumes "map_of (mon_watches s) (rec_name p) \<noteq> None" and "map_of (mon_partial s) (ptr_name p) = None" and "map_of (mon_live s) (ptr_name p) = None"
    and "rec_name v = ptr_name p"
  shows "resolving (ptr_name p) ((new_service (ptr_name p))\<lparr>rs_hostname := srv_name v, rs_port := srv_port v\<rparr>)
      (handled sender now [Rec_ptr p, Rec_srv v] s) \<and> srv_name v \<in> mon_hosts (handled sender now [Rec_ptr p, Rec_srv v] s)"
proof -
  let ?t = "process_ptr p (cache_record (Rec_ptr p) sender now s)"
  let ?inc = "\<lparr>inc_service_type = rec_name p, inc_has_srv = False, inc_has_address = False, inc_partial = new_service (ptr_name p)\<rparr>"
  let ?u = "process_srv v now (cache_record (Rec_srv v) sender now ?t)"
  have t: "map_of (mon_partial ?t) (ptr_name p) = Some ?inc" "map_of (mon_live ?t) (ptr_name p) = None"
    using assms by (simp_all add: process_ptr_def Let_def map_of_snoc del: map_of_append)
  have rel: "is_relevant (Rec_ptr p) s" "is_relevant (Rec_srv v) ?t" using assms t by (simp_all add: is_relevant_def)
  have h: "handled sender now [Rec_ptr p, Rec_srv v] s = ?u" by (simp add: handled_simps rel)
  let ?w = "cache_record (Rec_srv v) sender now ?t"
  let ?x = "srv_refresh v now ((srv_goodbye v ?w)\<lparr>mon_partial := upd_entry (rec_name v) (\<lambda>_. srv_partial v ?inc) (mon_partial (srv_goodbye v ?w)),
    mon_hosts := insert (srv_name v) (mon_hosts (srv_goodbye v ?w))\<rparr>)"
  have x: "map_of (mon_partial ?x) (ptr_name p) = Some (srv_partial v ?inc)" "map_of (mon_live ?x) (ptr_name p) = None" "srv_name v \<in> mon_hosts ?x"
    using t assms(4) by (simp_all add: map_of_upd_entry)
  have "?u = check_resolved now (ptr_name p) ?x" using t assms(4) by (simp add: process_srv_cases Let_def)
  also have "\<dots> = ?x" using x(1) by (simp add: check_resolved_def srv_partial_def)
  finally have u: "?u = ?x" .
  show ?thesis unfolding h u resolving_def using x by (simp add: srv_partial_def new_service_def)
qed

lemma address_step:
  assumes "resolving n svc s" and "rs_hostname svc \<in> mon_hosts s"
    and "\<And>r. r \<in> set as \<Longrightarrow> rec_name r = rs_hostname svc" and "\<And>r. r \<in> set bs \<Longrightarrow> rec_name r = rs_hostname svc" and "as \<noteq> [] \<or> bs \<noteq> []"
  shows "resolved n (svc\<lparr>rs_ipv4_addresses := uniq (map a_address_string as), rs_ipv6_addresses := uniq (map aaaa_address_string bs)\<rparr>)
    (handled sender now (map Rec_a as @ map Rec_aaaa bs) s)"
proof -
  have e: "rs_ipv4_addresses svc = []" "rs_ipv6_addresses svc = []" using assms(1) by (simp_all add: resolving_def)
  show ?thesis
  proof (cases as)
    case (Cons r as')
    let ?s = "process_record (Rec_a r) now (cache_record (Rec_a r) sender now s)"
    let ?svc = "rs_ipv4_addresses_update (add_address (a_address_string r)) svc"
    have rel: "is_relevant (Rec_a r) s" using assms Cons by (simp add: is_relevant_def)
    have "resolved n ?svc ?s"
      using assms Cons first_address [OF address_fields(1), of n svc "cache_record (Rec_a r) sender now s"] by (simp add: process_a_def)
    from handled_a [OF this, of as' sender now] assms Cons
    have "resolved n (rs_ipv4_addresses_update (fold add_address (map a_address_string as')) ?svc) (handled sender now (map Rec_a as) s)"
      "mon_hosts (handled sender now (map Rec_a as) s) = mon_hosts s"
      by (simp_all add: handled_simps(2) [OF rel] process_a_def)
    from handled_aaaa [OF this(1), of bs sender now] this(2) assms
    have "resolved n (rs_ipv6_addresses_update (fold add_address (map aaaa_address_string bs))
        (rs_ipv4_addresses_update (fold add_address (map a_address_string as')) ?svc)) (handled sender now (map Rec_a as @ map Rec_aaaa bs) s)"
      by (simp add: handled_simps(3))
    then show ?thesis
      unfolding addresses_update [of "fold add_address xs" for xs] addresses_update [of "add_address x" for x] by (simp add: e Cons uniq_fold)
  next
    case Nil
    then obtain r bs' where bs: "bs = r # bs'" using assms(5) by (cases bs) auto
    let ?s = "process_record (Rec_aaaa r) now (cache_record (Rec_aaaa r) sender now s)"
    let ?svc = "rs_ipv6_addresses_update (add_address (aaaa_address_string r)) svc"
    have rel: "is_relevant (Rec_aaaa r) s" using assms bs by (simp add: is_relevant_def)
    have "resolved n ?svc ?s"
      using assms bs first_address [OF address_fields(2), of n svc "cache_record (Rec_aaaa r) sender now s"] by (simp add: process_aaaa_def)
    from handled_aaaa [OF this, of bs' sender now] assms bs
    have "resolved n (rs_ipv6_addresses_update (fold add_address (map aaaa_address_string bs')) ?svc) (handled sender now (map Rec_aaaa bs) s)"
      by (simp add: handled_simps(2) [OF rel] process_aaaa_def)
    moreover have "svc\<lparr>rs_ipv4_addresses := uniq (map a_address_string as), rs_ipv6_addresses := uniq (map aaaa_address_string bs)\<rparr>
        = rs_ipv6_addresses_update (fold add_address (map aaaa_address_string bs')) ?svc"
      using e Nil bs by (cases svc) (simp add: uniq_fold)
    ultimately show ?thesis by (simp only: Nil list.map append_Nil)
  qed
qed

lemma announcement_resolves:
  assumes "announceable info" and "inet_pton_width 16 p6"
    and "map_of (mon_watches s) (service_type info) \<noteq> None" and "map_of (mon_partial s) (service_name info) = None"
    and "map_of (mon_live s) (service_name info) = None" and "ipv4_announced info \<noteq> [] \<or> ipv6_announced p6 info \<noteq> []"
  shows "\<exists>recs. walk_dns_frame (build_dns_response p6 info Type_ptr opts cap) sender = Some recs \<and>
    resolved (service_name info) (announced_service p6 info) (handled sender now recs s)"
proof -
  obtain an ar where secs: "response_sections p6 info Type_ptr opts cap = (an, ar)" by fastforce
  obtain p v as bs ts where recs:
    "List.map_filter (rr_decoded sender) (an @ ar) = Rec_ptr p # Rec_srv v # map Rec_a as @ map Rec_aaaa bs @ map Rec_txt ts"
    "rec_name p = service_type info" "ptr_name p = service_name info"
    "rec_name v = service_name info" "srv_name v = hostname info" "srv_port v = info_port info"
    "\<And>x. x \<in> set as \<Longrightarrow> rec_name x = hostname info" "map a_address_string as = ipv4_announced info"
    "\<And>x. x \<in> set bs \<Longrightarrow> rec_name x = hostname info" "map aaaa_address_string bs = ipv6_announced p6 info"
    "\<And>x. x \<in> set ts \<Longrightarrow> rec_name x = service_name info" "concat (map txt_entries ts) = filter txt_kept (txt_records info)"
    "rec_ttl v = rr_ttl (hd (srv_rrs info opts cap))"
    by (rule ptr_records [OF secs, of sender]) (rule that, assumption+)
  let ?n = "service_name info"
  let ?svc = "(new_service ?n)\<lparr>rs_hostname := hostname info, rs_port := info_port info\<rparr>"
  let ?t = "handled sender now [Rec_ptr p, Rec_srv v] s"
  have t: "resolving ?n ?svc ?t" "hostname info \<in> mon_hosts ?t"
    using handled_ptr_srv [of s p v sender now] recs(2-6) assms(3-5) by simp_all
  have ne: "as \<noteq> [] \<or> bs \<noteq> []" using assms(6) recs(8,10) by auto
  let ?u = "handled sender now (map Rec_a as @ map Rec_aaaa bs) ?t"
  let ?svc2 = "?svc\<lparr>rs_ipv4_addresses := ipv4_announced info, rs_ipv6_addresses := ipv6_announced p6 info\<rparr>"
  have "resolved ?n ?svc2 ?u"
    using address_step [OF t(1), of as bs sender now] t(2) ne recs(7-10) by (simp add: uniq_announced)
  from handled_txt [OF this, of ts sender now] recs(11,12)
  have "resolved ?n (announced_service p6 info) (handled sender now (map Rec_txt ts) ?u)"
    by (simp add: announced_service_def new_service_def)
  moreover have "handled sender now (map Rec_txt ts) ?u = handled sender now (List.map_filter (rr_decoded sender) (an @ ar)) s"
    unfolding recs(1) by (subst handled_simps(3) [symmetric])+ simp
  ultimately show ?thesis using walk_response [OF assms(1,2), of Type_ptr opts cap sender] secs by simp
qed

lemma track_found: "track n False es = Some True \<Longrightarrow> \<exists>svc. M_found svc \<in> set es \<and> rs_instance_name svc = n"
  by (induction n False es rule: track.induct) (auto split: if_splits)

definition mon_receives :: "recv_metadata \<Rightarrow> monitor \<Rightarrow> bool" where
  "mon_receives meta s \<longleftrightarrow> (case mon_loop s of None \<Rightarrow> False | Some l \<Rightarrow> receive_armed l \<and> \<not> loop_stopped l \<and> accepts meta l)"

lemma mon_put_simps [simp]:
  "mon_live (mon_put_loop l s) = mon_live s" "mon_partial (mon_put_loop l s) = mon_partial s" "mon_watches (mon_put_loop l s) = mon_watches s"
  "mon_snapshot (mon_put_loop l s) = mon_snapshot s" "mon_out (mon_put_loop l s) = mon_out s" "mon_opts (mon_put_loop l s) = mon_opts s"
  by (simp_all add: mon_put_loop_def)

lemma monitor_receives:
  assumes "mon_receives meta s" and "walk_dns_frame data (rm_sender meta) = Some recs"
  shows "\<exists>l l' s'. monitor_step (Mev_packet meta data) now s = Some s' \<and>
    s' = mon_put_loop l' (handled (rm_sender meta) now recs (mon_put_loop l s))"
proof -
  obtain l where l: "mon_loop s = Some l" "receive_armed l" "\<not> loop_stopped l" "accepts meta l"
    using assms(1) by (auto simp: mon_receives_def split: option.splits)
  have a: "accepts meta (l\<lparr>receive_armed := False\<rparr>)" using l(4) by (simp add: accepts_def split: option.splits)
  let ?s = "mon_put_loop (l\<lparr>receive_armed := False\<rparr>) s"
  obtain u b where u: "fold (handle_record (rm_sender meta) now) recs (?s, False) = (u, b)" by fastforce
  then have "u = handled (rm_sender meta) now recs ?s" by (simp add: handled_def)
  moreover have "mon_put_loop x (mon_put_loop y v) = mon_put_loop x v" for x y v by (simp add: mon_put_loop_def)
  ultimately show ?thesis
    using l a assms(2) u
    by (auto simp: receive_def Let_def mon_get_loop_def mon_put_loop_def [of _ s] handle_packet_def)
qed

text \<open>
  C5: A watched service is found. When the monitor watches the type of a service that it does not know
  yet and that announces an address, the packet with which a responder answers a PTR query, once the
  receive loop accepts it, makes the service live: \<open>services()\<close> then lists it exactly as it was
  announced (name, host, port, TXT entries, addresses; the TTL fields aside), and \<open>on_found\<close> has been
  called for it.
\<close>

theorem monitor_finds_service:
  assumes "sane_intervals mopts" and "monitor_reachable (new_monitor q6 mcast mon_options mopts copts jitter hint) s"
    and "announceable info" and "inet_pton_width 16 p6" and "ipv4_announced info \<noteq> [] \<or> ipv6_announced p6 info \<noteq> []"
    and "map_of (mon_watches s) (service_type info) \<noteq> None" and "map_of (mon_partial s) (service_name info) = None"
    and "map_of (mon_live s) (service_name info) = None" and "mon_receives meta s"
  shows "\<exists>s'. monitor_step (Mev_packet meta (build_dns_response p6 info Type_ptr opts cap)) now s = Some s' \<and>
    announced_service p6 info \<in> strip_ttl ` set (services s') \<and>
    (mo_on_found mon_options \<and> mo_on_lost mon_options \<longrightarrow>
       (\<exists>es svc. mon_out s' = mon_out s @ es \<and> M_found svc \<in> set es \<and> rs_instance_name svc = service_name info))"
proof -
  let ?data = "build_dns_response p6 info Type_ptr opts cap" and ?n = "service_name info"
  have ok: "mon_ok s" "tracks (new_monitor q6 mcast mon_options mopts copts jitter hint) s"
    using monitor_reachable_steps [OF assms(2) new_monitor_ok [OF assms(1)]] by simp_all
  have opts: "mon_opts s = mon_options" using ok(2) by (simp add: tracks_def new_monitor_def)
  obtain recs where w: "walk_dns_frame ?data (rm_sender meta) = Some recs"
    using walk_response [OF assms(3,4), of Type_ptr opts cap "rm_sender meta"] by (auto split: prod.splits)
  obtain l l' s' where s': "monitor_step (Mev_packet meta ?data) now s = Some s'"
    "s' = mon_put_loop l' (handled (rm_sender meta) now recs (mon_put_loop l s))"
    using monitor_receives [OF assms(9) w] by blast
  have "resolved ?n (announced_service p6 info) (handled (rm_sender meta) now recs (mon_put_loop l s))"
    using announcement_resolves [OF assms(3,4), of "mon_put_loop l s" opts cap "rm_sender meta" now] assms(5-8) w by simp
  then have live: "map_of (mon_live s') ?n = Some (announced_service p6 info)" by (simp add: s'(2) resolved_def)
  have "steps (monitor_step (Mev_packet meta ?data) now s) s" by (rule monitor_step_ok [OF ok(1)]) simp
  then have st: "mon_ok s'" "tracks s s'" using s'(1) by (simp_all add: steps_def)
  have "announced_service p6 info = strip_ttl (announced_service p6 info)"
    by (simp add: announced_service_def new_service_def strip_ttl_def)
  moreover have "strip_ttl (announced_service p6 info) \<in> set (map (\<lambda>x. strip_ttl (snd x)) (mon_live s'))"
    using map_of_SomeD [OF live] by force
  moreover have "set (map (\<lambda>x. strip_ttl (snd x)) (mon_live s')) = strip_ttl ` set (services s')"
    using st(1) by (simp add: mon_ok_def in_sync_def) (metis set_map)
  ultimately have listed: "announced_service p6 info \<in> strip_ttl ` set (services s')" by (simp only:)
  have "\<exists>es svc. mon_out s' = mon_out s @ es \<and> M_found svc \<in> set es \<and> rs_instance_name svc = ?n"
    if cb: "mo_on_found mon_options" "mo_on_lost mon_options"
  proof -
    have "?n \<notin> keys (mon_live s)" "?n \<in> keys (mon_live s')"
      using assms(8) live map_of_keys [of "mon_live s" ?n] map_of_keys [of "mon_live s'" ?n] by simp_all
    moreover obtain es where "mon_out s' = mon_out s @ es" "track ?n (?n \<in> keys (mon_live s)) es = Some (?n \<in> keys (mon_live s'))"
      using st(2) cb opts by (auto simp: tracks_def reports_def)
    ultimately have "mon_out s' = mon_out s @ es" "track ?n False es = Some True" by simp_all
    with track_found show ?thesis by blast
  qed
  with s'(1) listed show ?thesis by blast
qed

text \<open>A monitor that was told to watch the type of the example service and has been started.\<close>

definition watching :: monitor where
  "watching = example_monitor\<lparr>mon_watches := [(dns_name ''_http._tcp.local'', new_backoff)], mon_on_done := True,
     mon_loop := Some (start_loop 0 (new_loop (24 * 365 * 3600 * 1000) 255 Accept)), mon_scheduler := arm 0 1000 () new_timer\<rparr>"

lemma watching_reachable: "monitor_reachable example_monitor watching"
proof -
  let ?s1 = "example_monitor\<lparr>mon_posted := [Task_watch ''_http._tcp.local'']\<rparr>"
  let ?s2 = "example_monitor\<lparr>mon_watches := [(dns_name ''_http._tcp.local'', new_backoff)]\<rparr>"
  have e: "sendable_name (str (dns_name ''_http._tcp.local''))"
    using wf_name_encode(1) [OF example_wf_names(1)] by (simp add: sendable_name_def example_normalized)
  have 1: "monitor_step (Mev_watch ''_http._tcp.local'') 0 example_monitor = Some ?s1"
    by (simp add: mon_post_def example_monitor_def new_monitor_def)
  have 2: "monitor_step Mev_posted 0 ?s1 = Some ?s2"
    by (simp add: run_posted_monitor_def do_watch_def emplace_def example_monitor_def new_monitor_def)
  have 3: "monitor_step (Mev_start True) 0 ?s2 = Some watching"
    by (simp add: watching_def mon_start_def arm_scheduler_def scheduler_delay_def next_interval_def new_backoff_def earlier_def
        example_monitor_def new_monitor_def default_mdns_options_def all_callbacks_def Let_def)
  show ?thesis
    by (rule monitor_next [OF monitor_next [OF monitor_next [OF monitor_init _ 1] _ 2] _ 3])
      (simp_all add: e [simplified] example_monitor_def new_monitor_def)
qed

definition from_responder :: recv_metadata where
  "from_responder = \<lparr>rm_sender = \<lparr>ep_address = ''192.168.1.7'', ep_port = 5353\<rparr>, rm_ttl = Some 255, rm_ifindex = 0\<rparr>"

lemma watching_receives: "mon_receives from_responder watching"
  by (simp add: mon_receives_def watching_def start_loop_def arm_receive_def arm_silence_timer_def new_loop_def accepts_def from_responder_def)

lemma example_ipv4: "ipv4_announced example_info = [ipv4_text 192 168 1 7]"
  by code_simp

theorem monitor_finds_service_witness:
  "\<exists>s'. monitor_step (Mev_packet from_responder (build_dns_response (\<lambda>_. None) example_info Type_ptr default_service_options 0xFFFFFFFF))
      1000000 watching = Some s' \<and>
    announced_service (\<lambda>_. None) example_info \<in> strip_ttl ` set (services s')"
  using monitor_finds_service [OF default_sane watching_reachable [unfolded example_monitor_def] example_announceable,
      of "\<lambda>_. None" from_responder default_service_options "0xFFFFFFFF" 1000000] watching_receives example_ipv4
  by (auto simp: watching_def example_monitor_def new_monitor_def inet_pton_width_def example_info_def)

end
