(* ===== verification/Monitor_Loss.thy ===== *)
theory Monitor_Loss
  imports Monitor_Resolution
begin

text \<open>
  How the service monitor loses services: records that expire from the cache, goodbyes, and
  types that are no longer watched.
\<close>

section \<open>The cache of a reachable monitor\<close>

lemma fold_same: "(\<And>x s. f (g x s) = f s) \<Longrightarrow> f (fold g xs s) = f s"
  by (induction xs arbitrary: s) simp_all

lemma process_record_cache [simp]: "mon_cache (process_record rec now s) = mon_cache s"
proof -
  have c: "mon_cache (check_resolved now n s) = mon_cache s" for n s
    by (simp add: check_resolved_def Let_def mon_emit_def split: option.split)
  have a: "mon_cache (add_live_address get upd owner addr t now n s) = mon_cache s" for get upd owner addr t n s
    by (simp add: add_live_address_def Let_def split: option.split)
  have p: "mon_cache (process_address_record get upd owner addr t now s) = mon_cache s" for get upd owner addr t
    by (simp add: process_address_cases Let_def extend_partials_def fold_same [of mon_cache, OF c] fold_same [of mon_cache, OF a])
  show ?thesis
    by (cases rec) (simp_all add: process_ptr_def process_srv_def process_a_def process_aaaa_def process_txt_def c p Let_def
        split: option.split prod.split)
qed

lemma drop_live_cache [simp]: "mon_cache (drop_live_address get upd owner addr t now n s) = mon_cache s"
  by (simp add: drop_live_address_def Let_def split: option.split)

lemma handle_expired_record_cache [simp]: "mon_cache (handle_expired_record now rec s) = mon_cache s"
  by (cases rec) (simp_all add: handle_expired_srv_def handle_expired_txt_def handle_expired_address_def Let_def mon_emit_def
      fold_same [of mon_cache, OF drop_live_cache] split: option.split prod.split)

lemma expire_cache: "mon_cache (expire now s) = fst (erase_expired now (mon_cache s))"
  by (simp add: expire_def handle_expired_def Let_def fold_same [of mon_cache] split: prod.split option.split)

definition cache_evolves :: "monitor \<Rightarrow> monitor \<Rightarrow> bool" where
  "cache_evolves s s' \<longleftrightarrow> (\<forall>opts. cache_reachable opts (mon_cache s) \<longrightarrow> cache_reachable opts (mon_cache s'))"

lemma cache_evolves_same: "mon_cache s' = mon_cache s \<Longrightarrow> cache_evolves s s'"
  by (simp add: cache_evolves_def)

lemma cache_evolves_trans: "cache_evolves s t \<Longrightarrow> cache_evolves t u \<Longrightarrow> cache_evolves s u"
  by (simp add: cache_evolves_def)

lemma cache_record_cache: "mon_cache (cache_record rec sender now s) = fst (insert_record rec sender now now (mon_hint s 0) (mon_cache s))"
  by (simp add: cache_record_def Let_def mon_emit_def split: prod.split option.split)

lemma cache_record_evolves: "cache_evolves s (cache_record rec sender now s)"
  by (simp add: cache_evolves_def cache_record_cache cache_reachable.inserted)

lemma handled_cache: "cache_evolves s (fst (fold (handle_record sender now) recs (s, b)))"
proof (induction recs arbitrary: s b)
  case (Cons rec recs)
  have "cache_evolves s (fst (handle_record sender now rec (s, b)))"
    using cache_record_evolves [of s rec sender now] by (simp add: handle_record_def cache_evolves_def)
  with Cons.IH [of "fst (handle_record sender now rec (s, b))" "snd (handle_record sender now rec (s, b))"] show ?case
    by (simp add: cache_evolves_def)
qed (simp add: cache_evolves_def)

interpretation monitor_cache: loop_evolution mon_get_loop mon_put_loop handle_packet cache_evolves
proof
  show "cache_evolves s (mon_put_loop l s)" for l s by (simp add: cache_evolves_def mon_put_loop_def)
  show "cache_evolves s s'" if "handle_packet meta data now s = Some (s', rel)" for meta data now s s' rel
  proof -
    obtain recs where "fold (handle_record (rm_sender meta) now) recs (s, False) = (s', rel)"
      using \<open>handle_packet meta data now s = Some (s', rel)\<close> unfolding handle_packet_def bind_eq_Some_conv by blast
    then show ?thesis using handled_cache [of s "rm_sender meta" now recs False] by simp
  qed
qed (simp_all add: cache_evolves_def)

lemma only_sends_cache: "only_sends s s' \<Longrightarrow> mon_cache s' = mon_cache s"
  using tracking_sels [of s' s] by (simp add: only_sends_def)

lemma run_task_cache:
  assumes "run_task task now s = Some s'"
  shows "mon_cache s' = mon_cache s"
proof (cases task)
  case (Task_watch svc)
  with assms show ?thesis
    using only_sends_cache [OF arm_scheduler_sends] by (fastforce simp: do_watch_def Let_def split: if_splits)
next
  case (Task_query_type svc)
  with assms show ?thesis using only_sends_cache [OF send_ptr_query_sends] by simp
next
  case (Task_query_instance inst)
  with assms show ?thesis using only_sends_cache [OF send_instance_queries_sends] by auto
qed (use assms in \<open>auto simp: mon_teardown_def Let_def mon_emit_def do_unwatch_cases\<close>)

lemma tick_cache: "on_scheduler_tick now s = Some s' \<Longrightarrow> cache_evolves s s'"
  using on_scheduler_tick_sends [of now s s'] only_sends_cache [of "expire now s" s'] expire_cache [of now s]
  by (auto simp: cache_evolves_def cache_reachable.erased)

lemma monitor_step_cache:
  assumes "monitor_step ev now s = Some s'"
  shows "cache_evolves s s'"
proof (cases ev)
  case Mev_posted
  with assms run_task_cache [of _ now _ s'] show ?thesis
    by (fastforce simp: run_posted_monitor_def Let_def cache_evolves_def split: list.splits if_splits)
next
  case Mev_scheduler
  with assms tick_cache show ?thesis
    by (fastforce simp: fire_scheduler_def Let_def cache_evolves_def split: prod.splits if_splits)
next
  case Mev_tc_timer
  with assms show ?thesis
    using only_sends_cache [OF send_tc_packets_sends]
    by (auto simp: fire_tc_send_timer_def Let_def cache_evolves_def split: prod.splits option.splits if_splits)
next
  case Mev_silence
  with assms monitor_cache.silence_evolves [of "\<lambda>s. s" s now] show ?thesis
    by (auto simp: cache_evolves_def split: if_splits)
next
  case (Mev_packet meta data)
  with assms monitor_cache.receive_evolves show ?thesis by (auto simp: cache_evolves_def split: if_splits)
next
  case Mev_tick_expired
  with assms show ?thesis by (auto simp: cache_evolves_def expire_cache cache_reachable.erased)
next
  case (Mev_start on_done)
  with assms only_sends_cache [OF arm_scheduler_sends] show ?thesis by (fastforce simp: mon_start_def Let_def cache_evolves_def)
qed (use assms in \<open>auto simp: mon_stop_def mon_post_def destroy_monitor_def Let_def cache_evolves_def\<close>)

lemma monitor_reachable_cache:
  assumes "monitor_reachable (new_monitor p6 mcast opts mopts copts jitter hint) s"
  shows "cache_reachable (copts\<lparr>has_on_expired := True\<rparr>) (mon_cache s)"
  using assms
proof (induction rule: monitor_reachable.induct)
  case monitor_init
  show ?case by (simp add: new_monitor_def cache_reachable.start)
next
  case (monitor_next s ev now s')
  then show ?case using monitor_step_cache by (simp add: cache_evolves_def)
qed

section \<open>Expired records\<close>

fun srv_owner :: "mdns_record_variant \<Rightarrow> dns_name set" where
  "srv_owner (Rec_srv r) = {rec_name r}"
| "srv_owner _ = {}"

definition expired_records :: "int \<Rightarrow> record_cache \<Rightarrow> mdns_record_variant list" where
  "expired_records now c = map (\<lambda>x. ie_record (snd x)) (filter (\<lambda>x. is_expired (snd x) now) (m_entries c))"

definition expired_srvs :: "int \<Rightarrow> record_cache \<Rightarrow> dns_name set" where
  "expired_srvs now c = \<Union> (srv_owner ` set (expired_records now c))"

lemma erased_records: "map ce_record [to_cache_entry e now. (k, e) \<leftarrow> es, is_expired e now]
    = map (\<lambda>x. ie_record (snd x)) (filter (\<lambda>x. is_expired (snd x) now) es)"
  by (induction es) (auto simp: to_cache_entry_def)

lemma expire_records:
  assumes "has_on_expired (cache_opts (mon_cache s))"
  shows "expire now s = fold (handle_expired_record now) (expired_records now (mon_cache s)) (s\<lparr>mon_cache := fst (erase_expired now (mon_cache s))\<rparr>)"
proof -
  obtain ents es where l: "erase_loop now (m_entries (mon_cache s)) = (ents, es)" by fastforce
  then have r: "expired_records now (mon_cache s) = map ce_record es"
    using erased_records [of now "m_entries (mon_cache s)"] by (auto simp: erase_loop_eq expired_records_def)
  have f: "fold (\<lambda>e. handle_expired_record now (ce_record e)) es t = fold (handle_expired_record now) (map ce_record es) t" for t
    by (simp add: fold_map comp_def)
  show ?thesis
    using assms by (cases "es = []") (simp_all add: expire_def erase_expired_def l Let_def handle_expired_def f r)
qed

lemma drop_live_keys [simp]: "keys (mon_live (drop_live_address get upd owner addr t now n s)) = keys (mon_live s)"
  by (simp add: drop_live_address_def Let_def split: option.split)

lemma handle_expired_record_keys: "keys (mon_live (handle_expired_record now rec s)) = keys (mon_live s) - srv_owner rec"
proof (cases rec)
  case (Rec_srv r)
  then show ?thesis
    by (auto simp: handle_expired_srv_def Let_def mon_emit_def map_of_keys split: option.split)
qed (auto simp: handle_expired_txt_def handle_expired_address_def Let_def fold_same [of "\<lambda>s. keys (mon_live s)", OF drop_live_keys]
      split: option.split prod.split)

lemma handle_expired_keys:
  "keys (mon_live (fold (handle_expired_record now) recs s)) = keys (mon_live s) - \<Union> (srv_owner ` set recs)"
  by (induction recs arbitrary: s) (auto simp: handle_expired_record_keys)

fun lost_name :: "monitor_effect \<Rightarrow> dns_name option" where
  "lost_name (M_lost svc reason) = Some (rs_instance_name svc)"
| "lost_name _ = None"

text \<open>The instances that have been reported to \<open>on_lost\<close>, in order.\<close>

definition lost_names :: "monitor_effect list \<Rightarrow> dns_name list" where
  "lost_names es = List.map_filter lost_name es"

lemma lost_names_append [simp]: "lost_names (es @ fs) = lost_names es @ lost_names fs"
  by (simp add: lost_names_def map_filter_def)

lemma lost_names_single [simp]:
  "lost_names [M_lost svc reason] = [rs_instance_name svc]" "lost_names [M_updated svc' ev t] = []"
  by (simp_all add: lost_names_def map_filter_simps)

lemma drop_live_lost [simp]: "lost_names (mon_out (drop_live_address get upd owner addr t now n s)) = lost_names (mon_out s)"
  by (simp add: drop_live_address_def Let_def mon_updated_def mon_emit_def update_snapshot_def split: option.split)

lemma handle_expired_record_lost:
  assumes "mon_wf s" and "mo_on_lost (mon_opts s)"
  shows "lost_names (mon_out (handle_expired_record now rec s)) =
    lost_names (mon_out s) @ (case rec of Rec_srv r \<Rightarrow> if rec_name r \<in> keys (mon_live s) then [rec_name r] else [] | _ \<Rightarrow> [])"
proof (cases rec)
  case (Rec_srv r)
  show ?thesis
  proof (cases "map_of (mon_live s) (rec_name r)")
    case None
    then have "rec_name r \<notin> keys (mon_live s)" by (simp add: map_of_keys)
    with None Rec_srv show ?thesis by (simp add: handle_expired_srv_def)
  next
    case (Some svc)
    then have "rec_name r \<in> keys (mon_live s)" by (metis map_of_keys option.distinct(1))
    with Some Rec_srv assms(2) mon_wf_liveD [OF assms(1) Some] show ?thesis
      by (simp add: handle_expired_srv_def Let_def mon_emit_def update_snapshot_def)
  qed
qed (auto simp: handle_expired_txt_def handle_expired_address_def Let_def mon_updated_def mon_emit_def update_snapshot_def
      fold_same [of "\<lambda>s. lost_names (mon_out s)", OF drop_live_lost] split: option.split prod.split)

lemma handle_expired_lost:
  assumes "mon_wf s" and "mo_on_lost (mon_opts s)"
  shows "\<exists>ns. lost_names (mon_out (fold (handle_expired_record now) recs s)) = lost_names (mon_out s) @ ns \<and>
    distinct ns \<and> set ns = keys (mon_live s) \<inter> \<Union> (srv_owner ` set recs)"
  using assms
proof (induction recs arbitrary: s)
  case (Cons rec recs)
  let ?s = "handle_expired_record now rec s"
  have k: "mon_wf ?s" "tracks s ?s" using mon_keepsD [OF handle_expired_record_keeps Cons.prems(1)] by simp_all
  then have "mo_on_lost (mon_opts ?s)" using Cons.prems(2) by (simp add: tracks_def)
  with Cons.IH [OF k(1)] obtain ns where ns: "lost_names (mon_out (fold (handle_expired_record now) recs ?s)) = lost_names (mon_out ?s) @ ns"
    "distinct ns" "set ns = (keys (mon_live s) - srv_owner rec) \<inter> \<Union> (srv_owner ` set recs)"
    by (auto simp: handle_expired_record_keys)
  let ?n = "case rec of Rec_srv r \<Rightarrow> if rec_name r \<in> keys (mon_live s) then [rec_name r] else [] | _ \<Rightarrow> []"
  have "distinct (?n @ ns) \<and> set (?n @ ns) = keys (mon_live s) \<inter> \<Union> (srv_owner ` set (rec # recs))"
    using ns(2,3) by (cases rec) auto
  moreover have "lost_names (mon_out (fold (handle_expired_record now) (rec # recs) s)) = lost_names (mon_out s) @ ?n @ ns"
    using ns(1) handle_expired_record_lost [OF Cons.prems] by simp
  ultimately show ?case by blast
qed simp

lemma names_live: "mon_wf s \<Longrightarrow> in_sync s \<Longrightarrow> rs_instance_name ` set (services s) = keys (mon_live s)"
  using arg_cong [OF services_names [of s], of set] by (simp add: keys_def)

lemma expire_names:
  assumes "mon_wf s" and "in_sync s" and "has_on_expired (cache_opts (mon_cache s))"
  shows "rs_instance_name ` set (services (expire now s)) = rs_instance_name ` set (services s) - expired_srvs now (mon_cache s)"
proof -
  have "mon_wf (expire now s)" "in_sync (expire now s)" using mon_keepsD(1) [OF expire_keeps assms(1)] expire_sync [OF assms(1,2)] by simp_all
  then show ?thesis
    by (simp add: names_live assms(1,2) expire_records [OF assms(3)] handle_expired_keys expired_srvs_def)
qed

lemma cached_entry:
  assumes "wf_cache c" and "cached c (identity (Rec_srv r)) = Some e"
  obtains r' where "(\<lparr>rnt_name = rec_name r, rnt_type = Type_srv\<rparr>, e) \<in> set (m_entries c)" "ie_record e = Rec_srv r'" "rec_name r' = rec_name r"
proof -
  have wf: "wf_entries (m_entries c)" using assms(1) by (simp add: wf_cache_def)
  have k: "identity (Rec_srv r) = identity (ie_record e)" "(\<lparr>rnt_name = rec_name r, rnt_type = Type_srv\<rparr>, e) \<in> set (m_entries c)"
    using entry_map_key [OF wf, of "identity (Rec_srv r)" e] assms(2) extract_name_type_identity [of "Rec_srv r"]
    by (simp_all add: cached_def del: identity.simps extract_name_type_identity)
  then obtain r' where r': "ie_record e = Rec_srv r'" by (cases "ie_record e") auto
  with k(1) have "rec_name r' = rec_name r" by (simp add: strip_base_eq)
  with that k(2) r' show ?thesis by blast
qed

lemma expired_cached:
  assumes "wf_cache c" and "cached c (identity (Rec_srv r)) = Some e" and "is_expired e now"
  shows "rec_name r \<in> expired_srvs now c"
proof -
  obtain r' where "(\<lparr>rnt_name = rec_name r, rnt_type = Type_srv\<rparr>, e) \<in> set (m_entries c)" "ie_record e = Rec_srv r'" "rec_name r' = rec_name r"
    using cached_entry [OF assms(1,2)] .
  with assms(3) show ?thesis unfolding expired_srvs_def expired_records_def by force
qed

lemma unexpired_found:
  assumes "wf_cache c" and "cached c (identity (Rec_srv r)) = Some e" and "\<not> is_expired e now"
  shows "find_entries (rec_name r) Type_srv now (fst (erase_expired now c)) \<noteq> []"
proof -
  obtain r' where "(\<lparr>rnt_name = rec_name r, rnt_type = Type_srv\<rparr>, e) \<in> set (m_entries c)"
    using cached_entry [OF assms(1,2)] .
  with assms(3) show ?thesis by (force simp: find_entries_def erase_expired_def erase_loop_eq)
qed

section \<open>An example\<close>

text \<open>The state after the announcement of the example service: it is live and its SRV record is cached.\<close>

lemma handled_keeps_cached:
  assumes "cache_reachable opts (mon_cache s)" and "cached (mon_cache s) i = Some e" and "ie_origin e = sender" and "i \<notin> identity ` set recs"
  shows "cached (mon_cache (handled sender now recs s)) i = Some e"
  using assms(1,2,4)
proof (induction recs arbitrary: s)
  case (Cons rec recs)
  show ?case
  proof (cases "is_relevant rec s")
    case True
    let ?s = "process_record rec now (cache_record rec sender now s)"
    have c: "mon_cache ?s = fst (insert_record rec sender now now (mon_hint s 0) (mon_cache s))" by (simp add: cache_record_cache)
    have "cached (mon_cache ?s) i = Some e" "cache_reachable opts (mon_cache ?s)"
      unfolding c using same_origin_not_flushed [OF Cons.prems(1,2) assms(3)] cache_reachable.inserted [OF Cons.prems(1)] Cons.prems(3) by auto
    with Cons.IH [of ?s] Cons.prems(3) show ?thesis unfolding handled_simps(2) [OF True] by auto
  next
    case False
    then have "handled sender now (rec # recs) s = handled sender now recs s" by (simp add: handled_def handle_record_def [of _ _ rec])
    with Cons show ?thesis by simp
  qed
qed (simp add: handled_simps(1))

lemma announced_srv_cached:
  assumes "map_of (mon_watches s) (rec_name p) \<noteq> None" and "map_of (mon_partial s) (ptr_name p) = None" and "map_of (mon_live s) (ptr_name p) = None"
    and "rec_name v = ptr_name p" and "cache_reachable opts (mon_cache s)" and "Rec_srv (strip_base v) \<notin> identity ` set recs"
  shows "\<exists>c. cache_opts c = opts \<and>
    cached (mon_cache (handled sender now (Rec_ptr p # Rec_srv v # recs) s)) (identity (Rec_srv v)) = Some (fresh_entry (Rec_srv v) sender now c)"
proof -
  let ?t = "process_ptr p (cache_record (Rec_ptr p) sender now s)"
  have rel: "is_relevant (Rec_ptr p) s" "is_relevant (Rec_srv v) ?t"
    using assms by (simp_all add: is_relevant_def process_ptr_def Let_def map_of_snoc del: map_of_append)
  let ?u = "process_srv v now (cache_record (Rec_srv v) sender now ?t)"
  have t: "cache_reachable opts (mon_cache ?t)"
    using assms(5) cache_record_evolves [of s "Rec_ptr p" sender now] process_record_cache [of "Rec_ptr p" now] by (simp add: cache_evolves_def)
  have u: "mon_cache ?u = fst (insert_record (Rec_srv v) sender now now (mon_hint ?t 0) (mon_cache ?t))"
    using process_record_cache [of "Rec_srv v" now] by (simp add: cache_record_cache)
  have "cached (mon_cache ?u) (identity (Rec_srv v)) = Some (fresh_entry (Rec_srv v) sender now (mon_cache ?t))"
    unfolding u using insert_record_cached [of "mon_cache ?t"] reachable_wf [OF t] by simp
  from handled_keeps_cached [OF _ this, of opts sender recs now] cache_reachable.inserted [OF t] u assms(6)
  have "cached (mon_cache (handled sender now recs ?u)) (identity (Rec_srv v)) = Some (fresh_entry (Rec_srv v) sender now (mon_cache ?t))"
    by (simp add: fresh_entry_def)
  moreover have "handled sender now (Rec_ptr p # Rec_srv v # recs) s = handled sender now recs ?u"
    using rel by (simp add: handled_simps(2))
  ultimately show ?thesis using reachable_wf [OF t] by auto
qed

lemma handled_refresh:
  assumes "list_all (\<lambda>r. case r of Rec_srv _ \<Rightarrow> False | _ \<Rightarrow> True) recs"
  shows "mon_refresh (handled sender now recs s) = mon_refresh s"
  using assms
proof (induction recs arbitrary: s)
  case (Cons rec recs)
  have c: "mon_refresh (check_resolved now n s) = mon_refresh s" for n s
    by (simp add: check_resolved_def Let_def mon_emit_def update_snapshot_def split: option.split)
  have a: "mon_refresh (add_live_address get upd owner addr t now n s) = mon_refresh s" for get upd owner addr t n s
    by (simp add: add_live_address_def Let_def update_snapshot_def mon_updated_def mon_emit_def split: option.split)
  have p: "mon_refresh (process_address_record get upd owner addr t now s) = mon_refresh s" for get upd owner addr t s
    by (simp add: process_address_cases Let_def extend_partials_def fold_same [of mon_refresh, OF c] fold_same [of mon_refresh, OF a])
  have "mon_refresh (process_record rec now (cache_record rec sender now s)) = mon_refresh s"
    using Cons.prems
    by (cases rec) (simp_all add: process_ptr_def process_a_def process_aaaa_def process_txt_def p Let_def mon_emit_def update_snapshot_def
        mon_updated_def cache_record_def split: option.split prod.split)
  with Cons show ?case
    by (cases "is_relevant rec s") (simp_all add: handled_simps(2), simp add: handled_def handle_record_def [of _ _ rec])
qed (simp add: handled_simps(1))

definition example_packet :: bytes where
  "example_packet = build_dns_response (\<lambda>_. None) example_info Type_ptr default_service_options 0xFFFFFFFF"

text \<open>The records of the example packet, and the state that it leads to.\<close>

lemma example_step:
  obtains p v recs l l' s where "rec_name p = service_type example_info" "ptr_name p = service_name example_info"
    "rec_name v = service_name example_info" "rec_ttl v > 0"
    "list_all (\<lambda>r. case r of Rec_srv _ \<Rightarrow> False | _ \<Rightarrow> True) recs"
    "walk_dns_frame example_packet (rm_sender from_responder) = Some (Rec_ptr p # Rec_srv v # recs)"
    "monitor_reachable example_monitor s"
    "s = mon_put_loop l' (handled (rm_sender from_responder) 1000000 (Rec_ptr p # Rec_srv v # recs) (mon_put_loop l watching))"
proof -
  let ?p6 = "\<lambda>_ :: string. None :: bytes option" and ?from = "rm_sender from_responder"
  obtain an ar where secs: "response_sections ?p6 example_info Type_ptr default_service_options 0xFFFFFFFF = (an, ar)" by fastforce
  obtain p v as bs ts where r:
    "List.map_filter (rr_decoded ?from) (an @ ar) = Rec_ptr p # Rec_srv v # map Rec_a as @ map Rec_aaaa bs @ map Rec_txt ts"
    "rec_name p = service_type example_info" "ptr_name p = service_name example_info" "rec_name v = service_name example_info"
    "rec_ttl v = rr_ttl (hd (srv_rrs example_info default_service_options 0xFFFFFFFF))"
    using ptr_records [OF secs, of ?from] by metis
  let ?recs = "map Rec_a as @ map Rec_aaaa bs @ map Rec_txt ts"
  have w: "walk_dns_frame example_packet ?from = Some (Rec_ptr p # Rec_srv v # ?recs)"
    using walk_response [OF example_announceable, of ?p6 Type_ptr] secs r(1) by (simp add: example_packet_def inet_pton_width_def)
  obtain l l' s where s: "monitor_step (Mev_packet from_responder example_packet) 1000000 watching = Some s"
    "s = mon_put_loop l' (handled ?from 1000000 (Rec_ptr p # Rec_srv v # ?recs) (mon_put_loop l watching))"
    using monitor_receives [OF watching_receives w] by blast
  have ttl: "rec_ttl v > 0" unfolding r(5) by code_simp
  have nosrv: "list_all (\<lambda>r. case r of Rec_srv _ \<Rightarrow> False | _ \<Rightarrow> True) ?recs" by (auto simp: list_all_iff)
  have reach: "monitor_reachable example_monitor s" by (rule monitor_next [OF watching_reachable _ s(1)]) simp
  show ?thesis by (rule that [OF r(2-4) ttl nosrv w reach s(2)])
qed

lemma watching_fresh:
  "map_of (mon_watches (mon_put_loop l watching)) (service_type example_info) \<noteq> None"
  "map_of (mon_partial (mon_put_loop l watching)) n = None" "map_of (mon_live (mon_put_loop l watching)) n = None"
  by (simp_all add: watching_def example_monitor_def new_monitor_def example_info_def)

lemma example_found:
  "\<exists>s v c. monitor_reachable example_monitor s \<and> rec_name v = service_name example_info \<and>
    service_name example_info \<in> rs_instance_name ` set (services s) \<and> cache_opts c = cache_opts (mon_cache s) \<and>
    cached (mon_cache s) (identity (Rec_srv v)) = Some (fresh_entry (Rec_srv v) (rm_sender from_responder) 1000000 c)"
proof -
  let ?n = "service_name example_info" and ?from = "rm_sender from_responder"
  have w6: "inet_pton_width 16 (\<lambda>_. None)" by (simp add: inet_pton_width_def)
  obtain p v recs l l' s where r: "rec_name p = service_type example_info" "ptr_name p = ?n" "rec_name v = ?n"
    "list_all (\<lambda>r. case r of Rec_srv _ \<Rightarrow> False | _ \<Rightarrow> True) recs"
    "walk_dns_frame example_packet ?from = Some (Rec_ptr p # Rec_srv v # recs)" "monitor_reachable example_monitor s"
    "s = mon_put_loop l' (handled ?from 1000000 (Rec_ptr p # Rec_srv v # recs) (mon_put_loop l watching))"
    using example_step by metis
  have "mon_ok s"
    using monitor_reachable_steps [OF r(6) [unfolded example_monitor_def] new_monitor_ok [OF default_sane]] by simp
  moreover have "resolved ?n (announced_service (\<lambda>_. None) example_info) (handled ?from 1000000 (Rec_ptr p # Rec_srv v # recs) (mon_put_loop l watching))"
    using announcement_resolves [OF example_announceable w6 watching_fresh, of default_service_options "0xFFFFFFFF" ?from 1000000 l]
      example_ipv4 r(5) by (simp add: example_packet_def)
  then have "?n \<in> keys (mon_live s)" using map_of_keys [of "mon_live s" ?n] by (simp add: r(7) resolved_def)
  ultimately have live: "?n \<in> rs_instance_name ` set (services s)" by (simp add: names_live mon_ok_def)
  have cw: "cache_reachable (default_cache_options\<lparr>has_on_expired := True\<rparr>) (mon_cache (mon_put_loop l watching))"
    using monitor_reachable_cache [OF watching_reachable [unfolded example_monitor_def]] by (simp add: mon_put_loop_def)
  have "Rec_srv (strip_base v) \<notin> identity ` set recs"
  proof
    assume "Rec_srv (strip_base v) \<in> identity ` set recs"
    then obtain x where "x \<in> set recs" "identity x = Rec_srv (strip_base v)" by force
    with r(4) show False by (cases x) (auto simp: list_all_iff)
  qed
  from announced_srv_cached [OF _ _ _ _ cw this, of p ?from 1000000] watching_fresh r(1-3)
  obtain c where c: "cache_opts c = default_cache_options\<lparr>has_on_expired := True\<rparr>"
    "cached (mon_cache s) (identity (Rec_srv v)) = Some (fresh_entry (Rec_srv v) ?from 1000000 c)"
    by (auto simp: r(7) mon_put_loop_def)
  have "cache_opts (mon_cache s) = default_cache_options\<lparr>has_on_expired := True\<rparr>"
    using reachable_wf [OF monitor_reachable_cache [OF r(6) [unfolded example_monitor_def]]] by simp
  with r(3,6) live c show ?thesis by metis
qed

section \<open>Properties\<close>

text \<open>
  C15: Services are lost when their SRV record expires. In every reachable state, the expiry sweep of the
  scheduler removes exactly those services from \<open>services()\<close> for which some SRV record in the cache has
  expired, and reports exactly these instances to \<open>on_lost\<close>, each of them once; the cache keeps exactly the
  records that have not expired. A service is lost even if its instance has another SRV record that is
  still valid. Nothing is said of the reason that is reported.
\<close>

theorem expiry_loses_services:
  assumes "sane_intervals mopts" and "monitor_reachable (new_monitor p6 mcast opts mopts copts jitter hint) s"
  shows "rs_instance_name ` set (services (expire now s)) = rs_instance_name ` set (services s) - expired_srvs now (mon_cache s) \<and>
    (\<exists>es. mon_out (expire now s) = mon_out s @ es \<and>
      (mo_on_lost opts \<longrightarrow> distinct (lost_names es) \<and>
         set (lost_names es) = rs_instance_name ` set (services s) \<inter> expired_srvs now (mon_cache s))) \<and>
    m_entries (mon_cache (expire now s)) = filter (\<lambda>(_, e). \<not> is_expired e now) (m_entries (mon_cache s))"
proof -
  have ok: "mon_ok s" "mon_opts s = opts"
    using monitor_reachable_steps [OF assms(2) new_monitor_ok [OF assms(1)]] by (simp_all add: tracks_def new_monitor_def)
  then have wf: "mon_wf s" "in_sync s" by (simp_all add: mon_ok_def)
  have c: "has_on_expired (cache_opts (mon_cache s))"
    using reachable_wf [OF monitor_reachable_cache [OF assms(2)]] by simp
  let ?t = "s\<lparr>mon_cache := fst (erase_expired now (mon_cache s))\<rparr>"
  have e: "expire now s = fold (handle_expired_record now) (expired_records now (mon_cache s)) ?t" by (rule expire_records [OF c])
  obtain es where es: "mon_out (expire now s) = mon_out s @ es" using mon_keepsD(2) [OF expire_keeps wf(1)] by (auto simp: tracks_def)
  have "distinct (lost_names es) \<and> set (lost_names es) = keys (mon_live s) \<inter> expired_srvs now (mon_cache s)" if "mo_on_lost opts"
    using handle_expired_lost [of ?t now "expired_records now (mon_cache s)"] that wf(1) ok(2) es
    by (auto simp: e expired_srvs_def)
  moreover have "m_entries (mon_cache (expire now s)) = filter (\<lambda>(_, e). \<not> is_expired e now) (m_entries (mon_cache s))"
    by (simp add: expire_cache erase_expired_def erase_loop_eq)
  ultimately show ?thesis using es names_live [OF wf] expire_names [OF wf c] by auto
qed

theorem expiry_loses_services_witness:
  "\<exists>s now es. monitor_reachable example_monitor s \<and> service_name example_info \<in> rs_instance_name ` set (services s) \<and>
    service_name example_info \<notin> rs_instance_name ` set (services (expire now s)) \<and>
    mon_out (expire now s) = mon_out s @ es \<and> service_name example_info \<in> set (lost_names es) \<and> distinct (lost_names es)"
proof -
  obtain s v c where s: "monitor_reachable example_monitor s" "rec_name v = service_name example_info"
    "service_name example_info \<in> rs_instance_name ` set (services s)" "cache_opts c = cache_opts (mon_cache s)"
    "cached (mon_cache s) (identity (Rec_srv v)) = Some (fresh_entry (Rec_srv v) (rm_sender from_responder) 1000000 c)"
    using example_found by metis
  let ?now = "1000000 + seconds (uint (effective_ttl (cache_opts c) (rec_ttl v)))"
  have "wf_cache (mon_cache s)" using reachable_wf [OF monitor_reachable_cache [OF s(1) [unfolded example_monitor_def]]] by simp
  from expired_cached [OF this s(5), of ?now] have x: "service_name example_info \<in> expired_srvs ?now (mon_cache s)"
    by (simp add: is_expired_def fresh_entry_def extract_ttl_def s(2))
  note e = expiry_loses_services [OF default_sane s(1) [unfolded example_monitor_def], of ?now]
  have "service_name example_info \<notin> rs_instance_name ` set (services (expire ?now s))" using e x by simp
  moreover obtain es where "mon_out (expire ?now s) = mon_out s @ es" "distinct (lost_names es)"
    "service_name example_info \<in> set (lost_names es)"
    using e x s(3) by (auto simp: all_callbacks_def)
  ultimately show ?thesis using s(1,3) by blast
qed

text \<open>
  C19: A service that changes its SRV record is lost while it is still announced. When the sender of a cached
  SRV record announces a different SRV record for the same instance (a new port or host), the old record
  stays in the cache, because a flush spares the records of the sender itself; when the TTL of the old
  record ends, the expiry sweep drops the service from \<open>services()\<close>, although the cache then still holds
  the valid new SRV record.
\<close>

theorem moved_service_lost:
  assumes "sane_intervals mopts" and "monitor_reachable (new_monitor p6 mcast opts mopts copts jitter hint) s"
    and "rec_name r \<in> rs_instance_name ` set (services s)" and "cached (mon_cache s) (identity (Rec_srv r)) = Some e" and "ie_origin e = sender"
    and "rec_name r' = rec_name r" and "identity (Rec_srv r') \<noteq> identity (Rec_srv r)"
    and "is_expired e now2" and "now2 < now1 + seconds (uint (effective_ttl (cache_opts (mon_cache s)) (rec_ttl r')))"
  shows "rec_name r \<in> rs_instance_name ` set (services (handled sender now1 [Rec_srv r'] s)) \<and>
    rec_name r \<notin> rs_instance_name ` set (services (expire now2 (handled sender now1 [Rec_srv r'] s))) \<and>
    find_entries (rec_name r) Type_srv now2 (mon_cache (expire now2 (handled sender now1 [Rec_srv r'] s))) \<noteq> []"
proof -
  have "mon_ok s" using monitor_reachable_steps [OF assms(2) new_monitor_ok [OF assms(1)]] by simp
  then have wf: "mon_wf s" "in_sync s" by (simp_all add: mon_ok_def)
  let ?s = "handled sender now1 [Rec_srv r'] s" and ?c = "fst (insert_record (Rec_srv r') sender now1 now1 (mon_hint s 0) (mon_cache s))"
  note cr = monitor_reachable_cache [OF assms(2)]
  have wc: "wf_cache (mon_cache s)" "wf_cache ?c" "has_on_expired (cache_opts ?c)"
    using reachable_wf [OF cr] reachable_wf [OF cache_reachable.inserted [OF cr]] by auto
  have n: "rec_name r \<in> keys (mon_live s)" using assms(3) by (simp add: names_live wf)
  have s: "?s = process_srv r' now1 (cache_record (Rec_srv r') sender now1 s)"
    using n map_of_keys [of "mon_live s" "rec_name r"] assms(6) by (simp add: handled_simps is_relevant_def)
  have c: "mon_cache ?s = ?c"
    using process_record_cache [of "Rec_srv r'" now1] by (simp add: s cache_record_cache)
  have wf': "mon_wf ?s" "in_sync ?s" unfolding handled_def
    by (rule conjunct1 [OF handle_records_keeps [OF wf(1)]], rule handle_records_sync [OF wf])
  have "map_of (mon_partial s) (rec_name r) = None"
    using wf(1) n map_of_keys [of "mon_partial s" "rec_name r"] by (auto simp: mon_wf_def)
  then have "keys (mon_live ?s) = keys (mon_live s)"
    using assms(6) by (simp add: s process_srv_cases Let_def split: option.split)
  then have a: "rec_name r \<in> rs_instance_name ` set (services ?s)" using n by (simp add: names_live wf')
  have "cached ?c (identity (Rec_srv r)) = Some e"
    using same_origin_not_flushed [OF cr assms(4,5) assms(7) [symmetric]] .
  from expired_cached [OF wc(2) this assms(8)]
  have b: "rec_name r \<notin> rs_instance_name ` set (services (expire now2 ?s))"
    using expire_names [OF wf'] wc(3) by (simp add: c)
  have "cached ?c (identity (Rec_srv r')) = Some (fresh_entry (Rec_srv r') sender now1 (mon_cache s))"
    using insert_record_cached [OF wc(1)] by simp
  moreover have "\<not> is_expired (fresh_entry (Rec_srv r') sender now1 (mon_cache s)) now2"
    using assms(9) by (simp add: is_expired_def fresh_entry_def extract_ttl_def)
  ultimately have "find_entries (rec_name r) Type_srv now2 (mon_cache (expire now2 ?s)) \<noteq> []"
    using unexpired_found [OF wc(2), of r'] unfolding assms(6) by (simp only: expire_cache c) blast
  with a b show ?thesis by blast
qed

theorem moved_service_lost_witness:
  "\<exists>s (r :: record_srv) r' now1 now2. monitor_reachable example_monitor s \<and>
    rec_name r \<in> rs_instance_name ` set (services (handled (rm_sender from_responder) now1 [Rec_srv r'] s)) \<and>
    rec_name r \<notin> rs_instance_name ` set (services (expire now2 (handled (rm_sender from_responder) now1 [Rec_srv r'] s)))"
proof -
  obtain s v c where s: "monitor_reachable example_monitor s" "rec_name v = service_name example_info"
    "service_name example_info \<in> rs_instance_name ` set (services s)" "cache_opts c = cache_opts (mon_cache s)"
    "cached (mon_cache s) (identity (Rec_srv v)) = Some (fresh_entry (Rec_srv v) (rm_sender from_responder) 1000000 c)"
    using example_found by metis
  let ?e = "fresh_entry (Rec_srv v) (rm_sender from_responder) 1000000 c" and ?v = "v\<lparr>srv_port := srv_port v + 1\<rparr>"
  let ?ttl = "seconds (uint (effective_ttl (cache_opts (mon_cache s)) (rec_ttl v)))"
  have e: "is_expired ?e (1000000 + ?ttl)" using s(4) by (simp add: is_expired_def fresh_entry_def extract_ttl_def)
  have h: "rec_name v \<in> rs_instance_name ` set (services s)" "ie_origin ?e = rm_sender from_responder" "rec_name ?v = rec_name v"
    "identity (Rec_srv ?v) \<noteq> identity (Rec_srv v)" "1000000 + ?ttl < 2000000 + seconds (uint (effective_ttl (cache_opts (mon_cache s)) (rec_ttl ?v)))"
    using s(2,3) by (simp_all add: fresh_entry_def strip_base_eq)
  show ?thesis
    using moved_service_lost [OF default_sane s(1) [unfolded example_monitor_def] h(1) s(5) h(2-4) e h(5)] s(1) by blast
qed

text \<open>The reports of \<open>do_unwatch\<close>, in the order of the live services.\<close>

lemma lose_all_out:
  assumes "distinct ns" and "set ns \<subseteq> keys (mon_live s)" and "mo_on_lost (mon_opts s)"
  shows "mon_out (fold lose_unwatched ns s) = mon_out s @ map (\<lambda>n. M_lost (the (map_of (mon_live s) n)) Loss_unwatched) ns"
  using assms
proof (induction ns arbitrary: s)
  case (Cons n ns)
  obtain svc where svc: "map_of (mon_live s) n = Some svc" using Cons.prems(2) map_of_keys [of "mon_live s" n] by auto
  have "mon_out (lose_unwatched n s) = mon_out s @ [M_lost svc Loss_unwatched]"
    using svc Cons.prems(3) by (simp add: lose_unwatched_def Let_def mon_emit_def)
  moreover have "map (\<lambda>m. M_lost (the (map_of (mon_live (lose_unwatched n s)) m)) Loss_unwatched) ns
      = map (\<lambda>m. M_lost (the (map_of (mon_live s) m)) Loss_unwatched) ns"
    using Cons.prems(1) by (auto simp: map_of_drop_key)
  moreover have "set ns \<subseteq> keys (mon_live (lose_unwatched n s))" using Cons.prems(1,2) by auto
  ultimately show ?case using Cons.IH [of "lose_unwatched n s"] Cons.prems svc by simp
qed simp

text \<open>
  Unwatching a type drops exactly its services. In every reachable state, unwatching a watched type
  removes the services of that type from \<open>services()\<close> and keeps all others; \<open>on_lost\<close> is called once for each
  removed service, with the reason unwatched, and nothing else is reported; the type is not
  watched any more, the other types are, and no incomplete instance of the type remains.
\<close>

lemma unwatch_drops_services:
  assumes "sane_intervals mopts" and "monitor_reachable (new_monitor p6 mcast opts mopts copts jitter hint) s"
    and "map_of (mon_watches s) (dns_name svc) \<noteq> None" and "mo_on_lost opts"
  shows "\<exists>ns. set ns = {n \<in> rs_instance_name ` set (services s). map_of (mon_instance_type s) n = Some (dns_name svc)} \<and> distinct ns \<and>
    mon_out (do_unwatch svc now s) = mon_out s @ map (\<lambda>n. M_lost (the (map_of (mon_live s) n)) Loss_unwatched) ns \<and>
    rs_instance_name ` set (services (do_unwatch svc now s)) = rs_instance_name ` set (services s) - set ns \<and>
    (\<forall>t. map_of (mon_watches (do_unwatch svc now s)) t = (if t = dns_name svc then None else map_of (mon_watches s) t)) \<and>
    list_all (\<lambda>(_, inc). inc_service_type inc \<noteq> dns_name svc) (mon_partial (do_unwatch svc now s))"
proof -
  let ?ty = "dns_name svc"
  have ok: "mon_ok s" "mon_opts s = opts"
    using monitor_reachable_steps [OF assms(2) new_monitor_ok [OF assms(1)]] by (simp_all add: tracks_def new_monitor_def)
  then have wf: "mon_wf s" "in_sync s" by (simp_all add: mon_ok_def)
  obtain b where b: "map_of (mon_watches s) ?ty = Some b" using assms(3) by blast
  let ?ns = "unwatched_names ?ty s"
  have d: "distinct ?ns" "set ?ns \<subseteq> keys (mon_live s)"
    using wf(1) by (auto simp: unwatched_names_def mon_wf_def distinct_map_filter keys_def)
  have ns: "set ?ns = {n \<in> rs_instance_name ` set (services s). map_of (mon_instance_type s) n = Some ?ty}"
    by (auto simp: names_live [OF wf] unwatched_names_def keys_def image_iff)
  have wf': "mon_wf (do_unwatch svc now s)" "in_sync (do_unwatch svc now s)"
    using mon_keepsD(1) [OF do_unwatch_keeps wf(1)] do_unwatch_sync [OF wf(2)] by simp_all
  have "mon_live (do_unwatch svc now s) = filter (\<lambda>x. fst x \<notin> set ?ns) (mon_live s)"
    by (simp add: do_unwatch_cases Let_def lose_all_live b)
  then have "keys (mon_live (do_unwatch svc now s)) = keys (mon_live s) - set ?ns" by (auto simp: keys_def)
  moreover have "mon_out (do_unwatch svc now s) = mon_out s @ map (\<lambda>n. M_lost (the (map_of (mon_live s) n)) Loss_unwatched) ?ns"
    using lose_all_out [OF d] assms(4) ok(2) by (simp add: do_unwatch_cases Let_def b)
  moreover have "mon_watches (do_unwatch svc now s) = drop_key ?ty (mon_watches s)"
    "mon_partial (do_unwatch svc now s) = filter (\<lambda>(_, inc). inc_service_type inc \<noteq> ?ty) (mon_partial s)"
    by (simp_all add: do_unwatch_cases Let_def b)
  ultimately show ?thesis
    using ns d(1) by (intro exI [of _ ?ns]) (simp add: names_live [OF wf'] names_live [OF wf] map_of_drop_key list_all_iff)
qed

lemma unwatch_drops_services_example:
  "map_of (mon_watches (do_unwatch ''_http._tcp.local'' 7 watching)) (dns_name ''_http._tcp.local'') = None \<and>
   rs_instance_name ` set (services (do_unwatch ''_http._tcp.local'' 7 watching)) \<subseteq> rs_instance_name ` set (services watching)"
proof -
  have "map_of (mon_watches watching) (dns_name ''_http._tcp.local'') \<noteq> None" by (simp add: watching_def)
  from unwatch_drops_services [OF default_sane watching_reachable [unfolded example_monitor_def] this, of 7] show ?thesis
    by (auto simp: all_callbacks_def)
qed

end
