(* ===== verification/Monitor_Schedule.thy ===== *)
theory Monitor_Schedule
  imports Monitor_Loss
begin

text \<open>
  When the service monitor sends: queries that are split over several packets, and the ticks of the
  scheduler.
\<close>

section \<open>Queries over several packets\<close>

definition sent_packets :: "endpoint \<Rightarrow> bytes list \<Rightarrow> monitor_effect list" where
  "sent_packets ep packets = map (M_sent ep) packets"

lemma send_now:
  assumes "tc_continuation_delay (mon_mdns_opts s) \<le> 0" and "\<not> mon_stopped s"
  shows "mon_out (send_tc_packets packets idx now s) = mon_out s @ sent_packets (mon_multicast_ep s) (drop idx packets)"
  using assms
proof (induction packets idx now s rule: send_tc_packets.induct)
  case (1 packets idx now s)
  show ?case
  proof (cases "idx < length packets")
    case True
    let ?s = "mon_emit (M_sent (mon_multicast_ep s) (packets ! idx)) s"
    have d: "drop idx packets = packets ! idx # drop (Suc idx) packets" using True by (simp add: Cons_nth_drop_Suc)
    show ?thesis
    proof (cases "idx + 1 < length packets")
      case True
      with 1 d show ?thesis by (subst send_tc_packets.simps) (simp add: Let_def mon_emit_def sent_packets_def)
    qed (use True 1 d in \<open>subst send_tc_packets.simps, simp add: Let_def mon_emit_def sent_packets_def\<close>)
  qed (simp add: send_tc_packets.simps sent_packets_def)
qed

text \<open>With a delay, each firing of the timer sends the next packet.\<close>

lemma send_one:
  assumes "0 < tc_continuation_delay (mon_mdns_opts s)" and "\<not> mon_stopped s" and "idx < length packets"
  shows "send_tc_packets packets idx now s =
    (let u = mon_emit (M_sent (mon_multicast_ep s) (packets ! idx)) s
     in if idx + 1 < length packets
        then u\<lparr>mon_tc_timer := arm now (tc_continuation_delay (mon_mdns_opts s) div 1000) (packets, idx) (mon_tc_timer u)\<rparr> else u)"
  using assms by (subst send_tc_packets.simps) (simp add: Let_def mon_emit_def)

lemma tc_fires:
  assumes "mon_tc_timer s = arm t0 ms (packets, idx) tm" and "t0 + ms * 1000000 \<le> now" and "\<not> mon_stopped s"
  shows "\<exists>tm'. fire_tc_send_timer now s = send_tc_packets packets (idx + 1) now (s\<lparr>mon_tc_timer := tm'\<rparr>)"
  using assms by (auto simp: fire_tc_send_timer_def arm_def try_fire_def expires_after_def async_wait_def cancel_def Let_def split: prod.split)

fun apart :: "int \<Rightarrow> int \<Rightarrow> int list \<Rightarrow> bool" where
  "apart step t [] \<longleftrightarrow> True"
| "apart step t (u # us) \<longleftrightarrow> t + step \<le> u \<and> apart step u us"

lemma send_chain:
  assumes "0 < tc_continuation_delay (mon_mdns_opts s)" and "\<not> mon_stopped s" and "idx < length packets"
    and "length ts = length packets - idx - 1" and "apart (tc_continuation_delay (mon_mdns_opts s) div 1000 * 1000000) now ts"
  shows "mon_out (fold fire_tc_send_timer ts (send_tc_packets packets idx now s)) = mon_out s @ sent_packets (mon_multicast_ep s) (drop idx packets)"
  using assms
proof (induction ts arbitrary: idx now s)
  case Nil
  then have "drop idx packets = [packets ! idx]" by (simp add: Cons_nth_drop_Suc [symmetric])
  with Nil send_one [of s idx packets now] show ?case by (simp add: mon_emit_def sent_packets_def Let_def)
next
  case (Cons u us)
  let ?ms = "tc_continuation_delay (mon_mdns_opts s) div 1000"
  let ?e = "mon_emit (M_sent (mon_multicast_ep s) (packets ! idx)) s"
  let ?s = "?e\<lparr>mon_tc_timer := arm now ?ms (packets, idx) (mon_tc_timer ?e)\<rparr>"
  have more: "idx + 1 < length packets" using Cons.prems(4) by simp
  have s1: "send_tc_packets packets idx now s = ?s" using send_one [OF Cons.prems(1-3)] more by (simp add: Let_def)
  have "mon_tc_timer ?s = arm now ?ms (packets, idx) (mon_tc_timer ?e)" "now + ?ms * 1000000 \<le> u" "\<not> mon_stopped ?s"
    using Cons.prems by (simp_all add: mon_emit_def)
  then obtain tm where f: "fire_tc_send_timer u ?s = send_tc_packets packets (idx + 1) u (?s\<lparr>mon_tc_timer := tm\<rparr>)" using tc_fires by blast
  have "mon_out (fold fire_tc_send_timer us (send_tc_packets packets (idx + 1) u (?s\<lparr>mon_tc_timer := tm\<rparr>)))
      = mon_out (?s\<lparr>mon_tc_timer := tm\<rparr>) @ sent_packets (mon_multicast_ep (?s\<lparr>mon_tc_timer := tm\<rparr>)) (drop (idx + 1) packets)"
    using Cons.prems more by (intro Cons.IH) (simp_all add: mon_emit_def)
  moreover have "drop idx packets = packets ! idx # drop (idx + 1) packets" using more by (simp add: Cons_nth_drop_Suc)
  moreover have "fold fire_tc_send_timer (u # us) (send_tc_packets packets idx now s)
      = fold fire_tc_send_timer us (send_tc_packets packets (idx + 1) u (?s\<lparr>mon_tc_timer := tm\<rparr>))" by (simp only: fold_Cons comp_apply s1 f)
  ultimately show ?case by (simp add: mon_emit_def sent_packets_def)
qed

section \<open>Ticks\<close>

lemma next_refresh_le:
  assumes "(key, sched) \<in> set rs" and "next_idx sched < length (fire_at sched)"
  shows "\<exists>t. next_refresh rs ev = Some t \<and> t \<le> fire_at sched ! next_idx sched"
proof -
  have mono: "\<exists>t. next_refresh rs (Some x) = Some t \<and> t \<le> x" for rs x
  proof (induction rs arbitrary: x)
    case (Cons r rs)
    obtain k sc where r: "r = (k, sc)" by fastforce
    show ?case
    proof (cases "next_idx sc < length (fire_at sc) \<and> fire_at sc ! next_idx sc < x")
      case True
      then show ?thesis using Cons [of "fire_at sc ! next_idx sc"] by (auto simp: r earlier_def)
    qed (use Cons [of x] in \<open>auto simp: r earlier_def\<close>)
  qed simp
  show ?thesis
    using assms(1)
  proof (induction rs arbitrary: ev)
    case (Cons r rs)
    show ?case
    proof (cases "r = (key, sched)")
      case True
      have "\<exists>x. earlier (fire_at sched ! next_idx sched) ev = Some x \<and> x \<le> fire_at sched ! next_idx sched"
        by (auto simp: earlier_def split: option.split)
      then obtain x where "earlier (fire_at sched ! next_idx sched) ev = Some x" "x \<le> fire_at sched ! next_idx sched" by blast
      with mono [of rs x] True assms(2) show ?thesis by auto
    next
      case False
      with Cons obtain k sc where "r = (k, sc)" "(key, sched) \<in> set rs" by (cases r) auto
      with Cons.IH show ?thesis by auto
    qed
  qed simp
qed

lemma due_none: "due_points now sched = 0 \<Longrightarrow> next_idx sched < length (fire_at sched) \<Longrightarrow> now < fire_at sched ! next_idx sched"
  by (simp add: due_points_def Cons_nth_drop_Suc [symmetric] split: if_splits)

text \<open>A refresh point less than a millisecond ahead makes the delay zero.\<close>

lemma scheduler_delay_zero:
  assumes "scheduler_delay now s = Some d" and "mo_mode (mon_opts s) = Mode_discover \<or> mo_mode (mon_opts s) = Mode_ttl_refresh"
    and "(key, sched) \<in> set (mon_refresh s)" and "next_idx sched < length (fire_at sched)" and "fire_at sched ! next_idx sched < now + 1000000"
  shows "d = 0"
proof -
  obtain ev where d: "d = (let nxt = (case next_refresh (mon_refresh s) ev of None \<Rightarrow> now + seconds 1 | Some t \<Rightarrow> t)
      in if nxt < now then 0 else (nxt - now) div 1000000)"
    using assms(1,2) by (auto simp: scheduler_delay_def Let_def bind_eq_Some_conv)
  obtain t where "next_refresh (mon_refresh s) ev = Some t" "t \<le> fire_at sched ! next_idx sched"
    using next_refresh_le [OF assms(3,4)] by blast
  with d assms(5) show ?thesis by (auto simp: Let_def div_pos_pos_trivial)
qed

lemma refresh_nothing_due: "due_points now sched = 0 \<Longrightarrow> refresh_one now (key, sched) s = s"
proof -
  assume d: "due_points now sched = 0"
  have "upd_entry key (\<lambda>sc. sc\<lparr>next_idx := next_idx sc + 0\<rparr>) m = m" for m :: "(string \<times> ttl_refresh_schedule) list"
    by (simp add: upd_entry_def map_idI)
  with d show ?thesis by (simp add: refresh_one_def split: option.split)
qed

lemma refresh_all_nothing_due: "list_all (\<lambda>(_, sched). due_points now sched = 0) rs \<Longrightarrow> fold (refresh_one now) rs s = s"
  by (induction rs arbitrary: s) (auto simp: refresh_nothing_due)

lemma expire_refresh [simp]: "mon_refresh (expire now s) = mon_refresh s"
proof -
  have d: "mon_refresh (drop_live_address get upd owner addr t now n s) = mon_refresh s" for get upd owner addr t n s
    by (simp add: drop_live_address_def Let_def update_snapshot_def mon_updated_def mon_emit_def split: option.split)
  have "mon_refresh (handle_expired_record now rec s) = mon_refresh s" for rec s
    by (cases rec) (simp_all add: handle_expired_srv_def handle_expired_txt_def handle_expired_address_def Let_def mon_emit_def
        update_snapshot_def mon_updated_def fold_same [of mon_refresh, OF d] split: option.split prod.split)
  then show ?thesis by (simp add: expire_def handle_expired_def Let_def fold_same [of mon_refresh] split: prod.split option.split)
qed

definition queries_sent :: "monitor \<Rightarrow> nat" where
  "queries_sent s = length (filter is_sent (mon_out s))"

lemma only_sends_count: "only_sends s s' \<Longrightarrow> queries_sent s \<le> queries_sent s'"
  by (auto simp: only_sends_def queries_sent_def)

lemma send_ptr_query_count:
  assumes "send_ptr_query ty now s = Some s'" and "\<not> mon_stopped s"
  shows "Suc (queries_sent s) \<le> queries_sent s'"
proof -
  obtain kas packets where p: "build_dns_query_tc (mon_inet_pton6 s) ty Type_ptr kas (max_query_payload (mon_mdns_opts s)) Multicast = Some packets"
    "s' = (if packets \<noteq> [] then send_tc_packets packets 0 now s else s)"
    using assms(1) by (auto simp: send_ptr_query_def Let_def bind_eq_Some_conv split: if_splits)
  have ne: "packets \<noteq> []" using p(1) by (auto simp: build_dns_query_tc_def bind_eq_Some_conv split: if_splits)
  let ?e = "mon_emit (M_sent (mon_multicast_ep s) (packets ! 0)) s"
  have e: "Suc (queries_sent s) = queries_sent ?e" "only_sends ?e (?e\<lparr>mon_tc_timer := x\<rparr>)" for x
    by (simp_all add: queries_sent_def mon_emit_def is_sent_def only_sends_def tracking_def mon_dones_def)
  have "only_sends ?e (send_tc_packets packets 0 now s)"
    using ne assms(2) e(2) send_tc_packets_sends by (subst send_tc_packets.simps) (auto simp: Let_def)
  with only_sends_count e(1) p(2) ne show ?thesis by simp
qed

lemma sends_refresh:
  "send_ptr_query ty now s = Some s' \<Longrightarrow> mon_refresh s' = mon_refresh s"
  "arm_scheduler now s = Some s' \<Longrightarrow> mon_refresh s' = mon_refresh s"
proof -
  have t: "mon_refresh (send_tc_packets packets idx now s) = mon_refresh s" for packets idx s
  proof (induction packets idx now s rule: send_tc_packets.induct)
    case (1 packets idx now s)
    then show ?case by (subst send_tc_packets.simps) (auto simp: Let_def mon_emit_def)
  qed
  show "mon_refresh s' = mon_refresh s" if "send_ptr_query ty now s = Some s'"
    using that by (auto simp: send_ptr_query_def Let_def bind_eq_Some_conv t split: if_splits)
  show "mon_refresh s' = mon_refresh s" if "arm_scheduler now s = Some s'"
    using that by (auto simp: arm_scheduler_def bind_eq_Some_conv)
qed

text \<open>The loop over the watched types queries each of them and advances its backoff once.\<close>

lemma query_watches_all:
  assumes "query_watches ts now s = Some s'" and "\<not> mon_stopped s" and "set ts \<subseteq> keys (mon_watches s)" and "distinct ts"
  shows "queries_sent s + length ts \<le> queries_sent s' \<and> mon_refresh s' = mon_refresh s \<and>
    (\<forall>t. map_of (mon_watches s') t = (if t \<in> set ts then map_option (\<lambda>b. snd (the (advance_backoff (mon_mdns_opts s) b))) (map_of (mon_watches s) t)
      else map_of (mon_watches s) t))"
  using assms
proof (induction ts arbitrary: s)
  case (Cons t ts)
  obtain b where b: "map_of (mon_watches s) t = Some b" using Cons.prems(3) map_of_keys [of "mon_watches s" t] by auto
  then obtain i b' u where u: "advance_backoff (mon_mdns_opts s) b = Some (i, b')"
    "send_ptr_query (str t) now (s\<lparr>mon_watches := upd_entry t (\<lambda>_. b') (mon_watches s)\<rparr>) = Some u" "query_watches ts now u = Some s'"
    using Cons.prems(1) by (auto simp: bind_eq_Some_conv)
  let ?v = "s\<lparr>mon_watches := upd_entry t (\<lambda>_. b') (mon_watches s)\<rparr>"
  have o: "only_sends ?v u" by (rule send_ptr_query_sends [OF u(2)])
  then have tr: "tracking u = tracking ?v" by (simp add: only_sends_def)
  have w: "mon_watches u = upd_entry t (\<lambda>_. b') (mon_watches s)" using sends_watches(1) [OF u(2)] by simp
  have "Suc (queries_sent ?v) \<le> queries_sent u" using send_ptr_query_count [OF u(2)] Cons.prems(2) by simp
  then have q: "Suc (queries_sent s) \<le> queries_sent u" by (simp add: queries_sent_def)
  have "\<not> mon_stopped u" "mon_mdns_opts u = mon_mdns_opts s" using tracking_sels [OF tr] Cons.prems(2) by simp_all
  with Cons.IH [OF u(3)] Cons.prems(3,4) w q sends_refresh(1) [OF u(2)] b u(1) show ?case
    by (auto simp: map_of_upd_entry)
qed simp

section \<open>Properties\<close>

text \<open>
  A query that does not fit one packet is sent completely. Without a continuation delay one call sends
  all packets in order and returns; with a delay the first packet is sent at once and each later
  firing of the timer sends the next one, so that after as many firings as there are packets left,
  each at least the delay after the one before, all packets have been sent in order, none twice.
\<close>

lemma tc_packets_sent:
  assumes "\<not> mon_stopped s" and "packets \<noteq> []"
  shows "(tc_continuation_delay (mon_mdns_opts s) \<le> 0 \<longrightarrow>
      mon_out (send_tc_packets packets 0 now s) = mon_out s @ sent_packets (mon_multicast_ep s) packets) \<and>
    (0 < tc_continuation_delay (mon_mdns_opts s) \<and> length ts = length packets - 1 \<and>
       apart (tc_continuation_delay (mon_mdns_opts s) div 1000 * 1000000) now ts \<longrightarrow>
     mon_out (fold fire_tc_send_timer ts (send_tc_packets packets 0 now s)) = mon_out s @ sent_packets (mon_multicast_ep s) packets)"
  using send_now [OF _ assms(1), of packets 0 now] send_chain [OF _ assms(1), of 0 packets ts now] assms(2) by simp

lemma tc_packets_sent_example:
  "mon_out (send_tc_packets [[1], [2], [3]] 0 0 example_monitor) = sent_packets no_endpoint [[1], [2], [3]]"
  using tc_packets_sent [of example_monitor "[[1], [2], [3]]" 0 "[]"]
  by (simp add: example_monitor_def new_monitor_def default_mdns_options_def)

text \<open>
  The scheduler spins before a refresh point. In discover mode, while the next refresh point is less than
  a millisecond ahead, the delay of the scheduler is truncated to zero: a tick leaves the refresh point
  pending and re-arms the timer so that it may fire again at the same instant. And every tick,
  whatever it was scheduled for, queries all watched types and advances the backoff of each of them.
\<close>

lemma scheduler_spins:
  assumes "sane_intervals mopts" and "monitor_reachable (new_monitor p6 mcast opts mopts copts jitter hint) s"
    and "\<not> mon_stopped s" and "mo_mode opts = Mode_discover" and "distinct (map fst (mon_watches s))"
    and "list_all (\<lambda>(_, sched). due_points now sched = 0) (mon_refresh s)"
    and "(key, sched) \<in> set (mon_refresh s)" and "next_idx sched < length (fire_at sched)" and "fire_at sched ! next_idx sched < now + 1000000"
  shows "\<exists>s'. on_scheduler_tick now s = Some s' \<and> mon_refresh s' = mon_refresh s \<and> snd (try_fire now (mon_scheduler s')) = Some () \<and>
    queries_sent s + length (mon_watches s) \<le> queries_sent s' \<and>
    (\<forall>t b. map_of (mon_watches s) t = Some b \<longrightarrow> map_of (mon_watches s') t = Some (snd (the (advance_backoff (mon_mdns_opts s) b))))"
proof -
  have ok: "mon_ok s" "mon_opts s = opts"
    using monitor_reachable_steps [OF assms(2) new_monitor_ok [OF assms(1)]] by (simp_all add: tracks_def new_monitor_def)
  let ?e = "expire now s"
  note c = config_sels [OF config_expire [of now s]]
  have cnt: "queries_sent s \<le> queries_sent ?e"
    using mon_keepsD(2) [OF expire_keeps, of s now] ok(1) by (auto simp: mon_ok_def tracks_def queries_sent_def)
  obtain s' where t: "on_scheduler_tick now s = Some s'" using on_scheduler_tick_defined ok(1) unfolding mon_ok_def by blast
  then obtain u v where u: "query_watches (map fst (mon_watches s)) now ?e = Some u"
    and v: "v = (if mo_mode (mon_opts u) = Mode_discover \<or> mo_mode (mon_opts u) = Mode_ttl_refresh then fold (refresh_one now) (mon_refresh u) u else u)"
    and a: "arm_scheduler now v = Some s'"
    using assms(3,4) ok(2) by (auto simp: on_scheduler_tick_def Let_def bind_eq_Some_conv c)
  have ks: "set (map fst (mon_watches s)) \<subseteq> keys (mon_watches ?e)" by (simp add: c keys_def)
  note q = query_watches_all [OF u _ ks assms(5)]
  have q1: "queries_sent ?e + length (mon_watches s) \<le> queries_sent u" "mon_refresh u = mon_refresh s"
    "\<And>t b. map_of (mon_watches s) t = Some b \<Longrightarrow> map_of (mon_watches u) t = Some (snd (the (advance_backoff (mon_mdns_opts s) b)))"
    using q assms(3) by (auto simp: c keys_def) (metis fst_conv image_eqI map_of_SomeD)
  have mu: "mon_opts u = opts" "mon_mdns_opts u = mon_mdns_opts s"
    using query_watches_sends [OF u] tracking_sels [of u ?e] ok(2) by (simp_all add: only_sends_def c)
  have vu: "v = u" using assms(6) q1(2) by (simp add: v refresh_all_nothing_due)
  obtain d where d: "scheduler_delay now u = Some d" "s' = u\<lparr>mon_scheduler := arm now d () (mon_scheduler u)\<rparr>"
    using a by (auto simp: arm_scheduler_def bind_eq_Some_conv vu)
  have "d = 0" using scheduler_delay_zero [OF d(1) _ _ assms(8,9), of key] assms(4,7) mu(1) q1(2) by simp
  then have "snd (try_fire now (mon_scheduler s')) = Some ()"
    by (simp add: d(2) arm_def try_fire_def expires_after_def async_wait_def Let_def)
  moreover have "queries_sent s' = queries_sent u" "mon_refresh s' = mon_refresh u" "mon_watches s' = mon_watches u"
    by (simp_all add: d(2) queries_sent_def)
  ultimately show ?thesis using t q1 cnt by auto
qed

lemma process_srv_refresh:
  assumes "map_of (mon_partial s) (rec_name v) \<noteq> None" and "rec_ttl v > 0" and "mo_mode (mon_opts s) = Mode_discover"
    and "ttl_refresh_thresholds (mon_mdns_opts s) \<noteq> []"
  shows "mon_refresh (process_srv v now s) =
    assign (str (rec_name v) @ '':srv'') (make_refresh_schedule (rec_ttl v) (mon_mdns_opts s) now (mon_jitter s)) (mon_refresh s)"
proof -
  have "mon_refresh (check_resolved now n x) = mon_refresh x" for now n x
    by (simp add: check_resolved_def Let_def mon_emit_def update_snapshot_def split: option.split)
  then show ?thesis
    using assms by (auto simp: process_srv_cases Let_def srv_refresh_def srv_goodbye_def rebuild_refresh_schedule_def)
qed

lemma example_refresh:
  "\<exists>s key sched. monitor_reachable example_monitor s \<and> \<not> mon_stopped s \<and> mon_refresh s = [(key, sched)] \<and>
    next_idx sched = 0 \<and> length (fire_at sched) = 4 \<and> mon_watches s = [(dns_name ''_http._tcp.local'', new_backoff)]"
proof -
  let ?n = "service_name example_info" and ?from = "rm_sender from_responder"
  obtain p v recs l l' s where r: "rec_name p = service_type example_info" "ptr_name p = ?n" "rec_name v = ?n" "rec_ttl v > 0"
    "list_all (\<lambda>r. case r of Rec_srv _ \<Rightarrow> False | _ \<Rightarrow> True) recs" "monitor_reachable example_monitor s"
    "s = mon_put_loop l' (handled ?from 1000000 (Rec_ptr p # Rec_srv v # recs) (mon_put_loop l watching))"
    using example_step by metis
  let ?w = "mon_put_loop l watching"
  let ?t = "process_ptr p (cache_record (Rec_ptr p) ?from 1000000 ?w)"
  let ?u = "process_srv v 1000000 (cache_record (Rec_srv v) ?from 1000000 ?t)"
  have rel: "is_relevant (Rec_ptr p) ?w" "is_relevant (Rec_srv v) ?t"
    using watching_fresh r(1-3) by (simp_all add: is_relevant_def process_ptr_def Let_def map_of_snoc del: map_of_append mon_put_simps)
  have h: "handled ?from 1000000 (Rec_ptr p # Rec_srv v # recs) ?w = handled ?from 1000000 recs ?u" using rel by (simp add: handled_simps(2))
  have cr: "mon_refresh (cache_record rec q now s) = mon_refresh s" "mon_opts (cache_record rec q now s) = mon_opts s"
    "mon_mdns_opts (cache_record rec q now s) = mon_mdns_opts s" for rec q now s
    by (simp_all add: cache_record_def Let_def mon_emit_def split: prod.split option.split)
  have t: "mon_refresh ?t = []" "mon_opts ?t = all_callbacks Mode_discover" "mon_mdns_opts ?t = default_mdns_options"
    "map_of (mon_partial ?t) ?n \<noteq> None"
    using r(2) watching_fresh(2,3) [of l ?n]
    by (simp_all add: process_ptr_def Let_def cr mon_put_loop_def watching_def example_monitor_def new_monitor_def)
  have th: "ttl_refresh_thresholds default_mdns_options \<noteq> []" by (simp add: default_mdns_options_def)
  obtain key j where "mon_refresh ?u = [(key, make_refresh_schedule (rec_ttl v) default_mdns_options 1000000 j)]"
    using process_srv_refresh [of "cache_record (Rec_srv v) ?from 1000000 ?t" v 1000000] t r(3,4) th
    by (simp add: cr assign_def all_callbacks_def)
  then have "mon_refresh s = [(key, make_refresh_schedule (rec_ttl v) default_mdns_options 1000000 j)]"
    using handled_refresh [OF r(5)] unfolding r(7) h by (simp add: mon_put_loop_def [of l'])
  moreover have "next_idx (make_refresh_schedule (rec_ttl v) default_mdns_options 1000000 j) = 0"
    "length (fire_at (make_refresh_schedule (rec_ttl v) default_mdns_options 1000000 j)) = 4"
    by (simp_all add: make_refresh_schedule_def Let_def default_mdns_options_def)
  moreover have "mon_stopped s = mon_stopped ?w" "mon_watches s = mon_watches ?w"
    using config_sels [OF config_handle_records, of ?from 1000000 "Rec_ptr p # Rec_srv v # recs" ?w False]
    by (simp_all add: r(7) mon_put_loop_def handled_def)
  then have "\<not> mon_stopped s" "mon_watches s = [(dns_name ''_http._tcp.local'', new_backoff)]"
    by (simp_all add: watching_def example_monitor_def new_monitor_def mon_put_loop_def)
  ultimately show ?thesis using r(6) by blast
qed

lemma scheduler_spins_example:
  "\<exists>s now s'. monitor_reachable example_monitor s \<and> on_scheduler_tick now s = Some s' \<and> mon_refresh s' = mon_refresh s \<and>
    snd (try_fire now (mon_scheduler s')) = Some () \<and> queries_sent s < queries_sent s'"
proof -
  obtain s key sched where s: "monitor_reachable example_monitor s" "\<not> mon_stopped s" "mon_refresh s = [(key, sched)]"
    "next_idx sched = 0" "length (fire_at sched) = 4" "mon_watches s = [(dns_name ''_http._tcp.local'', new_backoff)]"
    using example_refresh by blast
  let ?now = "fire_at sched ! 0 - 1"
  have "due_points ?now sched = 0" using s(4,5) by (cases "fire_at sched") (simp_all add: due_points_def)
  with scheduler_spins [OF default_sane s(1) [unfolded example_monitor_def] s(2), of ?now key sched] s(3-6) s(1)
  show ?thesis by (fastforce simp: all_callbacks_def)
qed

text \<open>
  The one-second expiry sweep is not kept when something else is scheduled: once the backoff of the only
  watched type has reached its maximum, expired services are noticed an hour later.
\<close>

lemma next_interval_advance: "next_interval opts b = map_option fst (advance_backoff opts b)"
  by (simp add: next_interval_def advance_backoff_def Let_def)

lemma sweep_waits_for_backoff:
  assumes "mo_mode (mon_opts s) = Mode_discover" and "mon_watches s = [(t, b)]" and "mon_refresh s = []"
    and "mon_mdns_opts s = default_mdns_options" and "\<not> backoff_first b" and "current_interval b = 3600000"
  shows "scheduler_delay now s = Some 3600000"
proof -
  have "next_interval default_mdns_options b = Some 3600000"
    using advance_backoff_double [of default_mdns_options b] assms(5,6) by (simp add: next_interval_advance default_mdns_options_def)
  with assms show ?thesis by (simp add: scheduler_delay_def Let_def earlier_def)
qed

text \<open>Continuation packets of one query are dropped when another query has to be continued: both use one timer.\<close>

lemma second_query_drops_first:
  assumes "0 < tc_continuation_delay (mon_mdns_opts s)" and "\<not> mon_stopped s" and "1 < length packets" and "t_handler (mon_tc_timer s) = Some (first_packets, k)"
  shows "t_handler (mon_tc_timer (send_tc_packets packets 0 now s)) = Some (packets, 0)"
  using assms send_one [OF assms(1,2), of 0 packets now]
  by (cases packets) (auto simp: Let_def arm_def expires_after_def async_wait_def)

text \<open>A goodbye stays noted when the service is announced again, so a later timeout is reported as goodbye.\<close>

lemma goodbye_note_stays: "n \<in> mon_goodbye s \<Longrightarrow> n \<in> mon_goodbye (process_srv r now s)"
  by (auto simp: process_srv_def Let_def check_resolved_def rebuild_refresh_schedule_def mon_emit_def update_snapshot_def mon_updated_def
      split: option.split)

end
