(* ===== verification/Server_Match.thy ===== *)
theory Server_Match
  imports Dns_Response
begin

text \<open>
  \<open>detail/server_query_match.h\<close> and \<open>detail/server_known_answer.h\<close>: which questions of a query
  concern the service, and which of its records the querier already knows.
\<close>

section \<open>Matching questions\<close>

definition meta_query_name :: string where
  "meta_query_name = ''_services._dns-sd._udp.local.''"

record query_match_result =
  accumulated_qtype :: dns_type
  match_mode :: response_mode
  any_matched :: bool
  match_needs_nsec :: bool
  meta_matched :: bool
  matched_subtype :: string
  offset_after_questions :: nat

definition empty_match :: query_match_result where
  "empty_match = \<lparr>accumulated_qtype = Type_none, match_mode = Unicast, any_matched = False,
     match_needs_nsec = False, meta_matched = False, matched_subtype = [], offset_after_questions = 0\<rparr>"

definition is_service_name :: "service_info \<Rightarrow> dns_name \<Rightarrow> bool" where
  "is_service_name info qname \<longleftrightarrow> qname = service_type info \<or> qname = service_name info \<or> qname = hostname info"

definition query_name_matches :: "bytes \<Rightarrow> nat \<Rightarrow> service_info \<Rightarrow> bool option" where
  "query_name_matches data name_start info = do {
     decoded \<leftarrow> read_dns_name data name_start;
     Some (case decoded of
             Inl _ \<Rightarrow> False
           | Inr n \<Rightarrow> is_service_name info (dns_name n))
   }"

definition matches_meta_query :: "bytes \<Rightarrow> nat \<Rightarrow> bool option" where
  "matches_meta_query data name_start = do {
     decoded \<leftarrow> read_dns_name data name_start;
     Some (case decoded of
             Inl _ \<Rightarrow> False
           | Inr n \<Rightarrow> dns_name n = dns_name meta_query_name)
   }"

definition subtype_name :: "string \<Rightarrow> service_info \<Rightarrow> string" where
  "subtype_name sub info = sub @ ''._sub.'' @ str (service_type info)"

fun find_subtype :: "dns_name \<Rightarrow> service_info \<Rightarrow> string list \<Rightarrow> string" where
  "find_subtype qname info [] = []"
| "find_subtype qname info (sub # subs) =
     (if qname = dns_name (subtype_name sub info) then sub else find_subtype qname info subs)"

definition matches_subtype_query :: "bytes \<Rightarrow> nat \<Rightarrow> service_info \<Rightarrow> string option" where
  "matches_subtype_query data name_start info = do {
     decoded \<leftarrow> read_dns_name data name_start;
     Some (case decoded of
             Inl _ \<Rightarrow> []
           | Inr n \<Rightarrow> find_subtype (dns_name n) info (subtypes info))
   }"

fun has_record_type :: "dns_type \<Rightarrow> service_info \<Rightarrow> bool" where
  "has_record_type Type_a info \<longleftrightarrow> address_ipv4 info \<noteq> None"
| "has_record_type Type_aaaa info \<longleftrightarrow> address_ipv6 info \<noteq> None"
| "has_record_type Type_ptr info \<longleftrightarrow> True"
| "has_record_type Type_srv info \<longleftrightarrow> True"
| "has_record_type Type_txt info \<longleftrightarrow> True"
| "has_record_type Type_any info \<longleftrightarrow> True"
| "has_record_type _ info \<longleftrightarrow> False"

definition set_multicast_unless_qu :: "u16 \<Rightarrow> query_match_result \<Rightarrow> query_match_result" where
  "set_multicast_unless_qu qclass result =
     (if qclass AND 0x8000 = 0 then result\<lparr>match_mode := Multicast\<rparr> else result)"

text \<open>The last part of the loop body: the question is for one of the names of the service.\<close>

definition note_match :: "service_info \<Rightarrow> dns_type \<Rightarrow> u16 \<Rightarrow> query_match_result \<Rightarrow> query_match_result" where
  "note_match info qtype qclass result =
     (let result =
            (if \<not> any_matched result then result\<lparr>accumulated_qtype := qtype, any_matched := True\<rparr>
             else if accumulated_qtype result \<noteq> qtype then result\<lparr>accumulated_qtype := Type_any\<rparr>
             else result);
          result =
            (if qtype \<noteq> Type_any \<and> \<not> has_record_type qtype info then result\<lparr>match_needs_nsec := True\<rparr> else result)
      in set_multicast_unless_qu qclass result)"

fun match_loop :: "nat \<Rightarrow> bytes \<Rightarrow> service_info \<Rightarrow> service_options \<Rightarrow> nat \<Rightarrow> query_match_result \<Rightarrow> query_match_result option" where
  "match_loop 0 data info opts offset result = Some (result\<lparr>offset_after_questions := offset\<rparr>)"
| "match_loop (Suc n) data info opts offset result = do {
     let name_start = offset;
     (ok, offset) \<leftarrow> skip_dns_name data offset;
     (if \<not> ok then Some (result\<lparr>offset_after_questions := offset\<rparr>)
      else if offset + 4 > length data then Some (result\<lparr>offset_after_questions := offset\<rparr>)
      else do {
        qt \<leftarrow> read_u16_be data offset;
        qclass \<leftarrow> read_u16_be data (offset + 2);
        let qtype = dns_type_of qt;
        let offset = offset + 4;
        meta \<leftarrow> (if respond_to_meta_queries opts \<and> qtype = Type_ptr
                 then matches_meta_query data name_start else Some False);
        (if meta then
           match_loop n data info opts offset (set_multicast_unless_qu qclass (result\<lparr>meta_matched := True\<rparr>))
         else do {
           sub \<leftarrow> (if qtype = Type_ptr then matches_subtype_query data name_start info else Some []);
           (if sub \<noteq> [] then
              match_loop n data info opts offset (set_multicast_unless_qu qclass (result\<lparr>matched_subtype := sub\<rparr>))
            else do {
              matched \<leftarrow> query_name_matches data name_start info;
              match_loop n data info opts offset (if matched then note_match info qtype qclass result else result)
            })
         })
      })
   }"

definition match_queries :: "bytes \<Rightarrow> service_info \<Rightarrow> service_options \<Rightarrow> query_match_result option" where
  "match_queries data info opts =
     (if length data < 12 then Some empty_match
      else do {
        qdcount \<leftarrow> read_u16_be data 4;
        (if qdcount = 0 then Some empty_match
         else match_loop (unat qdcount) data info opts 12 empty_match)
      })"

section \<open>Known answers\<close>

record suppression_mask =
  mask_ptr :: bool
  mask_srv :: bool
  mask_a :: bool
  mask_aaaa :: bool
  mask_txt :: bool

definition empty_mask :: suppression_mask where
  "empty_mask = \<lparr>mask_ptr = False, mask_srv = False, mask_a = False, mask_aaaa = False, mask_txt = False\<rparr>"

fun mask_type :: "dns_type \<Rightarrow> suppression_mask \<Rightarrow> suppression_mask" where
  "mask_type Type_ptr smask = smask\<lparr>mask_ptr := True\<rparr>"
| "mask_type Type_srv smask = smask\<lparr>mask_srv := True\<rparr>"
| "mask_type Type_a smask = smask\<lparr>mask_a := True\<rparr>"
| "mask_type Type_aaaa smask = smask\<lparr>mask_aaaa := True\<rparr>"
| "mask_type Type_txt smask = smask\<lparr>mask_txt := True\<rparr>"
| "mask_type _ smask = smask"

fun known_answers_loop :: "nat \<Rightarrow> bytes \<Rightarrow> service_info \<Rightarrow> u32 \<Rightarrow> nat \<Rightarrow> suppression_mask \<Rightarrow> suppression_mask option" where
  "known_answers_loop 0 data info threshold offset smask = Some smask"
| "known_answers_loop (Suc n) data info threshold offset smask = do {
     name_result \<leftarrow> read_dns_name data offset;
     (case name_result of
        Inl _ \<Rightarrow> Some smask
      | Inr ans \<Rightarrow> do {
          (ok, offset) \<leftarrow> skip_dns_name data offset;
          (if \<not> ok then Some smask
           else if offset + 10 > length data then Some smask
           else do {
             rtype \<leftarrow> read_u16_be data offset;
             ttl \<leftarrow> read_u32_be data (offset + 4);
             rdlength \<leftarrow> read_u16_be data (offset + 8);
             let offset = offset + 10 + unat rdlength;
             (if offset > length data then Some smask
              else
                (let ans_name = dns_name ans;
                     name_matches = is_service_name info ans_name
                 in known_answers_loop n data info threshold offset
                      (if name_matches \<and> ttl \<ge> threshold then mask_type (dns_type_of rtype) smask else smask)))
           })
        })
   }"

definition parse_known_answers :: "bytes \<Rightarrow> nat \<Rightarrow> service_info \<Rightarrow> u32 \<Rightarrow> suppression_mask option" where
  "parse_known_answers data offset info threshold =
     (if length data < 12 then Some empty_mask
      else do {
        ancount \<leftarrow> read_u16_be data 6;
        known_answers_loop (unat ancount) data info threshold offset empty_mask
      })"

definition all_suppressed :: "suppression_mask \<Rightarrow> dns_type \<Rightarrow> service_info \<Rightarrow> bool" where
  "all_suppressed smask qtype info =
     (let would_send_ptr = (qtype = Type_ptr \<or> qtype = Type_any);
          would_send_srv = (qtype = Type_srv \<or> qtype = Type_any);
          would_send_a = ((qtype = Type_a \<or> qtype = Type_any) \<and> address_ipv4 info \<noteq> None);
          would_send_aaaa = ((qtype = Type_aaaa \<or> qtype = Type_any) \<and> address_ipv6 info \<noteq> None);
          would_send_txt = (qtype = Type_txt \<or> qtype = Type_any)
      in if would_send_ptr \<and> \<not> mask_ptr smask then False
         else if would_send_srv \<and> \<not> mask_srv smask then False
         else if would_send_a \<and> \<not> mask_a smask then False
         else if would_send_aaaa \<and> \<not> mask_aaaa smask then False
         else if would_send_txt \<and> \<not> mask_txt smask then False
         else would_send_ptr \<or> would_send_srv \<or> would_send_a \<or> would_send_aaaa \<or> would_send_txt)"

section \<open>Memory safety\<close>

lemma name_tests_total:
  "\<exists>b. query_name_matches data off info = Some b"
  "\<exists>b. matches_meta_query data off = Some b"
  "\<exists>s. matches_subtype_query data off info = Some s"
proof -
  obtain r where "read_dns_name data off = Some r" using read_dns_name_range by blast
  then show "\<exists>b. query_name_matches data off info = Some b" "\<exists>b. matches_meta_query data off = Some b"
    "\<exists>s. matches_subtype_query data off info = Some s"
    by (simp_all add: query_name_matches_def matches_meta_query_def matches_subtype_query_def)
qed

lemma match_loop_total: "\<exists>r. match_loop n data info opts offset result = Some r"
proof (induction n arbitrary: offset result)
  case (Suc n)
  show ?case
  proof (cases rule: skip_dns_name_cases [of data offset])
    case (ok off')
    show ?thesis
    proof (cases "off' + 4 > length data")
      case False
      obtain qt qc where rd: "read_u16_be data off' = Some qt" "read_u16_be data (off' + 2) = Some qc"
        using False u16.rd_some [of off' data] u16.rd_some [of "off' + 2" data] by fastforce
      obtain m s q where t: "matches_meta_query data offset = Some m"
        "matches_subtype_query data offset info = Some s" "query_name_matches data offset info = Some q"
        using name_tests_total by metis
      show ?thesis
        using ok(1) False rd t Suc.IH by (simp add: Let_def)
    qed (simp add: ok)
  qed simp
qed simp

lemma match_queries_total: "\<exists>r. match_queries data info opts = Some r"
proof (cases "length data < 12")
  case False
  then obtain q where "read_u16_be data 4 = Some q" using u16.rd_some [of 4 data] by fastforce
  with False match_loop_total show ?thesis by (simp add: match_queries_def)
qed (simp add: match_queries_def)

lemma known_answers_loop_total: "\<exists>r. known_answers_loop n data info threshold offset smask = Some r"
proof (induction n arbitrary: offset smask)
  case (Suc n)
  show ?case
  proof (cases rule: read_dns_name_cases [of data offset])
    case name: (ok s)
    show ?thesis
    proof (cases rule: skip_dns_name_cases [of data offset])
      case (ok off')
      show ?thesis
      proof (cases "off' + 10 > length data")
        case False
        obtain t l len where "read_u16_be data off' = Some t" "read_u32_be data (off' + 4) = Some l"
          "read_u16_be data (off' + 8) = Some len"
          using False u16.rd_some [of off' data] u32.rd_some [of "off' + 4" data]
            u16.rd_some [of "off' + 8" data] by fastforce
        with name ok(1) False Suc.IH show ?thesis by (simp add: Let_def)
      qed (use name ok in simp)
    qed (use name in simp)
  qed simp
qed simp

lemma parse_known_answers_total: "\<exists>r. parse_known_answers data offset info threshold = Some r"
proof (cases "length data < 12")
  case False
  then obtain q where "read_u16_be data 6 = Some q" using u16.rd_some [of 6 data] by fastforce
  with False known_answers_loop_total show ?thesis by (simp add: parse_known_answers_def)
qed (simp add: parse_known_answers_def)


section \<open>Matching a well-formed query\<close>

definition asks_meta :: "service_options \<Rightarrow> question \<Rightarrow> bool" where
  "asks_meta opts q \<longleftrightarrow> respond_to_meta_queries opts \<and> dns_type_of (q_type q) = Type_ptr \<and>
     dns_name (q_name q) = dns_name meta_query_name"

definition asked_subtype :: "service_info \<Rightarrow> service_options \<Rightarrow> question \<Rightarrow> string" where
  "asked_subtype info opts q =
     (if dns_type_of (q_type q) = Type_ptr \<and> \<not> asks_meta opts q
      then find_subtype (dns_name (q_name q)) info (subtypes info) else [])"

definition asks_service :: "service_info \<Rightarrow> service_options \<Rightarrow> question \<Rightarrow> bool" where
  "asks_service info opts q \<longleftrightarrow> \<not> asks_meta opts q \<and> asked_subtype info opts q = [] \<and>
     is_service_name info (dns_name (q_name q))"

definition concerns :: "service_info \<Rightarrow> service_options \<Rightarrow> question \<Rightarrow> bool" where
  "concerns info opts q \<longleftrightarrow> asks_meta opts q \<or> asked_subtype info opts q \<noteq> [] \<or> asks_service info opts q"

definition match_question :: "service_info \<Rightarrow> service_options \<Rightarrow> query_match_result \<Rightarrow> question \<Rightarrow> query_match_result" where
  "match_question info opts result q =
     (if asks_meta opts q then set_multicast_unless_qu (q_class q) (result\<lparr>meta_matched := True\<rparr>)
      else if asked_subtype info opts q \<noteq> []
        then set_multicast_unless_qu (q_class q) (result\<lparr>matched_subtype := asked_subtype info opts q\<rparr>)
      else if asks_service info opts q then note_match info (dns_type_of (q_type q)) (q_class q) result
      else result)"

lemma question_at:
  assumes "wf_name (q_name q)" and "holds_at data off (question_bytes q)"
  defines "e \<equiv> off + length (encode_dns_name (q_name q))"
  shows "skip_dns_name data off = Some (True, e)" "read_dns_name data off = Some (Inr (q_name q))"
    "read_u16_be data e = Some (q_type q)" "read_u16_be data (e + 2) = Some (q_class q)" "e + 4 \<le> length data"
proof -
  have at: "holds_at data off (encode_dns_name (q_name q))" "holds_at data e (be16 (q_type q))"
    "holds_at data (e + 2) (be16 (q_class q))"
    using assms(2) by (simp_all add: question_bytes_def holds_at_append e_def)
  show "skip_dns_name data off = Some (True, e)" "read_dns_name data off = Some (Inr (q_name q))"
    unfolding e_def using assms(1) at(1) by (simp_all add: at_simps)
  show "read_u16_be data e = Some (q_type q)" "read_u16_be data (e + 2) = Some (q_class q)" "e + 4 \<le> length data"
    using at(2,3) holds_at_bound [OF at(3)] by (simp_all add: u16.rd_enc)
qed

lemma match_loop_step:
  assumes "wf_name (q_name q)" and "holds_at data off (question_bytes q)"
  shows "match_loop (Suc n) data info opts off result
    = match_loop n data info opts (off + length (question_bytes q)) (match_question info opts result q)"
proof -
  note q = question_at [OF assms]
  have len: "off + length (question_bytes q) = off + length (encode_dns_name (q_name q)) + 4"
    by (simp add: question_bytes_def)
  have t: "query_name_matches data off info = Some (is_service_name info (dns_name (q_name q)))"
    "matches_meta_query data off = Some (dns_name (q_name q) = dns_name meta_query_name)"
    "matches_subtype_query data off info = Some (find_subtype (dns_name (q_name q)) info (subtypes info))"
    by (simp_all add: query_name_matches_def matches_meta_query_def matches_subtype_query_def q(2) del: dns_name_eq_iff)
  show ?thesis
    unfolding len using q(1,3-5)
    by (simp add: Let_def t match_question_def asks_meta_def asked_subtype_def asks_service_def del: dns_name_eq_iff)
qed

lemma match_loop_questions:
  assumes "list_all (\<lambda>q. wf_name (q_name q)) qs" and "holds_at data off (concat (map question_bytes qs))"
  shows "match_loop (length qs) data info opts off result
    = Some ((foldl (match_question info opts) result qs)
        \<lparr>offset_after_questions := off + length (concat (map question_bytes qs))\<rparr>)"
  using assms
proof (induction qs arbitrary: off result)
  case (Cons q qs)
  then have "holds_at data off (question_bytes q)"
    "holds_at data (off + length (question_bytes q)) (concat (map question_bytes qs))"
    by (simp_all add: holds_at_append)
  with Cons show ?case
    using match_loop_step [of q data off "length qs" info opts result] by (simp add: add.assoc del: match_loop.simps)
qed simp

definition after_questions :: "dns_message \<Rightarrow> nat" where
  "after_questions m = 12 + length (concat (map question_bytes (msg_questions m)))"

lemma match_message:
  assumes "valid_message m" and "msg_questions m \<noteq> []"
  shows "match_queries (message_bytes m @ post) info opts
    = Some ((foldl (match_question info opts) empty_match (msg_questions m))
        \<lparr>offset_after_questions := after_questions m\<rparr>)"
proof -
  let ?data = "message_bytes m @ post" and ?qs = "msg_questions m"
  have "holds_at ?data 0 (message_bytes m)" by (rule holds_at_extend) simp
  then have at: "holds_at ?data 12 (concat (map question_bytes ?qs))"
    by (simp add: message_bytes_def holds_at_append)
  have n: "length ?qs < 65536" "list_all (\<lambda>q. wf_name (q_name q)) ?qs"
    using assms(1) by (simp_all add: valid_message_def)
  have nz: "(word_of_nat (length ?qs) :: u16) \<noteq> 0"
    using unat_count [OF n(1)] assms(2) by (metis length_0_conv unat_0)
  show ?thesis
    using match_loop_questions [OF n(2) at, of info opts empty_match] message_header(2,6) [OF assms(1), of post] nz
    by (simp add: match_queries_def unat_count [OF n(1)] after_questions_def)
qed

text \<open>What the fold over the questions computes.\<close>

lemma match_question_simps:
  "any_matched (match_question info opts r q) \<longleftrightarrow> any_matched r \<or> asks_service info opts q"
  "meta_matched (match_question info opts r q) \<longleftrightarrow> meta_matched r \<or> asks_meta opts q"
  "match_needs_nsec (match_question info opts r q) \<longleftrightarrow> match_needs_nsec r \<or>
     asks_service info opts q \<and> dns_type_of (q_type q) \<noteq> Type_any \<and> \<not> has_record_type (dns_type_of (q_type q)) info"
  "match_mode (match_question info opts r q) =
     (if concerns info opts q \<and> q_class q AND 0x8000 = 0 then Multicast else match_mode r)"
  "accumulated_qtype (match_question info opts r q) =
     (if \<not> asks_service info opts q then accumulated_qtype r
      else if \<not> any_matched r \<or> accumulated_qtype r = dns_type_of (q_type q) then dns_type_of (q_type q)
      else Type_any)"
  by (auto simp: match_question_def note_match_def set_multicast_unless_qu_def concerns_def asks_service_def Let_def)

lemma match_fold:
  fixes info :: service_info and opts :: service_options
  defines "r qs \<equiv> foldl (match_question info opts) empty_match qs"
  shows "any_matched (r qs) \<longleftrightarrow> (\<exists>q \<in> set qs. asks_service info opts q)"
    and "meta_matched (r qs) \<longleftrightarrow> (\<exists>q \<in> set qs. asks_meta opts q)"
    and "match_needs_nsec (r qs) \<longleftrightarrow> (\<exists>q \<in> set qs. asks_service info opts q \<and>
      dns_type_of (q_type q) \<noteq> Type_any \<and> \<not> has_record_type (dns_type_of (q_type q)) info)"
    and "match_mode (r qs) =
      (if \<exists>q \<in> set qs. concerns info opts q \<and> q_class q AND 0x8000 = 0 then Multicast else Unicast)"
  unfolding r_def by (induction qs rule: rev_induct) (auto simp: match_question_simps empty_match_def)

lemma match_fold_type:
  assumes "q \<in> set qs" and "asks_service info opts q"
  shows "accumulated_qtype (foldl (match_question info opts) empty_match qs) =
    (if \<forall>q' \<in> set qs. asks_service info opts q' \<longrightarrow> dns_type_of (q_type q') = dns_type_of (q_type q)
     then dns_type_of (q_type q) else Type_any)"
  using assms
proof (induction qs arbitrary: q rule: rev_induct)
  case (snoc x qs)
  let ?r = "foldl (match_question info opts) empty_match qs" and ?T = "\<lambda>q. dns_type_of (q_type q)"
  show ?case
  proof (cases "\<exists>y \<in> set qs. asks_service info opts y")
    case True
    then obtain y where y: "y \<in> set qs" "asks_service info opts y" by blast
    then have any: "any_matched ?r" by (auto simp: match_fold(1))
    show ?thesis
    proof (cases "asks_service info opts x")
      case False
      then have "q \<in> set qs" using snoc.prems by auto
      from snoc.IH [OF this snoc.prems(2)] False show ?thesis by (simp add: match_question_simps)
    next
      case x: True
      have r: "accumulated_qtype (foldl (match_question info opts) empty_match (qs @ [x]))
          = (if accumulated_qtype ?r = ?T x then ?T x else Type_any)"
        using any x by (simp add: match_question_simps)
      show ?thesis
      proof (cases "\<forall>q' \<in> set qs. asks_service info opts q' \<longrightarrow> ?T q' = ?T y")
        case True
        then have acc: "accumulated_qtype ?r = ?T y" using snoc.IH [OF y] by simp
        have q: "?T q = ?T y \<or> q = x" using True snoc.prems by auto
        show ?thesis
        proof (cases "?T x = ?T y")
          case same: True
          then have "\<forall>q' \<in> set (qs @ [x]). asks_service info opts q' \<longrightarrow> ?T q' = ?T q" using q True by fastforce
          with same q show ?thesis unfolding r acc by auto
        next
          case False
          then have "\<not> (\<forall>q' \<in> set (qs @ [x]). asks_service info opts q' \<longrightarrow> ?T q' = ?T q)"
            using x y by (metis in_set_conv_decomp Un_iff set_append)
          with False show ?thesis unfolding r acc by (simp only: if_False) simp
        qed
      next
        case False
        with snoc.IH [OF y] have "accumulated_qtype ?r = Type_any" by (simp only: if_False)
        moreover have "\<not> (\<forall>q' \<in> set (qs @ [x]). asks_service info opts q' \<longrightarrow> ?T q' = ?T q)"
        proof
          assume *: "\<forall>q' \<in> set (qs @ [x]). asks_service info opts q' \<longrightarrow> ?T q' = ?T q"
          then have "?T y = ?T q" using y by simp
          with * False show False by simp
        qed
        ultimately show ?thesis unfolding r by (simp only: if_False) simp
      qed
    qed
  next
    case False
    then have "\<not> any_matched ?r" by (auto simp: match_fold(1))
    with False snoc.prems show ?thesis by (auto simp: match_question_simps)
  qed
qed simp

section \<open>Known answers of a well-formed query\<close>

definition knows :: "service_info \<Rightarrow> u32 \<Rightarrow> resource_record \<Rightarrow> bool" where
  "knows info threshold r \<longleftrightarrow> is_service_name info (dns_name (rr_owner r)) \<and> threshold \<le> rr_ttl r"

definition note_known :: "service_info \<Rightarrow> u32 \<Rightarrow> suppression_mask \<Rightarrow> resource_record \<Rightarrow> suppression_mask" where
  "note_known info threshold smask r =
     (if knows info threshold r then mask_type (rdata_type (rr_data r)) smask else smask)"

lemma known_answers_step:
  assumes "valid_rr r" and at: "holds_at data off (rr_wire r)"
  shows "known_answers_loop (Suc n) data info threshold off smask
    = known_answers_loop n data info threshold (off + length (rr_wire r)) (note_known info threshold smask r)"
proof -
  let ?e = "off + length (encode_dns_name (rr_owner r))" and ?len = "length (rdata_bytes (rr_data r))"
  have wf: "wf_name (rr_owner r)" "valid_rdata (rr_data r)" using assms(1) by (simp_all add: valid_rr_def)
  have len: "unat (word_of_nat ?len :: u16) = ?len"
    using valid_rdata_length [OF wf(2)] by (simp add: unat_of_nat)
  have ty: "dns_type_of (type_underlying (rdata_type (rr_data r))) = rdata_type (rr_data r)"
    by (cases "rr_data r") simp_all
  have "?e + 10 + ?len \<le> length data" using holds_at_bound [OF at] by simp
  then show ?thesis
    using wf_name_skip [OF wf(1) rr_wire_at(1) [OF at]] wf_name_read [OF wf(1) rr_wire_at(1) [OF at]]
      rr_wire_at(2,4,5) [OF at] len ty
    by (simp add: Let_def note_known_def knows_def add.assoc)
qed

lemma known_answers_list:
  assumes "list_all valid_rr rs" and "holds_at data off (concat (map rr_wire rs))"
  shows "known_answers_loop (length rs) data info threshold off smask
    = Some (foldl (note_known info threshold) smask rs)"
  using assms
proof (induction rs arbitrary: off smask)
  case (Cons r rs)
  then have "holds_at data off (rr_wire r)"
    "holds_at data (off + length (rr_wire r)) (concat (map rr_wire rs))"
    by (simp_all add: holds_at_append)
  with Cons show ?case
    using known_answers_step [of r data off "length rs" info threshold smask]
    by (simp del: known_answers_loop.simps length_rr_wire)
qed simp

lemma known_answers_message:
  assumes "valid_message m"
  shows "parse_known_answers (message_bytes m @ post) (after_questions m) info threshold
    = Some (foldl (note_known info threshold) empty_mask (msg_answers m))"
proof -
  have n: "length (msg_answers m) < 65536" "list_all valid_rr (msg_answers m)"
    using assms by (simp_all add: valid_message_def msg_records_def)
  have "holds_at (message_bytes m @ post) (after_questions m) (concat (map rr_wire (msg_answers m)))"
    using message_at(2) [OF assms, of post] by (simp add: after_questions_def msg_records_def holds_at_append)
  from known_answers_list [OF n(2) this] message_header(3,6) [OF assms, of post] show ?thesis
    by (simp add: parse_known_answers_def unat_count [OF n(1)])
qed

definition known_type :: "service_info \<Rightarrow> u32 \<Rightarrow> resource_record list \<Rightarrow> dns_type \<Rightarrow> bool" where
  "known_type info threshold rs t \<longleftrightarrow> (\<exists>r \<in> set rs. rdata_type (rr_data r) = t \<and> knows info threshold r)"

text \<open>The bit of the mask for a type, as the switch of \<open>build_response_with_nsec\<close> reads it.\<close>

fun mask_bit :: "dns_type \<Rightarrow> suppression_mask \<Rightarrow> bool" where
  "mask_bit Type_ptr smask = mask_ptr smask"
| "mask_bit Type_srv smask = mask_srv smask"
| "mask_bit Type_a smask = mask_a smask"
| "mask_bit Type_aaaa smask = mask_aaaa smask"
| "mask_bit Type_txt smask = mask_txt smask"
| "mask_bit _ smask = False"

definition maskable :: "dns_type list" where
  "maskable = [Type_ptr, Type_srv, Type_a, Type_aaaa, Type_txt]"

lemma mask_bit_type: "mask_bit t (mask_type u smask) \<longleftrightarrow> mask_bit t smask \<or> t = u \<and> t \<in> set maskable"
  by (cases t; cases u) (simp_all add: maskable_def)

lemma known_fold:
  "mask_bit t (foldl (note_known info threshold) empty_mask rs) \<longleftrightarrow> t \<in> set maskable \<and> known_type info threshold rs t"
proof (induction rs rule: rev_induct)
  case Nil
  show ?case by (cases t) (simp_all add: empty_mask_def known_type_def)
qed (auto simp: note_known_def mask_bit_type known_type_def)

section \<open>Properties\<close>

text \<open>
  Matching a query. For every well-formed query, \<open>match_queries\<close> reports whether any question
  concerns the service's names, whether one is the service-type enumeration query, which single
  type to answer (ANY when the matching questions differ), whether a negative answer is needed,
  and asks for a multicast response exactly when some question that concerns the service does not
  have the unicast-response bit.
\<close>

lemma match_queries_correct:
  assumes "valid_message m" and "msg_questions m \<noteq> []"
  shows "\<exists>r. match_queries (message_bytes m @ post) info opts = Some r \<and>
    (any_matched r \<longleftrightarrow> list_ex (asks_service info opts) (msg_questions m)) \<and>
    (meta_matched r \<longleftrightarrow> list_ex (asks_meta opts) (msg_questions m)) \<and>
    (match_needs_nsec r \<longleftrightarrow> list_ex (\<lambda>q. asks_service info opts q \<and> dns_type_of (q_type q) \<noteq> Type_any \<and>
       \<not> has_record_type (dns_type_of (q_type q)) info) (msg_questions m)) \<and>
    match_mode r = (if list_ex (\<lambda>q. concerns info opts q \<and> q_class q AND 0x8000 = 0) (msg_questions m)
       then Multicast else Unicast) \<and>
    list_all (\<lambda>q. asks_service info opts q \<longrightarrow> accumulated_qtype r =
       (if list_all (\<lambda>q'. asks_service info opts q' \<longrightarrow> dns_type_of (q_type q') = dns_type_of (q_type q)) (msg_questions m)
        then dns_type_of (q_type q) else Type_any)) (msg_questions m) \<and>
    offset_after_questions r = after_questions m"
  using match_message [OF assms] match_fold_type [of _ "msg_questions m" info opts]
  by (simp add: match_fold list_ex_iff list_all_iff)

lemma match_queries_correct_example:
  "\<exists>r. match_queries (message_bytes example_message) example_info default_service_options = Some r \<and>
    any_matched r \<and> match_mode r = Multicast"
proof -
  have wf: "wf_name ''_http._tcp.local.''" "wf_name ''web._http._tcp.local.''" "wf_name ''host.local.''"
    by code_simp+
  then have v: "valid_message example_message"
    by (simp add: valid_message_def example_message_def msg_records_def valid_rr_def)
  have n: "normalize ''_http._tcp.local.'' = ''_http._tcp.local.''" "normalize ''_services._dns-sd._udp.local.'' = ''_services._dns-sd._udp.local.''"
    by code_simp+
  have q: "list_ex (asks_service example_info default_service_options) (msg_questions example_message)"
    "list_ex (\<lambda>q. concerns example_info default_service_options q \<and> q_class q AND 0x8000 = 0) (msg_questions example_message)"
    by (simp_all add: example_message_def concerns_def asks_service_def asks_meta_def asked_subtype_def n meta_query_name_def
        is_service_name_def example_info_def example_normalized)
  show ?thesis
    using match_queries_correct [OF v, of "[]" example_info default_service_options] q
    by (auto simp: example_message_def)
qed

text \<open>
  Known-answer suppression as implemented. On a well-formed query the mask has the bit of a
  record type set exactly when some answer of that type has one of the service's names as owner
  and a TTL of at least the threshold.
\<close>

lemma known_answers_correct:
  assumes "valid_message m"
  shows "\<exists>smask. parse_known_answers (message_bytes m @ post) (after_questions m) info threshold = Some smask \<and>
    (\<forall>t. mask_bit t smask \<longleftrightarrow> t \<in> set maskable \<and> known_type info threshold (msg_answers m) t)"
  using known_answers_message [OF assms] by (simp add: known_fold)

definition other_instance_query :: dns_message where
  "other_instance_query = query_message 0 ''_http._tcp.local.'' Type_ptr Multicast
     [\<lparr>rr_owner = ''_http._tcp.local.'', rr_flush = False, rr_ttl = 4500, rr_data = RD_ptr ''other._http._tcp.local.''\<rparr>]"

lemma other_instance_query_valid: "valid_message other_instance_query"
proof -
  have "wf_name ''other._http._tcp.local.''" by code_simp
  then show ?thesis
    by (simp add: other_instance_query_def valid_message_def query_message_def msg_records_def valid_rr_def example_wf_names)
qed

lemma other_instance_known: "known_type example_info 2250 (msg_answers other_instance_query) Type_ptr"
proof -
  have "normalize ''_http._tcp.local.'' = ''_http._tcp.local.''" by code_simp
  then show ?thesis
    by (simp add: known_type_def knows_def other_instance_query_def query_message_def is_service_name_def example_info_def
        example_normalized)
qed

lemma known_answers_correct_example:
  "\<exists>smask. parse_known_answers (message_bytes other_instance_query) (after_questions other_instance_query)
      example_info 2250 = Some smask \<and> mask_ptr smask"
proof -
  obtain smask where s: "parse_known_answers (message_bytes other_instance_query) (after_questions other_instance_query)
      example_info 2250 = Some smask"
    "mask_bit Type_ptr smask \<longleftrightarrow> Type_ptr \<in> set maskable \<and>
       known_type example_info 2250 (msg_answers other_instance_query) Type_ptr"
    using known_answers_correct [OF other_instance_query_valid, of "[]" example_info 2250]
    unfolding append_Nil2 by blast
  then show ?thesis using other_instance_known by (simp add: maskable_def)
qed

text \<open>
  Suppression ignores the record data. A query whose known answer is the PTR record of another
  instance of the same service type makes \<open>all_suppressed\<close> hold for a PTR query, although the
  querier does not know the PTR record of this instance.
\<close>

lemma suppression_ignores_rdata:
  assumes "valid_message m" and "r \<in> set (msg_answers m)" and "rr_data r = RD_ptr other"
    and "dns_name other \<noteq> service_name info" and "dns_name (rr_owner r) = service_type info"
    and "threshold \<le> rr_ttl r"
  shows "\<exists>smask. parse_known_answers (message_bytes m @ post) (after_questions m) info threshold = Some smask \<and>
    all_suppressed smask Type_ptr info"
proof -
  have "known_type info threshold (msg_answers m) Type_ptr"
    using assms(2-6) by (auto simp: known_type_def knows_def is_service_name_def intro!: bexI [of _ r])
  then have "mask_bit Type_ptr (foldl (note_known info threshold) empty_mask (msg_answers m))"
    by (simp add: known_fold maskable_def)
  then show ?thesis using known_answers_message [OF assms(1)] by (simp add: all_suppressed_def Let_def)
qed

lemma suppression_ignores_rdata_example:
  "\<exists>smask. parse_known_answers (message_bytes other_instance_query) (after_questions other_instance_query)
      example_info 2250 = Some smask \<and> all_suppressed smask Type_ptr example_info"
proof -
  have n: "normalize ''_http._tcp.local.'' = ''_http._tcp.local.''"
    "normalize ''other._http._tcp.local.'' \<noteq> ''web._http._tcp.local.''" by code_simp+
  show ?thesis
    using suppression_ignores_rdata [OF other_instance_query_valid, of "hd (msg_answers other_instance_query)"
        "''other._http._tcp.local.''" example_info 2250 "[]"] n
    by (simp add: other_instance_query_def query_message_def example_info_def example_normalized)
qed

text \<open>
  The server's packet inspection is memory safe: matching questions and reading known answers
  return on every input, well-formed or not, and at every offset.
\<close>

lemma server_inspection_total:
  "(\<exists>r. match_queries data info opts = Some r) \<and> (\<exists>smask. parse_known_answers data offset info threshold = Some smask)"
  by (simp add: match_queries_total parse_known_answers_total)

end
