(* ===== verification/Server_Response.thy ===== *)
theory Server_Response
  imports Server_Match
begin

text \<open>
  \<open>detail/server_response_aggregation.h\<close>: the aggregate of the multicast queries that one delayed
  response answers, and the packets built from it.
\<close>

section \<open>Aggregation\<close>

record pending_response =
  armed :: bool
  pending_qtype :: dns_type
  pending_needs_nsec :: bool
  suppression :: suppression_mask

definition empty_pending :: pending_response where
  "empty_pending = \<lparr>armed = False, pending_qtype = Type_none, pending_needs_nsec = False, suppression = empty_mask\<rparr>"

definition merge :: "dns_type \<Rightarrow> bool \<Rightarrow> suppression_mask \<Rightarrow> pending_response \<Rightarrow> pending_response" where
  "merge new_qtype new_nsec new_suppression p =
     (if \<not> armed p then
        p\<lparr>armed := True, pending_qtype := new_qtype, pending_needs_nsec := new_nsec, suppression := new_suppression\<rparr>
      else
        (let p = (if pending_qtype p \<noteq> new_qtype then p\<lparr>pending_qtype := Type_any\<rparr> else p);
             p = p\<lparr>pending_needs_nsec := pending_needs_nsec p \<or> new_nsec\<rparr>;
             s = suppression p
         in p\<lparr>suppression :=
               \<lparr>mask_ptr = (mask_ptr s \<and> mask_ptr new_suppression), mask_srv = (mask_srv s \<and> mask_srv new_suppression),
                mask_a = (mask_a s \<and> mask_a new_suppression), mask_aaaa = (mask_aaaa s \<and> mask_aaaa new_suppression),
                mask_txt = (mask_txt s \<and> mask_txt new_suppression)\<rparr>\<rparr>))"

definition reset :: "pending_response \<Rightarrow> pending_response" where
  "reset p = p\<lparr>armed := False, pending_qtype := Type_none, pending_needs_nsec := False, suppression := empty_mask\<rparr>"

section \<open>Packets\<close>

definition build_response_with_nsec ::
  "(string \<Rightarrow> bytes option) \<Rightarrow> service_info \<Rightarrow> dns_type \<Rightarrow> bool \<Rightarrow> suppression_mask \<Rightarrow> bool \<Rightarrow> service_options \<Rightarrow> bytes option" where
  "build_response_with_nsec inet_pton6 info qtype needs_nsec smask suppress_enabled opts =
     (if suppress_enabled \<and> qtype \<noteq> Type_any \<and> mask_bit qtype smask then Some []
      else
        (let response = build_dns_response inet_pton6 info qtype opts 0xFFFFFFFF;
             nsec_ttl = word_of_int (record_ttl opts) :: u32
         in if needs_nsec \<and> qtype \<noteq> Type_any then
              (let owner_name = encode_dns_name (str (hostname info))
               in if owner_name = [] then Some response
                  else if response = [] then
                    (let response = push_u16_be response 0x0000;
                         response = push_u16_be response 0x8400;
                         response = push_u16_be response 0x0000;
                         response = push_u16_be response 0x0000;
                         response = push_u16_be response 0x0000;
                         response = push_u16_be response 0x0001
                     in Some (append_nsec_rr response owner_name info nsec_ttl))
                  else do {
                    let response = append_nsec_rr response owner_name info nsec_ttl;
                    arcount \<leftarrow> read_u16_be response 10;
                    let arcount = arcount + 1;
                    response \<leftarrow> poke response 10 (ucast (drop_bit 8 arcount));
                    poke response 11 (ucast (arcount AND 0xFF))
                  })
            else Some response))"

definition build_meta_query_response :: "service_info \<Rightarrow> u32 \<Rightarrow> bytes" where
  "build_meta_query_response info ttl =
     (let packet = push_u16_be [] 0x0000;
          packet = push_u16_be packet 0x8400;
          packet = push_u16_be packet 0x0000;
          packet = push_u16_be packet 0x0001;
          packet = push_u16_be packet 0x0000;
          packet = push_u16_be packet 0x0000;
          owner = encode_dns_name meta_query_name;
          rdata = encode_dns_name (str (service_type info))
      in append_dns_rr packet owner Type_ptr ttl rdata False)"

definition build_subtype_response :: "string \<Rightarrow> service_info \<Rightarrow> u32 \<Rightarrow> bytes" where
  "build_subtype_response subtype_label info ttl =
     (let packet = push_u16_be [] 0x0000;
          packet = push_u16_be packet 0x8400;
          packet = push_u16_be packet 0x0000;
          packet = push_u16_be packet 0x0001;
          packet = push_u16_be packet 0x0000;
          packet = push_u16_be packet 0x0000;
          owner = encode_dns_name (subtype_name subtype_label info);
          rdata = encode_dns_name (str (service_name info))
      in append_dns_rr packet owner Type_ptr ttl rdata False)"

section \<open>What merging computes\<close>

type_synonym merged_query = "dns_type \<times> bool \<times> suppression_mask"

definition merge_all :: "merged_query list \<Rightarrow> pending_response \<Rightarrow> pending_response" where
  "merge_all qs p = foldl (\<lambda>p (t, n, s). merge t n s p) p qs"

lemma merge_bits:
  "armed p \<Longrightarrow> mask_bit t (suppression (merge q n s p)) \<longleftrightarrow> mask_bit t (suppression p) \<and> mask_bit t s"
  "\<not> armed p \<Longrightarrow> suppression (merge q n s p) = s"
  by (cases t; simp add: merge_def Let_def) (simp add: merge_def)

lemma merge_fields:
  "armed (merge q n s p)"
  "pending_needs_nsec (merge q n s p) \<longleftrightarrow> n \<or> armed p \<and> pending_needs_nsec p"
  "pending_qtype (merge q n s p) = (if armed p \<and> pending_qtype p \<noteq> q then Type_any else q)"
  by (auto simp: merge_def Let_def)

lemma merge_all_snoc: "merge_all (qs @ [(t, n, s)]) p = merge t n s (merge_all qs p)"
  by (simp add: merge_all_def)

lemma merge_all_single [simp]: "merge_all [(t, n, s)] p = merge t n s p"
  by (simp add: merge_all_def)

lemma empty_not_armed [simp]: "\<not> armed empty_pending"
  by (simp add: empty_pending_def)

lemma merge_all_armed: "armed (merge_all qs empty_pending) \<longleftrightarrow> qs \<noteq> []"
proof (induction qs rule: rev_induct)
  case Nil
  show ?case by (simp add: merge_all_def empty_pending_def)
next
  case (snoc q qs)
  then show ?case by (cases q) (simp add: merge_all_snoc merge_fields)
qed

lemma merge_all_nsec:
  "pending_needs_nsec (merge_all qs empty_pending) \<longleftrightarrow> (\<exists>(t, n, s) \<in> set qs. n)"
proof (induction qs rule: rev_induct)
  case Nil
  show ?case by (simp add: merge_all_def empty_pending_def)
next
  case (snoc q qs)
  then show ?case by (cases q) (auto simp: merge_all_snoc merge_fields merge_all_armed)
qed

lemma merge_all_mask:
  "qs \<noteq> [] \<Longrightarrow> mask_bit t (suppression (merge_all qs empty_pending)) \<longleftrightarrow> (\<forall>(u, n, s) \<in> set qs. mask_bit t s)"
proof (induction qs rule: rev_induct)
  case (snoc q qs)
  then show ?case
    by (cases q; cases "qs = []") (auto simp: merge_all_snoc merge_bits merge_all_armed)
qed simp

lemma merge_all_qtype:
  "(u, n, s) \<in> set qs \<Longrightarrow> pending_qtype (merge_all qs empty_pending) = (if \<forall>q \<in> set qs. fst q = u then u else Type_any)"
proof (induction qs arbitrary: u n s rule: rev_induct)
  case (snoc q qs)
  obtain t b m where q: "q = (t, b, m)" by (cases q)
  show ?case
  proof (cases "qs = []")
    case True
    with snoc.prems q show ?thesis by (simp add: merge_fields)
  next
    case False
    then obtain v n' s' where v: "(v, n', s') \<in> set qs" by (metis list.set_intros(1) neq_Nil_conv prod_cases3)
    have p: "pending_qtype (merge_all (qs @ [q]) empty_pending)
        = (if pending_qtype (merge_all qs empty_pending) \<noteq> t then Type_any else t)"
      using False by (simp add: q merge_all_snoc merge_fields merge_all_armed)
    consider (same) "\<forall>x \<in> set qs. fst x = v" "t = v" | (last) "\<forall>x \<in> set qs. fst x = v" "t \<noteq> v"
      | (mixed) "\<not> (\<forall>x \<in> set qs. fst x = v)" by blast
    then show ?thesis
    proof cases
      case same
      then have "u = v" using snoc.prems q by auto
      with same snoc.IH [OF v] p q show ?thesis by simp
    next
      case last
      then have "\<not> (\<forall>x \<in> set (qs @ [q]). fst x = u)" using v q by auto
      with last snoc.IH [OF v] p show ?thesis by (simp only: if_True if_False) simp
    next
      case mixed
      have "\<not> (\<forall>x \<in> set (qs @ [q]). fst x = u)"
      proof
        assume *: "\<forall>x \<in> set (qs @ [q]). fst x = u"
        then have "u = v" using v by auto
        with * mixed show False by simp
      qed
      with mixed snoc.IH [OF v] p show ?thesis by (simp only: if_True if_False) simp
    qed
  qed
qed simp


section \<open>Packets as messages\<close>

definition nsec_rr :: "service_info \<Rightarrow> service_options \<Rightarrow> resource_record" where
  "nsec_rr info opts =
     \<lparr>rr_owner = str (hostname info), rr_flush = False, rr_ttl = word_of_int (record_ttl opts),
      rr_data = RD_nsec (encode_dns_name (str (hostname info)) @ build_nsec_bitmap info)\<rparr>"

text \<open>The records of an aggregated response; no answer and no additional record means that nothing is sent.\<close>

definition aggregate_sections ::
  "(string \<Rightarrow> bytes option) \<Rightarrow> service_info \<Rightarrow> dns_type \<Rightarrow> bool \<Rightarrow> suppression_mask \<Rightarrow> bool \<Rightarrow> service_options
     \<Rightarrow> resource_record list \<times> resource_record list" where
  "aggregate_sections inet_pton6 info qtype needs_nsec smask suppress_enabled opts =
     (if suppress_enabled \<and> qtype \<noteq> Type_any \<and> mask_bit qtype smask then ([], [])
      else
        (let (answers, additional) = response_sections inet_pton6 info qtype opts 0xFFFFFFFF
         in (answers, additional @ (if needs_nsec \<and> qtype \<noteq> Type_any then [nsec_rr info opts] else []))))"

lemma append_nsec_message:
  assumes "wf_name (str (hostname info))"
  shows "append_nsec_rr buf (encode_dns_name (str (hostname info))) info (word_of_int (record_ttl opts))
    = buf @ rr_wire (nsec_rr info opts)"
  using wf_name_encode [OF assms] by (simp add: append_nsec_rr_eq rr_wire_def nsec_rr_def)

lemma bump_arcount_header:
  "(do { arcount \<leftarrow> read_u16_be (header_bytes i f qd an ns ar @ rest) 10;
         let arcount = arcount + 1;
         response \<leftarrow> poke (header_bytes i f qd an ns ar @ rest) 10 (ucast (drop_bit 8 arcount));
         poke response 11 (ucast (arcount AND 0xFF)) })
   = Some (header_bytes i f qd an ns (ar + 1) @ rest)"
proof -
  have "holds_at (header_bytes i f qd an ns ar @ rest) 0 (header_bytes i f qd an ns ar)"
    by (rule holds_at_extend) simp
  then have "read_u16_be (header_bytes i f qd an ns ar @ rest) 10 = Some ar" by (rule header_at)
  moreover have "poke (header_bytes i f qd an ns ar @ rest) 10 (ucast (drop_bit 8 v)) \<bind> (\<lambda>r. poke r 11 (ucast (v AND 0xFF)))
      = Some (header_bytes i f qd an ns v @ rest)" for v
    by (simp add: poke_def header_bytes_def push_u16_be_def numeral_eq_Suc)
  ultimately show ?thesis by simp
qed

lemma bump_arcount_message:
  "(do { arcount \<leftarrow> read_u16_be (message_bytes (response_message (rs, qs)) @ rr_wire r) 10;
         let arcount = arcount + 1;
         response \<leftarrow> poke (message_bytes (response_message (rs, qs)) @ rr_wire r) 10 (ucast (drop_bit 8 arcount));
         poke response 11 (ucast (arcount AND 0xFF)) })
   = Some (message_bytes (response_message (rs, qs @ [r])))"
  using bump_arcount_header [of 0 "0x8400" 0 "word_of_nat (length rs)" 0 "word_of_nat (length qs)"
      "concat (map rr_wire (rs @ qs)) @ rr_wire r"]
  by (simp add: message_bytes_def response_message_def msg_records_def add.commute)

lemma message_bytes_nonempty [simp]: "message_bytes m \<noteq> []"
  by (metis append_is_Nil_conv length_header_bytes list.size(3) message_bytes_def zero_neq_numeral)

lemma build_response_with_nsec_message:
  assumes ann: "announceable info" and pton: "inet_pton_width 16 inet_pton6"
  shows "build_response_with_nsec inet_pton6 info qtype needs_nsec smask suppress_enabled opts =
    Some (let secs = aggregate_sections inet_pton6 info qtype needs_nsec smask suppress_enabled opts
          in if secs = ([], []) then [] else message_bytes (response_message secs))"
proof -
  obtain an ar where secs: "response_sections inet_pton6 info qtype opts 0xFFFFFFFF = (an, ar)" by fastforce
  have empty: "an = [] \<Longrightarrow> ar = []" using response_sections_valid(2) [OF ann pton, of qtype opts "0xFFFFFFFF"] secs by simp
  have wf: "wf_name (str (hostname info))" using ann by (simp add: announceable_def)
  have resp: "build_dns_response inet_pton6 info qtype opts 0xFFFFFFFF
      = (if an = [] then [] else message_bytes (response_message (an, ar)))"
    using build_dns_response_message [OF ann pton] secs by simp
  have alone: "push_u16_be (push_u16_be (push_u16_be (push_u16_be (push_u16_be (be16 0) 0x8400) 0) 0) 0) 1
      @ rr_wire (nsec_rr info opts) = message_bytes (response_message ([], [nsec_rr info opts]))"
    by (simp add: message_bytes_def response_message_def header_bytes_def msg_records_def push_be)
  show ?thesis
    using wf_name_encode(1) [OF wf] secs empty resp alone bump_arcount_message [of an ar "nsec_rr info opts"]
    by (auto simp: build_response_with_nsec_def aggregate_sections_def Let_def append_nsec_message [OF wf]
        simp del: be16_small)
qed

lemma nsec_rr_valid: "announceable info \<Longrightarrow> valid_rr (nsec_rr info opts)"
  by (auto simp: valid_rr_def nsec_rr_def announceable_def dest: wf_name_encode(3))

lemma aggregate_sections_valid:
  assumes "announceable info" and "inet_pton_width 16 inet_pton6"
  shows "valid_message (response_message (aggregate_sections inet_pton6 info qtype needs_nsec smask suppress_enabled opts))"
proof -
  obtain an ar where secs: "response_sections inet_pton6 info qtype opts 0xFFFFFFFF = (an, ar)" by fastforce
  have "length ar \<le> 4"
    using secs service_rrs_length(2,3,5) [of info opts "0xFFFFFFFF"] service_rrs_length(4) [of inet_pton6 info opts "0xFFFFFFFF"]
    by (cases qtype) (auto simp: response_sections_def Let_def)
  then show ?thesis
    using response_sections_valid(1) [OF assms, of qtype opts "0xFFFFFFFF"] nsec_rr_valid [OF assms(1)] secs
    by (auto simp: aggregate_sections_def valid_message_def response_message_def msg_records_def Let_def)
qed

definition ptr_message :: "string \<Rightarrow> string \<Rightarrow> u32 \<Rightarrow> dns_message" where
  "ptr_message owner target ttl =
     response_message ([\<lparr>rr_owner = owner, rr_flush = False, rr_ttl = ttl, rr_data = RD_ptr target\<rparr>], [])"

lemma meta_response_message:
  assumes "announceable info"
  shows "build_meta_query_response info ttl = message_bytes (ptr_message meta_query_name (str (service_type info)) ttl)"
proof -
  have "encode_dns_name meta_query_name \<noteq> []" by code_simp
  moreover have "length (encode_dns_name (str (service_type info))) \<le> 255" by (rule encode_dns_name_bounds)
  ultimately show ?thesis
    by (simp add: build_meta_query_response_def Let_def append_dns_rr_eq ptr_message_def message_bytes_def response_message_def
        header_bytes_def msg_records_def rr_wire_def push_be)
qed

lemma subtype_response_message:
  assumes "wf_name (subtype_name sub info)"
  shows "build_subtype_response sub info ttl
    = message_bytes (ptr_message (subtype_name sub info) (str (service_name info)) ttl)"
  using wf_name_encode(1) [OF assms] encode_dns_name_bounds [of "str (service_name info)"]
  by (simp add: build_subtype_response_def Let_def append_dns_rr_eq ptr_message_def message_bytes_def response_message_def
      header_bytes_def msg_records_def rr_wire_def push_be)

lemma walk_aggregate:
  assumes "announceable info" and "inet_pton_width 16 inet_pton6"
  shows "\<exists>packet. build_response_with_nsec inet_pton6 info qtype needs_nsec smask suppress_enabled opts = Some packet \<and>
    (suppress_enabled \<and> qtype \<noteq> Type_any \<and> mask_bit qtype smask \<longrightarrow> packet = []) \<and>
    walk_dns_frame packet sender =
      (case aggregate_sections inet_pton6 info qtype needs_nsec smask suppress_enabled opts of (answers, additional) \<Rightarrow>
        Some (List.map_filter (rr_decoded sender) (answers @ additional)))"
proof -
  obtain an ar where secs:
    "aggregate_sections inet_pton6 info qtype needs_nsec smask suppress_enabled opts = (an, ar)" by fastforce
  have "walk_dns_frame (message_bytes (response_message (an, ar)) @ []) sender
      = Some (List.map_filter (rr_decoded sender) (an @ ar))"
    using walk_message [OF aggregate_sections_valid [OF assms], of qtype needs_nsec smask suppress_enabled opts "[]" sender]
    by (simp add: secs response_message_def msg_records_def)
  then show ?thesis
    using secs by (auto simp: build_response_with_nsec_message [OF assms] Let_def aggregate_sections_def
        walk_dns_frame_def [of "[]"] map_filter_simps)
qed

section \<open>Properties\<close>

text \<open>
  An aggregated response answers the union of its queries. After merging any non-empty sequence
  of queries the pending response is armed, asks for the common type or for ANY, carries a negative
  answer if one query needs it, and suppresses a record type only if every single query suppresses it.
\<close>

lemma pending_merge_correct:
  assumes "qs \<noteq> []"
  shows "armed (merge_all qs empty_pending) \<and>
    (pending_needs_nsec (merge_all qs empty_pending) \<longleftrightarrow> list_ex (\<lambda>(t, n, s). n) qs) \<and>
    (\<forall>t. mask_bit t (suppression (merge_all qs empty_pending)) \<longleftrightarrow> list_all (\<lambda>(u, n, s). mask_bit t s) qs) \<and>
    pending_qtype (merge_all qs empty_pending)
      = (if list_all (\<lambda>q. fst q = fst (hd qs)) qs then fst (hd qs) else Type_any)"
  using assms merge_all_qtype [of "fst (hd qs)" "fst (snd (hd qs))" "snd (snd (hd qs))" qs]
  by (simp add: merge_all_armed merge_all_nsec merge_all_mask list_all_iff list_ex_iff)

lemma pending_merge_correct_example:
  "pending_qtype (merge_all [(Type_a, False, empty_mask), (Type_srv, True, empty_mask)] empty_pending) = Type_any"
  using pending_merge_correct [of "[(Type_a, False, empty_mask), (Type_srv, True, empty_mask)]"] by simp

text \<open>
  The packet for an aggregated query. \<open>build_response_with_nsec\<close> performs no out-of-range
  access; a suppressed single-type query gets no packet, and otherwise the packet decodes to the
  records of the response table, with the NSEC record counted in the additional section.
\<close>

lemma response_with_nsec_roundtrip:
  assumes "announceable info" and "inet_pton_width 16 inet_pton6"
  shows "\<exists>packet. build_response_with_nsec inet_pton6 info qtype needs_nsec smask suppress_enabled opts = Some packet \<and>
    (suppress_enabled \<and> qtype \<noteq> Type_any \<and> mask_bit qtype smask \<longrightarrow> packet = []) \<and>
    walk_dns_frame packet sender =
      (case aggregate_sections inet_pton6 info qtype needs_nsec smask suppress_enabled opts of (answers, additional) \<Rightarrow>
        Some (List.map_filter (rr_decoded sender) (answers @ additional)))"
  using assms by (rule walk_aggregate)

lemma response_with_nsec_roundtrip_example:
  "\<exists>packet. build_response_with_nsec (\<lambda>_. None) example_info Type_aaaa True empty_mask True default_service_options
      = Some packet \<and>
    walk_dns_frame packet no_endpoint =
      (case aggregate_sections (\<lambda>_. None) example_info Type_aaaa True empty_mask True default_service_options of
         (answers, additional) \<Rightarrow> Some (List.map_filter (rr_decoded no_endpoint) (answers @ additional)))"
proof -
  have "inet_pton_width 16 (\<lambda>_. None)" by (simp add: inet_pton_width_def)
  from response_with_nsec_roundtrip [OF example_announceable this, of Type_aaaa True empty_mask True
      default_service_options no_endpoint]
  show ?thesis by auto
qed

end
