(* ===== verification/Probe_Announce.thy ===== *)
theory Probe_Announce
  imports Dns_Types
begin

text \<open>
  \<open>detail/server_probe_announce.h\<close>: the probe and announce counters of the server and the tiebreak
  comparison; \<open>detail/tc_accumulator.h\<close>: known answers collected per querier while more packets of a
  truncated query are expected.
\<close>

section \<open>Probe and announce state\<close>

datatype server_state = Idle | Probing | Announcing | Live | Stopped

record probe_announce_state =
  pa_state :: server_state
  probe_count :: u8
  announce_count :: u8
  conflict_attempt :: u8
  probe_id :: u16

definition new_pa :: probe_announce_state where
  "new_pa = \<lparr>pa_state = Idle, probe_count = 0, announce_count = 0, conflict_attempt = 0, probe_id = 0\<rparr>"

definition should_send_probe :: "probe_announce_state \<Rightarrow> u8 \<Rightarrow> bool" where
  "should_send_probe s max_count \<longleftrightarrow> pa_state s = Probing \<and> probe_count s < max_count"

definition probing_complete :: "probe_announce_state \<Rightarrow> u8 \<Rightarrow> bool" where
  "probing_complete s max_count \<longleftrightarrow> pa_state s = Probing \<and> probe_count s \<ge> max_count"

definition advance_probe :: "u8 \<Rightarrow> probe_announce_state \<Rightarrow> bool \<times> probe_announce_state" where
  "advance_probe max_count s =
     (let s = s\<lparr>probe_count := probe_count s + 1\<rparr> in (probe_count s < max_count, s))"

definition should_send_announce :: "probe_announce_state \<Rightarrow> u8 \<Rightarrow> bool" where
  "should_send_announce s max_count \<longleftrightarrow> pa_state s = Announcing \<and> announce_count s < max_count"

definition advance_announce :: "u8 \<Rightarrow> probe_announce_state \<Rightarrow> bool \<times> probe_announce_state" where
  "advance_announce max_count s =
     (let s = s\<lparr>announce_count := announce_count s + 1\<rparr> in (announce_count s < max_count, s))"

definition begin_probing :: "probe_announce_state \<Rightarrow> probe_announce_state" where
  "begin_probing s = s\<lparr>pa_state := Probing, probe_count := 0\<rparr>"

definition begin_announcing :: "probe_announce_state \<Rightarrow> probe_announce_state" where
  "begin_announcing s = s\<lparr>pa_state := Announcing, announce_count := 0\<rparr>"

section \<open>Tiebreaking\<close>

fun compare_loop :: "bytes \<Rightarrow> bytes \<Rightarrow> int option" where
  "compare_loop (a # as) (b # bs) = (if a \<noteq> b then Some (uint a - uint b) else compare_loop as bs)"
| "compare_loop _ _ = None"

definition compare_authority_records :: "bytes \<Rightarrow> bytes \<Rightarrow> int" where
  "compare_authority_records our_rdata their_rdata =
     (case compare_loop our_rdata their_rdata of
        Some c \<Rightarrow> c
      | None \<Rightarrow>
          if length our_rdata < length their_rdata then -1
          else if length our_rdata > length their_rdata then 1 else 0)"

section \<open>Truncated queries\<close>

record tc_entry =
  tc_records :: "mdns_record_variant list"
  tc_inserted_at :: int

text \<open>The \<open>unordered_map\<close> is only searched by key.\<close>

type_synonym tc_accumulator = "(endpoint \<times> tc_entry) list"

definition has_pending :: "endpoint \<Rightarrow> tc_accumulator \<Rightarrow> bool" where
  "has_pending source acc \<longleftrightarrow> map_of acc source \<noteq> None"

definition accumulate :: "endpoint \<Rightarrow> mdns_record_variant list \<Rightarrow> int \<Rightarrow> tc_accumulator \<Rightarrow> tc_accumulator" where
  "accumulate source new_records now acc =
     (case map_of acc source of
        Some e \<Rightarrow> map (\<lambda>(k, x). if k = source then (k, x\<lparr>tc_records := tc_records x @ new_records\<rparr>) else (k, x)) acc
      | None \<Rightarrow> (source, \<lparr>tc_records = new_records, tc_inserted_at = now\<rparr>) # acc)"

definition take_if_ready :: "endpoint \<Rightarrow> int \<Rightarrow> int \<Rightarrow> tc_accumulator \<Rightarrow> mdns_record_variant list option \<times> tc_accumulator" where
  "take_if_ready source now tc_wait acc =
     (case map_of acc source of
        None \<Rightarrow> (None, acc)
      | Some e \<Rightarrow>
          if now \<ge> tc_inserted_at e + tc_wait * 1000000
          then (Some (tc_records e), filter (\<lambda>(k, x). k \<noteq> source) acc)
          else (None, acc))"

definition clear :: "tc_accumulator \<Rightarrow> tc_accumulator" where
  "clear acc = []"

section \<open>Lemmas\<close>

lemma map_of_append_records:
  "map_of (map (\<lambda>(k, x). if k = source then (k, f x) else (k, x)) acc) k
     = (if k = source then map_option f (map_of acc k) else map_of acc k)"
  by (induction acc) auto

lemma map_of_accumulate:
  "map_of (accumulate source rs now acc) k =
     (if k = source then
        Some (case map_of acc source of
                None \<Rightarrow> \<lparr>tc_records = rs, tc_inserted_at = now\<rparr>
              | Some e \<Rightarrow> e\<lparr>tc_records := tc_records e @ rs\<rparr>)
      else map_of acc k)"
  by (auto simp: accumulate_def map_of_append_records split: option.split)

lemma map_of_take:
  "map_of (snd (take_if_ready source now w acc)) k =
     (if k = source \<and> fst (take_if_ready source now w acc) \<noteq> None then None else map_of acc k)"
proof -
  have "map_of (filter (\<lambda>(k, x). k \<noteq> source) acc) k = (if k = source then None else map_of acc k)" for acc
    by (induction acc) auto
  then show ?thesis by (auto simp: take_if_ready_def split: option.split)
qed

lemma compare_loop_None: "compare_loop xs ys = None \<longleftrightarrow> take (min (length xs) (length ys)) xs = take (min (length xs) (length ys)) ys"
  by (induction xs ys rule: compare_loop.induct) auto

lemma compare_loop_Some_nonzero: "compare_loop xs ys = Some c \<Longrightarrow> c \<noteq> 0"
  by (induction xs ys rule: compare_loop.induct) (auto simp: word_uint_eq_iff split: if_splits)

lemma compare_loop_swap: "compare_loop ys xs = map_option uminus (compare_loop xs ys)"
  by (induction xs ys rule: compare_loop.induct) auto

text \<open>Lexicographic order of byte strings, as RFC 6762 section 8.2 defines it.\<close>

fun rdata_less :: "bytes \<Rightarrow> bytes \<Rightarrow> bool" where
  "rdata_less [] [] = False"
| "rdata_less [] (b # bs) = True"
| "rdata_less (a # as) [] = False"
| "rdata_less (a # as) (b # bs) = (a < b \<or> a = b \<and> rdata_less as bs)"

lemma compare_less: "compare_authority_records xs ys < 0 \<longleftrightarrow> rdata_less xs ys"
proof (induction xs ys rule: rdata_less.induct)
  case (4 a as b bs)
  then show ?case
    by (auto simp: compare_authority_records_def word_less_def split: option.splits if_splits)
qed (simp_all add: compare_authority_records_def)

lemma compare_swap: "compare_authority_records ys xs = - compare_authority_records xs ys"
  by (simp add: compare_authority_records_def compare_loop_swap [of ys xs] split: option.split)

lemma compare_zero: "compare_authority_records xs ys = 0 \<longleftrightarrow> xs = ys"
proof
  assume z: "compare_authority_records xs ys = 0"
  then have "compare_loop xs ys = None" "length xs = length ys"
    using compare_loop_Some_nonzero [of xs ys] by (auto simp: compare_authority_records_def split: option.splits if_splits)
  then show "xs = ys" by (simp add: compare_loop_None)
next
  assume "xs = ys"
  then have "compare_authority_records xs ys = - compare_authority_records xs ys"
    using compare_swap [of xs xs] by simp
  then show "compare_authority_records xs ys = 0" by simp
qed

section \<open>Properties\<close>

text \<open>
  Tiebreaking (RFC 6762 section 8.2). The comparison is the lexicographic order of unsigned
  bytes, it is antisymmetric, so that of two hosts with different records exactly one finds
  its own to be the smaller, and it is zero only for identical record data.
\<close>

lemma tiebreak_order:
  "(compare_authority_records xs ys < 0 \<longleftrightarrow> rdata_less xs ys) \<and>
   compare_authority_records ys xs = - compare_authority_records xs ys \<and>
   (compare_authority_records xs ys = 0 \<longleftrightarrow> xs = ys)"
  using compare_less compare_swap compare_zero by blast

text \<open>
  Known answers of a truncated query are collected per querier: a packet appends to the entry of
  its own sender and leaves all others alone, the first packet fixes the start of the wait, and
  taking a ready entry returns everything collected and removes it.
\<close>

lemma tc_accumulation:
  "map_of (accumulate source rs now acc) k =
     (if k = source then
        Some (case map_of acc source of
                None \<Rightarrow> \<lparr>tc_records = rs, tc_inserted_at = now\<rparr>
              | Some e \<Rightarrow> e\<lparr>tc_records := tc_records e @ rs\<rparr>)
      else map_of acc k) \<and>
   (case map_of acc source of
      None \<Rightarrow> take_if_ready source now w acc = (None, acc)
    | Some e \<Rightarrow>
        fst (take_if_ready source now w acc) = (if tc_inserted_at e + w * 1000000 \<le> now then Some (tc_records e) else None) \<and>
        map_of (snd (take_if_ready source now w acc)) k =
          (if k = source \<and> tc_inserted_at e + w * 1000000 \<le> now then None else map_of acc k))"
  unfolding map_of_accumulate map_of_take by (auto simp: take_if_ready_def split: option.split)

end
