(* ===== verification/Service_Server.thy ===== *)
theory Service_Server
  imports Server_Response Record_Identity Probe_Announce Recv_Loop
begin

text \<open>
  \<open>basic_service_server.h\<close>: the responder, instantiated with the in-process policy. The state is a
  record with the data members; asynchronous continuations are values (the wait that a timer holds,
  the tasks posted to the executor); what the server does to the outside world (datagrams, calls of
  user callbacks) is appended to \<open>out\<close>. A handler returns \<open>None\<close> when the program has no defined
  continuation: an access out of range, an empty distribution range, a failed assertion. The random
  engine is an infinite sequence of numbers. All clock readings of one event are equal (\<open>now\<close>).
\<close>

section \<open>State\<close>

datatype server_error = Sys_error int | Mdns_error mdns_error | Canceled

datatype server_effect =
    Sent endpoint bytes
  | Error_reported server_error string
  | Ready "server_error option"
  | Done "server_error option"
  | Query_seen endpoint dns_type response_mode
  | Tc_continued endpoint nat

text \<open>The continuations that the response timer and the TC timer hold.\<close>

datatype response_wait =
    Wait_first_probe
  | Wait_probe (probe_more: bool)
  | Wait_announce
  | Wait_update_announce
  | Wait_reprobe
  | Wait_respond

datatype tc_wait_for = Wait_tc endpoint int

datatype server_task = Teardown | Update service_info

text \<open>What the server gets from the system: \<open>inet_pton\<close> for IPv6 and the error code of a send.\<close>

record server_env =
  sys_inet_pton6 :: "string \<Rightarrow> bytes option"
  sys_send :: "endpoint \<Rightarrow> bytes \<Rightarrow> int option"

record server =
  m_env :: server_env
  multicast_ep :: endpoint
  m_mdns_opts :: mdns_options
  m_stopped :: bool
  m_alive :: bool
  m_loop :: "recv_loop option"
  m_response_timer :: "response_wait inproc_timer"
  m_tc_timer :: "tc_wait_for inproc_timer"
  m_info :: service_info
  m_opts :: service_options
  m_on_ready :: bool
  m_on_completion :: bool
  m_on_error :: bool
  m_rng :: "nat \<Rightarrow> nat"
  m_pa_state :: probe_announce_state
  m_pending :: pending_response
  m_tc_acc :: tc_accumulator
  m_dup_suppression :: duplicate_suppression_state
  m_posted :: "server_task list"
  out :: "server_effect list"

definition new_server ::
  "server_env \<Rightarrow> endpoint \<Rightarrow> service_info \<Rightarrow> service_options \<Rightarrow> mdns_options \<Rightarrow> bool \<Rightarrow> (nat \<Rightarrow> nat) \<Rightarrow> server" where
  "new_server env mcast info opts mopts on_error rng =
     \<lparr>m_env = env, multicast_ep = mcast, m_mdns_opts = mopts, m_stopped = False, m_alive = True, m_loop = None,
      m_response_timer = new_timer, m_tc_timer = new_timer, m_info = info, m_opts = opts, m_on_ready = False,
      m_on_completion = False, m_on_error = on_error, m_rng = rng, m_pa_state = new_pa, m_pending = empty_pending,
      m_tc_acc = [], m_dup_suppression = [], m_posted = [], out = []\<rparr>"

section \<open>Helpers\<close>

definition emit :: "server_effect \<Rightarrow> server \<Rightarrow> server" where
  "emit e s = s\<lparr>out := out s @ [e]\<rparr>"

definition socket_send :: "endpoint \<Rightarrow> bytes \<Rightarrow> string \<Rightarrow> server \<Rightarrow> server" where
  "socket_send ep packet ctxt s =
     (let s = emit (Sent ep packet) s
      in case sys_send (m_env s) ep packet of
           Some ec \<Rightarrow> if m_on_error s then emit (Error_reported (Sys_error ec) ctxt) s else s
         | None \<Rightarrow> s)"

definition send_to :: "response_mode \<Rightarrow> endpoint \<Rightarrow> bytes \<Rightarrow> string \<Rightarrow> server \<Rightarrow> server" where
  "send_to mode sender packet ctxt s =
     (if mode = Unicast then socket_send sender packet ctxt s
      else socket_send (multicast_ep s) packet ctxt s)"

text \<open>\<open>std::uniform_int_distribution(lo, hi)(m_rng)\<close>.\<close>

definition uniform_int :: "int \<Rightarrow> int \<Rightarrow> server \<Rightarrow> (int \<times> server) option" where
  "uniform_int lo hi s =
     (if hi < lo then None
      else Some (lo + int (m_rng s 0) mod (hi - lo + 1), s\<lparr>m_rng := (\<lambda>n. m_rng s (Suc n))\<rparr>))"

definition int32 :: "int \<Rightarrow> int" where
  "int32 n = sint (word_of_int n :: u32)"

definition arm_response :: "int \<Rightarrow> int \<Rightarrow> response_wait \<Rightarrow> server \<Rightarrow> server" where
  "arm_response now d w s = s\<lparr>m_response_timer := arm now d w (m_response_timer s)\<rparr>"

definition parse_answer_records :: "bytes \<Rightarrow> mdns_record_variant list option" where
  "parse_answer_records data = walk_dns_frame data no_endpoint"

section \<open>Probing and announcing\<close>

definition start_probing :: "int \<Rightarrow> server \<Rightarrow> server option" where
  "start_probing now s = do {
     let s = s\<lparr>m_pa_state := begin_probing (m_pa_state s)\<rparr>;
     (i, s) \<leftarrow> uniform_int 1 0xFFFF s;
     let s = s\<lparr>m_pa_state := (m_pa_state s)\<lparr>probe_id := word_of_int i\<rparr>\<rparr>;
     (d, s) \<leftarrow> uniform_int 0 (int32 (probe_initial_delay_max (m_opts s))) s;
     Some (arm_response now d Wait_first_probe s)
   }"

definition send_probe :: "int \<Rightarrow> server \<Rightarrow> server option" where
  "send_probe now s =
     (if pa_state (m_pa_state s) \<noteq> Probing then Some s
      else if m_stopped s then Some s
      else do {
        let probe = build_probe_query (m_info s) (word_of_int (probe_authority_ttl (m_opts s)));
        probe \<leftarrow> poke probe 0 (ucast (drop_bit 8 (probe_id (m_pa_state s))));
        probe \<leftarrow> poke probe 1 (ucast (probe_id (m_pa_state s) AND 0xFF));
        let s = socket_send (multicast_ep s) probe ''probe send'' s;
        let (more, p) = advance_probe (probe_count_opt (m_opts s)) (m_pa_state s);
        let s = s\<lparr>m_pa_state := p\<rparr>;
        Some (arm_response now (probe_interval (m_opts s)) (Wait_probe more) s)
      })"

definition validate_addresses :: "server \<Rightarrow> server" where
  "validate_addresses s =
     (let s = (case address_ipv4 (m_info s) of
                 None \<Rightarrow> s
               | Some a \<Rightarrow>
                   (case encode_ipv4 a of
                      Inr _ \<Rightarrow> s
                    | Inl e \<Rightarrow> if m_on_error s
                        then emit (Error_reported (Mdns_error e) (''invalid IPv4 address: '' @ a)) s else s))
      in case address_ipv6 (m_info s) of
           None \<Rightarrow> s
         | Some a \<Rightarrow>
             (case encode_ipv6 (sys_inet_pton6 (m_env s)) a of
                Inr _ \<Rightarrow> s
              | Inl e \<Rightarrow> if m_on_error s
                  then emit (Error_reported (Mdns_error e) (''invalid IPv6 address: '' @ a)) s else s))"

fun announce_subtype_loop :: "string list \<Rightarrow> u32 \<Rightarrow> server \<Rightarrow> server" where
  "announce_subtype_loop [] ttl s = s"
| "announce_subtype_loop (sub # subs) ttl s =
     (let pkt = build_subtype_response sub (m_info s) ttl;
          s = (if pkt \<noteq> [] then send_to Multicast no_endpoint pkt ''announcement send'' s else s)
      in announce_subtype_loop subs ttl s)"

definition send_announcement :: "server \<Rightarrow> server" where
  "send_announcement s =
     (let s = validate_addresses s;
          response = build_dns_response (sys_inet_pton6 (m_env s)) (m_info s) Type_any (m_opts s) 0xFFFFFFFF;
          s = (if response \<noteq> [] then send_to Multicast no_endpoint response ''announcement send'' s else s);
          ttl = word_of_int (record_ttl (m_opts s)) :: u32;
          s = (if respond_to_meta_queries (m_opts s) then
                 (let pkt = build_meta_query_response (m_info s) ttl
                  in if pkt \<noteq> [] then send_to Multicast no_endpoint pkt ''announcement send'' s else s)
               else s)
      in if announce_subtypes (m_opts s) then announce_subtype_loop (subtypes (m_info s)) ttl s else s)"

definition fire_on_ready :: "server_error option \<Rightarrow> server \<Rightarrow> server" where
  "fire_on_ready ec s = (if m_on_ready s then emit (Ready ec) (s\<lparr>m_on_ready := False\<rparr>) else s)"

definition fire_on_completion :: "server_error option \<Rightarrow> server \<Rightarrow> server" where
  "fire_on_completion ec s = (if m_on_completion s then emit (Done ec) (s\<lparr>m_on_completion := False\<rparr>) else s)"

definition set_state :: "server_state \<Rightarrow> server \<Rightarrow> server" where
  "set_state st s = s\<lparr>m_pa_state := (m_pa_state s)\<lparr>pa_state := st\<rparr>\<rparr>"

definition send_announce :: "int \<Rightarrow> server \<Rightarrow> server" where
  "send_announce now s =
     (if pa_state (m_pa_state s) \<noteq> Announcing then s
      else if m_stopped s then s
      else
        (let s = send_announcement s;
             (more, p) = advance_announce (announce_count_opt (m_opts s)) (m_pa_state s);
             s = s\<lparr>m_pa_state := p\<rparr>
         in if more then arm_response now (announce_interval (m_opts s)) Wait_announce s
            else fire_on_ready None (set_state Live s)))"

definition start_announcing :: "int \<Rightarrow> server \<Rightarrow> server" where
  "start_announcing now s = send_announce now (s\<lparr>m_pa_state := begin_announcing (m_pa_state s)\<rparr>)"

definition send_update_announce :: "int \<Rightarrow> server \<Rightarrow> server" where
  "send_update_announce now s =
     (if m_stopped s then s
      else if pa_state (m_pa_state s) \<noteq> Live then s
      else
        (let s = send_announcement s;
             (more, p) = advance_announce (announce_count_opt (m_opts s)) (m_pa_state s);
             s = s\<lparr>m_pa_state := p\<rparr>
         in if more then arm_response now (announce_interval (m_opts s)) Wait_update_announce s else s))"

section \<open>Conflicts\<close>

definition defer_and_reprobe :: "int \<Rightarrow> server \<Rightarrow> server" where
  "defer_and_reprobe now s = arm_response now (probe_defer_delay (m_opts s)) Wait_reprobe s"

text \<open>No callback, or the callback returned false.\<close>

definition conflict_rejected :: "int \<Rightarrow> conflict_type \<Rightarrow> server \<Rightarrow> server" where
  "conflict_rejected now ct s =
     (if ct = Tiebreak_deferred then defer_and_reprobe now s
      else fire_on_ready (Some (Mdns_error Probe_conflict)) ((set_state Stopped s)\<lparr>m_stopped := True\<rparr>))"

definition handle_conflict :: "int \<Rightarrow> conflict_type \<Rightarrow> server \<Rightarrow> server option" where
  "handle_conflict now ct s =
     (let s = s\<lparr>m_response_timer := fst (cancel (m_response_timer s))\<rparr>
      in case on_conflict (m_opts s) of
           None \<Rightarrow> Some (conflict_rejected now ct s)
         | Some callback \<Rightarrow>
             (case callback (str (service_name (m_info s))) (conflict_attempt (m_pa_state s)) ct of
                (False, _) \<Rightarrow> Some (conflict_rejected now ct s)
              | (True, new_name) \<Rightarrow>
                  (let s = (if ct = Name_conflict then
                              s\<lparr>m_info := (m_info s)\<lparr>service_name := dns_name new_name\<rparr>,
                                m_pa_state := (m_pa_state s)\<lparr>conflict_attempt := conflict_attempt (m_pa_state s) + 1\<rparr>\<rparr>
                            else s)
                   in if ct = Tiebreak_deferred then Some (defer_and_reprobe now s) else start_probing now s)))"

definition response_conflicts :: "bytes \<Rightarrow> server \<Rightarrow> bool option" where
  "response_conflicts data s = do {
     recs \<leftarrow> walk_dns_frame data no_endpoint;
     Some (list_ex (\<lambda>r. variant_name r = service_name (m_info s) \<or> variant_name r = hostname (m_info s)) recs)
   }"

definition build_our_srv_rdata :: "server \<Rightarrow> bytes" where
  "build_our_srv_rdata s =
     (let rdata = push_u16_be [] (info_priority (m_info s));
          rdata = push_u16_be rdata (info_weight (m_info s));
          rdata = push_u16_be rdata (info_port (m_info s))
      in rdata @ encode_dns_name (str (hostname (m_info s))))"

text \<open>The inner \<open>None\<close> is an early return of an empty vector.\<close>

fun skip_answers :: "nat \<Rightarrow> bytes \<Rightarrow> nat \<Rightarrow> nat option option" where
  "skip_answers 0 data offset = Some (Some offset)"
| "skip_answers (Suc n) data offset = do {
     (ok, offset) \<leftarrow> skip_dns_name data offset;
     (if \<not> ok then Some None
      else if offset + 10 > length data then Some None
      else do {
        rdlen \<leftarrow> read_u16_be data (offset + 8);
        (if offset + 10 + unat rdlen > length data then Some None
         else skip_answers n data (offset + 10 + unat rdlen))
      })
   }"

fun find_authority_srv :: "nat \<Rightarrow> bytes \<Rightarrow> nat \<Rightarrow> bytes option" where
  "find_authority_srv 0 data offset = Some []"
| "find_authority_srv (Suc n) data offset = do {
     (ok, offset) \<leftarrow> skip_dns_name data offset;
     (if \<not> ok then Some []
      else if offset + 10 > length data then Some []
      else do {
        rtype \<leftarrow> read_u16_be data offset;
        rdlen \<leftarrow> read_u16_be data (offset + 8);
        (if offset + 10 + unat rdlen > length data then Some []
         else if rtype = type_underlying Type_srv then slice data (offset + 10) (unat rdlen)
         else find_authority_srv n data (offset + 10 + unat rdlen))
      })
   }"

definition extract_authority_srv_rdata :: "bytes \<Rightarrow> bytes option" where
  "extract_authority_srv_rdata data =
     (if length data < 12 then Some []
      else do {
        qdcount \<leftarrow> read_u16_be data 4;
        ancount \<leftarrow> read_u16_be data 6;
        nscount \<leftarrow> read_u16_be data 8;
        (if nscount = 0 then Some []
         else do {
           after_q \<leftarrow> skip_questions (unat qdcount) data 12;
           (case after_q of
              None \<Rightarrow> Some []
            | Some offset \<Rightarrow> do {
                after_an \<leftarrow> skip_answers (unat ancount) data offset;
                (case after_an of
                   None \<Rightarrow> Some []
                 | Some offset \<Rightarrow> find_authority_srv (unat nscount) data offset)
              })
         })
      })"

definition handle_probing_packet :: "bytes \<Rightarrow> int \<Rightarrow> server \<Rightarrow> server option" where
  "handle_probing_packet data now s =
     (if length data < 12 then Some s
      else do {
        flags \<leftarrow> read_u16_be data 2;
        (if flags AND 0x8000 \<noteq> 0 then do {
           conflict \<leftarrow> response_conflicts data s;
           (if conflict then handle_conflict now Name_conflict s else Some s)
         } else do {
           ident \<leftarrow> read_u16_be data 0;
           nscount \<leftarrow> read_u16_be data 8;
           (if ident = probe_id (m_pa_state s) \<or> nscount = 0 then Some s
            else do {
              conflict \<leftarrow> response_conflicts data s;
              (if \<not> conflict then Some s
               else do {
                 let our_rdata = build_our_srv_rdata s;
                 their_rdata \<leftarrow> extract_authority_srv_rdata data;
                 (if their_rdata = [] then handle_conflict now Name_conflict s
                  else if compare_authority_records our_rdata their_rdata \<le> 0 then
                    handle_conflict now Tiebreak_deferred (s\<lparr>m_pa_state := begin_probing (m_pa_state s)\<rparr>)
                  else Some s)
               })
            })
         })
      })"


section \<open>Responses\<close>

fun mark_suppressed :: "mdns_record_variant \<Rightarrow> suppression_mask \<Rightarrow> suppression_mask" where
  "mark_suppressed (Rec_ptr r) m = m\<lparr>mask_ptr := True\<rparr>"
| "mark_suppressed (Rec_srv r) m = m\<lparr>mask_srv := True\<rparr>"
| "mark_suppressed (Rec_a r) m = m\<lparr>mask_a := True\<rparr>"
| "mark_suppressed (Rec_aaaa r) m = m\<lparr>mask_aaaa := True\<rparr>"
| "mark_suppressed (Rec_txt r) m = m\<lparr>mask_txt := True\<rparr>"

definition build_combined_suppression :: "server \<Rightarrow> suppression_mask option" where
  "build_combined_suppression s =
     (let dup_threshold = word_of_int (record_ttl (m_opts s)) :: u32;
          combined = suppression (m_pending s)
      in if m_dup_suppression s = [] then Some combined
         else do {
           let candidate_pkt = build_dns_response (sys_inet_pton6 (m_env s)) (m_info s) Type_any (m_opts s) 0xFFFFFFFF;
           candidates \<leftarrow> walk_dns_frame candidate_pkt no_endpoint;
           Some (foldl (\<lambda>combined r. if is_suppressed (m_dup_suppression s) r dup_threshold
                                    then mark_suppressed r combined else combined) combined candidates)
         })"

definition fire_pending_response :: "server \<Rightarrow> server option" where
  "fire_pending_response s = do {
     combined \<leftarrow> build_combined_suppression s;
     let s = s\<lparr>m_dup_suppression := reset_seen (m_dup_suppression s)\<rparr>;
     response \<leftarrow> build_response_with_nsec (sys_inet_pton6 (m_env s)) (m_info s) (pending_qtype (m_pending s))
       (pending_needs_nsec (m_pending s)) combined (suppress_known_answers (m_opts s)) (m_opts s);
     let s = s\<lparr>m_pending := reset (m_pending s)\<rparr>;
     Some (if response \<noteq> [] then send_to Multicast no_endpoint response ''response send'' s else s)
   }"

definition schedule_multicast_response ::
  "int \<Rightarrow> dns_type \<Rightarrow> bool \<Rightarrow> suppression_mask \<Rightarrow> server \<Rightarrow> server option" where
  "schedule_multicast_response now qtype needs_nsec supp s =
     (let was_armed = armed (m_pending s);
          s = s\<lparr>m_pending := merge qtype needs_nsec supp (m_pending s)\<rparr>
      in if was_armed then Some s
         else do {
           (d, s) \<leftarrow> uniform_int (int32 (response_delay_min (m_mdns_opts s))) (int32 (response_delay_max (m_mdns_opts s))) s;
           Some (arm_response now d Wait_respond s)
         })"

definition send_meta_and_subtype_responses :: "query_match_result \<Rightarrow> endpoint \<Rightarrow> server \<Rightarrow> server" where
  "send_meta_and_subtype_responses qmr sender s =
     (let ttl = word_of_int (record_ttl (m_opts s)) :: u32;
          s = (if meta_matched qmr then
                 send_to (match_mode qmr) sender (build_meta_query_response (m_info s) ttl) ''meta-query response send'' s
               else s)
      in if matched_subtype qmr \<noteq> [] then
           send_to (match_mode qmr) sender (build_subtype_response (matched_subtype qmr) (m_info s) ttl)
             ''subtype response send'' s
         else s)"

definition handle_legacy_unicast :: "endpoint \<Rightarrow> bytes \<Rightarrow> server \<Rightarrow> server option" where
  "handle_legacy_unicast sender cdata s = do {
     qmr \<leftarrow> match_queries cdata (m_info s) (m_opts s);
     (if \<not> any_matched qmr then Some s
      else
        (let legacy_cap = word_of_int (legacy_unicast_ttl (m_mdns_opts s)) :: u32;
             pkt = build_dns_response (sys_inet_pton6 (m_env s)) (m_info s) (accumulated_qtype qmr) (m_opts s) legacy_cap
         in Some (if pkt \<noteq> [] then send_to Unicast sender pkt ''legacy unicast response'' s else s)))
   }"

definition handle_normal_query :: "endpoint \<Rightarrow> bytes \<Rightarrow> int \<Rightarrow> server \<Rightarrow> server option" where
  "handle_normal_query sender cdata now s =
     (if respond_to_legacy_unicast (m_opts s) \<and> ep_port sender \<noteq> 0 \<and> ep_port sender \<noteq> 5353
      then handle_legacy_unicast sender cdata s
      else do {
        qmr \<leftarrow> match_queries cdata (m_info s) (m_opts s);
        (if \<not> any_matched qmr \<and> \<not> meta_matched qmr \<and> matched_subtype qmr = [] then Some s
         else do {
           supp \<leftarrow> (if suppress_known_answers (m_opts s) \<and> any_matched qmr then do {
                      ka_threshold \<leftarrow> ttl_fraction (mdns_record_ttl (m_mdns_opts s)) (ka_suppression_fraction (m_mdns_opts s));
                      parse_known_answers cdata (offset_after_questions qmr) (m_info s) ka_threshold
                    } else Some empty_mask);
           let s = (if has_on_query (m_opts s) \<and> any_matched qmr
                    then emit (Query_seen sender (accumulated_qtype qmr) (match_mode qmr)) s else s);
           let s = send_meta_and_subtype_responses qmr sender s;
           (if \<not> any_matched qmr then Some s
            else if suppress_known_answers (m_opts s) \<and> all_suppressed supp (accumulated_qtype qmr) (m_info s) then Some s
            else if match_mode qmr = Unicast then do {
              pkt \<leftarrow> build_response_with_nsec (sys_inet_pton6 (m_env s)) (m_info s) (accumulated_qtype qmr)
                (match_needs_nsec qmr) supp (suppress_known_answers (m_opts s)) (m_opts s);
              Some (if pkt \<noteq> [] then send_to Unicast sender pkt ''response send'' s else s)
            }
            else schedule_multicast_response now (accumulated_qtype qmr) (match_needs_nsec qmr) supp s)
         })
      })"

section \<open>Truncated queries\<close>

definition build_tc_suppression :: "mdns_record_variant list \<Rightarrow> server \<Rightarrow> suppression_mask option" where
  "build_tc_suppression merged s = do {
     ka_threshold \<leftarrow> ttl_fraction (mdns_record_ttl (m_mdns_opts s)) (tc_suppression_fraction (m_mdns_opts s));
     Some (foldl (\<lambda>supp r. if is_service_name (m_info s) (variant_name r) \<and> rec_ttl (visit_base r) \<ge> ka_threshold
                          then mark_suppressed r supp else supp) empty_mask merged)
   }"

definition time_point_max :: int where
  "time_point_max = 2 ^ 63 - 1"

definition on_tc_wait_expired :: "endpoint \<Rightarrow> int \<Rightarrow> int \<Rightarrow> server \<Rightarrow> server option" where
  "on_tc_wait_expired sender tc_wait now s =
     (if m_stopped s then Some s
      else if pa_state (m_pa_state s) \<noteq> Live then Some s
      else
        (let (merged, acc) = take_if_ready sender time_point_max tc_wait (m_tc_acc s);
             s = s\<lparr>m_tc_acc := acc\<rparr>
         in case merged of
              None \<Rightarrow> Some s
            | Some records \<Rightarrow> do {
                let s = (if has_on_tc_continuation (m_opts s) then emit (Tc_continued sender (length records)) s else s);
                supp \<leftarrow> build_tc_suppression records s;
                (if suppress_known_answers (m_opts s) \<and> all_suppressed supp Type_any (m_info s) then Some s
                 else schedule_multicast_response now Type_any False supp s)
              }))"

definition handle_tc_query :: "endpoint \<Rightarrow> bytes \<Rightarrow> int \<Rightarrow> server \<Rightarrow> server option" where
  "handle_tc_query sender cdata now s = do {
     answer_records \<leftarrow> parse_answer_records cdata;
     let is_first = (\<not> has_pending sender (m_tc_acc s));
     let s = s\<lparr>m_tc_acc := accumulate sender answer_records now (m_tc_acc s)\<rparr>;
     (if \<not> is_first then Some s
      else do {
        (tc_wait, s) \<leftarrow> uniform_int (int32 (tc_wait_min (m_mdns_opts s))) (int32 (tc_wait_max (m_mdns_opts s))) s;
        Some (s\<lparr>m_tc_timer := arm now tc_wait (Wait_tc sender tc_wait) (m_tc_timer s)\<rparr>)
      })
   }"

section \<open>Packets\<close>

definition observe_multicast_response :: "bytes \<Rightarrow> server \<Rightarrow> server option" where
  "observe_multicast_response cdata s =
     (if \<not> armed (m_pending s) then Some s
      else do {
        answer_records \<leftarrow> parse_answer_records cdata;
        Some (s\<lparr>m_dup_suppression :=
                foldl (\<lambda>d r. observe r (rec_ttl (visit_base r)) d) (m_dup_suppression s) answer_records\<rparr>)
      })"

definition on_packet :: "endpoint \<Rightarrow> bytes \<Rightarrow> int \<Rightarrow> server \<Rightarrow> server option" where
  "on_packet sender data now s =
     (if m_stopped s then Some s
      else if pa_state (m_pa_state s) = Probing then handle_probing_packet data now s
      else if pa_state (m_pa_state s) \<noteq> Live then Some s
      else if length data < 12 then Some s
      else do {
        flags \<leftarrow> read_u16_be data 2;
        (if flags AND 0x8000 \<noteq> 0 then observe_multicast_response data s
         else if flags AND 0x0200 \<noteq> 0 then handle_tc_query sender data now s
         else handle_normal_query sender data now s)
      })"

text \<open>The callback of the receive loop.\<close>

definition server_on_packet :: "recv_metadata \<Rightarrow> bytes \<Rightarrow> int \<Rightarrow> server \<Rightarrow> (server \<times> bool) option" where
  "server_on_packet meta data now s = map_option (\<lambda>s. (s, True)) (on_packet (rm_sender meta) data now s)"

section \<open>Lifecycle\<close>

definition goodbye_options :: service_options where
  "goodbye_options = default_service_options\<lparr>ptr_ttl := 0, srv_ttl := 0, txt_ttl := 0, a_ttl := 0, aaaa_ttl := 0, record_ttl := 0\<rparr>"

definition send_goodbye_if_needed :: "server \<Rightarrow> server" where
  "send_goodbye_if_needed s =
     (if \<not> send_goodbye (m_opts s) then s
      else if pa_state (m_pa_state s) \<noteq> Live \<and> pa_state (m_pa_state s) \<noteq> Announcing then s
      else
        (let goodbye = build_dns_response (sys_inet_pton6 (m_env s)) (m_info s) Type_any goodbye_options 0xFFFFFFFF
         in if goodbye \<noteq> [] then socket_send (multicast_ep s) goodbye ''goodbye send'' s else s))"

definition stop :: "server \<Rightarrow> server" where
  "stop s =
     (if m_stopped s then s
      else
        (let s = s\<lparr>m_stopped := True\<rparr>;
             s = send_goodbye_if_needed s
         in s\<lparr>m_posted := m_posted s @ [Teardown]\<rparr>))"

definition teardown :: "server \<Rightarrow> server" where
  "teardown s =
     (if \<not> m_alive s then s
      else
        (let s = (if pa_state (m_pa_state s) = Probing \<or> pa_state (m_pa_state s) = Announcing
                  then fire_on_ready (Some Canceled) s else s);
             s = set_state Stopped s;
             s = s\<lparr>m_pending := (m_pending s)\<lparr>armed := False\<rparr>,
                   m_response_timer := fst (cancel (m_response_timer s)),
                   m_tc_timer := fst (cancel (m_tc_timer s)),
                   m_tc_acc := clear (m_tc_acc s),
                   m_loop := map_option stop_loop (m_loop s)\<rparr>
         in fire_on_completion None s))"

definition update_service_info :: "service_info \<Rightarrow> server \<Rightarrow> server option" where
  "update_service_info new_info s =
     (if m_stopped s then None else Some (s\<lparr>m_posted := m_posted s @ [Update new_info]\<rparr>))"

definition run_update :: "service_info \<Rightarrow> int \<Rightarrow> server \<Rightarrow> server" where
  "run_update info now s =
     (if \<not> m_alive s then s
      else if m_stopped s then s
      else
        (let s = s\<lparr>m_info := info, m_pa_state := (m_pa_state s)\<lparr>announce_count := 0\<rparr>\<rparr>
         in send_update_announce now s))"

definition run_posted :: "int \<Rightarrow> server \<Rightarrow> server" where
  "run_posted now s =
     (case m_posted s of
        [] \<Rightarrow> s
      | Teardown # ts \<Rightarrow> teardown (s\<lparr>m_posted := ts\<rparr>)
      | Update info # ts \<Rightarrow> run_update info now (s\<lparr>m_posted := ts\<rparr>))"

definition do_start :: "int \<Rightarrow> server \<Rightarrow> server option" where
  "do_start now s = do {
     let s = s\<lparr>m_loop := Some (new_loop (24 * 365 * 3600000) (receive_ttl_minimum (m_mdns_opts s))
                               (unknown_ttl_policy (m_mdns_opts s)))\<rparr>;
     s \<leftarrow> start_probing now s;
     Some (s\<lparr>m_loop := map_option (start_loop now) (m_loop s)\<rparr>)
   }"

text \<open>The Booleans tell whether the handlers are set.\<close>

definition async_start :: "bool \<Rightarrow> bool \<Rightarrow> int \<Rightarrow> server \<Rightarrow> server option" where
  "async_start on_ready on_done now s =
     (if pa_state (m_pa_state s) \<noteq> Idle then None
      else
        (let s = (if on_ready then s\<lparr>m_on_ready := True\<rparr> else s);
             s = (if on_done then s\<lparr>m_on_completion := True\<rparr> else s)
         in do_start now s))"

definition destroy :: "server \<Rightarrow> server" where
  "destroy s =
     (let s = s\<lparr>m_alive := False\<rparr>;
          s = s\<lparr>m_loop := map_option stop_loop (m_loop s)\<rparr>
      in stop s)"

section \<open>Timers\<close>

definition on_response_wait :: "response_wait \<Rightarrow> int \<Rightarrow> server \<Rightarrow> server option" where
  "on_response_wait w now s =
     (case w of
        Wait_first_probe \<Rightarrow>
          if pa_state (m_pa_state s) \<noteq> Probing then Some s else if m_stopped s then Some s else send_probe now s
      | Wait_probe again \<Rightarrow>
          if pa_state (m_pa_state s) \<noteq> Probing then Some s else if m_stopped s then Some s
          else if again then send_probe now s else Some (start_announcing now s)
      | Wait_announce \<Rightarrow>
          Some (if pa_state (m_pa_state s) \<noteq> Announcing then s else if m_stopped s then s else send_announce now s)
      | Wait_update_announce \<Rightarrow>
          Some (if m_stopped s then s else if pa_state (m_pa_state s) \<noteq> Live then s else send_update_announce now s)
      | Wait_reprobe \<Rightarrow> if m_stopped s then Some s else start_probing now s
      | Wait_respond \<Rightarrow>
          if m_stopped s then Some s else if pa_state (m_pa_state s) \<noteq> Live then Some s else fire_pending_response s)"

definition fire_response_timer :: "int \<Rightarrow> server \<Rightarrow> server option" where
  "fire_response_timer now s =
     (let (t, w) = try_fire now (m_response_timer s);
          s = s\<lparr>m_response_timer := t\<rparr>
      in case w of None \<Rightarrow> Some s | Some w \<Rightarrow> on_response_wait w now s)"

definition fire_tc_timer :: "int \<Rightarrow> server \<Rightarrow> server option" where
  "fire_tc_timer now s =
     (let (t, w) = try_fire now (m_tc_timer s);
          s = s\<lparr>m_tc_timer := t\<rparr>
      in case w of
           None \<Rightarrow> Some s
         | Some (Wait_tc sender tc_wait) \<Rightarrow> if m_stopped s then Some s else on_tc_wait_expired sender tc_wait now s)"

section \<open>The receive loop of the server\<close>

definition get_loop :: "server \<Rightarrow> recv_loop" where
  "get_loop s = the (m_loop s)"

definition put_loop :: "recv_loop \<Rightarrow> server \<Rightarrow> server" where
  "put_loop l s = s\<lparr>m_loop := Some l\<rparr>"

definition server_receive :: "recv_metadata \<Rightarrow> bytes \<Rightarrow> int \<Rightarrow> server \<Rightarrow> server option" where
  "server_receive meta data now s =
     (if m_loop s = None then Some s else receive get_loop put_loop server_on_packet meta data now s)"

section \<open>Events\<close>

datatype server_event =
    Ev_start bool bool
  | Ev_stop
  | Ev_update service_info
  | Ev_posted
  | Ev_response_timer
  | Ev_tc_timer
  | Ev_silence
  | Ev_packet recv_metadata bytes
  | Ev_destroy

fun server_step :: "server_event \<Rightarrow> int \<Rightarrow> server \<Rightarrow> server option" where
  "server_step (Ev_start on_ready on_done) now s = async_start on_ready on_done now s"
| "server_step Ev_stop now s = Some (stop s)"
| "server_step (Ev_update info) now s = update_service_info info s"
| "server_step Ev_posted now s = Some (run_posted now s)"
| "server_step Ev_response_timer now s = fire_response_timer now s"
| "server_step Ev_tc_timer now s = fire_tc_timer now s"
| "server_step Ev_silence now s =
     (if m_loop s = None then Some s else Some (silence get_loop put_loop (\<lambda>s. s) now s))"
| "server_step (Ev_packet meta data) now s = server_receive meta data now s"
| "server_step Ev_destroy now s = Some (destroy s)"

end
