(* ===== verification/Server_Safety.thy ===== *)
theory Server_Safety
  imports Service_Server
begin

text \<open>
  Safety of the responder: every event leads to a defined state as long as the names of the service
  can be encoded and the options are sensible, and the lifecycle callbacks fire at most once.
\<close>

section \<open>Operations that only produce output\<close>

definition appends :: "server \<Rightarrow> server \<Rightarrow> (server_effect \<Rightarrow> bool) \<Rightarrow> bool" where
  "appends s s' P \<longleftrightarrow> (\<exists>es. s' = s\<lparr>out := out s @ es\<rparr> \<and> list_all P es)"

fun is_io :: "server_effect \<Rightarrow> bool" where
  "is_io (Sent ep p) = True"
| "is_io (Error_reported e c) = True"
| "is_io _ = False"

lemma appends_refl [simp, intro]: "appends s s P"
  by (auto simp: appends_def intro!: exI [of _ "[]"])

lemma appends_trans [trans]: "appends s t P \<Longrightarrow> appends t u P \<Longrightarrow> appends s u P"
  by (auto simp: appends_def)

lemma appends_emit: "P e \<Longrightarrow> appends s (emit e s) P"
  by (auto simp: appends_def emit_def)

lemma appends_sel:
  assumes "appends s s' P"
  shows "m_env s' = m_env s" "multicast_ep s' = multicast_ep s" "m_mdns_opts s' = m_mdns_opts s" "m_stopped s' = m_stopped s"
    "m_alive s' = m_alive s" "m_loop s' = m_loop s" "m_response_timer s' = m_response_timer s" "m_tc_timer s' = m_tc_timer s"
    "m_info s' = m_info s" "m_opts s' = m_opts s" "m_on_ready s' = m_on_ready s" "m_on_completion s' = m_on_completion s"
    "m_on_error s' = m_on_error s" "m_rng s' = m_rng s" "m_pa_state s' = m_pa_state s" "m_pending s' = m_pending s"
    "m_tc_acc s' = m_tc_acc s" "m_dup_suppression s' = m_dup_suppression s" "m_posted s' = m_posted s"
  using assms by (auto simp: appends_def)

lemma appends_socket_send: "appends s (socket_send ep p c s) is_io"
proof -
  have a: "appends s (emit (Sent ep p) s) is_io" by (simp add: appends_emit)
  have "appends (emit (Sent ep p) s) (socket_send ep p c s) is_io"
    by (auto simp: socket_send_def Let_def intro: appends_emit split: option.split)
  with a show ?thesis by (rule appends_trans)
qed

lemma appends_send_to: "appends s (send_to m ep p c s) is_io"
  by (simp add: send_to_def appends_socket_send)

lemma appends_validate: "appends s (validate_addresses s) is_io"
proof -
  have "appends s (case address_ipv4 (m_info s) of None \<Rightarrow> s | Some a \<Rightarrow>
      (case encode_ipv4 a of Inr _ \<Rightarrow> s | Inl e \<Rightarrow> if m_on_error s
        then emit (Error_reported (Mdns_error e) (''invalid IPv4 address: '' @ a)) s else s)) is_io" (is "appends s ?t is_io")
    by (auto intro: appends_emit split: option.split sum.split)
  moreover have "appends ?t (validate_addresses s) is_io"
    unfolding validate_addresses_def Let_def by (auto intro: appends_emit split: option.split sum.split)
  ultimately show ?thesis by (rule appends_trans)
qed

lemma appends_subtypes: "appends s (announce_subtype_loop subs ttl s) is_io"
proof (induction subs arbitrary: s)
  case (Cons sub subs)
  let ?t = "if build_subtype_response sub (m_info s) ttl \<noteq> []
    then send_to Multicast no_endpoint (build_subtype_response sub (m_info s) ttl) ''announcement send'' s else s"
  have "appends s ?t is_io" by (simp add: appends_send_to)
  also have "appends ?t (announce_subtype_loop subs ttl ?t) is_io" by (rule Cons.IH)
  finally show ?case by (simp add: Let_def)
qed simp

lemma appends_if: "(b \<Longrightarrow> appends s t P) \<Longrightarrow> (\<not> b \<Longrightarrow> appends s u P) \<Longrightarrow> appends s (if b then t else u) P"
  by simp

lemma appends_announcement: "appends s (send_announcement s) is_io"
  unfolding send_announcement_def Let_def
  by (rule appends_if appends_validate appends_refl appends_trans [OF _ appends_subtypes] appends_trans [OF _ appends_send_to])+

lemma appends_goodbye: "appends s (send_goodbye_if_needed s) is_io"
  by (auto simp: send_goodbye_if_needed_def Let_def intro: appends_socket_send)

lemma appends_meta: "appends s (send_meta_and_subtype_responses qmr sender s) is_io"
  unfolding send_meta_and_subtype_responses_def Let_def
  by (rule appends_if appends_refl appends_trans [OF _ appends_send_to])+

lemmas io_sels [simp] =
  appends_sel [OF appends_socket_send] appends_sel [OF appends_send_to] appends_sel [OF appends_validate]
  appends_sel [OF appends_announcement] appends_sel [OF appends_goodbye] appends_sel [OF appends_meta]

lemma emit_sels [simp]:
  "m_env (emit e s) = m_env s" "multicast_ep (emit e s) = multicast_ep s" "m_mdns_opts (emit e s) = m_mdns_opts s"
  "m_stopped (emit e s) = m_stopped s" "m_alive (emit e s) = m_alive s" "m_loop (emit e s) = m_loop s"
  "m_response_timer (emit e s) = m_response_timer s" "m_tc_timer (emit e s) = m_tc_timer s" "m_info (emit e s) = m_info s"
  "m_opts (emit e s) = m_opts s" "m_on_ready (emit e s) = m_on_ready s" "m_on_completion (emit e s) = m_on_completion s"
  "m_on_error (emit e s) = m_on_error s" "m_rng (emit e s) = m_rng s" "m_pa_state (emit e s) = m_pa_state s"
  "m_pending (emit e s) = m_pending s" "m_tc_acc (emit e s) = m_tc_acc s" "m_dup_suppression (emit e s) = m_dup_suppression s"
  "m_posted (emit e s) = m_posted s"
  by (simp_all add: emit_def)

section \<open>Sensible configurations\<close>

definition encodable :: "service_info \<Rightarrow> bool" where
  "encodable info \<longleftrightarrow>
     encode_dns_name (str (service_name info)) \<noteq> [] \<and> encode_dns_name (str (hostname info)) \<noteq> []"

text \<open>Distribution ranges are not empty, TTL fractions fit, and renaming callbacks propose encodable names.\<close>

definition sane_options :: "service_options \<Rightarrow> mdns_options \<Rightarrow> bool" where
  "sane_options opts mopts \<longleftrightarrow>
     0 \<le> int32 (probe_initial_delay_max opts) \<and>
     int32 (response_delay_min mopts) \<le> int32 (response_delay_max mopts) \<and>
     int32 (tc_wait_min mopts) \<le> int32 (tc_wait_max mopts) \<and>
     ttl_fraction (mdns_record_ttl mopts) (ka_suppression_fraction mopts) \<noteq> None \<and>
     ttl_fraction (mdns_record_ttl mopts) (tc_suppression_fraction mopts) \<noteq> None \<and>
     (\<forall>f n a new. on_conflict opts = Some f \<longrightarrow> f n a Name_conflict = (True, new) \<longrightarrow>
        encode_dns_name (str (dns_name new)) \<noteq> [])"

fun task_ok :: "server_task \<Rightarrow> bool" where
  "task_ok Teardown = True"
| "task_ok (Update info) = encodable info"

definition server_ok :: "server \<Rightarrow> bool" where
  "server_ok s \<longleftrightarrow> sane_options (m_opts s) (m_mdns_opts s) \<and> encodable (m_info s) \<and> list_all task_ok (m_posted s)"

text \<open>What the callers of the interface must respect.\<close>

fun event_ok :: "server_event \<Rightarrow> server \<Rightarrow> bool" where
  "event_ok (Ev_start on_ready on_done) s \<longleftrightarrow> pa_state (m_pa_state s) = Idle"
| "event_ok (Ev_update info) s \<longleftrightarrow> \<not> m_stopped s \<and> encodable info"
| "event_ok _ s \<longleftrightarrow> True"

text \<open>Steps that keep the configuration.\<close>

definition keeps :: "server \<Rightarrow> server \<Rightarrow> bool" where
  "keeps s s' \<longleftrightarrow> m_opts s' = m_opts s \<and> m_mdns_opts s' = m_mdns_opts s \<and> m_posted s' = m_posted s \<and>
     (encodable (m_info s) \<longrightarrow> encodable (m_info s'))"

lemma keeps_ok: "keeps s s' \<Longrightarrow> server_ok s \<Longrightarrow> server_ok s'"
  by (simp add: keeps_def server_ok_def)

lemma keepsI:
  "m_opts s' = m_opts s \<Longrightarrow> m_mdns_opts s' = m_mdns_opts s \<Longrightarrow> m_posted s' = m_posted s \<Longrightarrow> m_info s' = m_info s \<Longrightarrow> keeps s s'"
  by (simp add: keeps_def)

lemma keeps_trans: "keeps s t \<Longrightarrow> keeps t u \<Longrightarrow> keeps s u"
  by (auto simp: keeps_def)

text \<open>A handler is safe when it has a defined result that keeps the configuration.\<close>

definition safe_result :: "server \<Rightarrow> server option \<Rightarrow> bool" where
  "safe_result s r \<longleftrightarrow> (\<exists>s'. r = Some s' \<and> keeps s s')"

lemma safe_Some: "keeps s s' \<Longrightarrow> safe_result s (Some s')"
  by (simp add: safe_result_def)

lemma safe_same [simp]: "safe_result s (Some s)"
  by (simp add: safe_result_def keepsI)

lemma safe_after: "keeps s t \<Longrightarrow> safe_result t r \<Longrightarrow> safe_result s r"
  by (auto simp: safe_result_def intro: keeps_trans)

lemma server_ok_congI:
  "server_ok s \<Longrightarrow> m_opts s' = m_opts s \<Longrightarrow> m_mdns_opts s' = m_mdns_opts s \<Longrightarrow> m_posted s' = m_posted s \<Longrightarrow>
     m_info s' = m_info s \<Longrightarrow> server_ok s'"
  by (simp add: server_ok_def)

section \<open>Handlers are safe\<close>

definition draw :: "int \<Rightarrow> int \<Rightarrow> server \<Rightarrow> int" where
  "draw lo hi s = lo + int (m_rng s 0) mod (hi - lo + 1)"

lemma uniform_int_Some:
  "lo \<le> hi \<Longrightarrow> uniform_int lo hi s = Some (draw lo hi s, s\<lparr>m_rng := (\<lambda>n. m_rng s (Suc n))\<rparr>)"
  by (simp add: uniform_int_def draw_def)

lemma draw_bounds:
  assumes "lo \<le> hi"
  shows "lo \<le> draw lo hi s" "draw lo hi s \<le> hi"
  using assms pos_mod_sign [of "hi - lo + 1" "int (m_rng s 0)"] pos_mod_bound [of "hi - lo + 1" "int (m_rng s 0)"]
  unfolding draw_def by linarith+

lemma start_probing_safe:
  assumes "server_ok s"
  shows "safe_result s (start_probing now s)"
  using assms
  by (auto simp: start_probing_def Let_def safe_result_def arm_response_def server_ok_def sane_options_def uniform_int_Some
      intro!: keepsI)

lemma build_probe_query_length: "encodable info \<Longrightarrow> 12 \<le> length (build_probe_query info ttl)"
  by (simp add: build_probe_query_def Let_def encodable_def append_dns_rr_eq push_be)

lemma send_probe_safe:
  assumes "server_ok s"
  shows "safe_result s (send_probe now s)"
proof -
  let ?p = "build_probe_query (m_info s) (word_of_int (probe_authority_ttl (m_opts s)))"
  have "12 \<le> length ?p" using assms by (intro build_probe_query_length) (simp add: server_ok_def)
  then have "?p \<noteq> []" "Suc 0 < length ?p" by auto
  then show ?thesis
    by (auto simp: send_probe_def Let_def poke_def safe_result_def arm_response_def advance_probe_def intro!: keepsI)
qed

lemma fire_on_ready_sels [simp]:
  "m_opts (fire_on_ready ec s) = m_opts s" "m_mdns_opts (fire_on_ready ec s) = m_mdns_opts s"
  "m_posted (fire_on_ready ec s) = m_posted s" "m_info (fire_on_ready ec s) = m_info s"
  "m_stopped (fire_on_ready ec s) = m_stopped s" "m_pa_state (fire_on_ready ec s) = m_pa_state s"
  "m_on_completion (fire_on_ready ec s) = m_on_completion s" "m_alive (fire_on_ready ec s) = m_alive s"
  "m_pending (fire_on_ready ec s) = m_pending s" "m_response_timer (fire_on_ready ec s) = m_response_timer s"
  "m_tc_timer (fire_on_ready ec s) = m_tc_timer s" "m_tc_acc (fire_on_ready ec s) = m_tc_acc s"
  "m_loop (fire_on_ready ec s) = m_loop s"
  by (simp_all add: fire_on_ready_def)

lemma fire_on_completion_sels [simp]:
  "m_opts (fire_on_completion ec s) = m_opts s" "m_mdns_opts (fire_on_completion ec s) = m_mdns_opts s"
  "m_posted (fire_on_completion ec s) = m_posted s" "m_info (fire_on_completion ec s) = m_info s"
  "m_stopped (fire_on_completion ec s) = m_stopped s" "m_pa_state (fire_on_completion ec s) = m_pa_state s"
  "m_on_ready (fire_on_completion ec s) = m_on_ready s" "m_alive (fire_on_completion ec s) = m_alive s"
  "m_pending (fire_on_completion ec s) = m_pending s" "m_response_timer (fire_on_completion ec s) = m_response_timer s"
  "m_tc_timer (fire_on_completion ec s) = m_tc_timer s" "m_tc_acc (fire_on_completion ec s) = m_tc_acc s"
  "m_loop (fire_on_completion ec s) = m_loop s"
  by (simp_all add: fire_on_completion_def)

lemma send_announce_keeps: "keeps s (send_announce now s)"
  by (intro keepsI) (simp_all add: send_announce_def Let_def advance_announce_def arm_response_def set_state_def)

lemma start_announcing_keeps: "keeps s (start_announcing now s)"
  unfolding start_announcing_def by (rule keeps_trans [OF _ send_announce_keeps]) (simp add: keepsI)

lemma send_update_announce_keeps: "keeps s (send_update_announce now s)"
  by (intro keepsI) (simp_all add: send_update_announce_def Let_def advance_announce_def arm_response_def)


lemma conflict_rejected_keeps: "keeps s (conflict_rejected now ct s)"
  by (intro keepsI) (simp_all add: conflict_rejected_def defer_and_reprobe_def arm_response_def set_state_def)

lemma handle_conflict_safe:
  assumes "server_ok s"
  shows "safe_result s (handle_conflict now ct s)"
proof -
  let ?s = "s\<lparr>m_response_timer := fst (cancel (m_response_timer s))\<rparr>"
  have k: "keeps s ?s" by (simp add: keepsI)
  have rej: "safe_result s (Some (conflict_rejected now ct ?s))"
    by (rule safe_after [OF k]) (simp add: safe_Some conflict_rejected_keeps)
  show ?thesis
  proof (cases "on_conflict (m_opts s)")
    case None
    with rej show ?thesis by (simp add: handle_conflict_def)
  next
    case (Some f)
    obtain ok new where f: "f (str (service_name (m_info s))) (conflict_attempt (m_pa_state s)) ct = (ok, new)" by fastforce
    show ?thesis
    proof (cases ok)
      case False
      with Some f rej show ?thesis by (simp add: handle_conflict_def)
    next
      case True
      show ?thesis
      proof (cases ct)
        case Tiebreak_deferred
        then show ?thesis
          using Some f True by (auto simp: handle_conflict_def defer_and_reprobe_def arm_response_def intro!: safe_Some keepsI)
      next
        case Name_conflict
        let ?t = "?s\<lparr>m_info := (m_info s)\<lparr>service_name := dns_name new\<rparr>,
          m_pa_state := (m_pa_state s)\<lparr>conflict_attempt := conflict_attempt (m_pa_state s) + 1\<rparr>\<rparr>"
        have "encode_dns_name (str (dns_name new)) \<noteq> []"
          using assms Some f True Name_conflict by (simp add: server_ok_def sane_options_def)
        then have kt: "keeps s ?t" by (simp add: keeps_def encodable_def)
        have "safe_result ?t (start_probing now ?t)" by (rule start_probing_safe [OF keeps_ok [OF kt assms]])
        with kt have "safe_result s (start_probing now ?t)" by (rule safe_after)
        then show ?thesis using Some f True Name_conflict by (simp add: handle_conflict_def Let_def)
      qed
    qed
  qed
qed

lemma response_conflicts_total: "\<exists>b. response_conflicts data s = Some b"
  using walk_dns_frame_range [of data no_endpoint] by (auto simp: response_conflicts_def)

lemma skip_answers_total: "\<exists>r. skip_answers n data off = Some r"
proof (induction n arbitrary: off)
  case (Suc n)
  show ?case
  proof (cases rule: skip_dns_name_cases [of data off])
    case (ok off')
    show ?thesis
    proof (cases "off' + 10 > length data")
      case False
      then obtain len where "read_u16_be data (off' + 8) = Some len" using u16.rd_some [of "off' + 8" data] by fastforce
      with ok False Suc.IH show ?thesis by simp
    qed (simp add: ok)
  qed simp
qed simp

lemma find_authority_srv_total: "\<exists>r. find_authority_srv n data off = Some r"
proof (induction n arbitrary: off)
  case (Suc n)
  show ?case
  proof (cases rule: skip_dns_name_cases [of data off])
    case (ok off')
    show ?thesis
    proof (cases "off' + 10 > length data")
      case False
      then obtain t len where "read_u16_be data off' = Some t" "read_u16_be data (off' + 8) = Some len"
        using u16.rd_some [of off' data] u16.rd_some [of "off' + 8" data] by fastforce
      with ok False Suc.IH show ?thesis by (simp add: slice_def)
    qed (simp add: ok)
  qed simp
qed simp

lemma extract_authority_total: "\<exists>r. extract_authority_srv_rdata data = Some r"
proof (cases "length data < 12")
  case False
  obtain q a n where rd: "read_u16_be data 4 = Some q" "read_u16_be data 6 = Some a" "read_u16_be data 8 = Some n"
    using False u16.rd_some [of 4 data] u16.rd_some [of 6 data] u16.rd_some [of 8 data] by fastforce
  obtain r where r: "skip_questions (unat q) data 12 = Some r" using skip_questions_total by blast
  show ?thesis
  proof (cases r)
    case (Some off)
    obtain r' where "skip_answers (unat a) data off = Some r'" using skip_answers_total by blast
    with False rd r Some find_authority_srv_total show ?thesis
      by (cases r') (simp_all add: extract_authority_srv_rdata_def)
  qed (use False rd r in \<open>simp add: extract_authority_srv_rdata_def\<close>)
qed (simp add: extract_authority_srv_rdata_def)

lemma handle_probing_packet_safe:
  assumes "server_ok s"
  shows "safe_result s (handle_probing_packet data now s)"
proof (cases "length data < 12")
  case False
  obtain f i n where rd: "read_u16_be data 2 = Some f" "read_u16_be data 0 = Some i" "read_u16_be data 8 = Some n"
    using False u16.rd_some [of 2 data] u16.rd_some [of 0 data] u16.rd_some [of 8 data] by fastforce
  obtain c where c: "response_conflicts data s = Some c" using response_conflicts_total by blast
  obtain t where t: "extract_authority_srv_rdata data = Some t" using extract_authority_total by blast
  let ?s = "s\<lparr>m_pa_state := begin_probing (m_pa_state s)\<rparr>"
  have k: "keeps s ?s" by (simp add: keepsI)
  have "safe_result s (handle_conflict now Tiebreak_deferred ?s)"
    by (rule safe_after [OF k handle_conflict_safe [OF keeps_ok [OF k assms]]])
  with handle_conflict_safe [OF assms] False rd c t show ?thesis
    by (simp add: handle_probing_packet_def Let_def)
qed (simp add: handle_probing_packet_def)

section \<open>Responses are safe\<close>

definition packet_or_none :: "bytes \<Rightarrow> bool" where
  "packet_or_none p \<longleftrightarrow> p = [] \<or> 12 \<le> length p"

lemma packet_or_noneI:
  "packet_or_none []"
  "packet_or_none t \<Longrightarrow> packet_or_none u \<Longrightarrow> packet_or_none (if b then t else u)"
  "(\<And>a b c d. packet_or_none (f a b c d)) \<Longrightarrow>
     packet_or_none (case x of None \<Rightarrow> [] | Some ((a, b), (c, d)) \<Rightarrow> f a b c d)"
  "packet_or_none ((push_u16_be (push_u16_be (push_u16_be (push_u16_be (push_u16_be (be16 i) j) k) l) m) n @ ans) @ add)"
  by (auto simp: packet_or_none_def push_be split: option.split)

lemma build_dns_response_length: "packet_or_none (build_dns_response inet_pton6 info qtype opts cap)"
  unfolding build_dns_response_def Let_def by (intro packet_or_noneI)

lemma build_response_with_nsec_total:
  "\<exists>p. build_response_with_nsec inet_pton6 info qtype needs_nsec smask en opts = Some p"
proof -
  let ?r = "build_dns_response inet_pton6 info qtype opts 0xFFFFFFFF"
  let ?a = "append_nsec_rr ?r (encode_dns_name (str (hostname info))) info (word_of_int (record_ttl opts))"
  have len: "?r \<noteq> [] \<Longrightarrow> 12 \<le> length ?a"
    using build_dns_response_length [of inet_pton6 info qtype opts "0xFFFFFFFF"]
    by (auto simp: packet_or_none_def append_nsec_rr_def Let_def intro: order_trans [OF _ length_append_dns_rr])
  show ?thesis
  proof (cases "?r = []")
    case False
    then obtain v where "read_u16_be ?a 10 = Some v" using len u16.rd_some [of 10 ?a] by auto
    moreover have "10 < length ?a" "11 < length ?a" using len [OF False] by simp_all
    ultimately show ?thesis using False by (simp add: build_response_with_nsec_def Let_def poke_def)
  qed (simp add: build_response_with_nsec_def Let_def)
qed

lemma build_combined_suppression_total: "\<exists>m. build_combined_suppression s = Some m"
proof -
  let ?p = "build_dns_response (sys_inet_pton6 (m_env s)) (m_info s) Type_any (m_opts s) 0xFFFFFFFF"
  obtain recs where "walk_dns_frame ?p no_endpoint = Some recs" using walk_dns_frame_range by blast
  then show ?thesis by (simp add: build_combined_suppression_def Let_def)
qed

lemma fire_pending_response_safe: "safe_result s (fire_pending_response s)"
proof -
  obtain m where m: "build_combined_suppression s = Some m" using build_combined_suppression_total by blast
  obtain p where "build_response_with_nsec (sys_inet_pton6 (m_env s)) (m_info s) (pending_qtype (m_pending s))
      (pending_needs_nsec (m_pending s)) m (suppress_known_answers (m_opts s)) (m_opts s) = Some p"
    using build_response_with_nsec_total by blast
  with m show ?thesis
    by (auto simp: fire_pending_response_def Let_def intro!: safe_Some keepsI)
qed

lemma schedule_safe:
  assumes "server_ok s"
  shows "safe_result s (schedule_multicast_response now t n supp s)"
  using assms
  by (auto simp: schedule_multicast_response_def Let_def arm_response_def server_ok_def sane_options_def uniform_int_Some
      intro!: safe_Some keepsI)

lemma handle_legacy_safe: "safe_result s (handle_legacy_unicast sender data s)"
proof -
  obtain r where "match_queries data (m_info s) (m_opts s) = Some r" using match_queries_total by blast
  then show ?thesis by (auto simp: handle_legacy_unicast_def Let_def intro!: safe_Some keepsI)
qed


lemma handle_normal_query_safe:
  assumes ok: "server_ok s"
  shows "safe_result s (handle_normal_query sender data now s)"
proof (cases "respond_to_legacy_unicast (m_opts s) \<and> ep_port sender \<noteq> 0 \<and> ep_port sender \<noteq> 5353")
  case True
  then show ?thesis by (simp add: handle_normal_query_def handle_legacy_safe)
next
  case False
  obtain q where q: "match_queries data (m_info s) (m_opts s) = Some q" using match_queries_total by blast
  obtain th where th: "ttl_fraction (mdns_record_ttl (m_mdns_opts s)) (ka_suppression_fraction (m_mdns_opts s)) = Some th"
    using ok by (auto simp: server_ok_def sane_options_def)
  obtain m where m: "parse_known_answers data (offset_after_questions q) (m_info s) th = Some m"
    using parse_known_answers_total by blast
  define supp where "supp = (if suppress_known_answers (m_opts s) \<and> any_matched q then m else empty_mask)"
  have supp: "(if suppress_known_answers (m_opts s) \<and> any_matched q then do {
      ka_threshold \<leftarrow> ttl_fraction (mdns_record_ttl (m_mdns_opts s)) (ka_suppression_fraction (m_mdns_opts s));
      parse_known_answers data (offset_after_questions q) (m_info s) ka_threshold } else Some empty_mask) = Some supp"
    by (simp add: supp_def th m)
  define t where "t = send_meta_and_subtype_responses q sender
    (if has_on_query (m_opts s) \<and> any_matched q
     then emit (Query_seen sender (accumulated_qtype q) (match_mode q)) s else s)"
  have k: "keeps s t" "m_opts t = m_opts s" "m_info t = m_info s" "m_env t = m_env s" by (auto simp: t_def intro!: keepsI)
  obtain pkt where pkt: "build_response_with_nsec (sys_inet_pton6 (m_env t)) (m_info t) (accumulated_qtype q)
      (match_needs_nsec q) supp (suppress_known_answers (m_opts t)) (m_opts t) = Some pkt"
    using build_response_with_nsec_total by blast
  have send: "keeps s (if pkt \<noteq> [] then send_to Unicast sender pkt ''response send'' t else t)"
    by (rule keeps_trans [OF k(1)]) (auto intro!: keepsI)
  have "safe_result s (schedule_multicast_response now (accumulated_qtype q) (match_needs_nsec q) supp t)"
    by (rule safe_after [OF k(1) schedule_safe [OF keeps_ok [OF k(1) ok]]])
  with False q supp pkt send k(1) show ?thesis
    unfolding handle_normal_query_def
    by (simp only: if_False Option.bind_lunit Let_def t_def [symmetric]) (auto intro!: safe_Some)
qed

lemma build_tc_suppression_total: "server_ok s \<Longrightarrow> \<exists>m. build_tc_suppression recs s = Some m"
  by (auto simp: build_tc_suppression_def server_ok_def sane_options_def)

lemma on_tc_wait_expired_safe:
  assumes ok: "server_ok s"
  shows "safe_result s (on_tc_wait_expired sender w now s)"
proof -
  obtain merged acc where tk: "take_if_ready sender time_point_max w (m_tc_acc s) = (merged, acc)" by fastforce
  let ?t = "s\<lparr>m_tc_acc := acc\<rparr>"
  have kt: "keeps s ?t" by (simp add: keepsI)
  show ?thesis
  proof (cases merged)
    case None
    with tk kt show ?thesis by (simp add: on_tc_wait_expired_def safe_Some)
  next
    case (Some recs)
    define u where "u = (if has_on_tc_continuation (m_opts ?t) then emit (Tc_continued sender (length recs)) ?t else ?t)"
    have ku: "keeps s u" by (auto simp: u_def intro!: keepsI)
    obtain m where m: "build_tc_suppression recs u = Some m"
      using build_tc_suppression_total [OF keeps_ok [OF ku ok]] by blast
    have "safe_result s (schedule_multicast_response now Type_any False m u)"
      by (rule safe_after [OF ku schedule_safe [OF keeps_ok [OF ku ok]]])
    with tk Some m ku show ?thesis
      unfolding on_tc_wait_expired_def
      by (simp only: Let_def case_prod_conv option.case u_def [symmetric] Option.bind_lunit) (auto intro: safe_Some)
  qed
qed

lemma handle_tc_query_safe:
  assumes "server_ok s"
  shows "safe_result s (handle_tc_query sender data now s)"
proof -
  obtain recs where "parse_answer_records data = Some recs"
    using walk_dns_frame_range [of data no_endpoint] by (auto simp: parse_answer_records_def)
  with assms show ?thesis
    by (auto simp: handle_tc_query_def Let_def server_ok_def sane_options_def uniform_int_Some intro!: safe_Some keepsI)
qed

lemma observe_safe: "safe_result s (observe_multicast_response data s)"
proof -
  obtain recs where "parse_answer_records data = Some recs"
    using walk_dns_frame_range [of data no_endpoint] by (auto simp: parse_answer_records_def)
  then show ?thesis by (auto simp: observe_multicast_response_def intro!: safe_Some keepsI)
qed

lemma on_packet_safe:
  assumes "server_ok s"
  shows "safe_result s (on_packet sender data now s)"
proof (cases "length data < 12")
  case True
  then show ?thesis by (simp add: on_packet_def handle_probing_packet_def)
next
  case False
  then obtain f where "read_u16_be data 2 = Some f" using u16.rd_some [of 2 data] by fastforce
  with False show ?thesis
    by (simp add: on_packet_def handle_probing_packet_safe observe_safe handle_tc_query_safe handle_normal_query_safe assms)
qed

interpretation server_loop: loop_client get_loop put_loop server_on_packet server_ok
proof
  show "get_loop (put_loop l s) = l" for l s by (simp add: get_loop_def put_loop_def)
  show "server_ok s \<Longrightarrow> server_ok (put_loop l s)" for l s by (simp add: server_ok_def put_loop_def)
  show "server_ok s'" if "server_ok s" "server_on_packet meta data now s = Some (s', relevant)" for s s' meta data now relevant
    using that on_packet_safe [of s "rm_sender meta" data now]
    by (auto simp: server_on_packet_def safe_result_def intro: keeps_ok)
  show "server_on_packet meta data now s \<noteq> None" if "server_ok s" for s meta data now
    using on_packet_safe [OF that, of "rm_sender meta" data now] by (auto simp: server_on_packet_def safe_result_def)
qed

section \<open>Events are safe\<close>

lemma on_response_wait_safe: "server_ok s \<Longrightarrow> safe_result s (on_response_wait w now s)"
  by (cases w)
    (simp_all add: on_response_wait_def send_probe_safe start_probing_safe fire_pending_response_safe
      safe_Some send_announce_keeps start_announcing_keeps send_update_announce_keeps)

lemma fire_response_timer_safe:
  assumes "server_ok s"
  shows "safe_result s (fire_response_timer now s)"
proof -
  obtain t w where f: "try_fire now (m_response_timer s) = (t, w)" by fastforce
  let ?s = "s\<lparr>m_response_timer := t\<rparr>"
  have k: "keeps s ?s" by (simp add: keepsI)
  have "safe_result s (on_response_wait v now ?s)" for v
    by (rule safe_after [OF k on_response_wait_safe [OF keeps_ok [OF k assms]]])
  with f k show ?thesis by (simp add: fire_response_timer_def Let_def safe_Some split: option.split)
qed

lemma fire_tc_timer_safe:
  assumes "server_ok s"
  shows "safe_result s (fire_tc_timer now s)"
proof -
  obtain t w where f: "try_fire now (m_tc_timer s) = (t, w)" by fastforce
  let ?s = "s\<lparr>m_tc_timer := t\<rparr>"
  have k: "keeps s ?s" by (simp add: keepsI)
  have "safe_result s (on_tc_wait_expired a b now ?s)" for a b
    by (rule safe_after [OF k on_tc_wait_expired_safe [OF keeps_ok [OF k assms]]])
  with f k show ?thesis by (simp add: fire_tc_timer_def Let_def safe_Some split: option.split tc_wait_for.split)
qed

lemma stop_ok: "server_ok s \<Longrightarrow> server_ok (stop s)"
  by (simp add: stop_def Let_def server_ok_def)

lemma teardown_keeps: "keeps s (teardown s)"
  by (intro keepsI) (simp_all add: teardown_def Let_def set_state_def)

lemma run_posted_ok:
  assumes "server_ok s"
  shows "server_ok (run_posted now s)"
proof (cases "m_posted s")
  case Nil
  with assms show ?thesis by (simp add: run_posted_def)
next
  case (Cons task ts)
  let ?s = "s\<lparr>m_posted := ts\<rparr>"
  have ok: "server_ok ?s" using assms Cons by (simp add: server_ok_def)
  show ?thesis
  proof (cases task)
    case Teardown
    with Cons keeps_ok [OF teardown_keeps ok] show ?thesis by (simp add: run_posted_def)
  next
    case (Update info)
    let ?t = "?s\<lparr>m_info := info, m_pa_state := (m_pa_state ?s)\<lparr>announce_count := 0\<rparr>\<rparr>"
    have "server_ok ?t" using assms Cons Update by (simp add: server_ok_def)
    from keeps_ok [OF send_update_announce_keeps this] ok show ?thesis
      using Cons Update by (simp add: run_posted_def run_update_def Let_def)
  qed
qed

lemma async_start_safe:
  assumes "server_ok s" and "pa_state (m_pa_state s) = Idle"
  shows "safe_result s (async_start r d now s)"
proof -
  define t where "t = (let s = (if r then s\<lparr>m_on_ready := True\<rparr> else s); s = (if d then s\<lparr>m_on_completion := True\<rparr> else s)
    in s\<lparr>m_loop := Some (new_loop (24 * 365 * 3600000) (receive_ttl_minimum (m_mdns_opts s))
      (unknown_ttl_policy (m_mdns_opts s)))\<rparr>)"
  have k: "keeps s t" by (simp add: t_def Let_def keepsI)
  obtain u where u: "start_probing now t = Some u" "keeps t u"
    using start_probing_safe [OF keeps_ok [OF k assms(1)]] by (auto simp: safe_result_def)
  have "async_start r d now s = Some (u\<lparr>m_loop := map_option (start_loop now) (m_loop u)\<rparr>)"
    using assms(2) u(1) by (simp add: async_start_def do_start_def t_def Let_def)
  moreover have "keeps u (u\<lparr>m_loop := map_option (start_loop now) (m_loop u)\<rparr>)" by (simp add: keepsI)
  ultimately show ?thesis using k u(2) by (auto simp: safe_result_def intro: keeps_trans)
qed

lemma server_step_safe:
  assumes ok: "server_ok s" and "event_ok ev s"
  shows "\<exists>s'. server_step ev now s = Some s' \<and> server_ok s'"
proof (cases ev)
  case (Ev_start r d)
  with assms async_start_safe [of s r d now] show ?thesis by (auto simp: safe_result_def intro: keeps_ok)
next
  case (Ev_update info)
  with assms show ?thesis by (simp add: update_service_info_def server_ok_def)
next
  case Ev_response_timer
  with fire_response_timer_safe [OF ok] ok show ?thesis by (auto simp: safe_result_def intro: keeps_ok)
next
  case Ev_tc_timer
  with fire_tc_timer_safe [OF ok] ok show ?thesis by (auto simp: safe_result_def intro: keeps_ok)
next
  case Ev_silence
  with ok show ?thesis
    by (auto simp: silence_def Let_def put_loop_def server_ok_def split: prod.split option.split)
next
  case (Ev_packet meta data)
  with server_loop.receive_safe [OF ok] ok show ?thesis by (simp add: server_receive_def)
next
  case Ev_destroy
  with ok show ?thesis by (simp add: destroy_def Let_def stop_ok server_ok_def [of "s\<lparr>m_alive := _, m_loop := _\<rparr>"]
        server_ok_def [of s])
qed (simp_all add: stop_ok run_posted_ok ok)

end
