(* ===== verification/Server_Lifecycle.thy ===== *)
theory Server_Lifecycle
  imports Server_Safety
begin

text \<open>
  The lifecycle of the responder over arbitrary sequences of events: no event is undefined, an
  invariant counts the callbacks called, and nothing is sent after a stop.
\<close>

section \<open>Evolution\<close>

fun is_ready :: "server_effect \<Rightarrow> bool" where
  "is_ready (Ready ec) = True"
| "is_ready _ = False"

fun is_done :: "server_effect \<Rightarrow> bool" where
  "is_done (Done ec) = True"
| "is_done _ = False"

text \<open>Callbacks that have fired or may still fire.\<close>

definition readies :: "server \<Rightarrow> nat" where
  "readies s = length (filter is_ready (out s)) + (if m_on_ready s then 1 else 0)"

definition dones :: "server \<Rightarrow> nat" where
  "dones s = length (filter is_done (out s)) + (if m_on_completion s then 1 else 0)"

text \<open>What the server was constructed with and never changes.\<close>

definition settings :: "server \<Rightarrow> service_options \<times> mdns_options \<times> endpoint" where
  "settings s = (m_opts s, m_mdns_opts s, multicast_ep s)"

text \<open>
  What every handler guarantees: output is only appended, a callback is consumed when it fires, the
  idle state is not entered again, a stopped server stays stopped and sends nothing, and the settings stay.
\<close>

definition evolves :: "server \<Rightarrow> server \<Rightarrow> bool" where
  "evolves s s' \<longleftrightarrow>
     (\<exists>es. out s' = out s @ es \<and> (m_stopped s \<longrightarrow> list_all (\<lambda>e. is_ready e \<or> is_done e) es)) \<and>
     readies s' = readies s \<and> dones s' = dones s \<and>
     (pa_state (m_pa_state s') = Idle \<longrightarrow> pa_state (m_pa_state s) = Idle) \<and>
     (m_stopped s \<longrightarrow> m_stopped s') \<and> settings s' = settings s"

definition evolves_result :: "server \<Rightarrow> server option \<Rightarrow> bool" where
  "evolves_result s r \<longleftrightarrow> (\<forall>s'. r = Some s' \<longrightarrow> evolves s s')"

lemma evolves_refl [simp, intro]: "evolves s s"
  by (simp add: evolves_def)

lemma evolves_trans [trans]:
  assumes "evolves s t" and "evolves t u"
  shows "evolves s u"
  using assms unfolding evolves_def by (elim conjE exE) (auto simp: list_all_iff)

lemma evolvesI:
  "out s' = out s \<Longrightarrow> m_on_ready s' = m_on_ready s \<Longrightarrow> m_on_completion s' = m_on_completion s \<Longrightarrow>
   (pa_state (m_pa_state s') = Idle \<Longrightarrow> pa_state (m_pa_state s) = Idle) \<Longrightarrow> (m_stopped s \<Longrightarrow> m_stopped s') \<Longrightarrow>
   m_opts s' = m_opts s \<Longrightarrow> m_mdns_opts s' = m_mdns_opts s \<Longrightarrow> multicast_ep s' = multicast_ep s \<Longrightarrow> evolves s s'"
  by (simp add: evolves_def readies_def dones_def settings_def)

lemma evolves_res_Some [simp]: "evolves_result s (Some s') \<longleftrightarrow> evolves s s'"
  by (simp add: evolves_result_def)

lemma evolves_res_None [simp]: "evolves_result s None"
  by (simp add: evolves_result_def)

lemma evolves_after: "evolves s t \<Longrightarrow> evolves_result t r \<Longrightarrow> evolves_result s r"
  by (auto simp: evolves_result_def intro: evolves_trans)

lemma evolves_bind: "(\<And>x. m = Some x \<Longrightarrow> evolves_result s (f x)) \<Longrightarrow> evolves_result s (m \<bind> f)"
  by (cases m) simp_all

lemma evolves_if: "(b \<Longrightarrow> evolves_result s r) \<Longrightarrow> (\<not> b \<Longrightarrow> evolves_result s r') \<Longrightarrow> evolves_result s (if b then r else r')"
  by simp

text \<open>Output other than lifecycle callbacks.\<close>

lemma evolves_appends:
  assumes "appends s s' P" and "\<And>e. P e \<Longrightarrow> \<not> is_ready e \<and> \<not> is_done e" and "\<not> m_stopped s"
  shows "evolves s s'"
proof -
  obtain es where s': "s' = s\<lparr>out := out s @ es\<rparr>" and P: "list_all P es"
    using assms(1) by (auto simp: appends_def)
  have "filter is_ready es = []" "filter is_done es = []"
    using P assms(2) by (auto simp: filter_empty_conv list_all_iff)
  with s' assms(3) show ?thesis by (simp add: evolves_def readies_def dones_def settings_def)
qed

lemma is_io_plain: "is_io e \<Longrightarrow> \<not> is_ready e \<and> \<not> is_done e"
  by (cases e) simp_all

lemma evolves_io: "appends s s' is_io \<Longrightarrow> \<not> m_stopped s \<Longrightarrow> evolves s s'"
  by (rule evolves_appends [of s s' is_io]) (auto dest: is_io_plain)

lemma evolves_emit: "\<not> is_ready e \<Longrightarrow> \<not> is_done e \<Longrightarrow> \<not> m_stopped s \<Longrightarrow> evolves s (emit e s)"
  by (simp add: emit_def evolves_def readies_def dones_def settings_def)

lemma evolves_fire_on_ready: "evolves s (fire_on_ready ec s)"
  by (simp add: fire_on_ready_def emit_def evolves_def readies_def dones_def settings_def)

lemma evolves_fire_on_completion: "evolves s (fire_on_completion ec s)"
  by (simp add: fire_on_completion_def emit_def evolves_def readies_def dones_def settings_def)

section \<open>Handlers evolve\<close>

lemma uniform_int_state: "uniform_int lo hi s = Some (d, s') \<Longrightarrow> s' = s\<lparr>m_rng := (\<lambda>n. m_rng s (Suc n))\<rparr>"
  by (auto simp: uniform_int_def split: if_splits)

lemma evolves_arm: "evolves s t \<Longrightarrow> evolves s (arm_response now d w t)"
  by (erule evolves_trans) (auto simp: arm_response_def intro!: evolvesI)

lemma start_probing_evolves: "evolves_result s (start_probing now s)"
  unfolding start_probing_def Let_def
  by (intro evolves_bind) (auto split: prod.split dest!: uniform_int_state
    simp: begin_probing_def evolves_result_def bind_eq_Some_conv arm_response_def intro!: evolvesI)

lemma send_probe_evolves: "evolves_result s (send_probe now s)"
proof (cases "m_stopped s")
  case False
  have "evolves s ((arm_response now d w (t\<lparr>m_pa_state := p\<rparr>)))"
    if "appends s t is_io" "pa_state p = pa_state (m_pa_state s)" for t d w p
  proof -
    have "evolves s t" using that(1) False by (rule evolves_io)
    also have "evolves t (arm_response now d w (t\<lparr>m_pa_state := p\<rparr>))"
      using that(2) by (auto simp: arm_response_def appends_sel [OF that(1)] intro!: evolvesI)
    finally show ?thesis .
  qed
  then show ?thesis
    by (auto simp: send_probe_def Let_def evolves_result_def advance_probe_def bind_eq_Some_conv appends_socket_send
        split: prod.splits if_splits)
qed (simp add: send_probe_def)

text \<open>One round of announcement: output, the counter and a new state.\<close>

lemma announce_round_evolves:
  assumes "\<not> m_stopped s" and "\<And>b p. advance_announce n (m_pa_state s) = (b, p) \<Longrightarrow> evolves ((send_announcement s)\<lparr>m_pa_state := p\<rparr>) (f b p)"
    and "pa_state (m_pa_state s) \<noteq> Idle"
  shows "evolves s (case advance_announce n (m_pa_state s) of (b, p) \<Rightarrow> f b p)"
proof -
  obtain b p where bp: "advance_announce n (m_pa_state s) = (b, p)" by fastforce
  have "evolves s (send_announcement s)" using appends_announcement assms(1) by (rule evolves_io)
  also have "evolves (send_announcement s) ((send_announcement s)\<lparr>m_pa_state := p\<rparr>)"
    using bp assms(3) by (auto simp: advance_announce_def Let_def intro!: evolvesI)
  also have "evolves \<dots> (f b p)" using assms(2) bp .
  finally show ?thesis using bp by simp
qed

lemma evolves_set_state: "st \<noteq> Idle \<Longrightarrow> evolves s (set_state st s)"
  by (auto simp: set_state_def intro!: evolvesI)

lemma send_announce_evolves: "evolves s (send_announce now s)"
proof (cases "pa_state (m_pa_state s) = Announcing \<and> \<not> m_stopped s")
  case True
  then show ?thesis
    by (auto simp: send_announce_def Let_def intro!: announce_round_evolves evolves_arm
        evolves_trans [OF evolves_set_state evolves_fire_on_ready])
qed (auto simp: send_announce_def)

lemma start_announcing_evolves: "evolves s (start_announcing now s)"
  unfolding start_announcing_def
  by (rule evolves_trans [OF _ send_announce_evolves]) (auto simp: begin_announcing_def intro!: evolvesI)

lemma send_update_announce_evolves: "evolves s (send_update_announce now s)"
proof (cases "pa_state (m_pa_state s) = Live \<and> \<not> m_stopped s")
  case True
  then show ?thesis
    by (auto simp: send_update_announce_def Let_def intro!: announce_round_evolves evolves_arm)
qed (auto simp: send_update_announce_def)

lemma conflict_rejected_evolves: "evolves s (conflict_rejected now ct s)"
proof -
  have "evolves s ((set_state Stopped s)\<lparr>m_stopped := True\<rparr>)" by (auto simp: set_state_def intro!: evolvesI)
  then show ?thesis
    by (auto simp: conflict_rejected_def defer_and_reprobe_def intro: evolves_arm evolves_trans evolves_fire_on_ready)
qed

lemma handle_conflict_evolves: "evolves_result s (handle_conflict now ct s)"
proof -
  let ?s = "s\<lparr>m_response_timer := fst (cancel (m_response_timer s))\<rparr>"
  have k: "evolves s ?s" by (auto intro!: evolvesI)
  have rej: "evolves s (conflict_rejected now c ?s)" for c using k conflict_rejected_evolves by (rule evolves_trans)
  have go: "evolves_result s (start_probing now (?s\<lparr>m_info := i, m_pa_state := p\<rparr>))"
    if "pa_state p = pa_state (m_pa_state s)" for i p
    using that by (intro evolves_after [OF _ start_probing_evolves]) (auto intro!: evolvesI)
  have go': "evolves_result s (start_probing now ?s)" using k start_probing_evolves by (rule evolves_after)
  show ?thesis
    using k by (auto simp: handle_conflict_def Let_def rej go go' defer_and_reprobe_def
        intro: evolves_arm split: option.split prod.split bool.split)
qed

lemma handle_probing_packet_evolves: "evolves_result s (handle_probing_packet data now s)"
proof -
  have "evolves_result s (handle_conflict now ct (s\<lparr>m_pa_state := begin_probing (m_pa_state s)\<rparr>))" for ct
    by (rule evolves_after [OF _ handle_conflict_evolves]) (auto simp: begin_probing_def intro!: evolvesI)
  then show ?thesis
    unfolding handle_probing_packet_def Let_def
    by (intro evolves_bind evolves_if) (simp_all add: handle_conflict_evolves)
qed

lemma fire_pending_response_evolves:
  assumes "\<not> m_stopped s"
  shows "evolves_result s (fire_pending_response s)"
proof -
  let ?t = "s\<lparr>m_dup_suppression := reset_seen (m_dup_suppression s), m_pending := reset (m_pending s)\<rparr>"
  have t: "evolves s ?t" by (auto intro!: evolvesI)
  have "evolves ?t (send_to Multicast no_endpoint r ''response send'' ?t)" for r
    using appends_send_to by (rule evolves_io) (simp add: assms)
  then have "evolves s (send_to Multicast no_endpoint r ''response send'' ?t)" for r using t evolves_trans by blast
  with t show ?thesis by (auto simp: fire_pending_response_def Let_def intro!: evolves_bind)
qed

lemma schedule_evolves: "evolves_result s (schedule_multicast_response now q n supp s)"
  unfolding schedule_multicast_response_def Let_def
  by (intro evolves_if evolves_bind)
    (auto split: prod.split dest!: uniform_int_state simp: arm_response_def intro!: evolvesI)

lemma handle_legacy_unicast_evolves: "\<not> m_stopped s \<Longrightarrow> evolves_result s (handle_legacy_unicast sender data s)"
  by (auto simp: handle_legacy_unicast_def Let_def intro!: evolves_bind evolves_io appends_send_to)

lemma handle_normal_query_evolves:
  assumes s: "\<not> m_stopped s"
  shows "evolves_result s (handle_normal_query sender data now s)"
proof -
  have t: "evolves s (send_meta_and_subtype_responses q sender (if b then emit (Query_seen sender ty m) s else s))"
    (is "evolves s ?t") for q b ty m
  proof -
    have "evolves s (if b then emit (Query_seen sender ty m) s else s)" using s by (simp add: evolves_emit)
    also have "evolves \<dots> ?t" using appends_meta by (rule evolves_io) (simp add: s)
    finally show ?thesis .
  qed
  have u: "evolves s (send_to Unicast sender p c (send_meta_and_subtype_responses q sender (if b then emit (Query_seen sender ty m) s else s)))"
    for p c q b ty m
    by (rule evolves_trans [OF t], rule evolves_io [OF appends_send_to]) (simp add: s)
  show ?thesis
    unfolding handle_normal_query_def Let_def
    by (intro evolves_if evolves_bind)
      (simp_all only: t u evolves_res_Some evolves_refl handle_legacy_unicast_evolves [OF s]
        evolves_after [OF t schedule_evolves] if_split simp_thms)
qed

lemma on_tc_wait_expired_evolves: "evolves_result s (on_tc_wait_expired sender w now s)"
proof (cases "m_stopped s")
  case False
  have t: "evolves s (if b then emit (Tc_continued sender n) (s\<lparr>m_tc_acc := a\<rparr>) else s\<lparr>m_tc_acc := a\<rparr>)" for a b n
  proof -
    have "evolves s (s\<lparr>m_tc_acc := a\<rparr>)" by (auto intro!: evolvesI)
    also have "evolves \<dots> (if b then emit (Tc_continued sender n) (s\<lparr>m_tc_acc := a\<rparr>) else s\<lparr>m_tc_acc := a\<rparr>)"
      using False by (simp add: evolves_emit)
    finally show ?thesis .
  qed
  have a: "evolves s (s\<lparr>m_tc_acc := a\<rparr>)" for a by (auto intro!: evolvesI)
  obtain merged acc where tk: "take_if_ready sender time_point_max w (m_tc_acc s) = (merged, acc)" by fastforce
  show ?thesis
  proof (cases merged)
    case None
    with tk a show ?thesis by (simp add: on_tc_wait_expired_def)
  next
    case (Some recs)
    have "evolves_result s (schedule_multicast_response now Type_any False supp
        (if b then emit (Tc_continued sender n) (s\<lparr>m_tc_acc := acc\<rparr>) else s\<lparr>m_tc_acc := acc\<rparr>))" for supp b n
      by (rule evolves_after [OF t schedule_evolves])
    then show ?thesis
      unfolding on_tc_wait_expired_def Let_def tk Some prod.case option.case
      by (intro evolves_if evolves_bind) (simp_all only: t evolves_res_Some evolves_refl)
  qed
qed (simp add: on_tc_wait_expired_def)

lemma handle_tc_query_evolves: "evolves_result s (handle_tc_query sender data now s)"
  unfolding handle_tc_query_def Let_def
  by (intro evolves_if evolves_bind) (auto split: prod.split dest!: uniform_int_state intro!: evolvesI)

lemma on_packet_evolves: "evolves_result s (on_packet sender data now s)"
proof (cases "m_stopped s")
  case False
  have "evolves_result s (observe_multicast_response data s)"
    unfolding observe_multicast_response_def by (intro evolves_if evolves_bind) (auto intro!: evolvesI)
  with False show ?thesis
    unfolding on_packet_def Let_def
    by (intro evolves_if evolves_bind)
      (simp_all add: handle_probing_packet_evolves handle_tc_query_evolves handle_normal_query_evolves)
qed (simp add: on_packet_def)

interpretation server_evolution: loop_evolution get_loop put_loop server_on_packet evolves
proof
  show "evolves s (put_loop l s)" for s l by (auto simp: put_loop_def intro!: evolvesI)
  show "evolves s s'" if "server_on_packet meta data now s = Some (s', relevant)" for meta data now s s' relevant
    using that on_packet_evolves [of s "rm_sender meta" data now] by (auto simp: server_on_packet_def evolves_result_def)
qed (auto intro: evolves_trans)

section \<open>Events evolve\<close>

lemma on_response_wait_evolves: "evolves_result s (on_response_wait w now s)"
  by (cases w) (auto simp: on_response_wait_def send_probe_evolves start_announcing_evolves send_announce_evolves
      send_update_announce_evolves start_probing_evolves fire_pending_response_evolves)

lemma fire_response_timer_evolves: "evolves_result s (fire_response_timer now s)"
proof -
  have "evolves s (s\<lparr>m_response_timer := t\<rparr>)" for t by (auto intro!: evolvesI)
  then show ?thesis
    by (auto simp: fire_response_timer_def Let_def intro: evolves_after [OF _ on_response_wait_evolves]
        split: prod.split option.split)
qed

lemma fire_tc_timer_evolves: "evolves_result s (fire_tc_timer now s)"
proof -
  have "evolves s (s\<lparr>m_tc_timer := t\<rparr>)" for t by (auto intro!: evolvesI)
  then show ?thesis
    by (auto simp: fire_tc_timer_def Let_def intro: evolves_after [OF _ on_tc_wait_expired_evolves]
        split: prod.split option.split tc_wait_for.split)
qed

lemma stop_evolves: "evolves s (stop s)"
proof (cases "m_stopped s")
  case False
  obtain es where es: "send_goodbye_if_needed (s\<lparr>m_stopped := True\<rparr>) = s\<lparr>m_stopped := True, out := out s @ es\<rparr>" and io: "list_all is_io es"
    using appends_goodbye [of "s\<lparr>m_stopped := True\<rparr>"] by (auto simp: appends_def)
  have "filter is_ready es = []" "filter is_done es = []"
    using io by (auto simp: filter_empty_conv list_all_iff dest: is_io_plain)
  with False es show ?thesis by (simp add: stop_def Let_def evolves_def readies_def dones_def settings_def)
qed (simp add: stop_def)

lemma teardown_evolves: "evolves s (teardown s)"
proof (cases "m_alive s")
  case True
  let ?t = "if pa_state (m_pa_state s) = Probing \<or> pa_state (m_pa_state s) = Announcing then fire_on_ready (Some Canceled) s else s"
  have "evolves s ?t" by (simp add: evolves_fire_on_ready)
  also have "evolves ?t (teardown s)"
    using True unfolding teardown_def Let_def
    by (simp only: if_False not_not if_True simp_thms)
      (rule evolves_trans [OF _ evolves_fire_on_completion], auto simp: set_state_def intro!: evolvesI)
  finally show ?thesis .
qed (simp add: teardown_def)

lemma run_posted_evolves: "evolves s (run_posted now s)"
proof -
  have p: "evolves s (s\<lparr>m_posted := ts\<rparr>)" for ts by (auto intro!: evolvesI)
  have u: "evolves s (s\<lparr>m_posted := ts, m_info := i, m_pa_state := (m_pa_state s)\<lparr>announce_count := 0\<rparr>\<rparr>)" for ts i
    by (auto intro!: evolvesI)
  show ?thesis
    using p by (auto simp: run_posted_def run_update_def Let_def split: list.split server_task.split
        intro: evolves_trans [OF p teardown_evolves] evolves_trans [OF u send_update_announce_evolves])
qed

lemma destroy_evolves: "evolves s (destroy s)"
  unfolding destroy_def Let_def by (rule evolves_trans [OF _ stop_evolves]) (auto intro!: evolvesI)

text \<open>Every event but a start; a start installs the callbacks of an idle server.\<close>

lemma server_step_evolves:
  assumes "server_step ev now s = Some s'" and "\<And>r d. ev \<noteq> Ev_start r d"
  shows "evolves s s'"
proof (cases ev)
  case (Ev_update info)
  with assms show ?thesis by (auto simp: update_service_info_def split: if_splits intro!: evolvesI)
next
  case Ev_silence
  with assms show ?thesis by (auto split: if_splits intro: server_evolution.silence_evolves)
next
  case (Ev_packet meta data)
  with assms show ?thesis by (auto simp: server_receive_def split: if_splits intro: server_evolution.receive_evolves)
qed (use assms fire_response_timer_evolves [of s now] fire_tc_timer_evolves [of s now] in
    \<open>auto simp: stop_evolves run_posted_evolves destroy_evolves evolves_result_def\<close>)

lemma start_probing_quiet:
  assumes "start_probing now s = Some s'"
  shows "out s' = out s \<and> m_on_ready s' = m_on_ready s \<and> m_on_completion s' = m_on_completion s
    \<and> m_stopped s' = m_stopped s \<and> m_alive s' = m_alive s \<and> pa_state (m_pa_state s') = Probing"
  using assms unfolding start_probing_def Let_def
  by (auto simp: bind_eq_Some_conv begin_probing_def arm_response_def dest!: uniform_int_state)

lemma async_start_quiet:
  assumes "async_start r d now s = Some s'"
  shows "pa_state (m_pa_state s) = Idle \<and> out s' = out s \<and> m_on_ready s' = (m_on_ready s \<or> r)
    \<and> m_on_completion s' = (m_on_completion s \<or> d) \<and> m_stopped s' = m_stopped s \<and> m_alive s' = m_alive s
    \<and> pa_state (m_pa_state s') = Probing"
  using assms unfolding async_start_def do_start_def Let_def
  by (auto simp: bind_eq_Some_conv split: if_splits dest!: start_probing_quiet)

section \<open>Reachable states\<close>

inductive reachable :: "server \<Rightarrow> server \<Rightarrow> bool" for s0 where
  reachable_init: "reachable s0 s0"
| reachable_step: "reachable s0 s \<Longrightarrow> event_ok ev s \<Longrightarrow> server_step ev now s = Some s' \<Longrightarrow> reachable s0 s'"

lemma reachable_ok:
  assumes "reachable s0 s" and "server_ok s0"
  shows "server_ok s"
  using assms
proof (induction rule: reachable.induct)
  case (reachable_step s ev now s')
  with server_step_safe [of s ev now] show ?case by auto
qed

text \<open>No callback before a start, and one of each kind after it.\<close>

definition callbacks_ok :: "server \<Rightarrow> bool" where
  "callbacks_ok s \<longleftrightarrow>
     readies s \<le> (if pa_state (m_pa_state s) = Idle then 0 else 1) \<and>
     dones s \<le> (if pa_state (m_pa_state s) = Idle then 0 else 1)"

lemma evolves_callbacks: "evolves s s' \<Longrightarrow> callbacks_ok s \<Longrightarrow> callbacks_ok s'"
  by (auto simp: evolves_def callbacks_ok_def split: if_splits)

lemma start_callbacks: "async_start r d now s = Some s' \<Longrightarrow> callbacks_ok s \<Longrightarrow> callbacks_ok s'"
  by (drule async_start_quiet) (auto simp: callbacks_ok_def readies_def dones_def)

lemma callbacks_step:
  assumes "server_step ev now s = Some s'" and "callbacks_ok s"
  shows "callbacks_ok s'"
proof (cases "\<exists>r d. ev = Ev_start r d")
  case True
  with assms start_callbacks show ?thesis by auto
next
  case False
  with assms server_step_evolves [of ev now s s'] evolves_callbacks show ?thesis by blast
qed

text \<open>A stopped server emits callbacks only.\<close>

definition silent_after :: "server \<Rightarrow> server \<Rightarrow> bool" where
  "silent_after s s' \<longleftrightarrow>
     m_stopped s' \<and> (\<exists>es. out s' = out s @ es \<and> list_all (\<lambda>e. is_ready e \<or> is_done e) es)"

lemma silent_step:
  assumes "server_step ev now s' = Some s''" and "silent_after s s'"
  shows "silent_after s s''"
proof (cases "\<exists>r d. ev = Ev_start r d")
  case True
  with assms show ?thesis by (auto simp: silent_after_def dest!: async_start_quiet)
next
  case False
  with assms have "evolves s' s''" using server_step_evolves by blast
  with assms(2) show ?thesis by (auto simp: silent_after_def evolves_def)
qed

section \<open>An example configuration\<close>

definition example_env :: server_env where
  "example_env = \<lparr>sys_inet_pton6 = (\<lambda>_. None), sys_send = (\<lambda>_ _. None)\<rparr>"

definition example_server :: server where
  "example_server =
     new_server example_env \<lparr>ep_address = ''224.0.0.251'', ep_port = 5353\<rparr> example_info default_service_options
       default_mdns_options True (\<lambda>n. n)"

lemma default_options_sane: "sane_options default_service_options default_mdns_options"
  by (simp add: sane_options_def default_service_options_def default_mdns_options_def int32_def ttl_fraction_half)

lemma example_encodable: "encodable example_info"
  using wf_name_encode example_wf_names by (simp add: encodable_def example_info_names)

lemma example_server_ok: "server_ok example_server"
  by (simp add: server_ok_def example_server_def new_server_def default_options_sane example_encodable)

section \<open>Properties\<close>

text \<open>
  C2: The responder never reaches undefined behaviour. From a sensible configuration, after any
  sequence of starts, stops, updates, packets with arbitrary contents, timer expirations and
  destruction, every event that respects the preconditions of the interface is handled: there is
  no out-of-range access, no empty random range and no failed assertion.
\<close>

theorem server_never_undefined:
  assumes "server_ok s0" and "reachable s0 s" and "event_ok ev s"
  shows "\<exists>s'. server_step ev now s = Some s' \<and> server_ok s'"
  using reachable_ok [OF assms(2,1)] assms(3) by (rule server_step_safe)

theorem server_never_undefined_witness:
  "\<exists>s'. server_step (Ev_start True True) 0 example_server = Some s' \<and> server_ok s'"
  using example_server_ok reachable_init
  by (rule server_never_undefined) (simp add: example_server_def new_server_def new_pa_def)

text \<open>
  C11: Silence after a stop. Once the server is stopped it stays stopped, and whatever happens it
  sends no packet and reports no query any more: only the pending lifecycle callbacks are called.
\<close>

theorem stopped_is_silent:
  assumes "m_stopped s" and "reachable s s'"
  shows "m_stopped s' \<and> (\<exists>es. out s' = out s @ es \<and> list_all (\<lambda>e. is_ready e \<or> is_done e) es)"
proof -
  have "silent_after s s'"
    using assms(2)
  proof (induction rule: reachable.induct)
    case reachable_init
    show ?case using assms(1) by (simp add: silent_after_def)
  next
    case (reachable_step s' ev now s'')
    then show ?case using silent_step by blast
  qed
  then show ?thesis by (simp add: silent_after_def)
qed

theorem stopped_is_silent_witness:
  "\<exists>es. out (run_posted 5 (stop example_server)) = out (stop example_server) @ es \<and> list_all (\<lambda>e. is_ready e \<or> is_done e) es"
proof -
  have "reachable (stop example_server) (run_posted 5 (stop example_server))"
    using reachable_init by (rule reachable_step [where ev = Ev_posted and now = 5]) simp_all
  moreover have "m_stopped (stop example_server)"
    by (simp add: stop_def example_server_def new_server_def Let_def)
  ultimately show ?thesis using stopped_is_silent by blast
qed

end
