(* ===== verification/Server_Progress.thy ===== *)
theory Server_Progress
  imports Server_Lifecycle
begin

text \<open>
  Progress of the responder: a stop completes after the posted tasks have run, a started server
  becomes live after its probes and announcements, and its callbacks are called at most once.
\<close>

section \<open>Stopping\<close>

lemma drain_posted:
  assumes "m_stopped s" and "m_posted s = us @ ts" and "Teardown \<notin> set us"
  shows "(run_posted now ^^ length us) s = s\<lparr>m_posted := ts\<rparr>"
  using assms
proof (induction us arbitrary: s)
  case (Cons u us)
  then obtain info where u: "u = Update info" by (cases u) auto
  have "run_posted now s = s\<lparr>m_posted := us @ ts\<rparr>"
    using Cons.prems u by (simp add: run_posted_def run_update_def)
  moreover have "(run_posted now ^^ length us) (s\<lparr>m_posted := us @ ts\<rparr>) = s\<lparr>m_posted := ts\<rparr>"
    using Cons.IH [of "s\<lparr>m_posted := us @ ts\<rparr>"] Cons.prems by simp
  ultimately show ?case by (simp add: funpow_Suc_right del: funpow.simps(2))
qed simp

section \<open>What is sent\<close>

fun sent_of :: "server_effect \<Rightarrow> (endpoint \<times> bytes) list" where
  "sent_of (Sent ep p) = [(ep, p)]"
| "sent_of _ = []"

definition sent :: "server \<Rightarrow> (endpoint \<times> bytes) list" where
  "sent s = concat (map sent_of (out s))"

definition ready_calls :: "server \<Rightarrow> server_effect list" where
  "ready_calls s = filter is_ready (out s)"

lemma sent_emit [simp]: "sent (emit e s) = sent s @ sent_of e"
  by (simp add: sent_def emit_def)

lemma ready_emit [simp]: "ready_calls (emit e s) = ready_calls s @ (if is_ready e then [e] else [])"
  by (simp add: ready_calls_def emit_def)

lemma sent_update [simp]:
  "sent (s\<lparr>m_response_timer := t\<rparr>) = sent s" "sent (s\<lparr>m_pa_state := p\<rparr>) = sent s" "sent (s\<lparr>m_on_ready := b\<rparr>) = sent s"
  "sent (s\<lparr>m_pending := q\<rparr>) = sent s" "sent (s\<lparr>m_dup_suppression := u\<rparr>) = sent s" "sent (s\<lparr>m_stopped := b\<rparr>) = sent s"
  "sent (s\<lparr>m_posted := ts\<rparr>) = sent s" "sent (s\<lparr>m_rng := g\<rparr>) = sent s" "sent (s\<lparr>m_loop := l\<rparr>) = sent s"
  "sent (s\<lparr>m_on_completion := b\<rparr>) = sent s" "sent (s\<lparr>m_tc_acc := a\<rparr>) = sent s" "sent (s\<lparr>m_tc_timer := w\<rparr>) = sent s"
  by (simp_all add: sent_def)

lemma ready_update [simp]:
  "ready_calls (s\<lparr>m_response_timer := t\<rparr>) = ready_calls s" "ready_calls (s\<lparr>m_pa_state := p\<rparr>) = ready_calls s"
  "ready_calls (s\<lparr>m_on_ready := b\<rparr>) = ready_calls s"
  by (simp_all add: ready_calls_def)

lemma sent_socket_send [simp]: "sent (socket_send ep p c s) = sent s @ [(ep, p)]"
  by (simp add: socket_send_def Let_def split: option.split)

lemma sent_send_to [simp]:
  "sent (send_to m ep p c s) = sent s @ [(if m = Unicast then ep else multicast_ep s, p)]"
  by (simp add: send_to_def)

lemma sent_validate [simp]: "sent (validate_addresses s) = sent s"
  by (auto simp: validate_addresses_def Let_def split: option.split sum.split)

lemma appends_ready: "appends s s' is_io \<Longrightarrow> ready_calls s' = ready_calls s"
  using is_io_plain by (fastforce simp: appends_def ready_calls_def list_all_iff filter_empty_conv)

lemmas io_ready [simp] =
  appends_ready [OF appends_socket_send] appends_ready [OF appends_announcement] appends_ready [OF appends_goodbye]

text \<open>The packets of one announcement.\<close>

definition announcement_packets :: "server \<Rightarrow> bytes list" where
  "announcement_packets s =
     (let ttl = word_of_int (record_ttl (m_opts s)) :: u32
      in filter (\<lambda>p. p \<noteq> [])
           (build_dns_response (sys_inet_pton6 (m_env s)) (m_info s) Type_any (m_opts s) 0xFFFFFFFF
            # (if respond_to_meta_queries (m_opts s) then [build_meta_query_response (m_info s) ttl] else [])
            @ (if announce_subtypes (m_opts s)
               then map (\<lambda>sub. build_subtype_response sub (m_info s) ttl) (subtypes (m_info s)) else [])))"

lemma sent_subtype_loop:
  "sent (announce_subtype_loop subs ttl s) =
     sent s @ map (Pair (multicast_ep s)) (filter (\<lambda>p. p \<noteq> []) (map (\<lambda>sub. build_subtype_response sub (m_info s) ttl) subs))"
  by (induction subs arbitrary: s) (simp_all add: Let_def)

lemma sent_announcement [simp]: "sent (send_announcement s) = sent s @ map (Pair (multicast_ep s)) (announcement_packets s)"
  by (simp add: send_announcement_def announcement_packets_def Let_def sent_subtype_loop)

section \<open>Runs of the response timer\<close>

text \<open>The timer fires at its expiry, and again at its next one, n times.\<close>

definition next_fire :: "server \<Rightarrow> server option" where
  "next_fire s = fire_response_timer (t_expiry (m_response_timer s)) s"

fun run_timer :: "nat \<Rightarrow> server \<Rightarrow> server option" where
  "run_timer 0 s = Some s"
| "run_timer (Suc n) s = next_fire s \<bind> run_timer n"

lemma run_timer_add: "run_timer (m + n) s = run_timer m s \<bind> run_timer n"
proof (induction m arbitrary: s)
  case (Suc m)
  then have "run_timer (m + n) = (\<lambda>t. run_timer m t \<bind> run_timer n)" by (rule ext)
  then show ?case by (simp add: bind_assoc)
qed simp

definition waiting :: "response_wait \<Rightarrow> server \<Rightarrow> bool" where
  "waiting w s \<longleftrightarrow> t_handler (m_response_timer s) = Some w \<and> t_active (m_response_timer s)"

lemma waiting_arm [simp]: "waiting w (arm_response now d v s) \<longleftrightarrow> v = w"
  by (auto simp: waiting_def arm_response_def arm_def async_wait_def expires_after_def Let_def)

lemma arm_sels [simp]:
  "sent (arm_response now d v s) = sent s" "ready_calls (arm_response now d v s) = ready_calls s"
  "m_on_ready (arm_response now d v s) = m_on_ready s" "m_pa_state (arm_response now d v s) = m_pa_state s"
  "m_stopped (arm_response now d v s) = m_stopped s" "m_opts (arm_response now d v s) = m_opts s"
  by (simp_all add: arm_response_def)

lemma next_fire_waiting:
  assumes "waiting w s"
  shows "\<exists>now t. next_fire s = on_response_wait w now (s\<lparr>m_response_timer := t\<rparr>)"
  using assms by (auto simp: next_fire_def fire_response_timer_def try_fire_def waiting_def Let_def)

text \<open>What stays the same while probing and announcing.\<close>

definition config ::
  "server \<Rightarrow> server_env \<times> endpoint \<times> service_info \<times> service_options \<times> bool \<times> u16 \<times> bool \<times> server_task list" where
  "config s = (m_env s, multicast_ep s, m_info s, m_opts s, m_stopped s, probe_id (m_pa_state s), m_alive s, m_posted s)"

lemma announcement_packets_cong:
  "m_env s = m_env s' \<Longrightarrow> m_info s = m_info s' \<Longrightarrow> m_opts s = m_opts s' \<Longrightarrow> announcement_packets s = announcement_packets s'"
  unfolding announcement_packets_def by (simp only:)

lemma config_announcement: "config s = config s' \<Longrightarrow> announcement_packets s = announcement_packets s'"
  by (auto simp: config_def intro: announcement_packets_cong)

definition probe_packet :: "server \<Rightarrow> bytes" where
  "probe_packet s =
     (build_probe_query (m_info s) (word_of_int (probe_authority_ttl (m_opts s))))
       [0 := ucast (drop_bit 8 (probe_id (m_pa_state s))), 1 := ucast (probe_id (m_pa_state s) AND 0xFF)]"

lemma config_probe: "config s = config s' \<Longrightarrow> probe_packet s = probe_packet s'"
  by (simp add: config_def probe_packet_def)

section \<open>Probing\<close>

lemma send_probe_result:
  assumes "pa_state (m_pa_state s) = Probing" and "\<not> m_stopped s" and "encodable (m_info s)"
  shows "\<exists>s'. send_probe now s = Some s' \<and> config s' = config s \<and> sent s' = sent s @ [(multicast_ep s, probe_packet s)] \<and>
    ready_calls s' = ready_calls s \<and> m_on_ready s' = m_on_ready s \<and> pa_state (m_pa_state s') = Probing \<and>
    probe_count (m_pa_state s') = probe_count (m_pa_state s) + 1 \<and>
    waiting (Wait_probe (probe_count (m_pa_state s) + 1 < probe_count_opt (m_opts s))) s'"
proof -
  let ?q = "build_probe_query (m_info s) (word_of_int (probe_authority_ttl (m_opts s)))"
  have l: "12 \<le> length ?q" by (rule build_probe_query_length [OF assms(3)])
  let ?s = "socket_send (multicast_ep s) (probe_packet s) ''probe send'' s"
  let ?p = "(m_pa_state s)\<lparr>probe_count := probe_count (m_pa_state s) + 1\<rparr>"
  let ?more = "probe_count (m_pa_state s) + 1 < probe_count_opt (m_opts s)"
  have "send_probe now s = Some (arm_response now (probe_interval (m_opts s)) (Wait_probe ?more) (?s\<lparr>m_pa_state := ?p\<rparr>))"
    using assms l
    by (cases ?q) (auto simp: send_probe_def Let_def poke_def probe_packet_def advance_probe_def)
  moreover have "config (arm_response now d w (?s\<lparr>m_pa_state := ?p\<rparr>)) = config s" for d w
    by (simp add: config_def arm_response_def)
  ultimately show ?thesis using assms(1) by simp
qed

text \<open>The waits that lead to another probe.\<close>

definition probe_again :: "server \<Rightarrow> bool" where
  "probe_again s \<longleftrightarrow> waiting Wait_first_probe s \<or> waiting (Wait_probe True) s"

lemma next_fire_probe:
  assumes "probe_again s" and "pa_state (m_pa_state s) = Probing" and "\<not> m_stopped s"
  shows "\<exists>now t. next_fire s = send_probe now (s\<lparr>m_response_timer := t\<rparr>)"
  using assms next_fire_waiting [of Wait_first_probe s] next_fire_waiting [of "Wait_probe True" s]
  by (auto simp: probe_again_def on_response_wait_def)

lemma next_fire_probe_result:
  assumes "probe_again s" and "pa_state (m_pa_state s) = Probing" and "\<not> m_stopped s" and "encodable (m_info s)"
  shows "\<exists>s'. next_fire s = Some s' \<and> config s' = config s \<and> sent s' = sent s @ [(multicast_ep s, probe_packet s)] \<and>
    ready_calls s' = ready_calls s \<and> m_on_ready s' = m_on_ready s \<and> pa_state (m_pa_state s') = Probing \<and>
    probe_count (m_pa_state s') = probe_count (m_pa_state s) + 1 \<and>
    waiting (Wait_probe (probe_count (m_pa_state s) + 1 < probe_count_opt (m_opts s))) s'"
proof -
  obtain now t where "next_fire s = send_probe now (s\<lparr>m_response_timer := t\<rparr>)"
    using next_fire_probe [OF assms(1-3)] by blast
  moreover have "config (s\<lparr>m_response_timer := t\<rparr>) = config s" "probe_packet (s\<lparr>m_response_timer := t\<rparr>) = probe_packet s"
    by (simp_all add: config_def probe_packet_def)
  ultimately show ?thesis using send_probe_result [of "s\<lparr>m_response_timer := t\<rparr>" now] assms by simp
qed

lemma count_succ:
  fixes c m :: u8
  assumes "unat c + k + 1 = max 1 (unat m)"
  shows "unat (c + 1) = unat c + 1 \<or> k = 0" "c + 1 < m \<longleftrightarrow> 0 < k"
proof -
  have "unat m < 2 ^ LENGTH(8)" by (rule unsigned_less)
  then have m: "unat m < 256" by simp
  with assms have "unat c + 1 < 256 \<or> unat c = 0" by linarith
  then have u: "unat (c + 1) = unat c + 1" using m assms by (subst unat_word_ariths) (auto simp: mod_less)
  then show "unat (c + 1) = unat c + 1 \<or> k = 0" by simp
  show "c + 1 < m \<longleftrightarrow> 0 < k" unfolding word_less_nat_alt u using assms by linarith
qed

lemma probe_countdown:
  assumes "probe_again s" and "pa_state (m_pa_state s) = Probing" and "\<not> m_stopped s" and "encodable (m_info s)"
    and "unat (probe_count (m_pa_state s)) + k + 1 = max 1 (unat (probe_count_opt (m_opts s)))"
  shows "\<exists>s'. run_timer (Suc k) s = Some s' \<and> config s' = config s \<and>
    sent s' = sent s @ replicate (Suc k) (multicast_ep s, probe_packet s) \<and> ready_calls s' = ready_calls s \<and>
    m_on_ready s' = m_on_ready s \<and> pa_state (m_pa_state s') = Probing \<and> waiting (Wait_probe False) s'"
  using assms
proof (induction k arbitrary: s)
  case 0
  with next_fire_probe_result [OF 0(1-4)] count_succ(2) [OF 0(5)] show ?case by auto
next
  case (Suc k)
  note c = count_succ [OF Suc.prems(5)]
  obtain s1 where s1: "next_fire s = Some s1" "config s1 = config s" "sent s1 = sent s @ [(multicast_ep s, probe_packet s)]"
    "ready_calls s1 = ready_calls s" "m_on_ready s1 = m_on_ready s" "pa_state (m_pa_state s1) = Probing"
    "probe_count (m_pa_state s1) = probe_count (m_pa_state s) + 1" "waiting (Wait_probe True) s1"
    using next_fire_probe_result [OF Suc.prems(1-4)] c(2) by auto
  have e: "multicast_ep s1 = multicast_ep s" "m_info s1 = m_info s" "m_opts s1 = m_opts s" "m_stopped s1 = m_stopped s"
    using s1(2) by (simp_all add: config_def)
  have "\<exists>s'. run_timer (Suc k) s1 = Some s' \<and> config s' = config s1 \<and>
    sent s' = sent s1 @ replicate (Suc k) (multicast_ep s1, probe_packet s1) \<and> ready_calls s' = ready_calls s1 \<and>
    m_on_ready s' = m_on_ready s1 \<and> pa_state (m_pa_state s') = Probing \<and> waiting (Wait_probe False) s'"
    using Suc.prems(3-5) c(1) s1(6-8) e by (intro Suc.IH) (simp_all add: probe_again_def)
  then show ?case using s1(1-5) e config_probe [OF s1(2)] by auto
qed

section \<open>Announcing\<close>

lemma announce_countdown:
  assumes "pa_state (m_pa_state s) = Announcing" and "\<not> m_stopped s"
    and "unat (announce_count (m_pa_state s)) + k + 1 = max 1 (unat (announce_count_opt (m_opts s)))"
  shows "\<exists>s'. run_timer k (send_announce now s) = Some s' \<and>
    sent s' = sent s @ concat (replicate (Suc k) (map (Pair (multicast_ep s)) (announcement_packets s))) \<and>
    ready_calls s' = ready_calls s @ (if m_on_ready s then [Ready None] else []) \<and> pa_state (m_pa_state s') = Live \<and> config s' = config s"
  using assms
proof (induction k arbitrary: s now)
  case 0
  with count_succ(2) [OF 0(3)] show ?case
    by (auto simp: send_announce_def Let_def advance_announce_def fire_on_ready_def set_state_def config_def)
next
  case (Suc k)
  note c = count_succ [OF Suc.prems(3)]
  define s1 where "s1 = send_announce now s"
  have eq: "s1 = arm_response now (announce_interval (m_opts s)) Wait_announce
    ((send_announcement s)\<lparr>m_pa_state := (m_pa_state s)\<lparr>announce_count := announce_count (m_pa_state s) + 1\<rparr>\<rparr>)"
    using Suc.prems c(2) by (simp add: s1_def send_announce_def Let_def advance_announce_def)
  have cfg: "config s1 = config s" by (simp add: eq config_def arm_response_def)
  then have e: "multicast_ep s1 = multicast_ep s" "m_opts s1 = m_opts s" "m_stopped s1 = m_stopped s"
    by (simp_all add: config_def)
  have "waiting Wait_announce s1" by (simp add: eq)
  then obtain now' t where "next_fire s1 = on_response_wait Wait_announce now' (s1\<lparr>m_response_timer := t\<rparr>)"
    using next_fire_waiting by blast
  then have fire: "next_fire s1 = Some (send_announce now' (s1\<lparr>m_response_timer := t\<rparr>))"
    using Suc.prems(1,2) by (simp add: on_response_wait_def e) (simp add: eq)
  have cfg': "config (s1\<lparr>m_response_timer := t\<rparr>) = config s" using cfg by (simp add: config_def)
  have "\<exists>s'. run_timer k (send_announce now' (s1\<lparr>m_response_timer := t\<rparr>)) = Some s' \<and>
    sent s' = sent (s1\<lparr>m_response_timer := t\<rparr>) @ concat (replicate (Suc k) (map (Pair (multicast_ep (s1\<lparr>m_response_timer := t\<rparr>)))
      (announcement_packets (s1\<lparr>m_response_timer := t\<rparr>)))) \<and>
    ready_calls s' = ready_calls (s1\<lparr>m_response_timer := t\<rparr>) @ (if m_on_ready (s1\<lparr>m_response_timer := t\<rparr>) then [Ready None] else []) \<and>
    pa_state (m_pa_state s') = Live \<and> config s' = config (s1\<lparr>m_response_timer := t\<rparr>)"
    using Suc.prems c(1) by (intro Suc.IH) (simp_all add: e, simp_all add: eq)
  moreover have "sent s1 = sent s @ map (Pair (multicast_ep s)) (announcement_packets s)" "ready_calls s1 = ready_calls s"
    "m_on_ready s1 = m_on_ready s" by (simp_all add: eq)
  ultimately show ?case
    using config_announcement [OF cfg'] cfg' by (auto simp: fire e simp flip: s1_def)
qed

lemma next_fire_announce:
  assumes "waiting (Wait_probe False) s" and "pa_state (m_pa_state s) = Probing" and "\<not> m_stopped s"
  shows "\<exists>s'. run_timer (max 1 (unat (announce_count_opt (m_opts s)))) s = Some s' \<and>
    sent s' = sent s @ concat (replicate (max 1 (unat (announce_count_opt (m_opts s))))
      (map (Pair (multicast_ep s)) (announcement_packets s))) \<and>
    ready_calls s' = ready_calls s @ (if m_on_ready s then [Ready None] else []) \<and> pa_state (m_pa_state s') = Live \<and> config s' = config s"
proof -
  obtain k where k: "max 1 (unat (announce_count_opt (m_opts s))) = Suc k" using not0_implies_Suc [of "max 1 _"] by auto
  obtain now t where "next_fire s = on_response_wait (Wait_probe False) now (s\<lparr>m_response_timer := t\<rparr>)"
    using next_fire_waiting [OF assms(1)] by blast
  moreover define u where "u = s\<lparr>m_response_timer := t, m_pa_state := begin_announcing (m_pa_state s)\<rparr>"
  ultimately have fire: "next_fire s = Some (send_announce now u)"
    using assms by (simp add: on_response_wait_def start_announcing_def)
  have cu: "config u = config s" by (simp add: u_def config_def begin_announcing_def)
  note cfg = config_announcement [OF this]
  have "\<exists>s'. run_timer k (send_announce now u) = Some s' \<and>
    sent s' = sent u @ concat (replicate (Suc k) (map (Pair (multicast_ep u)) (announcement_packets u))) \<and>
    ready_calls s' = ready_calls u @ (if m_on_ready u then [Ready None] else []) \<and> pa_state (m_pa_state s') = Live \<and> config s' = config u"
    using assms k by (intro announce_countdown) (simp_all add: u_def begin_announcing_def)
  moreover have "sent u = sent s" "multicast_ep u = multicast_ep s" "ready_calls u = ready_calls s" "m_on_ready u = m_on_ready s"
    by (simp_all add: u_def)
  ultimately show ?thesis unfolding k cfg run_timer.simps fire Option.bind_lunit using cu by simp
qed

section \<open>Starting\<close>

lemma start_probing_result:
  assumes "0 \<le> int32 (probe_initial_delay_max (m_opts s))"
  shows "\<exists>s'. start_probing now s = Some s' \<and> waiting Wait_first_probe s' \<and> pa_state (m_pa_state s') = Probing \<and>
    probe_count (m_pa_state s') = 0 \<and> m_info s' = m_info s \<and> m_opts s' = m_opts s \<and> m_env s' = m_env s \<and>
    multicast_ep s' = multicast_ep s \<and> m_stopped s' = m_stopped s \<and> m_on_ready s' = m_on_ready s \<and> out s' = out s \<and>
    m_posted s' = m_posted s"
  using assms
  by (simp add: start_probing_def Let_def uniform_int_Some begin_probing_def)
    (simp add: arm_response_def)

lemma async_start_result:
  assumes "server_ok s" and "pa_state (m_pa_state s) = Idle"
  shows "\<exists>s'. async_start r d now s = Some s' \<and> waiting Wait_first_probe s' \<and> pa_state (m_pa_state s') = Probing \<and>
    probe_count (m_pa_state s') = 0 \<and> m_info s' = m_info s \<and> m_opts s' = m_opts s \<and> m_env s' = m_env s \<and>
    multicast_ep s' = multicast_ep s \<and> m_stopped s' = m_stopped s \<and> m_on_ready s' = (r \<or> m_on_ready s) \<and> out s' = out s \<and>
    m_posted s' = m_posted s"
proof -
  define t where "t = (let s = (if r then s\<lparr>m_on_ready := True\<rparr> else s); s = (if d then s\<lparr>m_on_completion := True\<rparr> else s)
    in s\<lparr>m_loop := Some (new_loop (24 * 365 * 3600000) (receive_ttl_minimum (m_mdns_opts s))
      (unknown_ttl_policy (m_mdns_opts s)))\<rparr>)"
  have "0 \<le> int32 (probe_initial_delay_max (m_opts t))"
    using assms(1) by (simp add: t_def Let_def server_ok_def sane_options_def)
  then obtain u where u: "start_probing now t = Some u" and
    pu: "waiting Wait_first_probe u \<and> pa_state (m_pa_state u) = Probing \<and>
      probe_count (m_pa_state u) = 0 \<and> m_info u = m_info t \<and> m_opts u = m_opts t \<and> m_env u = m_env t \<and>
      multicast_ep u = multicast_ep t \<and> m_stopped u = m_stopped t \<and> m_on_ready u = m_on_ready t \<and> out u = out t \<and> m_posted u = m_posted t"
    using start_probing_result by blast
  have "async_start r d now s = Some (u\<lparr>m_loop := map_option (start_loop now) (m_loop u)\<rparr>)"
    using assms(2) u by (simp add: async_start_def do_start_def t_def Let_def)
  then show ?thesis using pu by (auto simp: t_def Let_def waiting_def)
qed

lemma filter_single: "length (filter P xs) \<le> 1 \<Longrightarrow> x \<in> set xs \<Longrightarrow> P x \<Longrightarrow> filter P xs = [x]"
  by (induction xs) (auto simp: filter_empty_conv split: if_splits)

lemma next_fire_step: "next_fire s = server_step Ev_response_timer (t_expiry (m_response_timer s)) s"
  by (simp add: next_fire_def)

lemma run_timer_reachable: "reachable s0 s \<Longrightarrow> run_timer n s = Some s' \<Longrightarrow> reachable s0 s'"
proof (induction n arbitrary: s)
  case (Suc n)
  then obtain t where t: "next_fire s = Some t" "run_timer n t = Some s'" by (auto simp: bind_eq_Some_conv)
  have "reachable s0 t" using Suc.prems(1) _ t(1) [unfolded next_fire_step] by (rule reachable_step) simp
  then show ?case using t(2) by (rule Suc.IH)
qed simp

lemma run_timer_evolves: "run_timer n s = Some s' \<Longrightarrow> evolves s s'"
proof (induction n arbitrary: s)
  case (Suc n)
  then obtain t where t: "next_fire s = Some t" "run_timer n t = Some s'" by (auto simp: bind_eq_Some_conv)
  have "evolves s t" using t(1) unfolding next_fire_step by (rule server_step_evolves) simp
  then show ?case using Suc.IH [OF t(2)] by (rule evolves_trans)
qed simp

lemma max_one_unat: "w \<noteq> 0 \<Longrightarrow> max 1 (unat w) = unat w"
  by (metis One_nat_def Suc_leI max.absorb2 unat_gt_0)

text \<open>
  The loop sends a packet before it compares the counter with the option, so that a count of zero
  has the effect of one: the server still probes once and still announces once.
\<close>

lemma started_server_live:
  assumes "server_ok s" and "pa_state (m_pa_state s) = Idle" and "\<not> m_stopped s"
  shows "\<exists>s1 s2. async_start r d now s = Some s1 \<and>
    run_timer (max 1 (unat (probe_count_opt (m_opts s))) + max 1 (unat (announce_count_opt (m_opts s)))) s1 = Some s2 \<and>
    pa_state (m_pa_state s2) = Live \<and>
    sent s2 = sent s @ replicate (max 1 (unat (probe_count_opt (m_opts s)))) (multicast_ep s, probe_packet s1) @
      concat (replicate (max 1 (unat (announce_count_opt (m_opts s)))) (map (Pair (multicast_ep s)) (announcement_packets s))) \<and>
    ready_calls s2 = ready_calls s @ (if r \<or> m_on_ready s then [Ready None] else []) \<and>
    \<not> m_stopped s2 \<and> m_posted s2 = m_posted s \<and> m_alive s2 = m_alive s1"
proof -
  obtain s1 where s1: "async_start r d now s = Some s1" "waiting Wait_first_probe s1" "pa_state (m_pa_state s1) = Probing"
    "probe_count (m_pa_state s1) = 0" "m_info s1 = m_info s" "m_opts s1 = m_opts s" "m_env s1 = m_env s"
    "multicast_ep s1 = multicast_ep s" "m_stopped s1 = m_stopped s" "m_on_ready s1 = (r \<or> m_on_ready s)" "out s1 = out s"
    "m_posted s1 = m_posted s"
    using async_start_result [OF assms(1,2)] by blast
  obtain k where k: "max 1 (unat (probe_count_opt (m_opts s))) = Suc k" using not0_implies_Suc [of "max 1 _"] by auto
  have enc: "encodable (m_info s1)" using assms(1) s1 by (simp add: server_ok_def)
  obtain u where u: "run_timer (Suc k) s1 = Some u" "config u = config s1"
    "sent u = sent s1 @ replicate (Suc k) (multicast_ep s1, probe_packet s1)" "ready_calls u = ready_calls s1"
    "m_on_ready u = m_on_ready s1" "pa_state (m_pa_state u) = Probing" "waiting (Wait_probe False) u"
    using probe_countdown [of s1 k] s1 enc k assms(3) by (auto simp: probe_again_def)
  have e: "m_opts u = m_opts s" "multicast_ep u = multicast_ep s" "\<not> m_stopped u"
    using u(2) s1 assms(3) by (simp_all add: config_def)
  have ann: "announcement_packets u = announcement_packets s"
    using config_announcement [OF u(2)] announcement_packets_cong [of s1 s] s1 by simp
  obtain s2 where s2: "run_timer (max 1 (unat (announce_count_opt (m_opts u)))) u = Some s2"
    "sent s2 = sent u @ concat (replicate (max 1 (unat (announce_count_opt (m_opts u))))
      (map (Pair (multicast_ep u)) (announcement_packets u)))"
    "ready_calls s2 = ready_calls u @ (if m_on_ready u then [Ready None] else [])" "pa_state (m_pa_state s2) = Live"
    "config s2 = config u"
    using next_fire_announce [OF u(7,6) e(3)] by blast
  have "run_timer (Suc k + max 1 (unat (announce_count_opt (m_opts s)))) s1 = Some s2"
    using u(1) s2(1) by (simp only: run_timer_add Option.bind_lunit e)
  moreover have "sent s1 = sent s" "ready_calls s1 = ready_calls s" using s1(11) by (simp_all add: sent_def ready_calls_def)
  moreover have "\<not> m_stopped s2" "m_posted s2 = m_posted s" "m_alive s2 = m_alive s1"
    using s2(5) u(2) s1(9,12) assms(3) by (simp_all add: config_def)
  ultimately show ?thesis
    unfolding k using s1(1,8,10) u(3-5) s2(2-4) by (simp add: e ann)
qed

section \<open>Properties\<close>

text \<open>
  C9: A started server becomes live. With at least one probe and one announcement configured, a working
  response timer and no conflicting packets, the timer fires once per probe and once per
  announcement; then the server is live, it has multicast exactly the configured number of probes
  followed by exactly the configured number of announcements, and the ready callback has been
  called once, without an error.
\<close>

theorem server_becomes_live:
  assumes "server_ok s" and "pa_state (m_pa_state s) = Idle" and "\<not> m_stopped s"
    and "probe_count_opt (m_opts s) \<noteq> 0" and "announce_count_opt (m_opts s) \<noteq> 0"
  shows "\<exists>s1 s2. async_start r d now s = Some s1 \<and>
    run_timer (unat (probe_count_opt (m_opts s)) + unat (announce_count_opt (m_opts s))) s1 = Some s2 \<and>
    pa_state (m_pa_state s2) = Live \<and>
    sent s2 = sent s @ replicate (unat (probe_count_opt (m_opts s))) (multicast_ep s, probe_packet s1) @
      concat (replicate (unat (announce_count_opt (m_opts s))) (map (Pair (multicast_ep s)) (announcement_packets s))) \<and>
    ready_calls s2 = ready_calls s @ (if r \<or> m_on_ready s then [Ready None] else [])"
  using started_server_live [OF assms(1-3), of r d now] max_one_unat [OF assms(4)] max_one_unat [OF assms(5)]
  by auto

theorem server_becomes_live_witness:
  "\<exists>s1 s2. async_start True False 0 example_server = Some s1 \<and> run_timer 5 s1 = Some s2 \<and>
     pa_state (m_pa_state s2) = Live \<and>
     sent s2 = replicate 3 (multicast_ep example_server, probe_packet s1) @
       concat (replicate 2 (map (Pair (multicast_ep example_server)) (announcement_packets example_server))) \<and>
     ready_calls s2 = [Ready None]"
proof -
  have "pa_state (m_pa_state example_server) = Idle" "\<not> m_stopped example_server"
    "probe_count_opt (m_opts example_server) = 3" "announce_count_opt (m_opts example_server) = 2"
    "sent example_server = []" "ready_calls example_server = []"
    by (simp_all add: example_server_def new_server_def new_pa_def default_service_options_def sent_def ready_calls_def)
  with server_becomes_live [OF example_server_ok, of True False 0] show ?thesis by simp
qed

text \<open>
  C12: A stop completes. When a running server is stopped and the executor has run the tasks that were
  posted before and the teardown, the server is in its final state: both timers are idle, the
  receive loop is stopped, the completion callback has been called, and a ready callback that was
  still outstanding has been called with the cancellation error.
\<close>

theorem stop_completes:
  assumes "\<not> m_stopped s" and "m_alive s" and "Teardown \<notin> set (m_posted s)"
  shows "let s' = (run_posted now ^^ Suc (length (m_posted s))) (stop s) in
    pa_state (m_pa_state s') = Stopped \<and> m_stopped s' \<and> m_posted s' = [] \<and>
    t_handler (m_response_timer s') = None \<and> t_handler (m_tc_timer s') = None \<and> m_tc_acc s' = [] \<and>
    \<not> armed (m_pending s') \<and> m_loop s' = map_option stop_loop (m_loop s) \<and>
    (m_on_completion s \<longrightarrow> Done None \<in> set (out s') \<and> \<not> m_on_completion s') \<and>
    (m_on_ready s \<and> pa_state (m_pa_state s) \<in> {Probing, Announcing} \<longrightarrow> Ready (Some Canceled) \<in> set (out s'))"
proof -
  define u where "u = (send_goodbye_if_needed (s\<lparr>m_stopped := True\<rparr>))\<lparr>m_posted := [Teardown]\<rparr>"
  have "(run_posted now ^^ length (m_posted s)) (stop s) = u"
    using assms(1,3) drain_posted [of "stop s" "m_posted s" "[Teardown]" now] by (simp add: stop_def Let_def u_def)
  then have "(run_posted now ^^ Suc (length (m_posted s))) (stop s) = teardown (u\<lparr>m_posted := []\<rparr>)"
    by (simp add: run_posted_def u_def)
  moreover have "m_alive u" "m_stopped u" "m_on_completion u = m_on_completion s" "m_on_ready u = m_on_ready s"
    "m_pa_state u = m_pa_state s" "m_loop u = m_loop s"
    using assms(2) by (simp_all add: u_def)
  ultimately show ?thesis
    by (auto simp: teardown_def Let_def set_state_def clear_def timer_simps fire_on_completion_def fire_on_ready_def emit_def)
qed

theorem stop_completes_witness:
  "pa_state (m_pa_state ((run_posted 7 ^^ Suc (length (m_posted example_server))) (stop example_server))) = Stopped"
  using stop_completes [of example_server 7] by (simp add: example_server_def new_server_def Let_def)

text \<open>
  C10: Lifecycle callbacks fire at most once. In every state that a new server can reach, the ready
  callback and the completion callback have each been called at most once.
\<close>

theorem callbacks_at_most_once:
  assumes "reachable (new_server env mcast info opts mopts on_error rng) s"
  shows "length (filter is_ready (out s)) \<le> 1 \<and> length (filter is_done (out s)) \<le> 1"
proof -
  have "callbacks_ok s"
    using assms
  proof (induction rule: reachable.induct)
    case reachable_init
    show ?case by (simp add: callbacks_ok_def readies_def dones_def new_server_def)
  next
    case (reachable_step s ev now s')
    then show ?case using callbacks_step by blast
  qed
  then show ?thesis by (auto simp: callbacks_ok_def readies_def dones_def split: if_splits)
qed

text \<open>
  A whole life of a server with both callbacks: it is started, fires its timer three times for the probes and
  twice for the announcements, is stopped when live, and runs the posted teardown.
\<close>

theorem callbacks_at_most_once_witness:
  "\<exists>s1 s2. async_start True True 0 example_server = Some s1 \<and> run_timer 5 s1 = Some s2 \<and>
    reachable example_server (run_posted 7 (stop s2)) \<and>
    filter is_ready (out (run_posted 7 (stop s2))) = [Ready None] \<and>
    length (filter is_done (out (run_posted 7 (stop s2)))) = 1"
proof -
  have ex: "pa_state (m_pa_state example_server) = Idle" "\<not> m_stopped example_server" "out example_server = []" "m_alive example_server"
    "m_posted example_server = []" "ready_calls example_server = []"
    "max 1 (unat (probe_count_opt (m_opts example_server))) + max 1 (unat (announce_count_opt (m_opts example_server))) = 5"
    by (simp_all add: example_server_def new_server_def new_pa_def default_service_options_def ready_calls_def)
  obtain s1 s2 where s: "async_start True True 0 example_server = Some s1" "run_timer 5 s1 = Some s2" "pa_state (m_pa_state s2) = Live"
    "ready_calls s2 = [Ready None]" "\<not> m_stopped s2" "m_posted s2 = []" "m_alive s2 = m_alive s1"
    using started_server_live [OF example_server_ok ex(1,2), of True True 0] unfolding ex by auto
  note q = async_start_quiet [OF s(1)]
  let ?s4 = "run_posted 7 (stop s2)"
  have e: "evolves s1 s2" "evolves s2 ?s4"
    using run_timer_evolves [OF s(2)] evolves_trans [OF stop_evolves run_posted_evolves] by blast+
  have "reachable example_server s1"
    using reachable_init _ s(1) [folded server_step.simps(1)] by (rule reachable_step) (simp add: ex)
  then have "reachable example_server s2" using s(2) by (rule run_timer_reachable)
  then have "reachable example_server (stop s2)" by (rule reachable_step [where ev = Ev_stop and now = 6]) simp_all
  then have r: "reachable example_server ?s4" by (rule reachable_step [where ev = Ev_posted and now = 7]) simp_all
  note once = callbacks_at_most_once [OF r [unfolded example_server_def]]
  have "Ready None \<in> set (out ?s4)"
    using s(4) e(2) by (auto simp: evolves_def ready_calls_def filter_eq_Cons_iff)
  then have rdy: "filter is_ready (out ?s4) = [Ready None]"
    using once by (intro filter_single) simp_all
  have "m_on_completion s1" "filter is_done (out s1) = []" using q ex(3) by simp_all
  then have "dones ?s4 = 1" using e by (simp add: evolves_def dones_def)
  moreover have "\<not> m_on_completion ?s4"
    using s(5,6,7) q ex(4) by (auto simp: stop_def Let_def run_posted_def teardown_def fire_on_completion_def set_state_def)
  ultimately have "length (filter is_done (out ?s4)) = 1" by (simp add: dones_def)
  with s(1,2) r rdy show ?thesis by blast
qed

end
