(* ===== verification/Server_Answers.thy ===== *)
theory Server_Answers
  imports Server_Progress
begin

text \<open>
  What a live responder puts on the wire: goodbyes, answers to queries, and two situations in which
  the answers are not the ones that were asked for.
\<close>

section \<open>Goodbye\<close>

lemma ttl_for_zero: "ttl_for cap 0 = 0"
  by (simp add: ttl_for_def word_le_nat_alt)

definition revoked :: "resource_record \<Rightarrow> resource_record" where
  "revoked r = r\<lparr>rr_ttl := 0\<rparr>"

lemma goodbye_sections:
  "response_sections p6 info Type_any goodbye_options cap =
     (map revoked (fst (response_sections p6 info Type_any opts cap)), [])"
  by (auto simp: response_sections_def Let_def goodbye_options_def ptr_rrs_def srv_rrs_def a_rrs_def aaaa_rrs_def
      txt_rrs_def txt_rr_def service_rr_def ttl_for_zero revoked_def split: list.split)

lemma any_sections_nonempty: "fst (response_sections p6 info Type_any opts cap) \<noteq> []"
  by (simp add: response_sections_def Let_def ptr_rrs_def)

lemma any_sections_answers_only: "response_sections p6 info Type_any opts cap = (fst (response_sections p6 info Type_any opts cap), [])"
  by (simp add: response_sections_def Let_def)

section \<open>A single question\<close>

text \<open>The record types that the known answers of a query suppress.\<close>

definition query_mask :: "server \<Rightarrow> dns_message \<Rightarrow> suppression_mask" where
  "query_mask s m =
     (if suppress_known_answers (m_opts s)
      then foldl (note_known (m_info s) (the (ttl_fraction (mdns_record_ttl (m_mdns_opts s)) (ka_suppression_fraction (m_mdns_opts s)))))
             empty_mask (msg_answers m)
      else empty_mask)"

definition negative :: "server \<Rightarrow> dns_type \<Rightarrow> bool" where
  "negative s t \<longleftrightarrow> t \<noteq> Type_any \<and> \<not> has_record_type t (m_info s)"

definition observed_query :: "server \<Rightarrow> endpoint \<Rightarrow> dns_type \<Rightarrow> response_mode \<Rightarrow> server" where
  "observed_query s sender t mode = (if has_on_query (m_opts s) then emit (Query_seen sender t mode) s else s)"

text \<open>
  A query for one of the names of a live service, sent by a full mDNS querier: its source port is 5353, so
  that the legacy unicast branch of \<open>on_packet\<close> is not concerned, whatever \<open>respond_to_legacy_unicast\<close> says.
\<close>

definition service_query :: "server \<Rightarrow> endpoint \<Rightarrow> dns_message \<Rightarrow> question \<Rightarrow> bool" where
  "service_query s sender m q \<longleftrightarrow>
     server_ok s \<and> pa_state (m_pa_state s) = Live \<and> \<not> m_stopped s \<and>
     valid_message m \<and> msg_questions m = [q] \<and> msg_flags m AND 0x8000 = 0 \<and> msg_flags m AND 0x0200 = 0 \<and>
     asks_service (m_info s) (m_opts s) q \<and>
     ep_port sender = 5353"

definition asked_mode :: "question \<Rightarrow> response_mode" where
  "asked_mode q = (if q_class q AND 0x8000 = 0 then Multicast else Unicast)"

lemma single_match:
  assumes "valid_message m" and "msg_questions m = [q]" and "asks_service info opts q"
  shows "\<exists>r. match_queries (message_bytes m @ post) info opts = Some r \<and> any_matched r \<and> \<not> meta_matched r \<and>
    matched_subtype r = [] \<and> accumulated_qtype r = dns_type_of (q_type q) \<and>
    match_needs_nsec r = (dns_type_of (q_type q) \<noteq> Type_any \<and> \<not> has_record_type (dns_type_of (q_type q)) info) \<and>
    match_mode r = asked_mode q \<and> offset_after_questions r = after_questions m"
proof -
  have "\<not> asks_meta opts q" "asked_subtype info opts q = []" using assms(3) by (simp_all add: asks_service_def)
  with assms match_message [OF assms(1), of post info opts] show ?thesis
    by (simp add: match_question_def note_match_def set_multicast_unless_qu_def empty_match_def asked_mode_def Let_def)
qed

lemma no_meta_responses: "\<not> meta_matched r \<Longrightarrow> matched_subtype r = [] \<Longrightarrow> send_meta_and_subtype_responses r sender s = s"
  by (simp add: send_meta_and_subtype_responses_def Let_def)

definition suppressed_query :: "server \<Rightarrow> dns_message \<Rightarrow> question \<Rightarrow> bool" where
  "suppressed_query s m q \<longleftrightarrow>
     suppress_known_answers (m_opts s) \<and> all_suppressed (query_mask s m) (dns_type_of (q_type q)) (m_info s)"

lemma service_query_handled:
  assumes sq: "service_query s sender m q"
  defines "t \<equiv> dns_type_of (q_type q)" and "s0 \<equiv> observed_query s sender (dns_type_of (q_type q)) (asked_mode q)"
  shows "on_packet sender (message_bytes m) now s =
    (if suppressed_query s m q then Some s0
     else if asked_mode q = Unicast then
       build_response_with_nsec (sys_inet_pton6 (m_env s)) (m_info s) t (negative s t) (query_mask s m)
         (suppress_known_answers (m_opts s)) (m_opts s) \<bind>
       (\<lambda>pkt. Some (if pkt \<noteq> [] then send_to Unicast sender pkt ''response send'' s0 else s0))
     else schedule_multicast_response now t (negative s t) (query_mask s m) s0)"
proof -
  have v: "valid_message m" and q: "msg_questions m = [q]" and as: "asks_service (m_info s) (m_opts s) q"
    using sq by (simp_all add: service_query_def)
  obtain r where r: "match_queries (message_bytes m) (m_info s) (m_opts s) = Some r" "any_matched r" "\<not> meta_matched r"
    "matched_subtype r = []" "accumulated_qtype r = t" "match_needs_nsec r = negative s t" "match_mode r = asked_mode q"
    "offset_after_questions r = after_questions m"
    using single_match [OF v q as, of "[]"] by (auto simp: negative_def t_def)
  obtain th where th: "ttl_fraction (mdns_record_ttl (m_mdns_opts s)) (ka_suppression_fraction (m_mdns_opts s)) = Some th"
    using sq by (auto simp: service_query_def server_ok_def sane_options_def)
  have mk: "(if suppress_known_answers (m_opts s) \<and> any_matched r then do {
        ka_threshold \<leftarrow> ttl_fraction (mdns_record_ttl (m_mdns_opts s)) (ka_suppression_fraction (m_mdns_opts s));
        parse_known_answers (message_bytes m) (offset_after_questions r) (m_info s) ka_threshold
      } else Some empty_mask) = Some (query_mask s m)"
    using known_answers_message [OF v, of "[]" "m_info s" th] by (simp add: th r query_mask_def)
  have "on_packet sender (message_bytes m) now s = handle_normal_query sender (message_bytes m) now s"
    using sq message_header(1,6) [OF v, of "[]"] by (auto simp: service_query_def on_packet_def)
  moreover have "(respond_to_legacy_unicast (m_opts s) \<and> ep_port sender \<noteq> 0 \<and> ep_port sender \<noteq> 5353) = False"
    using sq by (auto simp: service_query_def)
  moreover have "(if has_on_query (m_opts s) \<and> any_matched r
      then emit (Query_seen sender (accumulated_qtype r) (match_mode r)) s else s) = s0"
    using r by (simp add: s0_def observed_query_def t_def)
  moreover have "m_opts s0 = m_opts s" "m_info s0 = m_info s" "m_env s0 = m_env s" by (simp_all add: s0_def observed_query_def)
  ultimately show ?thesis
    unfolding handle_normal_query_def
    by (simp only: if_False Let_def r(1) mk Option.bind_lunit no_meta_responses [OF r(3,4)])
      (simp add: r(2-8) suppressed_query_def t_def)
qed

section \<open>Response packets\<close>

text \<open>
  The packet carries exactly the records prescribed for the type, the NSEC record of a negative answer
  included; without any record there is no packet. The second half says what a receiver gets of it: the
  records of the types the library decodes, of which NSEC is not one.
\<close>

definition response_for :: "server \<Rightarrow> dns_type \<Rightarrow> bool \<Rightarrow> suppression_mask \<Rightarrow> bytes \<Rightarrow> endpoint \<Rightarrow> bool" where
  "response_for s t nsec smask pkt receiver \<longleftrightarrow>
     (case aggregate_sections (sys_inet_pton6 (m_env s)) (m_info s) t nsec smask (suppress_known_answers (m_opts s)) (m_opts s) of
        (answers, additional) \<Rightarrow>
          pkt = (if answers = [] \<and> additional = [] then [] else message_bytes (response_message (answers, additional))) \<and>
          walk_dns_frame pkt receiver = Some (List.map_filter (rr_decoded receiver) (answers @ additional)))"

lemma response_for_walk:
  assumes "aggregate_sections (sys_inet_pton6 (m_env s)) (m_info s) t nsec smask (suppress_known_answers (m_opts s)) (m_opts s) = (an, ar)"
    and "response_for s t nsec smask pkt receiver"
  shows "walk_dns_frame pkt receiver = Some (List.map_filter (rr_decoded receiver) (an @ ar))"
  using assms(2) unfolding response_for_def assms(1) prod.case by blast

lemma response_for_built:
  assumes "announceable (m_info s)" and "inet_pton_width 16 (sys_inet_pton6 (m_env s))"
  shows "\<exists>pkt. build_response_with_nsec (sys_inet_pton6 (m_env s)) (m_info s) t nsec smask (suppress_known_answers (m_opts s)) (m_opts s)
      = Some pkt \<and> response_for s t nsec smask pkt receiver"
  using walk_aggregate [OF assms, of t nsec smask "suppress_known_answers (m_opts s)" "m_opts s" receiver]
  by (auto simp: response_for_def build_response_with_nsec_message [OF assms] Let_def split: prod.splits)

section \<open>Delayed responses\<close>

definition scheduled :: "int \<Rightarrow> int \<Rightarrow> pending_response \<Rightarrow> server \<Rightarrow> server \<Rightarrow> bool" where
  "scheduled now d p s s' \<longleftrightarrow>
     int32 (response_delay_min (m_mdns_opts s)) \<le> d \<and> d \<le> int32 (response_delay_max (m_mdns_opts s)) \<and>
     t_expiry (m_response_timer s') = now + d * 1000000 \<and> waiting Wait_respond s' \<and> m_pending s' = p \<and>
     out s' = out s \<and> m_info s' = m_info s \<and> m_opts s' = m_opts s \<and> m_env s' = m_env s \<and> multicast_ep s' = multicast_ep s \<and>
     m_stopped s' = m_stopped s \<and> m_pa_state s' = m_pa_state s \<and> m_dup_suppression s' = m_dup_suppression s"

lemma schedule_result:
  assumes "server_ok s" and "\<not> armed (m_pending s)"
  shows "\<exists>d s'. schedule_multicast_response now t n supp s = Some s' \<and>
    scheduled now d \<lparr>armed = True, pending_qtype = t, pending_needs_nsec = n, suppression = supp\<rparr> s s'"
proof -
  let ?lo = "int32 (response_delay_min (m_mdns_opts s))" and ?hi = "int32 (response_delay_max (m_mdns_opts s))"
  have le: "?lo \<le> ?hi" using assms(1) by (simp add: server_ok_def sane_options_def)
  define u where "u = s\<lparr>m_pending := merge t n supp (m_pending s)\<rparr>"
  let ?s' = "arm_response now (draw ?lo ?hi u) Wait_respond (u\<lparr>m_rng := (\<lambda>k. m_rng u (Suc k))\<rparr>)"
  have "schedule_multicast_response now t n supp s = Some ?s'"
    using assms(2) le by (simp add: schedule_multicast_response_def Let_def uniform_int_Some u_def)
  moreover have "m_pending u = \<lparr>armed = True, pending_qtype = t, pending_needs_nsec = n, suppression = supp\<rparr>"
    using assms(2) by (simp add: u_def merge_def)
  then have "scheduled now (draw ?lo ?hi u) \<lparr>armed = True, pending_qtype = t, pending_needs_nsec = n, suppression = supp\<rparr> s ?s'"
    using draw_bounds [OF le, of u] unfolding scheduled_def
    by (simp add: u_def) (simp add: arm_response_def inproc.due_arm)
  ultimately show ?thesis by blast
qed

lemma fire_pending_result:
  assumes "waiting Wait_respond s" and "\<not> m_stopped s" and "pa_state (m_pa_state s) = Live" and "m_dup_suppression s = []"
    and "announceable (m_info s)" and "inet_pton_width 16 (sys_inet_pton6 (m_env s))"
  shows "\<exists>s' pkt. next_fire s = Some s' \<and> sent s' = sent s @ (if pkt = [] then [] else [(multicast_ep s, pkt)]) \<and>
    \<not> armed (m_pending s') \<and>
    response_for s (pending_qtype (m_pending s)) (pending_needs_nsec (m_pending s)) (suppression (m_pending s)) pkt sender"
proof -
  obtain now t where f: "next_fire s = on_response_wait Wait_respond now (s\<lparr>m_response_timer := t\<rparr>)"
    using next_fire_waiting [OF assms(1)] by blast
  obtain pkt where b: "build_response_with_nsec (sys_inet_pton6 (m_env s)) (m_info s) (pending_qtype (m_pending s))
      (pending_needs_nsec (m_pending s)) (suppression (m_pending s)) (suppress_known_answers (m_opts s)) (m_opts s) = Some pkt"
    and w: "response_for s (pending_qtype (m_pending s)) (pending_needs_nsec (m_pending s)) (suppression (m_pending s)) pkt sender"
    using response_for_built [OF assms(5,6)] by blast
  let ?u = "s\<lparr>m_response_timer := t, m_dup_suppression := reset_seen [], m_pending := reset (m_pending s)\<rparr>"
  let ?s' = "if pkt \<noteq> [] then send_to Multicast no_endpoint pkt ''response send'' ?u else ?u"
  have "next_fire s = Some ?s'"
    using assms(2-4) b by (simp add: f on_response_wait_def fire_pending_response_def build_combined_suppression_def Let_def)
  moreover have "sent ?s' = sent s @ (if pkt = [] then [] else [(multicast_ep s, pkt)])" by simp
  moreover have "\<not> armed (m_pending ?s')" by (simp add: reset_def)
  ultimately show ?thesis using w by blast
qed

section \<open>Answers\<close>

text \<open>The packet holds the records prescribed for the question, with an NSEC record when the service has none of its type.\<close>

definition answers_question :: "server \<Rightarrow> dns_message \<Rightarrow> question \<Rightarrow> bytes \<Rightarrow> endpoint \<Rightarrow> bool" where
  "answers_question s m q pkt receiver \<longleftrightarrow>
     response_for s (dns_type_of (q_type q)) (negative s (dns_type_of (q_type q))) (query_mask s m) pkt receiver"

lemma unicast_answer:
  assumes "service_query s sender m q" and "asked_mode q = Unicast" and "\<not> suppressed_query s m q"
    and "announceable (m_info s)" and "inet_pton_width 16 (sys_inet_pton6 (m_env s))"
  shows "\<exists>s1 pkt. on_packet sender (message_bytes m) now s = Some s1 \<and>
    sent s1 = sent s @ (if pkt = [] then [] else [(sender, pkt)]) \<and> answers_question s m q pkt receiver"
proof -
  let ?t = "dns_type_of (q_type q)"
  let ?s0 = "observed_query s sender ?t (asked_mode q)"
  obtain pkt where "build_response_with_nsec (sys_inet_pton6 (m_env s)) (m_info s) ?t (negative s ?t) (query_mask s m)
      (suppress_known_answers (m_opts s)) (m_opts s) = Some pkt" and w: "answers_question s m q pkt receiver"
    using response_for_built [OF assms(4,5)] unfolding answers_question_def by blast
  then have "on_packet sender (message_bytes m) now s =
      Some (if pkt \<noteq> [] then send_to Unicast sender pkt ''response send'' ?s0 else ?s0)"
    using service_query_handled [OF assms(1), of now] assms(2,3) by simp
  moreover have "sent ?s0 = sent s" by (simp add: observed_query_def)
  then have "sent (if pkt \<noteq> [] then send_to Unicast sender pkt ''response send'' ?s0 else ?s0)
      = sent s @ (if pkt = [] then [] else [(sender, pkt)])" by simp
  ultimately show ?thesis using w by blast
qed

lemma multicast_answer:
  assumes "service_query s sender m q" and "asked_mode q = Multicast" and "\<not> suppressed_query s m q"
    and "\<not> armed (m_pending s)" and "m_dup_suppression s = []"
    and "announceable (m_info s)" and "inet_pton_width 16 (sys_inet_pton6 (m_env s))"
  shows "\<exists>s1 s2 d pkt. on_packet sender (message_bytes m) now s = Some s1 \<and> sent s1 = sent s \<and>
    int32 (response_delay_min (m_mdns_opts s)) \<le> d \<and> d \<le> int32 (response_delay_max (m_mdns_opts s)) \<and>
    t_expiry (m_response_timer s1) = now + d * 1000000 \<and>
    next_fire s1 = Some s2 \<and> sent s2 = sent s @ (if pkt = [] then [] else [(multicast_ep s, pkt)]) \<and>
    \<not> armed (m_pending s2) \<and> answers_question s m q pkt receiver"
proof -
  define s0 where "s0 = observed_query s sender (dns_type_of (q_type q)) (asked_mode q)"
  have s0: "server_ok s0" "\<not> armed (m_pending s0)" "sent s0 = sent s" "m_info s0 = m_info s" "m_opts s0 = m_opts s" "m_env s0 = m_env s"
    "multicast_ep s0 = multicast_ep s" "\<not> m_stopped s0" "pa_state (m_pa_state s0) = Live" "m_mdns_opts s0 = m_mdns_opts s"
    "m_dup_suppression s0 = []"
    using assms by (auto simp: s0_def observed_query_def service_query_def server_ok_def)
  have "on_packet sender (message_bytes m) now s = schedule_multicast_response now (dns_type_of (q_type q))
      (negative s (dns_type_of (q_type q))) (query_mask s m) s0"
    using service_query_handled [OF assms(1), of now] assms(2,3) by (simp add: s0_def)
  moreover obtain d s1 where s1: "schedule_multicast_response now (dns_type_of (q_type q))
      (negative s (dns_type_of (q_type q))) (query_mask s m) s0 = Some s1"
    and sch: "scheduled now d \<lparr>armed = True, pending_qtype = dns_type_of (q_type q),
      pending_needs_nsec = negative s (dns_type_of (q_type q)), suppression = query_mask s m\<rparr> s0 s1"
    using schedule_result [OF s0(1,2)] by blast
  moreover have e: "waiting Wait_respond s1" "\<not> m_stopped s1" "pa_state (m_pa_state s1) = Live" "m_dup_suppression s1 = []"
    "m_info s1 = m_info s" "m_opts s1 = m_opts s" "m_env s1 = m_env s" "multicast_ep s1 = multicast_ep s" "sent s1 = sent s"
    using sch s0 by (auto simp: scheduled_def sent_def)
  moreover have rf: "response_for s1 = response_for s" by (intro ext) (simp add: response_for_def e(5-7))
  moreover have d: "int32 (response_delay_min (m_mdns_opts s)) \<le> d" "d \<le> int32 (response_delay_max (m_mdns_opts s))"
    "t_expiry (m_response_timer s1) = now + d * 1000000" "pending_qtype (m_pending s1) = dns_type_of (q_type q)"
    "pending_needs_nsec (m_pending s1) = negative s (dns_type_of (q_type q))" "suppression (m_pending s1) = query_mask s m"
    using sch s0(10) by (simp_all add: scheduled_def)
  moreover obtain s2 pkt where "next_fire s1 = Some s2" "sent s2 = sent s @ (if pkt = [] then [] else [(multicast_ep s, pkt)])"
    "\<not> armed (m_pending s2)" "answers_question s m q pkt receiver"
    using fire_pending_result [OF e(1-4), of receiver] assms(6,7) unfolding e d answers_question_def rf by blast
  ultimately show ?thesis by (intro exI [of _ s1] exI [of _ s2] exI [of _ d] exI [of _ pkt]) simp
qed

section \<open>Properties\<close>

text \<open>
  C13: A goodbye revokes what was announced. When meta queries are not answered and no subtype is announced,
  so that an announcement is the one packet with the service's own records, stopping a server that has been
  announced multicasts exactly one packet, and it holds exactly the records of the announcement, each with a
  TTL of zero and otherwise unchanged.
\<close>

theorem stop_sends_goodbye:
  assumes "\<not> m_stopped s" and "send_goodbye (m_opts s)" and "pa_state (m_pa_state s) \<in> {Live, Announcing}"
    and "announceable (m_info s)" and "inet_pton_width 16 (sys_inet_pton6 (m_env s))"
    and "\<not> respond_to_meta_queries (m_opts s)" and "\<not> announce_subtypes (m_opts s) \<or> subtypes (m_info s) = []"
  shows "\<exists>rs. rs \<noteq> [] \<and>
    announcement_packets s = [message_bytes (response_message (rs, []))] \<and>
    sent (stop s) = sent s @ [(multicast_ep s, message_bytes (response_message (map revoked rs, [])))] \<and>
    walk_dns_frame (message_bytes (response_message (map revoked rs, []))) receiver
      = Some (List.map_filter (rr_decoded receiver) (map revoked rs))"
proof -
  let ?rs = "fst (response_sections (sys_inet_pton6 (m_env s)) (m_info s) Type_any (m_opts s) 0xFFFFFFFF)"
  note built = build_dns_response_message [OF assms(4,5), of Type_any _ "0xFFFFFFFF"]
  have gb: "build_dns_response (sys_inet_pton6 (m_env s)) (m_info s) Type_any goodbye_options 0xFFFFFFFF
      = message_bytes (response_message (map revoked ?rs, []))"
    using built [of goodbye_options] any_sections_nonempty by (simp add: goodbye_sections [of _ _ _ "m_opts s"])
  have ann: "build_dns_response (sys_inet_pton6 (m_env s)) (m_info s) Type_any (m_opts s) 0xFFFFFFFF
      = message_bytes (response_message (?rs, []))"
    using built [of "m_opts s"] any_sections_nonempty any_sections_answers_only by (simp add: Let_def)
  have "announcement_packets s = [message_bytes (response_message (?rs, []))]"
    using assms(6,7) by (auto simp: announcement_packets_def ann message_bytes_nonempty Let_def)
  moreover have "sent (stop s) = sent s @ [(multicast_ep s, message_bytes (response_message (map revoked ?rs, [])))]"
    using assms(1-3) gb by (auto simp: stop_def Let_def send_goodbye_if_needed_def message_bytes_nonempty)
  moreover have "walk_dns_frame (message_bytes (response_message (map revoked ?rs, []))) receiver
      = Some (List.map_filter (rr_decoded receiver) (map revoked ?rs))"
    using walk_response [OF assms(4,5), of Type_any goodbye_options "0xFFFFFFFF" receiver]
    by (simp add: goodbye_sections [of _ _ _ "m_opts s"] gb)
  ultimately show ?thesis using any_sections_nonempty by blast
qed


definition live_server :: server where
  "live_server = set_state Live example_server"

definition example_query :: dns_message where
  "example_query = query_message 0 ''_http._tcp.local.'' Type_ptr Multicast []"

lemma live_server_sels:
  "pa_state (m_pa_state live_server) = Live" "\<not> m_stopped live_server" "m_opts live_server = default_service_options"
  "m_mdns_opts live_server = default_mdns_options" "m_info live_server = example_info" "m_env live_server = example_env"
  "m_pending live_server = empty_pending" "m_dup_suppression live_server = []" "out live_server = []" "m_posted live_server = []"
  "m_alive live_server" "m_response_timer live_server = new_timer"
  by (simp_all add: live_server_def set_state_def example_server_def new_server_def)

lemma example_pton: "inet_pton_width 16 (sys_inet_pton6 example_env)"
  by (simp add: inet_pton_width_def example_env_def)

definition querier_ep :: endpoint where
  "querier_ep = \<lparr>ep_address = ''192.168.1.7'', ep_port = 5353\<rparr>"

lemma example_service_query:
  "service_query live_server querier_ep example_query \<lparr>q_name = ''_http._tcp.local.'', q_type = 12, q_class = 1\<rparr>"
proof -
  have n: "normalize ''_http._tcp.local.'' = ''_http._tcp.local.''" "normalize ''_services._dns-sd._udp.local.'' = ''_services._dns-sd._udp.local.''"
    by code_simp+
  have "asks_service example_info default_service_options \<lparr>q_name = ''_http._tcp.local.'', q_type = 12, q_class = 1\<rparr>"
    by (simp add: asks_service_def asks_meta_def asked_subtype_def n meta_query_name_def is_service_name_def example_info_def
        example_normalized)
  moreover have "valid_message example_query"
    by (simp add: example_query_def query_message_def valid_message_def msg_records_def example_wf_names)
  moreover have "server_ok live_server"
    using default_options_sane example_encodable by (simp add: server_ok_def live_server_sels)
  ultimately show ?thesis
    by (simp add: service_query_def live_server_sels example_query_def query_message_def querier_ep_def)
qed

definition plain_server :: server where
  "plain_server = live_server\<lparr>m_opts := default_service_options\<lparr>respond_to_meta_queries := False\<rparr>\<rparr>"

theorem stop_sends_goodbye_witness:
  "\<exists>rs. rs \<noteq> [] \<and> announcement_packets plain_server = [message_bytes (response_message (rs, []))] \<and>
    sent plain_server = [] \<and>
    sent (stop plain_server) = [(multicast_ep plain_server, message_bytes (response_message (map revoked rs, [])))]"
proof -
  have "sent plain_server = []" "\<not> m_stopped plain_server" "send_goodbye (m_opts plain_server)"
    "pa_state (m_pa_state plain_server) \<in> {Live, Announcing}" "announceable (m_info plain_server)"
    "inet_pton_width 16 (sys_inet_pton6 (m_env plain_server))" "\<not> respond_to_meta_queries (m_opts plain_server)"
    "\<not> announce_subtypes (m_opts plain_server) \<or> subtypes (m_info plain_server) = []"
    using example_announceable example_pton
    by (simp_all add: plain_server_def live_server_sels default_service_options_def sent_def)
  then show ?thesis using stop_sends_goodbye [of plain_server no_endpoint] by fastforce
qed

lemma example_not_suppressed: "\<not> suppressed_query live_server example_query \<lparr>q_name = ''_http._tcp.local.'', q_type = 12, q_class = 1\<rparr>"
  by (simp add: suppressed_query_def query_mask_def example_query_def query_message_def all_suppressed_def empty_mask_def
      dns_type_of_def)

lemma example_answer_nonempty:
  "answers_question live_server example_query \<lparr>q_name = ''_http._tcp.local.'', q_type = 12, q_class = 1\<rparr> pkt receiver \<Longrightarrow> pkt \<noteq> []"
  by (auto simp: answers_question_def response_for_def dns_type_of_def aggregate_sections_def response_sections_def Let_def ptr_rrs_def
      query_mask_def example_query_def query_message_def empty_mask_def message_bytes_nonempty split: if_splits)


end
