(* ===== verification/Server_Stuck.thy ===== *)
theory Server_Stuck
  imports Server_Answers
begin

text \<open>
  A multicast response that waits for its delay and the repeated announcement of an update use the
  same timer. This theory follows what happens when they meet: the response is never sent, and no
  later multicast response either.
\<close>

section \<open>What packet handling does to a pending response\<close>

text \<open>While a response is pending, a live server neither touches the response timer nor unarms it.\<close>

definition leaves_pending :: "server \<Rightarrow> server \<Rightarrow> bool" where
  "leaves_pending s s' \<longleftrightarrow>
     (armed (m_pending s) \<and> pa_state (m_pa_state s) = Live \<longrightarrow>
        armed (m_pending s') \<and> m_pa_state s' = m_pa_state s \<and> m_stopped s' = m_stopped s \<and>
        m_response_timer s' = m_response_timer s \<and> m_posted s' = m_posted s)"

definition leaves_result :: "server \<Rightarrow> server option \<Rightarrow> bool" where
  "leaves_result s r \<longleftrightarrow> (\<forall>s'. r = Some s' \<longrightarrow> leaves_pending s s')"

lemma leaves_refl [simp, intro]: "leaves_pending s s"
  by (simp add: leaves_pending_def)

lemma leaves_trans: "leaves_pending s t \<Longrightarrow> leaves_pending t u \<Longrightarrow> leaves_pending s u"
  by (auto simp: leaves_pending_def)

lemma leavesI:
  "m_pending s' = m_pending s \<Longrightarrow> m_pa_state s' = m_pa_state s \<Longrightarrow> m_stopped s' = m_stopped s \<Longrightarrow>
   m_response_timer s' = m_response_timer s \<Longrightarrow> m_posted s' = m_posted s \<Longrightarrow> leaves_pending s s'"
  by (simp add: leaves_pending_def)

lemma leaves_Some [simp]: "leaves_result s (Some s') \<longleftrightarrow> leaves_pending s s'"
  by (simp add: leaves_result_def)

lemma leaves_bind: "(\<And>x. m = Some x \<Longrightarrow> leaves_result s (f x)) \<Longrightarrow> leaves_result s (m \<bind> f)"
  by (cases m) (simp_all add: leaves_result_def)

lemma leaves_if: "(b \<Longrightarrow> leaves_result s r) \<Longrightarrow> (\<not> b \<Longrightarrow> leaves_result s r') \<Longrightarrow> leaves_result s (if b then r else r')"
  by simp

lemma leaves_after: "leaves_pending s t \<Longrightarrow> leaves_result t r \<Longrightarrow> leaves_result s r"
  by (auto simp: leaves_result_def intro: leaves_trans)

lemma leaves_appends: "appends s s' P \<Longrightarrow> leaves_pending s s'"
  by (rule leavesI) (simp_all add: appends_sel)

lemma merge_armed: "armed (merge t n supp p)"
  by (simp add: merge_def Let_def)

lemma schedule_leaves: "leaves_result s (schedule_multicast_response now t n supp s)"
proof (cases "armed (m_pending s)")
  case True
  then show ?thesis by (simp add: schedule_multicast_response_def Let_def leaves_pending_def merge_armed)
qed (simp add: leaves_result_def leaves_pending_def)

lemma handle_normal_query_leaves: "leaves_result s (handle_normal_query sender data now s)"
proof -
  have t: "leaves_pending s (send_meta_and_subtype_responses q sender (if b then emit (Query_seen sender ty m) s else s))" for q b ty m
    by (rule leaves_trans [OF _ leaves_appends [OF appends_meta]]) (auto intro!: leavesI)
  have u: "leaves_pending s (send_to Unicast sender p c (send_meta_and_subtype_responses q sender (if b then emit (Query_seen sender ty m) s else s)))"
    for p c q b ty m
    by (rule leaves_trans [OF t leaves_appends [OF appends_send_to]])
  have l: "leaves_result s (handle_legacy_unicast sender data s)"
    by (auto simp: handle_legacy_unicast_def Let_def intro!: leaves_bind leaves_appends appends_send_to)
  show ?thesis
    unfolding handle_normal_query_def Let_def
    by (intro leaves_if leaves_bind)
      (simp_all only: t u l leaves_Some leaves_refl leaves_after [OF t schedule_leaves] if_split simp_thms)
qed

lemma on_tc_wait_expired_leaves: "leaves_result s (on_tc_wait_expired sender w now s)"
proof -
  have t: "leaves_pending s (if b then emit (Tc_continued sender n) (s\<lparr>m_tc_acc := a\<rparr>) else s\<lparr>m_tc_acc := a\<rparr>)" for a b n
    by (auto intro!: leavesI)
  have a: "leaves_pending s (s\<lparr>m_tc_acc := a\<rparr>)" for a by (auto intro!: leavesI)
  obtain merged acc where tk: "take_if_ready sender time_point_max w (m_tc_acc s) = (merged, acc)" by fastforce
  show ?thesis
  proof (cases merged)
    case None
    with tk a show ?thesis by (simp add: on_tc_wait_expired_def)
  next
    case (Some recs)
    have "leaves_result s (schedule_multicast_response now Type_any False supp
        (if b then emit (Tc_continued sender n) (s\<lparr>m_tc_acc := acc\<rparr>) else s\<lparr>m_tc_acc := acc\<rparr>))" for supp b n
      by (rule leaves_after [OF t schedule_leaves])
    then show ?thesis
      unfolding on_tc_wait_expired_def Let_def tk Some prod.case option.case
      by (intro leaves_if leaves_bind) (simp_all only: t leaves_Some leaves_refl)
  qed
qed

lemma on_packet_leaves: "leaves_result s (on_packet sender data now s)"
proof -
  have o: "leaves_result s (observe_multicast_response data s)"
    unfolding observe_multicast_response_def by (intro leaves_if leaves_bind) (auto intro!: leavesI)
  have c: "leaves_result s (handle_tc_query sender data now s)"
    unfolding handle_tc_query_def Let_def
    by (intro leaves_if leaves_bind) (auto split: prod.split dest!: uniform_int_state intro!: leavesI)
  show ?thesis
    unfolding on_packet_def
    by (intro leaves_if leaves_bind) (simp_all add: o c handle_normal_query_leaves, simp add: leaves_result_def leaves_pending_def)
qed

interpretation server_pending: loop_evolution get_loop put_loop server_on_packet leaves_pending
proof
  show "leaves_pending s (put_loop l s)" for s l by (auto simp: put_loop_def intro!: leavesI)
  show "leaves_pending s s'" if "server_on_packet meta data now s = Some (s', relevant)" for meta data now s s' relevant
    using that on_packet_leaves [of s "rm_sender meta" data now] by (auto simp: server_on_packet_def leaves_result_def)
qed (auto intro: leaves_trans)

section \<open>A stuck response\<close>

definition stuck :: "server \<Rightarrow> bool" where
  "stuck s \<longleftrightarrow>
     armed (m_pending s) \<and> pa_state (m_pa_state s) = Live \<and> \<not> m_stopped s \<and> Teardown \<notin> set (m_posted s) \<and>
     t_handler (m_response_timer s) \<in> {None, Some Wait_update_announce}"

lemma leaves_stuck: "leaves_pending s s' \<Longrightarrow> stuck s \<Longrightarrow> stuck s'"
  by (auto simp: leaves_pending_def stuck_def)

lemma send_update_announce_stuck:
  assumes "armed (m_pending s)" and "pa_state (m_pa_state s) = Live" and "\<not> m_stopped s" and "Teardown \<notin> set (m_posted s)"
    and "t_handler (m_response_timer s) \<in> {None, Some Wait_update_announce} \<or> announce_count (m_pa_state s) + 1 < announce_count_opt (m_opts s)"
  shows "stuck (send_update_announce now s)"
  using assms by (auto simp: send_update_announce_def stuck_def Let_def advance_announce_def arm_response_def timer_simps)

lemma run_posted_stuck:
  assumes "stuck s"
  shows "stuck (run_posted now s)"
proof (cases "m_posted s")
  case Nil
  with assms show ?thesis by (simp add: run_posted_def)
next
  case (Cons t ts)
  with assms obtain info where t: "t = Update info" by (cases t) (auto simp: stuck_def)
  let ?u = "s\<lparr>m_posted := ts, m_info := info, m_pa_state := (m_pa_state s)\<lparr>announce_count := 0\<rparr>\<rparr>"
  have "stuck (send_update_announce now ?u)"
    using assms Cons by (intro send_update_announce_stuck) (auto simp: stuck_def)
  moreover have "stuck (s\<lparr>m_posted := ts\<rparr>)" using assms Cons by (auto simp: stuck_def)
  ultimately show ?thesis using Cons t by (simp add: run_posted_def run_update_def Let_def)
qed

lemma fire_response_timer_stuck:
  assumes "stuck s" and "fire_response_timer now s = Some s'"
  shows "stuck s'"
proof -
  obtain t w where f: "try_fire now (m_response_timer s) = (t, w)" by fastforce
  show ?thesis
  proof (cases w)
    case None
    then show ?thesis
      using assms inproc.fire_none [of now "m_response_timer s" t] f by (simp add: fire_response_timer_def Let_def)
  next
    case (Some v)
    then have "t_handler (m_response_timer s) = Some v" "t_handler t = None"
      using inproc.fire_some [of now "m_response_timer s" t v] f by simp_all
    then have "v = Wait_update_announce" "stuck (s\<lparr>m_response_timer := t\<rparr>)" using assms(1) by (auto simp: stuck_def)
    then show ?thesis
      using assms(2) f Some send_update_announce_stuck [of "s\<lparr>m_response_timer := t\<rparr>" now]
      by (auto simp: fire_response_timer_def on_response_wait_def Let_def stuck_def)
  qed
qed

lemma stuck_step:
  assumes "stuck s" and "server_step ev now s = Some s'"
  shows "stuck s' \<or> m_stopped s'"
proof (cases ev)
  case (Ev_update info)
  with assms show ?thesis by (auto simp: update_service_info_def stuck_def split: if_splits)
next
  case Ev_silence
  with assms show ?thesis
    by (auto split: if_splits intro: leaves_stuck server_pending.silence_evolves)
next
  case (Ev_packet meta data)
  with assms show ?thesis
    by (auto simp: server_receive_def split: if_splits intro: leaves_stuck server_pending.receive_evolves)
next
  case Ev_tc_timer
  have t: "leaves_pending s (s\<lparr>m_tc_timer := t\<rparr>)" for t by (auto intro!: leavesI)
  have "leaves_result s (fire_tc_timer now s)"
    by (auto simp: fire_tc_timer_def Let_def t intro: leaves_after [OF t on_tc_wait_expired_leaves]
        split: prod.split option.split tc_wait_for.split)
  with Ev_tc_timer assms show ?thesis by (auto simp: leaves_result_def intro: leaves_stuck)
next
  case (Ev_start r d)
  with assms show ?thesis by (auto simp: async_start_def stuck_def)
next
  case Ev_posted
  with assms show ?thesis using run_posted_stuck by auto
next
  case Ev_response_timer
  with assms show ?thesis using fire_response_timer_stuck by auto
qed (use assms in \<open>auto simp: stop_def destroy_def Let_def\<close>)

section \<open>Properties\<close>

text \<open>
  C40: An update loses pending responses. When the service information of a live server is updated
  while a multicast response is pending, and updates are announced more than once, then the
  response is never sent: in every later state of the running server the response is still marked
  as pending while no timer waits for it, so that later multicast queries are only merged into it.
\<close>

theorem update_loses_pending_response:
  assumes "pa_state (m_pa_state s) = Live" and "\<not> m_stopped s" and "m_alive s" and "armed (m_pending s)"
    and "Teardown \<notin> set (m_posted s)" and "1 < announce_count_opt (m_opts s)"
    and "reachable (run_update info now s) s'"
  shows "m_stopped s' \<or> (armed (m_pending s') \<and> t_handler (m_response_timer s') \<noteq> Some Wait_respond)"
proof -
  have init: "stuck (run_update info now s)"
    using assms(1-6) by (auto simp: run_update_def Let_def intro!: send_update_announce_stuck)
  have "stuck s' \<or> m_stopped s'"
    using assms(7)
  proof (induction rule: reachable.induct)
    case reachable_init
    with init show ?case by blast
  next
    case (reachable_step s ev now s')
    then show ?case using stuck_step silent_step [of ev now s s' s] by (auto simp: silent_after_def)
  qed
  then show ?thesis by (auto simp: stuck_def)
qed

theorem update_loses_pending_response_witness:
  "armed (m_pending (run_update example_info 5 (live_server\<lparr>m_pending := merge Type_ptr False empty_mask empty_pending\<rparr>)))"
proof -
  let ?s = "live_server\<lparr>m_pending := merge Type_ptr False empty_mask empty_pending\<rparr>"
  have "\<not> m_stopped (run_update example_info 5 ?s)"
    by (simp add: run_update_def send_update_announce_def live_server_sels Let_def advance_announce_def arm_response_def)
  then show ?thesis
    using update_loses_pending_response [OF _ _ _ _ _ _ reachable_init, of ?s example_info 5]
    by (auto simp: live_server_sels merge_armed default_service_options_def)
qed

end
