(* ===== verification/Observer.thy ===== *)
theory Observer
  imports Server_Match Recv_Loop
begin

text \<open>
  \<open>basic_observer.h\<close>: the passive listener. It sends nothing, delivers every record of every packet
  to the record callback and completes when it is stopped. The record callback is user code that
  may itself call \<open>stop()\<close>, so it is modelled by whether it does so for a given record.
\<close>

section \<open>The observer\<close>

datatype observe_effect =
    O_record endpoint mdns_record_variant
  | O_done

record observer =
  o_mdns_opts :: mdns_options
  o_stopped :: bool
  o_alive :: bool
  o_loop :: "recv_loop option"
  o_on_record :: "(endpoint \<Rightarrow> mdns_record_variant \<Rightarrow> bool) option"
  o_on_completion :: bool
  o_posted :: nat
  o_out :: "observe_effect list"

definition new_observer :: "(endpoint \<Rightarrow> mdns_record_variant \<Rightarrow> bool) option \<Rightarrow> mdns_options \<Rightarrow> observer" where
  "new_observer on_record mopts =
     \<lparr>o_mdns_opts = mopts, o_stopped = False, o_alive = True, o_loop = None, o_on_record = on_record,
      o_on_completion = False, o_posted = 0, o_out = []\<rparr>"

definition stop_observer :: "observer \<Rightarrow> observer" where
  "stop_observer s = (if o_stopped s then s else s\<lparr>o_stopped := True, o_posted := o_posted s + 1\<rparr>)"

definition teardown_observer :: "observer \<Rightarrow> observer" where
  "teardown_observer s =
     (if \<not> o_alive s then s
      else
        (let s = s\<lparr>o_loop := map_option stop_loop (o_loop s)\<rparr>
         in if o_on_completion s then s\<lparr>o_on_completion := False, o_out := o_out s @ [O_done]\<rparr> else s))"

definition run_posted_observer :: "observer \<Rightarrow> observer" where
  "run_posted_observer s = (if o_posted s = 0 then s else teardown_observer (s\<lparr>o_posted := o_posted s - 1\<rparr>))"

definition deliver_record :: "endpoint \<Rightarrow> mdns_record_variant \<Rightarrow> observer \<Rightarrow> observer" where
  "deliver_record sender rec s =
     (case o_on_record s of
        Some callback \<Rightarrow>
          if \<not> o_stopped s
          then (let s = s\<lparr>o_out := o_out s @ [O_record sender rec]\<rparr>
                in if callback sender rec then stop_observer s else s)
          else s
      | None \<Rightarrow> s)"

definition observer_on_packet :: "recv_metadata \<Rightarrow> bytes \<Rightarrow> int \<Rightarrow> observer \<Rightarrow> (observer \<times> bool) option" where
  "observer_on_packet meta data now s =
     (if o_stopped s then Some (s, True)
      else do {
        recs \<leftarrow> walk_dns_frame data (rm_sender meta);
        Some (fold (deliver_record (rm_sender meta)) recs s, True)
      })"

definition do_observe :: "int \<Rightarrow> observer \<Rightarrow> observer" where
  "do_observe now s =
     s\<lparr>o_loop := Some (start_loop now (new_loop (24 * 365 * 3600 * 1000) (receive_ttl_minimum (o_mdns_opts s))
         (unknown_ttl_policy (o_mdns_opts s))))\<rparr>"

definition async_observe :: "bool \<Rightarrow> int \<Rightarrow> observer \<Rightarrow> observer option" where
  "async_observe on_done now s =
     (if o_loop s \<noteq> None then None
      else
        (let s = (if on_done then s\<lparr>o_on_completion := True\<rparr> else s)
         in Some (do_observe now s)))"

text \<open>The destructor; destroying the loop stops it.\<close>

definition destroy_observer :: "observer \<Rightarrow> observer" where
  "destroy_observer s = (let s = stop_observer (s\<lparr>o_alive := False\<rparr>) in s\<lparr>o_loop := map_option stop_loop (o_loop s)\<rparr>)"

definition o_get_loop :: "observer \<Rightarrow> recv_loop" where
  "o_get_loop s = the (o_loop s)"

definition o_put_loop :: "recv_loop \<Rightarrow> observer \<Rightarrow> observer" where
  "o_put_loop l s = s\<lparr>o_loop := Some l\<rparr>"

datatype observer_event =
    Oev_observe bool
  | Oev_stop
  | Oev_posted
  | Oev_silence
  | Oev_packet recv_metadata bytes
  | Oev_destroy

fun observer_step :: "observer_event \<Rightarrow> int \<Rightarrow> observer \<Rightarrow> observer option" where
  "observer_step (Oev_observe on_done) now s = async_observe on_done now s"
| "observer_step Oev_stop now s = Some (stop_observer s)"
| "observer_step Oev_posted now s = Some (run_posted_observer s)"
| "observer_step Oev_silence now s =
     (if o_loop s = None then Some s else Some (silence o_get_loop o_put_loop (\<lambda>s. s) now s))"
| "observer_step (Oev_packet meta data) now s =
     (if o_loop s = None then Some s else receive o_get_loop o_put_loop observer_on_packet meta data now s)"
| "observer_step Oev_destroy now s = Some (destroy_observer s)"

section \<open>What the callback gets\<close>

text \<open>The records of a packet up to and including the one on which the callback stops the observer.\<close>

fun heard :: "('r \<Rightarrow> bool) \<Rightarrow> 'r list \<Rightarrow> 'r list" where
  "heard stops [] = []"
| "heard stops (r # rs) = (if stops r then [r] else r # heard stops rs)"

lemma stop_observer_sels [simp]:
  "o_out (stop_observer s) = o_out s" "o_loop (stop_observer s) = o_loop s" "o_stopped (stop_observer s)"
  "o_on_record (stop_observer s) = o_on_record s" "o_on_completion (stop_observer s) = o_on_completion s"
  "o_alive (stop_observer s) = o_alive s"
  by (simp_all add: stop_observer_def)

lemma deliver_stopped [simp]: "o_stopped s \<Longrightarrow> deliver_record sender r s = s"
  by (simp add: deliver_record_def split: option.split)

lemma fold_stopped: "o_stopped s \<Longrightarrow> fold (deliver_record sender) rs s = s"
  by (induction rs) simp_all

lemma deliver_sels [simp]:
  "o_loop (deliver_record sender r s) = o_loop s" "o_on_completion (deliver_record sender r s) = o_on_completion s"
  "o_on_record (deliver_record sender r s) = o_on_record s" "o_alive (deliver_record sender r s) = o_alive s"
  by (simp_all add: deliver_record_def Let_def split: option.split)

lemma fold_deliver_sels [simp]:
  "o_loop (fold (deliver_record sender) rs s) = o_loop s"
  "o_on_completion (fold (deliver_record sender) rs s) = o_on_completion s"
  by (induction rs arbitrary: s) simp_all

lemma fold_deliver_out:
  assumes "\<not> o_stopped s"
  shows "o_out (fold (deliver_record sender) rs s)
    = o_out s @ (case o_on_record s of None \<Rightarrow> [] | Some cb \<Rightarrow> map (O_record sender) (heard (cb sender) rs))"
  using assms
proof (induction rs arbitrary: s)
  case (Cons r rs)
  show ?case
  proof (cases "o_on_record s")
    case None
    with Cons show ?thesis by (simp add: deliver_record_def)
  next
    case (Some cb)
    then show ?thesis
      using Cons.prems Cons.IH [of "deliver_record sender r s"] fold_stopped [of "deliver_record sender r s"]
      by (cases "cb sender r") (simp_all add: deliver_record_def [of sender r] Let_def)
  qed
qed (simp split: option.split)

section \<open>Invariant and reachable states\<close>

definition o_dones :: "observer \<Rightarrow> observe_effect list" where
  "o_dones s = filter (\<lambda>e. e = O_done) (o_out s)"

definition observer_ok :: "observer \<Rightarrow> bool" where
  "observer_ok s \<longleftrightarrow>
     (o_dones s = [] \<or> o_dones s = [O_done] \<and> \<not> o_on_completion s \<and> o_stopped s \<and>
       (\<exists>l. o_loop s = Some l \<and> loop_stopped l)) \<and>
     (o_on_completion s \<longrightarrow> o_loop s \<noteq> None)"

definition observing :: "observer \<Rightarrow> bool" where
  "observing s \<longleftrightarrow> observer_ok s \<and> o_loop s \<noteq> None"

lemma o_dones_update [simp]:
  "o_dones (s\<lparr>o_loop := x\<rparr>) = o_dones s" "o_dones (s\<lparr>o_stopped := b\<rparr>) = o_dones s" "o_dones (s\<lparr>o_posted := n\<rparr>) = o_dones s"
  "o_dones (s\<lparr>o_alive := b\<rparr>) = o_dones s" "o_dones (s\<lparr>o_on_completion := b\<rparr>) = o_dones s"
  "o_dones (stop_observer s) = o_dones s"
  "o_dones (s\<lparr>o_out := o_out s @ [O_record sender r]\<rparr>) = o_dones s"
  "o_dones (s\<lparr>o_out := o_out s @ [O_done]\<rparr>) = o_dones s @ [O_done]"
  "o_dones (s\<lparr>o_loop := x, o_on_completion := b, o_out := o_out s @ [O_done]\<rparr>) = o_dones s @ [O_done]"
  "o_dones (s\<lparr>o_stopped := d, o_loop := x, o_on_completion := b, o_out := o_out s @ [O_done]\<rparr>) = o_dones s @ [O_done]"
  by (simp_all add: o_dones_def)

lemma fold_deliver_dones [simp]: "o_dones (fold (deliver_record sender) rs s) = o_dones s"
proof (induction rs arbitrary: s)
  case (Cons r rs)
  then show ?case by (simp add: deliver_record_def Let_def split: option.split)
qed simp

lemma fold_deliver_stays: "o_stopped s \<Longrightarrow> o_stopped (fold (deliver_record sender) rs s)"
  by (simp add: fold_stopped)

interpretation observer_loop: loop_client o_get_loop o_put_loop observer_on_packet observing
proof
  show "o_get_loop (o_put_loop l s) = l" for l s by (simp add: o_get_loop_def o_put_loop_def)
  show "observing (o_put_loop l s)" if "observing s" "loop_stopped l = loop_stopped (o_get_loop s)" for s l
    using that by (auto simp: observing_def observer_ok_def o_put_loop_def o_get_loop_def)
  show "observer_on_packet meta data now s \<noteq> None" for meta data now s
  proof -
    obtain recs where "walk_dns_frame data (rm_sender meta) = Some recs" using walk_dns_frame_range by blast
    then show ?thesis by (simp add: observer_on_packet_def ex_bool_eq)
  qed
  show "observing s'" if s: "observing s" "\<not> loop_stopped (o_get_loop s)" and p: "observer_on_packet meta data now s = Some (s', rel)"
    for s s' meta data now rel
    using that by (auto simp: observing_def observer_ok_def o_get_loop_def observer_on_packet_def bind_eq_Some_conv split: if_splits)
qed

fun observer_event_ok :: "observer_event \<Rightarrow> observer \<Rightarrow> bool" where
  "observer_event_ok (Oev_observe on_done) s \<longleftrightarrow> o_loop s = None"
| "observer_event_ok _ s \<longleftrightarrow> True"

lemma teardown_observer_ok:
  assumes "observer_ok s" and "o_stopped s"
  shows "observer_ok (teardown_observer s)"
  using assms by (auto simp: observer_ok_def teardown_observer_def Let_def)

lemma observer_step_ok:
  assumes ok: "observer_ok s" "o_posted s > 0 \<longrightarrow> o_stopped s" and "observer_event_ok ev s"
  shows "\<exists>s'. observer_step ev now s = Some s' \<and> observer_ok s'"
proof (cases ev)
  case (Oev_observe on_done)
  with assms show ?thesis by (auto simp: async_observe_def do_observe_def observer_ok_def)
next
  case Oev_stop
  with ok show ?thesis by (auto simp: observer_ok_def)
next
  case Oev_posted
  have "observer_ok (s\<lparr>o_posted := n\<rparr>)" for n using ok by (simp add: observer_ok_def)
  with Oev_posted ok show ?thesis by (auto simp: run_posted_observer_def intro: teardown_observer_ok)
next
  case Oev_silence
  with ok observer_loop.silence_safe [of s "\<lambda>s. s" now] show ?thesis by (auto simp: observing_def)
next
  case (Oev_packet meta data)
  with ok observer_loop.receive_safe [of s meta data now] show ?thesis by (auto simp: observing_def)
next
  case Oev_destroy
  with ok show ?thesis by (auto simp: destroy_observer_def Let_def observer_ok_def)
qed

inductive observer_reachable :: "observer \<Rightarrow> observer \<Rightarrow> bool" for s0 where
  observer_init: "observer_reachable s0 s0"
| observer_next: "observer_reachable s0 s \<Longrightarrow> observer_event_ok ev s \<Longrightarrow> observer_step ev now s = Some s' \<Longrightarrow> observer_reachable s0 s'"

text \<open>How a state may change: the stop flag stays set, and once it is set no record is delivered.\<close>

definition o_heard :: "observer \<Rightarrow> observe_effect list" where
  "o_heard s = filter (\<lambda>e. e \<noteq> O_done) (o_out s)"

definition observer_evolves :: "observer \<Rightarrow> observer \<Rightarrow> bool" where
  "observer_evolves s s' \<longleftrightarrow>
     (o_stopped s \<longrightarrow> o_stopped s' \<and> o_heard s' = o_heard s) \<and>
     ((o_posted s > 0 \<longrightarrow> o_stopped s) \<longrightarrow> (o_posted s' > 0 \<longrightarrow> o_stopped s'))"

lemma fold_deliver_posted:
  "o_posted s > 0 \<longrightarrow> o_stopped s \<Longrightarrow> o_posted (fold (deliver_record sender) rs s) > 0 \<longrightarrow> o_stopped (fold (deliver_record sender) rs s)"
proof (induction rs arbitrary: s)
  case (Cons r rs)
  have "o_posted (deliver_record sender r s) > 0 \<longrightarrow> o_stopped (deliver_record sender r s)"
    using Cons.prems by (auto simp: deliver_record_def Let_def split: option.split)
  from Cons.IH [OF this] show ?case by simp
qed simp

interpretation observer_evolution: loop_evolution o_get_loop o_put_loop observer_on_packet observer_evolves
proof
  show "observer_evolves s (o_put_loop l s)" for s l by (simp add: observer_evolves_def o_put_loop_def o_heard_def)
  show "observer_evolves s s'" if "observer_on_packet meta data now s = Some (s', rel)" for meta data now s s' rel
    using that fold_deliver_posted [of s]
    by (auto simp: observer_evolves_def observer_on_packet_def bind_eq_Some_conv split: if_splits)
qed (auto simp: observer_evolves_def)

lemma observer_step_evolves:
  assumes "observer_step ev now s = Some s'"
  shows "observer_evolves s s'"
proof (cases ev)
  case Oev_silence
  with assms observer_evolution.silence_evolves [of "\<lambda>s. s" s now] show ?thesis
    by (auto simp: observer_evolution.R_refl split: if_splits)
next
  case (Oev_packet meta data)
  with assms observer_evolution.receive_evolves [of meta data now s s'] show ?thesis
    by (auto simp: observer_evolution.R_refl split: if_splits)
next
  case Oev_posted
  with assms show ?thesis
    by (auto simp: run_posted_observer_def teardown_observer_def Let_def observer_evolves_def o_heard_def split: if_splits)
qed (use assms in \<open>auto simp: observer_evolves_def o_heard_def async_observe_def do_observe_def stop_observer_def
      destroy_observer_def Let_def split: if_splits\<close>)

lemma observer_reachable_evolves: "observer_reachable s s' \<Longrightarrow> observer_evolves s s'"
proof (induction rule: observer_reachable.induct)
  case (observer_next t ev now t')
  then show ?case using observer_evolution.R_trans [OF _ observer_step_evolves] by blast
qed (simp add: observer_evolution.R_refl)

lemma observer_reachable_ok:
  assumes "observer_reachable (new_observer on_record mopts) s"
  shows "observer_ok s \<and> (o_posted s > 0 \<longrightarrow> o_stopped s)"
proof -
  have p: "o_posted t > 0 \<longrightarrow> o_stopped t" if "observer_reachable (new_observer on_record mopts) t" for t
    using observer_reachable_evolves [OF that] by (simp add: observer_evolves_def new_observer_def)
  from assms have "observer_ok s"
  proof (induction rule: observer_reachable.induct)
    case (observer_next t ev now t')
    with observer_step_ok [of t ev now] p show ?case by auto
  qed (simp add: observer_ok_def new_observer_def o_dones_def)
  with p [OF assms] show ?thesis by blast
qed

section \<open>Properties\<close>

definition o_receives :: "recv_metadata \<Rightarrow> observer \<Rightarrow> bool" where
  "o_receives meta s \<longleftrightarrow>
     (case o_loop s of None \<Rightarrow> False | Some l \<Rightarrow> receive_armed l \<and> \<not> loop_stopped l \<and> accepts meta l) \<and> \<not> o_stopped s"

text \<open>
  The observer. In every state that a new observer can reach, every permitted event is defined
  and the completion handler has been called at most once; a packet that the loop accepts delivers
  its records in order up to the one on which the callback stops the observer, and arms the next
  receive; once the observer is stopped no record is delivered any more, whatever happens.
\<close>

lemma observer_delivers:
  assumes "observer_reachable (new_observer on_record mopts) s"
  shows "(observer_event_ok ev s \<longrightarrow> observer_step ev now s \<noteq> None) \<and> length (o_dones s) \<le> 1 \<and>
    (o_receives meta s \<and> walk_dns_frame data (rm_sender meta) = Some rs \<longrightarrow>
       (\<exists>s' l. observer_step (Oev_packet meta data) now s = Some s' \<and> o_loop s' = Some l \<and> receive_armed l \<and>
         o_out s' = o_out s @ (case o_on_record s of None \<Rightarrow> []
           | Some cb \<Rightarrow> map (O_record (rm_sender meta)) (heard (cb (rm_sender meta)) rs)))) \<and>
    (o_stopped s \<and> observer_reachable s s2 \<longrightarrow> o_heard s2 = o_heard s)"
proof (intro conjI impI)
  note ok = observer_reachable_ok [OF assms]
  show "observer_step ev now s \<noteq> None" if "observer_event_ok ev s" using observer_step_ok [of s ev now] ok that by fastforce
  show "length (o_dones s) \<le> 1" using ok by (auto simp: observer_ok_def)
  show "o_heard s2 = o_heard s" if "o_stopped s \<and> observer_reachable s s2"
    using that observer_reachable_evolves [of s s2] by (simp add: observer_evolves_def)
  assume r: "o_receives meta s \<and> walk_dns_frame data (rm_sender meta) = Some rs"
  then obtain l where l: "o_loop s = Some l" "receive_armed l" "\<not> loop_stopped l" "accepts meta l" "\<not> o_stopped s"
    by (auto simp: o_receives_def split: option.splits)
  have a: "accepts meta (l\<lparr>receive_armed := False\<rparr>)" using l(4) by (simp add: accepts_def split: option.splits)
  show "\<exists>s' l. observer_step (Oev_packet meta data) now s = Some s' \<and> o_loop s' = Some l \<and> receive_armed l \<and>
      o_out s' = o_out s @ (case o_on_record s of None \<Rightarrow> []
        | Some cb \<Rightarrow> map (O_record (rm_sender meta)) (heard (cb (rm_sender meta)) rs))"
    using l r a
    by (simp add: receive_def Let_def o_get_loop_def o_put_loop_def observer_on_packet_def fold_deliver_out
        arm_receive_def arm_silence_timer_def)
qed

definition example_observer :: observer where
  "example_observer = new_observer (Some (\<lambda>_ _. False)) default_mdns_options"

lemma observer_delivers_example:
  "observer_step (Oev_observe True) 0 example_observer \<noteq> None \<and> length (o_dones example_observer) \<le> 1"
  using observer_delivers [OF observer_init [of example_observer, unfolded example_observer_def], of "Oev_observe True" 0]
  unfolding example_observer_def by (simp add: new_observer_def)

text \<open>
  Stopping the observer: the task that \<open>stop()\<close> posts stops the loop and calls the completion
  handler, exactly once.
\<close>

lemma observer_stop_completes:
  assumes "observer_reachable (new_observer on_record mopts) s"
    and "o_alive s" and "\<not> o_stopped s" and "o_on_completion s"
  shows "\<exists>l. o_dones (run_posted_observer (stop_observer s)) = [O_done] \<and>
    o_loop (run_posted_observer (stop_observer s)) = Some l \<and> loop_stopped l"
proof -
  have "observer_ok s" using observer_reachable_ok [OF assms(1)] ..
  with assms show ?thesis
    by (auto simp: observer_ok_def run_posted_observer_def stop_observer_def teardown_observer_def Let_def)
qed

lemma observer_stop_completes_example:
  "o_dones (run_posted_observer (stop_observer (the (async_observe True 0 example_observer)))) = [O_done]"
proof -
  let ?s = "do_observe 0 (example_observer\<lparr>o_on_completion := True\<rparr>)"
  have step: "observer_step (Oev_observe True) 0 example_observer = Some ?s"
    by (simp add: async_observe_def example_observer_def new_observer_def)
  have "observer_reachable (new_observer (Some (\<lambda>_ _. False)) default_mdns_options) ?s"
    unfolding example_observer_def [symmetric]
    by (rule observer_next [OF observer_init _ step]) (simp add: example_observer_def new_observer_def)
  from observer_stop_completes [OF this] step show ?thesis
    by (simp add: do_observe_def example_observer_def new_observer_def async_observe_def)
qed

end
