(* ===== verification/Inproc.thy ===== *)
theory Inproc
  imports Ip_Text Dns_Types Timer
begin

text \<open>
  \<open>inproc/inproc_bus.h\<close>, \<open>inproc/inproc_socket.h\<close> and \<open>inproc/inproc_executor.h\<close>: the in-process network on
  which the peers run without an operating system. Sockets are numbered; the receive handlers of
  a socket are user code, of which only matters whether the call on a datagram arms the next
  receive. The bus delivers while no handler registers or closes a socket.
\<close>

section \<open>Sockets\<close>

datatype loopback_mode = Loopback_enabled | Loopback_disabled

record socket_options =
  interface_address :: string
  multicast_group :: endpoint
  multicast_loopback :: loopback_mode
  multicast_ttl :: "u8 option"
  port_override :: "u16 option"

definition default_socket_options :: socket_options where
  "default_socket_options =
     \<lparr>interface_address = [], multicast_group = \<lparr>ep_address = ''224.0.0.251'', ep_port = 5353\<rparr>,
      multicast_loopback = Loopback_enabled, multicast_ttl = None, port_override = None\<rparr>"

record datagram =
  dg_data :: bytes
  dg_from :: endpoint
  dg_ttl :: "u8 option"

text \<open>\<open>sk_open\<close> tells whether \<open>m_bus\<close> is set; \<open>sk_handled\<close> lists the datagrams on which receive handlers have been called.\<close>

record inproc_socket =
  sk_open :: bool
  sk_ep :: endpoint
  sk_pending_receive :: bool
  sk_recv_queue :: "datagram list"
  sk_handled :: "datagram list"

definition new_socket :: "endpoint \<Rightarrow> inproc_socket" where
  "new_socket ep = \<lparr>sk_open = True, sk_ep = ep, sk_pending_receive = False, sk_recv_queue = [], sk_handled = []\<rparr>"

text \<open>
  \<open>rearm\<close> tells whether the handler called on the last datagram of a history arms the next receive; a
  queued datagram is handled at once.
\<close>

function async_receive :: "(datagram list \<Rightarrow> bool) \<Rightarrow> inproc_socket \<Rightarrow> inproc_socket" where
  "async_receive rearm sk =
     (case sk_recv_queue sk of
        dg # dgs \<Rightarrow>
          (let sk = sk\<lparr>sk_recv_queue := dgs, sk_handled := sk_handled sk @ [dg]\<rparr>
           in if rearm (sk_handled sk) then async_receive rearm sk else sk)
      | [] \<Rightarrow> sk\<lparr>sk_pending_receive := True\<rparr>)"
  by pat_completeness auto
termination
  by (relation "measure (\<lambda>(_, sk). length (sk_recv_queue sk))") auto

declare async_receive.simps [simp del]

definition deliver :: "(datagram list \<Rightarrow> bool) \<Rightarrow> endpoint \<Rightarrow> bytes \<Rightarrow> u8 option \<Rightarrow> inproc_socket \<Rightarrow> inproc_socket" where
  "deliver rearm from data ttl sk =
     (let dg = \<lparr>dg_data = data, dg_from = from, dg_ttl = ttl\<rparr>
      in if sk_pending_receive sk
         then
           (let sk = sk\<lparr>sk_pending_receive := False, sk_handled := sk_handled sk @ [dg]\<rparr>
            in if rearm (sk_handled sk) then async_receive rearm sk else sk)
         else sk\<lparr>sk_recv_queue := sk_recv_queue sk @ [dg]\<rparr>)"

section \<open>The bus\<close>

record queued_packet =
  qp_from :: endpoint
  qp_to :: endpoint
  qp_data :: bytes

record socket_entry =
  se_sock :: nat
  se_assigned_ep :: endpoint
  se_group :: endpoint
  se_loopback :: bool

record inproc_bus =
  bus_sockets :: "socket_entry list"
  bus_queue :: "queued_packet list"
  bus_port :: u16
  bus_next_ip :: u8

definition new_bus :: "u16 \<Rightarrow> inproc_bus" where
  "new_bus start_port = \<lparr>bus_sockets = [], bus_queue = [], bus_port = start_port, bus_next_ip = 1\<rparr>"

definition register_socket :: "nat \<Rightarrow> socket_options \<Rightarrow> inproc_bus \<Rightarrow> endpoint \<times> inproc_bus" where
  "register_socket sock opts b =
     (let port = (case port_override opts of Some p \<Rightarrow> p | None \<Rightarrow> bus_port b);
          assigned = \<lparr>ep_address = ''127.0.0.'' @ show_nat (unat (bus_next_ip b)), ep_port = port\<rparr>
      in (assigned,
          b\<lparr>bus_next_ip := bus_next_ip b + 1,
            bus_sockets := bus_sockets b @
              [\<lparr>se_sock = sock, se_assigned_ep = assigned, se_group = multicast_group opts,
                se_loopback = (multicast_loopback opts = Loopback_enabled)\<rparr>]\<rparr>))"

definition deregister_socket :: "nat \<Rightarrow> inproc_bus \<Rightarrow> inproc_bus" where
  "deregister_socket sock b = b\<lparr>bus_sockets := filter (\<lambda>e. se_sock e \<noteq> sock) (bus_sockets b)\<rparr>"

definition enqueue :: "endpoint \<Rightarrow> endpoint \<Rightarrow> bytes \<Rightarrow> inproc_bus \<Rightarrow> inproc_bus" where
  "enqueue from to data b = b\<lparr>bus_queue := bus_queue b @ [\<lparr>qp_from = from, qp_to = to, qp_data = data\<rparr>]\<rparr>"

text \<open>The members of a socket that use the bus: construction, \<open>send\<close> and \<open>close\<close>.\<close>

definition open_socket :: "nat \<Rightarrow> socket_options \<Rightarrow> inproc_bus \<Rightarrow> inproc_socket \<times> inproc_bus" where
  "open_socket i opts b = (case register_socket i opts b of (ep, b) \<Rightarrow> (new_socket ep, b))"

definition send_datagram :: "inproc_socket \<Rightarrow> endpoint \<Rightarrow> bytes \<Rightarrow> inproc_bus \<Rightarrow> inproc_bus" where
  "send_datagram sk dest data b = (if sk_open sk then enqueue (sk_ep sk) dest data b else b)"

definition close_socket :: "nat \<Rightarrow> inproc_socket \<Rightarrow> inproc_bus \<Rightarrow> inproc_socket \<times> inproc_bus" where
  "close_socket i sk b = (if sk_open sk then (sk\<lparr>sk_open := False\<rparr>, deregister_socket i b) else (sk, b))"

text \<open>The sockets of the process, and the delivery of a packet to one of them.\<close>

type_synonym socks = "nat \<Rightarrow> inproc_socket"

definition deliver_to :: "(nat \<Rightarrow> datagram list \<Rightarrow> bool) \<Rightarrow> queued_packet \<Rightarrow> nat \<Rightarrow> socks \<Rightarrow> socks" where
  "deliver_to rearm pkt i ss = ss(i := deliver (rearm i) (qp_from pkt) (qp_data pkt) (Some 255) (ss i))"

fun unicast_loop :: "(nat \<Rightarrow> datagram list \<Rightarrow> bool) \<Rightarrow> queued_packet \<Rightarrow> socket_entry list \<Rightarrow> socks \<Rightarrow> bool \<times> socks" where
  "unicast_loop rearm pkt [] ss = (False, ss)"
| "unicast_loop rearm pkt (e # es) ss =
     (if qp_to pkt = se_assigned_ep e then (True, deliver_to rearm pkt (se_sock e) ss) else unicast_loop rearm pkt es ss)"

fun multicast_loop :: "(nat \<Rightarrow> datagram list \<Rightarrow> bool) \<Rightarrow> queued_packet \<Rightarrow> socket_entry list \<Rightarrow> socks \<Rightarrow> socks" where
  "multicast_loop rearm pkt [] ss = ss"
| "multicast_loop rearm pkt (e # es) ss =
     (if qp_to pkt \<noteq> se_group e then multicast_loop rearm pkt es ss
      else if \<not> se_loopback e \<and> se_assigned_ep e = qp_from pkt then multicast_loop rearm pkt es ss
      else multicast_loop rearm pkt es (deliver_to rearm pkt (se_sock e) ss))"

definition deliver_one :: "(nat \<Rightarrow> datagram list \<Rightarrow> bool) \<Rightarrow> inproc_bus \<Rightarrow> socks \<Rightarrow> bool \<times> inproc_bus \<times> socks" where
  "deliver_one rearm b ss =
     (case bus_queue b of
        [] \<Rightarrow> (False, b, ss)
      | pkt # pkts \<Rightarrow>
          (let b = b\<lparr>bus_queue := pkts\<rparr>;
               (delivered, ss) = unicast_loop rearm pkt (bus_sockets b) ss;
               ss = (if \<not> delivered then multicast_loop rearm pkt (bus_sockets b) ss else ss)
           in (True, b, ss)))"

definition has_pending_packets :: "inproc_bus \<Rightarrow> bool" where
  "has_pending_packets b \<longleftrightarrow> bus_queue b \<noteq> []"

section \<open>The executor\<close>

text \<open>What a step of the executor runs: a posted task, a timer handler, a delivery, or nothing.\<close>

datatype ('p, 'w) action = Ran_posted 'p | Fired nat 'w | Delivered | Idle

record ('p, 'w) inproc_executor =
  ex_posted :: "'p list"
  ex_timers :: "(nat \<times> 'w inproc_timer) list"

definition post :: "'p \<Rightarrow> ('p, 'w) inproc_executor \<Rightarrow> ('p, 'w) inproc_executor" where
  "post fn ex = ex\<lparr>ex_posted := ex_posted ex @ [fn]\<rparr>"

definition register_timer :: "nat \<Rightarrow> 'w inproc_timer \<Rightarrow> ('p, 'w) inproc_executor \<Rightarrow> ('p, 'w) inproc_executor" where
  "register_timer i t ex = (if i \<in> fst ` set (ex_timers ex) then ex else ex\<lparr>ex_timers := ex_timers ex @ [(i, t)]\<rparr>)"

definition deregister_timer :: "nat \<Rightarrow> ('p, 'w) inproc_executor \<Rightarrow> ('p, 'w) inproc_executor" where
  "deregister_timer i ex = ex\<lparr>ex_timers := filter (\<lambda>x. fst x \<noteq> i) (ex_timers ex)\<rparr>"

fun fire_first :: "int \<Rightarrow> (nat \<times> 'w inproc_timer) list \<Rightarrow> (nat \<times> 'w inproc_timer) list \<times> (nat \<times> 'w) option" where
  "fire_first now [] = ([], None)"
| "fire_first now ((i, t) # ts) =
     (case try_fire now t of
        (t', Some w) \<Rightarrow> ((i, t') # ts, Some (i, w))
      | (t', None) \<Rightarrow> (case fire_first now ts of (ts', r) \<Rightarrow> ((i, t') # ts', r)))"

definition exec_step ::
  "(nat \<Rightarrow> datagram list \<Rightarrow> bool) \<Rightarrow> int \<Rightarrow> ('p, 'w) inproc_executor \<Rightarrow> inproc_bus \<Rightarrow> socks
     \<Rightarrow> ('p, 'w) action \<times> ('p, 'w) inproc_executor \<times> inproc_bus \<times> socks" where
  "exec_step rearm now ex b ss =
     (case ex_posted ex of
        fn # fns \<Rightarrow> (Ran_posted fn, ex\<lparr>ex_posted := fns\<rparr>, b, ss)
      | [] \<Rightarrow>
          (case fire_first now (ex_timers ex) of
             (ts, Some (i, w)) \<Rightarrow> (Fired i w, ex\<lparr>ex_timers := ts\<rparr>, b, ss)
           | (ts, None) \<Rightarrow>
               (case deliver_one rearm b ss of
                  (delivered, b, ss) \<Rightarrow> (if delivered then Delivered else Idle, ex\<lparr>ex_timers := ts\<rparr>, b, ss))))"

section \<open>A socket neither loses nor reorders datagrams\<close>

definition received :: "inproc_socket \<Rightarrow> datagram list" where
  "received sk = sk_handled sk @ sk_recv_queue sk"

definition socket_ok :: "inproc_socket \<Rightarrow> bool" where
  "socket_ok sk \<longleftrightarrow> (sk_pending_receive sk \<longrightarrow> sk_recv_queue sk = [])"

lemma async_receive_received: "received (async_receive rearm sk) = received sk"
proof (induction rearm sk rule: async_receive.induct)
  case (1 rearm sk)
  then show ?case
    by (subst async_receive.simps) (auto simp: received_def Let_def split: list.split)
qed

lemma async_receive_ok: "socket_ok sk \<Longrightarrow> socket_ok (async_receive rearm sk)"
proof (induction rearm sk rule: async_receive.induct)
  case (1 rearm sk)
  then show ?case
    by (subst async_receive.simps) (auto simp: socket_ok_def Let_def split: list.split)
qed

lemma deliver_received:
  assumes "socket_ok sk"
  shows "received (deliver rearm from data ttl sk) = received sk @ [\<lparr>dg_data = data, dg_from = from, dg_ttl = ttl\<rparr>]"
    "socket_ok (deliver rearm from data ttl sk)"
proof -
  let ?u = "sk\<lparr>sk_pending_receive := False, sk_handled := sk_handled sk @ [\<lparr>dg_data = data, dg_from = from, dg_ttl = ttl\<rparr>]\<rparr>"
  have "socket_ok ?u" by (simp add: socket_ok_def)
  with assms async_receive_received [of rearm ?u] async_receive_ok [of ?u rearm]
  show "received (deliver rearm from data ttl sk) = received sk @ [\<lparr>dg_data = data, dg_from = from, dg_ttl = ttl\<rparr>]"
    "socket_ok (deliver rearm from data ttl sk)"
    by (auto simp: deliver_def Let_def received_def socket_ok_def)
qed

text \<open>A socket whose handler always arms the next receive handles every datagram when it arrives.\<close>

lemma listening_handles:
  assumes "sk_pending_receive sk" and "socket_ok sk" and "\<And>h. rearm h"
  shows "sk_handled (deliver rearm from data ttl sk) = sk_handled sk @ [\<lparr>dg_data = data, dg_from = from, dg_ttl = ttl\<rparr>] \<and>
    sk_pending_receive (deliver rearm from data ttl sk)"
  using assms by (simp add: deliver_def Let_def socket_ok_def async_receive.simps)

section \<open>The bus delivers to the addressed sockets\<close>

text \<open>
  A packet is addressed to the first socket with its destination as endpoint; if there is none, to
  the sockets of the destination group, less the sender when its loopback is off.
\<close>

definition in_group :: "queued_packet \<Rightarrow> socket_entry \<Rightarrow> bool" where
  "in_group pkt e \<longleftrightarrow> se_group e = qp_to pkt \<and> (se_loopback e \<or> se_assigned_ep e \<noteq> qp_from pkt)"

definition addressed :: "socket_entry list \<Rightarrow> queued_packet \<Rightarrow> nat \<Rightarrow> bool" where
  "addressed es pkt i =
     (case List.find (\<lambda>e. se_assigned_ep e = qp_to pkt) es of
        Some e \<Rightarrow> se_sock e = i
      | None \<Rightarrow> \<exists>e \<in> set es. se_sock e = i \<and> in_group pkt e)"

definition as_datagram :: "queued_packet \<Rightarrow> datagram" where
  "as_datagram pkt = \<lparr>dg_data = qp_data pkt, dg_from = qp_from pkt, dg_ttl = Some 255\<rparr>"

definition socks_ok :: "socks \<Rightarrow> bool" where
  "socks_ok ss \<longleftrightarrow> (\<forall>i. socket_ok (ss i))"

lemma deliver_to_received:
  assumes "socks_ok ss"
  shows "received (deliver_to rearm pkt j ss i) = received (ss i) @ (if j = i then [as_datagram pkt] else [])"
    "socks_ok (deliver_to rearm pkt j ss)"
  using assms by (auto simp: deliver_to_def socks_ok_def as_datagram_def deliver_received)

lemma unicast_loop_find:
  "unicast_loop rearm pkt es ss =
    (case List.find (\<lambda>e. se_assigned_ep e = qp_to pkt) es of
       Some e \<Rightarrow> (True, deliver_to rearm pkt (se_sock e) ss) | None \<Rightarrow> (False, ss))"
  by (induction es) (auto simp: eq_commute)

lemma multicast_loop_received:
  assumes "distinct (map se_sock es)" and "socks_ok ss"
  shows "received (multicast_loop rearm pkt es ss i)
      = received (ss i) @ (if \<exists>e \<in> set es. se_sock e = i \<and> in_group pkt e then [as_datagram pkt] else []) \<and>
    socks_ok (multicast_loop rearm pkt es ss)"
  using assms
proof (induction es arbitrary: ss)
  case (Cons e es)
  show ?case
  proof (cases "in_group pkt e")
    case True
    let ?ss = "deliver_to rearm pkt (se_sock e) ss"
    have l: "multicast_loop rearm pkt (e # es) ss = multicast_loop rearm pkt es ?ss" using True by (auto simp: in_group_def)
    have "received (multicast_loop rearm pkt es ?ss i)
        = received (?ss i) @ (if \<exists>e \<in> set es. se_sock e = i \<and> in_group pkt e then [as_datagram pkt] else []) \<and>
        socks_ok (multicast_loop rearm pkt es ?ss)"
      using Cons.prems deliver_to_received [of ss rearm pkt "se_sock e"] by (intro Cons.IH) simp_all
    moreover have "\<not> (se_sock e = i \<and> (\<exists>e \<in> set es. se_sock e = i \<and> in_group pkt e))" using Cons.prems(1) by (auto simp: image_iff)
    ultimately show ?thesis using True deliver_to_received(1) [OF Cons.prems(2)] unfolding l by auto
  next
    case False
    then have "multicast_loop rearm pkt (e # es) ss = multicast_loop rearm pkt es ss" by (auto simp: in_group_def)
    with False Cons show ?thesis by auto
  qed
qed simp

lemma deliver_one_received:
  assumes "distinct (map se_sock (bus_sockets b))" and "socks_ok ss" and "bus_queue b = pkt # pkts"
  shows "\<exists>ss'. deliver_one rearm b ss = (True, b\<lparr>bus_queue := pkts\<rparr>, ss') \<and> socks_ok ss' \<and>
    (\<forall>i. received (ss' i) = received (ss i) @ (if addressed (bus_sockets b) pkt i then [as_datagram pkt] else []))"
proof (cases "List.find (\<lambda>e. se_assigned_ep e = qp_to pkt) (bus_sockets b)")
  case None
  with assms(3) multicast_loop_received [OF assms(1,2), of rearm pkt] show ?thesis
    by (auto simp: deliver_one_def unicast_loop_find addressed_def)
next
  case (Some e)
  with assms(3) deliver_to_received [OF assms(2), of rearm pkt "se_sock e"] show ?thesis
    by (auto simp: deliver_one_def unicast_loop_find addressed_def)
qed

lemma closed_not_addressed:
  assumes "sk_open sk"
  shows "\<not> addressed (bus_sockets (snd (close_socket i sk b))) pkt i"
  using assms
  by (auto simp: addressed_def close_socket_def deregister_socket_def find_Some_iff split: option.split dest!: nth_mem)

fun deliver_n :: "nat \<Rightarrow> (nat \<Rightarrow> datagram list \<Rightarrow> bool) \<Rightarrow> inproc_bus \<Rightarrow> socks \<Rightarrow> inproc_bus \<times> socks" where
  "deliver_n 0 rearm b ss = (b, ss)"
| "deliver_n (Suc n) rearm b ss = (case deliver_one rearm b ss of (_, b, ss) \<Rightarrow> deliver_n n rearm b ss)"

section \<open>Properties\<close>

text \<open>
  C35: The in-process bus. Delivering the queued packets one by one empties the queue, and every
  socket gets, in the order in which they were sent and exactly once, the packets addressed to
  it: a unicast packet goes to the socket with that endpoint, a multicast packet to all sockets of the
  group except a sender without loopback. This holds whether or not the handlers arm the
  next receive; what is not handled yet waits in the socket's queue.
\<close>

theorem bus_delivers:
  assumes "distinct (map se_sock (bus_sockets b))" and "\<forall>i. socket_ok (ss i)"
  shows "\<exists>ss'. deliver_n (length (bus_queue b)) rearm b ss = (b\<lparr>bus_queue := []\<rparr>, ss') \<and>
    (\<forall>i. sk_handled (ss' i) @ sk_recv_queue (ss' i) =
       sk_handled (ss i) @ sk_recv_queue (ss i) @ map as_datagram (filter (\<lambda>pkt. addressed (bus_sockets b) pkt i) (bus_queue b)))"
proof -
  have "socks_ok ss" using assms(2) by (simp add: socks_ok_def)
  with assms(1) have "\<exists>ss'. deliver_n (length (bus_queue b)) rearm b ss = (b\<lparr>bus_queue := []\<rparr>, ss') \<and>
    (\<forall>i. received (ss' i) = received (ss i) @ map as_datagram (filter (\<lambda>pkt. addressed (bus_sockets b) pkt i) (bus_queue b)))"
  proof (induction "bus_queue b" arbitrary: b ss)
    case Nil
    then have "b\<lparr>bus_queue := []\<rparr> = b" by simp
    with Nil show ?case by (simp add: Nil.hyps [symmetric])
  next
    case (Cons pkt pkts)
    obtain ss1 where s1: "deliver_one rearm b ss = (True, b\<lparr>bus_queue := pkts\<rparr>, ss1)" "socks_ok ss1"
      "\<And>i. received (ss1 i) = received (ss i) @ (if addressed (bus_sockets b) pkt i then [as_datagram pkt] else [])"
      using deliver_one_received [OF Cons.prems Cons.hyps(2) [symmetric]] by blast
    from Cons.hyps(1) [of "b\<lparr>bus_queue := pkts\<rparr>" ss1] s1 Cons.prems(1) Cons.hyps(2) [symmetric] show ?case by auto
  qed
  then show ?thesis by (auto simp: received_def)
qed

definition group :: endpoint where
  "group = \<lparr>ep_address = ''224.0.0.251'', ep_port = 5353\<rparr>"

definition two_sockets :: inproc_bus where
  "two_sockets = enqueue \<lparr>ep_address = ''127.0.0.1'', ep_port = 5353\<rparr> group [1, 2]
     (snd (register_socket 1 default_socket_options (snd (register_socket 0 default_socket_options (new_bus 5353)))))"

theorem bus_delivers_witness:
  "\<exists>ss'. deliver_n 1 (\<lambda>_ _. True) two_sockets (\<lambda>_. new_socket group) = (two_sockets\<lparr>bus_queue := []\<rparr>, ss') \<and>
    sk_handled (ss' 1) @ sk_recv_queue (ss' 1) =
      [\<lparr>dg_data = [1, 2], dg_from = \<lparr>ep_address = ''127.0.0.1'', ep_port = 5353\<rparr>, dg_ttl = Some 255\<rparr>]"
proof -
  let ?pkt = "\<lparr>qp_from = \<lparr>ep_address = ''127.0.0.1'', ep_port = 5353\<rparr>, qp_to = group, qp_data = [1, 2]\<rparr>"
  have d: "distinct (map se_sock (bus_sockets two_sockets))" "bus_queue two_sockets = [?pkt]"
    by (simp_all add: two_sockets_def register_socket_def enqueue_def new_bus_def Let_def)
  have "addressed (bus_sockets two_sockets) ?pkt 1"
    by (simp add: two_sockets_def register_socket_def enqueue_def new_bus_def Let_def addressed_def in_group_def group_def
        default_socket_options_def)
  with bus_delivers [OF d(1), of "\<lambda>_. new_socket group" "\<lambda>_ _. True"] show ?thesis
    by (auto simp: d(2) socket_ok_def new_socket_def as_datagram_def)
qed

section \<open>Addresses\<close>

text \<open>
  The address counter has eight bits: the n-th socket of a bus gets the host number n modulo
  256, so the addresses are distinct exactly for up to 256 sockets.
\<close>

fun register_all :: "(nat \<times> socket_options) list \<Rightarrow> inproc_bus \<Rightarrow> inproc_bus" where
  "register_all [] b = b"
| "register_all ((i, opts) # rs) b = register_all rs (snd (register_socket i opts b))"

definition host_address :: "nat \<Rightarrow> string" where
  "host_address n = ''127.0.0.'' @ show_nat (n mod 256)"

lemma host_address_eq: "host_address m = host_address n \<longleftrightarrow> m mod 256 = n mod 256"
proof
  assume "host_address m = host_address n"
  then have "digits_value (show_nat (m mod 256)) = digits_value (show_nat (n mod 256))" by (simp add: host_address_def)
  then show "m mod 256 = n mod 256" by simp
qed (simp add: host_address_def)

lemma register_all_addresses:
  "map (\<lambda>e. ep_address (se_assigned_ep e)) (bus_sockets (register_all rs b))
    = map (\<lambda>e. ep_address (se_assigned_ep e)) (bus_sockets b) @ map (\<lambda>n. host_address (unat (bus_next_ip b) + n)) [0..<length rs]"
proof (induction rs arbitrary: b)
  case (Cons r rs)
  obtain i opts where r: "r = (i, opts)" by fastforce
  have next_ip: "host_address (unat (bus_next_ip b + 1) + n) = host_address (unat (bus_next_ip b) + Suc n)" for n
    unfolding host_address_eq by (simp add: unat_word_ariths) presburger
  have first: "host_address (unat (bus_next_ip b)) = ''127.0.0.'' @ show_nat (unat (bus_next_ip b))"
    using unsigned_less [of "bus_next_ip b", where 'a = nat] by (simp add: host_address_def)
  have "[0..<length (r # rs)] = 0 # map Suc [0..<length rs]" by (simp add: map_Suc_upt upt_conv_Cons [of 0] del: upt_Suc)
  with Cons [of "snd (register_socket i opts b)"] show ?case
    by (simp add: r register_socket_def Let_def next_ip first comp_def del: upt_Suc)
qed simp

lemma registered_addresses_distinct:
  "distinct (map (\<lambda>e. ep_address (se_assigned_ep e)) (bus_sockets (register_all rs (new_bus port)))) \<longleftrightarrow> length rs \<le> 256"
proof -
  have "inj_on (\<lambda>n. host_address (1 + n)) {0..<length rs} \<longleftrightarrow> length rs \<le> 256"
  proof
    assume inj: "inj_on (\<lambda>n. host_address (1 + n)) {0..<length rs}"
    show "length rs \<le> 256"
    proof (rule ccontr)
      assume "\<not> length rs \<le> 256"
      then have "0 \<in> {0..<length rs}" "256 \<in> {0..<length rs}" by auto
      moreover have "host_address (1 + 0) = host_address (1 + 256)" by (simp add: host_address_eq)
      ultimately show False using inj_onD [OF inj, of 0 256] by fastforce
    qed
  next
    assume "length rs \<le> 256"
    then show "inj_on (\<lambda>n. host_address (1 + n)) {0..<length rs}"
      unfolding inj_on_def host_address_eq by (auto simp: mod_Suc split: if_splits)
  qed
  then show ?thesis using register_all_addresses [of rs "new_bus port"] by (simp add: distinct_map new_bus_def)
qed

section \<open>Priorities of the executor\<close>

lemma fire_first_some:
  "fire_first now ts = (ts', Some (i, w)) \<Longrightarrow> \<exists>t. (i, t) \<in> set ts \<and> t_handler t = Some w \<and> t_expiry t \<le> now"
proof (induction ts arbitrary: ts')
  case (Cons x ts)
  obtain j t t' r where x: "x = (j, t)" "try_fire now t = (t', r)" by (metis surj_pair)
  show ?case
  proof (cases r)
    case None
    with Cons x show ?thesis by (auto split: prod.splits)
  next
    case (Some v)
    with Cons.prems x inproc.fire_some [of now t t' v] show ?thesis by auto
  qed
qed simp

lemma fire_first_none: "fire_first now ts = (ts', None) \<Longrightarrow> ts' = ts \<and> (\<forall>(i, t) \<in> set ts. snd (try_fire now t) = None)"
proof (induction ts arbitrary: ts')
  case (Cons x ts)
  obtain j t t' r where x: "x = (j, t)" "try_fire now t = (t', r)" by (metis surj_pair)
  with Cons inproc.fire_none [of now t t'] show ?case by (cases r) (auto split: prod.splits)
qed simp

text \<open>
  Posted tasks run before timers and timers before packets; a timer handler runs only when its
  wait is due; the executor is idle exactly when nothing is posted, due or queued.
\<close>

lemma executor_priorities:
  assumes "exec_step rearm now ex b ss = (act, ex', b', ss')"
  shows "(act = Ran_posted fn \<longrightarrow> (\<exists>fns. ex_posted ex = fn # fns \<and> ex_posted ex' = fns)) \<and>
    (act = Fired i w \<longrightarrow> ex_posted ex = [] \<and> (\<exists>t. (i, t) \<in> set (ex_timers ex) \<and> t_handler t = Some w \<and> t_expiry t \<le> now)) \<and>
    (act = Delivered \<longrightarrow> ex_posted ex = [] \<and> (\<forall>(i, t) \<in> set (ex_timers ex). snd (try_fire now t) = None) \<and> bus_queue b \<noteq> []) \<and>
    (act = Idle \<longrightarrow> ex_posted ex = [] \<and> (\<forall>(i, t) \<in> set (ex_timers ex). snd (try_fire now t) = None) \<and> bus_queue b = [] \<and>
       ex' = ex \<and> b' = b \<and> ss' = ss)"
proof (cases "ex_posted ex")
  case (Cons p ps)
  with assms show ?thesis by (auto simp: exec_step_def)
next
  case Nil
  obtain ts r where f: "fire_first now (ex_timers ex) = (ts, r)" by fastforce
  show ?thesis
  proof (cases r)
    case None
    obtain dl b1 ss1 where d: "deliver_one rearm b ss = (dl, b1, ss1)" by (metis surj_pair)
    then have "dl \<longleftrightarrow> bus_queue b \<noteq> []" "\<not> dl \<Longrightarrow> b1 = b \<and> ss1 = ss"
      by (auto simp: deliver_one_def Let_def split: list.splits prod.splits)
    with Nil None f d assms fire_first_none [of now "ex_timers ex" ts] show ?thesis
      by (auto simp: exec_step_def split: if_splits)
  next
    case (Some x)
    obtain j v where x: "x = (j, v)" by fastforce
    with Some Nil f assms fire_first_some [of now "ex_timers ex" ts j v] show ?thesis by (auto simp: exec_step_def)
  qed
qed

end
