(* ===== verification/Nic_Group.thy ===== *)
theory Nic_Group
  imports Network_Interfaces Monitor_Schedule Server_Stuck Observer Inproc
begin

text \<open>
  \<open>basic_nic_group.h\<close>, \<open>nic_group_options.h\<close> and \<open>detail/peer_traits.h\<close>: the group that runs one set of
  peers per network interface, and its type-erased form that is composed at run time. The pack of peer
  templates is a list with one entry per peer type, which holds the options vector of that
  type. The peers are the states of their own models; the random streams of a new peer are taken
  from the environment by the number of peers made so far. A destroyed peer stays in a list of
  retired peers, with what it has sent, since tasks that it posted are still run. The mutexes make
  the operations atomic. \<open>None\<close> is undefined behaviour, or an exception that leaves the group because
  the socket of a new peer cannot be opened: what a program does after it has caught that exception is
  not followed.
\<close>

section \<open>Options\<close>

datatype dedup_mode = Dedup_merged | Dedup_per_interface

record server_peer_options =
  sp_info :: service_info
  sp_opts :: service_options

record nic_group_options =
  go_dedup :: dedup_mode
  go_interface_filter :: "(network_interface \<Rightarrow> bool) option"
  go_socket_options_factory :: "(network_interface \<Rightarrow> socket_options) option"
  go_mdns_opts :: mdns_options
  go_poll_interval :: int

type_synonym record_handler = "endpoint \<Rightarrow> mdns_record_variant \<Rightarrow> bool"

datatype peer_options =
    Monitor_options "monitor_options list"
  | Server_options "server_peer_options list"
  | Observer_options "record_handler option list"

section \<open>State\<close>

datatype peer = Monitor_peer monitor | Server_peer server | Observer_peer observer

record nic_slot =
  slot_nic :: network_interface
  slot_instances :: "peer list list"

text \<open>
  The system behind the peers, whether the constructor of the n-th peer can open its socket with the given
  options, and the random streams of the n-th peer.
\<close>

record group_env =
  ge_server :: server_env
  ge_opens :: "nat \<Rightarrow> socket_options \<Rightarrow> bool"
  ge_rng :: "nat \<Rightarrow> nat \<Rightarrow> nat"
  ge_jitter :: "nat \<Rightarrow> nat \<Rightarrow> rat"
  ge_hint :: "nat \<Rightarrow> nat \<Rightarrow> nat"

record nic_group =
  g_env :: group_env
  g_alive :: nat
  g_opts :: nic_group_options
  g_monitor :: nic_monitor
  g_callbacks :: nat
  g_stopped :: bool
  g_peer_opts :: "peer_options list"
  g_instances :: "(u32 \<times> nic_slot) list"
  g_watch_set :: "string list"
  g_made :: nat
  g_retired :: "peer list"

text \<open>
  The constructor; \<open>initial\<close> is what the first enumeration returns. \<open>g_callbacks\<close> is the liveness
  token that the callbacks registered with the interface monitor hold.
\<close>

definition new_nic_group :: "group_env \<Rightarrow> nic_group_options \<Rightarrow> peer_options list \<Rightarrow> network_interface list option \<Rightarrow> nic_group" where
  "new_nic_group env opts peer_opts initial =
     \<lparr>g_env = env, g_alive = 0, g_opts = opts, g_monitor = new_nic_monitor initial (go_poll_interval opts), g_callbacks = 0,
      g_stopped = True, g_peer_opts = peer_opts, g_instances = [], g_watch_set = [], g_made = 0, g_retired = []\<rparr>"

section \<open>Making and starting peers\<close>

definition clone_monitor_options :: "monitor_options \<Rightarrow> monitor_options" where
  "clone_monitor_options opts = \<lparr>mo_on_found = False, mo_on_updated = False, mo_on_lost = False, mo_mode = mo_mode opts\<rparr>"

definition clone_service_options :: "service_options \<Rightarrow> service_options" where
  "clone_service_options opts = opts\<lparr>on_conflict := None, has_on_query := False, has_on_tc_continuation := False\<rparr>"

text \<open>\<open>make_peer_instance\<close>; the constructor throws when its socket cannot be opened.\<close>

definition opened :: "socket_options \<Rightarrow> nic_group \<Rightarrow> peer \<Rightarrow> peer option" where
  "opened sock_opts g p = (if ge_opens (g_env g) (g_made g) sock_opts then Some p else None)"

definition make_monitor :: "monitor_options \<Rightarrow> socket_options \<Rightarrow> nic_group \<Rightarrow> peer option" where
  "make_monitor opts sock_opts g = opened sock_opts g
     (Monitor_peer (new_monitor (sys_inet_pton6 (ge_server (g_env g))) (multicast_group sock_opts) (clone_monitor_options opts)
       (go_mdns_opts (g_opts g)) default_cache_options (ge_jitter (g_env g) (g_made g)) (ge_hint (g_env g) (g_made g))))"

definition make_server :: "server_peer_options \<Rightarrow> socket_options \<Rightarrow> nic_group \<Rightarrow> peer option" where
  "make_server opts sock_opts g = opened sock_opts g
     (Server_peer (new_server (ge_server (g_env g)) (multicast_group sock_opts) (sp_info opts)
       (clone_service_options (sp_opts opts)) default_mdns_options False (ge_rng (g_env g) (g_made g))))"

definition make_observer :: "record_handler option \<Rightarrow> socket_options \<Rightarrow> nic_group \<Rightarrow> peer option" where
  "make_observer opts sock_opts g = opened sock_opts g (Observer_peer (new_observer None (go_mdns_opts (g_opts g))))"

fun start_peer_instance :: "string list \<Rightarrow> int \<Rightarrow> peer \<Rightarrow> peer option" where
  "start_peer_instance watch_set now (Monitor_peer m) =
     map_option Monitor_peer (mon_start False now (fold (\<lambda>t. mon_post (Task_watch t)) watch_set m))"
| "start_peer_instance watch_set now (Server_peer s) = map_option Server_peer (async_start False False now s)"
| "start_peer_instance watch_set now (Observer_peer ob) = map_option Observer_peer (async_observe False now ob)"

text \<open>The loop over one options vector, for each of the three peer types.\<close>

fun create_peers ::
  "('o \<Rightarrow> socket_options \<Rightarrow> nic_group \<Rightarrow> peer option) \<Rightarrow> 'o list \<Rightarrow> socket_options \<Rightarrow> int \<Rightarrow> nic_group \<Rightarrow> (peer list \<times> nic_group) option" where
  "create_peers mk [] sock_opts now g = Some ([], g)"
| "create_peers mk (opts # rest) sock_opts now g = do {
     inst \<leftarrow> mk opts sock_opts g;
     inst \<leftarrow> start_peer_instance (g_watch_set g) now inst;
     (insts, g) \<leftarrow> create_peers mk rest sock_opts now (g\<lparr>g_made := g_made g + 1\<rparr>);
     Some (inst # insts, g)
   }"

fun create_peer_instances :: "peer_options \<Rightarrow> socket_options \<Rightarrow> int \<Rightarrow> nic_group \<Rightarrow> (peer list \<times> nic_group) option" where
  "create_peer_instances (Monitor_options opts) sock_opts now g = create_peers make_monitor opts sock_opts now g"
| "create_peer_instances (Server_options opts) sock_opts now g = create_peers make_server opts sock_opts now g"
| "create_peer_instances (Observer_options opts) sock_opts now g = create_peers make_observer opts sock_opts now g"

fun create_instances_for_nic ::
  "peer_options list \<Rightarrow> socket_options \<Rightarrow> int \<Rightarrow> nic_group \<Rightarrow> (peer list list \<times> nic_group) option" where
  "create_instances_for_nic [] sock_opts now g = Some ([], g)"
| "create_instances_for_nic (po # pos) sock_opts now g = do {
     (insts, g) \<leftarrow> create_peer_instances po sock_opts now g;
     (rest, g) \<leftarrow> create_instances_for_nic pos sock_opts now g;
     Some (insts # rest, g)
   }"

section \<open>Interfaces that come and go\<close>

definition nic_accepts :: "nic_group_options \<Rightarrow> network_interface \<Rightarrow> bool" where
  "nic_accepts opts nic = (case go_interface_filter opts of Some f \<Rightarrow> f nic | None \<Rightarrow> True)"

definition socket_options_for :: "nic_group_options \<Rightarrow> network_interface \<Rightarrow> socket_options" where
  "socket_options_for opts nic =
     (case go_socket_options_factory opts of
        Some factory \<Rightarrow> factory nic
      | None \<Rightarrow>
          if ni_ipv4_address nic \<noteq> [] then default_socket_options\<lparr>interface_address := ni_ipv4_address nic\<rparr>
          else if ni_ipv6_address nic \<noteq> [] then default_socket_options\<lparr>interface_address := ni_ipv6_address nic\<rparr>
          else default_socket_options)"

definition on_nic_added :: "network_interface \<Rightarrow> int \<Rightarrow> nic_group \<Rightarrow> nic_group option" where
  "on_nic_added nic now g =
     (if map_of (g_instances g) (ni_index nic) \<noteq> None then Some g
      else if \<not> nic_accepts (g_opts g) nic then Some g
      else do {
        (insts, g) \<leftarrow> create_instances_for_nic (g_peer_opts g) (socket_options_for (g_opts g) nic) now g;
        Some (g\<lparr>g_instances := g_instances g @ [(ni_index nic, \<lparr>slot_nic = nic, slot_instances = insts\<rparr>)]\<rparr>)
      })"

text \<open>\<open>stop()\<close> of a peer, and its destructor.\<close>

fun retire :: "peer \<Rightarrow> peer" where
  "retire (Monitor_peer m) = Monitor_peer (destroy_monitor (mon_stop m))"
| "retire (Server_peer s) = Server_peer (destroy (stop s))"
| "retire (Observer_peer ob) = Observer_peer (destroy_observer (stop_observer ob))"

definition stop_instance_tuple :: "nic_slot \<Rightarrow> nic_group \<Rightarrow> nic_group" where
  "stop_instance_tuple slot g = g\<lparr>g_retired := g_retired g @ map retire (concat (slot_instances slot))\<rparr>"

definition on_nic_removed :: "network_interface \<Rightarrow> nic_group \<Rightarrow> nic_group" where
  "on_nic_removed nic g =
     (case map_of (g_instances g) (ni_index nic) of
        None \<Rightarrow> g
      | Some slot \<Rightarrow> (stop_instance_tuple slot g)\<lparr>g_instances := drop_key (ni_index nic) (g_instances g)\<rparr>)"

fun on_nic_change :: "nic_change \<Rightarrow> int \<Rightarrow> nic_group \<Rightarrow> nic_group option" where
  "on_nic_change (Nic_added nic) now g = (if g_callbacks g \<noteq> g_alive g then Some g else on_nic_added nic now g)"
| "on_nic_change (Nic_removed nic) now g = (if g_callbacks g \<noteq> g_alive g then Some g else Some (on_nic_removed nic g))"

section \<open>Lifecycle\<close>

fun seed_nics :: "network_interface list \<Rightarrow> int \<Rightarrow> nic_group \<Rightarrow> nic_group option" where
  "seed_nics [] now g = Some g"
| "seed_nics (nic # nics) now g = do { g \<leftarrow> on_nic_added nic now g; seed_nics nics now g }"

definition group_start :: "bool \<Rightarrow> int \<Rightarrow> nic_group \<Rightarrow> nic_group option" where
  "group_start bound now g =
     (let g = g\<lparr>g_stopped := False\<rparr>;
          g = g\<lparr>g_callbacks := g_alive g, g_monitor := nic_on_removed (nic_on_added (g_monitor g))\<rparr>;
          g = g\<lparr>g_monitor := nic_start bound now (g_monitor g)\<rparr>
      in seed_nics (current (g_monitor g)) now g)"

definition stop_all_instances :: "nic_group \<Rightarrow> nic_group" where
  "stop_all_instances g = fold (\<lambda>(idx, slot). stop_instance_tuple slot) (g_instances g) g"

definition group_stop :: "nic_group \<Rightarrow> nic_group" where
  "group_stop g =
     (if g_stopped g then g
      else
        (let g = g\<lparr>g_stopped := True\<rparr>;
             g = g\<lparr>g_monitor := nic_stop (g_monitor g)\<rparr>;
             g = (stop_all_instances g)\<lparr>g_instances := []\<rparr>
         in g\<lparr>g_alive := g_alive g + 1\<rparr>))"

section \<open>Services and watches\<close>

text \<open>The position of the monitors in the pack.\<close>

fun peer_index_of :: "peer_options list \<Rightarrow> nat option" where
  "peer_index_of [] = None"
| "peer_index_of (Monitor_options _ # pos) = Some 0"
| "peer_index_of (Server_options _ # pos) = map_option Suc (peer_index_of pos)"
| "peer_index_of (Observer_options _ # pos) = map_option Suc (peer_index_of pos)"

definition provides_services :: "nic_group \<Rightarrow> bool" where
  "provides_services g \<longleftrightarrow> peer_index_of (g_peer_opts g) \<noteq> None"

fun the_monitor :: "peer \<Rightarrow> monitor list" where
  "the_monitor (Monitor_peer m) = [m]"
| "the_monitor _ = []"

definition slot_monitors :: "nic_group \<Rightarrow> nic_slot \<Rightarrow> monitor list" where
  "slot_monitors g slot =
     (case peer_index_of (g_peer_opts g) of
        None \<Rightarrow> []
      | Some idx \<Rightarrow> concat (map the_monitor (slot_instances slot ! idx)))"

text \<open>The services in the order in which both loops visit them, stamped with their interface.\<close>

definition collect_per_interface :: "nic_group \<Rightarrow> resolved_service list" where
  "collect_per_interface g =
     concat (map (\<lambda>(idx, slot). concat (map (\<lambda>m. map (\<lambda>svc. svc\<lparr>rs_source_interface := slot_nic slot\<rparr>) (services m))
       (slot_monitors g slot))) (g_instances g))"

definition collect_merged :: "nic_group \<Rightarrow> resolved_service list" where
  "collect_merged g =
     map snd (fold (\<lambda>svc by_name. assign (str (rs_instance_name svc)) svc by_name) (collect_per_interface g) [])"

definition group_services :: "nic_group \<Rightarrow> resolved_service list" where
  "group_services g = (if go_dedup (g_opts g) = Dedup_per_interface then collect_per_interface g else collect_merged g)"

fun on_monitor :: "(monitor \<Rightarrow> monitor) \<Rightarrow> peer \<Rightarrow> peer" where
  "on_monitor f (Monitor_peer m) = Monitor_peer (f m)"
| "on_monitor f p = p"

definition for_each_monitor_instance :: "(monitor \<Rightarrow> monitor) \<Rightarrow> nic_group \<Rightarrow> nic_group" where
  "for_each_monitor_instance fn g =
     (case peer_index_of (g_peer_opts g) of
        None \<Rightarrow> g
      | Some idx \<Rightarrow>
          g\<lparr>g_instances := map (\<lambda>(k, slot). (k, slot\<lparr>slot_instances :=
              (slot_instances slot)[idx := map (on_monitor fn) (slot_instances slot ! idx)]\<rparr>)) (g_instances g)\<rparr>)"

definition group_watch :: "string \<Rightarrow> nic_group \<Rightarrow> nic_group" where
  "group_watch svc_type g =
     for_each_monitor_instance (mon_post (Task_watch svc_type)) (g\<lparr>g_watch_set := List.insert svc_type (g_watch_set g)\<rparr>)"

definition group_unwatch :: "string \<Rightarrow> nic_group \<Rightarrow> nic_group" where
  "group_unwatch svc_type g =
     for_each_monitor_instance (mon_post (Task_unwatch svc_type)) (g\<lparr>g_watch_set := removeAll svc_type (g_watch_set g)\<rparr>)"

section \<open>The group composed at run time\<close>

record dynamic_nic_group =
  d_grp_opts :: nic_group_options
  d_impl :: "nic_group option"
  d_monitor_opts :: "monitor_options list option"
  d_server_opts :: "server_peer_options list option"
  d_observer_opts :: "record_handler option list option"

definition new_dynamic_group :: "nic_group_options \<Rightarrow> dynamic_nic_group" where
  "new_dynamic_group opts = \<lparr>d_grp_opts = opts, d_impl = None, d_monitor_opts = None, d_server_opts = None, d_observer_opts = None\<rparr>"

definition dyn_monitor :: "monitor_options list \<Rightarrow> dynamic_nic_group \<Rightarrow> dynamic_nic_group" where
  "dyn_monitor opts d = d\<lparr>d_monitor_opts := Some opts\<rparr>"

definition dyn_announce :: "server_peer_options list \<Rightarrow> dynamic_nic_group \<Rightarrow> dynamic_nic_group" where
  "dyn_announce opts d = d\<lparr>d_server_opts := Some opts\<rparr>"

definition dyn_observe :: "record_handler option list \<Rightarrow> dynamic_nic_group \<Rightarrow> dynamic_nic_group" where
  "dyn_observe opts d = d\<lparr>d_observer_opts := Some opts\<rparr>"

text \<open>The pack of the selected instantiation: monitors, servers and observers in this order.\<close>

definition selected_peers :: "dynamic_nic_group \<Rightarrow> peer_options list" where
  "selected_peers d =
     (case d_monitor_opts d of Some opts \<Rightarrow> [Monitor_options opts] | None \<Rightarrow> []) @
     (case d_server_opts d of Some opts \<Rightarrow> [Server_options opts] | None \<Rightarrow> []) @
     (case d_observer_opts d of Some opts \<Rightarrow> [Observer_options opts] | None \<Rightarrow> [])"

text \<open>
  The destructor of a group stops it. Moving from an options vector leaves it empty, while the
  optional still has a value; what moving from the group options leaves of its two function objects is
  unspecified (\<open>moved\<close>). The third component are the peers of the group that is replaced.
\<close>

definition dyn_start ::
  "group_env \<Rightarrow> (nic_group_options \<Rightarrow> nic_group_options) \<Rightarrow> network_interface list option \<Rightarrow> bool \<Rightarrow> int \<Rightarrow>
   dynamic_nic_group \<Rightarrow> (dynamic_nic_group \<times> peer list) option" where
  "dyn_start env moved initial bound now d =
     (if selected_peers d = [] then
        (case d_impl d of
           None \<Rightarrow> Some (d, [])
         | Some g \<Rightarrow> map_option (\<lambda>g. (d\<lparr>d_impl := Some g\<rparr>, [])) (group_start bound now g))
      else do {
        let old = (case d_impl d of Some g \<Rightarrow> g_retired (group_stop g) | None \<Rightarrow> []);
        let g = new_nic_group env (d_grp_opts d) (selected_peers d) initial;
        let d = d\<lparr>d_grp_opts := moved (d_grp_opts d), d_monitor_opts := map_option (\<lambda>_. []) (d_monitor_opts d),
                  d_server_opts := map_option (\<lambda>_. []) (d_server_opts d), d_observer_opts := map_option (\<lambda>_. []) (d_observer_opts d)\<rparr>;
        g \<leftarrow> group_start bound now g;
        Some (d\<lparr>d_impl := Some g\<rparr>, old)
      })"

definition dyn_stop :: "dynamic_nic_group \<Rightarrow> dynamic_nic_group" where
  "dyn_stop d = d\<lparr>d_impl := map_option group_stop (d_impl d)\<rparr>"

definition dyn_services :: "dynamic_nic_group \<Rightarrow> resolved_service list" where
  "dyn_services d =
     (case d_impl d of Some g \<Rightarrow> if provides_services g then group_services g else [] | None \<Rightarrow> [])"

definition dyn_watch :: "string \<Rightarrow> dynamic_nic_group \<Rightarrow> dynamic_nic_group" where
  "dyn_watch svc_type d =
     d\<lparr>d_impl := map_option (\<lambda>g. if provides_services g then group_watch svc_type g else g) (d_impl d)\<rparr>"

definition dyn_unwatch :: "string \<Rightarrow> dynamic_nic_group \<Rightarrow> dynamic_nic_group" where
  "dyn_unwatch svc_type d =
     d\<lparr>d_impl := map_option (\<lambda>g. if provides_services g then group_unwatch svc_type g else g) (d_impl d)\<rparr>"

section \<open>Events\<close>

datatype peer_event = Monitor_event monitor_event | Server_event server_event | Observer_event observer_event

fun peer_step :: "peer_event \<Rightarrow> int \<Rightarrow> peer \<Rightarrow> peer option" where
  "peer_step (Monitor_event e) now (Monitor_peer m) = map_option Monitor_peer (monitor_step e now m)"
| "peer_step (Server_event e) now (Server_peer s) = map_option Server_peer (server_step e now s)"
| "peer_step (Observer_event e) now (Observer_peer ob) = map_option Observer_peer (observer_step e now ob)"
| "peer_step _ now p = Some p"

text \<open>
  What happens to a peer without a call of its owner: tasks and timers run, datagrams arrive.
\<close>

fun monitor_own :: "monitor_event \<Rightarrow> bool" where
  "monitor_own Mev_posted = True" | "monitor_own Mev_scheduler = True" | "monitor_own Mev_tc_timer = True"
| "monitor_own Mev_silence = True" | "monitor_own (Mev_packet meta data) = True" | "monitor_own _ = False"

fun server_own :: "server_event \<Rightarrow> bool" where
  "server_own Ev_posted = True" | "server_own Ev_response_timer = True" | "server_own Ev_tc_timer = True"
| "server_own Ev_silence = True" | "server_own (Ev_packet meta data) = True" | "server_own _ = False"

fun observer_own :: "observer_event \<Rightarrow> bool" where
  "observer_own Oev_posted = True" | "observer_own Oev_silence = True" | "observer_own (Oev_packet meta data) = True"
| "observer_own _ = False"

fun peer_own :: "peer_event \<Rightarrow> bool" where
  "peer_own (Monitor_event e) = monitor_own e"
| "peer_own (Server_event e) = server_own e"
| "peer_own (Observer_event e) = observer_own e"

datatype group_event =
    Gev_start bool
  | Gev_stop
  | Gev_watch string
  | Gev_unwatch string
  | Gev_posted
  | Gev_poll "network_interface list option"
  | Gev_netlink bool "network_interface list option"
  | Gev_peer u32 nat nat peer_event
  | Gev_retired nat peer_event

text \<open>An event of the peer at a place; nothing happens where there is no peer.\<close>

definition step_at :: "('a \<Rightarrow> 'a option) \<Rightarrow> nat \<Rightarrow> 'a list \<Rightarrow> 'a list option" where
  "step_at f i xs = (if i < length xs then map_option (\<lambda>x. xs[i := x]) (f (xs ! i)) else Some xs)"

definition step_slot :: "nat \<Rightarrow> nat \<Rightarrow> peer_event \<Rightarrow> int \<Rightarrow> nic_slot \<Rightarrow> nic_slot option" where
  "step_slot i j e now slot =
     map_option (\<lambda>xs. slot\<lparr>slot_instances := xs\<rparr>) (step_at (step_at (peer_step e now) j) i (slot_instances slot))"

fun group_step :: "group_event \<Rightarrow> int \<Rightarrow> nic_group \<Rightarrow> nic_group option" where
  "group_step (Gev_start bound) now g = group_start bound now g"
| "group_step Gev_stop now g = Some (group_stop g)"
| "group_step (Gev_watch t) now g = Some (group_watch t g)"
| "group_step (Gev_unwatch t) now g = Some (group_unwatch t g)"
| "group_step Gev_posted now g =
     (case run_posted_nic (g_monitor g) of
        (nm, ch) \<Rightarrow>
          (let g = g\<lparr>g_monitor := nm\<rparr>
           in case ch of None \<Rightarrow> Some g | Some ch \<Rightarrow> on_nic_change ch now g))"
| "group_step (Gev_poll ifaces) now g = Some (g\<lparr>g_monitor := fire_poll ifaces now (g_monitor g)\<rparr>)"
| "group_step (Gev_netlink changed ifaces) now g = Some (g\<lparr>g_monitor := fire_netlink changed ifaces now (g_monitor g)\<rparr>)"
| "group_step (Gev_peer k i j e) now g =
     (case map_of (g_instances g) k of
        None \<Rightarrow> Some g
      | Some slot \<Rightarrow>
          map_option (\<lambda>slot. g\<lparr>g_instances := upd_entry k (\<lambda>_. slot) (g_instances g)\<rparr>) (step_slot i j e now slot))"
| "group_step (Gev_retired i e) now g =
     map_option (\<lambda>ps. g\<lparr>g_retired := ps\<rparr>) (step_at (peer_step e now) i (g_retired g))"

end
