(* ===== verification/Group_Interfaces.thy ===== *)
theory Group_Interfaces
  imports Nic_Group
begin

text \<open>
  The group of peers follows the interfaces: the invariant that ties the posted interface changes,
  the snapshot of the interface monitor and the slots of the group, and what goes wrong when the
  first enumeration fails.
\<close>

section \<open>Slots\<close>

definition slots :: "nic_group \<Rightarrow> u32 \<rightharpoonup> network_interface" where
  "slots g k = map_option slot_nic (map_of (g_instances g) k)"

lemma slots_simps [simp]:
  "slots (g\<lparr>g_monitor := a\<rparr>) = slots g" "slots (g\<lparr>g_made := b\<rparr>) = slots g" "slots (g\<lparr>g_retired := c\<rparr>) = slots g"
  "slots (g\<lparr>g_stopped := d\<rparr>) = slots g" "slots (g\<lparr>g_callbacks := e\<rparr>) = slots g" "slots (g\<lparr>g_alive := f\<rparr>) = slots g"
  "slots (g\<lparr>g_watch_set := h\<rparr>) = slots g" "slots (g\<lparr>g_instances := []\<rparr>) = Map.empty"
  by (simp_all add: slots_def fun_eq_iff)

text \<open>The part of the state that making and retiring peers leaves alone.\<close>

definition core :: "nic_group \<Rightarrow> nic_group" where
  "core g = g\<lparr>g_instances := [], g_made := 0, g_retired := []\<rparr>"

lemma core_simps [simp]:
  "core (g\<lparr>g_instances := a\<rparr>) = core g" "core (g\<lparr>g_made := n\<rparr>) = core g" "core (g\<lparr>g_retired := r\<rparr>) = core g"
  by (simp_all add: core_def)

lemma core_eqD:
  assumes "core g' = core g"
  shows "g_opts g' = g_opts g" "g_monitor g' = g_monitor g" "g_alive g' = g_alive g" "g_callbacks g' = g_callbacks g"
    "g_stopped g' = g_stopped g" "g_peer_opts g' = g_peer_opts g" "g_watch_set g' = g_watch_set g" "g_env g' = g_env g"
  using arg_cong [OF assms, of g_opts] arg_cong [OF assms, of g_monitor] arg_cong [OF assms, of g_alive]
    arg_cong [OF assms, of g_callbacks] arg_cong [OF assms, of g_stopped] arg_cong [OF assms, of g_peer_opts]
    arg_cong [OF assms, of g_watch_set] arg_cong [OF assms, of g_env]
  by (simp_all add: core_def)

lemma create_peers_made: "create_peers mk opts so now g = Some (insts, g') \<Longrightarrow> \<exists>n. g' = g\<lparr>g_made := n\<rparr>"
proof (induction opts arbitrary: g insts)
  case Nil
  then show ?case by (intro exI [of _ "g_made g"]) simp
qed (fastforce simp: bind_eq_Some_conv)

lemma create_peer_instances_made: "create_peer_instances po so now g = Some (insts, g') \<Longrightarrow> \<exists>n. g' = g\<lparr>g_made := n\<rparr>"
  by (cases po) (auto dest: create_peers_made)

lemma create_instances_made: "create_instances_for_nic pos so now g = Some (insts, g') \<Longrightarrow> \<exists>n. g' = g\<lparr>g_made := n\<rparr>"
proof (induction pos arbitrary: g insts)
  case Nil
  then show ?case by (intro exI [of _ "g_made g"]) simp
next
  case (Cons po pos)
  then show ?case by (fastforce simp: bind_eq_Some_conv dest: create_peer_instances_made)
qed

lemma on_nic_added_slots:
  assumes "on_nic_added nic now g = Some g'"
  shows "core g' = core g" "g_retired g' = g_retired g"
    "slots g' = apply_change (nic_accepts (g_opts g)) (Nic_added nic) (slots g)"
    "distinct (map fst (g_instances g)) \<Longrightarrow> distinct (map fst (g_instances g'))"
proof -
  let ?k = "ni_index nic"
  have "core g' = core g \<and> g_retired g' = g_retired g \<and> slots g' = apply_change (nic_accepts (g_opts g)) (Nic_added nic) (slots g) \<and>
      (distinct (map fst (g_instances g)) \<longrightarrow> distinct (map fst (g_instances g')))"
  proof (cases "map_of (g_instances g) ?k \<noteq> None \<or> \<not> nic_accepts (g_opts g) nic")
    case True
    then show ?thesis using assms by (auto simp: on_nic_added_def slots_def split: if_splits)
  next
    case False
    then obtain insts n where g': "g' = g\<lparr>g_made := n, g_instances := g_instances g @ [(?k, \<lparr>slot_nic = nic, slot_instances = insts\<rparr>)]\<rparr>"
      using assms by (fastforce simp: on_nic_added_def bind_eq_Some_conv dest: create_instances_made)
    have "slots g' = (slots g)(?k \<mapsto> nic)"
      using False by (auto simp: g' slots_def fun_eq_iff map_of_append map_add_def split: option.split)
    moreover have "?k \<notin> fst ` set (g_instances g)" using False by (simp add: map_of_eq_None_iff)
    ultimately show ?thesis using False by (simp add: g' slots_def)
  qed
  then show "core g' = core g" "g_retired g' = g_retired g" "slots g' = apply_change (nic_accepts (g_opts g)) (Nic_added nic) (slots g)"
    "distinct (map fst (g_instances g)) \<Longrightarrow> distinct (map fst (g_instances g'))" by simp_all
qed

lemma on_nic_removed_slots:
  "core (on_nic_removed nic g) = core g"
  "slots (on_nic_removed nic g) = apply_change a (Nic_removed nic) (slots g)"
  "distinct (map fst (g_instances g)) \<Longrightarrow> distinct (map fst (g_instances (on_nic_removed nic g)))"
  by (auto simp: on_nic_removed_def slots_def stop_instance_tuple_def map_of_drop_key fun_eq_iff distinct_drop_key
      split: option.split)

lemma seed_nics_slots:
  "seed_nics xs now g = Some g' \<Longrightarrow>
     core g' = core g \<and> slots g' = replay (nic_accepts (g_opts g)) (map Nic_added xs) (slots g) \<and>
     (distinct (map fst (g_instances g)) \<longrightarrow> distinct (map fst (g_instances g')))"
proof (induction xs arbitrary: g)
  case (Cons nic xs)
  then obtain h where h: "on_nic_added nic now g = Some h" "seed_nics xs now h = Some g'"
    by (auto simp: bind_eq_Some_conv)
  show ?case using Cons.IH [OF h(2)] on_nic_added_slots [OF h(1)] core_eqD(1) [of h g] by simp
qed simp

lemma replay_additions:
  "distinct (map ni_index xs) \<Longrightarrow>
   replay a (map Nic_added xs) m k = (if m k = None then wanted a xs k else m k)"
proof -
  assume "distinct (map ni_index xs)"
  then have "filter (\<lambda>c. change_index c = k) (map Nic_added xs) = (case find_by_index xs k of None \<Rightarrow> [] | Some j \<Rightarrow> [Nic_added j])"
    using filter_additions [of xs k "\<lambda>_. True"] by (cases "find_by_index xs k") simp_all
  then show ?thesis
    by (subst replay_local) (auto simp: wanted_def split: option.split dest: find_by_index_SomeD)
qed

section \<open>The invariant\<close>

definition tokens_ok :: "nic_monitor \<Rightarrow> bool" where
  "tokens_ok s \<longleftrightarrow> list_all (\<lambda>p. fst p \<le> nm_alive s) (nm_posted s) \<and>
     (nm_stopped s \<longrightarrow> t_handler (nm_timer s) = None \<and> t_handler (nm_nl_timer s) = None)"

definition settles :: "nic_group \<Rightarrow> bool" where
  "settles g \<longleftrightarrow>
     (\<forall>xs. nm_snapshot (g_monitor g) = Some xs \<longrightarrow>
       (\<forall>k. replay (nic_accepts (g_opts g)) (pending_changes (g_monitor g)) (slots g) k = wanted (nic_accepts (g_opts g)) xs k))"

definition following :: "(u32 \<Rightarrow> string \<times> bool) \<Rightarrow> nic_group \<Rightarrow> bool" where
  "following ident g \<longleftrightarrow>
     tokens_ok (g_monitor g) \<and> nm_stopped (g_monitor g) = g_stopped g \<and> distinct (map fst (g_instances g)) \<and>
     (\<exists>xs. nm_snapshot (g_monitor g) = Some xs \<and> enumeration_ok ident xs) \<and>
     (if g_stopped g then g_instances g = [] \<and> pending_changes (g_monitor g) = []
      else listening (g_monitor g) \<and> g_callbacks g = g_alive g \<and> settles g)"

text \<open>What enters the group from outside: enumerations that identify interfaces by their index.\<close>

fun group_event_ok :: "(u32 \<Rightarrow> string \<times> bool) \<Rightarrow> group_event \<Rightarrow> bool" where
  "group_event_ok ident (Gev_poll (Some xs)) = enumeration_ok ident xs"
| "group_event_ok ident (Gev_netlink _ (Some xs)) = enumeration_ok ident xs"
| "group_event_ok ident (Gev_peer _ _ _ e) = peer_own e"
| "group_event_ok ident (Gev_retired _ e) = peer_own e"
| "group_event_ok ident _ = True"

inductive group_reachable :: "(group_event \<Rightarrow> bool) \<Rightarrow> nic_group \<Rightarrow> nic_group \<Rightarrow> bool" for ok g0 where
  group_init: "group_reachable ok g0 g0"
| group_next: "group_reachable ok g0 g \<Longrightarrow> ok e \<Longrightarrow> group_step e now g = Some g' \<Longrightarrow> group_reachable ok g0 g'"

subsection \<open>The interface monitor\<close>

definition nic_core :: "nic_monitor \<Rightarrow> nic_monitor" where
  "nic_core s = s\<lparr>nm_timer := new_timer, nm_nl_timer := new_timer\<rparr>"

lemma nic_core_simps [simp]:
  "nic_core (s\<lparr>nm_timer := t\<rparr>) = nic_core s" "nic_core (s\<lparr>nm_nl_timer := t\<rparr>) = nic_core s"
  by (simp_all add: nic_core_def)

lemma nic_core_eqD:
  assumes "nic_core s' = nic_core s"
  shows "nm_alive s' = nm_alive s" "nm_stopped s' = nm_stopped s" "nm_snapshot s' = nm_snapshot s" "nm_posted s' = nm_posted s"
    "listening s' = listening s" "pending_changes s' = pending_changes s"
  using arg_cong [OF assms, of nm_alive] arg_cong [OF assms, of nm_stopped] arg_cong [OF assms, of nm_snapshot]
    arg_cong [OF assms, of nm_posted] arg_cong [OF assms, of nm_on_added] arg_cong [OF assms, of nm_on_removed]
  by (simp_all add: nic_core_def listening_def pending_changes_def)

lemma following_nic_core:
  assumes "following ident (g\<lparr>g_monitor := s\<rparr>)" and "nic_core s' = nic_core s" and "\<not> g_stopped g"
  shows "following ident (g\<lparr>g_monitor := s'\<rparr>)"
  using assms(1,3) nic_core_eqD [OF assms(2)] by (auto simp: following_def settles_def tokens_ok_def)

lemma pending_posting: "pending_changes (posting cs s) = pending_changes s @ cs"
  by (simp add: pending_changes_def posting_def filter_map o_def)

lemma tokens_ok_posting: "tokens_ok s \<Longrightarrow> tokens_ok (posting cs s)"
  by (auto simp: tokens_ok_def posting_def list_all_iff)

lemma following_diff:
  assumes "following ident g" and "\<not> g_stopped g" and "enumeration_ok ident xs"
  shows "following ident (g\<lparr>g_monitor := apply_diff xs (g_monitor g)\<rparr>)"
proof -
  obtain old where old: "nm_snapshot (g_monitor g) = Some old" "enumeration_ok ident old" and l: "listening (g_monitor g)"
    and r: "\<And>k. replay (nic_accepts (g_opts g)) (pending_changes (g_monitor g)) (slots g) k = wanted (nic_accepts (g_opts g)) old k"
    using assms(1,2) by (auto simp: following_def settles_def)
  let ?s = "(posting (diff old xs) (g_monitor g))\<lparr>nm_snapshot := Some xs\<rparr>"
  have p: "pending_changes ?s = pending_changes (g_monitor g) @ diff old xs"
    using pending_posting [of "diff old xs" "g_monitor g"] by (simp add: pending_changes_def)
  have t: "tokens_ok ?s" "nm_stopped ?s = nm_stopped (g_monitor g)" "listening ?s"
    using assms(1) tokens_ok_posting [of "g_monitor g" "diff old xs"] l
    by (simp_all add: following_def tokens_ok_def posting_def listening_def)
  have "replay (nic_accepts (g_opts g)) (pending_changes ?s) (slots g) k = wanted (nic_accepts (g_opts g)) xs k" for k
    using replay_diff [OF old(2) assms(3), where m = "replay (nic_accepts (g_opts g)) (pending_changes (g_monitor g)) (slots g)"] r
    by (simp add: p)
  then show ?thesis
    unfolding apply_diff_posting [OF l old(1)] using assms t by (auto simp: following_def settles_def)
qed

lemma following_enumeration:
  assumes "following ident g" and "\<not> g_stopped g" and "\<And>xs. ifaces = Some xs \<Longrightarrow> enumeration_ok ident xs"
  shows "following ident (g\<lparr>g_monitor := apply_enumeration ifaces (g_monitor g)\<rparr>)"
  using assms following_diff by (cases ifaces) (simp_all add: apply_enumeration_def)

text \<open>The two timers of the monitor: nothing fires while it is stopped.\<close>

lemma try_fire_idle: "t_handler t = None \<Longrightarrow> try_fire now t = (t, None)"
  by (simp add: try_fire_def)

lemma following_poll:
  assumes "following ident g" and "\<And>xs. ifaces = Some xs \<Longrightarrow> enumeration_ok ident xs"
  shows "following ident (g\<lparr>g_monitor := fire_poll ifaces now (g_monitor g)\<rparr>)"
proof (cases "g_stopped g")
  case True
  then have "t_handler (nm_timer (g_monitor g)) = None" using assms(1) by (simp add: following_def tokens_ok_def)
  then show ?thesis using assms(1) by (simp add: fire_poll_def try_fire_idle)
next
  case False
  obtain t fired where f: "try_fire now (nm_timer (g_monitor g)) = (t, fired)" by fastforce
  let ?s = "(g_monitor g)\<lparr>nm_timer := t\<rparr>"
  have s: "following ident (g\<lparr>g_monitor := ?s\<rparr>)"
    using following_nic_core [where s = "g_monitor g" and s' = ?s and g = g and ident = ident] assms(1) False by simp
  have "following ident (g\<lparr>g_monitor := apply_enumeration ifaces ?s\<rparr>)"
    using following_enumeration [OF s _ assms(2)] False by simp
  then have "following ident (g\<lparr>g_monitor := schedule_poll now (apply_enumeration ifaces ?s)\<rparr>)"
    by (rule following_nic_core) (simp_all add: schedule_poll_def False)
  then show ?thesis using s by (simp add: fire_poll_def f Let_def split: option.split)
qed

lemma following_netlink:
  assumes "following ident g" and "\<And>xs. ifaces = Some xs \<Longrightarrow> enumeration_ok ident xs"
  shows "following ident (g\<lparr>g_monitor := fire_netlink changed ifaces now (g_monitor g)\<rparr>)"
proof (cases "g_stopped g")
  case True
  then have "t_handler (nm_nl_timer (g_monitor g)) = None" using assms(1) by (simp add: following_def tokens_ok_def)
  then show ?thesis using assms(1) by (simp add: fire_netlink_def try_fire_idle)
next
  case False
  obtain t fired where f: "try_fire now (nm_nl_timer (g_monitor g)) = (t, fired)" by fastforce
  let ?s = "(g_monitor g)\<lparr>nm_nl_timer := t\<rparr>"
  let ?u = "if changed then apply_enumeration ifaces ?s else ?s"
  have s: "following ident (g\<lparr>g_monitor := ?s\<rparr>)"
    using following_nic_core [where s = "g_monitor g" and s' = ?s and g = g and ident = ident] assms(1) False by simp
  have "following ident (g\<lparr>g_monitor := ?u\<rparr>)"
    using following_enumeration [OF s _ assms(2)] s False by simp
  then have "following ident (g\<lparr>g_monitor := arm_netlink now ?u\<rparr>)"
    by (rule following_nic_core) (simp_all add: arm_netlink_def False)
  then show ?thesis using s by (cases changed) (simp_all add: fire_netlink_def f Let_def split: option.split)
qed

subsection \<open>Starting and stopping\<close>

lemma nic_start_unfold:
  "nic_start bound now s =
     (if bound then arm_netlink now (s\<lparr>nm_stopped := False, nm_nl_fd := True\<rparr>)
      else schedule_poll now (s\<lparr>nm_stopped := False, nm_nl_fd := False\<rparr>))"
  by (simp add: nic_start_def start_native_backend_def Let_def)

lemma nic_start_effect:
  assumes "nic_start bound now (nic_on_removed (nic_on_added s)) = s'"
  shows "pending_changes s' = pending_changes s" "nm_snapshot s' = nm_snapshot s" "listening s'" "\<not> nm_stopped s'"
    "tokens_ok s \<Longrightarrow> tokens_ok s'"
  unfolding assms [symmetric]
  by (simp_all add: nic_start_unfold nic_on_removed_def nic_on_added_def schedule_poll_def arm_netlink_def pending_changes_def
      listening_def tokens_ok_def)

lemma following_start:
  assumes "following ident g" and "group_start bound now g = Some g'"
  shows "following ident g'"
proof -
  let ?nm = "nic_start bound now (nic_on_removed (nic_on_added (g_monitor g)))"
  let ?a = "nic_accepts (g_opts g)"
  let ?h = "g\<lparr>g_stopped := False, g_callbacks := g_alive g, g_monitor := ?nm\<rparr>"
  obtain xs where xs: "nm_snapshot (g_monitor g) = Some xs" "enumeration_ok ident xs" using assms(1) by (auto simp: following_def)
  have nm: "pending_changes ?nm = pending_changes (g_monitor g)" "nm_snapshot ?nm = Some xs" "listening ?nm" "\<not> nm_stopped ?nm" "tokens_ok ?nm"
    using nic_start_effect [where bound = bound and now = now and s = "g_monitor g", OF refl] assms(1) xs by (simp_all add: following_def)
  have "seed_nics xs now ?h = Some g'" using assms(2) nm(2) by (simp add: group_start_def current_def)
  note seed = seed_nics_slots [OF this]
  have h: "g_opts g' = g_opts g" "g_monitor g' = ?nm" "g_callbacks g' = g_alive g'" "\<not> g_stopped g'"
    using core_eqD [of g' ?h] seed by simp_all
  have sl: "slots g' k = (if slots g k = None then wanted ?a xs k else slots g k)" for k
    using seed replay_additions [of xs ?a "slots g" k] xs(2) by (simp add: enumeration_ok_def)
  have "replay ?a (pending_changes (g_monitor g)) (slots g') k = wanted ?a xs k" for k
  proof (cases "g_stopped g")
    case True
    then show ?thesis using assms(1) sl [of k] by (simp add: following_def slots_def)
  next
    case False
    then have "replay ?a (pending_changes (g_monitor g)) (slots g) k = wanted ?a xs k"
      using assms(1) xs(1) by (simp add: following_def settles_def)
    then show ?thesis using replay_seeded [of "slots g'" k "slots g" ?a "pending_changes (g_monitor g)"] sl [of k] by simp
  qed
  then show ?thesis using assms(1) h nm xs seed by (auto simp: following_def settles_def)
qed

lemma stop_all_core: "core (stop_all_instances g) = core g" "g_instances (stop_all_instances g) = g_instances g"
proof -
  have "core (fold (\<lambda>(idx, slot). stop_instance_tuple slot) xs g) = core g \<and>
      g_instances (fold (\<lambda>(idx, slot). stop_instance_tuple slot) xs g) = g_instances g" for xs :: "(u32 \<times> nic_slot) list"
    by (induction xs arbitrary: g) (auto simp: stop_instance_tuple_def)
  then show "core (stop_all_instances g) = core g" "g_instances (stop_all_instances g) = g_instances g"
    by (simp_all add: stop_all_instances_def)
qed

lemma nic_stop_effect:
  assumes "tokens_ok s" and "\<not> nm_stopped s"
  shows "tokens_ok (nic_stop s)" "nm_stopped (nic_stop s)" "nm_snapshot (nic_stop s) = nm_snapshot s" "pending_changes (nic_stop s) = []"
  using assms by (auto simp: tokens_ok_def nic_stop_def stop_native_backend_def pending_changes_def list_all_iff cancel_def
      filter_empty_conv le_Suc_eq Let_def)

lemma following_stop: "following ident g \<Longrightarrow> following ident (group_stop g)"
proof (cases "g_stopped g")
  case False
  assume f: "following ident g"
  let ?h = "g\<lparr>g_stopped := True, g_monitor := nic_stop (g_monitor g)\<rparr>"
  have "\<not> nm_stopped (g_monitor g)" "tokens_ok (g_monitor g)" using f False by (simp_all add: following_def)
  note nic_stop_effect [OF this(2,1)]
  moreover have "g_monitor (stop_all_instances ?h) = nic_stop (g_monitor g)" "g_stopped (stop_all_instances ?h)"
    using core_eqD [OF stop_all_core(1) [of ?h]] by simp_all
  ultimately show ?thesis using f False by (auto simp: group_stop_def following_def Let_def)
qed (simp add: group_stop_def)

subsection \<open>Events\<close>

lemma following_change:
  assumes "following ident g" and "nm_posted (g_monitor g) = (token, ch) # rest"
    and "group_step Gev_posted now g = Some g'"
  shows "following ident g'"
proof -
  let ?nm = "(g_monitor g)\<lparr>nm_posted := rest\<rparr>"
  let ?h = "g\<lparr>g_monitor := ?nm\<rparr>"
  let ?a = "nic_accepts (g_opts g)"
  have pend: "pending_changes (g_monitor g) = (if token = nm_alive (g_monitor g) then [ch] else []) @ pending_changes ?nm"
    using assms(2) by (simp add: pending_changes_def)
  have t: "tokens_ok ?nm" "listening ?nm = listening (g_monitor g)" using assms by (simp_all add: following_def tokens_ok_def listening_def)
  show ?thesis
  proof (cases "token = nm_alive (g_monitor g)")
    case False
    then have "following ident ?h" using assms(1) t pend by (auto simp: following_def settles_def)
    then show ?thesis using assms(2,3) False by (simp add: run_posted_nic_def)
  next
    case True
    then have run: "\<not> g_stopped g" "g_callbacks g = g_alive g" using assms(1) pend by (auto simp: following_def split: if_splits)
    then have st: "on_nic_change ch now ?h = Some g'" using assms(2,3) True by (simp add: run_posted_nic_def)
    have "core g' = core ?h \<and> slots g' = apply_change ?a ch (slots g) \<and> distinct (map fst (g_instances g'))"
    proof (cases ch)
      case (Nic_removed nic)
      then show ?thesis using st run assms(1) on_nic_removed_slots(1,3) [where nic = nic and g = ?h] on_nic_removed_slots(2) [where nic = nic and g = ?h and a = ?a] by (auto simp: following_def)
    next
      case (Nic_added nic)
      then show ?thesis using st run assms(1) on_nic_added_slots [of nic now ?h g'] by (auto simp: following_def)
    qed
    then have g': "g_opts g' = g_opts g" "g_monitor g' = ?nm" "g_callbacks g' = g_alive g'" "\<not> g_stopped g'"
      "slots g' = apply_change ?a ch (slots g)" "distinct (map fst (g_instances g'))"
      using core_eqD [of g' ?h] run by simp_all
    then have "settles g'" using assms(1) run pend True by (auto simp: following_def settles_def)
    then show ?thesis using g' t assms(1) run by (simp add: following_def)
  qed
qed

lemma slots_peer_event:
  assumes "map_of (g_instances g) k = Some slot" and "step_slot i j e now slot = Some slot'"
  shows "slots (g\<lparr>g_instances := upd_entry k (\<lambda>_. slot') (g_instances g)\<rparr>) = slots g"
  using assms by (auto simp: slots_def map_of_upd_entry step_slot_def fun_eq_iff)

lemma slots_for_each [simp]:
  "slots (for_each_monitor_instance f g) = slots g" "map fst (g_instances (for_each_monitor_instance f g)) = map fst (g_instances g)"
  "core (for_each_monitor_instance f g) = core g"
proof -
  have "map_option slot_nic (map_of (map (\<lambda>(k, slot). (k, slot\<lparr>slot_instances := h slot\<rparr>)) m) j) = map_option slot_nic (map_of m j)"
    for h and m :: "(u32 \<times> nic_slot) list" and j
    by (induction m) auto
  then show "slots (for_each_monitor_instance f g) = slots g" by (simp add: for_each_monitor_instance_def slots_def fun_eq_iff split: option.split)
qed (auto simp: for_each_monitor_instance_def o_def split_def split: option.split)

lemma following_frame:
  assumes "following ident g" and "slots g' = slots g" and "map fst (g_instances g') = map fst (g_instances g)"
    and "g_opts g' = g_opts g" "g_monitor g' = g_monitor g" "g_alive g' = g_alive g" "g_callbacks g' = g_callbacks g"
      "g_stopped g' = g_stopped g"
  shows "following ident g'"
  using assms unfolding following_def settles_def by (auto simp flip: list.map_disc_iff [of fst])

lemma following_step:
  assumes "following ident g" and "group_event_ok ident e" and "group_step e now g = Some g'"
  shows "following ident g'"
proof (cases e)
  case (Gev_start bound)
  then show ?thesis using assms following_start by simp
next
  case Gev_stop
  then show ?thesis using assms following_stop by auto
next
  case (Gev_watch t)
  have "core (group_watch t g) = core (g\<lparr>g_watch_set := List.insert t (g_watch_set g)\<rparr>)" by (simp add: group_watch_def)
  from core_eqD [OF this] show ?thesis using assms(1,3) Gev_watch by (auto intro: following_frame simp: group_watch_def)
next
  case (Gev_unwatch t)
  have "core (group_unwatch t g) = core (g\<lparr>g_watch_set := removeAll t (g_watch_set g)\<rparr>)" by (simp add: group_unwatch_def)
  from core_eqD [OF this] show ?thesis using assms(1,3) Gev_unwatch by (auto intro: following_frame simp: group_unwatch_def)
next
  case Gev_posted
  show ?thesis
  proof (cases "nm_posted (g_monitor g)")
    case Nil
    then show ?thesis using assms Gev_posted by (simp add: run_posted_nic_def)
  next
    case (Cons p rest)
    then show ?thesis using following_change assms Gev_posted by (cases p) auto
  qed
next
  case (Gev_poll ifaces)
  then show ?thesis using assms following_poll [of ident g ifaces now] by (cases ifaces) auto
next
  case (Gev_netlink changed ifaces)
  then show ?thesis using assms following_netlink [of ident g ifaces changed now] by (cases ifaces) auto
next
  case (Gev_peer k i j pe)
  show ?thesis
  proof (cases "map_of (g_instances g) k")
    case None
    then show ?thesis using assms Gev_peer by simp
  next
    case (Some slot)
    then obtain slot' where s: "step_slot i j pe now slot = Some slot'" "g' = g\<lparr>g_instances := upd_entry k (\<lambda>_. slot') (g_instances g)\<rparr>"
      using assms(3) Gev_peer by auto
    then show ?thesis using following_frame [OF assms(1) slots_peer_event [OF Some s(1), folded s(2)]] by (simp add: upd_entry_def o_def split_def)
  qed
next
  case (Gev_retired i pe)
  then obtain ps where "g' = g\<lparr>g_retired := ps\<rparr>" using assms(3) by auto
  then show ?thesis by (auto intro!: following_frame [OF assms(1)])
qed

lemma following_init: "enumeration_ok ident xs \<Longrightarrow> following ident (new_nic_group env opts pos (Some xs))"
  by (simp add: following_def new_nic_group_def new_nic_monitor_def tokens_ok_def pending_changes_def new_timer_def)

lemma reachable_following:
  "group_reachable (group_event_ok ident) g0 g \<Longrightarrow> following ident g0 \<Longrightarrow> following ident g"
  by (induction rule: group_reachable.induct) (auto intro: following_step)

section \<open>The options stay\<close>

lemma core_config:
  assumes "group_step e now g = Some g'"
  shows "g_opts g' = g_opts g" "g_peer_opts g' = g_peer_opts g" "g_env g' = g_env g"
proof -
  have n: "core g' = core g" if "on_nic_change ch t g = Some g'" for ch t g g'
    using that on_nic_added_slots(1) on_nic_removed_slots(1) by (cases ch) (auto split: if_splits)
  have "g_opts g' = g_opts g \<and> g_peer_opts g' = g_peer_opts g \<and> g_env g' = g_env g"
  proof (cases e)
    case (Gev_start bound)
    let ?h = "g\<lparr>g_stopped := False, g_callbacks := g_alive g, g_monitor := nic_start bound now (nic_on_removed (nic_on_added (g_monitor g)))\<rparr>"
    have "seed_nics (current (g_monitor ?h)) now ?h = Some g'" using assms Gev_start by (simp add: group_start_def Let_def)
    then show ?thesis using core_eqD [of g' ?h] seed_nics_slots by auto
  next
    case Gev_stop
    then show ?thesis using assms core_eqD [OF stop_all_core(1)] by (auto simp: group_stop_def Let_def)
  next
    case Gev_posted
    obtain nm ch where r: "run_posted_nic (g_monitor g) = (nm, ch)" by fastforce
    show ?thesis using assms Gev_posted r core_eqD [OF n, of _ _ "g\<lparr>g_monitor := nm\<rparr>" g'] by (cases ch) (auto simp: Let_def)
  next
    case (Gev_watch t)
    then show ?thesis using assms core_eqD [OF slots_for_each(3)] by (auto simp: group_watch_def)
  next
    case (Gev_unwatch t)
    then show ?thesis using assms core_eqD [OF slots_for_each(3)] by (auto simp: group_unwatch_def)
  qed (use assms in \<open>auto split: option.splits\<close>)
  then show "g_opts g' = g_opts g" "g_peer_opts g' = g_peer_opts g" "g_env g' = g_env g" by simp_all
qed

lemma reachable_config:
  "group_reachable ok g0 g \<Longrightarrow> g_opts g = g_opts g0 \<and> g_peer_opts g = g_peer_opts g0 \<and> g_env g = g_env g0"
  by (induction rule: group_reachable.induct) (auto simp: core_config)

section \<open>The group follows the interfaces\<close>

text \<open>
  C7: the group follows the interfaces. Let every enumeration list an index once and let an index
  keep its name and kind. Then in every state that a group reaches, a stopped group has no
  slots, and in a running one the posted interface changes lead from the present slots exactly to the
  interfaces of the current snapshot that the filter accepts, each with its current addresses
  and state; so once no change is pending, there is one slot for each such interface and no other.
\<close>

theorem group_follows_interfaces:
  assumes "group_reachable (group_event_ok ident) (new_nic_group env opts pos (Some xs)) g" and "enumeration_ok ident xs"
  shows "if g_stopped g then g_instances g = []
    else (\<forall>k. replay (nic_accepts opts) (pending_changes (g_monitor g)) (slots g) k = wanted (nic_accepts opts) (current (g_monitor g)) k) \<and>
      (pending_changes (g_monitor g) = [] \<longrightarrow> slots g = wanted (nic_accepts opts) (current (g_monitor g)))"
proof -
  have f: "following ident g" using reachable_following [OF assms(1)] following_init [OF assms(2)] by blast
  moreover have "g_opts g = opts" using reachable_config [OF assms(1)] by (simp add: new_nic_group_def)
  ultimately show ?thesis by (auto simp: following_def settles_def current_def fun_eq_iff)
qed

text \<open>An example: a host with a loopback and a wired interface, to which a wireless one is added.\<close>

definition nic_lo :: network_interface where
  "nic_lo = \<lparr>ni_name = ''lo'', ni_ipv4_address = ''127.0.0.1'', ni_ipv6_address = [], ni_index = 1, ni_is_loopback = True, ni_is_up = True\<rparr>"

definition nic_eth :: network_interface where
  "nic_eth = \<lparr>ni_name = ''eth0'', ni_ipv4_address = ''10.0.0.1'', ni_ipv6_address = [], ni_index = 2, ni_is_loopback = False, ni_is_up = True\<rparr>"

definition nic_wlan :: network_interface where
  "nic_wlan = \<lparr>ni_name = ''wlan0'', ni_ipv4_address = ''10.0.1.1'', ni_ipv6_address = ''fe80::1'', ni_index = 3, ni_is_loopback = False, ni_is_up = True\<rparr>"

definition nic_ident :: "u32 \<Rightarrow> string \<times> bool" where
  "nic_ident k = (if k = 1 then (''lo'', True) else if k = 2 then (''eth0'', False) else (''wlan0'', False))"

definition example_group_options :: nic_group_options where
  "example_group_options =
     \<lparr>go_dedup = Dedup_merged, go_interface_filter = Some (\<lambda>nic. ni_is_up nic \<and> \<not> ni_is_loopback nic), go_socket_options_factory = None,
      go_mdns_opts = default_mdns_options, go_poll_interval = 5000\<rparr>"

definition example_group_env :: group_env where
  "example_group_env = \<lparr>ge_server = \<lparr>sys_inet_pton6 = (\<lambda>_. None), sys_send = (\<lambda>_ _. None)\<rparr>, 
      ge_opens = (\<lambda>_ _. True), ge_rng = (\<lambda>_ _. 0), ge_jitter = (\<lambda>_ _. 0), ge_hint = (\<lambda>_ _. 0)\<rparr>"

definition example_group :: nic_group where
  "example_group = new_nic_group example_group_env example_group_options [Observer_options [None]] (Some [nic_lo, nic_eth])"

fun group_run :: "(group_event \<times> int) list \<Rightarrow> nic_group \<Rightarrow> nic_group option" where
  "group_run [] g = Some g"
| "group_run ((e, now) # es) g = do { g \<leftarrow> group_step e now g; group_run es g }"

lemma group_run_reachable:
  "group_run es g = Some g' \<Longrightarrow> list_all (\<lambda>(e, _). ok e) es \<Longrightarrow> group_reachable ok g0 g \<Longrightarrow> group_reachable ok g0 g'"
proof (induction es arbitrary: g)
  case (Cons p es)
  then show ?case by (cases p) (auto simp: bind_eq_Some_conv dest: group_next)
qed simp

definition example_run :: "(group_event \<times> int) list" where
  "example_run = [(Gev_start True, 0), (Gev_netlink True (Some [nic_lo, nic_eth\<lparr>ni_ipv4_address := ''10.0.0.2''\<rparr>, nic_wlan]), 100000000),
     (Gev_posted, 100000000), (Gev_posted, 100000000), (Gev_posted, 100000000)]"

lemmas start_eval =
  group_start_def Let_def new_nic_group_def new_nic_monitor_def nic_on_added_def nic_on_removed_def nic_start_unfold arm_netlink_def
  schedule_poll_def current_def new_timer_def arm_def async_wait_def expires_after_def on_nic_added_def nic_accepts_def make_observer_def opened_def example_group_env_def
  new_observer_def async_observe_def do_observe_def

lemmas diff_eval =
  fire_netlink_def fire_poll_def try_fire_def apply_enumeration_def apply_diff_def diff_old_def diff_new_def post_removed_def post_added_def
  nic_changed_def

lemmas change_eval = run_posted_nic_def on_nic_removed_def stop_instance_tuple_def drop_key_def

lemmas example_eval = example_group_def example_group_options_def nic_lo_def nic_eth_def nic_wlan_def

lemma example_run_ok:
  "\<exists>g. group_run example_run example_group = Some g \<and> pending_changes (g_monitor g) = [] \<and> \<not> g_stopped g \<and>
    map fst (g_instances g) = [2, 3] \<and> length (g_retired g) = 1"
  by (simp add: example_run_def example_eval start_eval diff_eval change_eval pending_changes_def)

lemma example_run_reachable: "group_run example_run example_group = Some g \<Longrightarrow> group_reachable (group_event_ok nic_ident) example_group g"
proof -
  have "list_all (\<lambda>(e, _). group_event_ok nic_ident e) example_run"
    by (simp add: example_run_def example_eval enumeration_ok_def nic_ident_def)
  then show "group_run example_run example_group = Some g \<Longrightarrow> group_reachable (group_event_ok nic_ident) example_group g"
    using group_run_reachable group_init by blast
qed

theorem group_follows_interfaces_witness:
  "\<exists>g. group_run example_run example_group = Some g \<and> slots g = wanted (nic_accepts example_group_options) (current (g_monitor g)) \<and>
    slots g 3 = Some nic_wlan \<and> slots g 1 = None"
proof -
  obtain g where g: "group_run example_run example_group = Some g" "pending_changes (g_monitor g) = []" "\<not> g_stopped g"
    using example_run_ok by blast
  have "enumeration_ok nic_ident [nic_lo, nic_eth]" by (simp add: example_eval enumeration_ok_def nic_ident_def)
  then have "slots g = wanted (nic_accepts example_group_options) (current (g_monitor g))"
    using group_follows_interfaces [OF example_run_reachable [OF g(1), unfolded example_group_def]] g by simp
  moreover have "current (g_monitor g) = [nic_lo, nic_eth\<lparr>ni_ipv4_address := ''10.0.0.2''\<rparr>, nic_wlan]"
    using g(1) by (auto simp: example_run_def example_eval start_eval diff_eval change_eval)
  ultimately show ?thesis using g(1) by (auto simp: wanted_def nic_accepts_def example_group_options_def nic_lo_def nic_eth_def nic_wlan_def)
qed

section \<open>A first enumeration that fails\<close>

lemma diff_same: "distinct (map ni_index xs) \<Longrightarrow> diff xs xs = []"
  by (auto simp: diff_def old_changes_def nic_changed_def find_by_index_mem filter_empty_conv)

text \<open>What happens on a host whose interfaces stay the same.\<close>

definition quiet_event :: "network_interface list \<Rightarrow> group_event \<Rightarrow> bool" where
  "quiet_event xs e \<longleftrightarrow> e = Gev_posted \<or> (\<exists>r. r \<in> {None, Some xs} \<and> (e = Gev_poll r \<or> (\<exists>c. e = Gev_netlink c r)))"

definition unaware :: "network_interface list \<Rightarrow> nic_group \<Rightarrow> bool" where
  "unaware xs g \<longleftrightarrow> g_instances g = [] \<and> nm_posted (g_monitor g) = [] \<and> listening (g_monitor g) \<and>
     (nm_snapshot (g_monitor g) = None \<or> nm_snapshot (g_monitor g) = Some xs)"

lemma unaware_enumeration:
  assumes "distinct (map ni_index xs)" and "r \<in> {None, Some xs}" and "listening s" and "nm_posted s = []"
    and "nm_snapshot s = None \<or> nm_snapshot s = Some xs" and "apply_enumeration r s = s'"
  shows "listening s' \<and> nm_posted s' = [] \<and> (nm_snapshot s' = None \<or> nm_snapshot s' = Some xs)"
proof (cases "r = None")
  case False
  then have s': "s' = apply_diff xs s" using assms(2,6) by (auto simp: apply_enumeration_def)
  show ?thesis
  proof (cases "nm_snapshot s")
    case None
    then show ?thesis using assms(3,4) by (simp add: s' apply_diff_def listening_def)
  next
    case (Some old)
    then have "nm_snapshot s = Some xs" using assms(5) by simp
    from apply_diff_posting [OF assms(3) this] show ?thesis
      using assms(3,4) by (simp add: s' diff_same [OF assms(1)] listening_def)
  qed
qed (use assms in \<open>simp add: apply_enumeration_def\<close>)

lemma unaware_step:
  assumes "distinct (map ni_index xs)" and "unaware xs g" and "quiet_event xs e" and "group_step e now g = Some g'"
  shows "unaware xs g'"
proof -
  let ?P = "\<lambda>s. listening s \<and> nm_posted s = [] \<and> (nm_snapshot s = None \<or> nm_snapshot s = Some xs)"
  have P: "?P (g_monitor g)" using assms(2) by (simp add: unaware_def)
  have fp: "?P (fire_poll r now (g_monitor g))" if "r \<in> {None, Some xs}" for r
  proof -
    obtain t f where t: "try_fire now (nm_timer (g_monitor g)) = (t, f)" by fastforce
    have "?P ((g_monitor g)\<lparr>nm_timer := t\<rparr>)" using P by (simp add: listening_def)
    moreover from this have "?P (schedule_poll now (apply_enumeration r ((g_monitor g)\<lparr>nm_timer := t\<rparr>)))"
      using unaware_enumeration [OF assms(1) that, of "(g_monitor g)\<lparr>nm_timer := t\<rparr>"] by (simp add: schedule_poll_def listening_def)
    ultimately show ?thesis by (simp add: fire_poll_def t Let_def split: option.split)
  qed
  have fn: "?P (fire_netlink c r now (g_monitor g))" if "r \<in> {None, Some xs}" for r c
  proof -
    obtain t f where t: "try_fire now (nm_nl_timer (g_monitor g)) = (t, f)" by fastforce
    let ?s = "(g_monitor g)\<lparr>nm_nl_timer := t\<rparr>"
    have s: "?P ?s" using P by (simp add: listening_def)
    then have "?P (if c then apply_enumeration r ?s else ?s)"
      using unaware_enumeration [OF assms(1) that, of ?s] by simp
    then have "?P (arm_netlink now (if c then apply_enumeration r ?s else ?s))" by (simp add: arm_netlink_def listening_def)
    then show ?thesis using s by (cases c) (simp_all add: fire_netlink_def t Let_def split: option.split)
  qed
  consider "e = Gev_posted" | r where "e = Gev_poll r" "r \<in> {None, Some xs}" | c r where "e = Gev_netlink c r" "r \<in> {None, Some xs}"
    using assms(3) by (auto simp: quiet_event_def)
  then show ?thesis
  proof cases
    case 1
    then show ?thesis using assms(2,4) by (auto simp: unaware_def run_posted_nic_def)
  next
    case 2
    then show ?thesis using assms(2,4) fp [OF 2(2)] by (auto simp: unaware_def)
  next
    case (3 c r)
    then show ?thesis using assms(2,4) fn [OF 3(2), of c] by (auto simp: unaware_def)
  qed
qed

text \<open>
  a failed first enumeration. If the enumeration of the interfaces fails when a group is constructed,
  then the group runs no peer on any interface, however often the host's interfaces are
  enumerated successfully after that, until one of them changes: the first successful comparison has no
  snapshot to compare with and reports nothing as added.
\<close>

lemma failed_enumeration_hides_interfaces:
  assumes "group_start bound now (new_nic_group env opts pos None) = Some g" and "distinct (map ni_index xs)"
    and "list_all (\<lambda>(e, t). quiet_event xs e) es" and "group_run es g = Some g'"
  shows "g_instances g' = [] \<and> (nm_snapshot (g_monitor g') = None \<or> current (g_monitor g') = xs)"
proof -
  have "unaware xs g"
  proof -
    let ?nm = "nic_start bound now (nic_on_removed (nic_on_added (new_nic_monitor None (go_poll_interval opts))))"
    have "nm_snapshot ?nm = None" "listening ?nm" using nic_start_effect [OF refl, where bound = bound and now = now
        and s = "new_nic_monitor None (go_poll_interval opts)"] by (simp_all add: new_nic_monitor_def)
    moreover have "nm_posted ?nm = []"
      by (simp add: nic_start_unfold arm_netlink_def schedule_poll_def nic_on_removed_def nic_on_added_def new_nic_monitor_def)
    ultimately show ?thesis using assms(1) by (auto simp: group_start_def new_nic_group_def unaware_def current_def Let_def)
  qed
  moreover have "unaware xs h' " if "unaware xs h" "list_all (\<lambda>(e, t). quiet_event xs e) es" "group_run es h = Some h'" for h h'
    using that
  proof (induction es arbitrary: h)
    case (Cons p es)
    then obtain e t where "p = (e, t)" by fastforce
    with Cons show ?case using unaware_step [OF assms(2)] by (fastforce simp: bind_eq_Some_conv)
  qed simp
  ultimately have "unaware xs g'" using assms(3,4) by blast
  then show ?thesis by (auto simp: unaware_def current_def)
qed

lemma failed_enumeration_hides_interfaces_example:
  "\<exists>g g'. group_start True 0 (new_nic_group example_group_env example_group_options [Observer_options [None]] None) = Some g \<and>
    group_run [(Gev_netlink True (Some [nic_lo, nic_eth]), 100000000), (Gev_netlink True (Some [nic_lo, nic_eth]), 200000000)] g = Some g' \<and>
    current (g_monitor g') = [nic_lo, nic_eth] \<and> g_instances g' = []"
proof -
  let ?es = "[(Gev_netlink True (Some [nic_lo, nic_eth]), 100000000), (Gev_netlink True (Some [nic_lo, nic_eth]), 200000000)]"
  obtain g g' where g: "group_start True 0 (new_nic_group example_group_env example_group_options [Observer_options [None]] None) = Some g"
    "group_run ?es g = Some g'" "current (g_monitor g') = [nic_lo, nic_eth]"
    by (simp add: example_eval start_eval diff_eval)
  moreover have "distinct (map ni_index [nic_lo, nic_eth])" by (simp add: example_eval)
  moreover have "list_all (\<lambda>(e, t). quiet_event [nic_lo, nic_eth] e) ?es" by (auto simp: quiet_event_def)
  ultimately show ?thesis
    using failed_enumeration_hides_interfaces [OF g(1) _ _ g(2), of "[nic_lo, nic_eth]"] by blast
qed

end
