(* ===== verification/Group_Peers.thy ===== *)
theory Group_Peers
  imports Group_Interfaces
begin

text \<open>
  What the group may rely on of its peers, stated once and shown for the three kinds of peers: a peer keeps
  the settings it was made with, and a retired one is dead and does nothing more.
\<close>

section \<open>The contract of a managed peer\<close>

text \<open>
  \<open>step\<close> are the events of the peer and \<open>own\<close> those that happen without a call of its owner; \<open>discard\<close>
  stops and destroys it.
\<close>

locale managed_peer =
  fixes step :: "'e \<Rightarrow> int \<Rightarrow> 's \<Rightarrow> 's option" and own :: "'e \<Rightarrow> bool" and discard :: "'s \<Rightarrow> 's"
    and setting :: "'s \<Rightarrow> 'c" and effects :: "'s \<Rightarrow> 'o list" and dead :: "'s \<Rightarrow> bool"
  assumes own_keeps: "own e \<Longrightarrow> step e now s = Some s' \<Longrightarrow> setting s' = setting s"
    and discard_dead: "dead (discard s)"
    and dead_quiet: "own e \<Longrightarrow> dead s \<Longrightarrow> step e now s = Some s' \<Longrightarrow> dead s' \<and> effects s' = effects s"
begin

fun own_run :: "('e \<times> int) list \<Rightarrow> 's \<Rightarrow> 's option" where
  "own_run [] s = Some s"
| "own_run ((e, now) # es) s = do { s \<leftarrow> step e now s; own_run es s }"

lemma run_keeps: "list_all (\<lambda>(e, _). own e) es \<Longrightarrow> own_run es s = Some s' \<Longrightarrow> setting s' = setting s"
proof (induction es arbitrary: s)
  case (Cons p es)
  then show ?case by (cases p) (auto simp: bind_eq_Some_conv dest: own_keeps)
qed simp

lemma discarded_run_quiet:
  "list_all (\<lambda>(e, _). own e) es \<Longrightarrow> own_run es (discard s) = Some s' \<Longrightarrow> dead s' \<and> effects s' = effects (discard s)"
proof -
  have "list_all (\<lambda>(e, _). own e) es \<Longrightarrow> dead t \<Longrightarrow> own_run es t = Some s' \<Longrightarrow> dead s' \<and> effects s' = effects t" for t
  proof (induction es arbitrary: t)
    case (Cons p es)
    then show ?case by (cases p) (auto simp: bind_eq_Some_conv dest!: dead_quiet)
  qed simp
  then show "list_all (\<lambda>(e, _). own e) es \<Longrightarrow> own_run es (discard s) = Some s' \<Longrightarrow> dead s' \<and> effects s' = effects (discard s)"
    using discard_dead by blast
qed

end

section \<open>Dead receive loops\<close>

definition loop_dead :: "recv_loop option \<Rightarrow> bool" where
  "loop_dead l \<longleftrightarrow> (case l of None \<Rightarrow> True | Some l \<Rightarrow> loop_stopped l)"

lemma loop_dead_stop [simp]: "loop_dead (map_option stop_loop l)"
  by (simp add: loop_dead_def split: option.split)

text \<open>A dead loop only forgets that a receive was armed or that its timer ran.\<close>

lemma receive_dead:
  assumes "receive get put handler meta data now s = Some s'" and "loop_stopped (get s)" and "\<And>l t. get (put l t) = l"
    and "P s" and "\<And>l. loop_stopped l \<Longrightarrow> P (put l s)"
  shows "P s'"
  using assms(1-4) assms(5) [of "(get s)\<lparr>receive_armed := False\<rparr>"] by (auto simp: receive_def Let_def split: if_splits)

lemma silence_dead:
  assumes "loop_stopped (get s)" and "\<And>l t. get (put l t) = l" and "\<And>l. loop_stopped l \<Longrightarrow> P (put l s)"
  shows "P (silence get put h now s)"
  using assms by (auto simp: silence_def Let_def split: prod.split option.split)

section \<open>Service monitors\<close>

fun task_watch :: "monitor_task \<Rightarrow> dns_name set \<Rightarrow> dns_name set" where
  "task_watch (Task_watch t) w = insert (dns_name t) w"
| "task_watch (Task_unwatch t) w = w - {dns_name t}"
| "task_watch _ w = w"

text \<open>The types that a monitor watches once its posted tasks have run.\<close>

definition watch_view :: "monitor \<Rightarrow> dns_name set" where
  "watch_view s = fold task_watch (mon_posted s) (keys (mon_watches s))"

definition mon_setting :: "monitor \<Rightarrow> monitor_options \<times> mdns_options \<times> endpoint \<times> dns_name set option" where
  "mon_setting s = (mon_opts s, mon_mdns_opts s, mon_multicast_ep s, if mon_alive s then Some (watch_view s) else None)"

lemma mon_setting_eqI:
  "mon_opts s' = mon_opts s \<Longrightarrow> mon_mdns_opts s' = mon_mdns_opts s \<Longrightarrow> mon_multicast_ep s' = mon_multicast_ep s \<Longrightarrow>
   mon_alive s' = mon_alive s \<Longrightarrow> (mon_alive s \<Longrightarrow> watch_view s' = watch_view s) \<Longrightarrow> mon_setting s' = mon_setting s"
  by (simp add: mon_setting_def)

lemma setting_config: "mon_config s' = mon_config s \<Longrightarrow> mon_setting s' = mon_setting s"
  using config_sels [of s' s] by (simp add: mon_setting_def watch_view_def)

lemma setting_sends: "only_sends s s' \<Longrightarrow> mon_setting s' = mon_setting s"
proof -
  assume "only_sends s s'"
  then have t: "tracking s' = tracking s" and w: "map fst (mon_watches s') = map fst (mon_watches s)" by (auto simp: only_sends_def)
  from w have "keys (mon_watches s') = keys (mon_watches s)" unfolding keys_def by (metis list.set_map)
  then show ?thesis using tracking_sels [OF t] by (simp add: mon_setting_def watch_view_def)
qed

lemma setting_update [simp]:
  "mon_setting (s\<lparr>mon_scheduler := a\<rparr>) = mon_setting s" "mon_setting (s\<lparr>mon_tc_timer := b\<rparr>) = mon_setting s"
  "mon_setting (mon_put_loop l s) = mon_setting s" "mon_setting (mon_teardown s) = mon_setting s"
  by (simp_all add: mon_setting_def watch_view_def mon_put_loop_def mon_teardown_def mon_emit_def Let_def)

interpretation monitor_setting: loop_evolution mon_get_loop mon_put_loop handle_packet "\<lambda>s s'. mon_setting s' = mon_setting s"
proof
  show "mon_setting s' = mon_setting s" if "handle_packet meta data now s = Some (s', rel)" for meta data now s s' rel
  proof (rule setting_config)
    have "s' = s \<or> (\<exists>recs. fold (handle_record (rm_sender meta) now) recs (s, False) = (s', rel))"
      using that by (auto simp: handle_packet_def bind_eq_Some_conv split: if_splits)
    then show "mon_config s' = mon_config s" using config_handle_records [of "rm_sender meta" now _ s False] by (metis fst_conv)
  qed
qed simp_all

lemma do_unwatch_setting:
  "mon_setting (do_unwatch t now s) = mon_setting (s\<lparr>mon_posted := Task_unwatch t # mon_posted s\<rparr>)"
proof (cases "map_of (mon_watches s) (dns_name t) = None")
  case True
  then have "keys (mon_watches s) - {dns_name t} = keys (mon_watches s)" by (simp add: map_of_keys)
  then show ?thesis using True by (simp add: do_unwatch_def mon_setting_def watch_view_def)
next
  case False
  let ?u = "fold lose_unwatched (unwatched_names (dns_name t) s) s"
  have "mon_config (lose_unwatched n s) = mon_config s" for n s by (simp add: lose_unwatched_def Let_def split: option.split)
  then have u: "mon_config ?u = mon_config s" by (rule config_fold)
  have "mon_setting (do_unwatch t now s) = mon_setting (?u\<lparr>mon_watches := drop_key (dns_name t) (mon_watches s)\<rparr>)"
    using not_None_eq [THEN iffD1, OF False] by (auto simp: do_unwatch_cases Let_def mon_setting_def watch_view_def update_snapshot_def)
  also have "\<dots> = mon_setting (s\<lparr>mon_posted := Task_unwatch t # mon_posted s\<rparr>)"
    using config_sels [OF u] by (simp add: mon_setting_def watch_view_def keys_drop_key)
  finally show ?thesis .
qed

lemma run_task_setting:
  assumes "run_task task now s = Some s'"
  shows "mon_setting s' = mon_setting (s\<lparr>mon_posted := task # mon_posted s\<rparr>)"
proof (cases task)
  case Task_teardown
  then have "mon_setting s' = mon_setting s" using assms by auto
  then show ?thesis using Task_teardown by (simp add: mon_setting_def watch_view_def)
next
  case (Task_watch t)
  let ?s = "s\<lparr>mon_watches := emplace (dns_name t) new_backoff (mon_watches s)\<rparr>"
  have "mon_setting s' = mon_setting ?s"
    using assms Task_watch by (auto simp: do_watch_def Let_def split: if_splits dest!: arm_scheduler_sends setting_sends)
  then show ?thesis using Task_watch by (simp add: mon_setting_def watch_view_def keys_emplace)
next
  case (Task_unwatch t)
  then show ?thesis using assms do_unwatch_setting by auto
next
  case (Task_query_type t)
  then have "mon_setting s' = mon_setting s" using assms by (auto dest!: send_ptr_query_sends setting_sends)
  then show ?thesis using Task_query_type by (simp add: mon_setting_def watch_view_def)
next
  case (Task_query_instance t)
  then have "mon_setting s' = mon_setting s" using assms setting_sends [OF send_instance_queries_sends] by auto
  then show ?thesis using Task_query_instance by (simp add: mon_setting_def watch_view_def)
qed

lemma monitor_own_keeps:
  assumes "monitor_own e" and "monitor_step e now s = Some s'"
  shows "mon_setting s' = mon_setting s"
proof (cases e)
  case Mev_posted
  show ?thesis
  proof (cases "mon_posted s")
    case (Cons task ts)
    show ?thesis
    proof (cases "mon_alive s")
      case True
      then show ?thesis using assms(2) Mev_posted Cons run_task_setting [of task now "s\<lparr>mon_posted := ts\<rparr>" s']
        by (simp add: run_posted_monitor_def mon_setting_def watch_view_def)
    qed (use assms Mev_posted Cons in \<open>auto simp: run_posted_monitor_def mon_setting_def\<close>)
  qed (use assms Mev_posted in \<open>simp add: run_posted_monitor_def\<close>)
next
  case Mev_scheduler
  have "mon_setting t' = mon_setting t" if "on_scheduler_tick now t = Some t'" for t t'
    using on_scheduler_tick_sends [OF that] setting_sends setting_config [OF config_expire] by fastforce
  from this [of "s\<lparr>mon_scheduler := fst (try_fire now (mon_scheduler s))\<rparr>" s'] show ?thesis
    using assms Mev_scheduler by (auto simp: fire_scheduler_def Let_def split: prod.splits if_splits)
next
  case Mev_tc_timer
  then show ?thesis using assms setting_sends [OF send_tc_packets_sends]
    by (auto simp: fire_tc_send_timer_def Let_def split: prod.splits option.splits if_splits)
next
  case Mev_silence
  then show ?thesis using assms monitor_setting.silence_evolves [where on_silence = "\<lambda>s. s" and s = s and now = now] by (auto split: if_splits)
next
  case (Mev_packet meta data)
  then show ?thesis using assms monitor_setting.receive_evolves [where meta = meta and data = data and now = now and s = s and s' = s'] by (auto split: if_splits)
qed (use assms in auto)

definition monitor_dead :: "monitor \<Rightarrow> bool" where
  "monitor_dead s \<longleftrightarrow> mon_stopped s \<and> \<not> mon_alive s \<and> t_handler (mon_scheduler s) = None \<and> t_handler (mon_tc_timer s) = None \<and>
     loop_dead (mon_loop s)"

lemma monitor_dead_quiet:
  assumes "monitor_own e" and "monitor_dead s" and "monitor_step e now s = Some s'"
  shows "monitor_dead s' \<and> mon_out s' = mon_out s"
proof -
  have l: "mon_get_loop (mon_put_loop l t) = l" for l t by (simp add: mon_get_loop_def mon_put_loop_def)
  have st: "loop_stopped (mon_get_loop s)" if "mon_loop s \<noteq> None"
    using that assms(2) by (auto simp: monitor_dead_def loop_dead_def mon_get_loop_def)
  have put: "monitor_dead (mon_put_loop x s) \<and> mon_out (mon_put_loop x s) = mon_out s" if "loop_stopped x" for x
    using that assms(2) by (simp add: monitor_dead_def loop_dead_def mon_put_loop_def)
  show ?thesis
  proof (cases e)
    case Mev_silence
    then show ?thesis using assms st put
        silence_dead [of mon_get_loop s mon_put_loop "\<lambda>s'. monitor_dead s' \<and> mon_out s' = mon_out s", OF _ l] by (auto split: if_splits)
  next
    case (Mev_packet meta data)
    then show ?thesis using assms st put
        receive_dead [of mon_get_loop mon_put_loop handle_packet meta data now s s' "\<lambda>s'. monitor_dead s' \<and> mon_out s' = mon_out s", OF _ _ l]
      by (auto split: if_splits)
  qed (use assms in \<open>auto simp: monitor_dead_def run_posted_monitor_def fire_scheduler_def fire_tc_send_timer_def try_fire_idle Let_def
      split: list.splits\<close>)
qed

interpretation managed_monitor: managed_peer monitor_step monitor_own "\<lambda>m. destroy_monitor (mon_stop m)" mon_setting mon_out monitor_dead
proof
  show "monitor_dead (destroy_monitor (mon_stop s))" for s
    by (simp add: monitor_dead_def destroy_monitor_def mon_stop_def new_timer_def Let_def)
qed (simp_all add: monitor_own_keeps monitor_dead_quiet)

section \<open>Responders\<close>

definition server_dead :: "server \<Rightarrow> bool" where
  "server_dead s \<longleftrightarrow> m_stopped s \<and> \<not> m_alive s \<and> loop_dead (m_loop s)"

lemma server_own_keeps: "server_own e \<Longrightarrow> server_step e now s = Some s' \<Longrightarrow> settings s' = settings s"
  using server_step_evolves [of e now s s'] by (cases e) (auto simp: evolves_def)

lemma server_dead_quiet:
  assumes "server_own e" and "server_dead s" and "server_step e now s = Some s'"
  shows "server_dead s' \<and> out s' = out s"
proof -
  have l: "get_loop (put_loop l t) = l" for l t by (simp add: get_loop_def put_loop_def)
  have st: "loop_stopped (get_loop s)" if "m_loop s \<noteq> None"
    using that assms(2) by (auto simp: server_dead_def loop_dead_def get_loop_def)
  have put: "server_dead (put_loop x s) \<and> out (put_loop x s) = out s" if "loop_stopped x" for x
    using that assms(2) by (simp add: server_dead_def loop_dead_def put_loop_def)
  show ?thesis
  proof (cases e)
    case Ev_posted
    then show ?thesis using assms
      by (auto simp: server_dead_def run_posted_def teardown_def run_update_def split: list.splits server_task.splits)
  next
    case Ev_response_timer
    then show ?thesis using assms
      by (auto simp: server_dead_def fire_response_timer_def on_response_wait_def Let_def split: prod.splits option.splits response_wait.splits if_splits)
  next
    case Ev_tc_timer
    then show ?thesis using assms
      by (auto simp: server_dead_def fire_tc_timer_def Let_def split: prod.splits option.splits tc_wait_for.splits)
  next
    case Ev_silence
    then show ?thesis using assms st put
        silence_dead [of get_loop s put_loop "\<lambda>s'. server_dead s' \<and> out s' = out s", OF _ l] by (auto split: if_splits)
  next
    case (Ev_packet meta data)
    then show ?thesis using assms st put
        receive_dead [of get_loop put_loop server_on_packet meta data now s s' "\<lambda>s'. server_dead s' \<and> out s' = out s", OF _ _ l]
      by (auto simp: server_receive_def split: if_splits)
  qed (use assms in auto)
qed

interpretation managed_server: managed_peer server_step server_own "\<lambda>s. destroy (stop s)" settings out server_dead
proof
  have stopped: "m_stopped (stop s)" for s by (simp add: stop_def Let_def)
  show "server_dead (destroy (stop s))" for s
    using stopped [of s] by (simp add: server_dead_def destroy_def stop_def [of "(stop s)\<lparr>m_alive := False, m_loop := x\<rparr>" for x] Let_def)
qed (simp_all add: server_own_keeps server_dead_quiet)

section \<open>Observers\<close>

definition observer_setting :: "observer \<Rightarrow> record_handler option \<times> mdns_options" where
  "observer_setting s = (o_on_record s, o_mdns_opts s)"

definition observer_dead :: "observer \<Rightarrow> bool" where
  "observer_dead s \<longleftrightarrow> o_stopped s \<and> \<not> o_alive s \<and> loop_dead (o_loop s)"

lemma fold_deliver_setting: "observer_setting (fold (deliver_record sender) rs s) = observer_setting s"
  by (induction rs arbitrary: s)
    (simp_all add: deliver_record_def stop_observer_def observer_setting_def Let_def split: option.split)

interpretation observer_settings: loop_evolution o_get_loop o_put_loop observer_on_packet "\<lambda>s s'. observer_setting s' = observer_setting s"
proof
  show "observer_setting s' = observer_setting s" if "observer_on_packet meta data now s = Some (s', rel)" for meta data now s s' rel
    using that by (auto simp: observer_on_packet_def bind_eq_Some_conv fold_deliver_setting split: if_splits)
qed (simp_all add: observer_setting_def o_put_loop_def)

lemma observer_own_keeps:
  assumes "observer_own e" and "observer_step e now s = Some s'"
  shows "observer_setting s' = observer_setting s"
proof (cases e)
  case Oev_posted
  then show ?thesis using assms
    by (auto simp: run_posted_observer_def teardown_observer_def observer_setting_def Let_def split: if_splits)
next
  case Oev_silence
  then show ?thesis using assms observer_settings.silence_evolves [where on_silence = "\<lambda>s. s" and s = s and now = now] by (auto split: if_splits)
next
  case (Oev_packet meta data)
  then show ?thesis
    using assms observer_settings.receive_evolves [where meta = meta and data = data and now = now and s = s and s' = s'] by (auto split: if_splits)
qed (use assms in auto)

lemma observer_dead_quiet:
  assumes "observer_own e" and "observer_dead s" and "observer_step e now s = Some s'"
  shows "observer_dead s' \<and> o_out s' = o_out s"
proof -
  have l: "o_get_loop (o_put_loop l t) = l" for l t by (simp add: o_get_loop_def o_put_loop_def)
  have st: "loop_stopped (o_get_loop s)" if "o_loop s \<noteq> None"
    using that assms(2) by (auto simp: observer_dead_def loop_dead_def o_get_loop_def)
  have put: "observer_dead (o_put_loop x s) \<and> o_out (o_put_loop x s) = o_out s" if "loop_stopped x" for x
    using that assms(2) by (simp add: observer_dead_def loop_dead_def o_put_loop_def)
  show ?thesis
  proof (cases e)
    case Oev_silence
    then show ?thesis using assms st put
        silence_dead [of o_get_loop s o_put_loop "\<lambda>s'. observer_dead s' \<and> o_out s' = o_out s", OF _ l] by (auto split: if_splits)
  next
    case (Oev_packet meta data)
    then show ?thesis using assms st put
        receive_dead [of o_get_loop o_put_loop observer_on_packet meta data now s s' "\<lambda>s'. observer_dead s' \<and> o_out s' = o_out s", OF _ _ l]
      by (auto split: if_splits)
  qed (use assms in \<open>auto simp: observer_dead_def run_posted_observer_def teardown_observer_def split: if_splits\<close>)
qed

interpretation managed_observer: managed_peer observer_step observer_own "\<lambda>s. destroy_observer (stop_observer s)"
  observer_setting o_out observer_dead
proof
  show "observer_dead (destroy_observer (stop_observer s))" for s
    by (simp add: observer_dead_def destroy_observer_def stop_observer_def Let_def)
qed (simp_all add: observer_own_keeps observer_dead_quiet)

section \<open>Peers of a group\<close>

datatype peer_setting =
    Monitor_setting "monitor_options \<times> mdns_options \<times> endpoint \<times> dns_name set option"
  | Server_setting "service_options \<times> mdns_options \<times> endpoint"
  | Observer_setting "record_handler option \<times> mdns_options"

datatype peer_effect = Monitor_effect monitor_effect | Server_effect server_effect | Observer_effect observe_effect

fun peer_setting_of :: "peer \<Rightarrow> peer_setting" where
  "peer_setting_of (Monitor_peer m) = Monitor_setting (mon_setting m)"
| "peer_setting_of (Server_peer s) = Server_setting (settings s)"
| "peer_setting_of (Observer_peer ob) = Observer_setting (observer_setting ob)"

fun peer_effects :: "peer \<Rightarrow> peer_effect list" where
  "peer_effects (Monitor_peer m) = map Monitor_effect (mon_out m)"
| "peer_effects (Server_peer s) = map Server_effect (out s)"
| "peer_effects (Observer_peer ob) = map Observer_effect (o_out ob)"

fun peer_dead :: "peer \<Rightarrow> bool" where
  "peer_dead (Monitor_peer m) = monitor_dead m"
| "peer_dead (Server_peer s) = server_dead s"
| "peer_dead (Observer_peer ob) = observer_dead ob"

interpretation managed: managed_peer peer_step peer_own retire peer_setting_of peer_effects peer_dead
proof
  fix e now p p'
  assume e: "peer_own e" "peer_step e now p = Some p'"
  show "peer_setting_of p' = peer_setting_of p"
    using e by (cases e; cases p) (auto simp: managed_monitor.own_keeps managed_server.own_keeps managed_observer.own_keeps)
next
  show "peer_dead (retire p)" for p
    by (cases p) (simp_all add: managed_monitor.discard_dead managed_server.discard_dead managed_observer.discard_dead)
next
  fix e now p p'
  assume e: "peer_own e" "peer_dead p" "peer_step e now p = Some p'"
  then show "peer_dead p' \<and> peer_effects p' = peer_effects p"
    by (cases e; cases p)
      (auto dest: managed_monitor.dead_quiet [rotated 2] managed_server.dead_quiet [rotated 2] managed_observer.dead_quiet [rotated 2])
qed

subsection \<open>Retired peers\<close>

definition retired_ok :: "nic_group \<Rightarrow> bool" where
  "retired_ok g \<longleftrightarrow> list_all peer_dead (g_retired g)"

definition retires :: "nic_group \<Rightarrow> nic_group \<Rightarrow> bool" where
  "retires g g' \<longleftrightarrow> (\<exists>ps. map peer_effects (g_retired g') = map peer_effects (g_retired g) @ ps)"

lemma retires_append: "g_retired g' = g_retired g @ map retire ps \<Longrightarrow> retired_ok g \<Longrightarrow> retired_ok g' \<and> retires g g'"
  by (auto simp: retired_ok_def retires_def list_all_iff managed.discard_dead)

lemma retires_same: "g_retired g' = g_retired g \<Longrightarrow> retired_ok g \<Longrightarrow> retired_ok g' \<and> retires g g'"
  by (simp add: retired_ok_def retires_def)

lemma retires_trans: "retires g h \<Longrightarrow> retires h k \<Longrightarrow> retires g k"
  by (auto simp: retires_def)

lemma stop_all_retired: "g_retired (stop_all_instances g) = g_retired g @ map retire (concat (map (\<lambda>(k, slot). concat (slot_instances slot)) (g_instances g)))"
proof -
  have "g_retired (fold (\<lambda>(idx, slot). stop_instance_tuple slot) xs g) =
      g_retired g @ map retire (concat (map (\<lambda>(k, slot). concat (slot_instances slot)) xs))" for xs :: "(u32 \<times> nic_slot) list"
    by (induction xs arbitrary: g) (auto simp: stop_instance_tuple_def)
  then show ?thesis by (simp add: stop_all_instances_def)
qed

lemma seed_nics_retired: "seed_nics xs now g = Some g' \<Longrightarrow> g_retired g' = g_retired g"
  by (induction xs arbitrary: g) (auto simp: bind_eq_Some_conv on_nic_added_slots(2))

lemma step_at_retired:
  assumes "step_at (peer_step e now) i ps = Some ps'" and "peer_own e" and "list_all peer_dead ps"
  shows "list_all peer_dead ps' \<and> map peer_effects ps' = map peer_effects ps"
proof (cases "i < length ps")
  case True
  then obtain p where p: "peer_step e now (ps ! i) = Some p" "ps' = ps[i := p]" using assms(1) by (auto simp: step_at_def)
  have "peer_dead p \<and> peer_effects p = peer_effects (ps ! i)"
    using managed.dead_quiet [OF assms(2) _ p(1)] assms(3) True by (simp add: list_all_length)
  moreover have "(map peer_effects ps)[i := peer_effects (ps ! i)] = map peer_effects ps" by (metis list_update_id map_update)
  ultimately show ?thesis
    using assms(3) True by (auto simp: p(2) list_all_length nth_list_update map_update)
qed (use assms in \<open>simp add: step_at_def\<close>)

lemma on_nic_change_retired:
  assumes "on_nic_change ch now g = Some g'" and "retired_ok g"
  shows "retired_ok g' \<and> retires g g'"
proof (cases ch)
  case (Nic_removed nic)
  then show ?thesis
    using assms retires_append [of g' g] retires_same [of g' g]
    by (auto simp: on_nic_removed_def stop_instance_tuple_def split: if_splits option.splits)
next
  case (Nic_added nic)
  then show ?thesis using assms retires_same [of g' g] on_nic_added_slots(2) by (auto split: if_splits)
qed

fun own_event :: "group_event \<Rightarrow> bool" where
  "own_event (Gev_peer k i j e) = peer_own e"
| "own_event (Gev_retired i e) = peer_own e"
| "own_event _ = True"

lemma step_retires:
  assumes "own_event e" and "retired_ok g" and "group_step e now g = Some g'"
  shows "retired_ok g' \<and> retires g g'"
proof (cases e)
  case (Gev_start bound)
  then show ?thesis using assms by (intro retires_same) (auto simp: group_start_def Let_def dest!: seed_nics_retired)
next
  case Gev_stop
  show ?thesis
  proof (cases "g_stopped g")
    case False
    let ?h = "g\<lparr>g_stopped := True, g_monitor := nic_stop (g_monitor g)\<rparr>"
    have "g_retired g' = g_retired g @ map retire (concat (map (\<lambda>(k, slot). concat (slot_instances slot)) (g_instances g)))"
      using assms(3) Gev_stop False stop_all_retired [of ?h] by (auto simp: group_stop_def Let_def)
    then show ?thesis using assms(2) by (rule retires_append)
  qed (use assms Gev_stop in \<open>auto simp: group_stop_def retires_def\<close>)
next
  case (Gev_watch t)
  then show ?thesis using assms by (intro retires_same) (auto simp: group_watch_def for_each_monitor_instance_def split: option.split)
next
  case (Gev_unwatch t)
  then show ?thesis using assms by (intro retires_same) (auto simp: group_unwatch_def for_each_monitor_instance_def split: option.split)
next
  case Gev_posted
  obtain nm ch where r: "run_posted_nic (g_monitor g) = (nm, ch)" by fastforce
  show ?thesis
  proof (cases ch)
    case None
    then show ?thesis using assms Gev_posted r by (intro retires_same) auto
  next
    case (Some c)
    then show ?thesis
      using assms Gev_posted r on_nic_change_retired [of c now "g\<lparr>g_monitor := nm\<rparr>" g'] by (simp add: retired_ok_def retires_def)
  qed
next
  case (Gev_peer k i j pe)
  then show ?thesis using assms by (intro retires_same) (auto split: option.splits)
next
  case (Gev_retired i pe)
  then obtain ps where ps: "step_at (peer_step pe now) i (g_retired g) = Some ps" "g' = g\<lparr>g_retired := ps\<rparr>" using assms(3) by auto
  then show ?thesis using step_at_retired [OF ps(1)] assms(1,2) Gev_retired by (auto simp: retired_ok_def retires_def)
qed (use assms in \<open>auto intro!: retires_same\<close>)

text \<open>
  C17: retired peers are silent. When an interface disappears or the group stops, its peers are
  stopped and destroyed; whatever tasks of them still run, timers fire or datagrams arrive, in every
  later state of the group they have sent nothing more and called no callback any more, and
  all retired peers are dead: stopped, with their receive loops closed.
\<close>

theorem retired_peers_silent:
  assumes "group_reachable own_event (new_nic_group env opts pos initial) g" and "group_reachable own_event g g'"
  shows "list_all peer_dead (g_retired g') \<and>
    (\<exists>ps. map peer_effects (g_retired g') = map peer_effects (g_retired g) @ ps)"
proof -
  have r: "retired_ok h' \<and> retires h h'" if "group_reachable own_event h h'" "retired_ok h" for h h'
    using that
  proof (induction rule: group_reachable.induct)
    case group_init
    then show ?case by (simp add: retires_def)
  next
    case (group_next k e now k')
    then show ?case using step_retires [of e k now k'] retires_trans by blast
  qed
  have "retired_ok g" using r [OF assms(1)] by (simp add: retired_ok_def new_nic_group_def)
  from r [OF assms(2) this] show ?thesis by (simp add: retired_ok_def retires_def)
qed

text \<open>In the example the observer on the wired interface is replaced when its address changes.\<close>

theorem retired_peers_silent_witness:
  "\<exists>g g'. group_run example_run example_group = Some g \<and> length (g_retired g) = 1 \<and>
    group_step (Gev_retired 0 (Observer_event Oev_posted)) 100000000 g = Some g' \<and>
    map peer_effects (g_retired g') = map peer_effects (g_retired g)"
proof -
  obtain g where g: "group_run example_run example_group = Some g" "length (g_retired g) = 1" using example_run_ok by blast
  have "list_all (\<lambda>(e, _). own_event e) example_run" by (simp add: example_run_def)
  then have r: "group_reachable own_event example_group g" using group_run_reachable [OF g(1)] group_init by blast
  obtain p where p: "g_retired g = [p]" using g(2) by (cases "g_retired g") auto
  obtain q where q: "peer_step (Observer_event Oev_posted) 100000000 p = Some q" by (cases p) auto
  have s: "group_step (Gev_retired 0 (Observer_event Oev_posted)) 100000000 g = Some (g\<lparr>g_retired := [q]\<rparr>)"
    by (simp add: step_at_def p q)
  have "group_reachable own_event g (g\<lparr>g_retired := [q]\<rparr>)" using group_next [OF group_init _ s] by simp
  then have "\<exists>ps. map peer_effects [q] = map peer_effects (g_retired g) @ ps"
    using retired_peers_silent [OF r [unfolded example_group_def], of "g\<lparr>g_retired := [q]\<rparr>"] by simp
  then show ?thesis using g s by (auto simp: p)
qed

end
