(* ===== verification/Group_Services.thy ===== *)
theory Group_Services
  imports Group_Peers
begin

text \<open>
  What the peers of a group are made with and what they watch, the services that the group reports, and
  the group that is composed at run time.
\<close>

section \<open>Settings of the peers\<close>

text \<open>What the peers of one entry of the pack must be set to, on an interface with the given socket options.\<close>

fun expected_settings :: "nic_group_options \<Rightarrow> dns_name set \<Rightarrow> socket_options \<Rightarrow> peer_options \<Rightarrow> peer_setting list" where
  "expected_settings opts ws so (Monitor_options os) =
     map (\<lambda>mo. Monitor_setting (clone_monitor_options mo, go_mdns_opts opts, multicast_group so, Some ws)) os"
| "expected_settings opts ws so (Server_options os) =
     map (\<lambda>sp. Server_setting (clone_service_options (sp_opts sp), default_mdns_options, multicast_group so)) os"
| "expected_settings opts ws so (Observer_options os) = map (\<lambda>_. Observer_setting (None, go_mdns_opts opts)) os"

lemma watch_view_new: "fold task_watch (map Task_watch ts) ws = dns_name ` set ts \<union> ws"
  by (induction ts arbitrary: ws) auto

lemma mon_post_sels [simp]:
  "mon_opts (mon_post t m) = mon_opts m" "mon_mdns_opts (mon_post t m) = mon_mdns_opts m" "mon_multicast_ep (mon_post t m) = mon_multicast_ep m"
  "mon_alive (mon_post t m) = mon_alive m" "mon_watches (mon_post t m) = mon_watches m" "mon_posted (mon_post t m) = mon_posted m @ [t]"
  by (simp_all add: mon_post_def)

lemma fold_mon_post:
  "mon_setting (fold (\<lambda>t. mon_post (Task_watch t)) ts m) =
     (mon_opts m, mon_mdns_opts m, mon_multicast_ep m,
      if mon_alive m then Some (dns_name ` set ts \<union> watch_view m) else None)"
  by (induction ts arbitrary: m) (auto simp: mon_setting_def watch_view_def)

lemma mon_start_setting: "mon_start od now m = Some m' \<Longrightarrow> mon_setting m' = mon_setting m"
  unfolding mon_start_def Let_def by (drule arm_scheduler_sends, drule setting_sends) (simp add: mon_setting_def watch_view_def)

lemma async_start_settings:
  assumes "async_start r d now s = Some s'"
  shows "settings s' = settings s"
proof -
  have p: "settings t' = settings t" if "start_probing now t = Some t'" for t t'
    using start_probing_evolves [of t now] that by (simp add: evolves_result_def evolves_def)
  show ?thesis
    using assms by (auto simp: async_start_def do_start_def Let_def bind_eq_Some_conv settings_def split: if_splits dest!: p)
qed

lemma start_peer_setting:
  "make_monitor mo so g = Some p0 \<Longrightarrow> start_peer_instance ws now p0 = Some p \<Longrightarrow>
     peer_setting_of p = Monitor_setting (clone_monitor_options mo, go_mdns_opts (g_opts g), multicast_group so, Some (dns_name ` set ws))"
  "make_server sp so g = Some p0 \<Longrightarrow> start_peer_instance ws now p0 = Some p \<Longrightarrow>
     peer_setting_of p = Server_setting (clone_service_options (sp_opts sp), default_mdns_options, multicast_group so)"
  "make_observer ob so g = Some p0 \<Longrightarrow> start_peer_instance ws now p0 = Some p \<Longrightarrow>
     peer_setting_of p = Observer_setting (None, go_mdns_opts (g_opts g))"
  by (auto simp: make_monitor_def make_server_def make_observer_def opened_def new_monitor_def new_server_def new_observer_def fold_mon_post
      watch_view_def settings_def observer_setting_def async_observe_def do_observe_def Let_def
      dest!: mon_start_setting async_start_settings split: if_splits)

lemma create_peers_setting:
  assumes "create_peers mk os so now g = Some (ps, g')"
    and "\<And>opt n p0 p. mk opt so (g\<lparr>g_made := n\<rparr>) = Some p0 \<Longrightarrow> start_peer_instance (g_watch_set g) now p0 = Some p \<Longrightarrow>
      peer_setting_of p = f opt"
  shows "map peer_setting_of ps = map f os"
proof -
  have "create_peers mk os so now (g\<lparr>g_made := n\<rparr>) = Some (ps, g') \<Longrightarrow> map peer_setting_of ps = map f os" for n
  proof (induction os arbitrary: n ps)
    case (Cons opt os)
    then show ?case by (fastforce simp: bind_eq_Some_conv dest!: assms(2))
  qed simp
  from this [of "g_made g"] assms(1) show ?thesis by simp
qed

lemma create_peer_instances_setting:
  assumes "create_peer_instances po so now g = Some (ps, g')"
  shows "map peer_setting_of ps = expected_settings (g_opts g) (dns_name ` set (g_watch_set g)) so po"
  using assms by (cases po) (auto intro!: create_peers_setting dest!: start_peer_setting)

lemma create_instances_setting:
  "create_instances_for_nic pos so now g = Some (pss, g') \<Longrightarrow>
     map (map peer_setting_of) pss = map (expected_settings (g_opts g) (dns_name ` set (g_watch_set g)) so) pos"
proof (induction pos arbitrary: g pss)
  case (Cons po pos)
  then obtain ps h rest where h: "create_peer_instances po so now g = Some (ps, h)" "create_instances_for_nic pos so now h = Some (rest, g')"
    "pss = ps # rest" by (auto simp: bind_eq_Some_conv)
  obtain n where "h = g\<lparr>g_made := n\<rparr>" using create_peer_instances_made [OF h(1)] by blast
  then show ?case using Cons.IH [OF h(2)] create_peer_instances_setting [OF h(1)] by (simp add: h(3))
qed simp

section \<open>Watches\<close>

text \<open>A type is spelled canonically when normalisation does not change it, as the documentation asks for.\<close>

definition canonical :: "string \<Rightarrow> bool" where
  "canonical t \<longleftrightarrow> normalize t = t"

fun spelled_event :: "group_event \<Rightarrow> bool" where
  "spelled_event (Gev_watch t) = canonical t"
| "spelled_event (Gev_unwatch t) = canonical t"
| "spelled_event e = own_event e"

fun is_monitor_entry :: "peer_options \<Rightarrow> bool" where
  "is_monitor_entry (Monitor_options _) = True"
| "is_monitor_entry _ = False"

definition one_monitor_entry :: "peer_options list \<Rightarrow> bool" where
  "one_monitor_entry pos \<longleftrightarrow> length (filter is_monitor_entry pos) \<le> 1"

definition slot_ok :: "nic_group \<Rightarrow> nic_slot \<Rightarrow> bool" where
  "slot_ok g slot \<longleftrightarrow>
     map (map peer_setting_of) (slot_instances slot) =
       map (expected_settings (g_opts g) (dns_name ` set (g_watch_set g)) (socket_options_for (g_opts g) (slot_nic slot))) (g_peer_opts g)"

definition peers_ok :: "nic_group \<Rightarrow> bool" where
  "peers_ok g \<longleftrightarrow> list_all canonical (g_watch_set g) \<and> list_all (\<lambda>(k, slot). slot_ok g slot) (g_instances g)"

lemma slot_ok_cong: "core g' = core g \<Longrightarrow> slot_ok g' slot = slot_ok g slot"
  using core_eqD [of g' g] by (simp add: slot_ok_def)

lemma peers_ok_subset: "core g' = core g \<Longrightarrow> set (g_instances g') \<subseteq> set (g_instances g) \<Longrightarrow> peers_ok g \<Longrightarrow> peers_ok g'"
  using core_eqD [of g' g] slot_ok_cong [of g' g] by (auto simp: peers_ok_def list_all_iff)

lemma peers_ok_added:
  assumes "on_nic_added nic now g = Some g'" and "peers_ok g"
  shows "peers_ok g'"
proof (cases "map_of (g_instances g) (ni_index nic) \<noteq> None \<or> \<not> nic_accepts (g_opts g) nic")
  case True
  then show ?thesis using assms by (auto simp: on_nic_added_def split: if_splits)
next
  case False
  then obtain insts h where h: "create_instances_for_nic (g_peer_opts g) (socket_options_for (g_opts g) nic) now g = Some (insts, h)"
    "g' = h\<lparr>g_instances := g_instances h @ [(ni_index nic, \<lparr>slot_nic = nic, slot_instances = insts\<rparr>)]\<rparr>"
    using assms(1) by (auto simp: on_nic_added_def bind_eq_Some_conv split: if_splits)
  obtain n where n: "h = g\<lparr>g_made := n\<rparr>" using create_instances_made [OF h(1)] by blast
  have "core g' = core g" by (simp add: h(2) n)
  then have "slot_ok g' = slot_ok g" "g_watch_set g' = g_watch_set g" using slot_ok_cong core_eqD by blast+
  then show ?thesis
    using assms(2) create_instances_setting [OF h(1)] by (simp add: peers_ok_def h(2) n slot_ok_def)
qed

lemma peers_ok_seed: "seed_nics xs now g = Some g' \<Longrightarrow> peers_ok g \<Longrightarrow> peers_ok g'"
  by (induction xs arbitrary: g) (auto simp: bind_eq_Some_conv dest: peers_ok_added)

subsection \<open>Watching and unwatching\<close>

lemma expected_other: "\<not> is_monitor_entry po \<Longrightarrow> expected_settings opts ws so po = expected_settings opts ws' so po"
  by (cases po) simp_all

lemma peer_index_None: "peer_index_of pos = None \<Longrightarrow> po \<in> set pos \<Longrightarrow> \<not> is_monitor_entry po"
  by (induction pos rule: peer_index_of.induct) auto

lemma peer_index_Some:
  "peer_index_of pos = Some idx \<Longrightarrow>
     idx < length pos \<and> is_monitor_entry (pos ! idx) \<and>
     (one_monitor_entry pos \<longrightarrow> (\<forall>j < length pos. j \<noteq> idx \<longrightarrow> \<not> is_monitor_entry (pos ! j)))"
proof (induction pos arbitrary: idx rule: peer_index_of.induct)
  case (2 os pos)
  then show ?case by (auto simp: one_monitor_entry_def filter_empty_conv nth_Cons' dest: nth_mem)
qed (auto simp: one_monitor_entry_def nth_Cons')

lemma post_setting:
  assumes "peer_setting_of p = Monitor_setting (a, b, c, Some ws)"
  shows "peer_setting_of (on_monitor (mon_post task) p) = Monitor_setting (a, b, c, Some (task_watch task ws))"
  using assms by (cases p) (auto simp: mon_setting_def watch_view_def split: if_splits)

lemma post_settings:
  "map peer_setting_of ps = map (\<lambda>mo. Monitor_setting (c mo, x, y, Some ws)) os \<Longrightarrow>
   map peer_setting_of (map (on_monitor (mon_post task)) ps) = map (\<lambda>mo. Monitor_setting (c mo, x, y, Some (task_watch task ws))) os"
proof (induction ps arbitrary: os)
  case (Cons p ps)
  then show ?case by (cases os) (auto dest!: post_setting [of p])
qed simp

lemma posted_slot_ok:
  assumes "slot_ok g slot" and "peer_index_of (g_peer_opts g) = Some idx" and "one_monitor_entry (g_peer_opts g)"
    and "dns_name ` set ws = task_watch task (dns_name ` set (g_watch_set g))"
  shows "slot_ok (g\<lparr>g_watch_set := ws, g_instances := is\<rparr>)
    (slot\<lparr>slot_instances := (slot_instances slot)[idx := map (on_monitor (mon_post task)) (slot_instances slot ! idx)]\<rparr>)"
proof -
  let ?so = "socket_options_for (g_opts g) (slot_nic slot)"
  let ?E = "\<lambda>W. expected_settings (g_opts g) W ?so"
  let ?W = "dns_name ` set (g_watch_set g)"
  let ?pss = "slot_instances slot"
  let ?new = "?pss[idx := map (on_monitor (mon_post task)) (?pss ! idx)]"
  have eq: "map (map peer_setting_of) ?pss = map (?E ?W) (g_peer_opts g)" using assms(1) by (simp add: slot_ok_def)
  then have len: "length ?pss = length (g_peer_opts g)" by (metis length_map)
  have at: "map peer_setting_of (?pss ! j) = ?E ?W (g_peer_opts g ! j)" if "j < length ?pss" for j
    using arg_cong [OF eq, of "\<lambda>xs. xs ! j"] that len by simp
  note idx = peer_index_Some [OF assms(2)]
  obtain os where os: "g_peer_opts g ! idx = Monitor_options os" using idx by (cases "g_peer_opts g ! idx") auto
  have "map peer_setting_of (?new ! j) = ?E (task_watch task ?W) (g_peer_opts g ! j)" if "j < length ?pss" for j
  proof (cases "j = idx")
    case True
    have "map peer_setting_of (?pss ! idx) =
        map (\<lambda>mo. Monitor_setting (clone_monitor_options mo, go_mdns_opts (g_opts g), multicast_group ?so, Some ?W)) os"
      using at [of idx] that True os by simp
    from post_settings [OF this, of task] show ?thesis using that True os by simp
  next
    case False
    then have "\<not> is_monitor_entry (g_peer_opts g ! j)" using idx assms(3) that len by simp
    then show ?thesis using False at [OF that] expected_other by simp
  qed
  then have "map (map peer_setting_of) ?new = map (?E (task_watch task ?W)) (g_peer_opts g)"
    using len by (intro nth_equalityI) simp_all
  then show ?thesis using assms(4) by (simp add: slot_ok_def)
qed

lemma peers_ok_posted:
  assumes "peers_ok g" and "one_monitor_entry (g_peer_opts g)" and "list_all canonical ws"
    and "dns_name ` set ws = task_watch task (dns_name ` set (g_watch_set g))"
  shows "peers_ok (for_each_monitor_instance (mon_post task) (g\<lparr>g_watch_set := ws\<rparr>))"
proof (cases "peer_index_of (g_peer_opts g)")
  case None
  have e: "map (expected_settings opts W so) (g_peer_opts g) = map (expected_settings opts W' so) (g_peer_opts g)" for opts W W' so
    using expected_other peer_index_None [OF None] by (intro map_cong refl) blast
  then have "slot_ok (g\<lparr>g_watch_set := ws\<rparr>) slot = slot_ok g slot" for slot
    by (simp add: slot_ok_def e [where W = "dns_name ` set ws" and W' = "dns_name ` set (g_watch_set g)"])
  then show ?thesis using assms(1,3) None by (simp add: for_each_monitor_instance_def peers_ok_def)
next
  case (Some idx)
  let ?is = "map (\<lambda>(k, slot). (k, slot\<lparr>slot_instances := (slot_instances slot)[idx := map (on_monitor (mon_post task)) (slot_instances slot ! idx)]\<rparr>)) (g_instances g)"
  have "list_all (\<lambda>(k, slot). slot_ok (g\<lparr>g_watch_set := ws, g_instances := ?is\<rparr>) slot) ?is"
    using assms(1) posted_slot_ok [OF _ Some assms(2,4)] by (auto simp: peers_ok_def list_all_iff)
  then show ?thesis using assms(3) Some by (simp add: for_each_monitor_instance_def peers_ok_def)
qed

lemma canonical_inj: "canonical t \<Longrightarrow> list_all canonical ws \<Longrightarrow> dns_name ` set (removeAll t ws) = dns_name ` set ws - {dns_name t}"
  by (auto simp: canonical_def list_all_iff)

lemma step_slot_ok:
  assumes "step_slot i j e now slot = Some slot'" and "peer_own e"
  shows "slot_ok g slot' = slot_ok g slot"
proof -
  have one: "map peer_setting_of ps' = map peer_setting_of ps" if "step_at (peer_step e now) j ps = Some ps'" for ps ps'
    using that managed.own_keeps [OF assms(2)] by (auto simp: step_at_def map_update split: if_splits) (metis list_update_id map_update)
  have "map (map peer_setting_of) (slot_instances slot') = map (map peer_setting_of) (slot_instances slot)"
    using assms(1) one
    by (auto simp: step_slot_def step_at_def [of "step_at (peer_step e now) j"] map_update split: if_splits) (metis list_update_id map_update)
  moreover have "slot_nic slot' = slot_nic slot" using assms(1) by (auto simp: step_slot_def)
  ultimately show ?thesis by (simp add: slot_ok_def)
qed

lemma peers_ok_step:
  assumes "spelled_event e" and "group_step e now g = Some g'" and "peers_ok g" and "one_monitor_entry (g_peer_opts g)"
  shows "peers_ok g'"
proof (cases e)
  case (Gev_start bound)
  let ?h = "g\<lparr>g_stopped := False, g_callbacks := g_alive g, g_monitor := nic_start bound now (nic_on_removed (nic_on_added (g_monitor g)))\<rparr>"
  have "seed_nics (current (g_monitor ?h)) now ?h = Some g'" using assms(2) Gev_start by (simp add: group_start_def Let_def)
  moreover have "peers_ok ?h" using assms(3) by (simp add: peers_ok_def slot_ok_def)
  ultimately show ?thesis by (rule peers_ok_seed)
next
  case Gev_stop
  then show ?thesis using assms(2,3) core_eqD [OF stop_all_core(1)] by (auto simp: group_stop_def Let_def peers_ok_def)
next
  case (Gev_watch t)
  then show ?thesis
    using assms(1-3) peers_ok_posted [OF assms(3,4), of "List.insert t (g_watch_set g)" "Task_watch t"]
    by (auto simp: group_watch_def peers_ok_def list_all_iff)
next
  case (Gev_unwatch t)
  have "list_all canonical (removeAll t (g_watch_set g))" using assms(3) by (auto simp: peers_ok_def list_all_iff)
  then show ?thesis
    using assms(1-3) Gev_unwatch peers_ok_posted [OF assms(3,4), of "removeAll t (g_watch_set g)" "Task_unwatch t"]
      canonical_inj [of t "g_watch_set g"]
    by (auto simp: group_unwatch_def peers_ok_def)
next
  case Gev_posted
  obtain nm ch where r: "run_posted_nic (g_monitor g) = (nm, ch)" by fastforce
  let ?h = "g\<lparr>g_monitor := nm\<rparr>"
  have h: "peers_ok ?h" using assms(3) by (simp add: peers_ok_def slot_ok_def)
  have removed: "peers_ok (on_nic_removed nic ?h)" for nic
    using h by (rule peers_ok_subset [rotated 2]) (auto simp: on_nic_removed_slots(1), auto simp: on_nic_removed_def drop_key_def split: option.splits)
  show ?thesis
  proof (cases ch)
    case None
    then show ?thesis using assms(2) Gev_posted r h by auto
  next
    case (Some c)
    then show ?thesis using assms(2) Gev_posted r h removed by (cases c) (auto simp: Let_def split: if_splits dest: peers_ok_added)
  qed
next
  case (Gev_peer k i j pe)
  show ?thesis
  proof (cases "map_of (g_instances g) k")
    case (Some slot)
    then obtain slot' where s: "step_slot i j pe now slot = Some slot'" "g' = g\<lparr>g_instances := upd_entry k (\<lambda>_. slot') (g_instances g)\<rparr>"
      using assms(2) Gev_peer by auto
    have "slot_ok g slot'" using step_slot_ok [OF s(1)] assms(1,3) Gev_peer map_of_SomeD [OF Some] by (auto simp: peers_ok_def list_all_iff)
    moreover have "slot_ok g' = slot_ok g" using s(2) by (intro ext slot_ok_cong) simp
    ultimately show ?thesis using assms(3) by (auto simp: s(2) peers_ok_def list_all_iff upd_entry_def split: if_splits)
  qed (use assms Gev_peer in simp)
qed (use assms in \<open>auto simp: peers_ok_def slot_ok_def\<close>)

text \<open>
  The peers of every slot: the options vectors decide their number and order. No callback of the options
  reaches a peer, as \<open>expected_settings\<close> says.
\<close>

lemma group_peers_settings:
  assumes "group_reachable spelled_event (new_nic_group env opts pos initial) g" and "one_monitor_entry pos"
    and "(k, slot) \<in> set (g_instances g)"
  shows "map (map peer_setting_of) (slot_instances slot) =
    map (expected_settings opts (dns_name ` set (g_watch_set g)) (socket_options_for opts (slot_nic slot))) pos"
proof -
  have c: "g_opts h = opts \<and> g_peer_opts h = pos" if "group_reachable spelled_event (new_nic_group env opts pos initial) h" for h
    using reachable_config [OF that] by (simp add: new_nic_group_def)
  from assms(1) have "peers_ok g"
  proof (induction rule: group_reachable.induct)
    case group_init
    then show ?case by (simp add: peers_ok_def new_nic_group_def)
  next
    case (group_next h e now h')
    then show ?case using peers_ok_step [of e now h h'] c [OF group_next.hyps(1)] assms(2) by simp
  qed
  then show ?thesis using assms(3) c [OF assms(1)] by (auto simp: peers_ok_def slot_ok_def list_all_iff)
qed

text \<open>Options without callbacks, and the settings of peers that have exactly the options that were configured.\<close>

fun without_callbacks :: "peer_options \<Rightarrow> bool" where
  "without_callbacks (Monitor_options os) = list_all (\<lambda>mo. \<not> mo_on_found mo \<and> \<not> mo_on_updated mo \<and> \<not> mo_on_lost mo) os"
| "without_callbacks (Server_options os) =
     list_all (\<lambda>sp. on_conflict (sp_opts sp) = None \<and> \<not> has_on_query (sp_opts sp) \<and> \<not> has_on_tc_continuation (sp_opts sp)) os"
| "without_callbacks (Observer_options os) = list_all (\<lambda>ob. ob = None) os"

fun configured_settings :: "nic_group_options \<Rightarrow> dns_name set \<Rightarrow> socket_options \<Rightarrow> peer_options \<Rightarrow> peer_setting list" where
  "configured_settings opts ws so (Monitor_options os) = map (\<lambda>mo. Monitor_setting (mo, go_mdns_opts opts, multicast_group so, Some ws)) os"
| "configured_settings opts ws so (Server_options os) = map (\<lambda>sp. Server_setting (sp_opts sp, default_mdns_options, multicast_group so)) os"
| "configured_settings opts ws so (Observer_options os) = map (\<lambda>ob. Observer_setting (ob, go_mdns_opts opts)) os"

lemma expected_configured: "without_callbacks po \<Longrightarrow> expected_settings opts ws so po = configured_settings opts ws so po"
  by (cases po) (auto simp: list_all_iff clone_monitor_options_def clone_service_options_def)


text \<open>
  The watch set of the group compares spellings, the monitors compare normalised names: unwatching
  another spelling of a type takes it away from the monitors but not from the watch set, from which
  the monitors of later interfaces are started.
\<close>

lemma spelling_splits_watches:
  assumes "normalize t' = normalize t" and "t' \<noteq> t" and "t \<in> set (g_watch_set g)"
  shows "t \<in> set (g_watch_set (group_unwatch t' g))" and "dns_name t \<notin> watch_view (mon_post (Task_unwatch t') m)"
  using assms by (auto simp: group_unwatch_def for_each_monitor_instance_def watch_view_def split: option.split)

text \<open>An example: a service monitor on the wired interface, with a type watched before the start.\<close>

definition example_monitor_options :: monitor_options where
  "example_monitor_options = \<lparr>mo_on_found = False, mo_on_updated = False, mo_on_lost = False, mo_mode = Mode_discover\<rparr>"

lemmas monitor_start_eval =
  make_monitor_def new_monitor_def clone_monitor_options_def mon_post_def mon_start_def arm_scheduler_def scheduler_delay_def
  start_eval seconds_def

lemma start_one_monitor:
  assumes "g = new_nic_group example_group_env example_group_options [Monitor_options [mo]] (Some [nic_eth])"
  shows "\<exists>h m. group_run [(Gev_watch ''_http._tcp.local.'', 0), (Gev_start True, 0)] g = Some h \<and>
    g_instances h = [(2, \<lparr>slot_nic = nic_eth, slot_instances = [[Monitor_peer m]]\<rparr>)] \<and> g_watch_set h = [''_http._tcp.local.'']"
  unfolding assms
  by (cases "mo_mode mo")
    (simp_all add: group_watch_def for_each_monitor_instance_def monitor_start_eval example_group_options_def nic_eth_def)


section \<open>Services\<close>

definition by_name :: "resolved_service list \<Rightarrow> (string \<times> resolved_service) list" where
  "by_name xs = fold (\<lambda>svc m. assign (str (rs_instance_name svc)) svc m) xs []"

lemma by_name_snoc: "by_name (xs @ [svc]) = assign (str (rs_instance_name svc)) svc (by_name xs)"
  by (simp add: by_name_def)

lemma by_name_keys: "distinct (map fst (by_name xs)) \<and> (\<forall>(k, v) \<in> set (by_name xs). k = str (rs_instance_name v))"
proof (induction xs rule: rev_induct)
  case (snoc svc xs)
  then show ?case
    by (auto simp: by_name_snoc distinct_assign, auto simp: assign_def upd_entry_def split: if_splits)
qed (simp add: by_name_def)

lemma by_name_lookup: "map_of (by_name xs) (str n) = find (\<lambda>s. rs_instance_name s = n) (rev xs)"
proof (induction xs rule: rev_induct)
  case (snoc svc xs)
  then show ?case by (auto simp: by_name_snoc map_of_assign str_inject)
qed (simp add: by_name_def)

lemma find_name: "find (\<lambda>s. rs_instance_name s = n) xs = None \<longleftrightarrow> n \<notin> rs_instance_name ` set xs"
  by (auto simp: find_None_iff)

lemma find_values:
  "distinct (map fst m) \<Longrightarrow> \<forall>(k, v) \<in> set m. k = str (rs_instance_name v) \<Longrightarrow>
   find (\<lambda>s. rs_instance_name s = n) (map snd m) = map_of m (str n)"
  by (induction m) (auto simp: str_inject)

lemma collect_merged_by_name: "collect_merged g = map snd (by_name (collect_per_interface g))"
  by (simp add: collect_merged_def by_name_def)

lemma merged_distinct: "distinct (map rs_instance_name (collect_merged g))"
proof -
  let ?xs = "collect_per_interface g"
  have "map fst (by_name ?xs) = map str (map rs_instance_name (collect_merged g))"
    using by_name_keys [of ?xs] by (auto simp: collect_merged_by_name)
  then show ?thesis using by_name_keys [of ?xs] by (metis distinct_map)
qed

text \<open>The service that represents an instance is the one that the loop visits last, in the order of the map of slots.\<close>

lemma merged_last_visited:
  "find (\<lambda>s. rs_instance_name s = n) (collect_merged g) = find (\<lambda>s. rs_instance_name s = n) (rev (collect_per_interface g))"
  using find_values [of "by_name (collect_per_interface g)" n] by_name_keys [of "collect_per_interface g"]
  by (simp add: collect_merged_by_name by_name_lookup)

lemma by_name_values: "set (map snd (by_name xs)) \<subseteq> set xs"
  by (induction xs rule: rev_induct) (auto simp: by_name_snoc assign_def upd_entry_def split: if_splits, auto simp: by_name_def)

lemma by_name_same: "distinct (map rs_instance_name xs) \<Longrightarrow> map snd (by_name xs) = xs"
proof (induction xs rule: rev_induct)
  case (snoc svc xs)
  then have "map_of (by_name xs) (str (rs_instance_name svc)) = None" by (simp add: by_name_lookup find_name)
  then show ?case using snoc by (simp add: by_name_snoc assign_def)
qed (simp add: by_name_def)

lemma merged_names: "rs_instance_name ` set (collect_merged g) = rs_instance_name ` set (collect_per_interface g)"
proof
  show "rs_instance_name ` set (collect_merged g) \<subseteq> rs_instance_name ` set (collect_per_interface g)"
    using by_name_values [of "collect_per_interface g"] by (auto simp: collect_merged_by_name)
  show "rs_instance_name ` set (collect_per_interface g) \<subseteq> rs_instance_name ` set (collect_merged g)"
    using find_name [of _ "collect_merged g"] find_name [of _ "rev (collect_per_interface g)"] merged_last_visited [of _ g] by fastforce
qed

text \<open>What the monitors on an interface know.\<close>

definition known_on :: "nic_group \<Rightarrow> network_interface \<Rightarrow> resolved_service set" where
  "known_on g nic = {s. \<exists>k slot m. (k, slot) \<in> set (g_instances g) \<and> slot_nic slot = nic \<and> m \<in> set (slot_monitors g slot) \<and> s \<in> set (services m)}"

definition stamped :: "network_interface \<Rightarrow> resolved_service \<Rightarrow> resolved_service" where
  "stamped nic s = s\<lparr>rs_source_interface := nic\<rparr>"

lemma per_interface_known: "svc \<in> set (collect_per_interface g) \<longleftrightarrow> (\<exists>nic. svc \<in> stamped nic ` known_on g nic)"
  by (fastforce simp: collect_per_interface_def known_on_def stamped_def)

lemma per_interface_set: "set (collect_per_interface g) = (\<Union>nic. stamped nic ` known_on g nic)"
  using per_interface_known [of _ g] by blast

lemma stamped_name [simp]: "rs_instance_name (stamped nic s) = rs_instance_name s"
  by (simp add: stamped_def)

lemma slot_wanted:
  assumes "slots g = wanted ok xs" and "distinct (map fst (g_instances g))" and "(k, slot) \<in> set (g_instances g)"
  shows "slot_nic slot \<in> set xs \<and> ok (slot_nic slot)"
proof -
  have "slots g k = Some (slot_nic slot)" using assms(2,3) by (simp add: slots_def)
  then show ?thesis using assms(1) by (auto simp: wanted_def split: option.splits if_splits dest: find_by_index_SomeD)
qed


lemma group_run_append: "group_run (es @ fs) g = group_run es g \<bind> group_run fs"
proof (induction es arbitrary: g)
  case (Cons x es)
  have "(\<lambda>y. group_run es y \<bind> group_run fs) = group_run (es @ fs)" using Cons by (intro ext) simp
  then show ?case by (cases x) (simp add: bind_assoc)
qed simp

text \<open>
  An example: a monitor that only observes, on the wired interface of a host; the type of the example
  service is watched before the start, and the announcement of that service arrives after it.
\<close>

definition observing_options :: monitor_options where
  "observing_options = example_monitor_options\<lparr>mo_mode := Mode_observe\<rparr>"

definition observing_group :: nic_group where
  "observing_group = new_nic_group example_group_env example_group_options [Monitor_options [observing_options]] (Some [nic_lo, nic_eth])"

abbreviation new_observing :: monitor where
  "new_observing \<equiv> new_monitor (\<lambda>_. None) (multicast_group (socket_options_for example_group_options nic_eth)) observing_options
     default_mdns_options default_cache_options (\<lambda>_. 0) (\<lambda>_. 0)"

lemma observing_monitor:
  "\<exists>m1 m2. monitor_step (Mev_start False) 0 (mon_post (Task_watch ''_http._tcp.local.'') new_observing) = Some m1 \<and>
    monitor_step Mev_posted 0 m1 = Some m2 \<and> monitor_reachable new_observing m2 \<and>
    map_of (mon_watches m2) (dns_name ''_http._tcp.local.'') \<noteq> None \<and> mon_partial m2 = [] \<and> mon_live m2 = [] \<and> mon_receives from_responder m2"
proof -
  have n: "normalize ''_http._tcp.local.'' = ''_http._tcp.local.''" by code_simp
  have e: "sendable_name (str (dns_name ''_http._tcp.local.''))"
    using wf_name_encode(1) [OF example_wf_names(1)] n by (simp add: sendable_name_def)
  have 0: "monitor_step (Mev_watch ''_http._tcp.local.'') 0 new_observing = Some (mon_post (Task_watch ''_http._tcp.local.'') new_observing)"
    by simp
  have o: "mo_mode observing_options = Mode_observe" by (simp add: observing_options_def)
  have "\<exists>m1 m2. monitor_step (Mev_start False) 0 (mon_post (Task_watch ''_http._tcp.local.'') new_observing) = Some m1 \<and>
    monitor_step Mev_posted 0 m1 = Some m2 \<and> map_of (mon_watches m2) (dns_name ''_http._tcp.local.'') \<noteq> None \<and> mon_partial m2 = [] \<and>
    mon_live m2 = [] \<and> mon_receives from_responder m2"
    by (simp add: o monitor_start_eval run_posted_monitor_def do_watch_def emplace_def mon_receives_def start_loop_def new_loop_def accepts_def
        arm_silence_timer_def arm_receive_def default_mdns_options_def from_responder_def)
  then obtain m1 m2 where m: "monitor_step (Mev_start False) 0 (mon_post (Task_watch ''_http._tcp.local.'') new_observing) = Some m1"
    "monitor_step Mev_posted 0 m1 = Some m2" "map_of (mon_watches m2) (dns_name ''_http._tcp.local.'') \<noteq> None" "mon_partial m2 = []"
    "mon_live m2 = []" "mon_receives from_responder m2"
    by blast
  have "monitor_reachable new_observing m2"
    by (rule monitor_next [OF monitor_next [OF monitor_next [OF monitor_init _ 0] _ m(1)] _ m(2)])
      (simp_all add: e [simplified] mon_post_def new_monitor_def)
  with m show ?thesis by blast
qed

lemma observing_started:
  "\<exists>h m. group_run [(Gev_watch ''_http._tcp.local.'', 0), (Gev_start True, 0), (Gev_peer 2 0 0 (Monitor_event Mev_posted), 0)] observing_group = Some h \<and>
    g_instances h = [(2, \<lparr>slot_nic = nic_eth, slot_instances = [[Monitor_peer m]]\<rparr>)] \<and> \<not> g_stopped h \<and> pending_changes (g_monitor h) = [] \<and>
    monitor_reachable new_observing m \<and>
    map_of (mon_watches m) (dns_name ''_http._tcp.local.'') \<noteq> None \<and> mon_partial m = [] \<and> mon_live m = [] \<and> mon_receives from_responder m"
proof -
  obtain m1 m2 where m: "monitor_step (Mev_start False) 0 (mon_post (Task_watch ''_http._tcp.local.'') new_observing) = Some m1"
    "monitor_step Mev_posted 0 m1 = Some m2" "monitor_reachable new_observing m2 \<and>
    map_of (mon_watches m2) (dns_name ''_http._tcp.local.'') \<noteq> None \<and> mon_partial m2 = [] \<and> mon_live m2 = [] \<and> mon_receives from_responder m2"
    using observing_monitor by blast
  have c: "clone_monitor_options observing_options = observing_options"
    by (simp add: clone_monitor_options_def observing_options_def example_monitor_options_def)
  have "make_monitor observing_options (socket_options_for example_group_options nic_eth) g = Some (Monitor_peer new_observing)"
    if "g_env g = example_group_env" "g_opts g = example_group_options" for g
    using that by (simp add: make_monitor_def opened_def c example_group_env_def example_group_options_def)
  note make = this
  have acc: "\<not> nic_accepts example_group_options nic_lo" "nic_accepts example_group_options nic_eth" "ni_index nic_lo = 1" "ni_index nic_eth = 2"
    by (simp_all add: nic_accepts_def example_group_options_def nic_lo_def nic_eth_def)
  show ?thesis
    using m
    by (simp add: observing_group_def group_watch_def for_each_monitor_instance_def group_start_def Let_def new_nic_group_def
       new_nic_monitor_def nic_on_added_def nic_on_removed_def nic_start_unfold arm_netlink_def schedule_poll_def current_def
       on_nic_added_def acc make step_slot_def step_at_def upd_entry_def pending_changes_def)
qed

lemma announced_known:
  assumes "monitor_reachable new_observing m" and "map_of (mon_watches m) (service_type example_info) \<noteq> None"
    and "mon_partial m = []" and "mon_live m = []" and "mon_receives from_responder m"
  shows "\<exists>m'. monitor_step (Mev_packet from_responder example_packet) 1000000 m = Some m' \<and>
    service_name example_info \<in> rs_instance_name ` set (services m')"
proof -
  let ?n = "service_name example_info" and ?from = "rm_sender from_responder"
  have w6: "inet_pton_width 16 (\<lambda>_. None)" by (simp add: inet_pton_width_def)
  obtain recs where w: "walk_dns_frame example_packet ?from = Some recs"
    using walk_response [OF example_announceable w6, of Type_ptr default_service_options "0xFFFFFFFF" ?from]
    by (auto simp: example_packet_def split: prod.splits)
  obtain l l' m' where m': "monitor_step (Mev_packet from_responder example_packet) 1000000 m = Some m'"
    "m' = mon_put_loop l' (handled ?from 1000000 recs (mon_put_loop l m))"
    using monitor_receives [OF assms(5) w] by blast
  have "resolved ?n (announced_service (\<lambda>_. None) example_info) (handled ?from 1000000 recs (mon_put_loop l m))"
    using announcement_resolves [OF example_announceable w6, of "mon_put_loop l m" default_service_options "0xFFFFFFFF" ?from 1000000]
      assms(2-4) example_ipv4 w by (simp add: example_packet_def)
  then have "?n \<in> keys (mon_live m')" using map_of_keys [of "mon_live m'" ?n] by (simp add: m'(2) resolved_def)
  moreover have "mon_ok m'"
    using monitor_reachable_steps [OF monitor_next [OF assms(1) _ m'(1)] new_monitor_ok [OF default_sane]] by simp
  ultimately show ?thesis using m'(1) names_live [of m'] by (auto simp: mon_ok_def)
qed


section \<open>The group composed at run time\<close>

fun no_peers :: "peer_options \<Rightarrow> bool" where
  "no_peers (Monitor_options os) = (os = [])"
| "no_peers (Server_options os) = (os = [])"
| "no_peers (Observer_options os) = (os = [])"

lemma create_none: "list_all no_peers pos \<Longrightarrow> create_instances_for_nic pos so now g = Some (map (\<lambda>_. []) pos, g)"
proof (induction pos)
  case (Cons po pos)
  then show ?case by (cases po) simp_all
qed simp

definition bare :: "nic_group \<Rightarrow> bool" where
  "bare g \<longleftrightarrow> list_all no_peers (g_peer_opts g) \<and>
     list_all (\<lambda>(k, slot). slot_instances slot = map (\<lambda>_. []) (g_peer_opts g)) (g_instances g)"

lemma bare_seed: "seed_nics xs now g = Some g' \<Longrightarrow> bare g \<Longrightarrow> bare g'"
proof (induction xs arbitrary: g)
  case (Cons nic xs)
  then obtain h where h: "on_nic_added nic now g = Some h" "seed_nics xs now h = Some g'" by (auto simp: bind_eq_Some_conv)
  have "bare h" using h(1) Cons.prems(2) by (auto simp: bare_def on_nic_added_def create_none split: if_splits)
  then show ?case by (rule Cons.IH [OF h(2)])
qed simp

lemma bare_services: "bare g \<Longrightarrow> group_services g = []"
proof -
  assume b: "bare g"
  have "slot_monitors g slot = []" if "(k, slot) \<in> set (g_instances g)" for k slot
    using b that peer_index_Some [of "g_peer_opts g"] by (auto simp: bare_def slot_monitors_def list_all_iff split: option.split)
  then have "collect_per_interface g = []" by (auto simp: collect_per_interface_def)
  then show ?thesis by (simp add: group_services_def collect_merged_def)
qed

text \<open>
  C20: restarting a dynamic group. After a dynamic group was started and stopped, starting it again
  creates no peer on any interface, and it reports no service: the first start has moved the options
  out of the builder and left its optionals set, but empty.
\<close>

theorem dynamic_restart_loses_peers:
  assumes "dyn_start env moved initial bound now d = Some (d', old)" and "selected_peers d \<noteq> []"
    and "dyn_start env' moved' initial' bound' now' (dyn_stop d') = Some (d'', old')"
  shows "\<exists>g. d_impl d'' = Some g \<and> \<not> g_stopped g \<and> list_all (\<lambda>(k, slot). concat (slot_instances slot) = []) (g_instances g) \<and> dyn_services d'' = []"
proof -
  have "d_monitor_opts d' = map_option (\<lambda>_. []) (d_monitor_opts d)" "d_server_opts d' = map_option (\<lambda>_. []) (d_server_opts d)"
    "d_observer_opts d' = map_option (\<lambda>_. []) (d_observer_opts d)"
    using assms(1,2) by (auto simp: dyn_start_def Let_def bind_eq_Some_conv)
  then have sel: "list_all no_peers (selected_peers (dyn_stop d'))" "selected_peers (dyn_stop d') \<noteq> []"
    using assms(2) by (auto simp: selected_peers_def dyn_stop_def split: option.splits)
  let ?g = "new_nic_group env' (d_grp_opts (dyn_stop d')) (selected_peers (dyn_stop d')) initial'"
  obtain g where g: "group_start bound' now' ?g = Some g" "d_impl d'' = Some g"
    using assms(3) sel(2) by (auto simp: dyn_start_def Let_def bind_eq_Some_conv)
  let ?h = "?g\<lparr>g_stopped := False, g_callbacks := g_alive ?g, g_monitor := nic_start bound' now' (nic_on_removed (nic_on_added (g_monitor ?g)))\<rparr>"
  have s: "seed_nics (current (g_monitor ?h)) now' ?h = Some g" using g(1) by (simp add: group_start_def Let_def)
  have b: "bare g" using bare_seed [OF s] sel(1) by (simp add: bare_def new_nic_group_def)
  have "g_stopped g = g_stopped ?h" using core_eqD(5) seed_nics_slots [OF s] by blast
  moreover have "list_all (\<lambda>(k, slot). concat (slot_instances slot) = []) (g_instances g)"
    using b by (auto simp: bare_def list_all_iff)
  ultimately show ?thesis using g(2) bare_services [OF b] by (simp add: dyn_services_def)
qed

theorem dynamic_restart_loses_peers_witness:
  "\<exists>d' d'' g g' m. dyn_start example_group_env (\<lambda>opts. opts) (Some [nic_eth]) True 0
      (dyn_monitor [example_monitor_options] (new_dynamic_group example_group_options)) = Some (d', []) \<and>
    d_impl d' = Some g \<and> g_instances g = [(2, \<lparr>slot_nic = nic_eth, slot_instances = [[Monitor_peer m]]\<rparr>)] \<and>
    dyn_start example_group_env (\<lambda>opts. opts) (Some [nic_eth]) True 1 (dyn_stop d') = Some (d'', [retire (Monitor_peer m)]) \<and>
    d_impl d'' = Some g' \<and> map fst (g_instances g') = [2] \<and> list_all (\<lambda>(k, slot). concat (slot_instances slot) = []) (g_instances g')"
proof -
  let ?d = "dyn_monitor [example_monitor_options] (new_dynamic_group example_group_options)"
  let ?start = "dyn_start example_group_env (\<lambda>opts. opts) (Some [nic_eth]) True"
  obtain d' d'' g g' m where d: "?start 0 ?d = Some (d', [])"
    "d_impl d' = Some g" "g_instances g = [(2, \<lparr>slot_nic = nic_eth, slot_instances = [[Monitor_peer m]]\<rparr>)]"
    "?start 1 (dyn_stop d') = Some (d'', [retire (Monitor_peer m)])" "d_impl d'' = Some g'" "map fst (g_instances g') = [2]"
    by (simp add: dyn_start_def dyn_monitor_def new_dynamic_group_def selected_peers_def dyn_stop_def group_stop_def stop_all_instances_def
        stop_instance_tuple_def nic_stop_def stop_native_backend_def monitor_start_eval example_monitor_options_def example_group_options_def nic_eth_def)
  moreover have "selected_peers ?d \<noteq> []" by (simp add: selected_peers_def dyn_monitor_def)
  ultimately show ?thesis using dynamic_restart_loses_peers [OF d(1) _ d(4)] by auto
qed

end
