(* ===== verification/Querier.thy ===== *)
theory Querier
  imports Server_Match Recv_Loop
begin

text \<open>
  \<open>basic_querier.h\<close> and \<open>basic_observer.h\<close>: the one-shot query with duplicate question suppression, and
  the passive listener. As in the server, effects are appended to an output list, continuations are
  values, and \<open>None\<close> stands for a failed assertion or an undefined access.
\<close>

section \<open>The querier\<close>

datatype query_effect =
    Q_sent endpoint bytes
  | Q_error int string
  | Q_record endpoint mdns_record_variant
  | Q_done "mdns_record_variant list"

record querier =
  q_send :: "endpoint \<Rightarrow> bytes \<Rightarrow> int option"
  q_multicast_ep :: endpoint
  q_mdns_opts :: mdns_options
  q_stopped :: bool
  q_alive :: bool
  q_loop :: "recv_loop option"
  q_duplicate_seen :: bool
  q_query_sent :: bool
  q_query_type :: dns_type
  q_query_mode :: response_mode
  q_silence_timeout :: int
  q_delay_timer :: "unit inproc_timer"
  q_query_name :: dns_name
  q_on_error :: bool
  q_on_record :: bool
  q_on_completion :: bool
  q_results :: "mdns_record_variant list"
  q_rng :: "nat \<Rightarrow> nat"
  q_posted :: nat
  q_out :: "query_effect list"

text \<open>\<open>query_options\<close>: the timeout of \<open>silence\<close> and whether a record callback is set.\<close>

record query_options =
  opt_on_record :: bool
  opt_silence_timeout :: int

definition default_query_options :: query_options where
  "default_query_options = \<lparr>opt_on_record = False, opt_silence_timeout = 3000\<rparr>"

definition new_querier ::
  "(endpoint \<Rightarrow> bytes \<Rightarrow> int option) \<Rightarrow> endpoint \<Rightarrow> query_options \<Rightarrow> mdns_options \<Rightarrow> bool \<Rightarrow> (nat \<Rightarrow> nat) \<Rightarrow> querier" where
  "new_querier send_fn mcast opts mopts on_error rng =
     \<lparr>q_send = send_fn, q_multicast_ep = mcast, q_mdns_opts = mopts, q_stopped = False, q_alive = True, q_loop = None,
      q_duplicate_seen = False, q_query_sent = False, q_query_type = Type_none, q_query_mode = Multicast,
      q_silence_timeout = opt_silence_timeout opts, q_delay_timer = new_timer, q_query_name = empty_name,
      q_on_error = on_error, q_on_record = opt_on_record opts, q_on_completion = False, q_results = [], q_rng = rng,
      q_posted = 0, q_out = []\<rparr>"

definition q_emit :: "query_effect \<Rightarrow> querier \<Rightarrow> querier" where
  "q_emit e s = s\<lparr>q_out := q_out s @ [e]\<rparr>"

definition init_query_state :: "string \<Rightarrow> dns_type \<Rightarrow> response_mode \<Rightarrow> querier \<Rightarrow> querier" where
  "init_query_state qname qtype mode s =
     s\<lparr>q_results := [], q_query_name := dns_name qname, q_query_type := qtype, q_query_mode := mode,
       q_duplicate_seen := False, q_query_sent := False\<rparr>"

definition send_query :: "querier \<Rightarrow> querier" where
  "send_query s =
     (let query_bytes = build_dns_query (str (q_query_name s)) (q_query_type s) (q_query_mode s);
          s = q_emit (Q_sent (q_multicast_ep s) query_bytes) s;
          s = (case q_send s (q_multicast_ep s) query_bytes of
                 Some ec \<Rightarrow> if q_on_error s then q_emit (Q_error ec ''query send'') s else s
               | None \<Rightarrow> s)
      in s\<lparr>q_query_sent := True\<rparr>)"

fun duplicate_loop :: "nat \<Rightarrow> bytes \<Rightarrow> nat \<Rightarrow> dns_type \<Rightarrow> dns_name \<Rightarrow> bool option" where
  "duplicate_loop 0 cdata offset qtype qname = Some False"
| "duplicate_loop (Suc n) cdata offset qtype qname = do {
     let name_start = offset;
     (ok, offset) \<leftarrow> skip_dns_name cdata offset;
     (if \<not> ok then Some False
      else if offset + 4 > length cdata then Some False
      else do {
        q_ty \<leftarrow> read_u16_be cdata offset;
        q_cl \<leftarrow> read_u16_be cdata (offset + 2);
        let is_qm = (q_cl AND 0x8000 = 0);
        let type_match = (q_ty = type_underlying qtype);
        (if type_match \<and> is_qm then do {
           incoming \<leftarrow> read_dns_name cdata name_start;
           (case incoming of
              Inr name \<Rightarrow> if qname = dns_name name then Some True else duplicate_loop n cdata (offset + 4) qtype qname
            | Inl _ \<Rightarrow> duplicate_loop n cdata (offset + 4) qtype qname)
         } else duplicate_loop n cdata (offset + 4) qtype qname)
      })
   }"

definition check_duplicate_question :: "bytes \<Rightarrow> querier \<Rightarrow> bool option" where
  "check_duplicate_question cdata s =
     (if q_query_sent s \<or> q_query_mode s \<noteq> Multicast \<or> length cdata < 12 then Some False
      else do {
        flags \<leftarrow> read_u16_be cdata 2;
        (if flags AND 0x8000 \<noteq> 0 then Some False
         else do {
           qdcount \<leftarrow> read_u16_be cdata 4;
           duplicate_loop (unat qdcount) cdata 12 (q_query_type s) (q_query_name s)
         })
      })"

definition process_response_packet :: "endpoint \<Rightarrow> bytes \<Rightarrow> querier \<Rightarrow> (querier \<times> bool) option" where
  "process_response_packet sender cdata s = do {
     batch \<leftarrow> walk_dns_frame cdata sender;
     let relevant = list_ex (\<lambda>r. variant_name r = q_query_name s) batch;
     Some (if relevant then
             (let s = (if q_on_record s then foldl (\<lambda>s r. q_emit (Q_record sender r) s) s batch else s)
              in s\<lparr>q_results := q_results s @ batch\<rparr>)
           else s, relevant)
   }"

definition q_complete :: "querier \<Rightarrow> querier" where
  "q_complete s = (if q_on_completion s then q_emit (Q_done (q_results s)) (s\<lparr>q_on_completion := False\<rparr>) else s)"

definition fire_completion :: "querier \<Rightarrow> querier" where
  "fire_completion s = q_complete (s\<lparr>q_loop := map_option stop_loop (q_loop s)\<rparr>)"

definition querier_on_packet :: "recv_metadata \<Rightarrow> bytes \<Rightarrow> int \<Rightarrow> querier \<Rightarrow> (querier \<times> bool) option" where
  "querier_on_packet meta data now s =
     (if q_stopped s then Some (s, False)
      else do {
        dup \<leftarrow> check_duplicate_question data s;
        let s = (if dup then s\<lparr>q_duplicate_seen := True, q_delay_timer := fst (cancel (q_delay_timer s))\<rparr> else s);
        process_response_packet (rm_sender meta) data s
      })"

definition create_recv_loop :: "querier \<Rightarrow> querier" where
  "create_recv_loop s =
     s\<lparr>q_loop := Some (new_loop (q_silence_timeout s) (receive_ttl_minimum (q_mdns_opts s)) (unknown_ttl_policy (q_mdns_opts s)))\<rparr>"

definition start_unicast_query :: "int \<Rightarrow> querier \<Rightarrow> querier" where
  "start_unicast_query now s = (let s = send_query s in s\<lparr>q_loop := map_option (start_loop now) (q_loop s)\<rparr>)"

definition q_uniform_int :: "int \<Rightarrow> int \<Rightarrow> querier \<Rightarrow> (int \<times> querier) option" where
  "q_uniform_int lo hi s =
     (if hi < lo then None
      else Some (lo + int (q_rng s 0) mod (hi - lo + 1), s\<lparr>q_rng := (\<lambda>n. q_rng s (Suc n))\<rparr>))"

definition start_multicast_query :: "int \<Rightarrow> querier \<Rightarrow> querier option" where
  "start_multicast_query now s = do {
     let s = s\<lparr>q_loop := map_option (start_loop now) (q_loop s)\<rparr>;
     (d, s) \<leftarrow> q_uniform_int (sint (word_of_int (response_delay_min (q_mdns_opts s)) :: u32))
       (sint (word_of_int (response_delay_max (q_mdns_opts s)) :: u32)) s;
     Some (s\<lparr>q_delay_timer := arm now d () (q_delay_timer s)\<rparr>)
   }"

definition do_query :: "string \<Rightarrow> dns_type \<Rightarrow> response_mode \<Rightarrow> int \<Rightarrow> querier \<Rightarrow> querier option" where
  "do_query qname qtype mode now s =
     (if q_loop s \<noteq> None then None
      else
        (let s = create_recv_loop (init_query_state qname qtype mode s)
         in if mode = Unicast then Some (start_unicast_query now s) else start_multicast_query now s))"

definition async_query :: "string \<Rightarrow> dns_type \<Rightarrow> bool \<Rightarrow> response_mode \<Rightarrow> int \<Rightarrow> querier \<Rightarrow> querier option" where
  "async_query name qtype on_done mode now s =
     (if q_loop s \<noteq> None then None
      else
        (let s = (if on_done then s\<lparr>q_on_completion := True\<rparr> else s)
         in do_query name qtype mode now s))"

text \<open>\<open>basic_mdns_peer_base::stop\<close>; the posted task is the teardown.\<close>

definition stop_querier :: "querier \<Rightarrow> querier" where
  "stop_querier s = (if q_stopped s then s else s\<lparr>q_stopped := True, q_posted := q_posted s + 1\<rparr>)"

definition teardown_querier :: "querier \<Rightarrow> querier" where
  "teardown_querier s =
     (if \<not> q_alive s then s
      else
        (let s = s\<lparr>q_delay_timer := fst (cancel (q_delay_timer s))\<rparr>
         in if q_loop s \<noteq> None then q_complete (s\<lparr>q_loop := map_option stop_loop (q_loop s)\<rparr>) else s))"

definition run_posted_querier :: "querier \<Rightarrow> querier" where
  "run_posted_querier s = (if q_posted s = 0 then s else teardown_querier (s\<lparr>q_posted := q_posted s - 1\<rparr>))"

text \<open>The destructor; destroying the members stops the loop and deregisters the timer.\<close>

definition destroy_querier :: "querier \<Rightarrow> querier" where
  "destroy_querier s =
     (let s = stop_querier (s\<lparr>q_alive := False\<rparr>)
      in s\<lparr>q_delay_timer := new_timer, q_loop := map_option stop_loop (q_loop s)\<rparr>)"

definition fire_delay_timer :: "int \<Rightarrow> querier \<Rightarrow> querier" where
  "fire_delay_timer now s =
     (let (t, w) = try_fire now (q_delay_timer s);
          s = s\<lparr>q_delay_timer := t\<rparr>
      in case w of None \<Rightarrow> s | Some _ \<Rightarrow> if q_duplicate_seen s then s else send_query s)"

definition q_get_loop :: "querier \<Rightarrow> recv_loop" where
  "q_get_loop s = the (q_loop s)"

definition q_put_loop :: "recv_loop \<Rightarrow> querier \<Rightarrow> querier" where
  "q_put_loop l s = s\<lparr>q_loop := Some l\<rparr>"

datatype querier_event =
    Qev_query string dns_type bool response_mode
  | Qev_stop
  | Qev_posted
  | Qev_delay_timer
  | Qev_silence
  | Qev_packet recv_metadata bytes
  | Qev_destroy

fun querier_step :: "querier_event \<Rightarrow> int \<Rightarrow> querier \<Rightarrow> querier option" where
  "querier_step (Qev_query name qtype on_done mode) now s = async_query name qtype on_done mode now s"
| "querier_step Qev_stop now s = Some (stop_querier s)"
| "querier_step Qev_posted now s = Some (run_posted_querier s)"
| "querier_step Qev_delay_timer now s = Some (fire_delay_timer now s)"
| "querier_step Qev_silence now s =
     (if q_loop s = None then Some s else Some (silence q_get_loop q_put_loop fire_completion now s))"
| "querier_step (Qev_packet meta data) now s =
     (if q_loop s = None then Some s else receive q_get_loop q_put_loop querier_on_packet meta data now s)"
| "querier_step Qev_destroy now s = Some (destroy_querier s)"

section \<open>Totality\<close>

lemma duplicate_loop_total: "duplicate_loop n data off qtype qname \<noteq> None"
proof (induction n arbitrary: off)
  case (Suc n)
  show ?case
  proof (cases rule: skip_dns_name_cases [of data off])
    case (ok off')
    show ?thesis
    proof (cases "off' + 4 > length data")
      case False
      obtain qt qc where rd: "read_u16_be data off' = Some qt" "read_u16_be data (off' + 2) = Some qc"
        using False u16.rd_some [of off' data] u16.rd_some [of "off' + 2" data] by fastforce
      obtain r where "read_dns_name data off = Some r" using read_dns_name_range by blast
      with ok(1) False rd Suc.IH show ?thesis by (simp add: Let_def ex_bool_eq split: sum.split)
    qed (simp add: ok ex_bool_eq)
  qed (simp add: ex_bool_eq)
qed (simp add: ex_bool_eq)

lemma check_duplicate_total: "check_duplicate_question data s \<noteq> None"
proof (cases "length data < 12")
  case False
  obtain f q where "read_u16_be data 2 = Some f" "read_u16_be data 4 = Some q"
    using False u16.rd_some [of 2 data] u16.rd_some [of 4 data] by fastforce
  then show ?thesis using duplicate_loop_total by (simp add: check_duplicate_question_def ex_bool_eq)
qed (simp add: check_duplicate_question_def ex_bool_eq)

section \<open>The duplicate question test\<close>

definition same_question :: "dns_type \<Rightarrow> dns_name \<Rightarrow> question \<Rightarrow> bool" where
  "same_question qtype qname q \<longleftrightarrow>
     q_type q = type_underlying qtype \<and> q_class q AND 0x8000 = 0 \<and> dns_name (q_name q) = qname"

lemma duplicate_loop_questions:
  assumes "list_all (\<lambda>q. wf_name (q_name q)) qs" and "holds_at data off (concat (map question_bytes qs))"
  shows "duplicate_loop (length qs) data off qtype qname = Some (list_ex (same_question qtype qname) qs)"
  using assms
proof (induction qs arbitrary: off)
  case (Cons q qs)
  have at: "holds_at data off (question_bytes q)" "holds_at data (off + length (question_bytes q)) (concat (map question_bytes qs))"
    using Cons.prems by (simp_all add: holds_at_append)
  have wf: "wf_name (q_name q)" "list_all (\<lambda>q. wf_name (q_name q)) qs" using Cons.prems by simp_all
  have e: "off + length (encode_dns_name (q_name q)) + 4 = off + length (question_bytes q)"
    by (simp add: question_bytes_def)
  have "duplicate_loop (length qs) data (off + length (encode_dns_name (q_name q)) + 4) qtype qname
      = Some (list_ex (same_question qtype qname) qs)"
    unfolding e by (rule Cons.IH [OF wf(2) at(2)])
  with question_at [OF wf(1) at(1)] show ?case by (auto simp: Let_def same_question_def [of qtype qname q])
qed simp

lemma check_duplicate_message:
  assumes "valid_message m" and "msg_flags m AND 0x8000 = 0" and "\<not> q_query_sent s" and "q_query_mode s = Multicast"
  shows "check_duplicate_question (message_bytes m) s
    = Some (list_ex (same_question (q_query_type s) (q_query_name s)) (msg_questions m))"
proof -
  have n: "length (msg_questions m) < 65536" "list_all (\<lambda>q. wf_name (q_name q)) (msg_questions m)"
    using assms(1) by (simp_all add: valid_message_def)
  have "holds_at (message_bytes m) 0 (message_bytes m)" by simp
  then have "holds_at (message_bytes m) 12 (concat (map question_bytes (msg_questions m)))"
    by (simp add: message_bytes_def holds_at_append)
  from duplicate_loop_questions [OF n(2) this] show ?thesis
    using message_header(1,2,6) [OF assms(1), of "[]"] assms(2-4)
    by (simp add: check_duplicate_question_def unat_count [OF n(1)])
qed

section \<open>Invariant\<close>

fun q_is_done :: "query_effect \<Rightarrow> bool" where
  "q_is_done (Q_done rs) = True"
| "q_is_done _ = False"

fun q_sent_of :: "query_effect \<Rightarrow> (endpoint \<times> bytes) list" where
  "q_sent_of (Q_sent ep p) = [(ep, p)]"
| "q_sent_of _ = []"

fun q_record_of :: "query_effect \<Rightarrow> mdns_record_variant list" where
  "q_record_of (Q_record ep r) = [r]"
| "q_record_of _ = []"

definition q_sent_packets :: "querier \<Rightarrow> (endpoint \<times> bytes) list" where
  "q_sent_packets s = concat (map q_sent_of (q_out s))"

definition q_delivered :: "querier \<Rightarrow> mdns_record_variant list" where
  "q_delivered s = concat (map q_record_of (q_out s))"

definition query_packet :: "querier \<Rightarrow> bytes" where
  "query_packet s = build_dns_query (str (q_query_name s)) (q_query_type s) (q_query_mode s)"

definition q_dones :: "querier \<Rightarrow> query_effect list" where
  "q_dones s = filter q_is_done (q_out s)"

definition q_ready :: "querier \<Rightarrow> bool" where
  "q_ready s \<longleftrightarrow> q_out s = [] \<and> \<not> q_on_completion s \<and> t_handler (q_delay_timer s) = None"

definition q_running :: "querier \<Rightarrow> recv_loop \<Rightarrow> bool" where
  "q_running s l \<longleftrightarrow>
     (q_dones s = [] \<or> q_dones s = [Q_done (q_results s)] \<and> \<not> q_on_completion s \<and> loop_stopped l) \<and>
     q_sent_packets s = (if q_query_sent s then [(q_multicast_ep s, query_packet s)] else []) \<and>
     (t_handler (q_delay_timer s) \<noteq> None \<longrightarrow> \<not> q_query_sent s \<and> \<not> q_duplicate_seen s) \<and>
     (q_on_record s \<longrightarrow> q_delivered s = q_results s)"

lemma q_emit_sels [simp]:
  "q_sent_packets (q_emit e s) = q_sent_packets s @ q_sent_of e" "q_delivered (q_emit e s) = q_delivered s @ q_record_of e"
  "q_dones (q_emit e s) = q_dones s @ (if q_is_done e then [e] else [])"
  "q_loop (q_emit e s) = q_loop s" "q_on_completion (q_emit e s) = q_on_completion s"
  "q_results (q_emit e s) = q_results s" "q_query_sent (q_emit e s) = q_query_sent s" "q_delay_timer (q_emit e s) = q_delay_timer s"
  "q_duplicate_seen (q_emit e s) = q_duplicate_seen s" "q_on_record (q_emit e s) = q_on_record s"
  "q_multicast_ep (q_emit e s) = q_multicast_ep s" "q_query_name (q_emit e s) = q_query_name s"
  "q_query_type (q_emit e s) = q_query_type s" "q_query_mode (q_emit e s) = q_query_mode s" "q_stopped (q_emit e s) = q_stopped s"
  "q_on_error (q_emit e s) = q_on_error s" "q_send (q_emit e s) = q_send s" "q_mdns_opts (q_emit e s) = q_mdns_opts s"
  "q_silence_timeout (q_emit e s) = q_silence_timeout s" "query_packet (q_emit e s) = query_packet s"
  by (simp_all add: q_emit_def q_sent_packets_def q_delivered_def q_dones_def query_packet_def)

text \<open>The views of the output after an update of another member.\<close>

lemma q_views_update [simp]:
  "q_sent_packets (s\<lparr>q_loop := x0\<rparr>) = q_sent_packets s" "q_sent_packets (s\<lparr>q_results := x1\<rparr>) = q_sent_packets s" "q_sent_packets (s\<lparr>q_on_completion := x2\<rparr>) = q_sent_packets s" "q_sent_packets (s\<lparr>q_query_sent := x3\<rparr>) = q_sent_packets s" "q_sent_packets (s\<lparr>q_delay_timer := x4\<rparr>) = q_sent_packets s" "q_sent_packets (s\<lparr>q_duplicate_seen := x5\<rparr>) = q_sent_packets s" "q_sent_packets (s\<lparr>q_stopped := x6\<rparr>) = q_sent_packets s" "q_sent_packets (s\<lparr>q_alive := x7\<rparr>) = q_sent_packets s" "q_sent_packets (s\<lparr>q_rng := x8\<rparr>) = q_sent_packets s" "q_sent_packets (s\<lparr>q_posted := x9\<rparr>) = q_sent_packets s"
  "q_delivered (s\<lparr>q_loop := x0\<rparr>) = q_delivered s" "q_delivered (s\<lparr>q_results := x1\<rparr>) = q_delivered s" "q_delivered (s\<lparr>q_on_completion := x2\<rparr>) = q_delivered s" "q_delivered (s\<lparr>q_query_sent := x3\<rparr>) = q_delivered s" "q_delivered (s\<lparr>q_delay_timer := x4\<rparr>) = q_delivered s" "q_delivered (s\<lparr>q_duplicate_seen := x5\<rparr>) = q_delivered s" "q_delivered (s\<lparr>q_stopped := x6\<rparr>) = q_delivered s" "q_delivered (s\<lparr>q_alive := x7\<rparr>) = q_delivered s" "q_delivered (s\<lparr>q_rng := x8\<rparr>) = q_delivered s" "q_delivered (s\<lparr>q_posted := x9\<rparr>) = q_delivered s"
  "q_dones (s\<lparr>q_loop := x0\<rparr>) = q_dones s" "q_dones (s\<lparr>q_results := x1\<rparr>) = q_dones s" "q_dones (s\<lparr>q_on_completion := x2\<rparr>) = q_dones s" "q_dones (s\<lparr>q_query_sent := x3\<rparr>) = q_dones s" "q_dones (s\<lparr>q_delay_timer := x4\<rparr>) = q_dones s" "q_dones (s\<lparr>q_duplicate_seen := x5\<rparr>) = q_dones s" "q_dones (s\<lparr>q_stopped := x6\<rparr>) = q_dones s" "q_dones (s\<lparr>q_alive := x7\<rparr>) = q_dones s" "q_dones (s\<lparr>q_rng := x8\<rparr>) = q_dones s" "q_dones (s\<lparr>q_posted := x9\<rparr>) = q_dones s"
  "query_packet (s\<lparr>q_loop := x0\<rparr>) = query_packet s" "query_packet (s\<lparr>q_results := x1\<rparr>) = query_packet s" "query_packet (s\<lparr>q_on_completion := x2\<rparr>) = query_packet s" "query_packet (s\<lparr>q_query_sent := x3\<rparr>) = query_packet s" "query_packet (s\<lparr>q_delay_timer := x4\<rparr>) = query_packet s" "query_packet (s\<lparr>q_duplicate_seen := x5\<rparr>) = query_packet s" "query_packet (s\<lparr>q_stopped := x6\<rparr>) = query_packet s" "query_packet (s\<lparr>q_alive := x7\<rparr>) = query_packet s" "query_packet (s\<lparr>q_rng := x8\<rparr>) = query_packet s" "query_packet (s\<lparr>q_posted := x9\<rparr>) = query_packet s"
  "query_packet (s\<lparr>q_out := es\<rparr>) = query_packet s"
  by (simp_all add: q_sent_packets_def q_delivered_def q_dones_def query_packet_def)

lemma send_query_views:
  "q_sent_packets (send_query s) = q_sent_packets s @ [(q_multicast_ep s, query_packet s)]"
  "q_delivered (send_query s) = q_delivered s" "q_dones (send_query s) = q_dones s"
  by (simp_all add: send_query_def Let_def split: option.split) (simp_all add: query_packet_def)

lemma send_query_sels [simp]:
  "q_loop (send_query s) = q_loop s" "q_on_completion (send_query s) = q_on_completion s" "q_results (send_query s) = q_results s"
  "q_query_sent (send_query s)" "q_delay_timer (send_query s) = q_delay_timer s" "q_duplicate_seen (send_query s) = q_duplicate_seen s"
  "q_on_record (send_query s) = q_on_record s" "q_multicast_ep (send_query s) = q_multicast_ep s"
  "q_stopped (send_query s) = q_stopped s" "query_packet (send_query s) = query_packet s"
  by (simp_all add: send_query_def Let_def query_packet_def split: option.split)

lemma send_query_running:
  assumes "q_running s l" and "\<not> q_query_sent s" and "t_handler (q_delay_timer s) = None"
  shows "q_running (send_query s) l"
  using assms by (auto simp: q_running_def send_query_views)

lemma deliver_batch: "foldl (\<lambda>s r. q_emit (Q_record sender r) s) s batch = s\<lparr>q_out := q_out s @ map (Q_record sender) batch\<rparr>"
  by (induction batch arbitrary: s) (simp_all add: q_emit_def)

lemma batch_views:
  "q_sent_packets (s\<lparr>q_out := q_out s @ map (Q_record sender) batch\<rparr>) = q_sent_packets s"
  "q_delivered (s\<lparr>q_out := q_out s @ map (Q_record sender) batch\<rparr>) = q_delivered s @ batch"
  "q_dones (s\<lparr>q_out := q_out s @ map (Q_record sender) batch\<rparr>) = q_dones s"
  by (induction batch rule: rev_induct) (simp_all add: q_sent_packets_def q_delivered_def q_dones_def)

lemma process_result:
  assumes "process_response_packet sender data s = Some (s', rel)"
  shows "\<exists>batch. walk_dns_frame data sender = Some batch \<and> rel = list_ex (\<lambda>r. variant_name r = q_query_name s) batch \<and>
    s' = (if rel then s\<lparr>q_out := q_out s @ (if q_on_record s then map (Q_record sender) batch else []),
                       q_results := q_results s @ batch\<rparr> else s)"
proof -
  obtain batch where w: "walk_dns_frame data sender = Some batch"
    using assms by (cases "walk_dns_frame data sender") (simp_all add: process_response_packet_def)
  have "rel = list_ex (\<lambda>r. variant_name r = q_query_name s) batch"
    "s' = (if rel then s\<lparr>q_out := q_out s @ (if q_on_record s then map (Q_record sender) batch else []),
       q_results := q_results s @ batch\<rparr> else s)"
    using assms by (auto simp: process_response_packet_def w Let_def deliver_batch)
  with w show ?thesis by blast
qed

lemma process_running:
  assumes "q_running s l" and "\<not> loop_stopped l" and "process_response_packet sender data s = Some (s', rel)"
  shows "q_running s' l \<and> q_loop s' = q_loop s \<and> q_stopped s' = q_stopped s"
proof -
  obtain batch where s': "s' = (if rel then s\<lparr>q_out := q_out s @ (if q_on_record s then map (Q_record sender) batch else []),
      q_results := q_results s @ batch\<rparr> else s)"
    using process_result [OF assms(3)] by blast
  show ?thesis
    using assms(1,2) s' by (cases "q_on_record s") (auto simp: q_running_def batch_views)
qed

lemma complete_running:
  assumes "q_running s l" and "loop_stopped l"
  shows "q_running (q_complete s) l \<and> q_loop (q_complete s) = q_loop s"
  using assms by (auto simp: q_running_def q_complete_def)

section \<open>Steps keep the invariant\<close>

definition delays_sane :: "mdns_options \<Rightarrow> bool" where
  "delays_sane mopts \<longleftrightarrow>
     sint (word_of_int (response_delay_min mopts) :: u32) \<le> sint (word_of_int (response_delay_max mopts) :: u32)"

definition looping :: "querier \<Rightarrow> bool" where
  "looping s \<longleftrightarrow> (\<exists>l. q_loop s = Some l \<and> q_running s l)"

definition querier_ok :: "querier \<Rightarrow> bool" where
  "querier_ok s \<longleftrightarrow> q_ready s \<and> q_loop s = None \<or> looping s"

lemma running_updates [simp]:
  "q_running (s\<lparr>q_loop := x\<rparr>) l = q_running s l" "q_running (s\<lparr>q_stopped := b\<rparr>) l = q_running s l"
  "q_running (s\<lparr>q_posted := n\<rparr>) l = q_running s l" "q_running (s\<lparr>q_alive := b\<rparr>) l = q_running s l"
  by (simp_all add: q_running_def)

lemma running_loop: "q_running s l \<Longrightarrow> (loop_stopped l \<Longrightarrow> loop_stopped l') \<Longrightarrow> q_running s l'"
  by (auto simp: q_running_def)

lemma running_timer_none: "q_running s l \<Longrightarrow> t_handler t = None \<Longrightarrow> q_running (s\<lparr>q_delay_timer := t\<rparr>) l"
  by (simp add: q_running_def)

lemma fire_completion_looping:
  assumes "looping s"
  shows "looping (fire_completion s)"
proof -
  obtain l where l: "q_loop s = Some l" "q_running s l" using assms by (auto simp: looping_def)
  let ?s = "s\<lparr>q_loop := Some (stop_loop l)\<rparr>"
  have "q_running ?s (stop_loop l)" using l(2) by (auto intro: running_loop)
  from complete_running [OF this] l show ?thesis by (auto simp: looping_def fire_completion_def)
qed

interpretation querier_loop: loop_client q_get_loop q_put_loop querier_on_packet looping
proof
  show "q_get_loop (q_put_loop l s) = l" for l s by (simp add: q_get_loop_def q_put_loop_def)
  show "looping (q_put_loop l s)" if "looping s" "loop_stopped l = loop_stopped (q_get_loop s)" for s l
    using that by (auto simp: looping_def q_put_loop_def q_get_loop_def intro: running_loop)
  show "querier_on_packet meta data now s \<noteq> None" for meta data now s
  proof -
    obtain b where "check_duplicate_question data s = Some b" using check_duplicate_total by blast
    moreover obtain recs where "walk_dns_frame data (rm_sender meta) = Some recs" using walk_dns_frame_range by blast
    ultimately show ?thesis by (simp add: querier_on_packet_def process_response_packet_def Let_def ex_bool_eq)
  qed
  show "looping s'" if s: "looping s" "\<not> loop_stopped (q_get_loop s)" and p: "querier_on_packet meta data now s = Some (s', rel)"
    for s s' meta data now rel
  proof (cases "q_stopped s")
    case True
    with that show ?thesis by (simp add: querier_on_packet_def)
  next
    case False
    obtain l where l: "q_loop s = Some l" "q_running s l" "\<not> loop_stopped l" using s by (auto simp: looping_def q_get_loop_def)
    let ?u = "s\<lparr>q_duplicate_seen := True, q_delay_timer := fst (cancel (q_delay_timer s))\<rparr>"
    have "q_running ?u l" using l(2) by (simp add: q_running_def timer_simps)
    moreover obtain t where "t = s \<or> t = ?u" "process_response_packet (rm_sender meta) data t = Some (s', rel)"
      using p False by (auto simp: querier_on_packet_def Let_def bind_eq_Some_conv split: if_splits)
    ultimately show ?thesis using process_running [of _ l "rm_sender meta" data s' rel] l by (auto simp: looping_def)
  qed
qed

lemma async_query_ok:
  assumes "q_ready s" and "q_loop s = None" and "delays_sane (q_mdns_opts s)"
  shows "\<exists>s'. async_query name qtype on_done mode now s = Some s' \<and> looping s'"
proof -
  let ?l = "new_loop (q_silence_timeout s) (receive_ttl_minimum (q_mdns_opts s)) (unknown_ttl_policy (q_mdns_opts s))"
  define t where "t = create_recv_loop (init_query_state name qtype mode (if on_done then s\<lparr>q_on_completion := True\<rparr> else s))"
  have t: "q_loop t = Some ?l" "q_out t = []" "\<not> q_query_sent t" "\<not> q_duplicate_seen t" "t_handler (q_delay_timer t) = None"
    "q_results t = []" "q_mdns_opts t = q_mdns_opts s"
    using assms(1) by (simp_all add: t_def create_recv_loop_def init_query_state_def q_ready_def)
  then have run: "q_running t l" for l
    by (simp add: q_running_def q_dones_def q_sent_packets_def q_delivered_def)
  have eq: "async_query name qtype on_done mode now s
      = (if mode = Unicast then Some (start_unicast_query now t) else start_multicast_query now t)"
    using assms(2) by (simp add: async_query_def do_query_def t_def Let_def)
  show ?thesis
  proof (cases "mode = Unicast")
    case True
    have "q_running (send_query t) (start_loop now ?l)" by (rule send_query_running [OF run t(3,5)])
    then have "looping (start_unicast_query now t)" using t(1) by (simp add: start_unicast_query_def Let_def looping_def)
    then show ?thesis unfolding eq if_P [OF True] by simp
  next
    case False
    have le: "\<not> sint (word_of_int (response_delay_max (q_mdns_opts s)) :: u32) < sint (word_of_int (response_delay_min (q_mdns_opts s)) :: u32)"
      using assms(3) by (simp add: delays_sane_def)
    have "q_running (t\<lparr>q_loop := x, q_rng := g, q_delay_timer := tm\<rparr>) l" for x g tm l
      using run [of l] t(3,4) by (simp add: q_running_def)
    then show ?thesis
      using False t(1,7) le by (simp add: eq start_multicast_query_def Let_def q_uniform_int_def looping_def)
  qed
qed

lemma querier_posted_ok:
  assumes "querier_ok s"
  shows "querier_ok (run_posted_querier s)"
proof (cases "looping s")
  case True
  then obtain l where l: "q_loop s = Some l" "q_running s l" by (auto simp: looping_def)
  let ?u = "s\<lparr>q_posted := q_posted s - 1, q_delay_timer := fst (cancel (q_delay_timer s)), q_loop := Some (stop_loop l)\<rparr>"
  have "q_running ?u (stop_loop l)"
    using l(2) by (auto simp: timer_simps intro!: running_timer_none intro: running_loop)
  from complete_running [OF this] l show ?thesis
    by (auto simp: run_posted_querier_def teardown_querier_def Let_def querier_ok_def looping_def)
next
  case False
  with assms show ?thesis
    by (auto simp: run_posted_querier_def teardown_querier_def Let_def querier_ok_def q_ready_def timer_simps)
qed

lemma fire_delay_ok:
  assumes "querier_ok s"
  shows "querier_ok (fire_delay_timer now s)"
proof -
  obtain t w where f: "try_fire now (q_delay_timer s) = (t, w)" by fastforce
  show ?thesis
  proof (cases w)
    case None
    then show ?thesis using assms f inproc.fire_none [of now "q_delay_timer s" t] by (simp add: fire_delay_timer_def Let_def)
  next
    case (Some u)
    then have h: "t_handler (q_delay_timer s) = Some u" "t_handler t = None"
      using inproc.fire_some [of now "q_delay_timer s" t u] f by simp_all
    then obtain l where l: "q_loop s = Some l" "q_running s l" using assms by (auto simp: querier_ok_def looping_def q_ready_def)
    have n: "\<not> q_query_sent s" "\<not> q_duplicate_seen s" using l(2) h by (simp_all add: q_running_def)
    have "q_running (send_query (s\<lparr>q_delay_timer := t\<rparr>)) l"
      using l(2) h n by (intro send_query_running running_timer_none) simp_all
    then show ?thesis using l n f Some by (simp add: fire_delay_timer_def Let_def querier_ok_def looping_def)
  qed
qed

lemma stop_querier_ok: "querier_ok s \<Longrightarrow> querier_ok (stop_querier s)"
  by (auto simp: stop_querier_def querier_ok_def looping_def q_ready_def)

fun querier_event_ok :: "querier_event \<Rightarrow> querier \<Rightarrow> bool" where
  "querier_event_ok (Qev_query name qtype on_done mode) s \<longleftrightarrow> q_loop s = None \<and> delays_sane (q_mdns_opts s)"
| "querier_event_ok _ s \<longleftrightarrow> True"

lemma querier_step_ok:
  assumes ok: "querier_ok s" and "querier_event_ok ev s"
  shows "\<exists>s'. querier_step ev now s = Some s' \<and> querier_ok s'"
proof (cases ev)
  case (Qev_query name qtype on_done mode)
  with assms async_query_ok [of s name qtype on_done mode now] show ?thesis by (auto simp: querier_ok_def looping_def)
next
  case Qev_silence
  with ok show ?thesis
    by (auto simp: querier_ok_def looping_def [of s] intro!: querier_loop.silence_safe fire_completion_looping)
next
  case (Qev_packet meta data)
  then show ?thesis using ok querier_loop.receive_safe [of s meta data now] by (auto simp: querier_ok_def)
next
  case Qev_destroy
  let ?t = "stop_querier (s\<lparr>q_alive := False\<rparr>)"
  show ?thesis
  proof (cases "q_loop s")
    case None
    with ok have "q_ready s" by (auto simp: querier_ok_def looping_def)
    with None Qev_destroy show ?thesis
      by (auto simp: destroy_querier_def stop_querier_def Let_def querier_ok_def q_ready_def new_timer_def)
  next
    case (Some l)
    with ok have "q_running s l" by (auto simp: querier_ok_def looping_def)
    then have "q_running ?t (stop_loop l)" by (auto simp: stop_querier_def intro: running_loop)
    then have "q_running (?t\<lparr>q_delay_timer := new_timer\<rparr>) (stop_loop l)" by (rule running_timer_none) (simp add: new_timer_def)
    moreover have "q_loop ?t = Some l" using Some by (simp add: stop_querier_def)
    ultimately show ?thesis using Qev_destroy by (simp add: destroy_querier_def Let_def querier_ok_def looping_def)
  qed
qed (simp_all add: querier_posted_ok fire_delay_ok stop_querier_ok ok)

section \<open>Reachable states\<close>

inductive querier_reachable :: "querier \<Rightarrow> querier \<Rightarrow> bool" for s0 where
  querier_init: "querier_reachable s0 s0"
| querier_next: "querier_reachable s0 s \<Longrightarrow> querier_event_ok ev s \<Longrightarrow> querier_step ev now s = Some s' \<Longrightarrow> querier_reachable s0 s'"

lemma querier_reachable_ok: "querier_reachable s0 s \<Longrightarrow> querier_ok s0 \<Longrightarrow> querier_ok s"
proof (induction rule: querier_reachable.induct)
  case (querier_next s ev now s')
  with querier_step_ok [of s ev now] show ?case by auto
qed

lemma new_querier_ok: "querier_ok (new_querier snd_fn mcast opts mopts on_error rng)"
  by (simp add: querier_ok_def q_ready_def new_querier_def new_timer_def)

text \<open>Once a duplicate question has suppressed the query it is never sent.\<close>

definition suppressed :: "querier \<Rightarrow> bool" where
  "suppressed s \<longleftrightarrow> looping s \<and> q_duplicate_seen s \<and> \<not> q_query_sent s"

definition keeps_query :: "querier \<Rightarrow> querier \<Rightarrow> bool" where
  "keeps_query s s' \<longleftrightarrow>
     (q_duplicate_seen s \<longrightarrow> q_duplicate_seen s') \<and> q_query_sent s' = q_query_sent s"

lemma keepsqI: "q_duplicate_seen s' = q_duplicate_seen s \<Longrightarrow> q_query_sent s' = q_query_sent s \<Longrightarrow> keeps_query s s'"
  by (simp add: keeps_query_def)

lemma q_complete_keeps: "keeps_query s (q_complete s)"
  by (auto simp: q_complete_def intro!: keepsqI)

lemma fire_completion_keeps: "keeps_query s (fire_completion s)"
  using q_complete_keeps [of "s\<lparr>q_loop := map_option stop_loop (q_loop s)\<rparr>"] by (simp add: fire_completion_def keeps_query_def)

interpretation querier_keeps: loop_evolution q_get_loop q_put_loop querier_on_packet keeps_query
proof
  show "keeps_query s (q_put_loop l s)" for s l by (auto simp: q_put_loop_def intro!: keepsqI)
  show "keeps_query s s'" if p: "querier_on_packet meta data now s = Some (s', rel)" for meta data now s s' rel
  proof -
    let ?u = "s\<lparr>q_duplicate_seen := True, q_delay_timer := fst (cancel (q_delay_timer s))\<rparr>"
    have *: "keeps_query t s'" if "process_response_packet (rm_sender meta) data t = Some (s', rel)" for t
      using process_result [OF that] by (auto intro!: keepsqI)
    show ?thesis
    proof (cases "q_stopped s")
      case True
      with p show ?thesis by (simp add: querier_on_packet_def keeps_query_def)
    next
      case False
      then obtain t where t: "t = s \<or> t = ?u" "process_response_packet (rm_sender meta) data t = Some (s', rel)"
        using p by (auto simp: querier_on_packet_def Let_def bind_eq_Some_conv split: if_splits)
      with * [OF t(2)] show ?thesis by (auto simp: keeps_query_def)
    qed
  qed
qed (auto simp: keeps_query_def)

lemma stop_querier_sels:
  "q_loop (stop_querier s) = q_loop s" "q_duplicate_seen (stop_querier s) = q_duplicate_seen s"
  "q_query_sent (stop_querier s) = q_query_sent s" "q_out (stop_querier s) = q_out s" "q_stopped (stop_querier s)"
  by (simp_all add: stop_querier_def)

lemma suppressed_step:
  assumes "suppressed s" and "querier_event_ok ev s" and "querier_step ev now s = Some s'"
  shows "suppressed s'"
proof -
  have ok: "querier_ok s'" using querier_step_ok [of s ev now] assms by (auto simp: suppressed_def querier_ok_def)
  obtain l where l: "q_loop s = Some l" "q_running s l" "q_duplicate_seen s" "\<not> q_query_sent s"
    using assms(1) by (auto simp: suppressed_def looping_def)
  have none: "t_handler (q_delay_timer s) = None"
    using l by (cases "t_handler (q_delay_timer s)") (auto simp: q_running_def)
  have "q_loop s' \<noteq> None \<and> keeps_query s s'"
  proof (cases ev)
    case (Qev_query name qtype on_done mode)
    with assms(2) l show ?thesis by simp
  next
    case Qev_silence
    then have s': "s' = silence q_get_loop q_put_loop fire_completion now s" using assms(3) l by simp
    have "looping s'" unfolding s'
      using assms(1) by (intro querier_loop.silence_safe) (auto simp: suppressed_def fire_completion_looping)
    then show ?thesis
      using querier_keeps.silence_evolves [OF fire_completion_keeps] by (auto simp: s' looping_def)
  next
    case (Qev_packet meta data)
    then have s': "receive q_get_loop q_put_loop querier_on_packet meta data now s = Some s'" using assms(3) l by simp
    then show ?thesis
      using querier_keeps.receive_evolves [OF s'] querier_loop.receive_safe [of s meta data now] assms(1)
      by (auto simp: suppressed_def looping_def)
  next
    case Qev_delay_timer
    have "fire_delay_timer now s = s" using none by (simp add: fire_delay_timer_def try_fire_def Let_def)
    with Qev_delay_timer assms(3) l show ?thesis by (auto intro: keepsqI)
  next
    case Qev_posted
    have "keeps_query s (run_posted_querier s)"
      by (auto simp: run_posted_querier_def teardown_querier_def Let_def keeps_query_def q_complete_def)
    moreover have "q_loop (run_posted_querier s) \<noteq> None"
      using l by (auto simp: run_posted_querier_def teardown_querier_def Let_def q_complete_def)
    ultimately show ?thesis using Qev_posted assms(3) by simp
  qed (use assms(3) l in \<open>auto simp: destroy_querier_def Let_def stop_querier_sels keeps_query_def\<close>)
  then show ?thesis using ok l by (auto simp: suppressed_def querier_ok_def keeps_query_def looping_def)
qed

lemma suppressed_reachable: "querier_reachable s s' \<Longrightarrow> suppressed s \<Longrightarrow> suppressed s'"
  by (induction rule: querier_reachable.induct) (auto intro: suppressed_step)

lemma suppressed_silent: "suppressed s \<Longrightarrow> q_sent_packets s = []"
  by (auto simp: suppressed_def looping_def q_running_def)

text \<open>A packet that passes the loop's tests is handed to the querier.\<close>

definition receives :: "recv_metadata \<Rightarrow> querier \<Rightarrow> bool" where
  "receives meta s \<longleftrightarrow>
     (case q_loop s of None \<Rightarrow> False | Some l \<Rightarrow> receive_armed l \<and> \<not> loop_stopped l \<and> accepts meta l) \<and> \<not> q_stopped s"

lemma querier_receives:
  assumes "receives meta s" and "q_loop s = Some l"
    and "check_duplicate_question data s = Some dup" and "walk_dns_frame data (rm_sender meta) = Some rs"
    and "rel = list_ex (\<lambda>r. variant_name r = q_query_name s) rs"
  shows "querier_step (Qev_packet meta data) now s =
    Some (let u = (if dup then s\<lparr>q_duplicate_seen := True, q_delay_timer := fst (cancel (q_delay_timer s))\<rparr> else s);
              u = (if rel then u\<lparr>q_out := q_out u @ (if q_on_record u then map (Q_record (rm_sender meta)) rs else []),
                                 q_results := q_results u @ rs\<rparr> else u)
          in u\<lparr>q_loop := Some ((if rel then arm_silence_timer now l else l)\<lparr>receive_armed := True\<rparr>)\<rparr>)"
proof -
  have l: "receive_armed l" "\<not> loop_stopped l" "accepts meta (l\<lparr>receive_armed := False\<rparr>)" "\<not> q_stopped s"
    using assms(1,2) by (simp_all add: receives_def accepts_def split: option.splits)
  have "check_duplicate_question data (s\<lparr>q_loop := x\<rparr>) = Some dup" for x
    unfolding assms(3) [symmetric] by (simp add: check_duplicate_question_def cong: if_cong)
  with assms(2,4,5) l show ?thesis
    by (simp add: receive_def Let_def q_get_loop_def q_put_loop_def querier_on_packet_def process_response_packet_def
        deliver_batch arm_receive_def arm_silence_timer_def)
qed

section \<open>Properties\<close>

text \<open>
  C31: The life of a querier. In every state that a new querier can reach, every permitted event is
  defined, at most one query packet has been sent and it is the one for the given name, type and
  mode, the completion handler has been called at most once and then with all results, and the
  records passed to the record callback are exactly the results.
\<close>

theorem querier_lifecycle:
  assumes "querier_reachable (new_querier send_fn mcast opts mopts on_error rng) s"
  shows "(querier_event_ok ev s \<longrightarrow> querier_step ev now s \<noteq> None) \<and>
    (q_sent_packets s = [] \<or> q_sent_packets s = [(q_multicast_ep s, query_packet s)]) \<and>
    (q_dones s = [] \<or> q_dones s = [Q_done (q_results s)]) \<and>
    (q_on_record s \<and> q_loop s \<noteq> None \<longrightarrow> q_delivered s = q_results s)"
proof -
  have ok: "querier_ok s" using querier_reachable_ok [OF assms new_querier_ok] .
  then have "querier_event_ok ev s \<longrightarrow> querier_step ev now s \<noteq> None" using querier_step_ok by fastforce
  moreover have "(q_sent_packets s = [] \<or> q_sent_packets s = [(q_multicast_ep s, query_packet s)]) \<and>
    (q_dones s = [] \<or> q_dones s = [Q_done (q_results s)]) \<and> (q_on_record s \<and> q_loop s \<noteq> None \<longrightarrow> q_delivered s = q_results s)"
    using ok by (auto simp: querier_ok_def looping_def q_ready_def q_running_def q_sent_packets_def q_dones_def split: if_splits)
  ultimately show ?thesis by blast
qed

definition example_querier :: querier where
  "example_querier = new_querier (\<lambda>_ _. None) \<lparr>ep_address = ''224.0.0.251'', ep_port = 5353\<rparr> default_query_options
     default_mdns_options True (\<lambda>n. n)"

text \<open>
  Duplicate question suppression. When a running querier that has not sent its question yet
  receives another host's multicast query with the same question, then no later event makes it send
  the question.
\<close>

lemma duplicate_question_suppressed:
  assumes "querier_reachable (new_querier send_fn mcast opts mopts on_error rng) s" and "receives meta s"
    and "\<not> q_query_sent s" and "q_query_mode s = Multicast"
    and "valid_message m" and "msg_flags m AND 0x8000 = 0"
    and "list_ex (same_question (q_query_type s) (q_query_name s)) (msg_questions m)"
  shows "\<exists>s'. querier_step (Qev_packet meta (message_bytes m)) now s = Some s' \<and>
    (\<forall>s2. querier_reachable s' s2 \<longrightarrow> q_sent_packets s2 = [])"
proof -
  obtain l where l: "q_loop s = Some l" using assms(2) by (auto simp: receives_def split: option.splits)
  obtain rs where rs: "walk_dns_frame (message_bytes m) (rm_sender meta) = Some rs" using walk_dns_frame_range by blast
  have dup: "check_duplicate_question (message_bytes m) s = Some True"
    using check_duplicate_message [OF assms(5,6,3,4)] assms(7) by simp
  obtain s' where s': "querier_step (Qev_packet meta (message_bytes m)) now s = Some s'" "querier_ok s'"
    using querier_step_ok [of s "Qev_packet meta (message_bytes m)" now] querier_reachable_ok [OF assms(1) new_querier_ok] by auto
  have "q_duplicate_seen (the (Some s'))" "\<not> q_query_sent (the (Some s'))" "q_loop (the (Some s')) \<noteq> None"
    unfolding s'(1) [symmetric] querier_receives [OF assms(2) l dup rs refl] using assms(3) by (simp_all add: Let_def)
  then have "suppressed s'" using s'(2) by (auto simp: suppressed_def querier_ok_def)
  with s'(1) suppressed_reachable suppressed_silent show ?thesis by blast
qed

text \<open>
  C32: Collecting answers. A received frame that holds a record of the asked name adds all its records
  to the results, in order, and restarts the silence timer; any other frame changes neither. When
  the silence timeout then passes, the completion handler gets exactly the results and the
  loop stops.
\<close>

theorem query_collects:
  assumes "querier_reachable (new_querier send_fn mcast opts mopts on_error rng) s" and "receives meta s"
    and "q_loop s = Some l" and "walk_dns_frame data (rm_sender meta) = Some rs"
    and "now + silence_timeout l * 1000000 \<le> later"
  shows "\<exists>s'. querier_step (Qev_packet meta data) now s = Some s' \<and>
    (if list_ex (\<lambda>r. variant_name r = q_query_name s) rs
     then q_results s' = q_results s @ rs \<and>
       (q_on_completion s \<longrightarrow>
          (\<exists>s2 l2. querier_step Qev_silence later s' = Some s2 \<and> q_dones s2 = [Q_done (q_results s @ rs)] \<and>
            q_loop s2 = Some l2 \<and> loop_stopped l2))
     else q_results s' = q_results s \<and> map_option loop_timer (q_loop s') = Some (loop_timer l))"
proof -
  let ?rel = "list_ex (\<lambda>r. variant_name r = q_query_name s) rs"
  obtain dup where dup: "check_duplicate_question data s = Some dup" using check_duplicate_total by blast
  obtain s' where s': "querier_step (Qev_packet meta data) now s = Some s'" "querier_ok s'"
    using querier_step_ok [of s "Qev_packet meta data" now] querier_reachable_ok [OF assms(1) new_querier_ok] by auto
  define l' where "l' = (if ?rel then arm_silence_timer now l else l)\<lparr>receive_armed := True\<rparr>"
  have "q_results (the (Some s')) = q_results s @ (if ?rel then rs else [])"
    "q_on_completion (the (Some s')) = q_on_completion s" "q_loop (the (Some s')) = Some l'"
    unfolding s'(1) [symmetric] querier_receives [OF assms(2,3) dup assms(4) refl] by (simp_all add: Let_def l'_def)
  then have res: "q_results s' = q_results s @ (if ?rel then rs else [])" "q_on_completion s' = q_on_completion s" "q_loop s' = Some l'"
    by simp_all
  have "\<not> loop_stopped l'" using assms(2,3) by (simp add: l'_def receives_def arm_silence_timer_def)
  then have none: "q_dones s' = []" using s'(2) res(3) by (auto simp: querier_ok_def looping_def q_running_def)
  show ?thesis
  proof (cases ?rel)
    case True
    then have "snd (try_fire later (loop_timer l')) = Some ()"
      using inproc.fire_armed [OF assms(5), of "()" "loop_timer l"] by (simp add: l'_def arm_silence_timer_def)
    then obtain t where t: "try_fire later (loop_timer l') = (t, Some ())" by (metis prod.collapse)
    have fire: "querier_step Qev_silence later s' = Some (fire_completion (q_put_loop (l'\<lparr>loop_timer := t\<rparr>) s'))"
      using res(3) t \<open>\<not> loop_stopped l'\<close> by (simp add: silence_def q_get_loop_def q_put_loop_def)
    have "q_on_completion s \<Longrightarrow> \<exists>s2 l2. querier_step Qev_silence later s' = Some s2 \<and>
        q_dones s2 = [Q_done (q_results s @ rs)] \<and> q_loop s2 = Some l2 \<and> loop_stopped l2"
      using fire none res True by (auto simp: fire_completion_def q_complete_def q_put_loop_def)
    with s'(1) res(1) True show ?thesis by simp
  qed (use s'(1) res in \<open>auto simp: l'_def\<close>)
qed

section \<open>A running example\<close>

definition asking_querier :: querier where
  "asking_querier = the (async_query ''a.local.'' Type_a True Multicast 0 example_querier)"

lemma asking_step: "querier_step (Qev_query ''a.local.'' Type_a True Multicast) 0 example_querier = Some asking_querier"
  by (simp add: asking_querier_def async_query_def do_query_def start_multicast_query_def q_uniform_int_def create_recv_loop_def
      init_query_state_def example_querier_def new_querier_def default_mdns_options_def Let_def)

lemma asking_reachable:
  "querier_reachable (new_querier (\<lambda>_ _. None) \<lparr>ep_address = ''224.0.0.251'', ep_port = 5353\<rparr> default_query_options
     default_mdns_options True (\<lambda>n. n)) asking_querier"
  by (rule querier_next [OF querier_init _ asking_step [unfolded example_querier_def]])
    (simp add: delays_sane_def new_querier_def default_mdns_options_def)

definition any_packet :: recv_metadata where
  "any_packet = \<lparr>rm_sender = \<lparr>ep_address = ''192.168.1.7'', ep_port = 5353\<rparr>, rm_ttl = None, rm_ifindex = 0\<rparr>"

definition same_query :: dns_message where
  "same_query = query_message 0 ''a.local.'' Type_a Multicast []"

theorem querier_lifecycle_witness:
  "\<exists>s1. querier_step Qev_delay_timer 120000000 asking_querier = Some s1 \<and>
    q_sent_packets s1 = [(q_multicast_ep s1, query_packet s1)] \<and> (q_dones s1 = [] \<or> q_dones s1 = [Q_done (q_results s1)])"
proof -
  let ?s1 = "fire_delay_timer 120000000 asking_querier"
  have step: "querier_step Qev_delay_timer 120000000 asking_querier = Some ?s1" by simp
  have "querier_reachable (new_querier (\<lambda>_ _. None) \<lparr>ep_address = ''224.0.0.251'', ep_port = 5353\<rparr> default_query_options
      default_mdns_options True (\<lambda>n. n)) ?s1"
    by (rule querier_next [OF asking_reachable _ step]) simp
  note life = querier_lifecycle [OF this]
  have "q_sent_packets ?s1 \<noteq> []"
    by (simp add: asking_querier_def async_query_def do_query_def start_multicast_query_def q_uniform_int_def
      create_recv_loop_def init_query_state_def example_querier_def new_querier_def default_mdns_options_def Let_def
      fire_delay_timer_def send_query_def q_emit_def q_sent_packets_def try_fire_def arm_def async_wait_def expires_after_def new_timer_def)
  then show ?thesis using life step by blast
qed

lemma asking_sels:
  "\<not> q_query_sent asking_querier" "q_query_mode asking_querier = Multicast" "q_query_type asking_querier = Type_a"
  "q_query_name asking_querier = dns_name ''a.local.''" "\<not> q_stopped asking_querier" "q_results asking_querier = []"
  "q_on_completion asking_querier"
  by (simp_all add: asking_querier_def async_query_def do_query_def start_multicast_query_def q_uniform_int_def
      create_recv_loop_def init_query_state_def example_querier_def new_querier_def default_mdns_options_def Let_def)

lemma asking_loop: "q_loop asking_querier = Some (start_loop 0 (new_loop 3000 255 Accept))"
  by (simp add: asking_querier_def async_query_def do_query_def start_multicast_query_def q_uniform_int_def
      create_recv_loop_def init_query_state_def example_querier_def new_querier_def default_mdns_options_def Let_def
      default_query_options_def)

lemma asking_receives: "receives any_packet asking_querier"
  by (simp add: receives_def asking_sels asking_loop start_loop_def arm_receive_def arm_silence_timer_def new_loop_def
      accepts_def any_packet_def)

lemma duplicate_question_suppressed_example:
  "\<exists>s'. querier_step (Qev_packet any_packet (message_bytes same_query)) 0 asking_querier = Some s' \<and>
    (\<forall>s2. querier_reachable s' s2 \<longrightarrow> q_sent_packets s2 = [])"
proof -
  have "wf_name ''a.local.''" by code_simp
  then show ?thesis
    by (intro duplicate_question_suppressed [OF asking_reachable asking_receives])
      (simp_all add: asking_sels same_query_def query_message_def valid_message_def msg_records_def same_question_def)
qed

text \<open>A response with two address records, the first of which is for the asked name.\<close>

definition answer_message :: dns_message where
  "answer_message =
     \<lparr>msg_id = 0, msg_flags = 0x8400, msg_questions = [],
      msg_answers = [\<lparr>rr_owner = ''a.local.'', rr_flush = True, rr_ttl = 120, rr_data = RD_a 10 0 0 1\<rparr>,
                     \<lparr>rr_owner = ''b.local.'', rr_flush = True, rr_ttl = 120, rr_data = RD_a 10 0 0 2\<rparr>],
      msg_authority = [], msg_additional = []\<rparr>"

lemma answer_walk:
  "\<exists>x y. walk_dns_frame (message_bytes answer_message) sender = Some [x, y] \<and> variant_name x = dns_name ''a.local.''"
proof -
  have "wf_name ''a.local.''" "wf_name ''b.local.''" by code_simp+
  then have "valid_message answer_message" by (simp add: valid_message_def answer_message_def msg_records_def valid_rr_def)
  from walk_message [OF this, of "[]" sender] show ?thesis
    by (simp add: answer_message_def msg_records_def rr_decoded_def map_filter_simps rr_base_def record_base.defs variant_name_def)
qed

theorem query_collects_witness:
  "\<exists>x y s' s2 l2. walk_dns_frame (message_bytes answer_message) (rm_sender any_packet) = Some [x, y] \<and>
    querier_step (Qev_packet any_packet (message_bytes answer_message)) 2000000000 asking_querier = Some s' \<and> q_results s' = [x, y] \<and>
    querier_step Qev_silence 5000000000 s' = Some s2 \<and> q_dones s2 = [Q_done [x, y]] \<and> q_loop s2 = Some l2 \<and> loop_stopped l2"
proof -
  obtain x y where w: "walk_dns_frame (message_bytes answer_message) (rm_sender any_packet) = Some [x, y]" "variant_name x = dns_name ''a.local.''"
    using answer_walk by blast
  have "2000000000 + silence_timeout (start_loop 0 (new_loop 3000 255 Accept)) * 1000000 \<le> 5000000000"
    by (simp add: start_loop_def arm_receive_def arm_silence_timer_def new_loop_def)
  from query_collects [OF asking_reachable asking_receives asking_loop w(1) this] w show ?thesis
    by (auto simp: asking_sels)
qed

end
