(* ===== verification/Discovery.thy ===== *)
theory Discovery
  imports Resolved_Service Server_Match Recv_Loop
begin

text \<open>
  \<open>basic_service_discovery.h\<close>: discovering, browsing and enumerating services. Each operation has a
  receive loop of its own, but the three loops share the peer's timer and socket, so the loops
  are modelled together: the wait of the shared timer and the pending receive of the shared socket
  name the operation whose loop installed them. The timeout and the TTL limits are the same for all
  loops; what is left of a loop is whether it exists and its stop flag.
\<close>

section \<open>The discovery\<close>

datatype disc_op = Discover | Browse | Enumerate

datatype disc_effect =
    D_sent endpoint bytes
  | D_error int string
  | D_record endpoint mdns_record_variant
  | D_discovered "mdns_record_variant list"
  | D_browsed "resolved_service list"
  | D_enumerated "service_type_info list"

record discovery =
  d_inet_pton6 :: "string \<Rightarrow> bytes option"
  d_send :: "endpoint \<Rightarrow> bytes \<Rightarrow> int option"
  d_multicast_ep :: endpoint
  d_mdns_opts :: mdns_options
  d_stopped :: bool
  d_alive :: bool
  d_silence_timeout :: int
  d_service_type :: dns_name
  d_on_error :: bool
  d_on_record :: bool
  d_handler :: "disc_op \<Rightarrow> bool"
  d_loop :: "disc_op \<Rightarrow> bool option"
  d_timer :: "disc_op inproc_timer"
  d_receiver :: "disc_op option"
  d_socket_open :: bool
  d_results :: "mdns_record_variant list"
  d_services :: "resolved_service list"
  d_enumerated_types :: "service_type_info list"
  d_posted :: nat
  d_out :: "disc_effect list"

definition new_discovery ::
  "(string \<Rightarrow> bytes option) \<Rightarrow> (endpoint \<Rightarrow> bytes \<Rightarrow> int option) \<Rightarrow> endpoint \<Rightarrow> int \<Rightarrow> bool \<Rightarrow> mdns_options \<Rightarrow> bool \<Rightarrow> discovery" where
  "new_discovery inet_pton6 send_fn mcast timeout on_record mopts on_error =
     \<lparr>d_inet_pton6 = inet_pton6, d_send = send_fn, d_multicast_ep = mcast, d_mdns_opts = mopts, d_stopped = False, d_alive = True,
      d_silence_timeout = timeout, d_service_type = empty_name, d_on_error = on_error, d_on_record = on_record,
      d_handler = (\<lambda>_. False), d_loop = (\<lambda>_. None), d_timer = new_timer, d_receiver = None, d_socket_open = True,
      d_results = [], d_services = [], d_enumerated_types = [], d_posted = 0, d_out = []\<rparr>"

definition d_emit :: "disc_effect \<Rightarrow> discovery \<Rightarrow> discovery" where
  "d_emit e s = s\<lparr>d_out := d_out s @ [e]\<rparr>"

text \<open>The members of \<open>recv_loop\<close> on the shared timer and socket.\<close>

definition d_arm_silence_timer :: "int \<Rightarrow> disc_op \<Rightarrow> discovery \<Rightarrow> discovery" where
  "d_arm_silence_timer now op s = s\<lparr>d_timer := arm now (d_silence_timeout s) op (d_timer s)\<rparr>"

definition d_arm_receive :: "disc_op \<Rightarrow> discovery \<Rightarrow> discovery" where
  "d_arm_receive op s = (if d_loop s op = Some True then s else s\<lparr>d_receiver := Some op\<rparr>)"

definition d_start_loop :: "int \<Rightarrow> disc_op \<Rightarrow> discovery \<Rightarrow> discovery" where
  "d_start_loop now op s = d_arm_receive op (d_arm_silence_timer now op s)"

definition d_stop_loop :: "disc_op \<Rightarrow> discovery \<Rightarrow> discovery" where
  "d_stop_loop op s =
     (if d_loop s op = Some True then s
      else s\<lparr>d_loop := (d_loop s)(op \<mapsto> True), d_timer := fst (cancel (d_timer s)), d_socket_open := False\<rparr>)"

definition d_accepts :: "recv_metadata \<Rightarrow> discovery \<Rightarrow> bool" where
  "d_accepts meta s =
     (case rm_ttl meta of
        Some ttl \<Rightarrow> \<not> (ucast ttl :: u32) < receive_ttl_minimum (d_mdns_opts s)
      | None \<Rightarrow> unknown_ttl_policy (d_mdns_opts s) \<noteq> Reject)"

text \<open>The send of a query, with the report of a failure.\<close>

definition d_send_query :: "bytes \<Rightarrow> string \<Rightarrow> discovery \<Rightarrow> discovery" where
  "d_send_query query_bytes what s =
     (let s = d_emit (D_sent (d_multicast_ep s) query_bytes) s
      in case d_send s (d_multicast_ep s) query_bytes of
           Some ec \<Rightarrow> if d_on_error s then d_emit (D_error ec what) s else s
         | None \<Rightarrow> s)"

text \<open>The packet handler of \<open>do_query\<close>.\<close>

definition query_on_packet :: "endpoint \<Rightarrow> bytes \<Rightarrow> discovery \<Rightarrow> (discovery \<times> bool) option" where
  "query_on_packet sender data s = do {
     batch \<leftarrow> walk_dns_frame data sender;
     let relevant = list_ex (\<lambda>r. variant_name r = d_service_type s) batch;
     Some (if relevant then
             (let s = (if d_on_record s then foldl (\<lambda>s r. d_emit (D_record sender r) s) s batch else s)
              in s\<lparr>d_results := d_results s @ batch\<rparr>)
           else s, relevant)
   }"

text \<open>The packet handler of \<open>do_enumerate\<close>: the body of its callback, then the walk.\<close>

definition note_type :: "mdns_record_variant \<Rightarrow> discovery \<times> bool \<Rightarrow> discovery \<times> bool" where
  "note_type rec sf =
     (case sf of (s, found) \<Rightarrow>
       (case rec of
          Rec_ptr ptr \<Rightarrow>
            if rec_name ptr = dns_name ''_services._dns-sd._udp.local.''
            then
              (let info = parse_service_type (str (ptr_name ptr));
                   dup = list_ex (\<lambda>t. sti_service_type t = sti_service_type info) (d_enumerated_types s)
               in (if \<not> dup then s\<lparr>d_enumerated_types := d_enumerated_types s @ [info]\<rparr> else s, True))
            else (s, found)
        | _ \<Rightarrow> (s, found)))"

definition enumerate_on_packet :: "endpoint \<Rightarrow> bytes \<Rightarrow> discovery \<Rightarrow> (discovery \<times> bool) option" where
  "enumerate_on_packet sender data s = do {
     recs \<leftarrow> walk_dns_frame data sender;
     Some (fold note_type recs (s, False))
   }"

text \<open>The completion of an operation: the completion handler, if any, gets what was collected.\<close>

fun completion :: "disc_op \<Rightarrow> discovery \<Rightarrow> disc_effect" where
  "completion Discover s = D_discovered (d_results s)"
| "completion Browse s = D_browsed (d_services s)"
| "completion Enumerate s = D_enumerated (d_enumerated_types s)"

definition d_complete :: "disc_op \<Rightarrow> discovery \<Rightarrow> discovery" where
  "d_complete op s =
     (if d_handler s op then d_emit (completion op s) (s\<lparr>d_handler := (d_handler s)(op := False)\<rparr>) else s)"

text \<open>The silence handlers, which are also the three parts of the teardown.\<close>

definition d_finish :: "disc_op \<Rightarrow> discovery \<Rightarrow> discovery" where
  "d_finish op s =
     (let s = d_stop_loop op s;
          s = (if op = Browse then s\<lparr>d_services := aggregate (d_results s)\<rparr> else s)
      in d_complete op s)"

definition d_do_query :: "disc_op \<Rightarrow> string \<Rightarrow> response_mode \<Rightarrow> int \<Rightarrow> discovery \<Rightarrow> discovery option" where
  "d_do_query op svc_type mode now s = do {
     let s = s\<lparr>d_results := [], d_service_type := dns_name svc_type\<rparr>;
     query_bytes \<leftarrow> build_dns_query_known (d_inet_pton6 s) (str (d_service_type s)) Type_ptr (d_results s) mode;
     let s = d_send_query query_bytes ''query send'' s;
     let s = s\<lparr>d_loop := (d_loop s)(op \<mapsto> False)\<rparr>;
     Some (d_start_loop now op s)
   }"

definition async_discover :: "string \<Rightarrow> bool \<Rightarrow> response_mode \<Rightarrow> int \<Rightarrow> discovery \<Rightarrow> discovery option" where
  "async_discover svc_type on_done mode now s =
     (if d_loop s Discover \<noteq> None then None
      else
        (let s = (if on_done then s\<lparr>d_handler := (d_handler s)(Discover := True)\<rparr> else s)
         in d_do_query Discover svc_type mode now s))"

definition async_browse :: "string \<Rightarrow> bool \<Rightarrow> response_mode \<Rightarrow> int \<Rightarrow> discovery \<Rightarrow> discovery option" where
  "async_browse svc_type on_done mode now s =
     (if d_loop s Browse \<noteq> None then None
      else
        (let s = (if on_done then s\<lparr>d_handler := (d_handler s)(Browse := True)\<rparr> else s)
         in d_do_query Browse svc_type mode now s))"

definition async_discover_subtype :: "string \<Rightarrow> string \<Rightarrow> bool \<Rightarrow> response_mode \<Rightarrow> int \<Rightarrow> discovery \<Rightarrow> discovery option" where
  "async_discover_subtype svc_type subtype_label on_done mode now s =
     (let query_name = subtype_label @ ''._sub.'' @ svc_type
      in async_discover query_name on_done mode now s)"

definition do_enumerate :: "response_mode \<Rightarrow> int \<Rightarrow> discovery \<Rightarrow> discovery" where
  "do_enumerate mode now s =
     (let s = s\<lparr>d_enumerated_types := []\<rparr>;
          query_bytes = build_dns_query ''_services._dns-sd._udp.local'' Type_ptr mode;
          s = d_send_query query_bytes ''enumerate send'' s;
          s = s\<lparr>d_loop := (d_loop s)(Enumerate \<mapsto> False)\<rparr>
      in d_start_loop now Enumerate s)"

definition async_enumerate_types :: "bool \<Rightarrow> response_mode \<Rightarrow> int \<Rightarrow> discovery \<Rightarrow> discovery option" where
  "async_enumerate_types on_done mode now s =
     (if d_loop s Enumerate \<noteq> None then None
      else
        (let s = (if on_done then s\<lparr>d_handler := (d_handler s)(Enumerate := True)\<rparr> else s)
         in Some (do_enumerate mode now s)))"

definition stop_discovery :: "discovery \<Rightarrow> discovery" where
  "stop_discovery s = (if d_stopped s then s else s\<lparr>d_stopped := True, d_posted := d_posted s + 1\<rparr>)"

definition teardown_op :: "disc_op \<Rightarrow> discovery \<Rightarrow> discovery" where
  "teardown_op op s = (if d_loop s op \<noteq> None then d_finish op s else s)"

definition teardown_discovery :: "discovery \<Rightarrow> discovery" where
  "teardown_discovery s =
     (if \<not> d_alive s then s else teardown_op Enumerate (teardown_op Browse (teardown_op Discover s)))"

definition run_posted_discovery :: "discovery \<Rightarrow> discovery" where
  "run_posted_discovery s = (if d_posted s = 0 then s else teardown_discovery (s\<lparr>d_posted := d_posted s - 1\<rparr>))"

text \<open>The destructor: the members are destroyed in reverse order, and a loop that is destroyed stops.\<close>

definition destroy_loop :: "disc_op \<Rightarrow> discovery \<Rightarrow> discovery" where
  "destroy_loop op s = (if d_loop s op \<noteq> None then d_stop_loop op s else s)"

definition destroy_discovery :: "discovery \<Rightarrow> discovery" where
  "destroy_discovery s =
     (let s = stop_discovery (s\<lparr>d_alive := False\<rparr>);
          s = destroy_loop Discover (destroy_loop Browse (destroy_loop Enumerate s))
      in s\<lparr>d_timer := new_timer, d_socket_open := False\<rparr>)"

text \<open>The silence timer of the loop that armed it last.\<close>

definition d_silence :: "int \<Rightarrow> discovery \<Rightarrow> discovery" where
  "d_silence now s =
     (let (t, fired) = try_fire now (d_timer s);
          s = s\<lparr>d_timer := t\<rparr>
      in case fired of
           None \<Rightarrow> s
         | Some op \<Rightarrow> if d_loop s op = Some True then s else d_finish op s)"

text \<open>A datagram arrives for the pending receive.\<close>

definition d_receive :: "recv_metadata \<Rightarrow> bytes \<Rightarrow> int \<Rightarrow> discovery \<Rightarrow> discovery option" where
  "d_receive meta data now s =
     (case d_receiver s of
        None \<Rightarrow> Some s
      | Some op \<Rightarrow>
          if \<not> d_socket_open s then Some s
          else
            (let s = s\<lparr>d_receiver := None\<rparr>
             in if d_loop s op = Some True then Some s
                else if \<not> d_accepts meta s then Some (d_arm_receive op s)
                else do {
                  (s, relevant) \<leftarrow> (if op = Enumerate then enumerate_on_packet (rm_sender meta) data s
                                    else query_on_packet (rm_sender meta) data s);
                  let s = (if relevant then d_arm_silence_timer now op s else s);
                  Some (d_arm_receive op s)
                }))"

datatype disc_event =
    Dev_discover string bool response_mode
  | Dev_browse string bool response_mode
  | Dev_enumerate bool response_mode
  | Dev_stop
  | Dev_posted
  | Dev_silence
  | Dev_packet recv_metadata bytes
  | Dev_destroy

fun disc_step :: "disc_event \<Rightarrow> int \<Rightarrow> discovery \<Rightarrow> discovery option" where
  "disc_step (Dev_discover svc_type on_done mode) now s = async_discover svc_type on_done mode now s"
| "disc_step (Dev_browse svc_type on_done mode) now s = async_browse svc_type on_done mode now s"
| "disc_step (Dev_enumerate on_done mode) now s = async_enumerate_types on_done mode now s"
| "disc_step Dev_stop now s = Some (stop_discovery s)"
| "disc_step Dev_posted now s = Some (run_posted_discovery s)"
| "disc_step Dev_silence now s = Some (d_silence now s)"
| "disc_step (Dev_packet meta data) now s = d_receive meta data now s"
| "disc_step Dev_destroy now s = Some (destroy_discovery s)"

section \<open>What a packet does\<close>

fun done_of :: "disc_effect \<Rightarrow> disc_op option" where
  "done_of (D_discovered _) = Some Discover"
| "done_of (D_browsed _) = Some Browse"
| "done_of (D_enumerated _) = Some Enumerate"
| "done_of _ = None"

definition completions :: "disc_op \<Rightarrow> disc_effect list \<Rightarrow> disc_effect list" where
  "completions op es = filter (\<lambda>e. done_of e = Some op) es"

lemma completions_simps [simp]:
  "completions op [] = []" "completions op (es @ fs) = completions op es @ completions op fs"
  "completions op (e # es) = (if done_of e = Some op then [e] else []) @ completions op es"
  by (simp_all add: completions_def)

lemma completions_records [simp]: "completions op (map (D_record sender) rs) = []"
  by (induction rs) simp_all

lemma done_of_completion [simp]: "done_of (completion op s) = Some op"
  by (cases op) simp_all

text \<open>The service types that a packet names, and how they are added to the list without duplicates.\<close>

definition meta_types :: "mdns_record_variant list \<Rightarrow> service_type_info list" where
  "meta_types recs = List.map_filter (\<lambda>r. case r of
     Rec_ptr p \<Rightarrow> if rec_name p = dns_name ''_services._dns-sd._udp.local.'' then Some (parse_service_type (str (ptr_name p))) else None
   | _ \<Rightarrow> None) recs"

fun add_types :: "service_type_info list \<Rightarrow> service_type_info list \<Rightarrow> service_type_info list" where
  "add_types ts [] = ts"
| "add_types ts (i # is) =
     add_types (if sti_service_type i \<in> sti_service_type ` set ts then ts else ts @ [i]) is"

lemma note_types: "fold note_type recs (s, found) =
    (s\<lparr>d_enumerated_types := add_types (d_enumerated_types s) (meta_types recs)\<rparr>, found \<or> meta_types recs \<noteq> [])"
proof (induction recs arbitrary: s found)
  case (Cons r recs)
  show ?case
  proof (cases "\<exists>p. r = Rec_ptr p \<and> rec_name p = dns_name ''_services._dns-sd._udp.local.''")
    case True
    then obtain p where p: "r = Rec_ptr p" "rec_name p = dns_name ''_services._dns-sd._udp.local.''" by blast
    let ?i = "parse_service_type (str (ptr_name p))" and ?ts = "d_enumerated_types s"
    have "list_ex (\<lambda>t. sti_service_type t = sti_service_type ?i) ?ts = (sti_service_type ?i \<in> sti_service_type ` set ?ts)"
      by (auto simp: list_ex_iff image_iff) metis
    then have "note_type r (s, found) =
        (s\<lparr>d_enumerated_types := if sti_service_type ?i \<in> sti_service_type ` set ?ts then ?ts else ?ts @ [?i]\<rparr>, True)"
      using p by (simp add: note_type_def Let_def)
    moreover have "meta_types (r # recs) = ?i # meta_types recs" using p by (simp add: meta_types_def map_filter_simps)
    ultimately show ?thesis using Cons by simp
  next
    case False
    then have "note_type r (s, found) = (s, found)" "meta_types (r # recs) = meta_types recs"
      by (auto simp: note_type_def meta_types_def map_filter_simps split: mdns_record_variant.split)
    with Cons show ?thesis by simp
  qed
qed (simp add: meta_types_def map_filter_simps)

lemma add_types_distinct: "distinct (map sti_service_type ts) \<Longrightarrow> distinct (map sti_service_type (add_types ts is))"
  by (induction ts "is" rule: add_types.induct) auto

lemma add_types_covers: "sti_service_type ` set (add_types ts is) = sti_service_type ` (set ts \<union> set is)"
  by (induction ts "is" rule: add_types.induct) auto

lemma add_types_prefix: "\<exists>new. add_types ts is = ts @ new \<and> set new \<subseteq> set is"
proof (induction ts "is" rule: add_types.induct)
  case (2 ts i "is")
  then show ?case by (cases "sti_service_type i \<in> sti_service_type ` set ts") auto
qed simp

lemma d_deliver_batch: "foldl (\<lambda>s r. d_emit (D_record sender r) s) s batch = s\<lparr>d_out := d_out s @ map (D_record sender) batch\<rparr>"
  by (induction batch arbitrary: s) (simp_all add: d_emit_def)

lemma query_on_packet_result:
  assumes "walk_dns_frame data sender = Some rs"
  shows "query_on_packet sender data s = Some
    (if list_ex (\<lambda>r. variant_name r = d_service_type s) rs
     then s\<lparr>d_out := d_out s @ (if d_on_record s then map (D_record sender) rs else []), d_results := d_results s @ rs\<rparr>
     else s, list_ex (\<lambda>r. variant_name r = d_service_type s) rs)"
  using assms by (simp add: query_on_packet_def Let_def d_deliver_batch)

lemma enumerate_on_packet_result:
  assumes "walk_dns_frame data sender = Some rs"
  shows "enumerate_on_packet sender data s =
    Some (s\<lparr>d_enumerated_types := add_types (d_enumerated_types s) (meta_types rs)\<rparr>, meta_types rs \<noteq> [])"
  using assms by (simp add: enumerate_on_packet_def note_types)

section \<open>Invariant\<close>

text \<open>
  Of an operation: its handler is called at most once, and then the handler is gone and the loop is
  stopped; a handler waits only while the operation's loop exists.
\<close>

definition op_ok :: "disc_op \<Rightarrow> discovery \<Rightarrow> bool" where
  "op_ok op s \<longleftrightarrow>
     (completions op (d_out s) = [] \<or>
       (\<exists>e. completions op (d_out s) = [e]) \<and> \<not> d_handler s op \<and> d_loop s op = Some True) \<and>
     (d_handler s op \<longrightarrow> d_loop s op \<noteq> None)"

definition disc_ok :: "discovery \<Rightarrow> bool" where
  "disc_ok s \<longleftrightarrow> (\<forall>op. op_ok op s) \<and> (\<forall>op. t_handler (d_timer s) = Some op \<longrightarrow> d_loop s op \<noteq> None) \<and>
     (\<forall>op. d_receiver s = Some op \<longrightarrow> d_loop s op \<noteq> None) \<and> distinct (map sti_service_type (d_enumerated_types s))"

lemma disc_okI:
  assumes "\<And>op. op_ok op s" and "\<And>op. t_handler (d_timer s) = Some op \<Longrightarrow> d_loop s op \<noteq> None"
    and "\<And>op. d_receiver s = Some op \<Longrightarrow> d_loop s op \<noteq> None" and "distinct (map sti_service_type (d_enumerated_types s))"
  shows "disc_ok s"
  using assms by (simp add: disc_ok_def)

lemma new_discovery_ok: "disc_ok (new_discovery p6 send_fn mcast timeout on_record mopts on_error)"
  by (simp add: disc_ok_def op_ok_def new_discovery_def new_timer_def)

fun finish_effect :: "disc_op \<Rightarrow> discovery \<Rightarrow> disc_effect" where
  "finish_effect Discover s = D_discovered (d_results s)"
| "finish_effect Browse s = D_browsed (aggregate (d_results s))"
| "finish_effect Enumerate s = D_enumerated (d_enumerated_types s)"

lemma done_of_finish [simp]: "done_of (finish_effect op s) = Some op"
  by (cases op) simp_all

lemma d_stop_loop_sels [simp]:
  "d_loop (d_stop_loop op s) = (d_loop s)(op \<mapsto> True)" "d_receiver (d_stop_loop op s) = d_receiver s"
  "d_enumerated_types (d_stop_loop op s) = d_enumerated_types s" "d_handler (d_stop_loop op s) = d_handler s"
  "d_out (d_stop_loop op s) = d_out s" "d_results (d_stop_loop op s) = d_results s" "d_alive (d_stop_loop op s) = d_alive s"
  "d_services (d_stop_loop op s) = d_services s" "d_stopped (d_stop_loop op s) = d_stopped s"
  "t_handler (d_timer (d_stop_loop op s)) = (if d_loop s op = Some True then t_handler (d_timer s) else None)"
  by (auto simp: d_stop_loop_def fun_eq_iff timer_simps)

lemma d_complete_sels [simp]:
  "d_loop (d_complete op s) = d_loop s" "d_receiver (d_complete op s) = d_receiver s"
  "d_enumerated_types (d_complete op s) = d_enumerated_types s" "d_handler (d_complete op s) = (d_handler s)(op := False)"
  "d_out (d_complete op s) = d_out s @ (if d_handler s op then [completion op s] else [])"
  "d_results (d_complete op s) = d_results s" "d_alive (d_complete op s) = d_alive s" "d_timer (d_complete op s) = d_timer s"
  "d_services (d_complete op s) = d_services s" "d_stopped (d_complete op s) = d_stopped s"
  by (auto simp: d_complete_def d_emit_def fun_eq_iff)

lemma d_finish_sels [simp]:
  "d_loop (d_finish op s) = (d_loop s)(op \<mapsto> True)" "d_receiver (d_finish op s) = d_receiver s"
  "d_enumerated_types (d_finish op s) = d_enumerated_types s" "d_handler (d_finish op s) = (d_handler s)(op := False)"
  "d_out (d_finish op s) = d_out s @ (if d_handler s op then [finish_effect op s] else [])"
  "d_results (d_finish op s) = d_results s" "d_alive (d_finish op s) = d_alive s" "d_stopped (d_finish op s) = d_stopped s"
  "t_handler (d_timer (d_finish op s)) = (if d_loop s op = Some True then t_handler (d_timer s) else None)"
  by (cases op; simp add: d_finish_def Let_def)+

lemma d_finish_ok:
  assumes "disc_ok s" and "d_loop s op \<noteq> None"
  shows "disc_ok (d_finish op s)"
proof (rule disc_okI)
  show "op_ok op' (d_finish op s)" for op'
  proof -
    have "op_ok op' s" using assms(1) by (simp add: disc_ok_def)
    with assms(2) show ?thesis by (cases "op' = op") (auto simp: op_ok_def)
  qed
qed (use assms in \<open>auto simp: disc_ok_def split: if_splits\<close>)

lemma teardown_op_ok: "disc_ok s \<Longrightarrow> disc_ok (teardown_op op s)"
  by (simp add: teardown_op_def d_finish_ok)

lemma run_posted_discovery_ok:
  assumes "disc_ok s"
  shows "disc_ok (run_posted_discovery s)"
proof -
  have "disc_ok (s\<lparr>d_posted := n\<rparr>)" for n using assms by (simp add: disc_ok_def op_ok_def)
  with assms show ?thesis by (simp add: run_posted_discovery_def teardown_discovery_def teardown_op_ok)
qed

lemma d_silence_ok:
  assumes "disc_ok s"
  shows "disc_ok (d_silence now s)"
proof -
  obtain t w where f: "try_fire now (d_timer s) = (t, w)" by fastforce
  show ?thesis
  proof (cases w)
    case None
    with f inproc.fire_none [of now "d_timer s" t] assms show ?thesis by (simp add: d_silence_def)
  next
    case (Some op)
    with f inproc.fire_some [of now "d_timer s" t op] have "t_handler (d_timer s) = Some op" "t_handler t = None" by simp_all
    with assms have "disc_ok (s\<lparr>d_timer := t\<rparr>)" "d_loop s op \<noteq> None" by (auto simp: disc_ok_def op_ok_def)
    with f Some d_finish_ok [of "s\<lparr>d_timer := t\<rparr>" op] show ?thesis by (simp add: d_silence_def Let_def)
  qed
qed

lemma d_arm_ok:
  "disc_ok s \<Longrightarrow> d_loop s op \<noteq> None \<Longrightarrow> disc_ok (d_arm_silence_timer now op s)"
  "disc_ok s \<Longrightarrow> d_loop s op \<noteq> None \<Longrightarrow> disc_ok (d_arm_receive op s)"
  by (auto simp: disc_ok_def op_ok_def d_arm_silence_timer_def d_arm_receive_def timer_simps)

lemma d_arm_sels [simp]: "d_loop (d_arm_silence_timer now op s) = d_loop s"
  by (simp add: d_arm_silence_timer_def)

text \<open>The state after the packet handler of an operation.\<close>

definition d_on_packet :: "disc_op \<Rightarrow> endpoint \<Rightarrow> mdns_record_variant list \<Rightarrow> discovery \<Rightarrow> discovery \<times> bool" where
  "d_on_packet op sender rs s =
     (if op = Enumerate
      then (s\<lparr>d_enumerated_types := add_types (d_enumerated_types s) (meta_types rs)\<rparr>, meta_types rs \<noteq> [])
      else
        (if list_ex (\<lambda>r. variant_name r = d_service_type s) rs
         then s\<lparr>d_out := d_out s @ (if d_on_record s then map (D_record sender) rs else []), d_results := d_results s @ rs\<rparr>
         else s, list_ex (\<lambda>r. variant_name r = d_service_type s) rs))"

lemma d_on_packet_ok: "disc_ok s \<Longrightarrow> disc_ok (fst (d_on_packet op sender rs s)) \<and> d_loop (fst (d_on_packet op sender rs s)) = d_loop s"
  by (auto simp: d_on_packet_def disc_ok_def op_ok_def add_types_distinct)

definition d_receives :: "disc_op \<Rightarrow> recv_metadata \<Rightarrow> discovery \<Rightarrow> bool" where
  "d_receives op meta s \<longleftrightarrow> d_receiver s = Some op \<and> d_socket_open s \<and> d_loop s op = Some False \<and> d_accepts meta s"

lemma d_receive_accepted:
  assumes "d_receives op meta s" and "walk_dns_frame data (rm_sender meta) = Some rs"
  shows "d_receive meta data now s = Some
    (let (s', relevant) = d_on_packet op (rm_sender meta) rs (s\<lparr>d_receiver := None\<rparr>)
     in d_arm_receive op (if relevant then d_arm_silence_timer now op s' else s'))"
proof -
  have "d_accepts meta (s\<lparr>d_receiver := None\<rparr>)" using assms(1) by (simp add: d_receives_def d_accepts_def split: option.splits)
  then show ?thesis
    using assms
    by (simp add: d_receive_def d_receives_def Let_def query_on_packet_result enumerate_on_packet_result d_on_packet_def)
qed

lemma d_receive_ok:
  assumes ok: "disc_ok s"
  shows "\<exists>s'. d_receive meta data now s = Some s' \<and> disc_ok s'"
proof -
  obtain rs where rs: "walk_dns_frame data (rm_sender meta) = Some rs" using walk_dns_frame_range by blast
  have idle: "disc_ok (s\<lparr>d_receiver := None\<rparr>)" using ok by (simp add: disc_ok_def op_ok_def)
  show ?thesis
  proof (cases "d_receiver s")
    case None
    with ok show ?thesis by (simp add: d_receive_def)
  next
    case (Some op)
    with ok obtain st where st: "d_loop s op = Some st" by (auto simp: disc_ok_def)
    show ?thesis
    proof (cases "d_receives op meta s")
      case True
      let ?t = "d_on_packet op (rm_sender meta) rs (s\<lparr>d_receiver := None\<rparr>)"
      have t: "disc_ok (fst ?t)" "d_loop (fst ?t) op \<noteq> None" using d_on_packet_ok [OF idle] st by auto
      then have "disc_ok (d_arm_receive op (if snd ?t then d_arm_silence_timer now op (fst ?t) else fst ?t))"
        by (simp add: d_arm_ok)
      then show ?thesis using d_receive_accepted [OF True rs] by (simp add: Let_def case_prod_beta)
    next
      case False
      have "d_accepts meta (s\<lparr>d_receiver := None\<rparr>) = d_accepts meta s" by (simp add: d_accepts_def split: option.split)
      with False Some st ok idle show ?thesis by (auto simp: d_receive_def d_receives_def Let_def d_arm_ok)
    qed
  qed
qed

section \<open>Starting an operation\<close>

lemma d_send_query_result:
  "\<exists>errs. d_send_query query_bytes what s = s\<lparr>d_out := d_out s @ D_sent (d_multicast_ep s) query_bytes # errs\<rparr> \<and>
    (\<forall>op. completions op errs = [])"
proof (cases "d_send s (d_multicast_ep s) query_bytes")
  case None
  then show ?thesis by (intro exI [of _ "[]"]) (simp add: d_send_query_def d_emit_def)
next
  case (Some ec)
  show ?thesis
  proof (cases "d_on_error s")
    case True
    with Some show ?thesis by (intro exI [of _ "[D_error ec what]"]) (simp add: d_send_query_def d_emit_def)
  next
    case False
    with Some show ?thesis by (intro exI [of _ "[]"]) (simp add: d_send_query_def d_emit_def)
  qed
qed

text \<open>What starting an operation does: the query is sent and the loop of the operation takes the timer and the receiver.\<close>

definition started :: "disc_op \<Rightarrow> bool \<Rightarrow> bytes \<Rightarrow> int \<Rightarrow> discovery \<Rightarrow> discovery \<Rightarrow> bool" where
  "started op on_done query_bytes now s s' \<longleftrightarrow>
     (\<exists>errs. d_out s' = d_out s @ D_sent (d_multicast_ep s) query_bytes # errs \<and> (\<forall>op. completions op errs = [])) \<and>
     d_loop s' = (d_loop s)(op \<mapsto> False) \<and> d_handler s' = (if on_done then (d_handler s)(op := True) else d_handler s) \<and>
     d_timer s' = arm now (d_silence_timeout s) op (d_timer s) \<and> d_receiver s' = Some op \<and> d_socket_open s' = d_socket_open s \<and>
     d_silence_timeout s' = d_silence_timeout s \<and> d_mdns_opts s' = d_mdns_opts s \<and> d_multicast_ep s' = d_multicast_ep s \<and>
     d_stopped s' = d_stopped s \<and> d_posted s' = d_posted s \<and> d_alive s' = d_alive s \<and> d_on_record s' = d_on_record s"

lemma started_ok:
  assumes "disc_ok s" and "d_loop s op = None" and "started op on_done query_bytes now s s'"
    and "distinct (map sti_service_type (d_enumerated_types s'))"
  shows "disc_ok s'"
proof (rule disc_okI)
  show "op_ok op' s'" for op'
  proof -
    have "op_ok op' s" using assms(1) by (simp add: disc_ok_def)
    with assms(2,3) show ?thesis by (cases "op' = op") (auto simp: op_ok_def started_def)
  qed
qed (use assms in \<open>auto simp: disc_ok_def started_def timer_simps\<close>)

lemma d_do_query_result:
  assumes "encode_dns_name (normalize svc_type) \<noteq> []"
    and "d_handler t = (if on_done then (d_handler s)(op := True) else d_handler s)"
    and "t = s\<lparr>d_handler := d_handler t\<rparr>"
  shows "\<exists>s'. d_do_query op svc_type mode now t = Some s' \<and>
    started op on_done (message_bytes (query_message 0 (normalize svc_type) Type_ptr mode [])) now s s' \<and>
    d_results s' = [] \<and> d_service_type s' = dns_name svc_type \<and> d_enumerated_types s' = d_enumerated_types s"
proof -
  let ?q = "message_bytes (query_message 0 (normalize svc_type) Type_ptr mode [])"
  let ?u = "t\<lparr>d_results := [], d_service_type := dns_name svc_type\<rparr>"
  have q: "build_dns_query_known p6 (normalize svc_type) Type_ptr [] mode = Some ?q" for p6
    using build_dns_query_known_message [OF assms(1), of p6 "[]" "[]"] by simp
  obtain errs where e: "d_send_query ?q ''query send'' ?u = ?u\<lparr>d_out := d_out ?u @ D_sent (d_multicast_ep ?u) ?q # errs\<rparr>"
    "\<forall>op. completions op errs = []" using d_send_query_result by blast
  define d where "d = d_handler t"
  have t: "t = s\<lparr>d_handler := d\<rparr>" using assms(3) by (simp add: d_def)
  have d: "d = (if on_done then (d_handler s)(op := True) else d_handler s)" using assms(2) by (simp add: d_def)
  show ?thesis
    using e by (simp add: d_do_query_def q Let_def t d_start_loop_def d_arm_receive_def d_arm_silence_timer_def started_def) (use d in auto)
qed

lemma do_enumerate_result:
  assumes "d_handler t = (if on_done then (d_handler s)(Enumerate := True) else d_handler s)"
    and "t = s\<lparr>d_handler := d_handler t\<rparr>"
  shows "started Enumerate on_done (build_dns_query ''_services._dns-sd._udp.local'' Type_ptr mode) now s (do_enumerate mode now t) \<and>
    d_enumerated_types (do_enumerate mode now t) = []"
proof -
  let ?q = "build_dns_query ''_services._dns-sd._udp.local'' Type_ptr mode"
  let ?u = "t\<lparr>d_enumerated_types := []\<rparr>"
  obtain errs where e: "d_send_query ?q ''enumerate send'' ?u = ?u\<lparr>d_out := d_out ?u @ D_sent (d_multicast_ep ?u) ?q # errs\<rparr>"
    "\<forall>op. completions op errs = []" using d_send_query_result by blast
  define d where "d = d_handler t"
  have t: "t = s\<lparr>d_handler := d\<rparr>" using assms(2) by (simp add: d_def)
  have d: "d = (if on_done then (d_handler s)(Enumerate := True) else d_handler s)" using assms(1) by (simp add: d_def)
  show ?thesis
    using e by (simp add: do_enumerate_def Let_def t d_start_loop_def d_arm_receive_def d_arm_silence_timer_def started_def) (use d in auto)
qed

text \<open>The operation that an event starts, with what the call requires.\<close>

fun starts :: "disc_event \<Rightarrow> disc_op option" where
  "starts (Dev_discover _ _ _) = Some Discover"
| "starts (Dev_browse _ _ _) = Some Browse"
| "starts (Dev_enumerate _ _) = Some Enumerate"
| "starts _ = None"

fun disc_event_ok :: "disc_event \<Rightarrow> discovery \<Rightarrow> bool" where
  "disc_event_ok (Dev_discover svc_type _ _) s \<longleftrightarrow> d_loop s Discover = None \<and> encode_dns_name (normalize svc_type) \<noteq> []"
| "disc_event_ok (Dev_browse svc_type _ _) s \<longleftrightarrow> d_loop s Browse = None \<and> encode_dns_name (normalize svc_type) \<noteq> []"
| "disc_event_ok (Dev_enumerate _ _) s \<longleftrightarrow> d_loop s Enumerate = None"
| "disc_event_ok _ s \<longleftrightarrow> True"

lemma async_browse_result:
  assumes "d_loop s Browse = None" and "encode_dns_name (normalize svc_type) \<noteq> []"
  shows "\<exists>s'. async_browse svc_type on_done mode now s = Some s' \<and>
    started Browse on_done (message_bytes (query_message 0 (normalize svc_type) Type_ptr mode [])) now s s' \<and>
    d_results s' = [] \<and> d_service_type s' = dns_name svc_type \<and> d_enumerated_types s' = d_enumerated_types s"
  using d_do_query_result [OF assms(2), of "if on_done then s\<lparr>d_handler := (d_handler s)(Browse := True)\<rparr> else s" on_done s Browse mode now]
    assms(1) by (auto simp: async_browse_def)

lemma async_discover_result:
  assumes "d_loop s Discover = None" and "encode_dns_name (normalize svc_type) \<noteq> []"
  shows "\<exists>s'. async_discover svc_type on_done mode now s = Some s' \<and>
    started Discover on_done (message_bytes (query_message 0 (normalize svc_type) Type_ptr mode [])) now s s' \<and>
    d_results s' = [] \<and> d_service_type s' = dns_name svc_type \<and> d_enumerated_types s' = d_enumerated_types s"
  using d_do_query_result [OF assms(2), of "if on_done then s\<lparr>d_handler := (d_handler s)(Discover := True)\<rparr> else s" on_done s Discover mode now]
    assms(1) by (auto simp: async_discover_def)

lemma start_step:
  assumes "starts ev = Some op" and "disc_event_ok ev s"
  shows "d_loop s op = None \<and> (\<exists>s' on_done query_bytes. disc_step ev now s = Some s' \<and> started op on_done query_bytes now s s' \<and>
    (d_enumerated_types s' = d_enumerated_types s \<or> d_enumerated_types s' = []))"
proof (cases ev)
  case (Dev_discover svc_type on_done mode)
  with assms async_discover_result [of s svc_type on_done mode now] show ?thesis by auto
next
  case (Dev_browse svc_type on_done mode)
  with assms async_browse_result [of s svc_type on_done mode now] show ?thesis by auto
next
  case (Dev_enumerate on_done mode)
  let ?t = "if on_done then s\<lparr>d_handler := (d_handler s)(Enumerate := True)\<rparr> else s"
  have "started Enumerate on_done (build_dns_query ''_services._dns-sd._udp.local'' Type_ptr mode) now s (do_enumerate mode now ?t) \<and>
      d_enumerated_types (do_enumerate mode now ?t) = []"
    by (rule do_enumerate_result) simp_all
  moreover have "op = Enumerate" "d_loop s Enumerate = None" using Dev_enumerate assms by simp_all
  moreover have "disc_step ev now s = Some (do_enumerate mode now ?t)"
    using Dev_enumerate assms by (simp add: async_enumerate_types_def Let_def)
  ultimately show ?thesis by blast
qed (use assms in simp_all)

lemma stop_discovery_ok: "disc_ok s \<Longrightarrow> disc_ok (stop_discovery s)"
  by (auto simp: stop_discovery_def disc_ok_def op_ok_def)

lemma destroy_discovery_ok:
  assumes "disc_ok s"
  shows "disc_ok (destroy_discovery s)"
proof -
  have loop: "disc_ok (destroy_loop op s)" if "disc_ok s" for op s
    using that by (auto simp: destroy_loop_def disc_ok_def op_ok_def split: if_splits)
  have "disc_ok (s\<lparr>d_alive := False\<rparr>)" using assms by (simp add: disc_ok_def op_ok_def)
  then have "disc_ok (destroy_loop Discover (destroy_loop Browse (destroy_loop Enumerate (stop_discovery (s\<lparr>d_alive := False\<rparr>)))))"
    by (intro loop stop_discovery_ok)
  then show ?thesis by (simp add: destroy_discovery_def Let_def disc_ok_def op_ok_def new_timer_def)
qed

lemma disc_step_ok:
  assumes ok: "disc_ok s" and "disc_event_ok ev s"
  shows "\<exists>s'. disc_step ev now s = Some s' \<and> disc_ok s'"
proof (cases "starts ev")
  case (Some op)
  then obtain s' on_done q where s': "d_loop s op = None" "disc_step ev now s = Some s'" "started op on_done q now s s'"
    "d_enumerated_types s' = d_enumerated_types s \<or> d_enumerated_types s' = []"
    using start_step [OF Some assms(2)] by blast
  have "distinct (map sti_service_type (d_enumerated_types s'))" using s'(4) ok by (auto simp: disc_ok_def)
  with started_ok [OF ok s'(1,3)] s'(2) show ?thesis by blast
next
  case None
  with ok show ?thesis
    by (cases ev) (simp_all add: stop_discovery_ok destroy_discovery_ok run_posted_discovery_ok d_silence_ok d_receive_ok)
qed

section \<open>Runs\<close>

fun disc_run :: "(disc_event \<times> int) list \<Rightarrow> discovery \<Rightarrow> discovery option" where
  "disc_run [] s = Some s"
| "disc_run ((ev, now) # evs) s = do { s \<leftarrow> disc_step ev now s; disc_run evs s }"

text \<open>A step is defined only when the call's requirements hold.\<close>

lemma step_defined_ok: "disc_step ev now s \<noteq> None \<Longrightarrow> disc_event_ok ev s"
proof (cases ev)
  case (Dev_discover svc_type on_done mode)
  then show "disc_step ev now s \<noteq> None \<Longrightarrow> disc_event_ok ev s"
    using query_known_unencodable [of "normalize svc_type" "[]" _ Type_ptr mode]
    by (auto simp: async_discover_def d_do_query_def Let_def bind_eq_Some_conv split: if_splits)
next
  case (Dev_browse svc_type on_done mode)
  then show "disc_step ev now s \<noteq> None \<Longrightarrow> disc_event_ok ev s"
    using query_known_unencodable [of "normalize svc_type" "[]" _ Type_ptr mode]
    by (auto simp: async_browse_def d_do_query_def Let_def bind_eq_Some_conv split: if_splits)
qed (auto simp: async_enumerate_types_def split: if_splits)

lemma started_step:
  assumes "disc_step ev now s = Some s'" and "starts ev = Some op"
  shows "d_loop s op = None \<and> (\<exists>on_done query_bytes. started op on_done query_bytes now s s')"
  using start_step [OF assms(2) step_defined_ok [of ev now], where now = now] assms(1) by fastforce

lemma disc_step_keeps: "disc_step ev now s = Some s' \<Longrightarrow> disc_ok s \<Longrightarrow> disc_ok s'"
  using disc_step_ok [where ev = ev and now = now and s = s] step_defined_ok [of ev now s] by fastforce

lemma disc_run_ok: "disc_run evs s = Some s' \<Longrightarrow> disc_ok s \<Longrightarrow> disc_ok s'"
proof (induction evs arbitrary: s)
  case (Cons e evs)
  obtain ev now where e: "e = (ev, now)" by fastforce
  with Cons.prems obtain s1 where s1: "disc_step ev now s = Some s1" "disc_run evs s1 = Some s'"
    by (auto simp: bind_eq_Some_conv)
  with disc_step_keeps [OF s1(1) Cons.prems(2)] Cons.IH show ?case by blast
qed simp

text \<open>
  An operation whose wait and whose receiver have been taken by another one is starved: nothing but
  \<open>stop()\<close> completes it.
\<close>

definition starved :: "disc_op \<Rightarrow> discovery \<Rightarrow> bool" where
  "starved op s \<longleftrightarrow>
     completions op (d_out s) = [] \<and> d_loop s op = Some False \<and> t_handler (d_timer s) \<noteq> Some op \<and> d_receiver s \<noteq> Some op \<and>
     d_posted s = 0"

lemma starved_finish: "starved op s \<Longrightarrow> op' \<noteq> op \<Longrightarrow> starved op (d_finish op' s)"
  by (auto simp: starved_def d_finish_def d_stop_loop_def d_complete_def d_emit_def Let_def timer_simps split: if_splits)

lemma starved_step:
  assumes st: "starved op s" and "ev \<noteq> Dev_stop" "ev \<noteq> Dev_destroy" and step: "disc_step ev now s = Some s'"
  shows "starved op s'"
proof (cases "starts ev")
  case (Some op')
  obtain on_done q where s2: "d_loop s op' = None" "started op' on_done q now s s'"
    using started_step [OF step Some] by blast
  moreover have "op' \<noteq> op" using s2(1) st by (auto simp: starved_def)
  ultimately show ?thesis using st step by (auto simp: starved_def started_def timer_simps)
next
  case None
  show ?thesis
  proof (cases ev)
    case Dev_silence
    obtain t w where f: "try_fire now (d_timer s) = (t, w)" by fastforce
    show ?thesis
    proof (cases w)
      case None
      with f inproc.fire_none [of now "d_timer s" t] st step Dev_silence show ?thesis by (auto simp: d_silence_def)
    next
      case (Some op')
      with f inproc.fire_some [of now "d_timer s" t op'] have t: "t_handler (d_timer s) = Some op'" "t_handler t = None" by simp_all
      with st have "starved op (s\<lparr>d_timer := t\<rparr>)" "op' \<noteq> op" by (auto simp: starved_def)
      with f Some Dev_silence step starved_finish [of op _ op'] show ?thesis by (auto simp: d_silence_def Let_def split: if_splits)
    qed
  next
    case (Dev_packet meta data)
    obtain rs where rs: "walk_dns_frame data (rm_sender meta) = Some rs" using walk_dns_frame_range by blast
    show ?thesis
      using st step Dev_packet
      by (auto simp: d_receive_def Let_def query_on_packet_result [OF rs] enumerate_on_packet_result [OF rs] starved_def
          d_arm_receive_def d_arm_silence_timer_def timer_simps split: option.splits if_splits)
  qed (use None assms in \<open>auto simp: run_posted_discovery_def starved_def\<close>)
qed

lemma starved_run: "disc_run evs s = Some s' \<Longrightarrow> starved op s \<Longrightarrow> Dev_stop \<notin> fst ` set evs \<Longrightarrow> Dev_destroy \<notin> fst ` set evs \<Longrightarrow>
    starved op s'"
proof (induction evs arbitrary: s)
  case (Cons e evs)
  obtain ev now where e: "e = (ev, now)" by fastforce
  with Cons.prems obtain s1 where s1: "disc_step ev now s = Some s1" "disc_run evs s1 = Some s'"
    by (auto simp: bind_eq_Some_conv)
  have "starved op s1" using starved_step [OF Cons.prems(2) _ _ s1(1)] Cons.prems(3,4) e by auto
  with Cons.IH [OF s1(2)] Cons.prems(3,4) show ?case by simp
qed simp

text \<open>The step of a browse that collects records, and its completion by silence.\<close>

lemma browse_collects:
  assumes "disc_ok s" and "d_receives Browse meta s" and "d_handler s Browse" and "walk_dns_frame data (rm_sender meta) = Some rs"
    and "list_ex (\<lambda>r. variant_name r = d_service_type s) rs" and "now + d_silence_timeout s * 1000000 \<le> later"
  shows "\<exists>s'. disc_run [(Dev_packet meta data, now), (Dev_silence, later)] s = Some s' \<and>
    completions Browse (d_out s') = [D_browsed (aggregate (d_results s @ rs))] \<and> d_loop s' Browse = Some True"
proof -
  let ?xs = "if d_on_record s then map (D_record (rm_sender meta)) rs else []"
  let ?t = "arm now (d_silence_timeout s) Browse (d_timer s)"
  let ?s1 = "s\<lparr>d_out := d_out s @ ?xs, d_results := d_results s @ rs, d_timer := ?t, d_receiver := Some Browse\<rparr>"
  have r: "d_loop s Browse = Some False" using assms(2) by (simp add: d_receives_def)
  then have c: "completions Browse (d_out s) = []" using assms(1,3) by (auto simp: disc_ok_def op_ok_def)
  have "d_receive meta data now s = Some ?s1"
    using d_receive_accepted [OF assms(2,4), of now] assms(5) r
    by (simp add: d_on_packet_def d_arm_receive_def d_arm_silence_timer_def)
  moreover obtain t where t: "try_fire later ?t = (t, Some Browse)"
    using inproc.fire_armed [OF assms(6), of Browse "d_timer s"] by (metis prod.collapse)
  then have "d_silence later ?s1 = d_finish Browse (?s1\<lparr>d_timer := t\<rparr>)" using r by (simp add: d_silence_def)
  ultimately show ?thesis using assms(3) c by simp
qed

section \<open>Properties\<close>

text \<open>
  C33: The life of a discovery. After every defined run from a new discovery, a next event is
  undefined exactly when it starts an operation that was started before or with a name that cannot
  be encoded; the completion handler of each operation has been called at most once, and then the
  operation's loop is stopped and its handler is gone; the enumerated service types are distinct.
\<close>

theorem discovery_lifecycle:
  assumes "disc_run evs (new_discovery p6 send_fn mcast timeout on_record mopts on_error) = Some s"
  shows "(disc_step ev now s \<noteq> None \<longleftrightarrow> disc_event_ok ev s) \<and>
    length (completions op (d_out s)) \<le> 1 \<and>
    (completions op (d_out s) \<noteq> [] \<longrightarrow> d_loop s op = Some True \<and> \<not> d_handler s op) \<and>
    distinct (map sti_service_type (d_enumerated_types s))"
proof -
  have ok: "disc_ok s" using disc_run_ok [OF assms new_discovery_ok] .
  then have "op_ok op s" by (simp add: disc_ok_def)
  then have "length (completions op (d_out s)) \<le> 1 \<and> (completions op (d_out s) \<noteq> [] \<longrightarrow> d_loop s op = Some True \<and> \<not> d_handler s op)"
    by (auto simp: op_ok_def)
  moreover have "disc_step ev now s \<noteq> None \<longleftrightarrow> disc_event_ok ev s" using disc_step_ok [OF ok] step_defined_ok by fastforce
  moreover have "distinct (map sti_service_type (d_enumerated_types s))" using ok by (simp add: disc_ok_def)
  ultimately show ?thesis by blast
qed

text \<open>
  Browsing completes with the resolved services. When the loop of a browse receives a packet that
  holds a record of the browsed type, all its records are added to the results, and when the silence
  timeout then passes the completion handler gets the services aggregated from the results.
\<close>

lemma browse_completes:
  assumes "disc_run evs (new_discovery p6 send_fn mcast timeout on_record mopts on_error) = Some s"
    and "d_receives Browse meta s" and "d_handler s Browse" and "walk_dns_frame data (rm_sender meta) = Some rs"
    and "list_ex (\<lambda>r. variant_name r = d_service_type s) rs" and "now + d_silence_timeout s * 1000000 \<le> later"
  shows "\<exists>s'. disc_run [(Dev_packet meta data, now), (Dev_silence, later)] s = Some s' \<and>
    completions Browse (d_out s') = [D_browsed (aggregate (d_results s @ rs))] \<and> d_loop s' Browse = Some True"
  using browse_collects [OF disc_run_ok [OF assms(1) new_discovery_ok] assms(2-6)] .

text \<open>
  C34: A second operation starves the first. When another operation is started while one is under way,
  the first one's silence wait and receiver are lost: whatever happens afterwards, its completion
  handler is not called, unless the discovery is stopped or destroyed.
\<close>

theorem second_operation_starves_first:
  assumes "disc_run evs (new_discovery p6 send_fn mcast timeout on_record mopts on_error) = Some s"
    and "d_loop s op = Some False" and "d_posted s = 0" and "starts ev = Some op'" and "op' \<noteq> op"
    and "disc_run ((ev, now) # later_evs) s = Some s'" and "Dev_stop \<notin> fst ` set later_evs" and "Dev_destroy \<notin> fst ` set later_evs"
  shows "completions op (d_out s') = []"
proof -
  obtain s1 where s1: "disc_step ev now s = Some s1" "disc_run later_evs s1 = Some s'"
    using assms(6) by (auto simp: bind_eq_Some_conv)
  obtain on_done q where st: "started op' on_done q now s s1"
    using started_step [OF s1(1) assms(4)] by blast
  have "op_ok op s" using disc_run_ok [OF assms(1) new_discovery_ok] by (simp add: disc_ok_def)
  with st assms(2,3,5) have "starved op s1" by (auto simp: starved_def started_def op_ok_def timer_simps)
  with starved_run [OF s1(2) _ assms(7,8)] show ?thesis by (auto simp: starved_def)
qed

section \<open>An example\<close>

definition mdns_group :: endpoint where
  "mdns_group = \<lparr>ep_address = ''224.0.0.251'', ep_port = 5353\<rparr>"

definition example_discovery :: discovery where
  "example_discovery = new_discovery (\<lambda>_. None) (\<lambda>_ _. None) mdns_group 3000 False default_mdns_options False"

definition browsing :: discovery where
  "browsing = the (async_browse ''_http._tcp.local.'' True Multicast 0 example_discovery)"

lemma example_encodes: "encode_dns_name (normalize ''_http._tcp.local.'') \<noteq> []"
  by code_simp

lemma browsing_result:
  "disc_run [(Dev_browse ''_http._tcp.local.'' True Multicast, 0)] example_discovery = Some browsing"
  "started Browse True (message_bytes (query_message 0 (normalize ''_http._tcp.local.'') Type_ptr Multicast [])) 0 example_discovery browsing"
  "d_results browsing = []" "d_service_type browsing = dns_name ''_http._tcp.local.''"
proof -
  have n: "d_loop example_discovery Browse = None" by (simp add: example_discovery_def new_discovery_def)
  from async_browse_result [OF n example_encodes, of True Multicast 0]
  show "disc_run [(Dev_browse ''_http._tcp.local.'' True Multicast, 0)] example_discovery = Some browsing"
    "started Browse True (message_bytes (query_message 0 (normalize ''_http._tcp.local.'') Type_ptr Multicast [])) 0 example_discovery browsing"
    "d_results browsing = []" "d_service_type browsing = dns_name ''_http._tcp.local.''"
    by (auto simp: browsing_def)
qed

definition from_server :: recv_metadata where
  "from_server = \<lparr>rm_sender = \<lparr>ep_address = ''192.168.1.7'', ep_port = 5353\<rparr>, rm_ttl = Some 255, rm_ifindex = 0\<rparr>"

lemma browsing_receives: "d_receives Browse from_server browsing" "d_handler browsing Browse" "d_silence_timeout browsing = 3000"
  using browsing_result(2)
  by (simp_all add: d_receives_def started_def d_accepts_def from_server_def example_discovery_def new_discovery_def default_mdns_options_def)

theorem discovery_lifecycle_witness:
  "disc_step Dev_silence 3000000000 browsing \<noteq> None \<and> disc_step (Dev_browse ''_http._tcp.local.'' True Multicast) 0 browsing = None"
  using discovery_lifecycle [OF browsing_result(1) [unfolded example_discovery_def], of Dev_silence 3000000000 Browse]
    discovery_lifecycle [OF browsing_result(1) [unfolded example_discovery_def], of "Dev_browse ''_http._tcp.local.'' True Multicast" 0 Browse]
    browsing_receives(1) by (auto simp: d_receives_def)

lemma browse_completes_example:
  "\<exists>s'. completions Browse (d_out s') = [D_browsed [announced_service (\<lambda>_. None) example_info]] \<and>
    disc_run [(Dev_packet from_server (build_dns_response (\<lambda>_. None) example_info Type_ptr default_service_options 0xFFFFFFFF), 0),
      (Dev_silence, 3000000000)] browsing = Some s'"
proof -
  obtain an ar where secs: "response_sections (\<lambda>_. None) example_info Type_ptr default_service_options 0xFFFFFFFF = (an, ar)"
    by fastforce
  let ?rs = "List.map_filter (rr_decoded (rm_sender from_server)) (an @ ar)"
  have w: "walk_dns_frame (build_dns_response (\<lambda>_. None) example_info Type_ptr default_service_options 0xFFFFFFFF)
      (rm_sender from_server) = Some ?rs"
    using walk_response [OF example_announceable, of "\<lambda>_. None" Type_ptr default_service_options "0xFFFFFFFF" "rm_sender from_server"] secs
    by (simp add: inet_pton_width_def)
  have "d_service_type browsing = service_type example_info"
    by (simp add: browsing_result str_inject [symmetric] example_info_names) code_simp
  with ptr_answer [OF secs, of "rm_sender from_server"]
  have a: "aggregate ?rs = [announced_service (\<lambda>_. None) example_info]" "list_ex (\<lambda>r. variant_name r = d_service_type browsing) ?rs"
    by simp_all
  have "0 + d_silence_timeout browsing * 1000000 \<le> 3000000000" by (simp add: browsing_receives)
  from browse_completes [OF browsing_result(1) [unfolded example_discovery_def] browsing_receives(1,2) w a(2) this]
  show ?thesis unfolding browsing_result append_Nil a(1) by blast
qed

theorem second_operation_starves_first_witness:
  "\<exists>s'. disc_run [(Dev_enumerate True Multicast, 1), (Dev_silence, 4000000000)] browsing = Some s' \<and> completions Browse (d_out s') = []"
proof -
  let ?evs = "[(Dev_silence, 4000000000)]"
  obtain s' where s': "disc_run ((Dev_enumerate True Multicast, 1) # ?evs) browsing = Some s'"
    using browsing_result(2) by (simp add: async_enumerate_types_def started_def example_discovery_def new_discovery_def Let_def)
  have b: "d_loop browsing Browse = Some False" "d_posted browsing = 0"
    using browsing_result(2) by (simp_all add: started_def example_discovery_def new_discovery_def)
  have "completions Browse (d_out s') = []"
    by (rule second_operation_starves_first [OF browsing_result(1) [unfolded example_discovery_def] b _ _ s']) auto
  with s' show ?thesis by blast
qed

end
