(* ===== verification/Default_Timer.thy ===== *)
theory Default_Timer
  imports Timer Ip_Text
begin

text \<open>
  \<open>default/default_timer.h\<close>: the timer object of the default policy, without its registration with the
  context (theory \<open>Default_Context\<close>). Time points are nanoseconds of the steady clock, handlers are
  values of an arbitrary type \<open>'w\<close>. It keeps the contract \<open>one_shot_timer\<close> of the in-process timer.
\<close>

section \<open>The timer object\<close>

record 'w default_timer =
  dt_deadline :: int
  dt_pending_handler :: "'w option"

definition new_default_timer :: "'w default_timer" where
  "new_default_timer = \<lparr>dt_deadline = 0, dt_pending_handler = None\<rparr>"

text \<open>\<open>expires_after\<close>: the pending handler is dropped without a call.\<close>

definition dt_expires_after :: "int \<Rightarrow> int \<Rightarrow> 'w default_timer \<Rightarrow> 'w default_timer" where
  "dt_expires_after now dur t = t\<lparr>dt_pending_handler := None, dt_deadline := now + dur * 1000000\<rparr>"

definition dt_async_wait :: "'w \<Rightarrow> 'w default_timer \<Rightarrow> 'w default_timer" where
  "dt_async_wait handler t = t\<lparr>dt_pending_handler := Some handler\<rparr>"

text \<open>\<open>cancel\<close>: the second component is the handler that is called with \<open>operation_canceled\<close>.\<close>

definition dt_cancel :: "'w default_timer \<Rightarrow> 'w default_timer \<times> 'w option" where
  "dt_cancel t =
     (case dt_pending_handler t of
        Some h \<Rightarrow> (t\<lparr>dt_pending_handler := None\<rparr>, Some h)
      | None \<Rightarrow> (t, None))"

text \<open>\<open>fire_if_expired\<close>: the second component is the handler that is called with success.\<close>

definition dt_fire_if_expired :: "int \<Rightarrow> 'w default_timer \<Rightarrow> 'w default_timer \<times> 'w option" where
  "dt_fire_if_expired now t =
     (case dt_pending_handler t of
        Some h \<Rightarrow> (if now \<ge> dt_deadline t then (t\<lparr>dt_pending_handler := None\<rparr>, Some h) else (t, None))
      | None \<Rightarrow> (t, None))"

definition dt_has_pending :: "'w default_timer \<Rightarrow> bool" where
  "dt_has_pending t \<longleftrightarrow> dt_pending_handler t \<noteq> None"

definition dt_arm :: "int \<Rightarrow> int \<Rightarrow> 'w \<Rightarrow> 'w default_timer \<Rightarrow> 'w default_timer" where
  "dt_arm now dur handler t = dt_async_wait handler (dt_expires_after now dur t)"

interpretation default: one_shot_timer dt_arm "\<lambda>t. fst (dt_cancel t)" dt_fire_if_expired dt_pending_handler dt_deadline
  by unfold_locales
    (auto simp: dt_arm_def dt_async_wait_def dt_expires_after_def dt_cancel_def dt_fire_if_expired_def split: option.splits if_splits)

lemmas default_timer_simps [simp] = default.pending_arm default.due_arm default.pending_cancel

lemma dt_fire_cases:
  "dt_fire_if_expired now t =
     (if dt_has_pending t \<and> dt_deadline t \<le> now then (t\<lparr>dt_pending_handler := None\<rparr>, dt_pending_handler t) else (t, None))"
  by (auto simp: dt_fire_if_expired_def dt_has_pending_def split: option.split)

section \<open>The delay until a deadline\<close>

text \<open>\<open>duration_cast\<close> from nanoseconds to milliseconds rounds toward zero.\<close>

definition duration_cast_ms :: "int \<Rightarrow> int" where
  "duration_cast_ms d = (if d \<ge> 0 then d div 1000000 else - ((- d) div 1000000))"

text \<open>\<open>static_cast<int>\<close> of a 64-bit count keeps its 32 low bits.\<close>

definition int32_of :: "int \<Rightarrow> int" where
  "int32_of x = sint (word_of_int x :: 32 word)"

definition remaining_ms :: "int \<Rightarrow> 'w default_timer \<Rightarrow> int" where
  "remaining_ms now t = (let raw = duration_cast_ms (dt_deadline t - now) in int32_of (if raw > 0 then raw else 0))"

text \<open>The body of the loop of \<open>compute_next_timeout_ms\<close> for a timer.\<close>

definition merge_timeout :: "int \<Rightarrow> 'w default_timer \<Rightarrow> int \<Rightarrow> int" where
  "merge_timeout now t min_ms =
     (if \<not> dt_has_pending t then min_ms
      else (let ms = remaining_ms now t in if min_ms < 0 \<or> ms < min_ms then ms else min_ms))"

lemma int32_of_eq: "int32_of x = (x + 2 ^ 31) mod 2 ^ 32 - 2 ^ 31"
  unfolding int32_of_def
  by (simp add: sint_uint signed_take_bit_eq_take_bit_shift word_size uint_word_of_int take_bit_eq_mod mod_add_left_eq)

lemma int32_of_small: "0 \<le> x \<Longrightarrow> x < 2 ^ 31 \<Longrightarrow> int32_of x = x"
  by (simp add: int32_of_eq)

lemma remaining_ms_eq:
  assumes "dt_deadline t - now < 2 ^ 31 * 1000000"
  shows "remaining_ms now t = max 0 (dt_deadline t - now) div 1000000"
proof (cases "dt_deadline t - now \<ge> 0")
  case True
  then have "(dt_deadline t - now) div 1000000 < 2 ^ 31" "0 \<le> (dt_deadline t - now) div 1000000"
    using assms by auto
  then show ?thesis using True by (auto simp: remaining_ms_def duration_cast_ms_def Let_def int32_of_small)
next
  case False
  then have "0 \<le> (now - dt_deadline t) div 1000000" by simp
  with False show ?thesis by (auto simp: remaining_ms_def duration_cast_ms_def Let_def int32_of_eq)
qed

lemma remaining_ms_bounds:
  assumes "dt_deadline t - now < 2 ^ 31 * 1000000"
  shows "0 \<le> remaining_ms now t \<and> now + remaining_ms now t * 1000000 \<le> max now (dt_deadline t) \<and>
         dt_deadline t < now + (remaining_ms now t + 1) * 1000000"
  unfolding remaining_ms_eq [OF assms] by (cases "dt_deadline t \<ge> now") (simp_all add: max_def, linarith+)

end
