(* ===== verification/Default_Context.thy ===== *)
theory Default_Context
  imports Default_Timer Recv_Loop
begin

text \<open>
  \<open>default/default_context.h\<close> and the members of \<open>default/default_timer.h\<close> that use the context: the event
  loop of the default policy, in its Linux variant and without the assertions of debug builds.
  Timer objects live in a store, so that a pointer to a destroyed timer is visible: an access
  through it is \<open>None\<close>. The functions that the loop calls are values of a type \<open>'w\<close>; the argument
  \<open>call\<close> says what a call does to the context (and to the state of the client, which is the
  extension of the record). Handlers do not run the loop again. The operating system is the
  argument of an iteration: clock readings, the result of \<open>poll\<close>, received messages, and what
  other threads posted while \<open>poll\<close> was waiting.
\<close>

section \<open>The context\<close>

datatype 'w callback =
    Posted 'w
  | Received 'w recv_metadata bytes
  | Wait_done 'w "errc option"

record pollfd =
  pfd_fd :: int
  pfd_in :: bool

text \<open>
  \<open>dc_wakeup_count\<close> is the counter of the \<open>eventfd\<close>, \<open>dc_timer_objects\<close> the live timer objects, and
  \<open>dc_calls\<close> lists the calls that were made.
\<close>

record 'w default_context =
  dc_stopped :: bool
  dc_work_queue :: "'w list"
  dc_post_pending :: bool
  dc_sockets :: "(int \<times> 'w option) list"
  dc_timers :: "nat list"
  dc_wakeup_fd :: int
  dc_wakeup_count :: nat
  dc_pollfds :: "pollfd list"
  dc_wakeup_ready :: bool
  dc_timer_objects :: "nat \<rightharpoonup> 'w default_timer"
  dc_calls :: "'w callback list"

type_synonym ('w, 'z) handler_call =
  "'w callback \<Rightarrow> ('w, 'z) default_context_scheme \<Rightarrow> ('w, 'z) default_context_scheme option"

text \<open>\<open>None\<close> is the exception of a failed \<open>eventfd\<close>, the argument is its result.\<close>

definition new_default_context :: "int \<Rightarrow> 'w default_context option" where
  "new_default_context wakeup_fd =
     (if wakeup_fd < 0 then None
      else Some \<lparr>dc_stopped = False, dc_work_queue = [], dc_post_pending = False, dc_sockets = [], dc_timers = [],
                 dc_wakeup_fd = wakeup_fd, dc_wakeup_count = 0, dc_pollfds = [], dc_wakeup_ready = False,
                 dc_timer_objects = Map.empty, dc_calls = []\<rparr>)"

definition invoke :: "('w, 'z) handler_call \<Rightarrow> ('w, 'z) handler_call" where
  "invoke call cb c = call cb (c\<lparr>dc_calls := dc_calls c @ [cb]\<rparr>)"

section \<open>Posting and stopping\<close>

definition write_wakeup_fd :: "('w, 'z) default_context_scheme \<Rightarrow> ('w, 'z) default_context_scheme" where
  "write_wakeup_fd c = c\<lparr>dc_wakeup_count := dc_wakeup_count c + 1\<rparr>"

definition drain_wakeup_fd :: "('w, 'z) default_context_scheme \<Rightarrow> ('w, 'z) default_context_scheme" where
  "drain_wakeup_fd c = c\<lparr>dc_wakeup_count := 0\<rparr>"

definition dc_stop :: "('w, 'z) default_context_scheme \<Rightarrow> ('w, 'z) default_context_scheme" where
  "dc_stop c = write_wakeup_fd (c\<lparr>dc_stopped := True\<rparr>)"

definition dc_restart :: "('w, 'z) default_context_scheme \<Rightarrow> ('w, 'z) default_context_scheme" where
  "dc_restart c =
     (let c = c\<lparr>dc_stopped := False\<rparr>;
          c = drain_wakeup_fd c;
          c = c\<lparr>dc_work_queue := []\<rparr>
      in c\<lparr>dc_post_pending := False\<rparr>)"

text \<open>\<open>post\<close> has two steps that are atomic each: the push under the mutex, and the exchange of the flag.\<close>

definition post_push :: "'w \<Rightarrow> ('w, 'z) default_context_scheme \<Rightarrow> ('w, 'z) default_context_scheme" where
  "post_push fn c = c\<lparr>dc_work_queue := dc_work_queue c @ [fn]\<rparr>"

definition post_signal :: "('w, 'z) default_context_scheme \<Rightarrow> ('w, 'z) default_context_scheme" where
  "post_signal c =
     (let old = dc_post_pending c; c = c\<lparr>dc_post_pending := True\<rparr>
      in if \<not> old then write_wakeup_fd c else c)"

definition dc_post :: "'w \<Rightarrow> ('w, 'z) default_context_scheme \<Rightarrow> ('w, 'z) default_context_scheme" where
  "dc_post fn c = post_signal (post_push fn c)"

text \<open>\<open>drain_work_queue\<close>: the swap under the mutex, the store to the flag, then the calls.\<close>

definition swap_queue :: "('w, 'z) default_context_scheme \<Rightarrow> 'w list \<times> ('w, 'z) default_context_scheme" where
  "swap_queue c = (dc_work_queue c, c\<lparr>dc_work_queue := []\<rparr>)"

definition clear_pending :: "('w, 'z) default_context_scheme \<Rightarrow> ('w, 'z) default_context_scheme" where
  "clear_pending c = c\<lparr>dc_post_pending := False\<rparr>"

fun run_work ::
  "('w, 'z) handler_call \<Rightarrow> 'w list \<Rightarrow> ('w, 'z) default_context_scheme \<Rightarrow> ('w, 'z) default_context_scheme option" where
  "run_work call [] c = Some c"
| "run_work call (fn # fns) c = do { c \<leftarrow> invoke call (Posted fn) c; run_work call fns c }"

definition drain_work_queue ::
  "('w, 'z) handler_call \<Rightarrow> ('w, 'z) default_context_scheme \<Rightarrow> ('w, 'z) default_context_scheme option" where
  "drain_work_queue call c = (case swap_queue c of (local, c) \<Rightarrow> run_work call local (clear_pending c))"

section \<open>Sockets and timers\<close>

definition dc_register_socket ::
  "int \<Rightarrow> 'w option \<Rightarrow> ('w, 'z) default_context_scheme \<Rightarrow> ('w, 'z) default_context_scheme" where
  "dc_register_socket fd handler c =
     (if fd \<in> fst ` set (dc_sockets c)
      then (let k = length (takeWhile (\<lambda>e. fst e \<noteq> fd) (dc_sockets c))
            in c\<lparr>dc_sockets := (dc_sockets c)[k := (fd, handler)]\<rparr>)
      else c\<lparr>dc_sockets := dc_sockets c @ [(fd, handler)]\<rparr>)"

definition dc_deregister_socket :: "int \<Rightarrow> ('w, 'z) default_context_scheme \<Rightarrow> ('w, 'z) default_context_scheme" where
  "dc_deregister_socket fd c = c\<lparr>dc_sockets := filter (\<lambda>e. fst e \<noteq> fd) (dc_sockets c)\<rparr>"

definition dc_register_timer :: "nat \<Rightarrow> ('w, 'z) default_context_scheme \<Rightarrow> ('w, 'z) default_context_scheme" where
  "dc_register_timer p c = (if p \<in> set (dc_timers c) then c else c\<lparr>dc_timers := dc_timers c @ [p]\<rparr>)"

definition dc_deregister_timer :: "nat \<Rightarrow> ('w, 'z) default_context_scheme \<Rightarrow> ('w, 'z) default_context_scheme" where
  "dc_deregister_timer p c = c\<lparr>dc_timers := filter (\<lambda>q. q \<noteq> p) (dc_timers c)\<rparr>"

text \<open>
  The members of \<open>DefaultTimer\<close>; an access to a destroyed object is \<open>None\<close>. The handler that \<open>cancel\<close>
  calls may destroy the timer, whose member \<open>m_ctx\<close> is read afterwards.
\<close>

definition put_timer ::
  "nat \<Rightarrow> 'w default_timer \<Rightarrow> ('w, 'z) default_context_scheme \<Rightarrow> ('w, 'z) default_context_scheme" where
  "put_timer p t c = c\<lparr>dc_timer_objects := (dc_timer_objects c)(p \<mapsto> t)\<rparr>"

definition construct_timer :: "nat \<Rightarrow> ('w, 'z) default_context_scheme \<Rightarrow> ('w, 'z) default_context_scheme" where
  "construct_timer p c = put_timer p new_default_timer c"

definition destroy_timer :: "nat \<Rightarrow> ('w, 'z) default_context_scheme \<Rightarrow> ('w, 'z) default_context_scheme" where
  "destroy_timer p c =
     (let c = dc_deregister_timer p c in c\<lparr>dc_timer_objects := (dc_timer_objects c)(p := None)\<rparr>)"

definition timer_expires_after ::
  "int \<Rightarrow> int \<Rightarrow> nat \<Rightarrow> ('w, 'z) default_context_scheme \<Rightarrow> ('w, 'z) default_context_scheme option" where
  "timer_expires_after now dur p c = do {
     t \<leftarrow> dc_timer_objects c p;
     Some (dc_register_timer p (put_timer p (dt_expires_after now dur t) c))
   }"

definition timer_async_wait :: "'w \<Rightarrow> nat \<Rightarrow> ('w, 'z) default_context_scheme \<Rightarrow> ('w, 'z) default_context_scheme option" where
  "timer_async_wait handler p c = do {
     t \<leftarrow> dc_timer_objects c p;
     Some (put_timer p (dt_async_wait handler t) c)
   }"

definition timer_arm ::
  "int \<Rightarrow> int \<Rightarrow> 'w \<Rightarrow> nat \<Rightarrow> ('w, 'z) default_context_scheme \<Rightarrow> ('w, 'z) default_context_scheme option" where
  "timer_arm now dur handler p c = do { c \<leftarrow> timer_expires_after now dur p c; timer_async_wait handler p c }"

definition timer_cancel ::
  "('w, 'z) handler_call \<Rightarrow> nat \<Rightarrow> ('w, 'z) default_context_scheme \<Rightarrow> ('w, 'z) default_context_scheme option" where
  "timer_cancel call p c = do {
     t \<leftarrow> dc_timer_objects c p;
     c \<leftarrow> (case dt_cancel t of
            (t, Some h) \<Rightarrow> invoke call (Wait_done h (Some Operation_canceled)) (put_timer p t c)
          | (t, None) \<Rightarrow> Some c);
     _ \<leftarrow> dc_timer_objects c p;
     Some (dc_deregister_timer p c)
   }"

definition timer_fire_if_expired ::
  "('w, 'z) handler_call \<Rightarrow> int \<Rightarrow> nat \<Rightarrow> ('w, 'z) default_context_scheme \<Rightarrow> ('w, 'z) default_context_scheme option" where
  "timer_fire_if_expired call now p c = do {
     t \<leftarrow> dc_timer_objects c p;
     case dt_fire_if_expired now t of
       (t, Some h) \<Rightarrow> invoke call (Wait_done h None) (put_timer p t c)
     | (t, None) \<Rightarrow> Some c
   }"

text \<open>The loops over the registered timers; \<open>fire_expired_timers\<close> reads the clock for every timer.\<close>

fun next_timeout_loop :: "int \<Rightarrow> (nat \<rightharpoonup> 'w default_timer) \<Rightarrow> nat list \<Rightarrow> int \<Rightarrow> int option" where
  "next_timeout_loop now objs [] min_ms = Some min_ms"
| "next_timeout_loop now objs (p # ps) min_ms = do {
     t \<leftarrow> objs p;
     next_timeout_loop now objs ps (merge_timeout now t min_ms)
   }"

definition compute_next_timeout_ms :: "int \<Rightarrow> ('w, 'z) default_context_scheme \<Rightarrow> int option" where
  "compute_next_timeout_ms now c = next_timeout_loop now (dc_timer_objects c) (dc_timers c) (- 1)"

fun fire_loop ::
  "('w, 'z) handler_call \<Rightarrow> (nat \<Rightarrow> int) \<Rightarrow> nat list \<Rightarrow> ('w, 'z) default_context_scheme \<Rightarrow> ('w, 'z) default_context_scheme option" where
  "fire_loop call clock [] c = Some c"
| "fire_loop call clock (p # ps) c = do {
     c \<leftarrow> timer_fire_if_expired call (clock p) p c;
     fire_loop call clock ps c
   }"

definition fire_expired_timers ::
  "('w, 'z) handler_call \<Rightarrow> (nat \<Rightarrow> int) \<Rightarrow> ('w, 'z) default_context_scheme \<Rightarrow> ('w, 'z) default_context_scheme option" where
  "fire_expired_timers call clock c = fire_loop call clock (dc_timers c) c"

section \<open>Receiving\<close>

text \<open>Control messages of a datagram, with the fields that are read.\<close>

datatype cmsg =
    Ip_ttl "32 word"
  | Ipv6_hoplimit "32 word"
  | Ip_pktinfo "32 word"
  | Ipv6_pktinfo "32 word"
  | Other_cmsg

datatype sender_addr = Sender_in bytes u16 | Sender_in6 bytes u16

record received_msg =
  rcv_data :: bytes
  rcv_sender :: sender_addr
  rcv_control :: "cmsg list"

fun read_cmsg :: "cmsg \<Rightarrow> u8 option \<times> u32 \<Rightarrow> u8 option \<times> u32" where
  "read_cmsg (Ip_ttl v) (ttl, ifindex) = (Some (ucast v), ifindex)"
| "read_cmsg (Ipv6_hoplimit v) (ttl, ifindex) = (Some (ucast v), ifindex)"
| "read_cmsg (Ip_pktinfo i) (ttl, ifindex) = (ttl, i)"
| "read_cmsg (Ipv6_pktinfo i) (ttl, ifindex) = (ttl, i)"
| "read_cmsg Other_cmsg (ttl, ifindex) = (ttl, ifindex)"

fun sender_endpoint :: "(bytes \<Rightarrow> string) \<Rightarrow> (bytes \<Rightarrow> string) \<Rightarrow> sender_addr \<Rightarrow> endpoint" where
  "sender_endpoint ntop4 ntop6 (Sender_in6 a port) = \<lparr>ep_address = ntop6 a, ep_port = port\<rparr>"
| "sender_endpoint ntop4 ntop6 (Sender_in a port) = \<lparr>ep_address = ntop4 a, ep_port = port\<rparr>"

definition recv_meta :: "(bytes \<Rightarrow> string) \<Rightarrow> (bytes \<Rightarrow> string) \<Rightarrow> received_msg \<Rightarrow> recv_metadata" where
  "recv_meta ntop4 ntop6 m =
     (let (ttl, ifindex) = fold read_cmsg (rcv_control m) (None, 0)
      in \<lparr>rm_sender = sender_endpoint ntop4 ntop6 (rcv_sender m), rm_ttl = ttl, rm_ifindex = ifindex\<rparr>)"

text \<open>
  On Windows a message is received with \<open>WSARecvMsg\<close>, of which the control messages are read in the same way, or when
  that function is not available with \<open>recvfrom\<close>, which yields none.
\<close>

definition windows_receive :: "bool \<Rightarrow> received_msg option \<Rightarrow> received_msg option \<Rightarrow> received_msg option" where
  "windows_receive has_wsarecvmsg wsarecvmsg recvfrom =
     (if has_wsarecvmsg then wsarecvmsg else map_option (rcv_control_update (\<lambda>_. [])) recvfrom)"

text \<open>
  The operating system in an iteration of the loop. \<open>os_poll\<close> gets the counter of the \<open>eventfd\<close>, the
  descriptors and the timeout; \<open>os_recvmsg\<close> the position in the array, the descriptor and the size of
  the buffer.
\<close>

datatype poll_result = Poll_error bool | Polled nat "nat \<Rightarrow> bool"

datatype 'w remote = Remote_post 'w | Remote_stop

record 'w os_step =
  os_now :: int
  os_remote :: "'w remote list"
  os_poll :: "nat \<Rightarrow> int list \<Rightarrow> int \<Rightarrow> poll_result"
  os_recvmsg :: "nat \<Rightarrow> int \<Rightarrow> nat \<Rightarrow> received_msg option"
  os_ntop4 :: "bytes \<Rightarrow> string"
  os_ntop6 :: "bytes \<Rightarrow> string"
  os_clock :: "nat \<Rightarrow> int"

fun run_remote :: "'w remote \<Rightarrow> ('w, 'z) default_context_scheme \<Rightarrow> ('w, 'z) default_context_scheme" where
  "run_remote (Remote_post fn) c = dc_post fn c"
| "run_remote Remote_stop c = dc_stop c"

definition do_poll ::
  "'w os_step \<Rightarrow> int \<Rightarrow> ('w, 'z) default_context_scheme \<Rightarrow> poll_result \<times> ('w, 'z) default_context_scheme" where
  "do_poll os timeout_ms c =
     (let c = c\<lparr>dc_wakeup_ready := False\<rparr>;
          fds = dc_wakeup_fd c # map fst (dc_sockets c);
          c = fold run_remote (os_remote os) c;
          r = os_poll os (dc_wakeup_count c) fds timeout_ms
      in case r of
           Poll_error eintr \<Rightarrow> (r, c\<lparr>dc_pollfds := map (\<lambda>fd. \<lparr>pfd_fd = fd, pfd_in = False\<rparr>) fds\<rparr>)
         | Polled rc revents \<Rightarrow>
             (let c = c\<lparr>dc_pollfds := map (\<lambda>(i, fd). \<lparr>pfd_fd = fd, pfd_in = revents i\<rparr>) (enumerate 0 fds)\<rparr>
              in (r, if rc > 0 then c\<lparr>dc_wakeup_ready := revents 0\<rparr> else c)))"

definition any_socket_readable :: "('w, 'z) default_context_scheme \<Rightarrow> bool" where
  "any_socket_readable c = list_ex pfd_in (tl (dc_pollfds c))"

text \<open>
  \<open>dispatch_receives\<close>: the position \<open>i\<close> is the one in \<open>m_sockets\<close>, one less than the one in \<open>m_pollfds\<close>.
  Handlers may register and close sockets, so the entry at a position need not be the polled one. The stored
  closure is called in place: a handler that registers or closes sockets may destroy the closure it runs in, and what it
  does after that is up to \<open>call\<close>, which decides whether the rest of the handler is defined.
\<close>

fun dispatch_loop ::
  "'w os_step \<Rightarrow> ('w, 'z) handler_call \<Rightarrow> nat \<Rightarrow> pollfd list \<Rightarrow> ('w, 'z) default_context_scheme \<Rightarrow>
   ('w, 'z) default_context_scheme option" where
  "dispatch_loop os call i [] c = Some c"
| "dispatch_loop os call i (p # ps) c =
     (if \<not> pfd_in p then dispatch_loop os call (Suc i) ps c
      else if i \<ge> length (dc_sockets c) then dispatch_loop os call (Suc i) ps c
      else case dc_sockets c ! i of
        (fd, None) \<Rightarrow> dispatch_loop os call (Suc i) ps c
      | (fd, Some handler) \<Rightarrow>
          (case os_recvmsg os i fd 4096 of
             None \<Rightarrow> dispatch_loop os call (Suc i) ps c
           | Some m \<Rightarrow> do {
               c \<leftarrow> invoke call (Received handler (recv_meta (os_ntop4 os) (os_ntop6 os) m) (rcv_data m)) c;
               dispatch_loop os call (Suc i) ps c
             }))"

definition dispatch_receives ::
  "'w os_step \<Rightarrow> ('w, 'z) handler_call \<Rightarrow> ('w, 'z) default_context_scheme \<Rightarrow> ('w, 'z) default_context_scheme option" where
  "dispatch_receives os call c = dispatch_loop os call 0 (tl (dc_pollfds c)) c"

section \<open>The loop\<close>

text \<open>The end of an iteration of \<open>run\<close>, after the test for a stop.\<close>

definition serve_ready ::
  "'w os_step \<Rightarrow> ('w, 'z) handler_call \<Rightarrow> ('w, 'z) default_context_scheme \<Rightarrow> ('w, 'z) default_context_scheme option" where
  "serve_ready os call c = do {
     c \<leftarrow> (if dc_wakeup_ready c then drain_work_queue call c else Some c);
     c \<leftarrow> (if any_socket_readable c then dispatch_receives os call c else Some c);
     fire_expired_timers call (os_clock os) c
   }"

text \<open>
  \<open>run\<close> on a sequence of iterations: \<open>Returned\<close> when the loop has ended, \<open>Looping\<close> when it waits for the
  next iteration.
\<close>

datatype 'c run_result = Returned 'c | Looping 'c

fun run_context ::
  "('w, 'z) handler_call \<Rightarrow> 'w os_step list \<Rightarrow> ('w, 'z) default_context_scheme \<Rightarrow>
   ('w, 'z) default_context_scheme run_result option" where
  "run_context call [] c = Some (if dc_stopped c then Returned c else Looping c)"
| "run_context call (os # oss) c =
     (if dc_stopped c then Some (Returned c)
      else do {
        timeout \<leftarrow> compute_next_timeout_ms (os_now os) c;
        case do_poll os timeout c of
          (Poll_error eintr, c) \<Rightarrow> if eintr then run_context call oss c else Some (Returned c)
        | (Polled _ _, c) \<Rightarrow>
            (let c = (if dc_wakeup_ready c then drain_wakeup_fd c else c)
             in if dc_wakeup_ready c \<and> dc_stopped c then Some (Returned c)
                else do { c \<leftarrow> serve_ready os call c; run_context call oss c })
      })"

definition poll_one ::
  "('w, 'z) handler_call \<Rightarrow> 'w os_step \<Rightarrow> ('w, 'z) default_context_scheme \<Rightarrow> ('w, 'z) default_context_scheme option" where
  "poll_one call os c =
     (case do_poll os 0 c of
        (Poll_error eintr, c) \<Rightarrow> Some c
      | (Polled _ _, c) \<Rightarrow>
          if dc_wakeup_ready c then
            (let c = drain_wakeup_fd c in if dc_stopped c then Some c else drain_work_queue call c)
          else if any_socket_readable c then dispatch_receives os call c
          else fire_expired_timers call (os_clock os) c)"

end
