(* ===== verification/Default_Loop.thy ===== *)
theory Default_Loop
  imports Default_Context "HOL-Library.Sublist"
begin

text \<open>
  Properties of the event loop of the default policy: the delay handed to \<open>poll\<close>, the order of calls,
  the end of the loop after a stop, and the firing of timers. What the loop relies on in the
  functions that it calls is the locale \<open>event_loop_client\<close>; it is interpreted for the functions that use the
  members of the context and of its timers.
\<close>

section \<open>The registered timers\<close>

text \<open>Registered timers exist, and a timer with a pending handler is registered.\<close>

definition timers_ok :: "('w, 'z) default_context_scheme \<Rightarrow> bool" where
  "timers_ok c \<longleftrightarrow> distinct (dc_timers c) \<and> set (dc_timers c) \<subseteq> dom (dc_timer_objects c) \<and>
     (\<forall>p t. dc_timer_objects c p = Some t \<longrightarrow> dt_has_pending t \<longrightarrow> p \<in> set (dc_timers c))"

lemmas timer_op_defs = dc_register_timer_def dc_deregister_timer_def put_timer_def construct_timer_def destroy_timer_def
  timer_expires_after_def timer_async_wait_def timer_arm_def

lemmas dt_op_defs = dt_has_pending_def dt_expires_after_def dt_async_wait_def new_default_timer_def

lemma timers_ok_other [simp]:
  "timers_ok (c\<lparr>dc_stopped := a\<rparr>) = timers_ok c" "timers_ok (c\<lparr>dc_work_queue := b\<rparr>) = timers_ok c"
  "timers_ok (c\<lparr>dc_post_pending := a\<rparr>) = timers_ok c" "timers_ok (c\<lparr>dc_sockets := d\<rparr>) = timers_ok c"
  "timers_ok (c\<lparr>dc_wakeup_count := e\<rparr>) = timers_ok c" "timers_ok (c\<lparr>dc_pollfds := f\<rparr>) = timers_ok c"
  "timers_ok (c\<lparr>dc_wakeup_ready := a\<rparr>) = timers_ok c" "timers_ok (c\<lparr>dc_calls := g\<rparr>) = timers_ok c"
  by (auto simp: timers_ok_def)

lemma timers_ok_new: "new_default_context fd = Some c \<Longrightarrow> timers_ok c"
  by (auto simp: new_default_context_def timers_ok_def split: if_splits)

lemma timers_ok_construct: "timers_ok c \<Longrightarrow> p \<notin> dom (dc_timer_objects c) \<Longrightarrow> timers_ok (construct_timer p c)"
  by (auto simp: timers_ok_def timer_op_defs dt_op_defs split: if_splits)

lemma timers_ok_destroy: "timers_ok c \<Longrightarrow> timers_ok (destroy_timer p c)"
  by (auto simp: timers_ok_def timer_op_defs Let_def split: if_splits)

lemma timers_ok_arm: "timers_ok c \<Longrightarrow> timer_arm now d h p c = Some c' \<Longrightarrow> timers_ok c'"
  by (auto simp: timers_ok_def timer_op_defs dt_op_defs split: if_splits bind_splits)

lemma timer_arm_effect:
  assumes "p \<in> dom (dc_timer_objects c)"
  shows "\<exists>c'. timer_arm now d h p c = Some c' \<and> dom (dc_timer_objects c') = dom (dc_timer_objects c) \<and>
              dc_calls c' = dc_calls c \<and> dc_stopped c' = dc_stopped c \<and> dc_timer_objects c' p \<noteq> None \<and>
              dt_pending_handler (the (dc_timer_objects c' p)) = Some h \<and>
              dt_deadline (the (dc_timer_objects c' p)) = now + d * 1000000"
  using assms by (auto simp: timer_op_defs dt_op_defs)

section \<open>The delay handed to poll\<close>

definition pending_in :: "(nat \<rightharpoonup> 'w default_timer) \<Rightarrow> nat list \<Rightarrow> 'w default_timer list" where
  "pending_in objs ps = filter dt_has_pending (map (the \<circ> objs) ps)"

lemma next_timeout_loop_eq:
  assumes "set ps \<subseteq> dom objs" and "\<forall>t\<in>set (pending_in objs ps). dt_deadline t - now < 2 ^ 31 * 1000000"
    and "- 1 \<le> m"
  shows "\<exists>ms. next_timeout_loop now objs ps m = Some ms \<and> - 1 \<le> ms \<and>
           (ms = - 1 \<longleftrightarrow> m = - 1 \<and> pending_in objs ps = []) \<and>
           (ms \<noteq> - 1 \<longrightarrow> (m = ms \<or> (\<exists>t\<in>set (pending_in objs ps). remaining_ms now t = ms)) \<and>
              (m = - 1 \<or> ms \<le> m) \<and> (\<forall>t\<in>set (pending_in objs ps). ms \<le> remaining_ms now t))"
  using assms
proof (induction ps arbitrary: m)
  case Nil
  then show ?case by (simp add: pending_in_def)
next
  case (Cons p ps)
  obtain t where t: "objs p = Some t" using Cons.prems(1) by auto
  show ?case
  proof (cases "dt_has_pending t")
    case False
    then show ?thesis using Cons t by (simp add: pending_in_def merge_timeout_def)
  next
    case True
    then have pend: "pending_in objs (p # ps) = t # pending_in objs ps" by (simp add: pending_in_def t)
    then have r: "0 \<le> remaining_ms now t" using Cons.prems(2) remaining_ms_bounds by auto
    then have "- 1 \<le> merge_timeout now t m" using Cons.prems(3) by (simp add: merge_timeout_def Let_def)
    with Cons.IH [of "merge_timeout now t m"] Cons.prems pend obtain ms where
      ms: "next_timeout_loop now objs ps (merge_timeout now t m) = Some ms" "- 1 \<le> ms"
        "(ms = - 1 \<longleftrightarrow> merge_timeout now t m = - 1 \<and> pending_in objs ps = [])"
        "(ms \<noteq> - 1 \<longrightarrow> (merge_timeout now t m = ms \<or> (\<exists>t\<in>set (pending_in objs ps). remaining_ms now t = ms)) \<and>
              (merge_timeout now t m = - 1 \<or> ms \<le> merge_timeout now t m) \<and> (\<forall>t\<in>set (pending_in objs ps). ms \<le> remaining_ms now t))"
      by auto
    have m': "merge_timeout now t m \<noteq> - 1" "merge_timeout now t m \<le> remaining_ms now t" "m = - 1 \<or> merge_timeout now t m \<le> m"
      "merge_timeout now t m = m \<or> merge_timeout now t m = remaining_ms now t"
      using True r Cons.prems(3) by (auto simp: merge_timeout_def Let_def)
    have "ms \<noteq> - 1" using ms(3) m'(1) by simp
    then show ?thesis using ms m' t unfolding pend by auto
  qed
qed

lemma pending_in_iff:
  assumes "timers_ok c"
  shows "t \<in> set (pending_in (dc_timer_objects c) (dc_timers c)) \<longleftrightarrow> (\<exists>p. dc_timer_objects c p = Some t \<and> dt_has_pending t)"
  using assms by (force simp: timers_ok_def pending_in_def)

lemma next_timeout_loop_defined: "set ps \<subseteq> dom objs \<Longrightarrow> \<exists>ms. next_timeout_loop now objs ps m = Some ms"
  by (induction ps arbitrary: m) auto

lemma compute_next_timeout_defined: "timers_ok c \<Longrightarrow> \<exists>ms. compute_next_timeout_ms now c = Some ms"
  by (simp add: compute_next_timeout_ms_def timers_ok_def next_timeout_loop_defined)

text \<open>
  C26: The delay that the loop hands to \<open>poll\<close>: when every pending wait ends within 2^31 milliseconds it is
  -1 (wait indefinitely) exactly when no wait is pending; otherwise \<open>poll\<close> is told to return no later than
  the earliest deadline and less than one millisecond before it.
\<close>

theorem next_timeout_earliest:
  assumes "timers_ok c"
    and "\<forall>p t. dc_timer_objects c p = Some t \<and> dt_has_pending t \<longrightarrow> dt_deadline t - now < 2 ^ 31 * 1000000"
  shows "\<exists>ms. compute_next_timeout_ms now c = Some ms \<and>
     (ms = - 1 \<longleftrightarrow> (\<forall>p t. dc_timer_objects c p = Some t \<longrightarrow> \<not> dt_has_pending t)) \<and>
     (ms \<noteq> - 1 \<longrightarrow> 0 \<le> ms \<and>
        (\<forall>p t. dc_timer_objects c p = Some t \<and> dt_has_pending t \<longrightarrow> now + ms * 1000000 \<le> max now (dt_deadline t)) \<and>
        (\<exists>p t. dc_timer_objects c p = Some t \<and> dt_has_pending t \<and> dt_deadline t < now + (ms + 1) * 1000000))"
proof -
  let ?P = "pending_in (dc_timer_objects c) (dc_timers c)"
  note iff = pending_in_iff [OF assms(1)]
  have sub: "set (dc_timers c) \<subseteq> dom (dc_timer_objects c)" using assms(1) by (simp add: timers_ok_def)
  have near: "\<forall>t\<in>set ?P. dt_deadline t - now < 2 ^ 31 * 1000000" using assms(2) iff by blast
  from next_timeout_loop_eq [OF sub near, of "- 1"] obtain ms where
    ms: "compute_next_timeout_ms now c = Some ms" "- 1 \<le> ms" "ms = - 1 \<longleftrightarrow> ?P = []"
      "ms \<noteq> - 1 \<longrightarrow> (\<exists>t\<in>set ?P. remaining_ms now t = ms) \<and> (\<forall>t\<in>set ?P. ms \<le> remaining_ms now t)"
    by (auto simp: compute_next_timeout_ms_def)
  have "?P = [] \<longleftrightarrow> (\<forall>p t. dc_timer_objects c p = Some t \<longrightarrow> \<not> dt_has_pending t)"
    using iff by (metis empty_iff list.set(1) set_empty2 equals0I)
  moreover have "now + ms * 1000000 \<le> max now (dt_deadline t)" if "ms \<noteq> - 1" "t \<in> set ?P" for t
  proof -
    have "ms * 1000000 \<le> remaining_ms now t * 1000000" using that ms(4) by simp
    then show ?thesis using remaining_ms_bounds [of t now] near that(2) by fastforce
  qed
  moreover have "\<exists>t\<in>set ?P. dt_deadline t < now + (ms + 1) * 1000000" if "ms \<noteq> - 1"
    using ms(4) that remaining_ms_bounds near by blast
  ultimately show ?thesis using ms iff by (intro exI [of _ ms]) (smt (verit, best))
qed

definition two_timers :: "int \<Rightarrow> string default_context" where
  "two_timers d =
     the (do {
       c \<leftarrow> new_default_context 3;
       c \<leftarrow> timer_arm 0 5 ''response'' 1 (construct_timer 1 c);
       timer_arm 0 d ''silence'' 2 (construct_timer 2 c)
     })"

lemma two_timers_eq:
  "two_timers d =
     \<lparr>dc_stopped = False, dc_work_queue = [], dc_post_pending = False, dc_sockets = [], dc_timers = [1, 2],
      dc_wakeup_fd = 3, dc_wakeup_count = 0, dc_pollfds = [], dc_wakeup_ready = False,
      dc_timer_objects = [1 \<mapsto> \<lparr>dt_deadline = 5000000, dt_pending_handler = Some ''response''\<rparr>,
                          2 \<mapsto> \<lparr>dt_deadline = d * 1000000, dt_pending_handler = Some ''silence''\<rparr>],
      dc_calls = []\<rparr>"
  by (auto simp: two_timers_def new_default_context_def timer_op_defs dt_op_defs)

lemma two_timers_ok: "timers_ok (two_timers d)"
  by (auto simp: two_timers_eq timers_ok_def split: if_splits)

theorem next_timeout_earliest_witness:
  "\<exists>ms. compute_next_timeout_ms 1500000 (two_timers 9) = Some ms \<and> 0 \<le> ms \<and> 1500000 + ms * 1000000 \<le> 5000000 \<and>
        5000000 < 1500000 + (ms + 1) * 1000000"
proof -
  have obj: "dc_timer_objects (two_timers 9) p = Some t \<Longrightarrow> t = \<lparr>dt_deadline = 5000000, dt_pending_handler = Some ''response''\<rparr> \<or>
      t = \<lparr>dt_deadline = 9000000, dt_pending_handler = Some ''silence''\<rparr>" for p t
    by (auto simp: two_timers_eq split: if_splits)
  have one: "dc_timer_objects (two_timers 9) 1 = Some \<lparr>dt_deadline = 5000000, dt_pending_handler = Some ''response''\<rparr>"
    by (simp add: two_timers_eq)
  have near: "\<forall>p t. dc_timer_objects (two_timers 9) p = Some t \<and> dt_has_pending t \<longrightarrow> dt_deadline t - 1500000 < 2 ^ 31 * 1000000"
    using obj by fastforce
  from next_timeout_earliest [of "two_timers 9", OF two_timers_ok near] obtain ms where
    ms: "compute_next_timeout_ms 1500000 (two_timers 9) = Some ms"
      "ms = - 1 \<longleftrightarrow> (\<forall>p t. dc_timer_objects (two_timers 9) p = Some t \<longrightarrow> \<not> dt_has_pending t)"
      "ms \<noteq> - 1 \<longrightarrow> 0 \<le> ms \<and>
        (\<forall>p t. dc_timer_objects (two_timers 9) p = Some t \<and> dt_has_pending t \<longrightarrow> 1500000 + ms * 1000000 \<le> max 1500000 (dt_deadline t)) \<and>
        (\<exists>p t. dc_timer_objects (two_timers 9) p = Some t \<and> dt_has_pending t \<and> dt_deadline t < 1500000 + (ms + 1) * 1000000)"
    by blast
  have hp: "dt_has_pending \<lparr>dt_deadline = 5000000, dt_pending_handler = Some ''response''\<rparr>" by (simp add: dt_has_pending_def)
  have "ms \<noteq> - 1" using ms(2) one hp by blast
  moreover from this have "1500000 + ms * 1000000 \<le> max 1500000 5000000"
    using ms(3) one hp by fastforce
  moreover obtain p t where "dc_timer_objects (two_timers 9) p = Some t" "dt_deadline t < 1500000 + (ms + 1) * 1000000"
    using ms(3) calculation(1) by blast
  then have "5000000 < 1500000 + (ms + 1) * 1000000" using obj by force
  ultimately show ?thesis using ms(1,3) by auto
qed

lemma next_timeout_loop_append:
  "next_timeout_loop now objs (ps @ qs) m = do { m \<leftarrow> next_timeout_loop now objs ps m; next_timeout_loop now objs qs m }"
  by (induction ps arbitrary: m) (auto split: bind_splits)

text \<open>
  C27: The one-year silence timeout of server, monitor and observer does not fit the 32-bit timeout of \<open>poll\<close>:
  from the 18th to the 41st day without a relevant packet the loop asks \<open>poll\<close> to wait indefinitely, although
  other timers that were registered before it are pending or already due.
\<close>

theorem silence_timer_blocks_poll:
  assumes "timers_ok c" and "dc_timers c = ps @ [q]" and "dc_timer_objects c q = Some t" and "dt_has_pending t"
    and "dt_deadline t = start + 24 * 365 * 3600 * 1000 * 1000000"
    and "start + 18 * 24 * 3600 * 1000 * 1000000 \<le> now" and "now \<le> start + 41 * 24 * 3600 * 1000 * 1000000"
  shows "\<exists>ms. compute_next_timeout_ms now c = Some ms \<and> ms < 0"
proof -
  have "set ps \<subseteq> dom (dc_timer_objects c)" using assms(1,2) by (auto simp: timers_ok_def)
  then obtain m where m: "next_timeout_loop now (dc_timer_objects c) ps (- 1) = Some m"
    using next_timeout_loop_defined by blast
  define raw where "raw = (dt_deadline t - now) div 1000000"
  have raw: "27993600000 \<le> raw" "raw \<le> 29980800000"
    using assms(5-7) by (auto simp: raw_def)
  have "(raw + 2 ^ 31 - 7 * 2 ^ 32 + 7 * 2 ^ 32) mod 2 ^ 32 = (raw + 2 ^ 31 - 7 * 2 ^ 32) mod 2 ^ 32"
    by (rule mod_mult_self1)
  also have "\<dots> = raw + 2 ^ 31 - 7 * 2 ^ 32" by (rule mod_pos_pos_trivial) (use raw in auto)
  finally have "int32_of raw < 0" using raw by (simp add: int32_of_eq add.commute)
  moreover have "remaining_ms now t = int32_of raw"
    using raw assms(5,7) by (auto simp: remaining_ms_def duration_cast_ms_def raw_def Let_def)
  ultimately show ?thesis
    using m assms(3,4) by (auto simp: compute_next_timeout_ms_def assms(2) next_timeout_loop_append merge_timeout_def Let_def)
qed

theorem silence_timer_blocks_poll_witness:
  "\<exists>ms. compute_next_timeout_ms (20 * 24 * 3600 * 1000 * 1000000) (two_timers (24 * 365 * 3600 * 1000)) = Some ms \<and> ms < 0"
  by (rule silence_timer_blocks_poll [OF two_timers_ok, where ps = "[1]" and q = 2 and start = 0 and
        t = "\<lparr>dt_deadline = 31536000000000000, dt_pending_handler = Some ''silence''\<rparr>"])
    (simp_all add: two_timers_eq dt_has_pending_def)

end
