(* ===== verification/Default_Run.thy ===== *)
theory Default_Run
  imports Default_Loop
begin

text \<open>
  The event loop of the default policy together with the functions that it calls. A function is a
  sequence of actions on the context: it posts, stops, registers and closes sockets, and constructs, arms,
  cancels and destroys timers; a handler that is told of its cancellation returns at once, as all
  handlers of the library do. A receive handler runs inside the closure that the socket table stores, which a change of that
  table destroys or moves: it is undefined that it goes on after such a change, so that it may only end with it, as the
  handler of \<open>recv_loop\<close> does when it arms the next receive. The loop relies on the locale \<open>event_loop_client\<close>, which
  these functions satisfy when they destroy no timer and keep to that rule.
\<close>

section \<open>Client functions\<close>

datatype 'w context_action =
    Act_post 'w
  | Act_stop
  | Act_register int 'w
  | Act_deregister int
  | Act_construct nat
  | Act_arm int int 'w nat
  | Act_cancel nat
  | Act_destroy nat

text \<open>A timer is constructed at an address that is not in use, and only existing timers are used.\<close>

fun client_action :: "'w context_action \<Rightarrow> ('w, 'z) default_context_scheme \<Rightarrow> ('w, 'z) default_context_scheme option" where
  "client_action (Act_post fn) c = Some (dc_post fn c)"
| "client_action Act_stop c = Some (dc_stop c)"
| "client_action (Act_register fd h) c = Some (dc_register_socket fd (Some h) c)"
| "client_action (Act_deregister fd) c = Some (dc_deregister_socket fd c)"
| "client_action (Act_construct p) c = Some (if dc_timer_objects c p \<noteq> None then c else construct_timer p c)"
| "client_action (Act_arm now d h p) c = (if dc_timer_objects c p \<noteq> None then timer_arm now d h p c else Some c)"
| "client_action (Act_cancel p) c = (if dc_timer_objects c p \<noteq> None then timer_cancel (\<lambda>_. Some) p c else Some c)"
| "client_action (Act_destroy p) c = Some (if dc_timer_objects c p \<noteq> None then destroy_timer p c else c)"

fun client_actions :: "'w context_action list \<Rightarrow> ('w, 'z) default_context_scheme \<Rightarrow> ('w, 'z) default_context_scheme option" where
  "client_actions [] c = Some c"
| "client_actions (a # as) c = do { c \<leftarrow> client_action a c; client_actions as c }"

fun changes_sockets :: "'w context_action \<Rightarrow> bool" where
  "changes_sockets (Act_register fd h) = True"
| "changes_sockets (Act_deregister fd) = True"
| "changes_sockets _ = False"

fun rearms_last :: "'w context_action list \<Rightarrow> bool" where
  "rearms_last [] = True"
| "rearms_last (a # as) = ((changes_sockets a \<longrightarrow> as = []) \<and> rearms_last as)"

fun is_received :: "'w callback \<Rightarrow> bool" where
  "is_received (Received h meta data) = True"
| "is_received _ = False"

definition client_call :: "('w callback \<Rightarrow> 'w context_action list) \<Rightarrow> ('w, 'z) handler_call" where
  "client_call prog cb c = (if is_received cb \<and> \<not> rearms_last (prog cb) then None else client_actions (prog cb) c)"

fun keeps_timers :: "'w context_action \<Rightarrow> bool" where
  "keeps_timers (Act_destroy p) = False"
| "keeps_timers _ = True"

text \<open>Functions that destroy no timer and receive handlers that end with a change of the sockets.\<close>

definition well_behaved :: "('w callback \<Rightarrow> 'w context_action list) \<Rightarrow> bool" where
  "well_behaved prog \<longleftrightarrow> (\<forall>cb. list_all keeps_timers (prog cb) \<and> (is_received cb \<longrightarrow> rearms_last (prog cb)))"

definition tamed :: "('w callback \<Rightarrow> 'w context_action list) \<Rightarrow> 'w callback \<Rightarrow> 'w context_action list" where
  "tamed prog = (if well_behaved prog then prog else (\<lambda>_. []))"

lemma tamed_well_behaved: "well_behaved (tamed prog)" "well_behaved prog \<Longrightarrow> tamed prog = prog"
  by (simp_all add: tamed_def well_behaved_def)

fun avoids :: "nat \<Rightarrow> 'w context_action \<Rightarrow> bool" where
  "avoids p (Act_arm now d h q) = (q \<noteq> p)"
| "avoids p (Act_cancel q) = (q \<noteq> p)"
| "avoids p (Act_destroy q) = (q \<noteq> p)"
| "avoids p (Act_construct q) = (q \<noteq> p)"
| "avoids p _ = True"

section \<open>What the loop relies on\<close>

text \<open>The posted functions among the calls.\<close>

fun posted_of :: "'w callback list \<Rightarrow> 'w list" where
  "posted_of [] = []"
| "posted_of (Posted fn # cs) = fn # posted_of cs"
| "posted_of (_ # cs) = posted_of cs"

lemma posted_of_append [simp]: "posted_of (xs @ ys) = posted_of xs @ posted_of ys"
  by (induction xs rule: posted_of.induct) auto

text \<open>Queued work has its flag set, and a set flag a wakeup under way.\<close>

definition wakeup_ok :: "('w, 'z) default_context_scheme \<Rightarrow> bool" where
  "wakeup_ok c \<longleftrightarrow> (dc_work_queue c \<noteq> [] \<longrightarrow> dc_post_pending c) \<and> (dc_post_pending c \<longrightarrow> dc_wakeup_count c > 0)"

text \<open>From \<open>c\<close> to \<open>c'\<close> calls were made, those of posted functions are \<open>ws\<close>.\<close>

definition advances :: "'w list \<Rightarrow> ('w, 'z) default_context_scheme \<Rightarrow> ('w, 'z) default_context_scheme \<Rightarrow> bool" where
  "advances ws c c' \<longleftrightarrow> timers_ok c' \<and> dom (dc_timer_objects c) \<subseteq> dom (dc_timer_objects c') \<and>
     prefix (dc_calls c) (dc_calls c') \<and> posted_of (dc_calls c') = posted_of (dc_calls c) @ ws \<and>
     (wakeup_ok c \<longrightarrow> wakeup_ok c')"

lemma advances_trans: "advances ws c c' \<Longrightarrow> advances vs c' c'' \<Longrightarrow> advances (ws @ vs) c c''"
  by (auto simp: advances_def)

lemma advances_refl: "timers_ok c \<Longrightarrow> advances [] c c"
  by (simp add: advances_def)

lemma advances_ok: "advances ws c c' \<Longrightarrow> timers_ok c'"
  by (simp add: advances_def)

lemma advances_bind:
  "x = Some c1 \<Longrightarrow> advances ws c c1 \<Longrightarrow> \<exists>c2. f c1 = Some c2 \<and> advances vs c1 c2 \<Longrightarrow>
   \<exists>c2. x \<bind> f = Some c2 \<and> advances (ws @ vs) c c2"
  by (auto intro: advances_trans)

lemma wakeup_ok_other [simp]:
  "wakeup_ok (c\<lparr>dc_calls := l\<rparr>) = wakeup_ok c" "wakeup_ok (c\<lparr>dc_timer_objects := m\<rparr>) = wakeup_ok c"
  "wakeup_ok (c\<lparr>dc_timers := ts\<rparr>) = wakeup_ok c" "wakeup_ok (c\<lparr>dc_sockets := ss\<rparr>) = wakeup_ok c"
  "wakeup_ok (c\<lparr>dc_stopped := b\<rparr>) = wakeup_ok c" "wakeup_ok (c\<lparr>dc_pollfds := fs\<rparr>) = wakeup_ok c"
  "wakeup_ok (c\<lparr>dc_wakeup_ready := b\<rparr>) = wakeup_ok c"
  by (simp_all add: wakeup_ok_def)

lemma wakeup_ok_post: "wakeup_ok c \<Longrightarrow> wakeup_ok (dc_post fn c)"
  by (auto simp: wakeup_ok_def dc_post_def post_push_def post_signal_def write_wakeup_fd_def Let_def)

lemma wakeup_ok_stop: "wakeup_ok c \<Longrightarrow> wakeup_ok (dc_stop c)"
  by (auto simp: wakeup_ok_def dc_stop_def write_wakeup_fd_def)

lemma advances_post: "timers_ok c \<Longrightarrow> advances [] c (dc_post fn c)"
  using wakeup_ok_post [of c fn]
  by (auto simp: advances_def dc_post_def post_push_def post_signal_def write_wakeup_fd_def Let_def)

lemma advances_stop: "timers_ok c \<Longrightarrow> advances [] c (dc_stop c)"
  using wakeup_ok_stop [of c] by (auto simp: advances_def dc_stop_def write_wakeup_fd_def)

lemma advances_remote: "timers_ok c \<Longrightarrow> advances [] c (fold run_remote rs c)"
proof (induction rs arbitrary: c)
  case Nil
  then show ?case by (simp add: advances_refl)
next
  case (Cons r rs)
  have "advances [] c (run_remote r c)" using Cons.prems by (cases r) (simp_all add: advances_post advances_stop)
  then show ?case using Cons.IH [OF advances_ok] advances_trans by fastforce
qed

lemma advances_do_poll: "timers_ok c \<Longrightarrow> advances [] c (snd (do_poll os timeout c))"
  using advances_remote [of "c\<lparr>dc_wakeup_ready := False\<rparr>" "os_remote os"]
  by (auto simp: do_poll_def advances_def Let_def split: poll_result.split)

text \<open>The context after the wakeup has been consumed.\<close>

definition woken :: "('w, 'z) default_context_scheme \<Rightarrow> ('w, 'z) default_context_scheme" where
  "woken c = (if dc_wakeup_ready c then drain_wakeup_fd c else c)"

fun result_context :: "'c run_result \<Rightarrow> 'c" where
  "result_context (Returned c) = c"
| "result_context (Looping c) = c"

lemma run_context_iteration:
  assumes "\<not> dc_stopped c" and "compute_next_timeout_ms (os_now os) c = Some ms" and "do_poll os ms c = (Polled rc ev, c1)"
  shows "run_context call (os # oss) c =
     (if dc_wakeup_ready c1 \<and> dc_stopped c1 then Some (Returned (woken c1))
      else do { c \<leftarrow> serve_ready os call (woken c1); run_context call oss c })"
  using assms by (auto simp: woken_def drain_wakeup_fd_def)

lemma woken_ready [simp]: "dc_wakeup_ready (woken c) = dc_wakeup_ready c"
  by (simp add: woken_def drain_wakeup_fd_def)

locale event_loop_client =
  fixes call :: "('w, 'z) handler_call"
  assumes call_ok: "timers_ok c \<Longrightarrow> \<exists>c'. call cb c = Some c' \<and> advances [] c c'"
begin

lemma invoke_ok: "timers_ok c \<Longrightarrow> \<exists>c'. invoke call cb c = Some c' \<and> advances (posted_of [cb]) c c'"
  using call_ok [of "c\<lparr>dc_calls := dc_calls c @ [cb]\<rparr>" cb]
  by (auto simp: invoke_def advances_def dest: append_prefixD)

lemma run_work_ok: "timers_ok c \<Longrightarrow> \<exists>c'. run_work call ws c = Some c' \<and> advances ws c c'"
proof (induction ws arbitrary: c)
  case Nil
  then show ?case by (simp add: advances_refl)
next
  case (Cons w ws)
  obtain c1 where c1: "invoke call (Posted w) c = Some c1" "advances [w] c c1"
    using invoke_ok [OF Cons.prems, of "Posted w"] by auto
  show ?case using advances_bind [where f = "run_work call ws", OF c1 Cons.IH [OF advances_ok [OF c1(2)]]] by simp
qed

lemma fire_ok:
  assumes "timers_ok c" and "p \<in> dom (dc_timer_objects c)"
  shows "\<exists>c'. timer_fire_if_expired call now p c = Some c' \<and> advances [] c c'"
proof -
  from assms(2) obtain t where t: "dc_timer_objects c p = Some t" by blast
  show ?thesis
  proof (cases "dt_has_pending t \<and> dt_deadline t \<le> now")
    case True
    then obtain h where h: "dt_pending_handler t = Some h" by (auto simp: dt_has_pending_def)
    let ?c = "put_timer p (t\<lparr>dt_pending_handler := None\<rparr>) c"
    have "timers_ok ?c" using assms t by (auto simp: timers_ok_def put_timer_def dt_has_pending_def)
    from invoke_ok [OF this, of "Wait_done h None"] obtain c' where
      "invoke call (Wait_done h None) ?c = Some c'" "advances [] ?c c'" by auto
    then show ?thesis using True h t
      by (auto simp: timer_fire_if_expired_def dt_fire_cases advances_def put_timer_def)
  next
    case False
    then show ?thesis using t assms(1) by (auto simp: timer_fire_if_expired_def dt_fire_cases advances_refl)
  qed
qed

lemma fire_loop_ok:
  "timers_ok c \<Longrightarrow> set ps \<subseteq> dom (dc_timer_objects c) \<Longrightarrow> \<exists>c'. fire_loop call clock ps c = Some c' \<and> advances [] c c'"
proof (induction ps arbitrary: c)
  case Nil
  then show ?case by (simp add: advances_refl)
next
  case (Cons p ps)
  then obtain c1 where c1: "timer_fire_if_expired call (clock p) p c = Some c1" "advances [] c c1"
    using fire_ok [of c p "clock p"] by auto
  then have "timers_ok c1" "set ps \<subseteq> dom (dc_timer_objects c1)" using Cons.prems by (auto simp: advances_def)
  then show ?case using advances_bind [where f = "fire_loop call clock ps", OF c1 Cons.IH] by simp
qed

lemma fire_expired_timers_ok: "timers_ok c \<Longrightarrow> \<exists>c'. fire_expired_timers call clock c = Some c' \<and> advances [] c c'"
  unfolding fire_expired_timers_def by (rule fire_loop_ok) (auto simp: timers_ok_def)

lemma dispatch_loop_ok: "timers_ok c \<Longrightarrow> \<exists>c'. dispatch_loop os call i ps c = Some c' \<and> advances [] c c'"
proof (induction ps arbitrary: i c)
  case Nil
  then show ?case by (simp add: advances_refl)
next
  case (Cons p ps)
  note skip = Cons.IH [OF Cons.prems, of "Suc i"]
  show ?case
  proof (cases "pfd_in p \<and> i < length (dc_sockets c) \<and> snd (dc_sockets c ! i) \<noteq> None \<and>
                os_recvmsg os i (fst (dc_sockets c ! i)) 4096 \<noteq> None")
    case True
    then obtain fd h m where s: "dc_sockets c ! i = (fd, Some h)" "os_recvmsg os i fd 4096 = Some m"
      by (cases "dc_sockets c ! i") auto
    obtain c1 where c1: "invoke call (Received h (recv_meta (os_ntop4 os) (os_ntop6 os) m) (rcv_data m)) c = Some c1" "advances [] c c1"
      using invoke_ok [OF Cons.prems, of "Received h (recv_meta (os_ntop4 os) (os_ntop6 os) m) (rcv_data m)"] by auto
    show ?thesis using True s advances_bind [where f = "dispatch_loop os call (Suc i) ps", OF c1 Cons.IH [OF advances_ok [OF c1(2)]]] by simp
  next
    case False
    then have "dispatch_loop os call i (p # ps) c = dispatch_loop os call (Suc i) ps c"
      by (cases "dc_sockets c ! i") (auto split: option.splits)
    then show ?thesis using skip by simp
  qed
qed

lemma drain_ok: "timers_ok c \<Longrightarrow> \<exists>c'. drain_work_queue call (drain_wakeup_fd c) = Some c' \<and> advances (dc_work_queue c) c c'"
  using run_work_ok [of "clear_pending (c\<lparr>dc_wakeup_count := 0, dc_work_queue := []\<rparr>)" "dc_work_queue c"]
  by (auto simp: drain_work_queue_def swap_queue_def drain_wakeup_fd_def clear_pending_def advances_def wakeup_ok_def)

lemma serve_ready_ok:
  assumes "timers_ok c"
  shows "\<exists>c'. serve_ready os call (woken c) = Some c' \<and> advances (if dc_wakeup_ready c then dc_work_queue c else []) c c'"
proof -
  have "dc_wakeup_ready (woken c) = dc_wakeup_ready c" by (simp add: woken_def drain_wakeup_fd_def)
  then obtain c1 where c1: "(if dc_wakeup_ready (woken c) then drain_work_queue call (woken c) else Some (woken c)) = Some c1"
      "advances (if dc_wakeup_ready c then dc_work_queue c else []) c c1"
    using drain_ok [OF assms] advances_refl [OF assms] by (cases "dc_wakeup_ready c") (auto simp: woken_def)
  have ok1: "timers_ok c1" using advances_ok [OF c1(2)] .
  have "\<exists>c2. (if any_socket_readable c1 then dispatch_receives os call c1 else Some c1) = Some c2 \<and> advances [] c1 c2"
    using dispatch_loop_ok [OF ok1] advances_refl [OF ok1] by (simp add: dispatch_receives_def)
  then obtain c2 where c2: "(if any_socket_readable c1 then dispatch_receives os call c1 else Some c1) = Some c2" "advances [] c1 c2"
    by blast
  obtain c3 where c3: "fire_expired_timers call (os_clock os) c2 = Some c3" "advances [] c2 c3"
    using fire_expired_timers_ok [OF advances_ok [OF c2(2)]] by blast
  show ?thesis using c1(1) c2(1) c3(1) advances_trans [OF advances_trans [OF c1(2) c2(2)] c3(2)] by (simp add: serve_ready_def)
qed

lemma run_ok: "timers_ok c \<Longrightarrow> \<exists>r. run_context call oss c = Some r \<and> timers_ok (result_context r)"
proof (induction oss arbitrary: c)
  case Nil
  then show ?case by simp
next
  case (Cons os oss)
  obtain ms where ms: "compute_next_timeout_ms (os_now os) c = Some ms" using compute_next_timeout_defined [OF Cons.prems] by blast
  obtain r c1 where poll: "do_poll os ms c = (r, c1)" by fastforce
  have ok1: "timers_ok c1" using advances_ok [OF advances_do_poll [OF Cons.prems, of os ms]] poll by simp
  show ?case
  proof (cases "dc_stopped c")
    case True
    then show ?thesis using Cons.prems by simp
  next
    case False
    show ?thesis
    proof (cases r)
      case (Poll_error eintr)
      then show ?thesis using False ms poll Cons.IH [OF ok1] ok1 by simp
    next
      case (Polled rc ev)
      obtain c2 where c2: "serve_ready os call (woken c1) = Some c2" "timers_ok c2"
        using serve_ready_ok [OF ok1] advances_ok by blast
      have "timers_ok (woken c1)" using ok1 by (simp add: woken_def drain_wakeup_fd_def)
      then show ?thesis
        using run_context_iteration [OF False ms poll [unfolded Polled]] c2 Cons.IH [OF c2(2)] by simp
    qed
  qed
qed

end

section \<open>The client functions satisfy it\<close>

lemma client_action_ok:
  assumes "timers_ok c" and "keeps_timers a"
  shows "\<exists>c'. client_action a c = Some c' \<and> advances [] c c'"
proof (cases a)
  case (Act_construct p)
  then show ?thesis using assms(1) timers_ok_construct [OF assms(1), of p]
    by (auto simp: advances_def construct_timer_def put_timer_def)
next
  case (Act_arm now d h p)
  show ?thesis
  proof (cases "dc_timer_objects c p")
    case None
    then show ?thesis using Act_arm assms(1) by (simp add: advances_refl)
  next
    case (Some t)
    then obtain c' where c': "timer_arm now d h p c = Some c'" using timer_arm_effect [of p c] by blast
    have "advances [] c c' \<longleftrightarrow> timers_ok c'"
      using c' Some by (cases "p \<in> set (dc_timers c)") (auto simp: advances_def timer_op_defs)
    then show ?thesis using Some Act_arm c' timers_ok_arm [OF assms(1) c'] by simp
  qed
next
  case (Act_cancel p)
  then show ?thesis using assms(1)
    by (cases "dc_timer_objects c p"; cases "dt_pending_handler (the (dc_timer_objects c p))")
      (auto simp: advances_def timer_cancel_def dt_cancel_def invoke_def put_timer_def dc_deregister_timer_def timers_ok_def dt_has_pending_def)
qed (use assms in \<open>auto simp: advances_post advances_stop advances_refl, auto simp: advances_def dc_register_socket_def dc_deregister_socket_def Let_def\<close>)

lemma client_actions_ok:
  "timers_ok c \<Longrightarrow> list_all keeps_timers as \<Longrightarrow> \<exists>c'. client_actions as c = Some c' \<and> advances [] c c'"
proof (induction as arbitrary: c)
  case Nil
  then show ?case by (simp add: advances_refl)
next
  case (Cons a as)
  then obtain c1 where c1: "client_action a c = Some c1" "advances [] c c1" using client_action_ok [of c a] by auto
  show ?case
    using advances_bind [where f = "client_actions as", OF c1 Cons.IH [OF advances_ok [OF c1(2)]]] Cons.prems(2) by simp
qed

lemma client_call_ok: "well_behaved prog \<Longrightarrow> timers_ok c \<Longrightarrow> \<exists>c'. client_call prog cb c = Some c' \<and> advances [] c c'"
  by (auto simp: client_call_def well_behaved_def intro: client_actions_ok)

interpretation clients: event_loop_client "client_call (tamed prog)" for prog
  by unfold_locales (rule client_call_ok [OF tamed_well_behaved(1)])

text \<open>
  The loop is defined on every sequence of iterations and keeps the registered timers consistent, as
  long as the functions are well behaved.
\<close>

lemma run_never_undefined:
  assumes "timers_ok c" and "well_behaved prog"
  shows "\<exists>r. run_context (client_call prog) oss c = Some r \<and> timers_ok (result_context r)"
  using clients.run_ok [OF assms(1), of prog oss] by (simp add: tamed_well_behaved(2) [OF assms(2)])

section \<open>Posted functions and stops\<close>

text \<open>
  A call of \<open>poll\<close> that returns without an error; what it promises of the \<open>eventfd\<close> is that it reports it
  readable when its counter is positive. Before it, \<open>poll\<close> may have been interrupted by signals any number of times. Other
  errors end \<open>run\<close>.
\<close>

definition honest_poll :: "'w os_step \<Rightarrow> bool" where
  "honest_poll os \<longleftrightarrow> (\<forall>n fds t. \<exists>rc ev. os_poll os n fds t = Polled rc ev \<and> (n > 0 \<longrightarrow> rc > 0 \<and> ev 0))"

fun remote_posts :: "'w remote list \<Rightarrow> 'w list" where
  "remote_posts [] = []"
| "remote_posts (Remote_post fn # rs) = fn # remote_posts rs"
| "remote_posts (Remote_stop # rs) = remote_posts rs"

lemma remote_effect:
  "dc_calls (fold run_remote rs c) = dc_calls c \<and>
   dc_stopped (fold run_remote rs c) = (dc_stopped c \<or> Remote_stop \<in> set rs) \<and>
   dc_work_queue (fold run_remote rs c) = dc_work_queue c @ remote_posts rs \<and>
   dc_timers (fold run_remote rs c) = dc_timers c \<and> dc_timer_objects (fold run_remote rs c) = dc_timer_objects c \<and>
   dc_wakeup_count (fold run_remote rs c) \<ge> dc_wakeup_count c \<and>
   (Remote_stop \<in> set rs \<longrightarrow> dc_wakeup_count (fold run_remote rs c) > 0)"
proof (induction rs arbitrary: c rule: remote_posts.induct)
  case (2 fn rs)
  show ?case using 2 [of "dc_post fn c"]
    by (auto simp: dc_post_def post_push_def post_signal_def write_wakeup_fd_def Let_def split: if_splits)
next
  case (3 rs)
  show ?case using 3 [of "dc_stop c"] by (auto simp: dc_stop_def write_wakeup_fd_def)
qed simp

lemma honest_do_poll:
  assumes "honest_poll os" and "timers_ok c"
  obtains rc ev c1 where "do_poll os ms c = (Polled rc ev, c1)" and "timers_ok c1" and "dc_calls c1 = dc_calls c"
    and "dc_stopped c1 = (dc_stopped c \<or> Remote_stop \<in> set (os_remote os))"
    and "dc_work_queue c1 = dc_work_queue c @ remote_posts (os_remote os)"
    and "dc_wakeup_count c1 > 0 \<longrightarrow> dc_wakeup_ready c1"
    and "Remote_stop \<in> set (os_remote os) \<longrightarrow> dc_wakeup_count c1 > 0"
    and "wakeup_ok c \<longrightarrow> wakeup_ok c1" and "dc_timer_objects c1 = dc_timer_objects c" and "dc_timers c1 = dc_timers c"
proof -
  let ?c0 = "fold run_remote (os_remote os) (c\<lparr>dc_wakeup_ready := False\<rparr>)"
  let ?fds = "dc_wakeup_fd c # map fst (dc_sockets c)"
  obtain rc ev where r: "os_poll os (dc_wakeup_count ?c0) ?fds ms = Polled rc ev" "dc_wakeup_count ?c0 > 0 \<longrightarrow> rc > 0 \<and> ev 0"
    using assms(1) unfolding honest_poll_def by blast
  obtain c1 where c1: "do_poll os ms c = (Polled rc ev, c1)" using r(1) by (simp add: do_poll_def Let_def)
  have "timers_ok c1" "wakeup_ok c \<longrightarrow> wakeup_ok c1"
    using advances_do_poll [OF assms(2), of os ms] c1 by (auto simp: advances_def)
  moreover have "c1 = (let c = ?c0\<lparr>dc_pollfds := map (\<lambda>(i, fd). \<lparr>pfd_fd = fd, pfd_in = ev i\<rparr>) (enumerate 0 ?fds)\<rparr>
      in if rc > 0 then c\<lparr>dc_wakeup_ready := ev 0\<rparr> else c)"
    using c1 r(1) by (simp add: do_poll_def Let_def)
  ultimately show thesis
    using that [OF c1] r(2) remote_effect [of "os_remote os" "c\<lparr>dc_wakeup_ready := False\<rparr>"]
    by (simp add: Let_def split: if_splits)
qed

text \<open>Interrupted calls of \<open>poll\<close>, during which other threads post.\<close>

definition interrupted :: "'w os_step \<Rightarrow> bool" where
  "interrupted os \<longleftrightarrow> (\<forall>n fds t. os_poll os n fds t = Poll_error True) \<and> Remote_stop \<notin> set (os_remote os)"

definition all_posts :: "'w os_step list \<Rightarrow> 'w list" where
  "all_posts oss = concat (map (\<lambda>os. remote_posts (os_remote os)) oss)"

lemma interrupted_run:
  assumes "list_all interrupted oss" and "timers_ok c" and "\<not> dc_stopped c"
  shows "\<exists>c1. run_context call (oss @ rest) c = run_context call rest c1 \<and> timers_ok c1 \<and> \<not> dc_stopped c1 \<and>
    dc_calls c1 = dc_calls c \<and> dc_work_queue c1 = dc_work_queue c @ all_posts oss \<and>
    (wakeup_ok c \<longrightarrow> wakeup_ok c1) \<and> dc_timer_objects c1 = dc_timer_objects c"
  using assms
proof (induction oss arbitrary: c)
  case Nil
  then show ?case by (intro exI [of _ c]) (simp add: all_posts_def)
next
  case (Cons os oss)
  obtain ms where ms: "compute_next_timeout_ms (os_now os) c = Some ms" using compute_next_timeout_defined [OF Cons.prems(2)] by blast
  let ?c0 = "fold run_remote (os_remote os) (c\<lparr>dc_wakeup_ready := False\<rparr>)"
  obtain c1 where c1: "do_poll os ms c = (Poll_error True, c1)"
      "c1 = ?c0\<lparr>dc_pollfds := map (\<lambda>fd. \<lparr>pfd_fd = fd, pfd_in = False\<rparr>) (dc_wakeup_fd c # map fst (dc_sockets c))\<rparr>"
    using Cons.prems(1) by (simp add: do_poll_def Let_def interrupted_def)
  have adv: "timers_ok c1" "wakeup_ok c \<longrightarrow> wakeup_ok c1"
    using advances_do_poll [OF Cons.prems(2), of os ms] c1(1) by (auto simp: advances_def)
  have e: "\<not> dc_stopped c1" "dc_calls c1 = dc_calls c" "dc_work_queue c1 = dc_work_queue c @ remote_posts (os_remote os)"
    "dc_timer_objects c1 = dc_timer_objects c"
    using remote_effect [of "os_remote os" "c\<lparr>dc_wakeup_ready := False\<rparr>"] Cons.prems(1,3) by (simp_all add: c1(2) interrupted_def)
  have "run_context call ((os # oss) @ rest) c = run_context call (oss @ rest) c1" using Cons.prems(3) ms c1(1) by simp
  then show ?case using Cons.IH [OF _ adv(1) e(1)] Cons.prems(1) e adv(2) by (auto simp: all_posts_def)
qed

text \<open>
  C25: When another thread stops the context while the loop waits, the loop returns in that iteration without
  calling any further function, whatever was posted; \<open>restart\<close> then makes the context ready to run again.
\<close>

theorem stop_ends_run:
  assumes "timers_ok c" and "honest_poll os" and "Remote_stop \<in> set (os_remote os)" and "\<not> dc_stopped c"
  shows "\<exists>c'. run_context call (os # oss) c = Some (Returned c') \<and> dc_calls c' = dc_calls c \<and>
              \<not> dc_stopped (dc_restart c') \<and> dc_work_queue (dc_restart c') = [] \<and> wakeup_ok (dc_restart c')"
proof -
  obtain ms where ms: "compute_next_timeout_ms (os_now os) c = Some ms" using compute_next_timeout_defined [OF assms(1)] by blast
  obtain rc ev c1 where c1: "do_poll os ms c = (Polled rc ev, c1)" "dc_calls c1 = dc_calls c" "dc_stopped c1" "dc_wakeup_ready c1"
    by (rule honest_do_poll [OF assms(2,1), of ms]) (use assms(3) in auto)
  then have "run_context call (os # oss) c = Some (Returned (woken c1))"
    using run_context_iteration [OF assms(4) ms c1(1)] by simp
  moreover have "dc_calls (woken c1) = dc_calls c" using c1(2) by (simp add: woken_def drain_wakeup_fd_def)
  ultimately show ?thesis by (auto simp: dc_restart_def drain_wakeup_fd_def wakeup_ok_def)
qed

text \<open>
  C23: Posted functions run once and in order. Let the queued work have its wakeup under way, as the posts of other
  threads leave it unless they race with a drain; let nothing stop the loop, let \<open>poll\<close> fail at most
  by being interrupted, and let the functions called destroy no timer and change the sockets, if they are
  receive handlers, only at their end. Then the iteration in which \<open>poll\<close> returns is defined, and in it every function
  that is queued by then is called exactly once, in the order of the posts: those queued at the start,
  those posted during the interrupted calls and those posted during the last one. What these functions post themselves
  has a wakeup under way again.
\<close>

theorem posts_run_once:
  assumes "timers_ok c" and "wakeup_ok c" and "\<not> dc_stopped c" and "list_all interrupted oss"
    and "honest_poll os" and "Remote_stop \<notin> set (os_remote os)" and "well_behaved prog"
  shows "\<exists>r. run_context (client_call prog) (oss @ [os]) c = Some r \<and>
     posted_of (dc_calls (result_context r)) = posted_of (dc_calls c) @ dc_work_queue c @ all_posts (oss @ [os]) \<and>
     timers_ok (result_context r) \<and> wakeup_ok (result_context r)"
proof -
  obtain c0 where c0: "run_context (client_call prog) (oss @ [os]) c = run_context (client_call prog) [os] c0" "timers_ok c0" "\<not> dc_stopped c0"
      "dc_calls c0 = dc_calls c" "dc_work_queue c0 = dc_work_queue c @ all_posts oss" "wakeup_ok c0"
    using interrupted_run [OF assms(4,1,3), of "client_call prog" "[os]"] assms(2) by blast
  obtain ms where ms: "compute_next_timeout_ms (os_now os) c0 = Some ms" using compute_next_timeout_defined [OF c0(2)] by blast
  obtain rc ev c1 where c1: "do_poll os ms c0 = (Polled rc ev, c1)" "timers_ok c1" "dc_calls c1 = dc_calls c0" "\<not> dc_stopped c1"
      "dc_work_queue c1 = dc_work_queue c0 @ remote_posts (os_remote os)" "wakeup_ok c1" "dc_wakeup_count c1 > 0 \<longrightarrow> dc_wakeup_ready c1"
    by (rule honest_do_poll [OF assms(5) c0(2), of ms]) (use assms(6) c0(3,6) in auto)
  obtain c2 where c2: "serve_ready os (client_call prog) (woken c1) = Some c2"
      "advances (if dc_wakeup_ready c1 then dc_work_queue c1 else []) c1 c2"
    using clients.serve_ready_ok [OF c1(2), of os prog] by (auto simp: tamed_well_behaved(2) [OF assms(7)])
  have "\<not> dc_wakeup_ready c1 \<longrightarrow> dc_work_queue c1 = []" using c1(6,7) by (auto simp: wakeup_ok_def)
  then have "advances (dc_work_queue c1) c1 c2" using c2(2) by (auto split: if_splits)
  then show ?thesis
    using c2(1) c1 c0 run_context_iteration [OF c0(3) ms c1(1), of "client_call prog" "[]"] by (auto simp: advances_def all_posts_def)
qed

definition demo_os :: "string remote list \<Rightarrow> int \<Rightarrow> string os_step" where
  "demo_os rs now =
     \<lparr>os_now = now, os_remote = rs, os_poll = (\<lambda>n fds t. if n > 0 then Polled 1 (\<lambda>i. i = 0) else Polled 0 (\<lambda>i. False)),
      os_recvmsg = (\<lambda>i fd n. None), os_ntop4 = (\<lambda>b. []), os_ntop6 = (\<lambda>b. []), os_clock = (\<lambda>p. now)\<rparr>"

lemma demo_os_simps [simp]: "os_remote (demo_os rs now) = rs" "os_clock (demo_os rs now) p = now" "honest_poll (demo_os rs now)"
  by (auto simp: demo_os_def honest_poll_def)

definition interrupted_os :: "string remote list \<Rightarrow> string os_step" where
  "interrupted_os rs = (demo_os rs 0)\<lparr>os_poll := (\<lambda>n fds t. Poll_error True)\<rparr>"

lemma interrupted_os_simps [simp]: "interrupted (interrupted_os rs) \<longleftrightarrow> Remote_stop \<notin> set rs" "os_remote (interrupted_os rs) = rs"
  by (simp_all add: interrupted_def interrupted_os_def)

lemma two_timers_simps [simp]:
  "\<not> dc_stopped (two_timers d)" "dc_calls (two_timers d) = []" "dc_work_queue (two_timers d) = []" "wakeup_ok (two_timers d)"
  by (simp_all add: two_timers_eq wakeup_ok_def)

definition demo_prog :: "string callback \<Rightarrow> string context_action list" where
  "demo_prog cb = (case cb of Posted fn \<Rightarrow> [Act_arm 0 20 fn 2, Act_post ''again''] | _ \<Rightarrow> [])"

lemma demo_prog_behaved: "well_behaved demo_prog"
  by (auto simp: demo_prog_def well_behaved_def split: callback.split)

theorem stop_ends_run_witness:
  "\<exists>c'. run_context (client_call demo_prog) [demo_os [Remote_post ''work'', Remote_stop] 0] (two_timers 9) = Some (Returned c') \<and> dc_calls c' = []"
  using stop_ends_run [OF two_timers_ok, of "demo_os [Remote_post ''work'', Remote_stop] 0" 9 "client_call demo_prog" "[]"] by auto

theorem posts_run_once_witness:
  "\<exists>r. run_context (client_call demo_prog) [interrupted_os [Remote_post ''a''], demo_os [Remote_post ''b'', Remote_post ''c''] 0]
       (dc_post ''first'' (two_timers 9)) = Some r \<and>
     posted_of (dc_calls (result_context r)) = [''first'', ''a'', ''b'', ''c'']"
proof -
  let ?c = "dc_post ''first'' (two_timers 9)"
  have "timers_ok ?c" using advances_ok [OF advances_post [OF two_timers_ok]] .
  moreover have "wakeup_ok ?c" by (rule wakeup_ok_post) simp
  moreover have "\<not> dc_stopped ?c" "dc_calls ?c = []" "dc_work_queue ?c = [''first'']"
    by (simp_all add: dc_post_def post_push_def post_signal_def write_wakeup_fd_def Let_def)
  ultimately show ?thesis
    using posts_run_once [of ?c "[interrupted_os [Remote_post ''a'']]" "demo_os [Remote_post ''b'', Remote_post ''c''] 0" demo_prog]
      demo_prog_behaved by (auto simp: all_posts_def)
qed

section \<open>Timers fire\<close>

text \<open>Functions that leave a given timer alone, except for the handler that waits on it.\<close>

definition called_since :: "nat \<Rightarrow> 'w callback \<Rightarrow> ('w, 'z) default_context_scheme \<Rightarrow> bool" where
  "called_since n cb c \<longleftrightarrow> cb \<in> set (drop n (dc_calls c))"

definition spared :: "nat \<Rightarrow> nat \<Rightarrow> 'w \<Rightarrow> ('w, 'z) default_context_scheme \<Rightarrow> ('w, 'z) default_context_scheme \<Rightarrow> bool" where
  "spared n p h c c' \<longleftrightarrow> called_since n (Wait_done h None) c' \<or> dc_timer_objects c' p = dc_timer_objects c p"

lemma advances_since: "advances ws c c' \<Longrightarrow> called_since n x c \<Longrightarrow> called_since n x c'"
  by (auto simp: advances_def called_since_def prefix_def)

lemma advances_length: "advances ws c c' \<Longrightarrow> n \<le> length (dc_calls c) \<Longrightarrow> n \<le> length (dc_calls c')"
  by (auto simp: advances_def dest: prefix_length_le)

lemma spared_trans: "spared n p h c c1 \<Longrightarrow> spared n p h c1 c2 \<Longrightarrow> advances ws c1 c2 \<Longrightarrow> spared n p h c c2"
  by (auto simp: spared_def dest: advances_since)

lemma spared_refl [simp]: "spared n p h c c"
  by (simp add: spared_def)

locale event_loop_client_sparing = event_loop_client +
  fixes p :: nat and h
  assumes call_spares: "cb \<noteq> Wait_done h None \<Longrightarrow> call cb c = Some c' \<Longrightarrow> dc_timer_objects c' p = dc_timer_objects c p"
begin

lemma invoke_spares:
  assumes "timers_ok c" and "n \<le> length (dc_calls c)" and "invoke call cb c = Some c'"
  shows "spared n p h c c'"
proof (cases "cb = Wait_done h None")
  case True
  have "timers_ok (c\<lparr>dc_calls := dc_calls c @ [cb]\<rparr>)" using assms(1) by simp
  from call_ok [OF this, of cb] assms(3) have "advances [] (c\<lparr>dc_calls := dc_calls c @ [cb]\<rparr>) c'" by (auto simp: invoke_def)
  from advances_since [OF this, of n cb] show ?thesis using True assms(2) by (simp add: spared_def called_since_def)
next
  case False
  then show ?thesis using assms(3) call_spares [of cb] by (fastforce simp: invoke_def spared_def)
qed

lemma run_work_spares: "timers_ok c \<Longrightarrow> n \<le> length (dc_calls c) \<Longrightarrow> run_work call ws c = Some c' \<Longrightarrow> spared n p h c c'"
proof (induction ws arbitrary: c)
  case (Cons w ws)
  obtain c1 where c1: "invoke call (Posted w) c = Some c1" "advances [w] c c1"
    using invoke_ok [OF Cons.prems(1), of "Posted w"] by auto
  have r: "run_work call ws c1 = Some c'" using Cons.prems(3) c1(1) by simp
  then have "advances ws c1 c'" using run_work_ok [OF advances_ok [OF c1(2)], of ws] by auto
  then show ?case
    using spared_trans [OF invoke_spares [OF Cons.prems(1,2) c1(1)] Cons.IH [OF advances_ok [OF c1(2)] advances_length [OF c1(2) Cons.prems(2)] r]] by blast
qed simp

lemma dispatch_loop_spares:
  "timers_ok c \<Longrightarrow> n \<le> length (dc_calls c) \<Longrightarrow> dispatch_loop os call i ps c = Some c' \<Longrightarrow> spared n p h c c'"
proof (induction ps arbitrary: i c)
  case (Cons q ps)
  show ?case
  proof (cases "dispatch_loop os call i (q # ps) c = dispatch_loop os call (Suc i) ps c")
    case True
    then show ?thesis using Cons.IH [OF Cons.prems(1,2)] Cons.prems(3) by simp
  next
    case False
    then obtain fd g m where s: "pfd_in q" "i < length (dc_sockets c)" "dc_sockets c ! i = (fd, Some g)" "os_recvmsg os i fd 4096 = Some m"
      by (auto split: if_splits option.splits prod.splits)
    let ?cb = "Received g (recv_meta (os_ntop4 os) (os_ntop6 os) m) (rcv_data m)"
    obtain c1 where c1: "invoke call ?cb c = Some c1" "advances [] c c1" using invoke_ok [OF Cons.prems(1), of ?cb] by auto
    have r: "dispatch_loop os call (Suc i) ps c1 = Some c'" using Cons.prems(3) s c1(1) by simp
    then have "advances [] c1 c'" using dispatch_loop_ok [OF advances_ok [OF c1(2)], of os "Suc i" ps] by auto
    then show ?thesis
      using spared_trans [OF invoke_spares [OF Cons.prems(1,2) c1(1)] Cons.IH [OF advances_ok [OF c1(2)] advances_length [OF c1(2) Cons.prems(2)] r]] by blast
  qed
qed simp

lemma fire_spares:
  assumes "timers_ok c" and "n \<le> length (dc_calls c)" and "timer_fire_if_expired call now q c = Some c'" and "q \<noteq> p"
  shows "spared n p h c c'"
proof (cases "\<exists>t g. dc_timer_objects c q = Some t \<and> dt_pending_handler t = Some g \<and> dt_deadline t \<le> now")
  case True
  then obtain t g where t: "dc_timer_objects c q = Some t" "dt_pending_handler t = Some g" "dt_deadline t \<le> now" by blast
  let ?c = "put_timer q (t\<lparr>dt_pending_handler := None\<rparr>) c"
  have "invoke call (Wait_done g None) ?c = Some c'"
    using assms(3) t by (simp add: timer_fire_if_expired_def dt_fire_cases dt_has_pending_def)
  moreover have "timers_ok ?c" using assms(1) t by (auto simp: timers_ok_def put_timer_def dt_has_pending_def)
  ultimately have "spared n p h ?c c'" using assms(2) by (intro invoke_spares) (simp_all add: put_timer_def)
  then show ?thesis using assms(4) by (simp add: spared_def put_timer_def)
next
  case False
  then show ?thesis
    using assms(3,4) by (auto simp: timer_fire_if_expired_def dt_fire_cases dt_has_pending_def spared_def put_timer_def split: if_splits option.splits bind_splits)
qed

lemma fire_fires:
  assumes "timers_ok c" and "dc_timer_objects c p = Some t" and "dt_pending_handler t = Some h" and "dt_deadline t \<le> now"
    and "timer_fire_if_expired call now p c = Some c'" and "n \<le> length (dc_calls c)"
  shows "called_since n (Wait_done h None) c'"
proof -
  let ?c = "put_timer p (t\<lparr>dt_pending_handler := None\<rparr>) c"
  have inv: "call (Wait_done h None) (?c\<lparr>dc_calls := dc_calls ?c @ [Wait_done h None]\<rparr>) = Some c'"
    using assms(2-5) by (auto simp: timer_fire_if_expired_def dt_fire_cases dt_has_pending_def invoke_def)
  have "timers_ok (?c\<lparr>dc_calls := dc_calls ?c @ [Wait_done h None]\<rparr>)"
    using assms(1-3) by (auto simp: timers_ok_def put_timer_def dt_has_pending_def)
  from call_ok [OF this, of "Wait_done h None"] inv
  have "advances [] (?c\<lparr>dc_calls := dc_calls ?c @ [Wait_done h None]\<rparr>) c'" by auto
  from advances_since [OF this, of n] show ?thesis using assms(6) by (simp add: called_since_def put_timer_def)
qed

lemma fire_loop_fires:
  assumes "timers_ok c" and "set ps \<subseteq> dom (dc_timer_objects c)" and "distinct ps" and "p \<in> set ps"
    and "dc_timer_objects c p = Some t" and "dt_pending_handler t = Some h" and "dt_deadline t \<le> clock p"
    and "n \<le> length (dc_calls c)"
  shows "\<exists>c'. fire_loop call clock ps c = Some c' \<and> called_since n (Wait_done h None) c'"
  using assms
proof (induction ps arbitrary: c)
  case Nil
  then show ?case by simp
next
  case (Cons q ps)
  then obtain c1 where c1: "timer_fire_if_expired call (clock q) q c = Some c1" "advances [] c c1"
    using fire_ok [of c q "clock q"] by auto
  then have ok1: "timers_ok c1" "set ps \<subseteq> dom (dc_timer_objects c1)" using Cons.prems by (auto simp: advances_def)
  show ?case
  proof (cases "q = p")
    case True
    obtain c2 where "fire_loop call clock ps c1 = Some c2" "advances [] c1 c2" using fire_loop_ok [OF ok1] by blast
    then show ?thesis using c1 fire_fires [OF Cons.prems(1,5,6,7), of c1 n] Cons.prems(8) advances_since True by fastforce
  next
    case False
    obtain c2 where c2: "fire_loop call clock ps c1 = Some c2" "advances [] c1 c2" using fire_loop_ok [OF ok1] by blast
    show ?thesis
    proof (cases "called_since n (Wait_done h None) c1")
      case True
      then show ?thesis using c1(1) c2 advances_since [OF c2(2)] by auto
    next
      case fresh: False
      then have "dc_timer_objects c1 p = dc_timer_objects c p" using fire_spares [OF Cons.prems(1,8) c1(1) False] by (simp add: spared_def)
      then show ?thesis using Cons.IH [OF ok1] Cons.prems False c1(1) advances_length [OF c1(2) Cons.prems(8)] by auto
    qed
  qed
qed

lemma drain_spares:
  assumes "timers_ok c" and "n \<le> length (dc_calls c)" and c1: "(if dc_wakeup_ready (woken c) then drain_work_queue call (woken c) else Some (woken c)) = Some c1"
  shows "timers_ok c1 \<and> n \<le> length (dc_calls c1) \<and> spared n p h c c1"
proof (cases "dc_wakeup_ready c")
  case True
  let ?c = "clear_pending (c\<lparr>dc_wakeup_count := 0, dc_work_queue := []\<rparr>)"
  have "run_work call (dc_work_queue c) ?c = Some c1" "timers_ok ?c"
    using c1 True assms(1) by (simp_all add: woken_def drain_work_queue_def swap_queue_def clear_pending_def drain_wakeup_fd_def)
  moreover obtain x where "run_work call (dc_work_queue c) ?c = Some x" "advances (dc_work_queue c) ?c x"
    using run_work_ok [OF \<open>timers_ok ?c\<close>] by blast
  moreover have "spared n p h ?c c1 = spared n p h c c1" "n \<le> length (dc_calls ?c)"
    using assms(2) by (simp_all add: spared_def clear_pending_def)
  ultimately show ?thesis
    using run_work_spares [of ?c n "dc_work_queue c" c1] advances_ok advances_length [of "dc_work_queue c" ?c c1 n] by simp
next
  case False
  then show ?thesis using c1 assms(1,2) by (simp add: woken_def)
qed

lemma dispatch_spares:
  assumes 1: "timers_ok c1" "n \<le> length (dc_calls c1)" and c2: "(if any_socket_readable c1 then dispatch_receives os call c1 else Some c1) = Some c2"
  shows "advances [] c1 c2 \<and> spared n p h c1 c2"
proof (cases "any_socket_readable c1")
  case True
  then have d: "dispatch_loop os call 0 (tl (dc_pollfds c1)) c1 = Some c2" using c2 by (simp add: dispatch_receives_def)
  then show ?thesis using dispatch_loop_ok [OF 1(1), of os 0 "tl (dc_pollfds c1)"] dispatch_loop_spares [OF 1 d] by simp
next
  case False
  then show ?thesis using c2 1 by (simp add: advances_refl)
qed

lemma serve_ready_fires:
  assumes "timers_ok c" and "dc_timer_objects c p = Some t" and "dt_pending_handler t = Some h" and "dt_deadline t \<le> os_clock os p"
    and "n \<le> length (dc_calls c)"
  shows "\<exists>c'. serve_ready os call (woken c) = Some c' \<and> advances (if dc_wakeup_ready c then dc_work_queue c else []) c c' \<and>
    called_since n (Wait_done h None) c'"
proof -
  from serve_ready_ok [OF assms(1), of os] obtain c3 where c3: "serve_ready os call (woken c) = Some c3"
    "advances (if dc_wakeup_ready c then dc_work_queue c else []) c c3" by blast
  then obtain c1 c2 where c1: "(if dc_wakeup_ready (woken c) then drain_work_queue call (woken c) else Some (woken c)) = Some c1"
    and c2: "(if any_socket_readable c1 then dispatch_receives os call c1 else Some c1) = Some c2"
    and fire: "fire_expired_timers call (os_clock os) c2 = Some c3"
    by (auto simp: serve_ready_def split: bind_splits)
  have 1: "timers_ok c1" "n \<le> length (dc_calls c1)" "spared n p h c c1" using drain_spares [OF assms(1,5) c1] by simp_all
  have 2: "advances [] c1 c2" "spared n p h c1 c2" using dispatch_spares [OF 1(1,2) c2] by simp_all
  have ok2: "timers_ok c2" and n2: "n \<le> length (dc_calls c2)" using advances_ok [OF 2(1)] advances_length [OF 2(1) 1(2)] .
  have sp: "spared n p h c c2" using spared_trans [OF 1(3) 2(2,1)] .
  have fl: "fire_loop call (os_clock os) (dc_timers c2) c2 = Some c3" "advances [] c2 c3"
    using fire fire_expired_timers_ok [OF ok2, of "os_clock os"] by (auto simp: fire_expired_timers_def)
  show ?thesis
  proof (cases "called_since n (Wait_done h None) c2")
    case True
    then show ?thesis using c3 advances_since [OF fl(2)] by blast
  next
    case False
    then have t2: "dc_timer_objects c2 p = Some t" using sp assms(2) by (simp add: spared_def)
    have "p \<in> set (dc_timers c2)" using ok2 t2 assms(3) by (auto simp: timers_ok_def dt_has_pending_def)
    then show ?thesis
      using fire_loop_fires [where clock = "os_clock os" and ps = "dc_timers c2", OF ok2 _ _ _ t2 assms(3,4) n2] ok2 fl(1) c3
      by (auto simp: timers_ok_def)
  qed
qed

end

lemma client_action_spares:
  "avoids p a \<Longrightarrow> client_action a c = Some c' \<Longrightarrow> dc_timer_objects c' p = dc_timer_objects c p"
  by (cases a) (auto simp: dc_post_def post_push_def post_signal_def write_wakeup_fd_def dc_stop_def dc_register_socket_def
      dc_deregister_socket_def timer_op_defs timer_cancel_def invoke_def Let_def split: if_splits bind_splits option.splits prod.splits)

lemma client_actions_spares:
  "list_all (avoids p) as \<Longrightarrow> client_actions as c = Some c' \<Longrightarrow> dc_timer_objects c' p = dc_timer_objects c p"
  by (induction as arbitrary: c) (auto split: bind_splits dest: client_action_spares)

text \<open>The functions that leave the timer alone unless they are called for it.\<close>

definition leaves_alone :: "nat \<Rightarrow> 'w \<Rightarrow> ('w callback \<Rightarrow> 'w context_action list) \<Rightarrow> bool" where
  "leaves_alone p h prog \<longleftrightarrow> well_behaved prog \<and> (\<forall>cb. cb \<noteq> Wait_done h None \<longrightarrow> list_all (avoids p) (prog cb))"

definition sparing_prog :: "nat \<Rightarrow> 'w \<Rightarrow> ('w callback \<Rightarrow> 'w context_action list) \<Rightarrow> 'w callback \<Rightarrow> 'w context_action list" where
  "sparing_prog p h prog = (if leaves_alone p h prog then prog else (\<lambda>_. []))"

lemma sparing_prog_leaves: "leaves_alone p h (sparing_prog p h prog)" "leaves_alone p h prog \<Longrightarrow> sparing_prog p h prog = prog"
  by (simp_all add: sparing_prog_def leaves_alone_def well_behaved_def)

interpretation sparing: event_loop_client_sparing "client_call (sparing_prog p h prog)" p h for p h prog
proof unfold_locales
  fix c :: "('a, 'b) default_context_scheme" and cb
  assume "timers_ok c"
  then show "\<exists>c'. client_call (sparing_prog p h prog) cb c = Some c' \<and> advances [] c c'"
    using sparing_prog_leaves(1) [of p h prog] by (intro client_call_ok) (simp_all add: leaves_alone_def)
next
  fix c c' :: "('a, 'b) default_context_scheme" and cb
  assume "cb \<noteq> Wait_done h None" and "client_call (sparing_prog p h prog) cb c = Some c'"
  then show "dc_timer_objects c' p = dc_timer_objects c p"
    using sparing_prog_leaves(1) [of p h prog] client_actions_spares [of p]
    by (auto simp: client_call_def leaves_alone_def split: if_splits)
qed

text \<open>
  C24: A pending wait fires. Let nothing stop the loop, let \<open>poll\<close> fail at most by being interrupted before
  it returns, and let the functions called be well behaved and, but for the handler of the wait itself,
  which may arm its timer again, leave the timer alone. Then in the iteration in which \<open>poll\<close> returns, if
  the clock has reached the deadline of the timer when its turn comes, its handler is called with success:
  the call is among those that the run adds to the log.
\<close>

theorem due_timer_fires:
  assumes "timers_ok c" and "\<not> dc_stopped c" and "list_all interrupted oss" and "honest_poll os" and "Remote_stop \<notin> set (os_remote os)"
    and "dc_timer_objects c p = Some t" and "dt_pending_handler t = Some h" and "dt_deadline t \<le> os_clock os p"
    and "well_behaved prog" and "\<And>cb. cb \<noteq> Wait_done h None \<Longrightarrow> list_all (avoids p) (prog cb)"
  shows "\<exists>r cbs. run_context (client_call prog) (oss @ [os]) c = Some r \<and> dc_calls (result_context r) = dc_calls c @ cbs \<and>
    Wait_done h None \<in> set cbs"
proof -
  have prog: "sparing_prog p h prog = prog" using assms(9,10) by (intro sparing_prog_leaves(2)) (simp add: leaves_alone_def)
  obtain c0 where c0: "run_context (client_call prog) (oss @ [os]) c = run_context (client_call prog) [os] c0" "timers_ok c0" "\<not> dc_stopped c0"
      "dc_timer_objects c0 = dc_timer_objects c" "dc_calls c0 = dc_calls c"
    using interrupted_run [OF assms(3,1,2), of "client_call prog" "[os]"] by blast
  obtain ms where ms: "compute_next_timeout_ms (os_now os) c0 = Some ms" using compute_next_timeout_defined [OF c0(2)] by blast
  obtain rc ev c1 where c1: "do_poll os ms c0 = (Polled rc ev, c1)" "timers_ok c1" "\<not> dc_stopped c1" "dc_timer_objects c1 = dc_timer_objects c0"
      "dc_calls c1 = dc_calls c0"
    by (rule honest_do_poll [OF assms(4) c0(2), of ms]) (use assms(5) c0(3) in auto)
  obtain c2 ws where c2: "serve_ready os (client_call prog) (woken c1) = Some c2" "advances ws c1 c2"
      "called_since (length (dc_calls c)) (Wait_done h None) c2"
    using sparing.serve_ready_fires [OF c1(2), of p t h os "length (dc_calls c)" prog] c1(4,5) c0(4,5) assms(6-8) by (auto simp: prog)
  obtain cbs where cbs: "dc_calls c2 = dc_calls c @ cbs" using c2(2) c1(5) c0(5) by (auto simp: advances_def prefix_def)
  then have "Wait_done h None \<in> set cbs" using c2(3) by (simp add: called_since_def)
  then show ?thesis using cbs c0(1) c1(3) c2(1) run_context_iteration [OF c0(3) ms c1(1), of "client_call prog" "[]"] by auto
qed

text \<open>A handler that arms its own timer again, while another thread posts a function that arms another timer.\<close>

definition rearming_prog :: "string callback \<Rightarrow> string context_action list" where
  "rearming_prog cb = (if cb = Wait_done ''response'' None then [Act_arm 5000000 250 ''response'' 1] else demo_prog cb)"

theorem due_timer_fires_witness:
  "\<exists>r. run_context (client_call rearming_prog) [interrupted_os [], demo_os [Remote_post ''a''] 5000000] (two_timers 9) = Some r \<and>
     Wait_done ''response'' None \<in> set (dc_calls (result_context r))"
proof -
  have "well_behaved rearming_prog" using demo_prog_behaved by (auto simp: well_behaved_def rearming_prog_def)
  moreover have "list_all (avoids 1) (rearming_prog cb)" if "cb \<noteq> Wait_done ''response'' None" for cb
    using that by (auto simp: rearming_prog_def demo_prog_def split: callback.split)
  ultimately show ?thesis
    using due_timer_fires [OF two_timers_ok, of 9 "[interrupted_os []]" "demo_os [Remote_post ''a''] 5000000" 1
        "\<lparr>dt_deadline = 5000000, dt_pending_handler = Some ''response''\<rparr>" "''response''" rearming_prog]
    by (simp add: two_timers_eq)
qed

text \<open>
  A handler that destroys a timer which stands later in the snapshot of \<open>fire_expired_timers\<close> leaves a
  dangling pointer there, which the loop then uses.
\<close>

lemma destroyed_timer_dangles:
  assumes "dc_timers c = p # q # ps" and "p \<noteq> q" and "dc_timer_objects c p = Some t" and "dc_timer_objects c q \<noteq> None"
    and "dt_pending_handler t = Some h" and "dt_deadline t \<le> clock p" and "prog (Wait_done h None) = [Act_destroy q]"
  shows "fire_expired_timers (client_call prog) clock c = None"
  using assms
  by (auto simp: fire_expired_timers_def timer_fire_if_expired_def dt_fire_cases dt_has_pending_def invoke_def client_call_def
      put_timer_def destroy_timer_def dc_deregister_timer_def Let_def)

lemma destroyed_timer_dangles_example:
  "fire_expired_timers (client_call (\<lambda>cb. [Act_destroy 2])) (\<lambda>_. 5000000) (two_timers 9) = None"
  by (rule destroyed_timer_dangles [where p = 1 and q = 2 and ps = "[]" and h = "''response''" and
        t = "\<lparr>dt_deadline = 5000000, dt_pending_handler = Some ''response''\<rparr>"]) (simp_all add: two_timers_eq)

section \<open>Received datagrams\<close>

text \<open>
  While handlers leave the sockets alone, every readable socket with a handler gets its datagram, once and in
  the order of registration, with the sender, TTL and interface of that datagram.
\<close>

fun received_calls :: "'w os_step \<Rightarrow> (int \<times> 'w option) list \<Rightarrow> nat \<Rightarrow> pollfd list \<Rightarrow> 'w callback list" where
  "received_calls os ss i [] = []"
| "received_calls os ss i (p # ps) =
     (case (if pfd_in p \<and> i < length ss then snd (ss ! i) else None, os_recvmsg os i (fst (ss ! i)) 4096) of
        (Some h, Some m) \<Rightarrow> [Received h (recv_meta (os_ntop4 os) (os_ntop6 os) m) (rcv_data m)]
      | _ \<Rightarrow> []) @ received_calls os ss (Suc i) ps"

lemma dispatch_loop_calls:
  assumes "\<And>cb c. \<exists>c'. call cb c = Some c' \<and> dc_sockets c' = dc_sockets c \<and> dc_calls c' = dc_calls c"
  shows "\<exists>c'. dispatch_loop os call i ps c = Some c' \<and> dc_calls c' = dc_calls c @ received_calls os (dc_sockets c) i ps"
proof (induction ps arbitrary: i c)
  case (Cons p ps)
  show ?case
  proof (cases "pfd_in p \<and> i < length (dc_sockets c) \<and> snd (dc_sockets c ! i) \<noteq> None \<and>
                os_recvmsg os i (fst (dc_sockets c ! i)) 4096 \<noteq> None")
    case True
    then obtain fd h m where s: "dc_sockets c ! i = (fd, Some h)" "os_recvmsg os i fd 4096 = Some m"
      by (cases "dc_sockets c ! i") auto
    obtain c1 where c1: "invoke call (Received h (recv_meta (os_ntop4 os) (os_ntop6 os) m) (rcv_data m)) c = Some c1"
        "dc_sockets c1 = dc_sockets c" "dc_calls c1 = dc_calls c @ [Received h (recv_meta (os_ntop4 os) (os_ntop6 os) m) (rcv_data m)]"
      using assms unfolding invoke_def by fastforce
    then show ?thesis using Cons [of "Suc i" c1] True s by auto
  next
    case False
    then have "dispatch_loop os call i (p # ps) c = dispatch_loop os call (Suc i) ps c"
      "received_calls os (dc_sockets c) i (p # ps) = received_calls os (dc_sockets c) (Suc i) ps"
      by (cases "dc_sockets c ! i"; auto split: option.splits)+
    then show ?thesis using Cons [of "Suc i" c] by simp
  qed
qed simp

text \<open>Without \<open>WSARecvMsg\<close> the TTL is unknown, so a receive loop that rejects unknown TTLs hears nothing.\<close>

lemma windows_fallback_rejected:
  assumes "windows_receive False wsarecvmsg recvfrom = Some m" and "loop_ttl_unknown l = Reject"
  shows "\<not> accepts (recv_meta ntop4 ntop6 m) l"
  using assms by (auto simp: windows_receive_def recv_meta_def accepts_def)

end
