(* ===== verification/Default_Wakeup.thy ===== *)
theory Default_Wakeup
  imports Default_Run
begin

text \<open>
  Posting to the context of the default policy while its loop runs in another thread. The atomic
  steps are those of \<open>post\<close> (the push under the mutex, the exchange of \<open>m_post_pending\<close>) and of the loop
  (return of \<open>poll\<close>, read of the \<open>eventfd\<close>, swap of the queue, store to \<open>m_post_pending\<close>, calls); they are the
  functions from which \<open>dc_post\<close> and \<open>drain_work_queue\<close> are composed. Stops are left out. Any number of threads
  post, and the functions that the loop calls do so too.
\<close>

section \<open>Interleaved steps\<close>

text \<open>Where the loop stands; the functions it has taken from the queue and not yet called.\<close>

datatype 'w loop_pc = In_poll | Woken | Fd_drained | Swapped "'w list" | Calling "'w list"

fun taken :: "'w loop_pc \<Rightarrow> 'w list" where
  "taken (Swapped fns) = fns"
| "taken (Calling fns) = fns"
| "taken _ = []"

text \<open>\<open>ws_posting\<close> counts the calls of \<open>post\<close> that have pushed and not yet exchanged the flag.\<close>

record 'w wake_state =
  ws_ctx :: "'w default_context"
  ws_pc :: "'w loop_pc"
  ws_posting :: nat

datatype 'w wake_label = L_push 'w | L_signal | L_signal_in_window | L_wake | L_drain | L_swap | L_clear | L_call | L_done

inductive wake_step :: "'w wake_label \<Rightarrow> 'w wake_state \<Rightarrow> 'w wake_state \<Rightarrow> bool" where
  step_push: "wake_step (L_push fn) s (s\<lparr>ws_ctx := post_push fn (ws_ctx s), ws_posting := ws_posting s + 1\<rparr>)"
| step_signal: "ws_posting s > 0 \<Longrightarrow> (\<nexists>fns. ws_pc s = Swapped fns) \<Longrightarrow>
    wake_step L_signal s (s\<lparr>ws_ctx := post_signal (ws_ctx s), ws_posting := ws_posting s - 1\<rparr>)"
| step_signal_in_window: "ws_posting s > 0 \<Longrightarrow> ws_pc s = Swapped fns \<Longrightarrow>
    wake_step L_signal_in_window s (s\<lparr>ws_ctx := post_signal (ws_ctx s), ws_posting := ws_posting s - 1\<rparr>)"
| step_wake: "ws_pc s = In_poll \<Longrightarrow> dc_wakeup_count (ws_ctx s) > 0 \<Longrightarrow> wake_step L_wake s (s\<lparr>ws_pc := Woken\<rparr>)"
| step_drain: "ws_pc s = Woken \<Longrightarrow> wake_step L_drain s (s\<lparr>ws_ctx := drain_wakeup_fd (ws_ctx s), ws_pc := Fd_drained\<rparr>)"
| step_swap: "ws_pc s = Fd_drained \<Longrightarrow> swap_queue (ws_ctx s) = (local, c) \<Longrightarrow>
    wake_step L_swap s (s\<lparr>ws_ctx := c, ws_pc := Swapped local\<rparr>)"
| step_clear: "ws_pc s = Swapped fns \<Longrightarrow> wake_step L_clear s (s\<lparr>ws_ctx := clear_pending (ws_ctx s), ws_pc := Calling fns\<rparr>)"
| step_call: "ws_pc s = Calling (fn # fns) \<Longrightarrow> invoke (\<lambda>_. Some) (Posted fn) (ws_ctx s) = Some c \<Longrightarrow>
    wake_step L_call s (s\<lparr>ws_ctx := c, ws_pc := Calling fns\<rparr>)"
| step_done: "ws_pc s = Calling [] \<Longrightarrow> wake_step L_done s (s\<lparr>ws_pc := In_poll\<rparr>)"

inductive wake_run :: "'w wake_label list \<Rightarrow> 'w wake_state \<Rightarrow> 'w wake_state \<Rightarrow> bool" where
  wake_run_Nil: "wake_run [] s s"
| wake_run_snoc: "wake_run ls s s' \<Longrightarrow> wake_step l s' s'' \<Longrightarrow> wake_run (ls @ [l]) s s''"

definition wake_start :: "'w default_context \<Rightarrow> 'w wake_state" where
  "wake_start c = \<lparr>ws_ctx = c, ws_pc = In_poll, ws_posting = 0\<rparr>"

fun pushes :: "'w wake_label list \<Rightarrow> 'w list" where
  "pushes [] = []"
| "pushes (L_push fn # ls) = fn # pushes ls"
| "pushes (_ # ls) = pushes ls"

lemma pushes_append [simp]: "pushes (xs @ ys) = pushes xs @ pushes ys"
  by (induction xs rule: pushes.induct) auto

lemmas wake_defs = post_push_def post_signal_def write_wakeup_fd_def drain_wakeup_fd_def swap_queue_def clear_pending_def
  invoke_def Let_def

section \<open>No function is lost or reordered\<close>

text \<open>
  The calls made, the functions taken and the functions queued are the posts in their order, and a set
  flag is backed by a wakeup or by a loop that is about to swap and clear.
\<close>

lemma step_conserves:
  "wake_step l s s' \<Longrightarrow>
   posted_of (dc_calls (ws_ctx s')) @ taken (ws_pc s') @ dc_work_queue (ws_ctx s') =
   posted_of (dc_calls (ws_ctx s)) @ taken (ws_pc s) @ dc_work_queue (ws_ctx s) @ pushes [l]"
  by (cases rule: wake_step.cases) (auto simp: wake_defs split: if_splits)

definition served :: "'w wake_state \<Rightarrow> bool" where
  "served s \<longleftrightarrow> ws_posting s > 0 \<or> dc_wakeup_count (ws_ctx s) > 0 \<or> ws_pc s = Woken \<or> ws_pc s = Fd_drained"

definition flag_backed :: "'w wake_state \<Rightarrow> bool" where
  "flag_backed s \<longleftrightarrow> (dc_post_pending (ws_ctx s) \<longrightarrow>
     dc_wakeup_count (ws_ctx s) > 0 \<or> ws_pc s = Woken \<or> ws_pc s = Fd_drained \<or> (\<exists>fns. ws_pc s = Swapped fns))"

lemma step_flag_backed: "wake_step l s s' \<Longrightarrow> flag_backed s \<Longrightarrow> flag_backed s'"
  by (cases rule: wake_step.cases) (auto simp: flag_backed_def wake_defs split: if_splits)

lemma step_served:
  assumes "wake_step l s s'" and "l \<noteq> L_signal_in_window" and "flag_backed s" and "dc_work_queue (ws_ctx s) \<noteq> [] \<longrightarrow> served s"
  shows "dc_work_queue (ws_ctx s') \<noteq> [] \<longrightarrow> served s'"
  using assms by (cases rule: wake_step.cases) (auto simp: flag_backed_def served_def wake_defs split: if_splits)

text \<open>
  C21: However posts of several threads interleave with the loop, functions are called in the order of their
  pushes, none twice and none lost from the queue; and as long as no exchange of the flag falls between the swap
  of the queue and the store to the flag, queued functions always have a post in progress, a wakeup
  in the \<open>eventfd\<close> or a loop about to take them.
\<close>

theorem interleaved_posts_served:
  assumes "wake_run ls (wake_start c) s" and "new_default_context fd = Some c"
  shows "posted_of (dc_calls (ws_ctx s)) @ taken (ws_pc s) @ dc_work_queue (ws_ctx s) = pushes ls \<and>
     (L_signal_in_window \<notin> set ls \<longrightarrow> dc_work_queue (ws_ctx s) \<noteq> [] \<longrightarrow> served s)"
proof -
  have "posted_of (dc_calls (ws_ctx s)) @ taken (ws_pc s) @ dc_work_queue (ws_ctx s) = pushes ls \<and> flag_backed s \<and>
     (L_signal_in_window \<notin> set ls \<longrightarrow> dc_work_queue (ws_ctx s) \<noteq> [] \<longrightarrow> served s)"
    using assms
  proof (induction ls "wake_start c" s rule: wake_run.induct)
    case wake_run_Nil
    then show ?case by (auto simp: wake_start_def new_default_context_def flag_backed_def split: if_splits)
  next
    case (wake_run_snoc ls s' l s'')
    then show ?case
      using step_conserves [of l s' s''] step_flag_backed [of l s' s''] step_served [of l s' s''] by auto
  qed
  then show ?thesis by blast
qed

section \<open>The lost wakeup\<close>

text \<open>The steps as a function, to run a schedule.\<close>

fun wake_exec :: "'w wake_label \<Rightarrow> 'w wake_state \<Rightarrow> 'w wake_state option" where
  "wake_exec (L_push fn) s = Some (s\<lparr>ws_ctx := post_push fn (ws_ctx s), ws_posting := ws_posting s + 1\<rparr>)"
| "wake_exec L_signal s =
     (case ws_pc s of Swapped _ \<Rightarrow> None
      | _ \<Rightarrow> if ws_posting s > 0 then Some (s\<lparr>ws_ctx := post_signal (ws_ctx s), ws_posting := ws_posting s - 1\<rparr>) else None)"
| "wake_exec L_signal_in_window s =
     (case ws_pc s of
        Swapped _ \<Rightarrow> if ws_posting s > 0 then Some (s\<lparr>ws_ctx := post_signal (ws_ctx s), ws_posting := ws_posting s - 1\<rparr>) else None
      | _ \<Rightarrow> None)"
| "wake_exec L_wake s = (case ws_pc s of In_poll \<Rightarrow> if dc_wakeup_count (ws_ctx s) > 0 then Some (s\<lparr>ws_pc := Woken\<rparr>) else None | _ \<Rightarrow> None)"
| "wake_exec L_drain s =
     (case ws_pc s of Woken \<Rightarrow> Some (s\<lparr>ws_ctx := drain_wakeup_fd (ws_ctx s), ws_pc := Fd_drained\<rparr>) | _ \<Rightarrow> None)"
| "wake_exec L_swap s =
     (case ws_pc s of Fd_drained \<Rightarrow> (case swap_queue (ws_ctx s) of (local, c) \<Rightarrow> Some (s\<lparr>ws_ctx := c, ws_pc := Swapped local\<rparr>)) | _ \<Rightarrow> None)"
| "wake_exec L_clear s =
     (case ws_pc s of Swapped fns \<Rightarrow> Some (s\<lparr>ws_ctx := clear_pending (ws_ctx s), ws_pc := Calling fns\<rparr>) | _ \<Rightarrow> None)"
| "wake_exec L_call s =
     (case ws_pc s of
        Calling (fn # fns) \<Rightarrow> map_option (\<lambda>c. s\<lparr>ws_ctx := c, ws_pc := Calling fns\<rparr>) (invoke (\<lambda>_. Some) (Posted fn) (ws_ctx s))
      | _ \<Rightarrow> None)"
| "wake_exec L_done s = (case ws_pc s of Calling [] \<Rightarrow> Some (s\<lparr>ws_pc := In_poll\<rparr>) | _ \<Rightarrow> None)"

lemma wake_exec_iff: "wake_exec l s = Some s' \<longleftrightarrow> wake_step l s s'"
  by (cases l; cases "ws_pc s")
    (auto simp: wake_step.simps invoke_def split: if_splits list.splits prod.splits)

fun wake_execs :: "'w wake_label list \<Rightarrow> 'w wake_state \<Rightarrow> 'w wake_state option" where
  "wake_execs [] s = Some s"
| "wake_execs (l # ls) s = do { s \<leftarrow> wake_exec l s; wake_execs ls s }"

lemma wake_run_extend: "wake_run ks r s \<Longrightarrow> wake_execs ls s = Some s' \<Longrightarrow> wake_run (ks @ ls) r s'"
proof (induction ls arbitrary: ks s)
  case (Cons l ls)
  then obtain s1 where "wake_step l s s1" "wake_execs ls s1 = Some s'" by (auto simp: wake_exec_iff split: bind_splits)
  then show ?case using Cons.IH [OF wake_run_snoc [OF Cons.prems(1)]] by fastforce
qed simp

lemma wake_execs_run: "wake_execs ls s = Some s' \<Longrightarrow> wake_run ls s s'"
  using wake_run_extend [OF wake_run_Nil] by fastforce

text \<open>Undisturbed by posts, the steps of the loop are those of \<open>drain_work_queue\<close>.\<close>

lemma calls_are_run_work:
  "wake_execs (replicate (length fns) L_call) \<lparr>ws_ctx = c, ws_pc = Calling fns, ws_posting = n\<rparr> =
   map_option (\<lambda>c. \<lparr>ws_ctx = c, ws_pc = Calling [], ws_posting = n\<rparr>) (run_work (\<lambda>_. Some) fns c)"
  by (induction fns arbitrary: c) (simp_all add: invoke_def)

lemma steps_are_drain_work_queue:
  "wake_execs (L_swap # L_clear # replicate (length (dc_work_queue c)) L_call) \<lparr>ws_ctx = c, ws_pc = Fd_drained, ws_posting = n\<rparr> =
   map_option (\<lambda>c. \<lparr>ws_ctx = c, ws_pc = Calling [], ws_posting = n\<rparr>) (drain_work_queue (\<lambda>_. Some) c)"
  by (simp add: drain_work_queue_def swap_queue_def calls_are_run_work)

text \<open>
  A schedule in which a second post exchanges the flag between the swap and the store of the loop, and
  the state that it ends in.
\<close>

definition lost_post :: "'w \<Rightarrow> 'w \<Rightarrow> 'w wake_label list" where
  "lost_post a b = [L_push a, L_signal, L_wake, L_drain, L_swap, L_push b, L_signal_in_window, L_clear, L_call, L_done]"

definition after_lost_post :: "'w \<Rightarrow> 'w \<Rightarrow> 'w default_context \<Rightarrow> 'w wake_state" where
  "after_lost_post a b c = wake_start (c\<lparr>dc_work_queue := [b], dc_calls := [Posted a]\<rparr>)"

lemma lost_post_runs: "new_default_context fd = Some c \<Longrightarrow> wake_execs (lost_post a b) (wake_start c) = Some (after_lost_post a b c)"
  by (auto simp: lost_post_def after_lost_post_def wake_start_def new_default_context_def wake_defs split: if_splits)

text \<open>
  C22: A wakeup can be lost. The loop swaps the queue before it clears \<open>m_post_pending\<close>; a post that comes between
  finds the flag set and writes no wakeup, and its function then stays queued while the loop waits in \<open>poll\<close>
  without any wakeup: nothing but another post can move the system on.
\<close>

theorem post_lost_wakeup:
  assumes "new_default_context fd = Some c"
  shows "\<exists>ls s. wake_run ls (wake_start c) s \<and> pushes ls = [a, b] \<and> ws_posting s = 0 \<and> dc_calls (ws_ctx s) = [Posted a] \<and>
     dc_work_queue (ws_ctx s) = [b] \<and> (\<forall>l s'. wake_step l s s' \<longrightarrow> (\<exists>fn. l = L_push fn))"
proof (intro exI conjI)
  show "wake_run (lost_post a b) (wake_start c) (after_lost_post a b c)"
    by (rule wake_execs_run [OF lost_post_runs [OF assms]])
  show "\<forall>l s'. wake_step l (after_lost_post a b c) s' \<longrightarrow> (\<exists>fn. l = L_push fn)"
    using assms by (auto simp: wake_step.simps after_lost_post_def wake_start_def new_default_context_def split: if_splits)
qed (simp_all add: lost_post_def after_lost_post_def wake_start_def)

definition fresh_context :: "string default_context" where
  "fresh_context = the (new_default_context 3)"

lemma fresh_context_new: "new_default_context 3 = Some fresh_context"
  by (simp add: fresh_context_def new_default_context_def)

theorem post_lost_wakeup_witness:
  "\<exists>ls s. wake_run ls (wake_start fresh_context) s \<and> pushes ls = [''start'', ''update''] \<and>
     dc_work_queue (ws_ctx s) = [''update''] \<and> (\<forall>l s'. wake_step l s s' \<longrightarrow> (\<exists>fn. l = L_push fn))"
  using post_lost_wakeup [OF fresh_context_new, of "''start''" "''update''"] by blast

theorem interleaved_posts_served_witness:
  "\<exists>s. wake_run [L_push ''a'', L_signal, L_wake, L_push ''b''] (wake_start fresh_context) s \<and>
     dc_work_queue (ws_ctx s) = [''a'', ''b''] \<and> served s"
proof -
  obtain s where s: "wake_execs [L_push ''a'', L_signal, L_wake, L_push ''b''] (wake_start fresh_context) = Some s"
    by (simp add: wake_start_def fresh_context_def new_default_context_def wake_defs)
  then have "taken (ws_pc s) = []" "dc_calls (ws_ctx s) = []"
    by (auto simp: wake_start_def fresh_context_def new_default_context_def wake_defs)
  then show ?thesis
    using interleaved_posts_served [OF wake_execs_run [OF s] fresh_context_new] wake_execs_run [OF s] by auto
qed

end
