(* ===== verification/Default_Socket.thy ===== *)
theory Default_Socket
  imports Default_Context Group_Interfaces
begin

text \<open>
  \<open>default/default_socket.h\<close>, in its Linux variant: opening and configuring the multicast socket of the
  default policy. System calls are arguments that may fail in every way; the calls made are recorded in
  order. An error code is \<open>None\<close> when it is cleared.
\<close>

section \<open>System calls\<close>

datatype sockopt =
    So_reuseaddr int
  | So_reuseport int
  | Ip_multicast_if bytes
  | Ip_add_membership bytes bytes
  | Ip_multicast_ttl int
  | Ip_multicast_loop int
  | Ip_recvttl int
  | Ip_pktinfo_on int
  | Ipv6_multicast_if u32
  | Ipv6_join_group bytes u32
  | Ipv6_multicast_hops int
  | Ipv6_multicast_loop int
  | Ipv6_recvhoplimit int
  | Ipv6_recvpktinfo int

datatype socket_address = Addr_in bytes u16 | Addr_in6 bytes u16

text \<open>A system call on a descriptor; the truth value is its success.\<close>

datatype syscall =
    Sys_socket int
  | Sys_setsockopt int sockopt bool
  | Sys_getfl int bool
  | Sys_setfl int "32 word" bool
  | Sys_bind int socket_address bool
  | Sys_sendto int socket_address bytes bool
  | Sys_close int

datatype sock_error = Errno int | Errc errc

text \<open>
  The operating system: \<open>None\<close> is success of a call without result, \<open>Some\<close> its \<open>errno\<close>. \<open>so_socket\<close> returns \<open>-1\<close> on
  error. \<open>so_ifaddrs\<close> gives the entries of \<open>getifaddrs\<close>, each with its address when that is an IPv6 address.
\<close>

record socket_os =
  so_pton4 :: "string \<Rightarrow> bytes option"
  so_pton6 :: "string \<Rightarrow> bytes option"
  so_errno :: int
  so_socket :: "bool \<Rightarrow> int"
  so_setsockopt :: "sockopt \<Rightarrow> int option"
  so_getfl :: "int + 32 word"
  so_setfl :: "32 word \<Rightarrow> int option"
  so_bind :: "socket_address \<Rightarrow> int option"
  so_sendto :: "socket_address \<Rightarrow> bytes \<Rightarrow> int option"
  so_ifaddrs :: "(string \<times> bytes option) list option"
  so_nametoindex :: "string \<Rightarrow> u32"

record 'w default_socket =
  ds_fd :: int
  ds_receive_handler :: "'w option"
  ds_trace :: "syscall list"

definition unopened_socket :: "'w default_socket" where
  "unopened_socket = \<lparr>ds_fd = - 1, ds_receive_handler = None, ds_trace = []\<rparr>"

definition sys :: "syscall \<Rightarrow> 'w default_socket \<Rightarrow> 'w default_socket" where
  "sys call s = s\<lparr>ds_trace := ds_trace s @ [call]\<rparr>"

text \<open>The idiom \<open>if(!step(ec)) return;\<close>.\<close>

fun and_then :: "sock_error option \<times> 'w default_socket \<Rightarrow> ('w default_socket \<Rightarrow> sock_error option \<times> 'w default_socket) \<Rightarrow>
    sock_error option \<times> 'w default_socket" where
  "and_then (None, s) f = f s"
| "and_then (Some e, s) f = (Some e, s)"

section \<open>Addresses\<close>

definition is_ipv6 :: "socket_os \<Rightarrow> string \<Rightarrow> bool" where
  "is_ipv6 os addr \<longleftrightarrow> so_pton6 os (c_str addr) \<noteq> None"

text \<open>A failed \<open>inet_pton\<close> leaves the zero bytes of the initialisation.\<close>

definition pton4_or_zero :: "socket_os \<Rightarrow> string \<Rightarrow> bytes" where
  "pton4_or_zero os addr = (case so_pton4 os (c_str addr) of Some a \<Rightarrow> a | None \<Rightarrow> replicate 4 0)"

definition pton6_or_zero :: "socket_os \<Rightarrow> string \<Rightarrow> bytes" where
  "pton6_or_zero os addr = (case so_pton6 os (c_str addr) of Some a \<Rightarrow> a | None \<Rightarrow> replicate 16 0)"

definition build_sockaddr :: "socket_os \<Rightarrow> endpoint \<Rightarrow> socket_address" where
  "build_sockaddr os dest =
     (if is_ipv6 os (ep_address dest) then Addr_in6 (pton6_or_zero os (ep_address dest)) (ep_port dest)
      else Addr_in (pton4_or_zero os (ep_address dest)) (ep_port dest))"

definition resolve_ipv6_interface_index :: "socket_os \<Rightarrow> string \<Rightarrow> u32" where
  "resolve_ipv6_interface_index os addr =
     (if addr = [] then 0
      else case so_ifaddrs os of
        None \<Rightarrow> 0
      | Some addrs \<Rightarrow>
          (case find (\<lambda>(name, a). a = Some (pton6_or_zero os addr)) addrs of
             Some (name, a) \<Rightarrow> so_nametoindex os name
           | None \<Rightarrow> 0))"

section \<open>Opening\<close>

definition cleanup_on_error :: "'w default_socket \<Rightarrow> 'w default_socket" where
  "cleanup_on_error s = (sys (Sys_close (ds_fd s)) s)\<lparr>ds_fd := - 1\<rparr>"

definition set_sock_opt :: "socket_os \<Rightarrow> sockopt \<Rightarrow> 'w default_socket \<Rightarrow> sock_error option \<times> 'w default_socket" where
  "set_sock_opt os opt s =
     (case so_setsockopt os opt of
        Some e \<Rightarrow> (Some (Errno e), cleanup_on_error (sys (Sys_setsockopt (ds_fd s) opt False) s))
      | None \<Rightarrow> (None, sys (Sys_setsockopt (ds_fd s) opt True) s))"

text \<open>A call of \<open>setsockopt\<close> whose result is ignored.\<close>

definition try_sock_opt :: "socket_os \<Rightarrow> sockopt \<Rightarrow> 'w default_socket \<Rightarrow> 'w default_socket" where
  "try_sock_opt os opt s = sys (Sys_setsockopt (ds_fd s) opt (so_setsockopt os opt = None)) s"

definition set_nonblocking :: "socket_os \<Rightarrow> 'w default_socket \<Rightarrow> sock_error option \<times> 'w default_socket" where
  "set_nonblocking os s =
     (case so_getfl os of
        Inl e \<Rightarrow> (Some (Errno e), sys (Sys_getfl (ds_fd s) False) s)
      | Inr flags \<Rightarrow>
          (let s = sys (Sys_getfl (ds_fd s) True) s; new_flags = flags OR 0x800
           in case so_setfl os new_flags of
                Some e \<Rightarrow> (Some (Errno e), sys (Sys_setfl (ds_fd s) new_flags False) s)
              | None \<Rightarrow> (None, sys (Sys_setfl (ds_fd s) new_flags True) s)))"

definition bind_socket :: "socket_os \<Rightarrow> socket_address \<Rightarrow> 'w default_socket \<Rightarrow> sock_error option \<times> 'w default_socket" where
  "bind_socket os addr s =
     (case so_bind os addr of
        Some e \<Rightarrow> (Some (Errno e), cleanup_on_error (sys (Sys_bind (ds_fd s) addr False) s))
      | None \<Rightarrow> (None, sys (Sys_bind (ds_fd s) addr True) s))"

definition ttl_value :: "socket_options \<Rightarrow> int" where
  "ttl_value opts = uint (case multicast_ttl opts of Some ttl \<Rightarrow> ttl | None \<Rightarrow> 255)"

definition loop_value :: "socket_options \<Rightarrow> int" where
  "loop_value opts = (if multicast_loopback opts = Loopback_enabled then 1 else 0)"

definition configure_ipv4 :: "socket_os \<Rightarrow> socket_options \<Rightarrow> 'w default_socket \<Rightarrow> sock_error option \<times> 'w default_socket" where
  "configure_ipv4 os opts s =
     and_then (bind_socket os (Addr_in [0, 0, 0, 0] (ep_port (multicast_group opts))) s) (\<lambda>s.
       case (if interface_address opts = [] then Some [0, 0, 0, 0] else so_pton4 os (c_str (interface_address opts))) of
         None \<Rightarrow> (Some (Errc Invalid_argument), cleanup_on_error s)
       | Some iface_addr \<Rightarrow>
           and_then (if interface_address opts \<noteq> [] then set_sock_opt os (Ip_multicast_if iface_addr) s else (None, s)) (\<lambda>s.
           and_then (set_sock_opt os (Ip_add_membership (pton4_or_zero os (ep_address (multicast_group opts))) iface_addr) s) (\<lambda>s.
           and_then (set_sock_opt os (Ip_multicast_ttl (ttl_value opts)) s) (\<lambda>s.
           and_then (set_sock_opt os (Ip_multicast_loop (loop_value opts)) s) (\<lambda>s.
             (None, try_sock_opt os (Ip_pktinfo_on 1) (try_sock_opt os (Ip_recvttl 1) s)))))))"

definition configure_ipv6 :: "socket_os \<Rightarrow> socket_options \<Rightarrow> 'w default_socket \<Rightarrow> sock_error option \<times> 'w default_socket" where
  "configure_ipv6 os opts s =
     and_then (bind_socket os (Addr_in6 (replicate 16 0) (ep_port (multicast_group opts))) s) (\<lambda>s.
       (let iface_idx = resolve_ipv6_interface_index os (interface_address opts)
        in and_then (if interface_address opts \<noteq> [] then set_sock_opt os (Ipv6_multicast_if iface_idx) s else (None, s)) (\<lambda>s.
           and_then (set_sock_opt os (Ipv6_join_group (pton6_or_zero os (ep_address (multicast_group opts))) iface_idx) s) (\<lambda>s.
           and_then (set_sock_opt os (Ipv6_multicast_hops (ttl_value opts)) s) (\<lambda>s.
           and_then (set_sock_opt os (Ipv6_multicast_loop (loop_value opts)) s) (\<lambda>s.
             (None, try_sock_opt os (Ipv6_recvpktinfo 1) (try_sock_opt os (Ipv6_recvhoplimit 1) s))))))))"

text \<open>\<open>open_and_configure\<close>, first its part after \<open>SO_REUSEADDR\<close>.\<close>

definition configure_opened :: "socket_os \<Rightarrow> socket_options \<Rightarrow> bool \<Rightarrow> 'w default_socket \<Rightarrow> sock_error option \<times> 'w default_socket" where
  "configure_opened os opts v6 s =
     (case set_nonblocking os (try_sock_opt os (So_reuseport 1) s) of
        (Some e, s) \<Rightarrow> (Some e, cleanup_on_error s)
      | (None, s) \<Rightarrow> if v6 then configure_ipv6 os opts s else configure_ipv4 os opts s)"

definition open_and_configure :: "socket_os \<Rightarrow> socket_options \<Rightarrow> 'w default_socket \<Rightarrow> sock_error option \<times> 'w default_socket" where
  "open_and_configure os opts s =
     (case validate_multicast_address (so_pton4 os) (so_pton6 os) (ep_address (multicast_group opts)) of
        Some e \<Rightarrow> (Some (Errc e), s)
      | None \<Rightarrow>
          (let v6 = is_ipv6 os (ep_address (multicast_group opts));
               fd = so_socket os v6;
               s = s\<lparr>ds_fd := fd\<rparr>
           in if fd = - 1 then (Some (Errno (so_errno os)), s)
              else
                and_then (set_sock_opt os (So_reuseaddr 1) (sys (Sys_socket fd) s)) (configure_opened os opts v6)))"

text \<open>The constructors: with an error code as a result, and throwing (\<open>Inl\<close> is the exception).\<close>

definition new_default_socket :: "socket_os \<Rightarrow> socket_options \<Rightarrow> sock_error option \<times> 'w default_socket" where
  "new_default_socket os opts = open_and_configure os opts unopened_socket"

definition new_default_socket_throwing :: "socket_os \<Rightarrow> socket_options \<Rightarrow> sock_error + 'w default_socket" where
  "new_default_socket_throwing os opts =
     (case new_default_socket os opts of (Some e, s) \<Rightarrow> Inl e | (None, s) \<Rightarrow> Inr s)"

section \<open>Use\<close>

definition default_async_receive ::
  "'w \<Rightarrow> 'w default_socket \<Rightarrow> ('w, 'z) default_context_scheme \<Rightarrow> 'w default_socket \<times> ('w, 'z) default_context_scheme" where
  "default_async_receive handler s c =
     (s\<lparr>ds_receive_handler := Some handler\<rparr>, dc_register_socket (ds_fd s) (Some handler) c)"

definition default_send :: "socket_os \<Rightarrow> endpoint \<Rightarrow> bytes \<Rightarrow> 'w default_socket \<Rightarrow> sock_error option \<times> 'w default_socket" where
  "default_send os dest data s =
     (let ss = build_sockaddr os dest
      in case so_sendto os ss data of
           Some e \<Rightarrow> (Some (Errno e), sys (Sys_sendto (ds_fd s) ss data False) s)
         | None \<Rightarrow> (None, sys (Sys_sendto (ds_fd s) ss data True) s))"

definition default_send_void :: "socket_os \<Rightarrow> endpoint \<Rightarrow> bytes \<Rightarrow> 'w default_socket \<Rightarrow> 'w default_socket" where
  "default_send_void os dest data s =
     (let ss = build_sockaddr os dest in sys (Sys_sendto (ds_fd s) ss data (so_sendto os ss data = None)) s)"

definition default_close ::
  "'w default_socket \<Rightarrow> ('w, 'z) default_context_scheme \<Rightarrow> 'w default_socket \<times> ('w, 'z) default_context_scheme" where
  "default_close s c =
     (if ds_fd s \<noteq> - 1
      then ((sys (Sys_close (ds_fd s)) s)\<lparr>ds_fd := - 1\<rparr>, dc_deregister_socket (ds_fd s) c)
      else (s, c))"

section \<open>A socket is configured or released\<close>

fun opened_fds :: "syscall list \<Rightarrow> int list" where
  "opened_fds [] = []"
| "opened_fds (Sys_socket fd # cs) = fd # opened_fds cs"
| "opened_fds (_ # cs) = opened_fds cs"

fun closed_fds :: "syscall list \<Rightarrow> int list" where
  "closed_fds [] = []"
| "closed_fds (Sys_close fd # cs) = fd # closed_fds cs"
| "closed_fds (_ # cs) = closed_fds cs"

text \<open>The calls whose failure is an error, but for those on the descriptor flags.\<close>

fun essential :: "syscall \<Rightarrow> bool" where
  "essential (Sys_setsockopt fd opt ok) =
     (case opt of So_reuseport _ \<Rightarrow> False | Ip_recvttl _ \<Rightarrow> False | Ip_pktinfo_on _ \<Rightarrow> False
      | Ipv6_recvhoplimit _ \<Rightarrow> False | Ipv6_recvpktinfo _ \<Rightarrow> False | _ \<Rightarrow> True)"
| "essential (Sys_bind fd addr ok) = True"
| "essential _ = False"

lemma opened_fds_append [simp]: "opened_fds (xs @ ys) = opened_fds xs @ opened_fds ys"
  by (induction xs rule: opened_fds.induct) auto

lemma closed_fds_append [simp]: "closed_fds (xs @ ys) = closed_fds xs @ closed_fds ys"
  by (induction xs rule: closed_fds.induct) auto

definition holding :: "int \<Rightarrow> 'w default_socket \<Rightarrow> bool" where
  "holding fd s \<longleftrightarrow> ds_fd s = fd \<and> opened_fds (ds_trace s) = [fd] \<and> closed_fds (ds_trace s) = []"

text \<open>A step that holds the descriptor either makes the essential calls \<open>cs\<close> or releases the descriptor.\<close>

fun configures :: "int \<Rightarrow> syscall list \<Rightarrow> 'w default_socket \<Rightarrow> sock_error option \<times> 'w default_socket \<Rightarrow> bool" where
  "configures fd cs s (None, s') \<longleftrightarrow> holding fd s' \<and> filter essential (ds_trace s') = filter essential (ds_trace s) @ cs \<and>
     set (ds_trace s) \<subseteq> set (ds_trace s')"
| "configures fd cs s (Some e, s') \<longleftrightarrow> ds_fd s' = - 1 \<and> opened_fds (ds_trace s') = [fd] \<and> closed_fds (ds_trace s') = [fd]"

lemma configures_and_then:
  assumes "configures fd cs s r" and "\<And>s'. holding fd s' \<Longrightarrow> configures fd ds s' (f s')"
  shows "configures fd (cs @ ds) s (and_then r f)"
proof (cases r)
  case (Pair ec s')
  show ?thesis
  proof (cases ec)
    case None
    with assms(1) Pair have s': "holding fd s'" "filter essential (ds_trace s') = filter essential (ds_trace s) @ cs"
        "set (ds_trace s) \<subseteq> set (ds_trace s')" by auto
    obtain ec2 s2 where r2: "f s' = (ec2, s2)" by fastforce
    show ?thesis using assms(2) [OF s'(1)] s' None Pair r2 by (cases ec2) auto
  next
    case (Some e)
    then show ?thesis using assms(1) Pair by simp
  qed
qed

lemma configures_Nil: "holding fd s \<Longrightarrow> configures fd [] s (None, s)"
  by simp

lemma configures_set_sock_opt:
  "holding fd s \<Longrightarrow> essential (Sys_setsockopt fd opt True) \<Longrightarrow>
   configures fd [Sys_setsockopt fd opt True] s (set_sock_opt os opt s)"
  by (auto simp: set_sock_opt_def holding_def sys_def cleanup_on_error_def split: option.split)

lemma configures_bind: "holding fd s \<Longrightarrow> configures fd [Sys_bind fd addr True] s (bind_socket os addr s)"
  by (auto simp: bind_socket_def holding_def sys_def cleanup_on_error_def split: option.split)

lemma configures_try:
  "holding fd s \<Longrightarrow> \<not> essential (Sys_setsockopt fd o1 True) \<Longrightarrow> \<not> essential (Sys_setsockopt fd o2 True) \<Longrightarrow>
   configures fd [] s (None, try_sock_opt os o2 (try_sock_opt os o1 s))"
  by (cases "so_setsockopt os o1"; cases "so_setsockopt os o2") (auto simp: try_sock_opt_def holding_def sys_def)

lemmas configures_rules = configures_and_then configures_set_sock_opt configures_bind configures_try

text \<open>The essential calls that the options prescribe.\<close>

definition options4 :: "socket_os \<Rightarrow> socket_options \<Rightarrow> bytes \<Rightarrow> sockopt list" where
  "options4 os opts iface =
     (if interface_address opts \<noteq> [] then [Ip_multicast_if iface] else []) @
     [Ip_add_membership (pton4_or_zero os (ep_address (multicast_group opts))) iface,
      Ip_multicast_ttl (ttl_value opts), Ip_multicast_loop (loop_value opts)]"

definition options6 :: "socket_os \<Rightarrow> socket_options \<Rightarrow> sockopt list" where
  "options6 os opts =
     (let idx = resolve_ipv6_interface_index os (interface_address opts)
      in (if interface_address opts \<noteq> [] then [Ipv6_multicast_if idx] else []) @
         [Ipv6_join_group (pton6_or_zero os (ep_address (multicast_group opts))) idx,
          Ipv6_multicast_hops (ttl_value opts), Ipv6_multicast_loop (loop_value opts)])"

definition required4 :: "socket_os \<Rightarrow> socket_options \<Rightarrow> int \<Rightarrow> bytes \<Rightarrow> syscall list" where
  "required4 os opts fd iface =
     Sys_bind fd (Addr_in [0, 0, 0, 0] (ep_port (multicast_group opts))) True #
     map (\<lambda>opt. Sys_setsockopt fd opt True) (options4 os opts iface)"

definition required6 :: "socket_os \<Rightarrow> socket_options \<Rightarrow> int \<Rightarrow> syscall list" where
  "required6 os opts fd =
     Sys_bind fd (Addr_in6 (replicate 16 0) (ep_port (multicast_group opts))) True #
     map (\<lambda>opt. Sys_setsockopt fd opt True) (options6 os opts)"

definition interface4 :: "socket_os \<Rightarrow> socket_options \<Rightarrow> bytes" where
  "interface4 os opts = (if interface_address opts = [] then [0, 0, 0, 0] else pton4_or_zero os (interface_address opts))"

definition required_calls :: "socket_os \<Rightarrow> socket_options \<Rightarrow> int \<Rightarrow> syscall list" where
  "required_calls os opts fd =
     Sys_setsockopt fd (So_reuseaddr 1) True #
     (if is_ipv6 os (ep_address (multicast_group opts)) then required6 os opts fd
      else required4 os opts fd (interface4 os opts))"

lemma configures_options:
  assumes "holding fd s" and "list_all (\<lambda>opt. essential (Sys_setsockopt fd opt True)) [j, t, l]"
    and "pre \<longrightarrow> essential (Sys_setsockopt fd i True)"
    and "\<not> essential (Sys_setsockopt fd o1 True)" and "\<not> essential (Sys_setsockopt fd o2 True)"
  shows "configures fd (map (\<lambda>opt. Sys_setsockopt fd opt True) ((if pre then [i] else []) @ [j, t, l])) s
    (and_then (if pre then set_sock_opt os i s else (None, s)) (\<lambda>s.
     and_then (set_sock_opt os j s) (\<lambda>s. and_then (set_sock_opt os t s) (\<lambda>s. and_then (set_sock_opt os l s) (\<lambda>s.
       (None, try_sock_opt os o2 (try_sock_opt os o1 s)))))))"
proof -
  let ?o = "\<lambda>opt. Sys_setsockopt fd opt True"
  have A: "configures fd (if pre then [?o i] else []) s (if pre then set_sock_opt os i s else (None, s))"
    using assms(1,3) by (auto intro: configures_set_sock_opt)
  have B: "configures fd ([?o j] @ [?o t] @ [?o l] @ []) s' (and_then (set_sock_opt os j s') (\<lambda>s.
      and_then (set_sock_opt os t s) (\<lambda>s. and_then (set_sock_opt os l s) (\<lambda>s. (None, try_sock_opt os o2 (try_sock_opt os o1 s))))))"
    if "holding fd s'" for s'
    using that assms(2,4,5) by (intro configures_and_then configures_set_sock_opt configures_try) (auto simp del: essential.simps)
  have "configures fd ((if pre then [?o i] else []) @ [?o j] @ [?o t] @ [?o l] @ []) s
    (and_then (if pre then set_sock_opt os i s else (None, s)) (\<lambda>s.
     and_then (set_sock_opt os j s) (\<lambda>s. and_then (set_sock_opt os t s) (\<lambda>s. and_then (set_sock_opt os l s) (\<lambda>s.
       (None, try_sock_opt os o2 (try_sock_opt os o1 s)))))))"
    by (rule configures_and_then [OF A]) (rule B)
  then show ?thesis by (cases pre) simp_all
qed

lemma configures_ipv4:
  assumes "holding fd s"
  shows "configures fd (required4 os opts fd (interface4 os opts)) s (configure_ipv4 os opts s)"
proof -
  let ?iface = "if interface_address opts = [] then Some [0, 0, 0, 0] else so_pton4 os (c_str (interface_address opts))"
  have "configures fd ([Sys_bind fd (Addr_in [0, 0, 0, 0] (ep_port (multicast_group opts))) True] @
      map (\<lambda>opt. Sys_setsockopt fd opt True) (options4 os opts (interface4 os opts))) s (configure_ipv4 os opts s)"
    unfolding configure_ipv4_def
  proof (rule configures_and_then [OF configures_bind [OF assms]])
    fix s' :: "'a default_socket"
    assume h: "holding fd s'"
    show "configures fd (map (\<lambda>opt. Sys_setsockopt fd opt True) (options4 os opts (interface4 os opts))) s'
        (case ?iface of None \<Rightarrow> (Some (Errc Invalid_argument), cleanup_on_error s')
         | Some iface_addr \<Rightarrow>
           and_then (if interface_address opts \<noteq> [] then set_sock_opt os (Ip_multicast_if iface_addr) s' else (None, s')) (\<lambda>s.
           and_then (set_sock_opt os (Ip_add_membership (pton4_or_zero os (ep_address (multicast_group opts))) iface_addr) s) (\<lambda>s.
           and_then (set_sock_opt os (Ip_multicast_ttl (ttl_value opts)) s) (\<lambda>s.
           and_then (set_sock_opt os (Ip_multicast_loop (loop_value opts)) s) (\<lambda>s.
             (None, try_sock_opt os (Ip_pktinfo_on 1) (try_sock_opt os (Ip_recvttl 1) s)))))))"
    proof (cases ?iface)
      case None
      then show ?thesis using h by (simp add: holding_def cleanup_on_error_def sys_def)
    next
      case (Some a)
      then have "interface4 os opts = a" by (auto simp: interface4_def pton4_or_zero_def split: if_splits)
      then show ?thesis using Some
          configures_options [OF h, of "Ip_add_membership (pton4_or_zero os (ep_address (multicast_group opts))) a"
            "Ip_multicast_ttl (ttl_value opts)" "Ip_multicast_loop (loop_value opts)" "interface_address opts \<noteq> []"
            "Ip_multicast_if a" "Ip_recvttl 1" "Ip_pktinfo_on 1" os]
        by (simp add: options4_def)
    qed
  qed
  then show ?thesis by (simp add: required4_def)
qed

lemma configures_ipv6:
  assumes "holding fd s"
  shows "configures fd (required6 os opts fd) s (configure_ipv6 os opts s)"
proof -
  let ?idx = "resolve_ipv6_interface_index os (interface_address opts)"
  have "configures fd ([Sys_bind fd (Addr_in6 (replicate 16 0) (ep_port (multicast_group opts))) True] @
      map (\<lambda>opt. Sys_setsockopt fd opt True) (options6 os opts)) s (configure_ipv6 os opts s)"
    unfolding configure_ipv6_def Let_def options6_def
    by (rule configures_and_then [OF configures_bind [OF assms]], rule configures_options) auto
  then show ?thesis by (simp add: required6_def)
qed

definition nonblocking :: "int \<Rightarrow> 'w default_socket \<Rightarrow> bool" where
  "nonblocking fd s \<longleftrightarrow> (\<exists>flags. Sys_setfl fd flags True \<in> set (ds_trace s) \<and> bit flags 11)"

lemma set_nonblocking_cases:
  assumes "holding fd s"
  shows "(\<exists>e s'. set_nonblocking os s = (Some e, s') \<and> holding fd s') \<or>
         (\<exists>s'. set_nonblocking os s = (None, s') \<and> configures fd [] s (None, s') \<and> nonblocking fd s')"
proof (cases "so_getfl os")
  case (Inl e)
  then show ?thesis using assms by (simp add: set_nonblocking_def holding_def sys_def)
next
  case (Inr flags)
  have "bit (flags OR 0x800) 11" by (simp add: bit_simps)
  then show ?thesis using assms Inr
    by (cases "so_setfl os (flags OR 0x800)") (auto simp: set_nonblocking_def holding_def sys_def nonblocking_def Let_def)
qed

lemma configures_opened:
  assumes "holding fd s" and "configure_opened os opts v6 s = r"
  shows "configures fd (if v6 then required6 os opts fd else required4 os opts fd (interface4 os opts)) s r \<and>
         (fst r = None \<longrightarrow> nonblocking fd (snd r))"
proof -
  have h: "configures fd [] s (None, try_sock_opt os (So_reuseport 1) s)"
    using assms(1) by (auto simp: holding_def try_sock_opt_def sys_def)
  then have "holding fd (try_sock_opt os (So_reuseport 1) s)" by simp
  from set_nonblocking_cases [OF this, of os] consider
      (1) e s' where "set_nonblocking os (try_sock_opt os (So_reuseport 1) s) = (Some e, s')" "holding fd s'"
    | (2) s' where "set_nonblocking os (try_sock_opt os (So_reuseport 1) s) = (None, s')"
        "configures fd [] (try_sock_opt os (So_reuseport 1) s) (None, s')" "nonblocking fd s'" by blast
  then show ?thesis
  proof cases
    case (1 e s')
    then show ?thesis using assms(2) by (auto simp: configure_opened_def holding_def cleanup_on_error_def sys_def)
  next
    case (2 s')
    then have "holding fd s'" by simp
    then have c: "configures fd (if v6 then required6 os opts fd else required4 os opts fd (interface4 os opts)) s' r"
      using 2(1) assms(2) configures_ipv4 configures_ipv6 by (auto simp: configure_opened_def)
    obtain ec s2 where r: "r = (ec, s2)" by fastforce
    show ?thesis using c h 2(2,3) unfolding r by (cases ec) (auto simp: nonblocking_def)
  qed
qed

lemma new_default_socket_configures:
  assumes "validate_multicast_address (so_pton4 os) (so_pton6 os) (ep_address (multicast_group opts)) = None"
    and "so_socket os (is_ipv6 os (ep_address (multicast_group opts))) = fd" and "fd \<noteq> - 1"
    and "new_default_socket os opts = (r :: _ \<times> 'w default_socket)"
  shows "configures fd (required_calls os opts fd) unopened_socket r \<and> (fst r = None \<longrightarrow> nonblocking fd (snd r))"
proof -
  let ?v6 = "is_ipv6 os (ep_address (multicast_group opts))"
  let ?s0 = "sys (Sys_socket fd) (unopened_socket\<lparr>ds_fd := fd\<rparr>) :: 'w default_socket"
  have r: "r = and_then (set_sock_opt os (So_reuseaddr 1) ?s0) (configure_opened os opts ?v6)"
    using assms by (auto simp: new_default_socket_def open_and_configure_def Let_def)
  have h0: "holding fd ?s0" by (simp add: holding_def sys_def unopened_socket_def)
  have "configures fd ([Sys_setsockopt fd (So_reuseaddr 1) True] @
      (if ?v6 then required6 os opts fd else required4 os opts fd (interface4 os opts))) ?s0 r"
    unfolding r by (rule configures_and_then [OF configures_set_sock_opt [OF h0]]) (auto simp: configures_opened)
  then have c: "configures fd (required_calls os opts fd) unopened_socket r"
    by (cases r; cases "fst r") (auto simp: required_calls_def sys_def unopened_socket_def)
  have "nonblocking fd (snd r)" if none: "fst r = None"
  proof -
    have "configures fd [Sys_setsockopt fd (So_reuseaddr 1) True] ?s0 (set_sock_opt os (So_reuseaddr 1) ?s0)"
      by (rule configures_set_sock_opt [OF h0]) simp
    then obtain s1 where "holding fd s1" "r = configure_opened os opts ?v6 s1"
      using none unfolding r by (cases "set_sock_opt os (So_reuseaddr 1) ?s0"; cases "fst (set_sock_opt os (So_reuseaddr 1) ?s0)") auto
    then show ?thesis using configures_opened none by blast
  qed
  with c show ?thesis by blast
qed

lemma new_socket_calls:
  "case (new_default_socket os opts :: _ \<times> 'w default_socket) of
     (Some e, s) \<Rightarrow> ds_fd s = - 1 \<and> opened_fds (ds_trace s) = closed_fds (ds_trace s)
   | (None, s) \<Rightarrow>
       ds_fd s = so_socket os (is_ipv6 os (ep_address (multicast_group opts))) \<and> ds_fd s \<noteq> - 1 \<and>
       opened_fds (ds_trace s) = [ds_fd s] \<and> closed_fds (ds_trace s) = [] \<and>
       filter essential (ds_trace s) = required_calls os opts (ds_fd s) \<and>
       (\<exists>flags. Sys_setfl (ds_fd s) flags True \<in> set (ds_trace s) \<and> bit flags 11)"
proof (cases "validate_multicast_address (so_pton4 os) (so_pton6 os) (ep_address (multicast_group opts)) = None \<and>
    so_socket os (is_ipv6 os (ep_address (multicast_group opts))) \<noteq> - 1")
  case False
  then show ?thesis
    by (auto simp: new_default_socket_def open_and_configure_def unopened_socket_def Let_def split: option.split)
next
  case True
  obtain ec s where new: "new_default_socket os opts = (ec, s :: 'w default_socket)" by fastforce
  show ?thesis using new_default_socket_configures [OF _ refl _ new] True
    by (cases ec) (auto simp: new holding_def nonblocking_def unopened_socket_def)
qed

text \<open>The calls that set the TTL although the options leave it open: the code then sets it to 255.\<close>

fun sets_ttl :: "syscall \<Rightarrow> bool" where
  "sets_ttl (Sys_setsockopt fd (Ip_multicast_ttl n) ok) = True"
| "sets_ttl (Sys_setsockopt fd (Ipv6_multicast_hops n) ok) = True"
| "sets_ttl _ = False"

definition asked_for :: "socket_options \<Rightarrow> syscall list \<Rightarrow> syscall list" where
  "asked_for opts calls = filter (\<lambda>call. multicast_ttl opts = None \<longrightarrow> \<not> sets_ttl call) calls"

lemma default_ttl_is_set:
  assumes "multicast_ttl opts = None"
  shows "\<exists>call \<in> set (required_calls os opts fd). sets_ttl call \<and>
    (call = Sys_setsockopt fd (Ip_multicast_ttl 255) True \<or> call = Sys_setsockopt fd (Ipv6_multicast_hops 255) True)"
  using assms by (auto simp: required_calls_def required4_def required6_def options4_def options6_def ttl_value_def Let_def)

text \<open>
  C28: Opening a socket of the default policy, whatever the system calls return: either an error is reported and
  no descriptor stays open, or the descriptor is open and non-blocking, has been bound to the
  port of the group on any address, and the prescribed options were set in order: address reuse, outgoing
  interface, group membership on that interface, the TTL if the options give one, and loopback. Nothing
  is said of the TTL if the options give none.
\<close>

theorem socket_configured_or_released:
  "case (new_default_socket os opts :: _ \<times> 'w default_socket) of
     (Some e, s) \<Rightarrow> ds_fd s = - 1 \<and> opened_fds (ds_trace s) = closed_fds (ds_trace s)
   | (None, s) \<Rightarrow>
       ds_fd s = so_socket os (is_ipv6 os (ep_address (multicast_group opts))) \<and> ds_fd s \<noteq> - 1 \<and>
       opened_fds (ds_trace s) = [ds_fd s] \<and> closed_fds (ds_trace s) = [] \<and>
       asked_for opts (filter essential (ds_trace s)) = asked_for opts (required_calls os opts (ds_fd s)) \<and>
       (\<exists>flags. Sys_setfl (ds_fd s) flags True \<in> set (ds_trace s) \<and> bit flags 11)"
  using new_socket_calls [where ?'w = 'w, of os opts] by (auto split: prod.splits option.splits)

section \<open>Interfaces without an IPv4 address\<close>

definition calls_succeed :: "socket_os \<Rightarrow> bool" where
  "calls_succeed os \<longleftrightarrow> so_socket os False \<noteq> - 1 \<and> (\<forall>opt. so_setsockopt os opt = None) \<and>
     (\<exists>flags. so_getfl os = Inr flags) \<and> (\<forall>flags. so_setfl os flags = None) \<and> (\<forall>addr. so_bind os addr = None)"

lemma configure_ipv4_bad_interface:
  assumes "interface_address opts \<noteq> []" and "so_pton4 os (c_str (interface_address opts)) = None"
  shows "fst (configure_ipv4 os opts s) \<noteq> None \<and> (calls_succeed os \<longrightarrow> fst (configure_ipv4 os opts s) = Some (Errc Invalid_argument))"
  using assms by (auto simp: configure_ipv4_def bind_socket_def calls_succeed_def split: option.split)

lemma bad_interface_not_opened:
  assumes "interface_address opts \<noteq> []" and "so_pton4 os (c_str (interface_address opts)) = None"
    and "\<not> is_ipv6 os (ep_address (multicast_group opts))"
    and "validate_multicast_address (so_pton4 os) (so_pton6 os) (ep_address (multicast_group opts)) = None"
    and "new_default_socket os opts = (ec, s :: 'w default_socket)"
  shows "ec \<noteq> None \<and> (calls_succeed os \<longrightarrow> ec = Some (Errc Invalid_argument))"
proof -
  have opened: "fst (configure_opened os opts False s) \<noteq> None \<and>
      (calls_succeed os \<longrightarrow> fst (configure_opened os opts False s) = Some (Errc Invalid_argument))" for s :: "'w default_socket"
    using configure_ipv4_bad_interface [OF assms(1,2)]
    by (auto simp: configure_opened_def set_nonblocking_def calls_succeed_def Let_def split: sum.splits option.splits)
  show ?thesis
  proof (cases "so_socket os False = - 1 \<or> so_setsockopt os (So_reuseaddr 1) \<noteq> None")
    case True
    then show ?thesis using assms(3-5)
      by (auto simp: new_default_socket_def open_and_configure_def set_sock_opt_def calls_succeed_def Let_def split: if_splits)
  next
    case False
    then obtain s0 where "configure_opened os opts False s0 = (ec, s)" using assms(3-5)
      by (auto simp: new_default_socket_def open_and_configure_def set_sock_opt_def Let_def)
    then show ?thesis using opened [of s0] by simp
  qed
qed

text \<open>
  C30: On an interface that has an IPv6 address and no IPv4 address an interface group with default options
  cannot open a socket of the default policy: the group gives the IPv6 address to the socket, which joins
  the IPv4 group and rejects it. Even when all system calls succeed the constructor throws
  \<open>invalid_argument\<close>.
\<close>

theorem ipv6_only_interface_fails:
  assumes "go_socket_options_factory gopts = None" and "ni_ipv4_address nic = []" and "ni_ipv6_address nic \<noteq> []"
    and "so_pton4 os (c_str (ni_ipv6_address nic)) = None"
    and "so_pton4 os ''224.0.0.251'' = Some [224, 0, 0, 251]" and "so_pton6 os ''224.0.0.251'' = None"
  shows "\<exists>e. (new_default_socket_throwing os (socket_options_for gopts nic) :: _ + 'w default_socket) = Inl e \<and>
     (calls_succeed os \<longrightarrow> e = Errc Invalid_argument)"
proof -
  let ?o = "socket_options_for gopts nic"
  have o: "interface_address ?o = ni_ipv6_address nic" "ep_address (multicast_group ?o) = ''224.0.0.251''"
    using assms(1-3) by (simp_all add: socket_options_for_def default_socket_options_def)
  have c: "c_str ''224.0.0.251'' = ''224.0.0.251''" by (simp add: c_str_def)
  obtain ec s where new: "new_default_socket os ?o = (ec, s :: 'w default_socket)" by fastforce
  have "ec \<noteq> None \<and> (calls_succeed os \<longrightarrow> ec = Some (Errc Invalid_argument))"
    by (rule bad_interface_not_opened [OF _ _ _ _ new]) (use assms(3-6) o c in \<open>auto simp: is_ipv6_def validate_multicast_address_def\<close>)
  then show ?thesis using new by (auto simp: new_default_socket_throwing_def)
qed

definition demo_socket_os :: socket_os where
  "demo_socket_os =
     \<lparr>so_pton4 = (\<lambda>a. if a = ''224.0.0.251'' then Some [224, 0, 0, 251] else None),
      so_pton6 = (\<lambda>a. if a = ''fe80::1'' then Some (0xFE # 0x80 # replicate 13 0 @ [1]) else None),
      so_errno = 0, so_socket = (\<lambda>v6. 7), so_setsockopt = (\<lambda>opt. None), so_getfl = Inr 2, so_setfl = (\<lambda>flags. None),
      so_bind = (\<lambda>addr. None), so_sendto = (\<lambda>addr data. None), so_ifaddrs = None, so_nametoindex = (\<lambda>name. 0)\<rparr>"

definition nic_ipv6 :: network_interface where
  "nic_ipv6 = \<lparr>ni_name = ''eth1'', ni_ipv4_address = [], ni_ipv6_address = ''fe80::1'', ni_index = 4, ni_is_loopback = False, ni_is_up = True\<rparr>"

theorem ipv6_only_interface_fails_witness:
  "(new_default_socket_throwing demo_socket_os (socket_options_for example_group_options nic_ipv6) :: _ + nat default_socket) =
     Inl (Errc Invalid_argument)"
  using ipv6_only_interface_fails [of example_group_options nic_ipv6 demo_socket_os, where ?'w = nat]
  by (simp add: demo_socket_os_def nic_ipv6_def calls_succeed_def c_str_def example_group_options_def)

text \<open>
  An IPv4 interface address is not found among the IPv6 addresses, so a socket for an IPv6 group joins
  on interface 0, the choice of the system.
\<close>

lemma ipv4_interface_ignored_for_ipv6:
  assumes "so_pton6 os (c_str addr) = None" and "\<forall>ifas. so_ifaddrs os = Some ifas \<longrightarrow> Some (replicate 16 0) \<notin> snd ` set ifas"
  shows "resolve_ipv6_interface_index os addr = 0"
proof (cases "so_ifaddrs os")
  case (Some ifas)
  then have "find (\<lambda>(name, a). a = Some (replicate 16 0)) ifas = None"
    using assms(2) by (auto simp: find_None_iff image_iff)
  then show ?thesis using Some assms(1) by (simp add: resolve_ipv6_interface_index_def pton6_or_zero_def)
qed (simp add: resolve_ipv6_interface_index_def)

section \<open>Closing\<close>

lemma default_close_closes:
  assumes "default_close s c = (s', c')"
  shows "ds_fd s' = - 1 \<and> default_close s' c' = (s', c') \<and> (ds_fd s \<noteq> - 1 \<longrightarrow> ds_fd s \<notin> fst ` set (dc_sockets c'))"
  using assms by (auto simp: default_close_def dc_deregister_socket_def sys_def split: if_splits)

end
