(* ===== verification/Asio_Socket.thy ===== *)
theory Asio_Socket
  imports Default_Socket
begin

text \<open>
  \<open>asio/asio_socket.h\<close>, in its POSIX variant: the socket of the Asio policy. The operations of Asio are
  arguments: they fail with an error code or succeed. The two constructors are written out
  twice in the source, once with exceptions and once with an error code, and so they are here.
\<close>

section \<open>Operations of Asio\<close>

datatype asio_address = Address_v4 bytes | Address_v6 bytes

datatype asio_option =
    Reuse_address bool
  | Outbound_interface_v4 bytes
  | Outbound_interface_v6 u32
  | Join_group asio_address
  | Join_group_v4 bytes bytes
  | Hops int
  | Enable_loopback bool

datatype asio_call =
    Asio_open bool
  | Asio_bind bool u16
  | Asio_set asio_option
  | Asio_native sockopt
  | Asio_send asio_address u16 bytes
  | Asio_close

text \<open>
  An error code is an integer, \<open>None\<close> is success. \<open>ax_pton4\<close> and \<open>ax_pton6\<close> are those of
  \<open>validate_multicast_address\<close>; \<open>make_address_v6\<close> yields the scope identifier.
\<close>

record asio_sys =
  ax_pton4 :: "string \<Rightarrow> bytes option"
  ax_pton6 :: "string \<Rightarrow> bytes option"
  ax_make_address :: "string \<Rightarrow> int + asio_address"
  ax_make_address_v4 :: "string \<Rightarrow> int + bytes"
  ax_make_address_v6 :: "string \<Rightarrow> int + u32"
  ax_open :: "bool \<Rightarrow> int option"
  ax_bind :: "bool \<Rightarrow> u16 \<Rightarrow> int option"
  ax_set :: "asio_option \<Rightarrow> int option"
  ax_send :: "asio_address \<Rightarrow> u16 \<Rightarrow> bytes \<Rightarrow> int option"

text \<open>\<open>as_waits\<close> are the handlers of pending waits, \<open>as_calls\<close> the calls of handlers that were made.\<close>

record 'w asio_socket =
  as_open :: bool
  as_buffer_size :: nat
  as_trace :: "asio_call list"
  as_waits :: "'w list"
  as_calls :: "('w \<times> recv_metadata \<times> bytes) list"

definition closed_asio_socket :: "'w asio_socket" where
  "closed_asio_socket = \<lparr>as_open = False, as_buffer_size = 0, as_trace = [], as_waits = [], as_calls = []\<rparr>"

definition ax :: "asio_call \<Rightarrow> 'w asio_socket \<Rightarrow> 'w asio_socket" where
  "ax call s = s\<lparr>as_trace := as_trace s @ [call]\<rparr>"

definition configure_ttl_extraction :: "bool \<Rightarrow> 'w asio_socket \<Rightarrow> 'w asio_socket" where
  "configure_ttl_extraction v6 s =
     (if v6 then ax (Asio_native (Ipv6_recvpktinfo 1)) (ax (Asio_native (Ipv6_recvhoplimit 1)) s)
      else ax (Asio_native (Ip_pktinfo_on 1)) (ax (Asio_native (Ip_recvttl 1)) s))"

definition hops_value :: "socket_options \<Rightarrow> int" where
  "hops_value opts = uint (case multicast_ttl opts of Some ttl \<Rightarrow> ttl | None \<Rightarrow> 255)"

section \<open>The throwing constructor\<close>

text \<open>An operation that throws its error code; an exception ends the constructor.\<close>

definition throwing :: "int option \<Rightarrow> 'a \<Rightarrow> sock_error + 'a" where
  "throwing r s = (case r of Some e \<Rightarrow> Inl (Errno e) | None \<Rightarrow> Inr s)"

definition lift_error :: "int + 'a \<Rightarrow> sock_error + 'a" where
  "lift_error r = (case r of Inl e \<Rightarrow> Inl (Errno e) | Inr x \<Rightarrow> Inr x)"

fun try_then :: "sock_error + 'a \<Rightarrow> ('a \<Rightarrow> sock_error + 'b) \<Rightarrow> sock_error + 'b" where
  "try_then (Inl e) f = Inl e"
| "try_then (Inr x) f = f x"

definition open_t :: "asio_sys \<Rightarrow> bool \<Rightarrow> 'w asio_socket \<Rightarrow> sock_error + 'w asio_socket" where
  "open_t os v6 s = throwing (ax_open os v6) ((ax (Asio_open v6) s)\<lparr>as_open := True\<rparr>)"

definition bind_t :: "asio_sys \<Rightarrow> bool \<Rightarrow> u16 \<Rightarrow> 'w asio_socket \<Rightarrow> sock_error + 'w asio_socket" where
  "bind_t os v6 port s = throwing (ax_bind os v6 port) (ax (Asio_bind v6 port) s)"

definition set_t :: "asio_sys \<Rightarrow> asio_option \<Rightarrow> 'w asio_socket \<Rightarrow> sock_error + 'w asio_socket" where
  "set_t os opt s = throwing (ax_set os opt) (ax (Asio_set opt) s)"

definition asio_socket_throwing :: "asio_sys \<Rightarrow> socket_options \<Rightarrow> sock_error + 'w asio_socket" where
  "asio_socket_throwing os opts =
     (let group = multicast_group opts; iface = interface_address opts
      in try_then (case validate_multicast_address (ax_pton4 os) (ax_pton6 os) (ep_address group) of
                     Some e \<Rightarrow> Inl (Errc e) | None \<Rightarrow> Inr ()) (\<lambda>_.
         try_then (lift_error (ax_make_address os (ep_address group))) (\<lambda>multicast_addr.
         try_then
           (case multicast_addr of
              Address_v6 _ \<Rightarrow>
                try_then (open_t os True closed_asio_socket) (\<lambda>s.
                try_then (set_t os (Reuse_address True) (configure_ttl_extraction True s)) (\<lambda>s.
                try_then (bind_t os True (ep_port group) s) (\<lambda>s.
                  if iface \<noteq> [] then
                    try_then (lift_error (ax_make_address_v6 os iface)) (\<lambda>scope_id.
                    try_then (set_t os (Outbound_interface_v6 scope_id) s) (\<lambda>s.
                      set_t os (Join_group multicast_addr) s))
                  else set_t os (Join_group multicast_addr) s)))
            | Address_v4 a \<Rightarrow>
                try_then (open_t os False closed_asio_socket) (\<lambda>s.
                try_then (set_t os (Reuse_address True) (configure_ttl_extraction False s)) (\<lambda>s.
                try_then (bind_t os False (ep_port group) s) (\<lambda>s.
                  if iface \<noteq> [] then
                    try_then (lift_error (ax_make_address_v4 os iface)) (\<lambda>iface_addr.
                    try_then (set_t os (Outbound_interface_v4 iface_addr) s) (\<lambda>s.
                      set_t os (Join_group_v4 a iface_addr) s))
                  else set_t os (Join_group multicast_addr) s)))) (\<lambda>s.
         try_then (set_t os (Hops (hops_value opts)) s) (\<lambda>s.
         try_then (set_t os (Enable_loopback (multicast_loopback opts = Loopback_enabled)) s) (\<lambda>s.
           Inr (s\<lparr>as_buffer_size := 4096\<rparr>)))))))"

section \<open>The constructor with an error code\<close>

text \<open>An operation that sets the error code; the socket keeps what was done before.\<close>

fun if_ok :: "sock_error option \<times> 'w asio_socket \<Rightarrow> ('w asio_socket \<Rightarrow> sock_error option \<times> 'w asio_socket) \<Rightarrow>
    sock_error option \<times> 'w asio_socket" where
  "if_ok (Some e, s) f = (Some e, s)"
| "if_ok (None, s) f = f s"

definition open_e :: "asio_sys \<Rightarrow> bool \<Rightarrow> 'w asio_socket \<Rightarrow> sock_error option \<times> 'w asio_socket" where
  "open_e os v6 s =
     (case ax_open os v6 of Some e \<Rightarrow> (Some (Errno e), s) | None \<Rightarrow> (None, (ax (Asio_open v6) s)\<lparr>as_open := True\<rparr>))"

definition bind_e :: "asio_sys \<Rightarrow> bool \<Rightarrow> u16 \<Rightarrow> 'w asio_socket \<Rightarrow> sock_error option \<times> 'w asio_socket" where
  "bind_e os v6 port s = (case ax_bind os v6 port of Some e \<Rightarrow> (Some (Errno e), s) | None \<Rightarrow> (None, ax (Asio_bind v6 port) s))"

definition set_e :: "asio_sys \<Rightarrow> asio_option \<Rightarrow> 'w asio_socket \<Rightarrow> sock_error option \<times> 'w asio_socket" where
  "set_e os opt s = (case ax_set os opt of Some e \<Rightarrow> (Some (Errno e), s) | None \<Rightarrow> (None, ax (Asio_set opt) s))"

definition asio_socket_ec :: "asio_sys \<Rightarrow> socket_options \<Rightarrow> sock_error option \<times> 'w asio_socket" where
  "asio_socket_ec os opts =
     (let group = multicast_group opts; iface = interface_address opts; s = closed_asio_socket
      in case validate_multicast_address (ax_pton4 os) (ax_pton6 os) (ep_address group) of
           Some e \<Rightarrow> (Some (Errc e), s)
         | None \<Rightarrow>
             (case ax_make_address os (ep_address group) of
                Inl e \<Rightarrow> (Some (Errno e), s)
              | Inr multicast_addr \<Rightarrow>
                  if_ok
                    (case multicast_addr of
                       Address_v6 _ \<Rightarrow>
                         if_ok (open_e os True s) (\<lambda>s.
                         if_ok (set_e os (Reuse_address True) (configure_ttl_extraction True s)) (\<lambda>s.
                         if_ok (bind_e os True (ep_port group) s) (\<lambda>s.
                           if iface \<noteq> [] then
                             (case ax_make_address_v6 os iface of
                                Inl e \<Rightarrow> (Some (Errno e), s)
                              | Inr scope_id \<Rightarrow>
                                  if_ok (set_e os (Outbound_interface_v6 scope_id) s) (\<lambda>s.
                                    set_e os (Join_group multicast_addr) s))
                           else set_e os (Join_group multicast_addr) s)))
                     | Address_v4 a \<Rightarrow>
                         if_ok (open_e os False s) (\<lambda>s.
                         if_ok (set_e os (Reuse_address True) (configure_ttl_extraction False s)) (\<lambda>s.
                         if_ok (bind_e os False (ep_port group) s) (\<lambda>s.
                           if iface \<noteq> [] then
                             (case ax_make_address_v4 os iface of
                                Inl e \<Rightarrow> (Some (Errno e), s)
                              | Inr iface_addr \<Rightarrow>
                                  if_ok (set_e os (Outbound_interface_v4 iface_addr) s) (\<lambda>s.
                                    set_e os (Join_group_v4 a iface_addr) s))
                           else set_e os (Join_group multicast_addr) s)))) (\<lambda>s.
                  if_ok (set_e os (Hops (hops_value opts)) s) (\<lambda>s.
                  if_ok (set_e os (Enable_loopback (multicast_loopback opts = Loopback_enabled)) s) (\<lambda>s.
                    (None, s\<lparr>as_buffer_size := 4096\<rparr>))))))"

section \<open>Use\<close>

definition asio_async_receive :: "'w \<Rightarrow> 'w asio_socket \<Rightarrow> 'w asio_socket" where
  "asio_async_receive handler s = s\<lparr>as_waits := as_waits s @ [handler]\<rparr>"

text \<open>
  The completion of the oldest wait: with an error (a cancelled wait), or with a readable socket, of which
  \<open>recvmsg\<close> then gets a message or fails.
\<close>

definition asio_wait_done ::
  "(bytes \<Rightarrow> string) \<Rightarrow> (bytes \<Rightarrow> string) \<Rightarrow> int option \<Rightarrow> (nat \<Rightarrow> received_msg option) \<Rightarrow> 'w asio_socket \<Rightarrow> 'w asio_socket" where
  "asio_wait_done ntop4 ntop6 ec recvmsg s =
     (case as_waits s of
        [] \<Rightarrow> s
      | handler # waits \<Rightarrow>
          (let s = s\<lparr>as_waits := waits\<rparr>
           in if ec \<noteq> None then s
              else case recvmsg (as_buffer_size s) of
                None \<Rightarrow> s
              | Some m \<Rightarrow> s\<lparr>as_calls := as_calls s @ [(handler, recv_meta ntop4 ntop6 m, rcv_data m)]\<rparr>))"

definition asio_send :: "asio_sys \<Rightarrow> endpoint \<Rightarrow> bytes \<Rightarrow> 'w asio_socket \<Rightarrow> sock_error option \<times> 'w asio_socket" where
  "asio_send os dest data s =
     (case ax_make_address os (ep_address dest) of
        Inl e \<Rightarrow> (Some (Errno e), s)
      | Inr a \<Rightarrow>
          (case ax_send os a (ep_port dest) data of
             Some e \<Rightarrow> (Some (Errno e), s)
           | None \<Rightarrow> (None, ax (Asio_send a (ep_port dest) data) s)))"

definition asio_send_void :: "asio_sys \<Rightarrow> endpoint \<Rightarrow> bytes \<Rightarrow> 'w asio_socket \<Rightarrow> 'w asio_socket" where
  "asio_send_void os dest data s =
     (case ax_make_address os (ep_address dest) of
        Inl e \<Rightarrow> s
      | Inr a \<Rightarrow> (case ax_send os a (ep_port dest) data of Some e \<Rightarrow> s | None \<Rightarrow> ax (Asio_send a (ep_port dest) data) s))"

definition asio_close :: "'w asio_socket \<Rightarrow> 'w asio_socket" where
  "asio_close s = (if as_open s then (ax Asio_close s)\<lparr>as_open := False\<rparr> else s)"

section \<open>The constructors agree\<close>

text \<open>What a caller of the constructor with an error code would have to throw.\<close>

fun outcome :: "sock_error option \<times> 'a \<Rightarrow> sock_error + 'a" where
  "outcome (Some e, s) = Inl e"
| "outcome (None, s) = Inr s"

lemma outcome_if_ok: "outcome (if_ok r f) = try_then (outcome r) (\<lambda>s. outcome (f s))"
  by (cases "(r, f)" rule: if_ok.cases) simp_all

lemma outcome_steps:
  "outcome (open_e os v6 s) = open_t os v6 s" "outcome (bind_e os v6 port s) = bind_t os v6 port s"
  "outcome (set_e os opt s) = set_t os opt s"
  by (simp_all add: open_e_def open_t_def bind_e_def bind_t_def set_e_def set_t_def throwing_def split: option.split)

text \<open>
  The two constructors of the Asio socket, written out separately, do the same: the throwing one throws
  exactly the error that the other reports, and without an error both have made the same calls.
\<close>

lemma asio_constructors_agree: "asio_socket_throwing os opts = outcome (asio_socket_ec os opts)"
  unfolding asio_socket_throwing_def asio_socket_ec_def Let_def
  by (cases "validate_multicast_address (ax_pton4 os) (ax_pton6 os) (ep_address (multicast_group opts))";
      cases "ax_make_address os (ep_address (multicast_group opts))"; cases "interface_address opts = []";
      cases "ax_make_address_v4 os (interface_address opts)"; cases "ax_make_address_v6 os (interface_address opts)")
    (simp_all add: lift_error_def outcome_if_ok outcome_steps split: asio_address.split)

section \<open>The two policies configure alike\<close>

text \<open>
  Everything that a socket was told, in order and in the vocabulary of the system calls of the default
  policy: the address it was bound to and every option, whether the call succeeded or not.
\<close>

datatype setting = Bound bool u16 | Option sockopt

fun sockopt_of :: "asio_option \<Rightarrow> sockopt" where
  "sockopt_of (Reuse_address b) = So_reuseaddr (if b then 1 else 0)"
| "sockopt_of (Outbound_interface_v4 a) = Ip_multicast_if a"
| "sockopt_of (Outbound_interface_v6 i) = Ipv6_multicast_if i"
| "sockopt_of (Join_group (Address_v4 a)) = Ip_add_membership a [0, 0, 0, 0]"
| "sockopt_of (Join_group (Address_v6 a)) = Ipv6_join_group a 0"
| "sockopt_of (Join_group_v4 a i) = Ip_add_membership a i"
| "sockopt_of (Hops n) = Ip_multicast_ttl n"
| "sockopt_of (Enable_loopback b) = Ip_multicast_loop (if b then 1 else 0)"

fun asio_settings :: "asio_call list \<Rightarrow> setting list" where
  "asio_settings [] = []"
| "asio_settings (Asio_bind v6 port # cs) = Bound v6 port # asio_settings cs"
| "asio_settings (Asio_set opt # cs) = Option (sockopt_of opt) # asio_settings cs"
| "asio_settings (Asio_native opt # cs) = Option opt # asio_settings cs"
| "asio_settings (_ # cs) = asio_settings cs"

fun default_settings :: "syscall list \<Rightarrow> setting list" where
  "default_settings [] = []"
| "default_settings (Sys_bind fd (Addr_in _ port) ok # cs) = Bound False port # default_settings cs"
| "default_settings (Sys_bind fd (Addr_in6 _ port) ok # cs) = Bound True port # default_settings cs"
| "default_settings (Sys_setsockopt fd opt ok # cs) = Option opt # default_settings cs"
| "default_settings (_ # cs) = default_settings cs"

text \<open>What the options ask of an IPv4 socket: interface, membership, TTL and loopback.\<close>

definition multicast_settings4 :: "socket_options \<Rightarrow> bytes \<Rightarrow> bytes \<Rightarrow> u8 \<Rightarrow> setting list" where
  "multicast_settings4 opts a iface ttl =
     (if interface_address opts \<noteq> [] then [Option (Ip_multicast_if iface), Option (Ip_add_membership a iface)]
      else [Option (Ip_add_membership a [0, 0, 0, 0])]) @
     [Option (Ip_multicast_ttl (uint ttl)), Option (Ip_multicast_loop (loop_value opts))]"

lemma asio_v4_trace:
  assumes "asio_socket_ec os opts = (None, s)" and "ax_make_address os (ep_address (multicast_group opts)) = Inr (Address_v4 a)"
    and "interface_address opts \<noteq> [] \<longrightarrow> ax_make_address_v4 os (interface_address opts) = Inr i" and "multicast_ttl opts = Some ttl"
  shows "asio_settings (as_trace s) =
     [Option (Ip_recvttl 1), Option (Ip_pktinfo_on 1), Option (So_reuseaddr 1), Bound False (ep_port (multicast_group opts))] @
     multicast_settings4 opts a i ttl"
  using assms
  by (cases "interface_address opts = []")
    (auto simp: asio_socket_ec_def Let_def open_e_def bind_e_def set_e_def configure_ttl_extraction_def ax_def closed_asio_socket_def
      loop_value_def hops_value_def multicast_settings4_def split: option.splits)

lemma default_v4_trace:
  assumes "new_default_socket dos opts = (None, d :: 'w default_socket)" and "so_pton4 dos (c_str (ep_address (multicast_group opts))) = Some a"
    and "\<not> is_ipv6 dos (ep_address (multicast_group opts))" and "multicast_ttl opts = Some ttl"
    and "interface_address opts \<noteq> [] \<longrightarrow> so_pton4 dos (c_str (interface_address opts)) = Some i"
  shows "default_settings (ds_trace d) =
     [Option (So_reuseaddr 1), Option (So_reuseport 1), Bound False (ep_port (multicast_group opts))] @
     multicast_settings4 opts a i ttl @ [Option (Ip_recvttl 1), Option (Ip_pktinfo_on 1)]"
  using assms
  by (cases "interface_address opts = []")
    (auto simp: new_default_socket_def open_and_configure_def configure_opened_def set_nonblocking_def configure_ipv4_def bind_socket_def
      set_sock_opt_def try_sock_opt_def sys_def unopened_socket_def pton4_or_zero_def ttl_value_def multicast_settings4_def Let_def
      split: option.splits sum.splits if_splits)


definition demo_asio_sys :: asio_sys where
  "demo_asio_sys =
     \<lparr>ax_pton4 = so_pton4 demo_socket_os, ax_pton6 = so_pton6 demo_socket_os,
      ax_make_address = (\<lambda>a. Inr (Address_v4 [224, 0, 0, 251])), ax_make_address_v4 = (\<lambda>a. Inl 22), ax_make_address_v6 = (\<lambda>a. Inl 22),
      ax_open = (\<lambda>v6. None), ax_bind = (\<lambda>v6 port. None), ax_set = (\<lambda>opt. None), ax_send = (\<lambda>a port data. None)\<rparr>"

definition demo_options :: socket_options where
  "demo_options = default_socket_options\<lparr>multicast_ttl := Some 1\<rparr>"


section \<open>A failed receive\<close>

text \<open>
  When \<open>recvmsg\<close> fails the handler of the wait is dropped without a call, so nobody waits again: the receive
  loop, which arms the next receive in its handler, hears nothing more although the socket is open.
\<close>

lemma failed_receive_ends_loop:
  assumes "as_waits s = [h]" and "recvmsg (as_buffer_size s) = None"
  shows "as_waits (asio_wait_done n4 n6 None recvmsg s) = [] \<and>
     fold (\<lambda>(ec, r). asio_wait_done n4 n6 ec r) events (asio_wait_done n4 n6 None recvmsg s) = asio_wait_done n4 n6 None recvmsg s \<and>
     as_calls (asio_wait_done n4 n6 None recvmsg s) = as_calls s"
proof -
  have "fold (\<lambda>(ec, r). asio_wait_done n4 n6 ec r) events s' = s'" if "as_waits s' = []" for s' :: "'a asio_socket"
    using that by (induction events) (auto simp: asio_wait_done_def)
  then show ?thesis using assms by (simp add: asio_wait_done_def)
qed

end
