(* ===== verification/Inproc_Loop.thy ===== *)
theory Inproc_Loop
  imports Inproc
begin

text \<open>
  The loops \<open>drain\<close>, \<open>run\<close> and \<open>stop\<close> of \<open>inproc/inproc_executor.h\<close>, over the steps of the executor. \<open>call\<close> says what the
  function or handler does that a step runs; the clock is read once per step. A loop need not end:
  not returning is the value \<open>None\<close>.
\<close>

section \<open>The loops\<close>

record ('p, 'w) inproc_system =
  is_executor :: "('p, 'w) inproc_executor"
  is_bus :: inproc_bus
  is_socks :: socks
  is_stopped :: bool

definition system_step ::
  "(nat \<Rightarrow> datagram list \<Rightarrow> bool) \<Rightarrow> int \<Rightarrow> ('p, 'w) inproc_system \<Rightarrow> ('p, 'w) action \<times> ('p, 'w) inproc_system" where
  "system_step rearm now sys =
     (case exec_step rearm now (is_executor sys) (is_bus sys) (is_socks sys) of
        (act, ex, b, ss) \<Rightarrow> (act, sys\<lparr>is_executor := ex, is_bus := b, is_socks := ss\<rparr>))"

text \<open>The result carries the number of clock readings, so that a caller goes on with later ones.\<close>

partial_function (option) inproc_drain ::
  "(nat \<Rightarrow> datagram list \<Rightarrow> bool) \<Rightarrow> (('p, 'w) action \<Rightarrow> ('p, 'w) inproc_system \<Rightarrow> ('p, 'w) inproc_system) \<Rightarrow> (nat \<Rightarrow> int) \<Rightarrow> nat \<Rightarrow>
   ('p, 'w) inproc_system \<Rightarrow> (nat \<times> ('p, 'w) inproc_system) option" where
  "inproc_drain rearm call clock n sys =
     (case system_step rearm (clock n) sys of
        (act, sys) \<Rightarrow> if act = Idle then Some (Suc n, sys) else inproc_drain rearm call clock (Suc n) (call act sys))"

partial_function (option) inproc_run ::
  "(nat \<Rightarrow> datagram list \<Rightarrow> bool) \<Rightarrow> (('p, 'w) action \<Rightarrow> ('p, 'w) inproc_system \<Rightarrow> ('p, 'w) inproc_system) \<Rightarrow> (nat \<Rightarrow> int) \<Rightarrow> nat \<Rightarrow>
   ('p, 'w) inproc_system \<Rightarrow> ('p, 'w) inproc_system option" where
  "inproc_run rearm call clock n sys =
     (if is_stopped sys then Some sys
      else do {
        (n, sys) \<leftarrow> inproc_drain rearm call clock n sys;
        inproc_run rearm call clock n sys
      })"

definition inproc_stop :: "('p, 'w) inproc_system \<Rightarrow> ('p, 'w) inproc_system" where
  "inproc_stop sys = sys\<lparr>is_stopped := True\<rparr>"

section \<open>Draining ends\<close>

text \<open>The work at hand: posted functions, pending waits and queued packets.\<close>

definition work :: "('p, 'w) inproc_system \<Rightarrow> nat" where
  "work sys = length (ex_posted (is_executor sys)) +
     length (filter (\<lambda>(i, t). has_pending_wait t) (ex_timers (is_executor sys))) + length (bus_queue (is_bus sys))"

lemma try_fire_pending:
  "try_fire now t = (t', Some w) \<Longrightarrow> has_pending_wait t \<and> \<not> has_pending_wait t'"
  "try_fire now t = (t', None) \<Longrightarrow> t' = t"
  using inproc.fire_some [of now t t' w] inproc.fire_none [of now t t'] by (auto simp: has_pending_wait_def)

lemma fire_first_work:
  "fire_first now ts = (ts', Some r) \<Longrightarrow>
   Suc (length (filter (\<lambda>(i, t). has_pending_wait t) ts')) = length (filter (\<lambda>(i, t). has_pending_wait t) ts)"
  by (induction ts arbitrary: ts') (auto split: prod.splits option.splits dest!: try_fire_pending)

lemma system_step_work: "system_step rearm now sys = (act, sys') \<Longrightarrow> act \<noteq> Idle \<Longrightarrow> work sys' < work sys"
  by (auto simp: system_step_def exec_step_def deliver_one_def work_def Let_def
      split: list.splits prod.splits option.splits if_splits dest!: fire_first_work dest: fire_first_none)

lemma system_step_idle:
  "system_step rearm now sys = (Idle, sys') \<Longrightarrow>
   sys' = sys \<and> ex_posted (is_executor sys) = [] \<and> bus_queue (is_bus sys) = [] \<and>
   (\<forall>(i, t) \<in> set (ex_timers (is_executor sys)). snd (try_fire now t) = None)"
  using executor_priorities [of rearm now "is_executor sys" "is_bus sys" "is_socks sys"]
  by (cases "exec_step rearm now (is_executor sys) (is_bus sys) (is_socks sys)") (auto simp: system_step_def)

text \<open>
  When the functions that are run create no new work beyond what they consume, \<open>drain\<close> returns, after at most
  as many steps as there is work, with nothing posted, no packet queued and no wait due.
\<close>

lemma drain_returns:
  assumes "\<And>act sys. work (call act sys) \<le> work sys"
  shows "\<exists>m sys'. inproc_drain rearm call clock n sys = Some (m, sys') \<and> m \<le> Suc (n + work sys) \<and>
     ex_posted (is_executor sys') = [] \<and> bus_queue (is_bus sys') = [] \<and>
     (\<forall>(i, t) \<in> set (ex_timers (is_executor sys')). snd (try_fire (clock (m - 1)) t) = None)"
proof (induction "work sys" arbitrary: n sys rule: less_induct)
  case less
  obtain act sys1 where step: "system_step rearm (clock n) sys = (act, sys1)" by fastforce
  show ?case
  proof (cases "act = Idle")
    case True
    then show ?thesis using step system_step_idle [of rearm "clock n" sys sys1]
      by (subst inproc_drain.simps) auto
  next
    case False
    have w: "work (call act sys1) < work sys" using system_step_work [OF step False] assms [of act sys1] by linarith
    from less [OF this, of "Suc n"] show ?thesis using step False w by (subst inproc_drain.simps) fastforce
  qed
qed

lemma run_stopped: "is_stopped sys \<Longrightarrow> inproc_run rearm call clock n sys = Some sys"
  by (subst inproc_run.simps) simp

text \<open>\<open>run\<close> returns after the first drain in which a handler stopped the executor.\<close>

lemma run_returns_after_stop:
  "inproc_drain rearm call clock n sys = Some (m, sys') \<Longrightarrow> is_stopped sys' \<Longrightarrow> \<not> is_stopped sys \<Longrightarrow>
   inproc_run rearm call clock n sys = Some sys'"
  by (subst inproc_run.simps) (simp add: run_stopped)

end
