(* ===== verification/Mock_Policy.thy ===== *)
theory Mock_Policy
  imports Inproc Recv_Loop
begin

text \<open>
  \<open>testing/mock_policy.h\<close>: executor, socket and timer with which the peers are tested. The functions that a handler
  calls are arguments; the two failure switches are arguments too. The socket is compared with the
  one of the in-process policy: both hand over every packet once and in order.
\<close>

section \<open>The executor\<close>

text \<open>\<open>drain_posted\<close> with the effect of the posted functions, which may post; not returning is \<open>None\<close>.\<close>

partial_function (option) drain_posted ::
  "('p \<Rightarrow> 's \<Rightarrow> 'p list \<times> 's) \<Rightarrow> 'p list \<Rightarrow> 's \<Rightarrow> 's option" where
  "drain_posted call posted s =
     (case posted of
        [] \<Rightarrow> Some s
      | fn # fns \<Rightarrow> (case call fn s of (new, s) \<Rightarrow> drain_posted call (fns @ new) s))"

section \<open>The timer\<close>

record 'w mock_timer =
  mt_pending_handler :: "'w option"
  mt_last_duration :: int
  mt_cancel_count :: int

definition new_mock_timer :: "'w mock_timer" where
  "new_mock_timer = \<lparr>mt_pending_handler = None, mt_last_duration = 0, mt_cancel_count = 0\<rparr>"

definition mt_expires_after :: "int \<Rightarrow> 'w mock_timer \<Rightarrow> 'w mock_timer" where
  "mt_expires_after d t =
     (let t = t\<lparr>mt_last_duration := d\<rparr>; t = t\<lparr>mt_pending_handler := None\<rparr> in t\<lparr>mt_cancel_count := mt_cancel_count t + 1\<rparr>)"

definition mt_async_wait :: "'w \<Rightarrow> 'w mock_timer \<Rightarrow> 'w mock_timer" where
  "mt_async_wait handler t = t\<lparr>mt_pending_handler := Some handler\<rparr>"

text \<open>The second component is the handler that is called, with \<open>operation_canceled\<close> or with success.\<close>

definition mt_cancel :: "'w mock_timer \<Rightarrow> 'w mock_timer \<times> 'w option" where
  "mt_cancel t =
     (let t = t\<lparr>mt_cancel_count := mt_cancel_count t + 1\<rparr>
      in case mt_pending_handler t of
           Some h \<Rightarrow> (t\<lparr>mt_pending_handler := None\<rparr>, Some h)
         | None \<Rightarrow> (t, None))"

definition mt_fire :: "'w mock_timer \<Rightarrow> 'w mock_timer \<times> 'w option" where
  "mt_fire t =
     (case mt_pending_handler t of
        Some h \<Rightarrow> (t\<lparr>mt_pending_handler := None\<rparr>, Some h)
      | None \<Rightarrow> (t, None))"

section \<open>The socket\<close>

datatype mock_error = Address_not_available | Network_unreachable

text \<open>\<open>ms_handled\<close> lists the packets on which handlers have been called.\<close>

record mock_socket =
  ms_receive_queue :: "datagram list"
  ms_pending_receive :: bool
  ms_sent_packets :: "(endpoint \<times> bytes) list"
  ms_opts :: socket_options
  ms_handled :: "datagram list"

definition new_mock_socket :: "socket_options \<Rightarrow> mock_socket" where
  "new_mock_socket opts =
     \<lparr>ms_receive_queue = [], ms_pending_receive = False, ms_sent_packets = [], ms_opts = opts, ms_handled = []\<rparr>"

definition new_mock_socket_ec :: "bool \<Rightarrow> socket_options \<Rightarrow> mock_error option \<times> mock_socket" where
  "new_mock_socket_ec fail_on_construct opts =
     (if fail_on_construct then Some Address_not_available else None, new_mock_socket opts)"

definition mock_enqueue :: "bytes \<Rightarrow> endpoint \<Rightarrow> u8 option \<Rightarrow> mock_socket \<Rightarrow> mock_socket" where
  "mock_enqueue packet from ttl s =
     s\<lparr>ms_receive_queue := ms_receive_queue s @ [\<lparr>dg_data = packet, dg_from = from, dg_ttl = ttl\<rparr>]\<rparr>"

text \<open>\<open>rearm\<close> tells whether the handler called on the last packet of a history arms the next receive.\<close>

function mock_async_receive :: "(datagram list \<Rightarrow> bool) \<Rightarrow> mock_socket \<Rightarrow> mock_socket" where
  "mock_async_receive rearm s =
     (case ms_receive_queue s of
        dg # dgs \<Rightarrow>
          (let s = s\<lparr>ms_receive_queue := dgs, ms_handled := ms_handled s @ [dg]\<rparr>
           in if rearm (ms_handled s) then mock_async_receive rearm s else s)
      | [] \<Rightarrow> s\<lparr>ms_pending_receive := True\<rparr>)"
  by pat_completeness auto
termination
  by (relation "measure (\<lambda>(_, s). length (ms_receive_queue s))") auto

declare mock_async_receive.simps [simp del]

definition inject_receive ::
  "(datagram list \<Rightarrow> bool) \<Rightarrow> endpoint \<Rightarrow> bytes \<Rightarrow> u8 option \<Rightarrow> mock_socket \<Rightarrow> mock_socket" where
  "inject_receive rearm from packet ttl s =
     (if ms_pending_receive s then
        (let s = s\<lparr>ms_pending_receive := False,
                   ms_handled := ms_handled s @ [\<lparr>dg_data = packet, dg_from = from, dg_ttl = ttl\<rparr>]\<rparr>
         in if rearm (ms_handled s) then mock_async_receive rearm s else s)
      else mock_enqueue packet from ttl s)"

definition mock_send :: "endpoint \<Rightarrow> bytes \<Rightarrow> mock_socket \<Rightarrow> mock_socket" where
  "mock_send dest data s = s\<lparr>ms_sent_packets := ms_sent_packets s @ [(dest, data)]\<rparr>"

definition mock_send_ec :: "bool \<Rightarrow> endpoint \<Rightarrow> bytes \<Rightarrow> mock_socket \<Rightarrow> mock_error option \<times> mock_socket" where
  "mock_send_ec fail_on_send dest data s =
     (if fail_on_send then (Some Network_unreachable, s) else (None, mock_send dest data s))"

definition clear_sent :: "mock_socket \<Rightarrow> mock_socket" where
  "clear_sent s = s\<lparr>ms_sent_packets := []\<rparr>"

section \<open>The mock socket refines the in-process socket\<close>

text \<open>The in-process socket that holds the same packets and the same receive.\<close>

definition as_inproc :: "endpoint \<Rightarrow> mock_socket \<Rightarrow> inproc_socket" where
  "as_inproc ep s =
     \<lparr>sk_open = True, sk_ep = ep, sk_pending_receive = ms_pending_receive s, sk_recv_queue = ms_receive_queue s,
      sk_handled = ms_handled s\<rparr>"

lemma mock_async_receive_refines: "as_inproc ep (mock_async_receive rearm s) = async_receive rearm (as_inproc ep s)"
proof (induction rearm s rule: mock_async_receive.induct)
  case (1 rearm s)
  show ?case
  proof (cases "ms_receive_queue s")
    case Nil
    then show ?thesis by (subst mock_async_receive.simps, subst async_receive.simps) (simp add: as_inproc_def)
  next
    case (Cons dg dgs)
    then show ?thesis using 1 [OF Cons]
      by (subst mock_async_receive.simps, subst async_receive.simps) (simp add: as_inproc_def Let_def)
  qed
qed

text \<open>
  A test that injects packets sees what a peer on the in-process network sees: injecting is a
  delivery, so packets are handed over once and in order, and arming a receive on queued packets
  handles them.
\<close>

lemma inject_receive_refines:
  "as_inproc ep (inject_receive rearm from packet ttl s) = deliver rearm from packet ttl (as_inproc ep s)"
proof -
  let ?dg = "\<lparr>dg_data = packet, dg_from = from, dg_ttl = ttl\<rparr>"
  let ?u = "s\<lparr>ms_pending_receive := False, ms_handled := ms_handled s @ [?dg]\<rparr>"
  let ?v = "(as_inproc ep s)\<lparr>sk_pending_receive := False, sk_handled := sk_handled (as_inproc ep s) @ [?dg]\<rparr>"
  have u: "as_inproc ep ?u = ?v" "ms_handled ?u = sk_handled ?v" "sk_pending_receive (as_inproc ep s) = ms_pending_receive s"
    by (simp_all add: as_inproc_def)
  show ?thesis
  proof (cases "ms_pending_receive s")
    case True
    then show ?thesis using u mock_async_receive_refines [of ep rearm ?u]
      by (simp add: inject_receive_def deliver_def Let_def)
  next
    case False
    then show ?thesis by (simp add: inject_receive_def deliver_def mock_enqueue_def as_inproc_def)
  qed
qed

lemma inject_receive_in_order:
  assumes "ms_pending_receive s \<longrightarrow> ms_receive_queue s = []"
  shows "received (as_inproc ep (inject_receive rearm from packet ttl s)) =
     received (as_inproc ep s) @ [\<lparr>dg_data = packet, dg_from = from, dg_ttl = ttl\<rparr>]"
  unfolding inject_receive_refines by (rule deliver_received) (use assms in \<open>simp add: socket_ok_def as_inproc_def\<close>)

text \<open>Draining functions that post nothing runs each once, in order.\<close>

lemma drain_posted_runs:
  "(\<And>fn s. fst (call fn s) = []) \<Longrightarrow> drain_posted call fns s = Some (fold (\<lambda>fn s. snd (call fn s)) fns s)"
proof (induction fns arbitrary: s)
  case Nil
  then show ?case by (subst drain_posted.simps) simp
next
  case (Cons fn fns)
  then show ?case by (subst drain_posted.simps) (simp add: case_prod_beta)
qed

text \<open>The mock timer displaces the previous wait when it is armed and fires a wait at most once.\<close>

lemma mock_timer_one_shot:
  "snd (mt_fire (mt_async_wait h (mt_expires_after d t))) = Some h \<and>
   snd (mt_fire (fst (mt_fire t))) = None \<and> snd (mt_fire (fst (mt_cancel t))) = None \<and> snd (mt_fire (mt_expires_after d t)) = None"
  by (simp add: mt_fire_def mt_async_wait_def mt_expires_after_def mt_cancel_def Let_def split: option.split)

end
