(* ===== verification/Spec2Isabelle.thy ===== *)
theory Spec2Isabelle
  imports Group_Services Querier Discovery Default_Wakeup Asio_Socket Inproc_Loop Mock_Policy
begin

text \<open>
  A verification development for \<open>mdnspp\<close>, a header-only C++ library for multicast DNS and DNS service
  discovery (\<open>src/lib/mdnspp\<close>, with the in-process policy of \<open>src/lib/mdnspp-inproc\<close> and the Asio policy
  of \<open>src/lib/mdnspp-asio\<close>).

  \<^bold>\<open>The program.\<close> A responder (\<open>basic_service_server\<close>) probes for its name, announces a service and answers
  queries; a querier (\<open>basic_querier\<close>), a discovery (\<open>basic_service_discovery\<close>) and an observer
  (\<open>basic_observer\<close>) ask and listen. Each is a peer with a socket, timers and a receive loop
  (\<open>detail/recv_loop.h\<close>) that hands over datagrams; the peers share the codecs of the DNS wire format, and
  a policy supplies executor, sockets and timers. The service monitor (\<open>basic_service_monitor\<close>) tracks the
  services of watched types continuously, on top of the record cache, the refresh schedules and the
  query backoff. An interface group (\<open>basic_nic_group\<close>) runs a set of peers on every network interface and
  follows the interfaces as an interface monitor (\<open>basic_nic_monitor\<close>) reports their changes.

  \<^bold>\<open>How it is modelled.\<close> Bytes, counts and TTLs are words of their width; a buffer access out of range, a
  failed assertion and a random distribution over an empty range are \<open>None\<close>, so a theorem that
  a result is \<open>Some\<close> is a statement of memory safety. \<open>expected\<close> is a sum with the error on the left.
  A peer is a record of its members; its effects (packets sent, callbacks called) are appended to
  an output list; a continuation in a timer or in the executor's queue is a value that names it,
  and an event function runs it. Random numbers are a stream, clock readings are arguments, the
  platform's \<open>inet_pton\<close>, the result of a send and user callbacks are parameters. Loops of the
  sources that are bounded by a count recurse on the count; the IPv6 printer has fuel nine, one more
  than its groups, and name decompression recurses on the bytes left, both proved to be enough.

  \<^bold>\<open>Wire format.\<close>
  \<^item> \<open>Prelude\<close>, \<open>Dns_Types\<close>: machine types, buffers, enumerations, names in lower case with a final dot,
    records, service descriptions (\<open>detail/dns_enums.h\<close>, \<open>dns_name.h\<close>, \<open>records.h\<close>, \<open>service_info.h\<close>).
  \<^item> \<open>Dns_Read\<close>, \<open>Name_Codec\<close>: \<open>detail/dns_read.h\<close>. The locale \<open>be_codec\<close> is the contract of an integer codec.
    Names: round trip, decompression, safety and termination on any input.
  \<^item> \<open>Ip_Text\<close>, \<open>Dns_Write\<close>, \<open>Dns_Parse\<close>, \<open>Frame_Codec\<close>: \<open>detail/dns_write.h\<close>, \<open>detail/mdns_util.h\<close>, \<open>parse.h\<close>,
    \<open>detail/dns_frame.h\<close>. Walking a frame is safe on every input.
  \<^item> \<open>Dns_Message\<close>: the specification of the wire format, a message and its bytes; walking the bytes
    of a valid message gives its records.
  \<^item> \<open>Dns_Query\<close>, \<open>Dns_Response\<close>: \<open>detail/dns_query.h\<close>, \<open>detail/dns_response.h\<close>. The builders write the bytes of the
    prescribed messages; splitting known answers over packets is a greedy partition.

  \<^bold>\<open>Records.\<close> \<open>Record_Identity\<close> and \<open>Record_Cache\<close>: \<open>record_cache.h\<close>. The cache refines a map from identities to
  entries; invariant, lookup, expiry, flush and goodbye. \<open>Resolved_Service\<close>: \<open>resolved_service.h\<close> and
  \<open>service_type.h\<close>; the two passes of the aggregation are equivalent to a direct description of the
  service of each instance.

  \<^bold>\<open>Infrastructure.\<close>
  \<^item> \<open>Double\<close>, \<open>Mdns_Options\<close>: scaling with rounded products; options, query backoff and refresh schedule.
  \<^item> \<open>Timer\<close>: \<open>inproc/inproc_timer.h\<close>; the locale \<open>one_shot_timer\<close> is the contract of a timer.
  \<^item> \<open>Inproc\<close>: bus, sockets and executor of the in-process policy; every packet reaches the addressed
    sockets once and in order, posted tasks go before timers and timers before packets.
  \<^item> \<open>Recv_Loop\<close>: the receive loop over the state of an arbitrary client. The locale \<open>loop_client\<close> carries an
    invariant of the client through the loop, the locale \<open>loop_evolution\<close> a preorder; server, querier,
    observer and monitor interpret both.
  \<^item> \<open>Probe_Announce\<close>: probe and announce counters, tiebreak and accumulation of truncated queries.

  \<^bold>\<open>The responder.\<close> \<open>Server_Match\<close> and \<open>Server_Response\<close> model how a query is inspected and a response
  aggregated (\<open>detail/server_query_match.h\<close>, \<open>detail/server_known_answer.h\<close>,
  \<open>detail/server_response_aggregation.h\<close>); \<open>Service_Server\<close> has every handler of \<open>basic_service_server.h\<close>.
  \<open>Server_Safety\<close> has the invariant and that no event is undefined; \<open>Server_Lifecycle\<close> what holds in all
  reachable states (no event is undefined, silence after a stop); \<open>Server_Progress\<close> that a started server
  becomes live, that its callbacks are called at most once and that a stop completes;
  \<open>Server_Answers\<close> what goodbyes and answers contain; \<open>Server_Stuck\<close> how an update can make the server stop
  answering.

  \<^bold>\<open>The clients.\<close> \<open>Querier\<close> (duplicate question suppression, collection of results), \<open>Observer\<close>, and \<open>Discovery\<close>,
  whose three operations share one timer and one socket. This theory joins the discovery and
  the responder: a browse gets exactly the advertised service.

  \<^bold>\<open>The service monitor.\<close> \<open>Service_Monitor\<close> has every operation of \<open>basic_service_monitor.h\<close>: its maps are association
  lists in order of insertion, and no property depends on that order. \<open>Monitor_Tracking\<close> shows that the
  processing of packets and of expired records keeps the state well-formed and reports every change of
  the set of live services; \<open>Monitor_Safety\<close> does the same for unwatching and queries, relates the snapshot
  to the live services and shows that the scheduled arithmetic stays in range; \<open>Monitor_Events\<close> has the
  invariant of all events and the reachable states. \<open>Monitor_Resolution\<close>: the packet of a responder makes
  a watched service live as announced. \<open>Monitor_Loss\<close>: what expiry and unwatching remove, and how a service
  that changes its SRV record is lost. \<open>Monitor_Schedule\<close>: queries over several packets are sent
  completely, and how the scheduler spins before a refresh point.

  \<^bold>\<open>Interfaces.\<close> \<open>Nic_Monitor\<close> has \<open>basic_nic_monitor.h\<close> with polling and the Linux backend, and shows that the changes
  which a comparison posts turn the interfaces of the old enumeration into those of the new one;
  \<open>Network_Interfaces\<close> has the POSIX and the Windows enumeration of \<open>network_interface.h\<close> and that its results have the form
  which comparisons rely on. \<open>Nic_Group\<close> has \<open>basic_nic_group.h\<close>, with the peers as states of their own models, and
  the group that is composed at run time. \<open>Group_Interfaces\<close>: the slots of a group follow the
  interfaces, and what a failed first enumeration does. \<open>Group_Peers\<close>: the locale \<open>managed_peer\<close> is what the
  group relies on of a peer; the three kinds of peers and their sum interpret it, and retired
  peers are silent. \<open>Group_Services\<close>: the settings and watches of the peers, the services that the group
  reports, and how a restart of the dynamic group loses its peers. Whether the socket of a new peer can be
  opened is an argument of the group; a constructor that throws is \<open>None\<close>.

  \<^bold>\<open>The default and the Asio policy.\<close> \<open>Default_Timer\<close> has the timer object of \<open>default/default_timer.h\<close>, a second
  \<open>one_shot_timer\<close>; \<open>Default_Context\<close> has the event loop of \<open>default/default_context.h\<close> in its Linux variant. The timers are
  objects in a store, so that a pointer to a destroyed one is visible; clock, \<open>poll\<close>, \<open>recvmsg\<close> and what other
  threads do while the loop waits are arguments of an iteration, and \<open>run\<close> recurses on the list of its
  iterations. \<open>Default_Loop\<close>: the delay handed to \<open>poll\<close>, and how the one-year silence timeout overflows it.
  \<open>Default_Run\<close>: the locale \<open>event_loop_client\<close> is what the loop relies on of the functions that it calls; functions
  that act on the context satisfy it. With functions that destroy no timer and whose receive handlers change sockets last if at
  all, every posted function runs once and in order, even after interrupted polls, and due timers fire,
  also those whose handlers re-arm them; a stop ends the loop, and a handler that destroys a timer breaks it. \<open>Default_Wakeup\<close>: the atomic steps of posting
  threads and of the loop interleaved, what they guarantee, and how a wakeup is lost.
  \<open>Default_Socket\<close>: \<open>default/default_socket.h\<close> with all its system calls; a socket is configured as prescribed
  or released. \<open>Asio_Socket\<close>: \<open>asio/asio_socket.h\<close>; its two constructors agree, and both policies request
  the same multicast settings of an IPv4 group in the same order, differing in \<open>SO_REUSEPORT\<close> and in when they ask
  for TTL and interface of received packets. \<open>Inproc_Loop\<close>: the loops of the in-process executor, which return when
  the functions that they run create no new work; not returning is \<open>None\<close>. \<open>Mock_Policy\<close>: the policy with which the
  peers are tested, whose socket refines the in-process one.

  \<^bold>\<open>Not modelled.\<close> The macOS branches, and the Windows branches of the socket and wakeup of the default policy, of
  the Asio socket and of the interface monitor; the timer, the policy and the completion-token adapters of
  Asio, which only forward to it; the test harness, output operators, hash functions and move constructors. The models of the peers start with an
  open socket, and a group whose peer cannot be constructed is not followed further. Time points and
  durations are unbounded integers where the source has 64-bit nanoseconds, so overflows of sums of
  them are not visible; where a property depends on their size, \<open>sane_intervals\<close> or a bound of its own says
  so. User callbacks of the peers observe and do not call back into the peer, and handlers on the
  in-process bus decide only whether to receive again. Peers run on one executor thread, as the library
  requires; of the concurrency between threads only posting to the default context and stopping it
  are modelled, the interleaving of single steps only for posts and returns of \<open>poll\<close> that a wakeup causes.
\<close>

section \<open>A browse and a responder\<close>

text \<open>A responder that is ready to answer browses for its service type.\<close>

definition service_type_question :: "service_info \<Rightarrow> question" where
  "service_type_question info = \<lparr>q_name = str (service_type info), q_type = 12, q_class = 1\<rparr>"

definition serving :: "server \<Rightarrow> bool" where
  "serving s \<longleftrightarrow>
     server_ok s \<and> pa_state (m_pa_state s) = Live \<and> \<not> m_stopped s \<and> \<not> armed (m_pending s) \<and> m_dup_suppression s = [] \<and>
     announceable (m_info s) \<and> inet_pton_width 16 (sys_inet_pton6 (m_env s)) \<and>
     asks_service (m_info s) (m_opts s) (service_type_question (m_info s))"

lemma empty_frame: "walk_dns_frame [] sender = Some []"
  by (simp add: walk_dns_frame_def)

lemma browse_query_answered:
  assumes "serving s" and "ep_port sender = 5353"
  defines "query \<equiv> message_bytes (query_message 0 (str (service_type (m_info s))) Type_ptr Multicast [])"
  shows "\<exists>s1 s2 pkt rs. on_packet sender query now s = Some s1 \<and> sent s1 = sent s \<and> next_fire s1 = Some s2 \<and>
    sent s2 = sent s @ [(multicast_ep s, pkt)] \<and> walk_dns_frame pkt receiver = Some rs \<and>
    aggregate rs = [announced_service (sys_inet_pton6 (m_env s)) (m_info s)] \<and>
    list_ex (\<lambda>r. variant_name r = service_type (m_info s)) rs"
proof -
  let ?m = "query_message 0 (str (service_type (m_info s))) Type_ptr Multicast []"
  let ?q = "service_type_question (m_info s)"
  have wf: "wf_name (str (service_type (m_info s)))" using assms(1) by (simp add: serving_def announceable_def)
  have q: "service_query s sender ?m ?q"
    using assms(1,2) wf
    by (simp add: serving_def service_query_def query_message_def valid_message_def msg_records_def service_type_question_def)
  have mask: "query_mask s ?m = empty_mask" by (simp add: query_mask_def query_message_def)
  have t: "dns_type_of (q_type ?q) = Type_ptr" by (simp add: service_type_question_def dns_type_of_def)
  have ns: "\<not> suppressed_query s ?m ?q"
    by (simp add: suppressed_query_def mask t all_suppressed_def empty_mask_def)
  have mc: "asked_mode ?q = Multicast" by (simp add: asked_mode_def service_type_question_def)
  obtain s1 s2 pkt where h: "on_packet sender query now s = Some s1" "sent s1 = sent s" "next_fire s1 = Some s2"
    "sent s2 = sent s @ (if pkt = [] then [] else [(multicast_ep s, pkt)])" "answers_question s ?m ?q pkt receiver"
    using multicast_answer [OF q mc ns, of now receiver] assms(1) unfolding query_def serving_def by blast
  obtain an ar where secs: "response_sections (sys_inet_pton6 (m_env s)) (m_info s) Type_ptr (m_opts s) 0xFFFFFFFF = (an, ar)"
    by fastforce
  have "aggregate_sections (sys_inet_pton6 (m_env s)) (m_info s) Type_ptr (negative s Type_ptr) empty_mask
      (suppress_known_answers (m_opts s)) (m_opts s) = (an, ar)"
    using secs by (simp add: aggregate_sections_def empty_mask_def negative_def)
  then have "walk_dns_frame pkt receiver = Some (List.map_filter (rr_decoded receiver) (an @ ar))"
    using h(5) unfolding answers_question_def t mask by (rule response_for_walk)
  moreover from this have "pkt \<noteq> []" using ptr_answer [OF secs, of receiver] empty_frame [of receiver] by auto
  ultimately show ?thesis using h ptr_answer [OF secs, of receiver] by auto
qed

text \<open>
  C1: Browsing from end to end. A browse for the service type of a live responder sends a query; when
  that query reaches the responder, its response timer fires with one multicast packet; and
  when that packet reaches the browser and the silence timeout passes, the completion handler gets
  exactly the responder's service, with its instance name, host, port, TXT entries and addresses.
\<close>

theorem browse_end_to_end:
  assumes "disc_run evs (new_discovery p6 send_fn mcast timeout on_record mopts on_error) = Some d0"
    and "d_loop d0 Browse = None" and "d_socket_open d0" and "d_accepts meta d0"
    and "serving s" and "ep_port sender = 5353" and "dns_name svc = service_type (m_info s)"
    and "t1 + d_silence_timeout d0 * 1000000 \<le> t2"
  shows "\<exists>d query s1 s2 pkt d'. async_browse svc True Multicast t0 d0 = Some d \<and>
    D_sent (d_multicast_ep d0) query \<in> set (drop (length (d_out d0)) (d_out d)) \<and>
    on_packet sender query now s = Some s1 \<and> sent s1 = sent s \<and>
    next_fire s1 = Some s2 \<and> sent s2 = sent s @ [(multicast_ep s, pkt)] \<and>
    disc_run [(Dev_packet meta pkt, t1), (Dev_silence, t2)] d = Some d' \<and>
    completions Browse (d_out d') = [D_browsed [announced_service (sys_inet_pton6 (m_env s)) (m_info s)]]"
proof -
  have n: "normalize svc = str (service_type (m_info s))" using assms(7) by (metis str_dns_name)
  have wf: "wf_name (str (service_type (m_info s)))" using assms(5) by (simp add: serving_def announceable_def)
  let ?query = "message_bytes (query_message 0 (str (service_type (m_info s))) Type_ptr Multicast [])"
  have enc: "encode_dns_name (normalize svc) \<noteq> []" unfolding n by (rule wf_name_encode(1) [OF wf])
  obtain d where d: "async_browse svc True Multicast t0 d0 = Some d" "started Browse True ?query t0 d0 d" "d_results d = []"
    "d_service_type d = service_type (m_info s)"
    using async_browse_result [OF assms(2) enc, of True Multicast t0] unfolding n assms(7) by blast
  obtain s1 s2 pkt rs where s: "on_packet sender ?query now s = Some s1" "sent s1 = sent s" "next_fire s1 = Some s2"
    "sent s2 = sent s @ [(multicast_ep s, pkt)]" "walk_dns_frame pkt (rm_sender meta) = Some rs"
    "aggregate rs = [announced_service (sys_inet_pton6 (m_env s)) (m_info s)]" "list_ex (\<lambda>r. variant_name r = service_type (m_info s)) rs"
    using browse_query_answered [OF assms(5,6), of now "rm_sender meta"] by blast
  have ok: "disc_ok d"
    using disc_step_keeps [of "Dev_browse svc True Multicast" t0 d0 d] disc_run_ok [OF assms(1) new_discovery_ok] d(1) by simp
  have "d_accepts meta d" using d(2) assms(4) by (simp add: started_def d_accepts_def split: option.splits)
  then have recv: "d_receives Browse meta d" "d_handler d Browse" "t1 + d_silence_timeout d * 1000000 \<le> t2"
    using d(2) assms(3,8) by (simp_all add: d_receives_def started_def)
  have "list_ex (\<lambda>r. variant_name r = d_service_type d) rs" using s(7) d(4) by simp
  then obtain d' where d': "disc_run [(Dev_packet meta pkt, t1), (Dev_silence, t2)] d = Some d'"
    "completions Browse (d_out d') = [D_browsed [announced_service (sys_inet_pton6 (m_env s)) (m_info s)]]"
    using browse_collects [OF ok recv(1,2) s(5) _ recv(3)] s(6) d(3) by auto
  moreover have "D_sent (d_multicast_ep d0) ?query \<in> set (drop (length (d_out d0)) (d_out d))"
    using d(2) by (auto simp: started_def)
  ultimately show ?thesis using d(1) s(1-4) by blast
qed

lemma live_server_serving: "serving live_server"
proof -
  have "service_type_question example_info = \<lparr>q_name = ''_http._tcp.local.'', q_type = 12, q_class = 1\<rparr>"
    by (simp add: service_type_question_def example_info_names)
  with example_service_query example_announceable example_pton show ?thesis
    by (simp add: serving_def service_query_def live_server_sels empty_pending_def)
qed

theorem browse_end_to_end_witness:
  "\<exists>d d' pkt. async_browse ''_http._tcp.local'' True Multicast 0 example_discovery = Some d \<and>
    disc_run [(Dev_packet from_server pkt, 1000000), (Dev_silence, 3001000000)] d = Some d' \<and>
    completions Browse (d_out d') = [D_browsed [announced_service (sys_inet_pton6 (m_env live_server)) (m_info live_server)]]"
proof -
  have run: "disc_run [] (new_discovery (\<lambda>_. None) (\<lambda>_ _. None) mdns_group 3000 False default_mdns_options False) = Some example_discovery"
    by (simp add: example_discovery_def)
  have d0: "d_loop example_discovery Browse = None" "d_socket_open example_discovery" "d_accepts from_server example_discovery"
    "1000000 + d_silence_timeout example_discovery * 1000000 \<le> 3001000000"
    by (simp_all add: example_discovery_def new_discovery_def d_accepts_def from_server_def default_mdns_options_def)
  have ty: "dns_name ''_http._tcp.local'' = service_type (m_info live_server)" by (simp add: live_server_sels example_info_def)
  have port: "ep_port \<lparr>ep_address = ''192.168.1.9'', ep_port = 5353\<rparr> = 5353" by simp
  from browse_end_to_end [OF run d0(1-3) live_server_serving port ty d0(4), of 0 0] show ?thesis by blast
qed

end
